(* ===== verification/Kit_Prelude.thy ===== *)
theory Kit_Prelude
  imports Main "HOL-Library.Word"
begin

text \<open>
  What every component theory shares: the names of Go's basic types, the result type of a
  fallible function, the outcome of a call that may panic, and a few generic lemmas.

  \<^item> A Go string is the sequence of runes that \<open>range\<close> reads from it (\<open>gostr\<close>), a rune a
    code point; where a component works on bytes its theory says so.
  \<^item> A point in time and a duration are integers (nanoseconds). The zero \<open>time.Time\<close> is 0.
  \<^item> A function with an \<open>error\<close> result returns \<open>Inl\<close> of its error or \<open>Inr\<close> of its value.
\<close>

type_synonym rune = nat
type_synonym gostr = "rune list"
type_synonym gotime = int
type_synonym duration = int
type_synonym u16 = "16 word"
type_synonym u32 = "32 word"
type_synonym u64 = "64 word"
type_synonym byte = "8 word"

definition zero_time :: gotime where
  "zero_time = 0"

text \<open>Go's integer division truncates towards zero.\<close>

definition go_div :: "int \<Rightarrow> int \<Rightarrow> int" where
  "go_div a b = sgn a * sgn b * (\<bar>a\<bar> div \<bar>b\<bar>)"

text \<open>Signed 64-bit arithmetic, as an integer brought back into range.\<close>

definition wrap64 :: "int \<Rightarrow> int" where
  "wrap64 i = signed_take_bit 63 i"

lemma wrap64_id: "- (2 ^ 63) \<le> i \<Longrightarrow> i < 2 ^ 63 \<Longrightarrow> wrap64 i = i"
  by (simp add: wrap64_def signed_take_bit_int_eq_self)

lemma go_div_nonneg: "0 \<le> a \<Longrightarrow> 0 \<le> b \<Longrightarrow> go_div a b = a div b"
  by (auto simp: go_div_def sgn_if)

subsection \<open>Fallible results\<close>

fun bind_res :: "'e + 'a \<Rightarrow> ('a \<Rightarrow> 'e + 'b) \<Rightarrow> 'e + 'b" where
  "bind_res (Inl e) f = Inl e"
| "bind_res (Inr x) f = f x"

lemma bind_res_Inr_iff [simp]:
  "bind_res r f = Inr y \<longleftrightarrow> (\<exists>x. r = Inr x \<and> f x = Inr y)"
  by (cases r) auto

lemma bind_res_Inl_iff:
  "bind_res r f = Inl e \<longleftrightarrow> r = Inl e \<or> (\<exists>x. r = Inr x \<and> f x = Inl e)"
  by (cases r) auto


subsection \<open>Strings\<close>

text \<open>
  A literal of the source is \<open>lit ''...''\<close>. Letters and digits are those of ASCII: the
  classification and the case mapping of other runes is the identity here, so statements about
  case hold for strings whose letters are ASCII.
\<close>

definition lit :: "string \<Rightarrow> gostr" where
  "lit s = map of_char s"

definition is_upper :: "rune \<Rightarrow> bool" where
  "is_upper r \<longleftrightarrow> 65 \<le> r \<and> r \<le> 90"

definition is_lower :: "rune \<Rightarrow> bool" where
  "is_lower r \<longleftrightarrow> 97 \<le> r \<and> r \<le> 122"

definition is_digit :: "rune \<Rightarrow> bool" where
  "is_digit r \<longleftrightarrow> 48 \<le> r \<and> r \<le> 57"

definition is_letter :: "rune \<Rightarrow> bool" where
  "is_letter r \<longleftrightarrow> is_upper r \<or> is_lower r"

definition to_upper :: "rune \<Rightarrow> rune" where
  "to_upper r = (if is_lower r then r - 32 else r)"

definition to_lower :: "rune \<Rightarrow> rune" where
  "to_lower r = (if is_upper r then r + 32 else r)"

definition ToUpper :: "gostr \<Rightarrow> gostr" where
  "ToUpper s = map to_upper s"

definition ToLower :: "gostr \<Rightarrow> gostr" where
  "ToLower s = map to_lower s"

fun Join :: "gostr list \<Rightarrow> gostr \<Rightarrow> gostr" where
  "Join [] sep = []"
| "Join [x] sep = x"
| "Join (x # y # r) sep = x @ sep @ Join (y # r) sep"

lemma to_lower_idem [simp]: "to_lower (to_lower r) = to_lower r"
  by (auto simp: to_lower_def is_upper_def)

lemma to_upper_idem [simp]: "to_upper (to_upper r) = to_upper r"
  by (auto simp: to_upper_def is_lower_def)

lemma ToLower_idem [simp]: "ToLower (ToLower s) = ToLower s"
  by (simp add: ToLower_def)

lemma ToUpper_idem [simp]: "ToUpper (ToUpper s) = ToUpper s"
  by (simp add: ToUpper_def)

text \<open>Decimal digits, most significant first.\<close>

fun nat_str :: "nat \<Rightarrow> gostr" where
  "nat_str n = (if n < 10 then [48 + n] else nat_str (n div 10) @ [48 + n mod 10])"

declare nat_str.simps [simp del]

definition int_str :: "int \<Rightarrow> gostr" where
  "int_str i = (if i < 0 then 45 # nat_str (nat (- i)) else nat_str (nat i))"

fun digits_val :: "nat \<Rightarrow> gostr \<Rightarrow> nat" where
  "digits_val acc [] = acc"
| "digits_val acc (r # rs) = digits_val (acc * 10 + (r - 48)) rs"

lemma digits_val_append: "digits_val acc (xs @ ys) = digits_val (digits_val acc xs) ys"
  by (induction acc xs rule: digits_val.induct) auto

lemma digits_val_nat_str [simp]: "digits_val 0 (nat_str n) = n"
proof (induction n rule: nat_str.induct)
  case (1 n)
  show ?case
  proof (cases "n < 10")
    case True
    then show ?thesis by (simp add: nat_str.simps[of n])
  next
    case False
    then show ?thesis using 1 by (simp add: nat_str.simps[of n] digits_val_append)
  qed
qed

lemma nat_str_inject [simp]: "nat_str m = nat_str n \<longleftrightarrow> m = n"
  by (metis digits_val_nat_str)

lemma nat_str_digits: "\<forall>r \<in> set (nat_str n). is_digit r"
proof (induction n rule: nat_str.induct)
  case (1 n)
  then show ?case by (cases "n < 10") (auto simp: nat_str.simps[of n] is_digit_def)
qed

lemma nat_str_not_Nil [simp]: "nat_str n \<noteq> []"
  by (subst nat_str.simps) auto

lemma int_str_inject [simp]: "int_str i = int_str j \<longleftrightarrow> i = j"
proof -
  have "45 \<notin> set (nat_str n)" for n using nat_str_digits[of n] by (auto simp: is_digit_def)
  then have "45 # xs \<noteq> nat_str n" "nat_str n \<noteq> 45 # xs" for n xs by (metis list.set_intros(1))+
  then show ?thesis by (auto simp: int_str_def)
qed

subsection \<open>\<open>strings.TrimSpace\<close>\<close>

text \<open>The runes with Unicode's White Space property, as \<open>unicode.IsSpace\<close> lists them.\<close>

definition is_space :: "rune \<Rightarrow> bool" where
  "is_space r \<longleftrightarrow> (9 \<le> r \<and> r \<le> 13) \<or> r = 32 \<or> r = 0x85 \<or> r = 0xA0 \<or> r = 0x1680
     \<or> (0x2000 \<le> r \<and> r \<le> 0x200a) \<or> r = 0x2028 \<or> r = 0x2029 \<or> r = 0x202f \<or> r = 0x205f
     \<or> r = 0x3000"

definition TrimSpace :: "gostr \<Rightarrow> gostr" where
  "TrimSpace s = rev (dropWhile is_space (rev (dropWhile is_space s)))"

lemma TrimSpace_id: "s = [] \<or> \<not> is_space (hd s) \<and> \<not> is_space (last s) \<Longrightarrow> TrimSpace s = s"
proof -
  have *: "dropWhile P xs = xs" if "xs = [] \<or> \<not> P (hd xs)" for P and xs :: gostr
    using that by (cases xs) auto
  assume "s = [] \<or> \<not> is_space (hd s) \<and> \<not> is_space (last s)"
  then show ?thesis unfolding TrimSpace_def by (subst *) (auto simp: * hd_rev)
qed

text \<open>\<open>strings.Split\<close> at a one-rune separator, and \<open>strings.SplitN\<close> with two parts.\<close>

fun split_on :: "rune \<Rightarrow> gostr \<Rightarrow> gostr list" where
  "split_on c [] = [[]]"
| "split_on c (r # rs) = (if r = c then [] # split_on c rs
     else (r # hd (split_on c rs)) # tl (split_on c rs))"

definition split2 :: "rune \<Rightarrow> gostr \<Rightarrow> (gostr \<times> gostr) option" where
  "split2 c s = (if c \<in> set s then Some (takeWhile (\<lambda>r. r \<noteq> c) s, tl (dropWhile (\<lambda>r. r \<noteq> c) s)) else None)"

lemma split_on_not_Nil [simp]: "split_on c s \<noteq> []"
  by (cases s) auto

lemma split_on_none: "c \<notin> set s \<Longrightarrow> split_on c s = [s]"
  by (induction s) auto

lemma split_on_append: "c \<notin> set w \<Longrightarrow> split_on c (w @ c # s) = w # split_on c s"
  by (induction w) auto

lemma split_on_Join: "ws \<noteq> [] \<Longrightarrow> \<forall>w \<in> set ws. c \<notin> set w \<Longrightarrow> split_on c (Join ws [c]) = ws"
  by (induction ws "[c]" rule: Join.induct) (auto simp: split_on_none split_on_append)

lemma split2_append: "c \<notin> set a \<Longrightarrow> split2 c (a @ c # b) = Some (a, b)"
  by (auto simp: split2_def takeWhile_append dropWhile_append takeWhile_eq_all_conv)

lemma Join_inject:
  assumes "\<forall>w \<in> set xs. c \<notin> set w" "\<forall>w \<in> set ys. c \<notin> set w" "xs \<noteq> []" "ys \<noteq> []"
    "Join xs [c] = Join ys [c]"
  shows "xs = ys"
  using split_on_Join assms by metis

lemma Join_snoc: "xs \<noteq> [] \<Longrightarrow> Join (xs @ [x]) sep = Join xs sep @ sep @ x"
  by (induction xs sep rule: Join.induct) auto

subsection \<open>Parts of strings\<close>

fun has_prefix :: "gostr \<Rightarrow> gostr \<Rightarrow> bool" where
  "has_prefix [] s = True"
| "has_prefix (p # ps) [] = False"
| "has_prefix (p # ps) (c # cs) = (p = c \<and> has_prefix ps cs)"

text \<open>\<open>strings.Contains\<close>, \<open>TrimPrefix\<close>, \<open>TrimLeft\<close> and \<open>TrimRight\<close> of one character.\<close>

fun Contains :: "gostr \<Rightarrow> gostr \<Rightarrow> bool" where
  "Contains [] m = (m = [])"
| "Contains (c # cs) m = (has_prefix m (c # cs) \<or> Contains cs m)"

definition TrimPrefix :: "gostr \<Rightarrow> gostr \<Rightarrow> gostr" where
  "TrimPrefix s p = (if has_prefix p s then drop (length p) s else s)"

definition TrimLeft1 :: "rune \<Rightarrow> gostr \<Rightarrow> gostr" where
  "TrimLeft1 c s = dropWhile (\<lambda>r. r = c) s"

definition TrimRight1 :: "rune \<Rightarrow> gostr \<Rightarrow> gostr" where
  "TrimRight1 c s = rev (dropWhile (\<lambda>r. r = c) (rev s))"

lemma has_prefix_append [simp]: "has_prefix p (p @ s)"
  by (induction p) auto

lemma has_prefix_iff: "has_prefix p s \<longleftrightarrow> (\<exists>t. s = p @ t)"
  by (induction p s rule: has_prefix.induct) auto

lemma TrimPrefix_append [simp]: "TrimPrefix (p @ s) p = s"
  by (simp add: TrimPrefix_def)

lemma Contains_iff: "Contains s p \<longleftrightarrow> (\<exists>a b. s = a @ p @ b)"
proof (induction s)
  case (Cons c s)
  show ?case
  proof
    assume "Contains (c # s) p"
    then consider b where "c # s = p @ b" | a b where "s = a @ p @ b" using Cons by (auto simp: has_prefix_iff)
    then show "\<exists>a b. c # s = a @ p @ b"
    proof cases
      case 1
      then have "c # s = [] @ p @ b" by simp
      then show ?thesis by blast
    next
      case 2
      then have "c # s = (c # a) @ p @ b" by simp
      then show ?thesis by blast
    qed
  next
    assume "\<exists>a b. c # s = a @ p @ b"
    then obtain a b where "c # s = a @ p @ b" by blast
    then show "Contains (c # s) p"
    proof (cases a)
      case Nil
      then have "has_prefix p (c # s)" using \<open>c # s = a @ p @ b\<close> by simp
      then show ?thesis by simp
    qed (use Cons in auto)
  qed
qed auto

text \<open>\<open>strconv.ParseInt\<close> in base 10 with 64 bits.\<close>

definition ParseInt :: "gostr \<Rightarrow> int option" where
  "ParseInt s =
     (let (neg, ds) = (if s \<noteq> [] \<and> hd s = 45 then (True, tl s) else if s \<noteq> [] \<and> hd s = 43 then (False, tl s) else (False, s))
      in if ds = [] \<or> \<not> list_all is_digit ds then None
         else let n = int (digits_val 0 ds); i = (if neg then - n else n)
              in if i < - (2 ^ 63) \<or> 2 ^ 63 \<le> i then None else Some i)"

text \<open>\<open>strings.Fields\<close>, \<open>HasSuffix\<close> and \<open>TrimSuffix\<close>.\<close>

fun fields_loop :: "gostr \<Rightarrow> gostr \<Rightarrow> gostr list" where
  "fields_loop [] w = (if w = [] then [] else [rev w])"
| "fields_loop (c # s) w = (if is_space c then (if w = [] then fields_loop s [] else rev w # fields_loop s []) else fields_loop s (c # w))"

definition Fields :: "gostr \<Rightarrow> gostr list" where
  "Fields s = fields_loop s []"

definition HasSuffix :: "gostr \<Rightarrow> gostr \<Rightarrow> bool" where
  "HasSuffix s p \<longleftrightarrow> has_prefix (rev p) (rev s)"

definition TrimSuffix :: "gostr \<Rightarrow> gostr \<Rightarrow> gostr" where
  "TrimSuffix s p = (if HasSuffix s p then take (length s - length p) s else s)"

text \<open>\<open>path.Clean\<close>, \<open>path.Join\<close> and \<open>path.Base\<close>.\<close>

definition clean_step :: "bool \<Rightarrow> gostr \<Rightarrow> gostr list \<Rightarrow> gostr list" where
  "clean_step rooted c acc =
     (if c = [] \<or> c = [46] then acc
      else if c = [46, 46] then (if acc \<noteq> [] \<and> hd acc \<noteq> [46, 46] then tl acc else if rooted then acc else c # acc)
      else c # acc)"

definition path_Clean :: "gostr \<Rightarrow> gostr" where
  "path_Clean s =
     (let rooted = (s \<noteq> [] \<and> hd s = 47);
          out = Join (rev (fold (clean_step rooted) (split_on 47 s) [])) [47]
      in if rooted then 47 # out else if out = [] then [46] else out)"

definition path_Join :: "gostr list \<Rightarrow> gostr" where
  "path_Join elems = (let es = filter (\<lambda>e. e \<noteq> []) elems in if es = [] then [] else path_Clean (Join es [47]))"

definition path_Base :: "gostr \<Rightarrow> gostr" where
  "path_Base s =
     (if s = [] then [46]
      else let t = TrimRight1 47 s in if t = [] then [47] else rev (takeWhile (\<lambda>r. r \<noteq> 47) (rev t)))"

text \<open>\<open>filepath.Dir\<close>: what stands before the last slash.\<close>

definition path_Dir :: "gostr \<Rightarrow> gostr" where
  "path_Dir s = path_Clean (rev (dropWhile (\<lambda>c. c \<noteq> 47) (rev s)))"

subsection \<open>Reachable states\<close>

text \<open>The contract between a step relation and the facts about its runs: an invariant holds at the start and
  every step keeps it.\<close>

locale transition_system =
  fixes initial :: "'s \<Rightarrow> bool" and step :: "'s \<Rightarrow> 's \<Rightarrow> bool" and inv :: "'s \<Rightarrow> bool"
  assumes initial_inv: "initial s \<Longrightarrow> inv s"
    and step_inv: "inv s \<Longrightarrow> step s s' \<Longrightarrow> inv s'"
begin

lemma run_inv: "step\<^sup>*\<^sup>* s s' \<Longrightarrow> inv s \<Longrightarrow> inv s'"
  by (induction rule: rtranclp_induct) (auto intro: step_inv)

lemma reach_inv: "initial s \<Longrightarrow> step\<^sup>*\<^sup>* s s' \<Longrightarrow> inv s'"
  by (rule run_inv[OF _ initial_inv])

text \<open>What every step keeps in states that satisfy the invariant, a whole run keeps.\<close>

lemma run_stable:
  assumes "\<And>s s'. inv s \<Longrightarrow> step s s' \<Longrightarrow> P s \<Longrightarrow> P s'" "step\<^sup>*\<^sup>* s s'" "inv s" "P s"
  shows "P s'"
proof -
  have "inv s' \<and> P s'" using assms(2,3,4) by (induction rule: rtranclp_induct) (auto intro: step_inv assms(1))
  then show ?thesis ..
qed

end

end
