(* ===== verification/Trie_Kit.thy ===== *)
theory Trie_Kit
  imports Kit_Prelude "HOL-Library.Sublist"
begin

text \<open>
  The prefix tree of \<open>trie/trie.go\<close>. A node is its map from runes to children and its
  end-of-word mark; a nil child is \<open>None\<close>. No two nodes share a child, so the pointers of the
  code are modelled by the tree itself and \<open>Insert\<close> returns the changed tree.
\<close>

datatype trie_node = Node (children: "rune \<Rightarrow> trie_node option") (isEndOfWord: bool)

definition empty_node :: trie_node where
  "empty_node = Node (\<lambda>_. None) False"

definition NewTrie :: trie_node where
  "NewTrie = empty_node"

subsection \<open>Insert\<close>

text \<open>The loop of \<open>Insert\<close>: follow a rune, creating the missing child, and mark the last node.\<close>

fun insert_runes :: "gostr \<Rightarrow> trie_node \<Rightarrow> trie_node" where
  "insert_runes [] node = Node (children node) True"
| "insert_runes (r # rs) node =
     (let child = (case children node r of None \<Rightarrow> empty_node | Some c \<Rightarrow> c)
      in Node ((children node)(r := Some (insert_runes rs child))) (isEndOfWord node))"

definition Insert :: "gostr \<Rightarrow> trie_node \<Rightarrow> trie_node" where
  "Insert word0 root =
     (let word = TrimSpace word0 in if word = [] then root else insert_runes word root)"

subsection \<open>Lookup\<close>

text \<open>
  The loop of \<open>traverse\<close>: \<open>matched\<close> is what the string builder holds so far.
\<close>

fun traverse_loop :: "trie_node \<Rightarrow> gostr \<Rightarrow> bool \<Rightarrow> gostr \<Rightarrow> bool \<times> gostr" where
  "traverse_loop node [] buildString matched = (False, [])"
| "traverse_loop node (r # rs) buildString matched =
     (case children node r of
        None \<Rightarrow> (False, [])
      | Some child \<Rightarrow>
          let matched' = (if buildString then matched @ [r] else matched)
          in if isEndOfWord child then (if buildString then (True, matched') else (True, []))
             else traverse_loop child rs buildString matched')"

definition traverse :: "trie_node \<Rightarrow> gostr \<Rightarrow> bool \<Rightarrow> bool \<times> gostr" where
  "traverse root input buildString = traverse_loop root input buildString []"

definition GetMatchedPrefixWord :: "trie_node \<Rightarrow> gostr \<Rightarrow> bool \<times> gostr" where
  "GetMatchedPrefixWord root input = traverse root input True"

definition HasMatchedPrefixWords :: "trie_node \<Rightarrow> gostr \<Rightarrow> bool" where
  "HasMatchedPrefixWords root input = (case traverse root input False of (matched, _) \<Rightarrow> matched)"

subsection \<open>The stored words\<close>

fun has_word :: "trie_node \<Rightarrow> gostr \<Rightarrow> bool" where
  "has_word node [] = isEndOfWord node"
| "has_word node (r # rs) = (case children node r of None \<Rightarrow> False | Some c \<Rightarrow> has_word c rs)"

lemma has_word_empty_node [simp]: "\<not> has_word empty_node w"
  by (cases w) (auto simp: empty_node_def)

lemma has_word_insert_runes:
  "has_word (insert_runes w node) v \<longleftrightarrow> v = w \<or> has_word node v"
proof (induction w node arbitrary: v rule: insert_runes.induct)
  case (1 node)
  show ?case by (cases v) auto
next
  case (2 r rs node)
  show ?case
  proof (cases v)
    case Nil
    then show ?thesis by (simp add: Let_def)
  next
    case (Cons x xs)
    with "2.IH" show ?thesis by (auto simp: Let_def split: option.splits)
  qed
qed

lemma has_word_Insert:
  "has_word (Insert w root) v \<longleftrightarrow> (TrimSpace w \<noteq> [] \<and> v = TrimSpace w) \<or> has_word root v"
  by (simp add: Insert_def Let_def has_word_insert_runes)

definition stored_words :: "gostr list \<Rightarrow> gostr list" where
  "stored_words ws = filter (\<lambda>w. w \<noteq> []) (map TrimSpace ws)"

definition trie_of :: "gostr list \<Rightarrow> trie_node" where
  "trie_of ws = foldl (\<lambda>t w. Insert w t) NewTrie ws"

lemma has_word_foldl_Insert:
  "has_word (foldl (\<lambda>t w. Insert w t) t ws) v \<longleftrightarrow> v \<in> set (stored_words ws) \<or> has_word t v"
  by (induction ws arbitrary: t) (auto simp: stored_words_def has_word_Insert)

lemma has_word_trie_of [simp]: "has_word (trie_of ws) v \<longleftrightarrow> v \<in> set (stored_words ws)"
  by (simp add: trie_of_def has_word_foldl_Insert NewTrie_def)

text \<open>
  The specification of a lookup, for any set of words: the first of the input's non-empty
  prefixes, shortest first, that is a word.
\<close>

definition shortest_prefix :: "(gostr \<Rightarrow> bool) \<Rightarrow> gostr \<Rightarrow> gostr option" where
  "shortest_prefix P s = find P (tl (prefixes s))"

lemma find_map: "find P (map f xs) = map_option f (find (P \<circ> f) xs)"
  by (induction xs) auto

lemma shortest_prefix_Cons:
  "shortest_prefix P (x # xs) =
     (if P [x] then Some [x] else map_option (Cons x) (shortest_prefix (\<lambda>p. P (x # p)) xs))"
  by (cases xs) (auto simp: shortest_prefix_def find_map comp_def option.map_comp)

lemma shortest_prefix_Nil [simp]: "shortest_prefix P [] = None"
  by (simp add: shortest_prefix_def)

lemma find_False: "(\<And>x. \<not> P x) \<Longrightarrow> find P xs = None"
  by (induction xs) auto

lemma traverse_loop_shortest:
  "traverse_loop node s b m =
     (case shortest_prefix (has_word node) s of
        None \<Rightarrow> (False, [])
      | Some p \<Rightarrow> (True, if b then m @ p else []))"
proof (induction node s b m rule: traverse_loop.induct)
  case (1 node b m)
  show ?case by simp
next
  case (2 node r rs b m)
  show ?case
  proof (cases "children node r")
    case None
    then have "shortest_prefix (has_word node) (r # rs) = None"
      by (auto simp: shortest_prefix_Cons) (simp add: shortest_prefix_def find_False)
    with None show ?thesis by simp
  next
    case (Some c)
    show ?thesis
    proof (cases "isEndOfWord c")
      case True
      with Some show ?thesis by (simp add: shortest_prefix_Cons)
    next
      case False
      have eq: "(\<lambda>p. has_word node (r # p)) = has_word c" using Some by auto
      from False Some "2.IH"[OF Some refl False] show ?thesis
        by (auto simp: shortest_prefix_Cons eq split: option.splits)
    qed
  qed
qed

subsection \<open>What a lookup returns\<close>

text \<open>
  C8. On a trie built by inserting the words \<open>ws\<close>, \<open>GetMatchedPrefixWord\<close> returns the shortest
  non-empty prefix of the input that is one of the trimmed, non-empty words inserted, and
  (false, "") when no prefix of the input is such a word.
\<close>

theorem GetMatchedPrefixWord_shortest:
  "GetMatchedPrefixWord (foldl (\<lambda>t w. Insert w t) NewTrie ws) s =
     (case find (\<lambda>p. p \<in> set (filter (\<lambda>w. w \<noteq> []) (map TrimSpace ws))) (prefixes s) of
        None \<Rightarrow> (False, [])
      | Some p \<Rightarrow> (True, p))"
proof -
  have "\<not> has_word (trie_of ws) []"
    unfolding has_word_trie_of by (simp add: stored_words_def)
  then have "find (has_word (trie_of ws)) (prefixes s) = shortest_prefix (has_word (trie_of ws)) s"
    by (cases s) (auto simp: shortest_prefix_def simp del: has_word_trie_of)
  moreover have "has_word (trie_of ws) = (\<lambda>p. p \<in> set (stored_words ws))"
    by auto
  ultimately show ?thesis
    unfolding trie_of_def [symmetric] stored_words_def [symmetric]
    by (simp add: GetMatchedPrefixWord_def traverse_def traverse_loop_shortest split: option.split)
qed

text \<open>
  The allocation-free lookup agrees with the other one on every trie and every input:
  \<open>HasMatchedPrefixWords\<close> is the first component of \<open>GetMatchedPrefixWord\<close>.
\<close>

lemma HasMatchedPrefixWords_eq:
  "HasMatchedPrefixWords root input = fst (GetMatchedPrefixWord root input)"
  by (auto simp: HasMatchedPrefixWords_def GetMatchedPrefixWord_def traverse_def
      traverse_loop_shortest split: option.split)

end
