(* ===== verification/PQueue.thy ===== *)
theory PQueue
  imports Kit_Prelude "HOL-Library.Multiset"
begin

text \<open>
  The priority queue of \<open>queue/priorityQueue.go\<close> together with the parts of Go's
  \<open>container/heap\<close> it is driven by. The queue is a slice of pointers to items, and every item
  records its own position (\<open>index\<close>), which is how \<open>Update\<close> finds it. So the model keeps the
  pointers: a store of items and the slice of addresses.
\<close>

record 'v item =
  Value :: 'v
  Priority :: int
  timeStamp :: int
  index :: int

record 'v pqueue =
  items :: "nat \<Rightarrow> 'v item"
  slots :: "nat list"

definition Len :: "'v pqueue \<Rightarrow> nat" where
  "Len pq = length (slots pq)"

definition Less :: "'v pqueue \<Rightarrow> nat \<Rightarrow> nat \<Rightarrow> bool" where
  "Less pq i j =
     (let a = items pq (slots pq ! i); b = items pq (slots pq ! j)
      in if Priority a = Priority b then timeStamp a \<le> timeStamp b
         else Priority a > Priority b)"

definition set_index :: "nat \<Rightarrow> int \<Rightarrow> 'v pqueue \<Rightarrow> 'v pqueue" where
  "set_index p i pq = pq\<lparr>items := (items pq)(p := (items pq p)\<lparr>index := i\<rparr>)\<rparr>"

definition Swap :: "'v pqueue \<Rightarrow> nat \<Rightarrow> nat \<Rightarrow> 'v pqueue" where
  "Swap pq i j =
     (let p = slots pq ! i; q = slots pq ! j;
          pq1 = pq\<lparr>slots := (slots pq)[i := q, j := p]\<rparr>;
          pq2 = set_index (slots pq1 ! i) (int i) pq1
      in set_index (slots pq2 ! j) (int j) pq2)"

text \<open>\<open>Push\<close> and \<open>Pop\<close> of \<open>heap.Interface\<close>; \<open>now\<close> is the reading of \<open>makeTimestamp\<close>.\<close>

definition makeTimestamp :: "int \<Rightarrow> int" where
  "makeTimestamp unixNano = go_div unixNano 1000000"

definition Push :: "nat \<Rightarrow> int \<Rightarrow> 'v pqueue \<Rightarrow> 'v pqueue" where
  "Push p unixNano pq =
     (let n = Len pq; it = (items pq p)\<lparr>index := int n, timeStamp := makeTimestamp unixNano\<rparr>
      in pq\<lparr>items := (items pq)(p := it), slots := slots pq @ [p]\<rparr>)"

definition Pop :: "'v pqueue \<Rightarrow> nat option \<times> 'v pqueue" where
  "Pop pq =
     (if Len pq = 0 then (None, pq)
      else let p = slots pq ! (Len pq - 1); pq1 = set_index p (-1) pq
           in (Some p, pq1\<lparr>slots := take (Len pq - 1) (slots pq1)\<rparr>))"

definition Top :: "'v pqueue \<Rightarrow> 'v item option" where
  "Top pq = (if Len pq = 0 then None else Some (items pq (slots pq ! 0)))"

definition GetIndex :: "nat \<Rightarrow> 'v pqueue \<Rightarrow> int" where
  "GetIndex p pq = index (items pq p)"

subsection \<open>\<open>container/heap\<close>\<close>

text \<open>
  Go's \<open>(j - 1) / 2\<close> truncates towards zero, so it is 0 for \<open>j = 0\<close>, as it is on \<open>nat\<close>.
\<close>

function heap_up :: "'v pqueue \<Rightarrow> nat \<Rightarrow> 'v pqueue" where
  "heap_up h j =
     (let i = (j - 1) div 2
      in if i = j \<or> \<not> Less h j i then h else heap_up (Swap h i j) i)"
  by pat_completeness auto
termination
  by (relation "measure (\<lambda>(h, j). j)") auto

function heap_down :: "'v pqueue \<Rightarrow> nat \<Rightarrow> nat \<Rightarrow> 'v pqueue \<times> nat" where
  "heap_down h i n =
     (let j1 = 2 * i + 1
      in if j1 \<ge> n then (h, i)
         else let j = (if j1 + 1 < n \<and> Less h (j1 + 1) j1 then j1 + 1 else j1)
              in if \<not> Less h j i then (h, i) else heap_down (Swap h i j) j n)"
  by pat_completeness auto
termination
  by (relation "measure (\<lambda>(h, i, n). n - i)") (auto split: if_splits)

declare heap_up.simps [simp del] heap_down.simps [simp del]

definition heap_Push :: "nat \<Rightarrow> int \<Rightarrow> 'v pqueue \<Rightarrow> 'v pqueue" where
  "heap_Push p unixNano pq = (let pq1 = Push p unixNano pq in heap_up pq1 (Len pq1 - 1))"

text \<open>\<open>heap.Pop\<close> panics on an empty queue (\<open>Swap(0, -1)\<close>): \<open>None\<close>.\<close>

definition heap_Pop :: "'v pqueue \<Rightarrow> (nat \<times> 'v pqueue) option" where
  "heap_Pop pq =
     (if Len pq = 0 then None
      else let n = Len pq - 1; pq1 = fst (heap_down (Swap pq 0 n) 0 n)
           in (case Pop pq1 of (Some p, pq2) \<Rightarrow> Some (p, pq2) | (None, pq2) \<Rightarrow> None))"

definition heap_Fix :: "'v pqueue \<Rightarrow> nat \<Rightarrow> 'v pqueue" where
  "heap_Fix pq i =
     (case heap_down pq i (Len pq) of (pq1, i') \<Rightarrow> if i' > i then pq1 else heap_up pq1 i)"

fun heap_Init_loop :: "'v pqueue \<Rightarrow> nat \<Rightarrow> 'v pqueue" where
  "heap_Init_loop h 0 = h"
| "heap_Init_loop h (Suc i) = heap_Init_loop (fst (heap_down h i (Len h))) i"

definition heap_Init :: "'v pqueue \<Rightarrow> 'v pqueue" where
  "heap_Init h = heap_Init_loop h (Len h div 2)"

definition Update :: "nat \<Rightarrow> int \<Rightarrow> 'v pqueue \<Rightarrow> 'v pqueue" where
  "Update p priority pq =
     (if index (items pq p) = -1 then pq
      else let pq1 = pq\<lparr>items := (items pq)(p := (items pq p)\<lparr>Priority := priority\<rparr>)\<rparr>
           in heap_Fix pq1 (nat (index (items pq1 p))))"


subsection \<open>The order of the queue\<close>

definition beq :: "int \<times> int \<Rightarrow> int \<times> int \<Rightarrow> bool" where
  "beq a b \<longleftrightarrow> (if fst a = fst b then snd a \<le> snd b else fst a > fst b)"

definition key :: "'v pqueue \<Rightarrow> nat \<Rightarrow> int \<times> int" where
  "key h p = (Priority (items h p), timeStamp (items h p))"

lemma beq_refl [simp]: "beq a a"
  by (simp add: beq_def)

lemma beq_trans: "beq a b \<Longrightarrow> beq b c \<Longrightarrow> beq a c"
  by (auto simp: beq_def split: if_splits)

lemma beq_total: "\<not> beq a b \<Longrightarrow> beq b a"
  by (auto simp: beq_def split: if_splits)

lemma Less_beq: "Less h i j \<longleftrightarrow> beq (key h (slots h ! i)) (key h (slots h ! j))"
  by (simp add: Less_def beq_def key_def Let_def)

lemma key_Swap [simp]: "key (Swap h i j) = key h"
  by (auto simp: Swap_def set_index_def key_def Let_def fun_eq_iff)

lemma slots_Swap: "slots (Swap h i j) = (slots h)[i := slots h ! j, j := slots h ! i]"
  by (simp add: Swap_def set_index_def Let_def)

lemma Len_Swap [simp]: "Len (Swap h i j) = Len h"
  by (simp add: Len_def slots_Swap)

lemma mset_Swap: "i < Len h \<Longrightarrow> j < Len h \<Longrightarrow> mset (slots (Swap h i j)) = mset (slots h)"
  by (simp add: slots_Swap Len_def mset_swap)

text \<open>Every item of the slice knows its position, and no item is in it twice.\<close>

definition index_ok :: "'v pqueue \<Rightarrow> bool" where
  "index_ok h \<longleftrightarrow> distinct (slots h) \<and> (\<forall>i < Len h. index (items h (slots h ! i)) = int i)"

lemma index_ok_Swap:
  assumes "index_ok h" "i < Len h" "j < Len h"
  shows "index_ok (Swap h i j)"
proof -
  from assms have d: "distinct (slots (Swap h i j))"
    by (auto simp: index_ok_def slots_Swap Len_def intro: distinct_swap[THEN iffD2])
  show ?thesis
    unfolding index_ok_def
  proof (intro conjI allI impI d)
    fix m assume m: "m < Len (Swap h i j)"
    have "slots h ! i = slots h ! m \<longleftrightarrow> i = m" "slots h ! j = slots h ! m \<longleftrightarrow> j = m"
      using assms m by (auto simp: index_ok_def Len_def nth_eq_iff_index_eq slots_Swap)
    with assms m show "index (items (Swap h i j) (slots (Swap h i j) ! m)) = int m"
      by (auto simp: Swap_def set_index_def Let_def index_ok_def Len_def nth_list_update)
  qed
qed

text \<open>What a heap operation that only swaps positions keeps.\<close>

definition same_elems :: "'v pqueue \<Rightarrow> 'v pqueue \<Rightarrow> bool" where
  "same_elems h h' \<longleftrightarrow> key h' = key h \<and> mset (slots h') = mset (slots h)
     \<and> (index_ok h \<longrightarrow> index_ok h') \<and> (\<forall>q. q \<notin> set (slots h) \<longrightarrow> items h' q = items h q)"

lemma same_elems_refl [simp]: "same_elems h h"
  by (simp add: same_elems_def)

lemma same_elems_trans: "same_elems a b \<Longrightarrow> same_elems b c \<Longrightarrow> same_elems a c"
  unfolding same_elems_def by (metis set_mset_mset)

lemma items_Swap:
  "i < Len h \<Longrightarrow> j < Len h \<Longrightarrow> q \<notin> set (slots h) \<Longrightarrow> items (Swap h i j) q = items h q"
  using nth_mem[of i "slots h"] nth_mem[of j "slots h"]
  by (auto simp: Swap_def set_index_def Let_def Len_def nth_list_update)

lemma same_elems_Swap: "i < Len h \<Longrightarrow> j < Len h \<Longrightarrow> same_elems h (Swap h i j)"
  by (simp add: same_elems_def mset_Swap index_ok_Swap items_Swap)

lemma same_elems_Len: "same_elems h h' \<Longrightarrow> Len h' = Len h"
  by (metis same_elems_def Len_def mset_eq_length)

lemma same_elems_set: "same_elems h h' \<Longrightarrow> set (slots h') = set (slots h)"
  by (metis same_elems_def set_mset_mset)

lemma heap_up_same: "j < Len h \<Longrightarrow> same_elems h (heap_up h j)"
proof (induction h j rule: heap_up.induct)
  case (1 h j)
  show ?case
  proof (cases "(j - 1) div 2 = j \<or> \<not> Less h j ((j - 1) div 2)")
    case True
    then show ?thesis by (subst heap_up.simps) (auto simp: Let_def)
  next
    case False
    let ?i = "(j - 1) div 2"
    have i: "?i < Len h" using "1.prems" by simp
    from False i "1.IH"[OF refl False] have "same_elems (Swap h ?i j) (heap_up (Swap h ?i j) ?i)"
      by simp
    with i "1.prems" have "same_elems h (heap_up (Swap h ?i j) ?i)"
      by (blast intro: same_elems_trans same_elems_Swap)
    with False show ?thesis by (subst heap_up.simps) (auto simp: Let_def)
  qed
qed


text \<open>One step of \<open>heap_down\<close>: the child it compares with, the better of the two.\<close>

definition best_child :: "'v pqueue \<Rightarrow> nat \<Rightarrow> nat \<Rightarrow> nat" where
  "best_child h i n =
     (if 2 * i + 2 < n \<and> Less h (2 * i + 2) (2 * i + 1) then 2 * i + 2 else 2 * i + 1)"

lemma best_child_gt: "i < best_child h i n"
  by (simp add: best_child_def)

lemma best_child_bound: "2 * i + 1 < n \<Longrightarrow> best_child h i n < n"
  by (simp add: best_child_def)

lemma best_child_parent: "(best_child h i n - 1) div 2 = i" "best_child h i n > 0"
  by (auto simp: best_child_def)

lemma best_child_parent' [simp]: "(best_child h i n - Suc 0) div 2 = i"
  using best_child_parent(1)[of h i n] by simp

lemma best_child_best:
  assumes "c < n" "c > 0" "(c - 1) div 2 = i"
  shows "Less h (best_child h i n) c"
proof -
  from assms have "c = 2 * i + 1 \<or> c = 2 * i + 2" by presburger
  then show ?thesis using assms(1) by (auto simp: best_child_def Less_beq intro: beq_total)
qed

lemma heap_down_unfold:
  "heap_down h i n =
     (if 2 * i + 1 \<ge> n \<or> \<not> Less h (best_child h i n) i then (h, i)
      else heap_down (Swap h i (best_child h i n)) (best_child h i n) n)"
  by (subst heap_down.simps) (simp add: best_child_def Let_def)

lemma heap_down_same: "n \<le> Len h \<Longrightarrow> i < n \<or> i = 0 \<Longrightarrow> same_elems h (fst (heap_down h i n))"
proof (induction "n - i" arbitrary: h i rule: less_induct)
  case less
  let ?j = "best_child h i n"
  show ?case
  proof (cases "2 * i + 1 \<ge> n \<or> \<not> Less h ?j i")
    case True
    then show ?thesis by (subst heap_down_unfold) auto
  next
    case False
    then have j: "?j < n" "i < ?j" by (auto intro: best_child_bound best_child_gt)
    then have "same_elems (Swap h i ?j) (fst (heap_down (Swap h i ?j) ?j n))"
      using less.prems by (intro less.hyps) auto
    moreover have "same_elems h (Swap h i ?j)"
      using j less.prems by (intro same_elems_Swap) auto
    ultimately show ?thesis using False
      by (subst heap_down_unfold) (auto intro: same_elems_trans)
  qed
qed

lemma heap_down_ge: "i \<le> snd (heap_down h i n)"
proof (induction "n - i" arbitrary: h i rule: less_induct)
  case less
  let ?j = "best_child h i n"
  show ?case
  proof (cases "2 * i + 1 \<ge> n \<or> \<not> Less h ?j i")
    case False
    then have j: "?j < n" "i < ?j" by (auto intro: best_child_bound best_child_gt)
    then have "?j \<le> snd (heap_down (Swap h i ?j) ?j n)"
      by (intro less.hyps) auto
    with False j show ?thesis by (subst heap_down_unfold) auto
  qed (subst heap_down_unfold, simp)
qed

lemma heap_down_beyond:
  "n \<le> Len h \<Longrightarrow> n \<le> m \<Longrightarrow> slots (fst (heap_down h i n)) ! m = slots h ! m"
proof (induction "n - i" arbitrary: h i rule: less_induct)
  case less
  let ?j = "best_child h i n"
  show ?case
  proof (cases "2 * i + 1 \<ge> n \<or> \<not> Less h ?j i")
    case False
    then have j: "?j < n" "i < ?j" by (auto intro: best_child_bound best_child_gt)
    then have "slots (fst (heap_down (Swap h i ?j) ?j n)) ! m = slots (Swap h i ?j) ! m"
      using less.prems by (intro less.hyps) auto
    with False j less.prems show ?thesis
      by (subst heap_down_unfold) (auto simp: slots_Swap)
  qed (subst heap_down_unfold, simp)
qed

subsection \<open>The heap property\<close>

definition edge :: "'v pqueue \<Rightarrow> nat \<Rightarrow> bool" where
  "edge h m \<longleftrightarrow> Less h ((m - 1) div 2) m"

definition heap_on :: "nat \<Rightarrow> 'v pqueue \<Rightarrow> bool" where
  "heap_on n h \<longleftrightarrow> (\<forall>m. 0 < m \<and> m < n \<longrightarrow> edge h m)"

text \<open>The children of \<open>i\<close> are no better than the parent of \<open>i\<close>.\<close>

definition bypass :: "nat \<Rightarrow> 'v pqueue \<Rightarrow> nat \<Rightarrow> bool" where
  "bypass n h i \<longleftrightarrow>
     (0 < i \<longrightarrow> (\<forall>c. 0 < c \<and> c < n \<and> (c - 1) div 2 = i \<longrightarrow> Less h ((i - 1) div 2) c))"

lemma Less_Swap:
  "i < Len h \<Longrightarrow> j < Len h \<Longrightarrow> a < Len h \<Longrightarrow> b < Len h \<Longrightarrow>
   Less (Swap h i j) a b =
     Less h (if a = j then i else if a = i then j else a)
            (if b = j then i else if b = i then j else b)"
  by (auto simp: Less_beq slots_Swap Len_def nth_list_update)

lemma Less_trans: "Less h a b \<Longrightarrow> Less h b c \<Longrightarrow> Less h a c"
  unfolding Less_beq by (rule beq_trans)

lemma Less_total: "\<not> Less h a b \<Longrightarrow> Less h b a"
  unfolding Less_beq by (rule beq_total)

lemma parent_less: "0 < (m::nat) \<Longrightarrow> (m - 1) div 2 < m"
  by presburger

lemma heap_up_heap:
  assumes "j < n" "n \<le> Len h"
    and "\<forall>m. 0 < m \<and> m < n \<and> m \<noteq> j \<longrightarrow> edge h m" and "bypass n h j"
  shows "heap_on n (heap_up h j)"
  using assms
proof (induction h j rule: heap_up.induct)
  case (1 h j)
  let ?i = "(j - 1) div 2"
  show ?case
  proof (cases "?i = j \<or> \<not> Less h j ?i")
    case True
    then have "heap_on n h"
      using "1.prems"(3) by (auto simp: heap_on_def edge_def intro: Less_total)
    with True show ?thesis by (subst heap_up.simps) (auto simp: Let_def)
  next
    case False
    then have i: "?i < j" "0 < j" by (auto simp: parent_less)
    let ?h = "Swap h ?i j"
    have b: "?i < Len h" "j < Len h" using i "1.prems" by auto
    have "edge ?h m" if m: "0 < m" "m < n" "m \<noteq> ?i" for m
    proof -
      have pm: "(m - 1) div 2 < m" using m by (simp add: parent_less)
      have mL: "m < Len h" using m "1.prems" by simp
      consider "m = j" | "m \<noteq> j" "(m - 1) div 2 = j" | "m \<noteq> j" "(m - 1) div 2 = ?i"
        | "m \<noteq> j" "(m - 1) div 2 \<noteq> ?i" "(m - 1) div 2 \<noteq> j" by blast
      then show ?thesis
      proof cases
        case 1
        with False i b show ?thesis by (simp add: edge_def Less_Swap)
      next
        case 2
        then have "Less h ?i m" using "1.prems"(4) i m by (auto simp: bypass_def)
        with 2 i b m mL show ?thesis by (simp add: edge_def Less_Swap)
      next
        case 3
        then have "Less h ?i m" using "1.prems"(3) m by (auto simp: edge_def)
        then have "Less h j m" using False by (blast intro: Less_trans)
        with 3 i b m mL show ?thesis by (simp add: edge_def Less_Swap)
      next
        case 4
        then have "edge h m" using "1.prems"(3) m by auto
        with 4 i b m mL pm show ?thesis by (simp add: edge_def Less_Swap)
      qed
    qed
    moreover have "bypass n ?h ?i"
      unfolding bypass_def
    proof (intro impI allI)
      fix c assume i0: "0 < ?i" and c: "0 < c \<and> c < n \<and> (c - 1) div 2 = ?i"
      let ?g = "(?i - 1) div 2"
      have g: "?g < ?i" using i0 by (simp add: parent_less)
      have gi: "Less h ?g ?i" using "1.prems"(3) i i0 b "1.prems"(1) by (auto simp: edge_def)
      have cL: "c < Len h" "c > ?i" using c "1.prems" by auto
      show "Less ?h ?g c"
      proof (cases "c = j")
        case True
        with gi g i b show ?thesis by (simp add: Less_Swap)
      next
        case False
        then have "Less h ?i c" using "1.prems"(3) c by (auto simp: edge_def)
        with gi have "Less h ?g c" by (blast intro: Less_trans)
        with False g i b cL show ?thesis by (simp add: Less_Swap)
      qed
    qed
    ultimately have "heap_on n (heap_up ?h ?i)"
      using "1.prems" i by (intro "1.IH"[OF refl False]) auto
    with False show ?thesis by (subst heap_up.simps) (auto simp: Let_def)
  qed
qed


text \<open>
  Sifting down from \<open>i\<close> needs every edge but those below \<open>i\<close>; it gives a heap. When the edge
  above \<open>i\<close> is not known either, as in \<open>heap.Fix\<close>, the result is a heap if the item moved.
\<close>

lemma down_step_edges:
  assumes n: "n \<le> Len h" and c: "2 * i + 1 < n" and less: "Less h (best_child h i n) i"
    and e: "\<forall>m. 0 < m \<and> m < n \<and> m \<noteq> i \<and> (m - 1) div 2 \<noteq> i \<longrightarrow> edge h m"
    and by1: "bypass n h i"
    and m: "0 < m" "m < n" "(m - 1) div 2 \<noteq> best_child h i n"
  shows "edge (Swap h i (best_child h i n)) m"
proof -
  let ?j = "best_child h i n"
  have j: "?j < n" "i < ?j" "(?j - 1) div 2 = i"
    using c by (auto intro: best_child_bound best_child_gt best_child_parent)
  have pm: "(m - 1) div 2 < m" using m by (simp add: parent_less)
  have b: "i < Len h" "?j < Len h" "m < Len h" "(m - 1) div 2 < Len h" using j n m pm by auto
  consider "m = i" | "m \<noteq> i" "m = ?j" | "m \<noteq> i" "m \<noteq> ?j" "(m - 1) div 2 = i"
    | "m \<noteq> i" "m \<noteq> ?j" "(m - 1) div 2 \<noteq> i" by blast
  then show ?thesis
  proof cases
    case 1
    then have "Less h ((i - 1) div 2) ?j"
      using by1 m j by (auto simp: bypass_def)
    with 1 j b m pm show ?thesis by (simp add: edge_def Less_Swap)
  next
    case 2
    with less j b show ?thesis by (simp add: edge_def Less_Swap)
  next
    case 3
    then have "Less h ?j m" using m by (intro best_child_best) auto
    with 3 j b show ?thesis by (simp add: edge_def Less_Swap)
  next
    case 4
    with e m have "edge h m" by blast
    with 4 m b pm show ?thesis by (simp add: edge_def Less_Swap)
  qed
qed

lemma down_step_bypass:
  assumes n: "n \<le> Len h" and c: "2 * i + 1 < n"
    and e: "\<forall>m. 0 < m \<and> m < n \<and> m \<noteq> i \<and> (m - 1) div 2 \<noteq> i \<longrightarrow> edge h m"
  shows "bypass n (Swap h i (best_child h i n)) (best_child h i n)"
  unfolding bypass_def
proof (intro impI allI)
  let ?j = "best_child h i n"
  have j: "?j < n" "i < ?j" "(?j - 1) div 2 = i"
    using c by (auto intro: best_child_bound best_child_gt best_child_parent)
  fix d assume d: "0 < d \<and> d < n \<and> (d - 1) div 2 = ?j"
  then have "?j < d" by (metis parent_less)
  moreover have "Less h ?j d"
  proof -
    have "edge h d" using e d j \<open>?j < d\<close> by (metis less_trans less_irrefl)
    then show ?thesis using d by (simp add: edge_def)
  qed
  ultimately show "Less (Swap h i ?j) ((?j - 1) div 2) d"
    using j n d by (simp add: Less_Swap)
qed

lemma heap_down_heap:
  assumes "n \<le> Len h"
    and "\<forall>m. 0 < m \<and> m < n \<and> (m - 1) div 2 \<noteq> i \<longrightarrow> edge h m" and "bypass n h i"
  shows "heap_on n (fst (heap_down h i n))"
  using assms
proof (induction "n - i" arbitrary: h i rule: less_induct)
  case less
  let ?j = "best_child h i n"
  show ?case
  proof (cases "2 * i + 1 \<ge> n \<or> \<not> Less h ?j i")
    case True
    have "edge h m" if m: "0 < m" "m < n" for m
    proof (cases "(m - 1) div 2 = i")
      case p: True
      then have "2 * i + 1 < n" using m by presburger
      then have "Less h i ?j" using True by (auto intro: Less_total)
      moreover have "Less h ?j m" using m p by (intro best_child_best) auto
      ultimately show ?thesis using p unfolding edge_def by (blast intro: Less_trans)
    qed (use less.prems m in auto)
    with True show ?thesis by (subst heap_down_unfold) (auto simp: heap_on_def)
  next
    case False
    then have j: "?j < n" "i < ?j" by (auto intro: best_child_bound best_child_gt)
    have e: "\<forall>m. 0 < m \<and> m < n \<and> m \<noteq> i \<and> (m - 1) div 2 \<noteq> i \<longrightarrow> edge h m"
      using less.prems by blast
    have "heap_on n (fst (heap_down (Swap h i ?j) ?j n))"
    proof (rule less.hyps)
      show "n - ?j < n - i" using j by simp
      show "n \<le> Len (Swap h i ?j)" using less.prems by simp
      show "\<forall>m. 0 < m \<and> m < n \<and> (m - 1) div 2 \<noteq> ?j \<longrightarrow> edge (Swap h i ?j) m"
        using False less.prems e by (auto intro: down_step_edges)
      show "bypass n (Swap h i ?j) ?j"
        using False less.prems e by (intro down_step_bypass) auto
    qed
    with False show ?thesis by (subst heap_down_unfold) auto
  qed
qed

lemma heap_Fix_heap:
  assumes i: "i < Len h"
    and e: "\<forall>m. 0 < m \<and> m < Len h \<and> m \<noteq> i \<and> (m - 1) div 2 \<noteq> i \<longrightarrow> edge h m"
    and by1: "bypass (Len h) h i"
  shows "heap_on (Len h) (heap_Fix h i)"
proof (cases "2 * i + 1 \<ge> Len h \<or> \<not> Less h (best_child h i (Len h)) i")
  case True
  then have stay: "heap_down h i (Len h) = (h, i)" by (subst heap_down_unfold) auto
  have "edge h m" if m: "0 < m" "m < Len h" "m \<noteq> i" for m
  proof (cases "(m - 1) div 2 = i")
    case p: True
    then have "2 * i + 1 < Len h" using m by presburger
    then have "Less h i (best_child h i (Len h))" using True by (auto intro: Less_total)
    moreover have "Less h (best_child h i (Len h)) m" using m p by (intro best_child_best) auto
    ultimately show ?thesis using p unfolding edge_def by (blast intro: Less_trans)
  qed (use e m in auto)
  then have "heap_on (Len h) (heap_up h i)"
    using i by1 by (intro heap_up_heap) auto
  with stay show ?thesis by (simp add: heap_Fix_def)
next
  case False
  let ?j = "best_child h i (Len h)"
  have j: "?j < Len h" "i < ?j" using False by (auto intro: best_child_bound best_child_gt)
  have d: "heap_down h i (Len h) = heap_down (Swap h i ?j) ?j (Len h)"
    using False by (subst heap_down_unfold) auto
  have "heap_on (Len h) (fst (heap_down (Swap h i ?j) ?j (Len h)))"
    using False e by1 by (intro heap_down_heap) (auto intro: down_step_edges down_step_bypass)
  moreover have "snd (heap_down (Swap h i ?j) ?j (Len h)) > i"
    using heap_down_ge j by (metis le_trans not_le)
  ultimately show ?thesis using d by (auto simp: heap_Fix_def split: prod.split)
qed

lemma heap_Fix_same: "i < Len h \<Longrightarrow> same_elems h (heap_Fix h i)"
proof -
  assume i: "i < Len h"
  have s: "same_elems h (fst (heap_down h i (Len h)))" using i by (simp add: heap_down_same)
  moreover have "snd (heap_down h i (Len h)) = i \<Longrightarrow> fst (heap_down h i (Len h)) = h"
    using best_child_gt[of i h "Len h"] heap_down_ge[of _ "Swap h i (best_child h i (Len h))" "Len h"]
    by (subst (asm) heap_down_unfold, subst heap_down_unfold)
       (auto split: if_splits, metis heap_down_ge not_le)
  ultimately show ?thesis
    using i heap_down_ge[of i h "Len h"] heap_up_same[OF i]
    by (auto simp: heap_Fix_def split: prod.split)
qed


subsection \<open>The operations keep the invariant\<close>

definition pq_inv :: "'v pqueue \<Rightarrow> bool" where
  "pq_inv h \<longleftrightarrow> index_ok h \<and> heap_on (Len h) h"

lemma heap_on_key_slots:
  "key h = key h' \<Longrightarrow> (\<forall>m < n. slots h ! m = slots h' ! m) \<Longrightarrow> heap_on n h \<longleftrightarrow> heap_on n h'"
proof -
  assume "key h = key h'" and *: "\<forall>m < n. slots h ! m = slots h' ! m"
  moreover have "(m - 1) div 2 < n" if "0 < m" "m < n" for m :: nat
    using that by (meson parent_less less_trans)
  ultimately show ?thesis by (auto simp: heap_on_def edge_def Less_beq)
qed

lemma root_best:
  assumes "heap_on n h" "m < n"
  shows "Less h 0 m"
  using assms(2)
proof (induction m rule: less_induct)
  case (less m)
  show ?case
  proof (cases "m = 0")
    case False
    then have p: "(m - 1) div 2 < m" by (simp add: parent_less)
    then have "Less h 0 ((m - 1) div 2)" using less by simp
    moreover have "Less h ((m - 1) div 2) m"
      using assms(1) less.prems False by (auto simp: heap_on_def edge_def)
    ultimately show ?thesis by (rule Less_trans)
  qed (simp add: Less_beq)
qed

lemma root_best_key:
  assumes "heap_on (Len h) h" "q \<in> set (slots h)"
  shows "beq (key h (slots h ! 0)) (key h q)"
proof -
  from assms(2) obtain m where "m < Len h" "q = slots h ! m"
    by (auto simp: in_set_conv_nth Len_def)
  with root_best[OF assms(1)] show ?thesis by (auto simp: Less_beq)
qed

lemma Push_facts:
  assumes "p \<notin> set (slots h)"
  shows "slots (Push p t h) = slots h @ [p]" "Len (Push p t h) = Suc (Len h)"
    and "key (Push p t h) = (key h)(p := (Priority (items h p), makeTimestamp t))"
    and "index_ok h \<Longrightarrow> index_ok (Push p t h)"
  using assms
  by (auto simp: Push_def Let_def Len_def key_def fun_eq_iff index_ok_def nth_append
      dest: nth_mem split: if_splits)

lemma items_Push [simp]: "q \<noteq> p \<Longrightarrow> items (Push p t h) q = items h q"
  by (simp add: Push_def Let_def)

lemma heap_Push_facts:
  assumes inv: "pq_inv h" and new: "p \<notin> set (slots h)"
  shows "pq_inv (heap_Push p t h)"
    and "mset (slots (heap_Push p t h)) = add_mset p (mset (slots h))"
    and "key (heap_Push p t h) = (key h)(p := (Priority (items h p), makeTimestamp t))"
    and "q \<notin> insert p (set (slots h)) \<Longrightarrow> items (heap_Push p t h) q = items h q"
proof -
  let ?h = "Push p t h"
  have same: "same_elems ?h (heap_up ?h (Len ?h - 1))"
    by (intro heap_up_same) (simp add: Push_facts[OF new])
  have eq: "heap_Push p t h = heap_up ?h (Len ?h - 1)" by (simp add: heap_Push_def Let_def)
  have "heap_on (Len h) h" using inv by (simp add: pq_inv_def)
  moreover have "Less ?h a b \<longleftrightarrow> Less h a b" if "a < Len h" "b < Len h" for a b
    using that new nth_mem[of _ "slots h"]
    by (auto simp: Less_beq Push_facts[OF new] nth_append Len_def)
  ultimately have "\<forall>m. 0 < m \<and> m < Len h \<longrightarrow> edge ?h m"
    by (auto simp: heap_on_def edge_def)
  then have "heap_on (Len ?h) (heap_up ?h (Len ?h - 1))"
    by (intro heap_up_heap) (auto simp: Push_facts[OF new] bypass_def less_Suc_eq)
  with same inv show "pq_inv (heap_Push p t h)"
    by (simp add: eq pq_inv_def same_elems_Len)
       (simp add: same_elems_def Push_facts[OF new])
  from same show "mset (slots (heap_Push p t h)) = add_mset p (mset (slots h))"
    and "key (heap_Push p t h) = (key h)(p := (Priority (items h p), makeTimestamp t))"
    by (simp_all add: eq same_elems_def Push_facts[OF new])
  show "q \<notin> insert p (set (slots h)) \<Longrightarrow> items (heap_Push p t h) q = items h q"
    using same by (auto simp: eq same_elems_def Push_facts[OF new])
qed

lemma heap_Pop_None: "Len h = 0 \<Longrightarrow> heap_Pop h = None"
  by (simp add: heap_Pop_def)

lemma heap_Pop_facts:
  assumes inv: "pq_inv h" and ne: "Len h > 0"
  defines "p \<equiv> slots h ! 0"
  obtains h' where "heap_Pop h = Some (p, h')" "pq_inv h'"
    "mset (slots h) = add_mset p (mset (slots h'))" "key h' = key h" "index (items h' p) = -1"
    "\<And>q. q \<notin> set (slots h) \<Longrightarrow> items h' q = items h q"
proof -
  define n where "n = Len h - 1"
  define d where "d = fst (heap_down (Swap h 0 n) 0 n)"
  let ?s = "Swap h 0 n"
  let ?h' = "(set_index p (-1) d)\<lparr>slots := take n (slots d)\<rparr>"
  have n: "Len h = Suc n" using ne by (simp add: n_def)
  have "same_elems h ?s" using n by (intro same_elems_Swap) auto
  moreover have "same_elems ?s d" unfolding d_def using n by (intro heap_down_same) simp_all
  ultimately have same: "same_elems h d" by (rule same_elems_trans)
  then have L: "Len d = Len h" by (rule same_elems_Len)
  have "slots d ! n = slots ?s ! n" unfolding d_def using n by (intro heap_down_beyond) simp_all
  also have "\<dots> = p" using n by (auto simp: slots_Swap Len_def p_def nth_list_update)
  finally have last: "slots d ! n = p" .
  have pop: "heap_Pop h = Some (p, ?h')"
    using n last L by (simp add: heap_Pop_def Let_def Pop_def set_index_def d_def)
  have slots: "slots d = take n (slots d) @ [p]"
    using L n last by (metis Len_def lessI take_Suc_conv_app_nth take_all order_refl)
  then have ms: "mset (slots h) = add_mset p (mset (slots ?h'))"
    using same by (simp add: same_elems_def) (metis add_mset_add_single mset.simps union_code)
  have dist: "distinct (slots d)" and idx: "\<forall>i < Len h. index (items d (slots d ! i)) = int i"
    using same inv L by (auto simp: same_elems_def pq_inv_def index_ok_def)
  have pn: "p \<notin> set (take n (slots d))" using dist slots by (metis distinct_append not_distinct_conv_prefix)
  have k: "key ?h' = key h" using same by (auto simp: same_elems_def key_def set_index_def fun_eq_iff)
  have "heap_on n d"
    unfolding d_def
  proof (rule heap_down_heap)
    have "edge ?s m" if m: "0 < m" "m < n" "(m - 1) div 2 \<noteq> 0" for m
    proof -
      have "(m - 1) div 2 < m" using m(1) by (rule parent_less)
      moreover have "edge h m" using inv m n by (auto simp: pq_inv_def heap_on_def)
      ultimately show ?thesis using m n by (simp add: edge_def Less_Swap)
    qed
    then show "\<forall>m. 0 < m \<and> m < n \<and> (m - 1) div 2 \<noteq> 0 \<longrightarrow> edge ?s m" by blast
  qed (use n in \<open>simp_all add: bypass_def\<close>)
  moreover have "key d = key ?h'" using k same by (simp add: same_elems_def)
  ultimately have "heap_on n ?h'" by (subst heap_on_key_slots[of _ d]) (auto simp: L)
  moreover have "Len ?h' = n" using L n by (simp add: Len_def)
  moreover have "index_ok ?h'"
    using dist idx pn nth_mem[of _ "take n (slots d)"] L
    by (auto simp: index_ok_def Len_def set_index_def)
  ultimately have "pq_inv ?h'" by (simp add: pq_inv_def)
  moreover have "items ?h' q = items h q" if "q \<notin> set (slots h)" for q
    using that same nth_mem[of 0 "slots h"] ne
    by (auto simp: same_elems_def set_index_def p_def Len_def)
  ultimately show ?thesis using pop ms k that by (simp add: set_index_def)
qed

lemma heap_Pop_best:
  assumes inv: "pq_inv h" and ne: "Len h > 0"
  obtains p h' where "heap_Pop h = Some (p, h')" "pq_inv h'"
    "mset (slots h) = add_mset p (mset (slots h'))" "key h' = key h" "index (items h' p) = -1"
    "\<And>q. q \<in> set (slots h) \<Longrightarrow> beq (key h p) (key h q)"
    "\<And>q. q \<notin> set (slots h) \<Longrightarrow> items h' q = items h q"
proof -
  have "\<And>q. q \<in> set (slots h) \<Longrightarrow> beq (key h (slots h ! 0)) (key h q)"
    using inv root_best_key unfolding pq_inv_def by blast
  with heap_Pop_facts[OF assms] that show ?thesis by blast
qed

lemma Update_facts:
  assumes inv: "pq_inv h" and p: "p \<in> set (slots h)"
  shows "pq_inv (Update p prio h)"
    and "mset (slots (Update p prio h)) = mset (slots h)"
    and "key (Update p prio h) = (key h)(p := (prio, timeStamp (items h p)))"
    and "q \<notin> set (slots h) \<Longrightarrow> items (Update p prio h) q = items h q"
proof -
  let ?h = "h\<lparr>items := (items h)(p := (items h p)\<lparr>Priority := prio\<rparr>)\<rparr>"
  obtain i where i: "i < Len h" "slots h ! i = p" using p by (auto simp: in_set_conv_nth Len_def)
  with inv have idx: "index (items h p) = int i" by (auto simp: pq_inv_def index_ok_def)
  then have eq: "Update p prio h = heap_Fix ?h i" by (simp add: Update_def Let_def)
  have L: "Len ?h = Len h" by (simp add: Len_def)
  have other: "slots h ! m \<noteq> p" if "m < Len h" "m \<noteq> i" for m
    using that i inv by (auto simp: pq_inv_def index_ok_def Len_def nth_eq_iff_index_eq)
  have ok: "index_ok ?h" using inv i by (auto simp: pq_inv_def index_ok_def Len_def)
  have Less': "Less ?h a b \<longleftrightarrow> Less h a b" if "a < Len h" "b < Len h" "a \<noteq> i" "b \<noteq> i" for a b
    using that other by (simp add: Less_def Let_def)
  have e: "edge ?h m" if "0 < m" "m < Len h" "m \<noteq> i" "(m - 1) div 2 \<noteq> i" for m
    using that inv parent_less[of m] by (simp add: edge_def Less' pq_inv_def heap_on_def)
  have b: "bypass (Len ?h) ?h i"
    unfolding bypass_def
  proof (intro impI allI)
    fix c assume i0: "0 < i" and c: "0 < c \<and> c < Len ?h \<and> (c - 1) div 2 = i"
    then have "Less h i c" "Less h ((i - 1) div 2) i"
      using inv i by (auto simp: L pq_inv_def heap_on_def edge_def)
    then have "Less h ((i - 1) div 2) c" by (rule Less_trans[rotated])
    moreover have "(i - 1) div 2 < i" "i < c" using i0 c parent_less by auto
    ultimately show "Less ?h ((i - 1) div 2) c" using c L i by (subst Less') auto
  qed
  have same: "same_elems ?h (heap_Fix ?h i)" using i L by (intro heap_Fix_same) simp
  have "heap_on (Len ?h) (heap_Fix ?h i)" using i e b L by (intro heap_Fix_heap) auto
  with same ok show "pq_inv (Update p prio h)"
    by (simp add: eq pq_inv_def same_elems_Len) (simp add: same_elems_def)
  from same show "mset (slots (Update p prio h)) = mset (slots h)"
    and "key (Update p prio h) = (key h)(p := (prio, timeStamp (items h p)))"
    by (auto simp: eq same_elems_def key_def fun_eq_iff)
  from same p show "q \<notin> set (slots h) \<Longrightarrow> items (Update p prio h) q = items h q"
    by (auto simp: eq same_elems_def)
qed


subsection \<open>The contract of a priority queue\<close>

text \<open>
  What a client of the queue may rely on: \<open>elems\<close> are the addresses queued, \<open>rank\<close> what an
  address is ordered by, \<open>better\<close> the order, a total preorder.
\<close>

locale priority_queue =
  fixes inv :: "'q \<Rightarrow> bool"
    and elems :: "'q \<Rightarrow> nat multiset"
    and rank :: "'q \<Rightarrow> nat \<Rightarrow> 'r"
    and better :: "'r \<Rightarrow> 'r \<Rightarrow> bool"
    and pop :: "'q \<Rightarrow> (nat \<times> 'q) option"
  assumes better_trans: "better a b \<Longrightarrow> better b c \<Longrightarrow> better a c"
    and pop_None: "inv q \<Longrightarrow> elems q = {#} \<Longrightarrow> pop q = None"
    and pop_Some: "inv q \<Longrightarrow> elems q \<noteq> {#} \<Longrightarrow> \<exists>p q'. pop q = Some (p, q') \<and> inv q'
          \<and> elems q = add_mset p (elems q') \<and> rank q' = rank q
          \<and> (\<forall>r \<in># elems q. better (rank q p) (rank q r))"

text \<open>Popping up to \<open>n\<close> items in a row.\<close>

fun drain :: "('q \<Rightarrow> (nat \<times> 'q) option) \<Rightarrow> nat \<Rightarrow> 'q \<Rightarrow> nat list" where
  "drain pop 0 q = []"
| "drain pop (Suc n) q = (case pop q of None \<Rightarrow> [] | Some (p, q') \<Rightarrow> p # drain pop n q')"

context priority_queue begin

lemma pop_cases:
  assumes "inv q"
  obtains "elems q = {#}" "pop q = None"
    | p q' where "pop q = Some (p, q')" "inv q'" "elems q = add_mset p (elems q')"
        "rank q' = rank q" "\<forall>r \<in># elems q. better (rank q p) (rank q r)"
proof (cases "elems q = {#}")
  case True
  with pop_None[OF assms] show ?thesis by (intro that(1))
next
  case False
  from pop_Some[OF assms False] obtain p q' where "pop q = Some (p, q')" "inv q'"
    "elems q = add_mset p (elems q')" "rank q' = rank q" "\<forall>r \<in># elems q. better (rank q p) (rank q r)"
    by blast
  then show ?thesis by (rule that(2))
qed

lemma mset_drain: "inv q \<Longrightarrow> size (elems q) = n \<Longrightarrow> mset (drain pop n q) = elems q"
proof (induction n arbitrary: q)
  case (Suc n)
  from Suc.prems(1) show ?case
  proof (cases rule: pop_cases)
    case 1
    with Suc.prems show ?thesis by simp
  next
    case (2 p q')
    with Suc show ?thesis by simp
  qed
qed simp

lemma drain_sorted:
  "inv q \<Longrightarrow> size (elems q) = n \<Longrightarrow>
   sorted_wrt (\<lambda>a b. better (rank q a) (rank q b)) (drain pop n q)"
proof (induction n arbitrary: q)
  case (Suc n)
  from Suc.prems(1) show ?case
  proof (cases rule: pop_cases)
    case 1
    with Suc.prems show ?thesis by simp
  next
    case (2 p q')
    then have "set (drain pop n q') = set_mset (elems q')"
      using Suc.prems mset_drain[of q' n] by (metis size_add_mset diff_Suc_1 set_mset_mset)
    moreover have "sorted_wrt (\<lambda>a b. better (rank q a) (rank q b)) (drain pop n q')"
      using Suc.IH[of q'] Suc.prems 2 by simp
    ultimately show ?thesis using 2 by auto
  qed
qed simp

end

interpretation pq: priority_queue pq_inv "\<lambda>h. mset (slots h)" key beq heap_Pop
proof unfold_locales
  fix h :: "'v pqueue"
  assume inv: "pq_inv h"
  show "mset (slots h) = {#} \<Longrightarrow> heap_Pop h = None" by (simp add: heap_Pop_None Len_def)
  assume "mset (slots h) \<noteq> {#}"
  then have "Len h > 0" by (simp add: Len_def)
  with inv obtain p h' where "heap_Pop h = Some (p, h')" "pq_inv h'"
    "mset (slots h) = add_mset p (mset (slots h'))" "key h' = key h"
    and best: "\<And>q. q \<in> set (slots h) \<Longrightarrow> beq (key h p) (key h q)"
    by (rule heap_Pop_best) blast
  moreover have "\<forall>r \<in># mset (slots h). beq (key h p) (key h r)"
    unfolding set_mset_mset using best by blast
  ultimately show "\<exists>p q'. heap_Pop h = Some (p, q') \<and> pq_inv q'
      \<and> mset (slots h) = add_mset p (mset (slots q')) \<and> key q' = key h
      \<and> (\<forall>r \<in># mset (slots h). beq (key h p) (key h r))"
    by blast
qed (rule beq_trans)

subsection \<open>Properties\<close>

text \<open>A small queue, at which the properties are instantiated.\<close>

definition two_items :: "unit pqueue" where
  "two_items = \<lparr>items = (\<lambda>p. if p = 0 then \<lparr>Value = (), Priority = 3, timeStamp = 5, index = 0\<rparr>
      else if p = 1 then \<lparr>Value = (), Priority = 1, timeStamp = 4, index = 1\<rparr>
      else \<lparr>Value = (), Priority = 2, timeStamp = 0, index = -1\<rparr>), slots = [0, 1]\<rparr>"

lemma two_items_inv: "pq_inv two_items"
proof -
  have "index_ok two_items"
    by (auto simp: index_ok_def Len_def two_items_def less_Suc_eq)
  moreover have "edge two_items m" if "0 < m" "m < 2" for m
  proof -
    have "m = 1" using that by simp
    then show ?thesis by (simp add: edge_def Less_def two_items_def)
  qed
  ultimately show ?thesis by (simp add: pq_inv_def heap_on_def Len_def) (simp add: two_items_def numeral_2_eq_2)
qed

text \<open>
  \<open>heap.Push\<close> of an item that is not queued keeps the invariant (every queued item's
  \<open>index\<close> is its position in the slice, nothing is queued twice, the heap order holds), adds
  exactly that item, stamps it with the time of the push in milliseconds and leaves every
  other item's priority and time stamp alone.
\<close>

lemma heap_Push_correct:
  assumes "pq_inv h" "p \<notin> set (slots h)"
  shows "pq_inv (heap_Push p t h) \<and> mset (slots (heap_Push p t h)) = add_mset p (mset (slots h))
    \<and> key (heap_Push p t h) = (key h)(p := (Priority (items h p), makeTimestamp t))"
  using heap_Push_facts(1-3)[OF assms] by blast

lemma heap_Push_correct_example:
  "pq_inv (heap_Push 2 7000000 two_items)
    \<and> mset (slots (heap_Push 2 7000000 two_items)) = {#2, 0, 1#}"
  using heap_Push_correct[OF two_items_inv, of 2 7000000] by (simp add: two_items_def)

text \<open>
  C7. \<open>heap.Pop\<close> of a non-empty queue returns an item that no queued item precedes (highest
  priority, and the oldest of that priority), removes exactly it, marks it as removed
  (\<open>index\<close> -1) and keeps the invariant.
\<close>

theorem heap_Pop_correct:
  assumes "pq_inv h" "Len h > 0"
  shows "\<exists>p h'. heap_Pop h = Some (p, h') \<and> pq_inv h'
    \<and> mset (slots h) = add_mset p (mset (slots h')) \<and> index (items h' p) = -1
    \<and> (\<forall>q \<in> set (slots h). Priority (items h q) < Priority (items h p)
         \<or> (Priority (items h q) = Priority (items h p)
             \<and> timeStamp (items h p) \<le> timeStamp (items h q)))"
proof -
  obtain p h' where "heap_Pop h = Some (p, h')" "pq_inv h'"
    "mset (slots h) = add_mset p (mset (slots h'))" "index (items h' p) = -1"
    and best: "\<And>q. q \<in> set (slots h) \<Longrightarrow> beq (key h p) (key h q)"
    by (rule heap_Pop_best[OF assms]) blast
  moreover have "\<forall>q \<in> set (slots h). Priority (items h q) < Priority (items h p)
      \<or> (Priority (items h q) = Priority (items h p) \<and> timeStamp (items h p) \<le> timeStamp (items h q))"
    using best by (force simp: beq_def key_def split: if_splits)
  ultimately show ?thesis by blast
qed

theorem heap_Pop_correct_witness:
  "\<exists>p h'. heap_Pop two_items = Some (p, h') \<and> pq_inv h' \<and> index (items h' p) = -1"
  using heap_Pop_correct[OF two_items_inv] by (auto simp: Len_def two_items_def)

text \<open>
  \<open>Update\<close> of a queued item sets its priority, moves it so that the invariant holds
  again, and neither adds, drops nor reorders the rank of any other item; of an item that was
  popped (\<open>index\<close> -1) it changes nothing.
\<close>

lemma Update_correct:
  assumes "pq_inv h" "p \<in> set (slots h)" "index (items h q) = -1"
  shows "pq_inv (Update p prio h) \<and> mset (slots (Update p prio h)) = mset (slots h)
    \<and> key (Update p prio h) = (key h)(p := (prio, timeStamp (items h p)))
    \<and> Update q prio h = h"
  using Update_facts(1-3)[OF assms(1,2)] assms(3) by (simp add: Update_def)

theorem Update_correct_witness:
  "pq_inv (Update 1 9 two_items) \<and> Update 2 9 two_items = two_items"
  using Update_correct[OF two_items_inv, of 1 2 9] by (simp add: two_items_def)

text \<open>
  Popping a queue until it is empty yields all its items, each once, by falling priority
  and, within a priority, by rising time stamp.
\<close>

lemma heap_drain_sorted:
  assumes "pq_inv h"
  shows "mset (drain heap_Pop (Len h) h) = mset (slots h)
    \<and> sorted_wrt (\<lambda>a b. beq (key h a) (key h b)) (drain heap_Pop (Len h) h)"
  using assms pq.mset_drain[of h] pq.drain_sorted[of h] by (simp add: Len_def)

lemma heap_drain_sorted_witness:
  "mset (drain heap_Pop (Len two_items) two_items) = mset (slots two_items)"
  using heap_drain_sorted[OF two_items_inv] by blast

end
