(* ===== verification/Limiter.thy ===== *)
theory Limiter
  imports PQueue
begin

text \<open>
  The concurrency limiter of \<open>sync/limiter.go\<close>. Its state is the slot counter and the wait
  list; the critical sections under \<open>l.mu\<close> are functions on it, and the goroutines around them
  a step relation. An operation is named by the address of the item it waits with, so the
  channel of the item is the address itself.
\<close>

definition LimiterPriorityValueLow :: int where "LimiterPriorityValueLow = 1"
definition LimiterPriorityValueMedium :: int where "LimiterPriorityValueMedium = 2"
definition LimiterPriorityValueMediumHigh :: int where "LimiterPriorityValueMediumHigh = 3"
definition LimiterPriorityValueHigh :: int where "LimiterPriorityValueHigh = 4"

text \<open>\<open>limit\<close> is what \<open>l.limit.Load()\<close> returns now: a reloadable limit changes it.\<close>

record limiter =
  limit :: int
  dynamicPeriod :: duration
  count :: int
  waitList :: "unit pqueue"

definition NewReloadableLimiter :: "int \<Rightarrow> duration \<Rightarrow> limiter option" where
  "NewReloadableLimiter lim period =
     (if lim \<le> 0 then None
      else Some \<lparr>limit = lim, dynamicPeriod = period, count = 0,
        waitList = heap_Init \<lparr>items = (\<lambda>_. \<lparr>Value = (), Priority = 0, timeStamp = 0, index = 0\<rparr>),
          slots = []\<rparr>\<rparr>)"

subsection \<open>The critical sections\<close>

datatype wait_result = WaitPanic | Acquired | Queued

text \<open>\<open>wait\<close> up to the point where it blocks; \<open>unixNano\<close> is the clock at \<open>heap.Push\<close>.\<close>

definition wait_section :: "nat \<Rightarrow> int \<Rightarrow> int \<Rightarrow> limiter \<Rightarrow> wait_result \<times> limiter" where
  "wait_section p priority unixNano l =
     (if limit l \<le> 0 then (WaitPanic, l)
      else if count l < limit l then (Acquired, l\<lparr>count := count l + 1\<rparr>)
      else let w = \<lparr>Value = (), Priority = priority, timeStamp = 0, index = 0\<rparr>;
               wl = (waitList l)\<lparr>items := (items (waitList l))(p := w)\<rparr>
           in (Queued, l\<lparr>waitList := heap_Push p unixNano wl\<rparr>))"

text \<open>
  A tick of the dynamic priority: the waiter raises its own priority by one, until it is high.
\<close>

definition tick_section :: "nat \<Rightarrow> limiter \<Rightarrow> limiter" where
  "tick_section p l =
     (let w = items (waitList l) p
      in if Priority w < LimiterPriorityValueHigh
         then l\<lparr>waitList := Update p (Priority w + 1) (waitList l)\<rparr> else l)"

text \<open>\<open>end\<close>: give the slot back, or hand it to the best waiter, whose channel is then sent to.\<close>

definition end_section :: "limiter \<Rightarrow> nat option \<times> limiter" where
  "end_section l =
     (let l1 = l\<lparr>count := count l - 1\<rparr>
      in if Len (waitList l1) = 0 then (None, l1)
         else (case heap_Pop (waitList l1) of
                 None \<Rightarrow> (None, l1)
               | Some (next, wl) \<Rightarrow> (Some next, l1\<lparr>waitList := wl, count := count l1 + 1\<rparr>)))"

subsection \<open>The goroutines\<close>

text \<open>
  \<open>Granted\<close>: popped by some \<open>end\<close>, the receive of its channel is still to come. \<open>Sleeping\<close>:
  inside \<open>Sleep\<close>, which has given the slot back and will wait for one again.
\<close>

datatype status = Fresh | Waiting | Granted | Running | Sleeping | Ended

record system =
  lim :: limiter
  stat :: "nat \<Rightarrow> status"

definition grant :: "nat option \<Rightarrow> (nat \<Rightarrow> status) \<Rightarrow> nat \<Rightarrow> status" where
  "grant next st = (case next of None \<Rightarrow> st | Some q \<Rightarrow> st(q := Granted))"

inductive lstep :: "int set \<Rightarrow> system \<Rightarrow> system \<Rightarrow> bool" for L where
  begin_acquired:
    "stat s p = Fresh \<or> stat s p = Sleeping \<Longrightarrow>
     wait_section p prio t (lim s) = (Acquired, l) \<Longrightarrow>
     lstep L s \<lparr>lim = l, stat = (stat s)(p := Running)\<rparr>"
| begin_queued:
    "stat s p = Fresh \<or> stat s p = Sleeping \<Longrightarrow>
     wait_section p prio t (lim s) = (Queued, l) \<Longrightarrow>
     lstep L s \<lparr>lim = l, stat = (stat s)(p := Waiting)\<rparr>"
| receive:
    "stat s p = Granted \<Longrightarrow> lstep L s \<lparr>lim = lim s, stat = (stat s)(p := Running)\<rparr>"
| tick:
    "stat s p = Waiting \<or> stat s p = Granted \<Longrightarrow> dynamicPeriod (lim s) \<noteq> 0 \<Longrightarrow>
     lstep L s \<lparr>lim = tick_section p (lim s), stat = stat s\<rparr>"
| end_step:
    "stat s p = Running \<Longrightarrow> end_section (lim s) = (next, l) \<Longrightarrow>
     lstep L s \<lparr>lim = l, stat = grant next ((stat s)(p := Ended))\<rparr>"
| sleep_step:
    "stat s p = Running \<Longrightarrow> end_section (lim s) = (next, l) \<Longrightarrow>
     lstep L s \<lparr>lim = l, stat = grant next ((stat s)(p := Sleeping))\<rparr>"
| reload:
    "n \<in> L \<Longrightarrow> lstep L s \<lparr>lim = (lim s)\<lparr>limit := n\<rparr>, stat = stat s\<rparr>"

inductive lreach :: "int set \<Rightarrow> system \<Rightarrow> bool" for L where
  init: "n \<in> L \<Longrightarrow> NewReloadableLimiter n d = Some l \<Longrightarrow> lreach L \<lparr>lim = l, stat = (\<lambda>_. Fresh)\<rparr>"
| step: "lreach L s \<Longrightarrow> lstep L s s' \<Longrightarrow> lreach L s'"

definition holders :: "system \<Rightarrow> nat set" where
  "holders s = {p. stat s p = Granted \<or> stat s p = Running}"

definition waiters :: "system \<Rightarrow> nat set" where
  "waiters s = {p. stat s p = Waiting}"

subsection \<open>The invariant\<close>

definition linv :: "int set \<Rightarrow> system \<Rightarrow> bool" where
  "linv L s \<longleftrightarrow> pq_inv (waitList (lim s)) \<and> set (slots (waitList (lim s))) = waiters s
     \<and> (\<forall>p. stat s p = Granted \<longrightarrow> index (items (waitList (lim s)) p) = -1)
     \<and> finite (holders s) \<and> count (lim s) = int (card (holders s))
     \<and> limit (lim s) \<in> L
     \<and> (waiters s \<noteq> {} \<longrightarrow> (\<exists>n \<in> L. n \<le> count (lim s)))
     \<and> (count (lim s) = 0 \<or> (\<exists>n \<in> L. count (lim s) \<le> n))"

lemma heap_Init_empty [simp]: "slots h = [] \<Longrightarrow> heap_Init h = h"
  by (simp add: heap_Init_def Len_def)

lemma pq_inv_empty: "slots h = [] \<Longrightarrow> pq_inv h"
  by (simp add: pq_inv_def index_ok_def heap_on_def Len_def)

lemma linv_init:
  "n \<in> L \<Longrightarrow> NewReloadableLimiter n d = Some l \<Longrightarrow> linv L \<lparr>lim = l, stat = (\<lambda>_. Fresh)\<rparr>"
  by (auto simp: NewReloadableLimiter_def linv_def holders_def waiters_def
      intro: pq_inv_empty split: if_splits)


lemma mset_slots_insert:
  "mset (slots h') = add_mset p (mset (slots h)) \<Longrightarrow> set (slots h') = insert p (set (slots h))"
  by (metis set_mset_mset set_mset_add_mset_insert)

lemma pq_inv_cong:
  assumes "pq_inv h" "slots h' = slots h" "\<And>q. q \<in> set (slots h) \<Longrightarrow> items h' q = items h q"
  shows "pq_inv h'"
proof -
  have L: "Len h' = Len h" using assms(2) by (simp add: Len_def)
  have "Less h' i j \<longleftrightarrow> Less h i j" if "i < Len h" "j < Len h" for i j
    using that assms by (simp add: Less_def Len_def)
  moreover have "index_ok h'"
    using assms by (auto simp: pq_inv_def index_ok_def Len_def)
  moreover have "(m - 1) div 2 < Len h" if "0 < m" "m < Len h" for m :: nat
    using that parent_less less_trans by blast
  ultimately show ?thesis using assms(1) L by (auto simp: pq_inv_def heap_on_def edge_def)
qed

lemma wait_section_Acquired:
  "wait_section p prio t l = (Acquired, l') \<longleftrightarrow>
     0 < limit l \<and> count l < limit l \<and> l' = l\<lparr>count := count l + 1\<rparr>"
  by (auto simp: wait_section_def Let_def split: if_splits)

lemma wait_section_Queued:
  assumes "wait_section p prio t l = (Queued, l')" "pq_inv (waitList l)"
    "p \<notin> set (slots (waitList l))"
  shows "pq_inv (waitList l')"
    "mset (slots (waitList l')) = add_mset p (mset (slots (waitList l)))"
    "count l' = count l" "limit l' = limit l" "limit l \<le> count l" "0 < limit l"
    "q \<notin> insert p (set (slots (waitList l))) \<Longrightarrow> items (waitList l') q = items (waitList l) q"
proof -
  let ?wl = "(waitList l)\<lparr>items := (items (waitList l))
    (p := \<lparr>Value = (), Priority = prio, timeStamp = 0, index = 0\<rparr>)\<rparr>"
  have l': "l' = l\<lparr>waitList := heap_Push p t ?wl\<rparr>" and c: "limit l \<le> count l" "0 < limit l"
    using assms(1) by (auto simp: wait_section_def Let_def split: if_splits)
  have "pq_inv ?wl" using assms(2,3) by (rule_tac pq_inv_cong[OF assms(2)]) auto
  from heap_Push_facts[OF this, where p = p and t = t] assms(3) c
  show "pq_inv (waitList l')" "mset (slots (waitList l')) = add_mset p (mset (slots (waitList l)))"
    "count l' = count l" "limit l' = limit l" "limit l \<le> count l" "0 < limit l"
    "q \<notin> insert p (set (slots (waitList l))) \<Longrightarrow> items (waitList l') q = items (waitList l) q"
    by (simp_all add: l')
qed

lemma tick_section_facts:
  assumes inv: "pq_inv (waitList l)" and p: "p \<in> set (slots (waitList l))"
  shows "pq_inv (waitList (tick_section p l))"
    "mset (slots (waitList (tick_section p l))) = mset (slots (waitList l))"
    "count (tick_section p l) = count l" "limit (tick_section p l) = limit l"
    "q \<notin> set (slots (waitList l)) \<Longrightarrow> items (waitList (tick_section p l)) q = items (waitList l) q"
  using inv Update_facts[OF inv p] by (auto simp: tick_section_def Let_def)

lemma tick_section_popped:
  "index (items (waitList l) p) = -1 \<Longrightarrow> tick_section p l = l"
  by (simp add: tick_section_def Let_def Update_def)

lemma end_section_cases:
  assumes "end_section l = (next, l')" "pq_inv (waitList l)"
  obtains (idle) "next = None" "slots (waitList l) = []" "l' = l\<lparr>count := count l - 1\<rparr>"
    | (handoff) q where "next = Some q" "pq_inv (waitList l')" "count l' = count l"
        "limit l' = limit l" "index (items (waitList l') q) = -1"
        "mset (slots (waitList l)) = add_mset q (mset (slots (waitList l')))"
        "\<And>r. r \<in> set (slots (waitList l)) \<Longrightarrow> beq (key (waitList l) q) (key (waitList l) r)"
        "key (waitList l') = key (waitList l)"
        "\<And>r. r \<notin> set (slots (waitList l)) \<Longrightarrow> items (waitList l') r = items (waitList l) r"
proof (cases "Len (waitList l) = 0")
  case True
  with assms(1) that(1) show ?thesis by (auto simp: end_section_def Let_def Len_def)
next
  case False
  then obtain q h where q: "heap_Pop (waitList l) = Some (q, h)" "pq_inv h"
    "mset (slots (waitList l)) = add_mset q (mset (slots h))" "key h = key (waitList l)"
    "index (items h q) = -1"
    "\<And>r. r \<in> set (slots (waitList l)) \<Longrightarrow> beq (key (waitList l) q) (key (waitList l) r)"
    "\<And>r. r \<notin> set (slots (waitList l)) \<Longrightarrow> items h r = items (waitList l) r"
    using heap_Pop_best[OF assms(2)] by (metis gr0I)
  with assms(1) False have "next = Some q" "l' = l\<lparr>count := count l, waitList := h\<rparr>"
    by (auto simp: end_section_def Let_def)
  with q that(2) show ?thesis by simp
qed


subsection \<open>Every step keeps the invariant\<close>

lemma linvD:
  assumes "linv L s"
  shows "pq_inv (waitList (lim s))" "set (slots (waitList (lim s))) = waiters s"
    "\<And>p. stat s p = Granted \<Longrightarrow> index (items (waitList (lim s)) p) = -1"
    "finite (holders s)" "count (lim s) = int (card (holders s))" "limit (lim s) \<in> L"
    "waiters s \<noteq> {} \<Longrightarrow> \<exists>n \<in> L. n \<le> count (lim s)"
    "count (lim s) = 0 \<or> (\<exists>n \<in> L. count (lim s) \<le> n)"
  using assms unfolding linv_def by blast+

lemma holders_upd:
  "holders \<lparr>lim = l, stat = (stat s)(p := x)\<rparr> =
     (if x = Granted \<or> x = Running then insert p (holders s) else holders s - {p})"
  by (auto simp: holders_def)

lemma waiters_upd:
  "waiters \<lparr>lim = l, stat = (stat s)(p := x)\<rparr> =
     (if x = Waiting then insert p (waiters s) else waiters s - {p})"
  by (auto simp: waiters_def)

lemma linv_acquired:
  assumes inv: "linv L s" and p: "stat s p = Fresh \<or> stat s p = Sleeping"
    and w: "wait_section p prio t (lim s) = (Acquired, l)"
  shows "linv L \<lparr>lim = l, stat = (stat s)(p := Running)\<rparr>"
proof -
  note d = linvD[OF inv]
  have nw: "p \<notin> waiters s" "p \<notin> holders s" using p by (auto simp: waiters_def holders_def)
  from w have l: "l = (lim s)\<lparr>count := count (lim s) + 1\<rparr>" "count (lim s) < limit (lim s)"
    by (auto simp: wait_section_Acquired)
  have "\<exists>n \<in> L. n \<le> count l" if w: "waiters s \<noteq> {}"
  proof -
    obtain n where "n \<in> L" "n \<le> count (lim s)" using d(7)[OF w] by blast
    then show ?thesis using l by (intro bexI[of _ n]) auto
  qed
  moreover have "\<exists>n \<in> L. count l \<le> n" using d(6) l by (intro bexI[of _ "limit (lim s)"]) auto
  ultimately show ?thesis using d nw l
    by (auto simp: linv_def holders_upd waiters_upd split: if_splits)
qed

lemma linv_queued:
  assumes inv: "linv L s" and p: "stat s p = Fresh \<or> stat s p = Sleeping"
    and w: "wait_section p prio t (lim s) = (Queued, l)"
  shows "linv L \<lparr>lim = l, stat = (stat s)(p := Waiting)\<rparr>"
proof -
  note d = linvD[OF inv]
  have nw: "p \<notin> waiters s" "p \<notin> holders s" using p by (auto simp: waiters_def holders_def)
  then have np: "p \<notin> set (slots (waitList (lim s)))" using d(2) by blast
  note q = wait_section_Queued[OF w d(1) np]
  have "\<exists>n \<in> L. n \<le> count l" using d(6) q(3,5) by auto
  moreover have "index (items (waitList l) r) = -1" if "stat s r = Granted" for r
  proof -
    have "r \<noteq> p" "r \<notin> set (slots (waitList (lim s)))" using that p d(2) by (auto simp: waiters_def)
    then show ?thesis using q(7)[of r] d(3)[OF that] by simp
  qed
  moreover have "holders s - {p} = holders s" using nw by blast
  ultimately show ?thesis using d nw q mset_slots_insert[OF q(2)]
    by (auto simp: linv_def holders_upd waiters_upd)
qed

lemma linv_receive:
  "linv L s \<Longrightarrow> stat s p = Granted \<Longrightarrow> linv L \<lparr>lim = lim s, stat = (stat s)(p := Running)\<rparr>"
  using insert_absorb[of p "holders s"]
  by (auto simp: linv_def holders_upd waiters_upd) (auto simp: holders_def waiters_def)

lemma system_eta [simp]: "\<lparr>lim = lim s, stat = stat s\<rparr> = s"
  by simp

lemma linv_tick:
  assumes inv: "linv L s" and p: "stat s p = Waiting \<or> stat s p = Granted"
  shows "linv L \<lparr>lim = tick_section p (lim s), stat = stat s\<rparr>"
proof (cases "stat s p = Granted")
  case True
  from tick_section_popped[OF linvD(3)[OF inv this]] have "tick_section p (lim s) = lim s" .
  then show ?thesis using inv by (simp only: system_eta)
next
  case False
  note d = linvD[OF inv]
  have p: "p \<in> set (slots (waitList (lim s)))" using False p d(2) by (auto simp: waiters_def)
  note t = tick_section_facts[OF d(1) p]
  have "set (slots (waitList (tick_section p (lim s)))) = set (slots (waitList (lim s)))"
    using t(2) by (metis set_mset_mset)
  moreover have "index (items (waitList (tick_section p (lim s))) r) = -1" if "stat s r = Granted" for r
    using that t(5)[of r] d(2,3) by (auto simp: waiters_def)
  ultimately show ?thesis using d t by (auto simp: linv_def holders_def waiters_def)
qed

lemma linv_end:
  assumes inv: "linv L s" and p: "stat s p = Running" and x: "x = Ended \<or> x = Sleeping"
    and e: "end_section (lim s) = (next, l)"
  shows "linv L \<lparr>lim = l, stat = grant next ((stat s)(p := x))\<rparr>"
proof -
  note d = linvD[OF inv]
  have ph: "p \<in> holders s" "p \<notin> waiters s" using p by (auto simp: holders_def waiters_def)
  have c: "card (holders s - {p}) = card (holders s) - 1" "card (holders s) > 0"
    using ph d(4) card_gt_0_iff by (auto intro: card_Diff_singleton)
  from e d(1) show ?thesis
  proof (cases rule: end_section_cases)
    case idle
    then have "waiters s = {}" using d(2) by simp
    moreover have "count l = 0 \<or> (\<exists>n \<in> L. count l \<le> n)" using d(8) c idle d(5) by force
    ultimately show ?thesis using idle d c x ph(2)
      by (auto simp: linv_def grant_def holders_upd waiters_upd of_nat_diff)
  next
    case (handoff q)
    have qw: "q \<in> waiters s" using mset_slots_insert[OF handoff(6)] d(2) by blast
    then have q: "q \<in> waiters s" "q \<notin> holders s" "q \<noteq> p"
      using p by (auto simp: waiters_def holders_def)
    let ?s1 = "\<lparr>lim = l, stat = (stat s)(p := x)\<rparr>"
    have s': "\<lparr>lim = l, stat = grant next ((stat s)(p := x))\<rparr>
        = \<lparr>lim = l, stat = (stat ?s1)(q := Granted)\<rparr>"
      using handoff by (simp add: grant_def)
    have "holders ?s1 = holders s - {p}" "waiters ?s1 = waiters s"
      using x ph by (auto simp: holders_upd waiters_upd)
    then have hw: "holders \<lparr>lim = l, stat = grant next ((stat s)(p := x))\<rparr> = insert q (holders s - {p})"
      "waiters \<lparr>lim = l, stat = grant next ((stat s)(p := x))\<rparr> = waiters s - {q}"
      unfolding s' holders_upd waiters_upd by simp_all
    have "distinct (slots (waitList (lim s)))" using d(1) by (simp add: pq_inv_def index_ok_def)
    then have "q \<notin> set (slots (waitList l))"
      by (metis handoff(6) distinct.simps(2) mset.simps(2) mset_eq_imp_distinct_iff)
    then have "set (slots (waitList l)) = waiters s - {q}"
      using mset_slots_insert[OF handoff(6)] d(2) by auto
    moreover have "card (insert q (holders s - {p})) = card (holders s)"
      using q c d(4) by simp
    moreover have "index (items (waitList l) r) = -1"
      if "(grant next ((stat s)(p := x))) r = Granted" for r
    proof (cases "r = q")
      case False
      then have "stat s r = Granted" using that x handoff(1) by (auto simp: grant_def split: if_splits)
      then show ?thesis using handoff(9)[of r] d(2,3) by (auto simp: waiters_def)
    qed (use handoff in simp)
    ultimately show ?thesis using d handoff q
      unfolding linv_def hw by auto
  qed
qed

lemma linv_lstep: "lstep L s s' \<Longrightarrow> linv L s \<Longrightarrow> linv L s'"
proof (induction rule: lstep.induct)
  case (reload n s)
  then show ?case by (auto simp: linv_def holders_def waiters_def)
qed (blast intro: linv_acquired linv_queued linv_receive linv_tick linv_end)+

lemma linv_lreach: "lreach L s \<Longrightarrow> linv L s"
  by (induction rule: lreach.induct) (blast intro: linv_init linv_lstep)+


subsection \<open>Properties\<close>

text \<open>A limiter of one slot with operation 0 running and operation 1 waiting for it.\<close>

lemma demo_reach: "\<exists>s. lreach {1} s \<and> waiters s = {1} \<and> holders s = {0}"
proof -
  obtain l0 where l0: "NewReloadableLimiter 1 0 = Some l0"
    by (simp add: NewReloadableLimiter_def)
  let ?s0 = "\<lparr>lim = l0, stat = (\<lambda>_. Fresh)\<rparr>"
  have c0: "count l0 = 0" "limit l0 = 1" using l0 by (auto simp: NewReloadableLimiter_def)
  let ?s1 = "\<lparr>lim = l0\<lparr>count := 1\<rparr>, stat = (stat ?s0)(0 := Running)\<rparr>"
  have r0: "lreach {1} ?s0" using l0 by (intro lreach.init) auto
  have "lstep {1} ?s0 ?s1"
    by (rule lstep.begin_acquired) (auto simp: wait_section_Acquired c0)
  with r0 have r1: "lreach {1} ?s1" by (rule lreach.step)
  obtain l2 where "wait_section 1 1 0 (lim ?s1) = (Queued, l2)"
    using c0 by (simp add: wait_section_def Let_def)
  then have "lstep {1} ?s1 \<lparr>lim = l2, stat = (stat ?s1)(1 := Waiting)\<rparr>"
    by (intro lstep.begin_queued) auto
  with r1 have "lreach {1} \<lparr>lim = l2, stat = (stat ?s1)(1 := Waiting)\<rparr>" by (rule lreach.step)
  then show ?thesis by (intro exI conjI) (auto simp: waiters_def holders_def split: if_splits)
qed

text \<open>
  C1. Whatever the interleaving of begins, ends, sleeps, priority ticks and reloads of the
  limit (to values in \<open>L\<close>), the counter equals the number of operations that hold a slot, and
  that number never exceeds an upper bound of the limits in force.
\<close>

theorem limiter_bounds_concurrency:
  assumes "lreach L s" "\<And>n. n \<in> L \<Longrightarrow> n \<le> M" "0 \<le> M"
  shows "count (lim s) = int (card (holders s)) \<and> int (card (holders s)) \<le> M"
proof -
  have "linv L s" using assms(1) by (rule linv_lreach)
  then have "count (lim s) = int (card (holders s))"
    and "count (lim s) = 0 \<or> (\<exists>n \<in> L. count (lim s) \<le> n)" by (auto dest: linvD)
  then show ?thesis using assms(2,3) by force
qed

theorem limiter_bounds_concurrency_witness:
  "\<exists>s. lreach {1} s \<and> waiters s = {1} \<and> int (card (holders s)) \<le> 1"
  using demo_reach limiter_bounds_concurrency[of "{1}" _ 1] by fastforce



text \<open>
  When an operation ends while others wait, its slot passes directly to a waiter of the
  highest priority, and among those to one that was queued first; the counter is unchanged,
  so no newcomer can take the slot in between.
\<close>

lemma limiter_handoff:
  assumes "lreach L s" "waiters s \<noteq> {}"
  shows "\<exists>q l. end_section (lim s) = (Some q, l) \<and> q \<in> waiters s \<and> count l = count (lim s)
    \<and> (\<forall>r \<in> waiters s. beq (key (waitList (lim s)) q) (key (waitList (lim s)) r))"
proof -
  note d = linvD[OF linv_lreach[OF assms(1)]]
  obtain next' l where e: "end_section (lim s) = (next', l)" by fastforce
  from e d(1) show ?thesis
  proof (cases rule: end_section_cases)
    case idle
    with d(2) assms(2) show ?thesis by simp
  next
    case (handoff q)
    then have "q \<in> waiters s" using mset_slots_insert[OF handoff(6)] d(2) by blast
    with handoff e d(2) show ?thesis by blast
  qed
qed

lemma limiter_handoff_witness:
  "\<exists>s l. lreach {1} s \<and> end_section (lim s) = (Some 1, l) \<and> count l = count (lim s)"
proof -
  obtain s where s: "lreach {1} s" "waiters s = {1}" using demo_reach by blast
  then obtain q l where "end_section (lim s) = (Some q, l)" "q \<in> waiters s" "count l = count (lim s)"
    using limiter_handoff[OF s(1)] by blast
  with s show ?thesis by auto
qed

text \<open>
  Dynamic priorities age a waiter and nobody else: after \<open>k\<close> ticks its priority is its
  old one plus \<open>k\<close>, capped at the highest, its time stamp is unchanged, and the rank of every
  other item and the set of waiters are as before.
\<close>

lemma tick_ages_waiter:
  assumes "pq_inv (waitList l)" "p \<in> set (slots (waitList l))"
    and "Priority (items (waitList l) p) \<le> LimiterPriorityValueHigh"
  shows "pq_inv (waitList ((tick_section p ^^ k) l))
    \<and> set (slots (waitList ((tick_section p ^^ k) l))) = set (slots (waitList l))
    \<and> key (waitList ((tick_section p ^^ k) l)) = (key (waitList l))
        (p := (min LimiterPriorityValueHigh (Priority (items (waitList l) p) + int k),
               timeStamp (items (waitList l) p)))"
proof (induction k)
  case 0
  show ?case using assms by (auto simp: key_def fun_eq_iff)
next
  case (Suc k)
  let ?l = "(tick_section p ^^ k) l"
  have inv: "pq_inv (waitList ?l)" and p: "p \<in> set (slots (waitList ?l))"
    using Suc.IH assms(2) by auto
  have kp: "key (waitList ?l) p = (min LimiterPriorityValueHigh (Priority (items (waitList l) p) + int k),
      timeStamp (items (waitList l) p))"
    using Suc.IH by simp
  note u = Update_facts[OF inv p]
  let ?x = "Priority (items (waitList l) p)" and ?t = "timeStamp (items (waitList l) p)"
  have IH: "key (waitList ?l) = (key (waitList l))(p := (min LimiterPriorityValueHigh (?x + int k), ?t))"
    using Suc.IH by blast
  have "key (waitList (tick_section p ?l)) =
      (key (waitList ?l))(p := (min LimiterPriorityValueHigh (?x + int k + 1), ?t))"
    using u(3) kp by (auto simp: tick_section_def Let_def key_def fun_eq_iff LimiterPriorityValueHigh_def)
  then have "key (waitList (tick_section p ?l)) =
      (key (waitList l))(p := (min LimiterPriorityValueHigh (?x + int (Suc k)), ?t))"
    by (simp add: IH algebra_simps)
  moreover have "set (slots (waitList (tick_section p ?l))) = set (slots (waitList ?l))"
    using tick_section_facts(2)[OF inv p] by (metis set_mset_mset)
  ultimately show ?case
    using Suc.IH tick_section_facts(1)[OF inv p] by simp
qed

lemma tick_ages_waiter_witness:
  "Priority (items (waitList ((tick_section 1 ^^ 5) \<lparr>limit = 1, dynamicPeriod = 1, count = 1,
      waitList = two_items\<rparr>)) 1) = 4"
proof -
  let ?l = "\<lparr>limit = 1, dynamicPeriod = 1, count = 1, waitList = two_items\<rparr>"
  have "key (waitList ((tick_section 1 ^^ 5) ?l)) 1 = (4, 4)"
    using tick_ages_waiter[of ?l 1 5] two_items_inv
    by (simp add: LimiterPriorityValueHigh_def) (simp add: two_items_def)
  then show ?thesis by (simp add: key_def)
qed

end
