(* ===== verification/Cachettl.thy ===== *)
theory Cachettl
  imports Kit_Prelude "HOL-Library.Multiset"
begin

text \<open>
  The cache with time to live of \<open>cachettl/cachettl.go\<close>: a map from keys to nodes of a ring
  that is doubly linked through a root node and sorted by expiration. Nodes live in a store
  and are named by address; the root is node 0, whose expiration is the zero time. \<open>None\<close> as
  the result of an operation means that the code would dereference a nil pointer or loop for
  ever; the theorems below show that neither happens.

  Every call of the clock is an argument: an operation that reads it several times takes one
  argument for each reading.
\<close>

record ('k, 'v) node =
  nkey :: 'k
  nvalue :: 'v
  prev :: "nat option"
  nxt :: "nat option"
  ttl :: duration
  expiration :: gotime

record ('k, 'v) cache =
  nodes :: "nat \<Rightarrow> ('k, 'v) node"
  m :: "'k \<Rightarrow> nat option"
  refreshTTL :: bool
  fresh :: nat

definition root :: nat where
  "root = 0"

definition upd_node :: "nat \<Rightarrow> (('k, 'v) node \<Rightarrow> ('k, 'v) node) \<Rightarrow> ('k, 'v) cache \<Rightarrow> ('k, 'v) cache" where
  "upd_node a f c = c\<lparr>nodes := (nodes c)(a := f (nodes c a))\<rparr>"

text \<open>\<open>New\<close>: key and value of the root are never read, so any will do.\<close>

definition New :: "'k \<Rightarrow> 'v \<Rightarrow> bool \<Rightarrow> ('k, 'v) cache" where
  "New k0 v0 refresh = \<lparr>nodes = (\<lambda>_. \<lparr>nkey = k0, nvalue = v0, prev = None, nxt = None, ttl = 0,
       expiration = zero_time\<rparr>),
     m = (\<lambda>_. None), refreshTTL = refresh, fresh = 1\<rparr>"

definition remove :: "nat \<Rightarrow> ('k, 'v) cache \<Rightarrow> ('k, 'v) cache option" where
  "remove n c =
     (case (prev (nodes c n), nxt (nodes c n)) of
        (Some p, Some q) \<Rightarrow>
          (let c1 = upd_node p (\<lambda>x. x\<lparr>nxt := nxt (nodes c n)\<rparr>) c
           in (case nxt (nodes c1 n) of
                 Some q' \<Rightarrow> Some (upd_node q' (\<lambda>x. x\<lparr>prev := prev (nodes c1 n)\<rparr>) c1)
               | None \<Rightarrow> None))
      | _ \<Rightarrow> None)"

text \<open>\<open>add\<close>: walk from the tail towards the root and insert after the first node that does not
  expire later.\<close>

definition insert_after :: "nat \<Rightarrow> nat \<Rightarrow> ('k, 'v) cache \<Rightarrow> ('k, 'v) cache option" where
  "insert_after cn n c =
     (case nxt (nodes c cn) of
        None \<Rightarrow> None
      | Some save \<Rightarrow>
          Some (upd_node save (\<lambda>x. x\<lparr>prev := Some n\<rparr>)
            (upd_node n (\<lambda>x. x\<lparr>nxt := Some save\<rparr>)
            (upd_node n (\<lambda>x. x\<lparr>prev := Some cn\<rparr>)
            (upd_node cn (\<lambda>x. x\<lparr>nxt := Some n\<rparr>) c)))))"

partial_function (option) add_loop :: "nat \<Rightarrow> nat option \<Rightarrow> ('k, 'v) cache \<Rightarrow> ('k, 'v) cache option" where
  "add_loop n cn c =
     (case cn of
        None \<Rightarrow> Some c
      | Some a \<Rightarrow>
          if expiration (nodes c n) > expiration (nodes c a)
             \<or> expiration (nodes c n) = expiration (nodes c a)
          then insert_after a n c
          else add_loop n (prev (nodes c a)) c)"

definition add :: "nat \<Rightarrow> ('k, 'v) cache \<Rightarrow> ('k, 'v) cache option" where
  "add n c = add_loop n (prev (nodes c root)) c"

text \<open>\<open>Put\<close>, with the clock read once. A node that exists keeps its \<open>ttl\<close> field.\<close>

definition Put :: "'k \<Rightarrow> 'v \<Rightarrow> duration \<Rightarrow> gotime \<Rightarrow> ('k, 'v) cache \<Rightarrow> ('k, 'v) cache option" where
  "Put key value t now c =
     (case m c key of
        None \<Rightarrow>
          (let n = fresh c;
               nd = \<lparr>nkey = key, nvalue = value, prev = None, nxt = None, ttl = t, expiration = now + t\<rparr>;
               c1 = c\<lparr>nodes := (nodes c)(n := nd), m := (m c)(key := Some n), fresh := fresh c + 1\<rparr>
           in if nxt (nodes c1 root) = None
              then Some (upd_node n (\<lambda>x. x\<lparr>prev := Some root, nxt := Some root\<rparr>)
                     (upd_node root (\<lambda>x. x\<lparr>nxt := Some n, prev := Some n\<rparr>) c1))
              else add n c1)
      | Some n \<Rightarrow>
          (let c1 = upd_node n (\<lambda>x. x\<lparr>nvalue := value, expiration := now + t\<rparr>) c
           in if nxt (nodes c1 root) = None
              then Some (upd_node n (\<lambda>x. x\<lparr>prev := Some root, nxt := Some root\<rparr>)
                     (upd_node root (\<lambda>x. x\<lparr>nxt := Some n, prev := Some n\<rparr>) c1))
              else Option.bind (remove n c1) (add n)))"

text \<open>
  The deferred clean-up of \<open>Get\<close>: from the head, evict while the clock (its \<open>i\<close>-th reading is
  \<open>tc i\<close>) is after the node's expiration. The result lists the calls of \<open>onEvicted\<close>, in order.
\<close>

partial_function (option) cleanup_loop ::
  "nat option \<Rightarrow> (nat \<Rightarrow> gotime) \<Rightarrow> nat \<Rightarrow> ('k \<times> 'v) list \<Rightarrow> ('k, 'v) cache \<Rightarrow>
   (('k \<times> 'v) list \<times> ('k, 'v) cache) option" where
  "cleanup_loop cn tc i evs c =
     (case cn of
        None \<Rightarrow> Some (evs, c)
      | Some a \<Rightarrow>
          if a = root then Some (evs, c)
          else if tc i > expiration (nodes c a)
          then Option.bind (remove a c) (\<lambda>c1.
                 let c2 = c1\<lparr>m := (m c1)(nkey (nodes c1 a) := None)\<rparr>
                 in cleanup_loop (nxt (nodes c2 a)) tc (i + 1)
                      (evs @ [(nkey (nodes c2 a), nvalue (nodes c2 a))]) c2)
          else Some (evs, c))"

text \<open>
  \<open>Get\<close>: \<open>t1\<close> is the reading that decides whether the node is alive, \<open>t2\<close> the one its new
  expiration is counted from. The value is \<open>None\<close> where the code returns the zero value.
\<close>

definition get_main :: "'k \<Rightarrow> gotime \<Rightarrow> gotime \<Rightarrow> ('k, 'v) cache \<Rightarrow> ('v option \<times> ('k, 'v) cache) option" where
  "get_main key t1 t2 c =
     (case m c key of
        None \<Rightarrow> Some (None, c)
      | Some n \<Rightarrow>
          if expiration (nodes c n) > t1
          then Option.bind
                 (if refreshTTL c
                  then Option.bind (remove n c) (\<lambda>c1.
                         add n (upd_node n (\<lambda>x. x\<lparr>expiration := t2 + ttl x\<rparr>) c1))
                  else Some c)
                 (\<lambda>c2. Some (Some (nvalue (nodes c2 n)), c2))
          else Some (None, c))"

definition Get :: "'k \<Rightarrow> gotime \<Rightarrow> gotime \<Rightarrow> (nat \<Rightarrow> gotime) \<Rightarrow> ('k, 'v) cache \<Rightarrow>
    ('v option \<times> ('k \<times> 'v) list \<times> ('k, 'v) cache) option" where
  "Get key t1 t2 tc c =
     Option.bind (get_main key t1 t2 c) (\<lambda>(r, c1).
     Option.bind (cleanup_loop (nxt (nodes c1 root)) tc 0 [] c1) (\<lambda>(evs, c2).
     Some (r, evs, c2)))"

partial_function (option) slice_loop :: "nat option \<Rightarrow> 'v list \<Rightarrow> ('k, 'v) cache \<Rightarrow> 'v list option" where
  "slice_loop cn s c =
     (case cn of
        None \<Rightarrow> Some s
      | Some a \<Rightarrow> if a = root then Some s
                  else slice_loop (nxt (nodes c a)) (s @ [nvalue (nodes c a)]) c)"

definition slice :: "('k, 'v) cache \<Rightarrow> 'v list option" where
  "slice c = slice_loop (nxt (nodes c root)) [] c"

subsection \<open>The cache as a list of entries\<close>

record ('k, 'v) entry =
  ekey :: 'k
  evalue :: 'v
  ettl :: duration
  eexp :: gotime

definition entry_of :: "('k, 'v) node \<Rightarrow> ('k, 'v) entry" where
  "entry_of n = \<lparr>ekey = nkey n, evalue = nvalue n, ettl = ttl n, eexp = expiration n\<rparr>"

fun linked :: "(nat \<Rightarrow> ('k, 'v) node) \<Rightarrow> nat list \<Rightarrow> bool" where
  "linked nd (a # b # r) \<longleftrightarrow> nxt (nd a) = Some b \<and> prev (nd b) = Some a \<and> linked nd (b # r)"
| "linked nd _ \<longleftrightarrow> True"

definition ring :: "('k, 'v) cache \<Rightarrow> nat list \<Rightarrow> bool" where
  "ring c xs \<longleftrightarrow> distinct xs \<and> root \<notin> set xs \<and>
     (linked (nodes c) (root # xs @ [root])
       \<or> (xs = [] \<and> nxt (nodes c root) = None \<and> prev (nodes c root) = None))"

definition cache_rel :: "('k, 'v) cache \<Rightarrow> nat list \<Rightarrow> bool" where
  "cache_rel c xs \<longleftrightarrow> ring c xs
     \<and> expiration (nodes c root) = zero_time
     \<and> (\<forall>a \<in> set xs. a < fresh c) \<and> root < fresh c
     \<and> distinct (map (\<lambda>a. nkey (nodes c a)) xs)
     \<and> (\<forall>k a. m c k = Some a \<longleftrightarrow> a \<in> set xs \<and> nkey (nodes c a) = k)
     \<and> sorted (map (\<lambda>a. expiration (nodes c a)) xs)
     \<and> (\<forall>a \<in> set xs. zero_time \<le> expiration (nodes c a))"

definition entries :: "('k, 'v) cache \<Rightarrow> nat list \<Rightarrow> ('k, 'v) entry list" where
  "entries c xs = map (\<lambda>a. entry_of (nodes c a)) xs"


subsection \<open>Linked segments\<close>

lemma linked_join:
  "linked nd (xs @ p # q # ys) \<longleftrightarrow>
     linked nd (xs @ [p]) \<and> nxt (nd p) = Some q \<and> prev (nd q) = Some p \<and> linked nd (q # ys)"
proof (induction nd xs rule: linked.induct)
  case (1 nd a b r)
  then show ?case by auto
qed auto

lemma linked_cong:
  "(\<And>a. a \<in> set (butlast zs) \<Longrightarrow> nxt (nd a) = nxt (nd' a)) \<Longrightarrow>
   (\<And>a. a \<in> set (tl zs) \<Longrightarrow> prev (nd a) = prev (nd' a)) \<Longrightarrow> linked nd zs \<longleftrightarrow> linked nd' zs"
proof (induction nd zs rule: linked.induct)
  case (1 nd a b r)
  have "linked nd (b # r) \<longleftrightarrow> linked nd' (b # r)"
    by (rule "1.IH") (use "1.prems" in \<open>auto simp: list.set_sel(2) dest: in_set_butlastD\<close>)
  then show ?case using "1.prems" by simp
qed auto

text \<open>What operations on the links leave alone.\<close>

definition same_data :: "('k, 'v) cache \<Rightarrow> ('k, 'v) cache \<Rightarrow> bool" where
  "same_data c c' \<longleftrightarrow> m c' = m c \<and> refreshTTL c' = refreshTTL c \<and> fresh c' = fresh c
     \<and> (\<forall>a. entry_of (nodes c' a) = entry_of (nodes c a))"

lemma same_data_refl [simp]: "same_data c c"
  by (simp add: same_data_def)

lemma same_dataD:
  assumes "same_data c c'"
  shows "m c' = m c" "refreshTTL c' = refreshTTL c" "fresh c' = fresh c"
    "nkey (nodes c' a) = nkey (nodes c a)" "nvalue (nodes c' a) = nvalue (nodes c a)"
    "ttl (nodes c' a) = ttl (nodes c a)" "expiration (nodes c' a) = expiration (nodes c a)"
  using assms by (auto simp: same_data_def entry_of_def)

lemma ring_around:
  assumes "ring c (as @ n # bs)"
  shows "prev (nodes c n) = Some (last (root # as))" "nxt (nodes c n) = Some (hd (bs @ [root]))"
    "nxt (nodes c (last (root # as))) = Some n" "prev (nodes c (hd (bs @ [root]))) = Some n"
proof -
  let ?nd = "nodes c"
  have L: "linked ?nd (root # as @ n # bs @ [root])" using assms by (auto simp: ring_def)
  have "root # as @ n # bs @ [root] = butlast (root # as) @ last (root # as) # n # bs @ [root]"
    by (metis append_Cons append_butlast_last_id append_eq_append_conv2 append_Nil list.distinct(1))
  with L have 1: "nxt (?nd (last (root # as))) = Some n \<and> prev (?nd n) = Some (last (root # as))"
    by (metis linked_join)
  have "root # as @ n # bs @ [root] = (root # as) @ n # hd (bs @ [root]) # tl (bs @ [root])"
    by (cases bs) auto
  with L have "nxt (?nd n) = Some (hd (bs @ [root])) \<and> prev (?nd (hd (bs @ [root]))) = Some n"
    by (metis linked_join)
  with 1 show "prev (?nd n) = Some (last (root # as))" "nxt (?nd n) = Some (hd (bs @ [root]))"
    "nxt (?nd (last (root # as))) = Some n" "prev (?nd (hd (bs @ [root]))) = Some n" by auto
qed

lemma last_root_notin:
  assumes "distinct (as @ bs)" "root \<notin> set (as @ bs)"
  shows "last (root # as) \<notin> set bs" "last (root # as) \<notin> set (butlast (root # as))"
proof -
  show "last (root # as) \<notin> set bs" using assms by (cases as rule: rev_cases) auto
  have "distinct (root # as)" using assms by auto
  then show "last (root # as) \<notin> set (butlast (root # as))"
    by (cases as rule: rev_cases) auto
qed

lemma hd_root_notin:
  assumes "distinct (as @ bs)" "root \<notin> set (as @ bs)"
  shows "hd (bs @ [root]) \<notin> set as" "hd (bs @ [root]) \<notin> set (tl (bs @ [root]))"
  using assms by (cases bs; auto)+

text \<open>Cutting a ring in two and tying the ends.\<close>

lemma linked_tie:
  assumes d: "distinct (as @ bs)" "root \<notin> set (as @ bs)"
    and l1: "linked nd (root # as)" and l2: "linked nd (bs @ [root])"
    and p: "p = last (root # as)" and q: "q = hd (bs @ [root])"
    and nd': "\<And>a. a \<noteq> p \<Longrightarrow> nxt (nd' a) = nxt (nd a)" "\<And>a. a \<noteq> q \<Longrightarrow> prev (nd' a) = prev (nd a)"
      "nxt (nd' p) = Some q" "prev (nd' q) = Some p"
  shows "linked nd' (root # as @ bs @ [root])"
proof -
  have e1: "root # as = butlast (root # as) @ [p]" using p by simp
  have e2: "bs @ [root] = q # tl (bs @ [root])" using q by (cases bs) auto
  have "linked nd' (root # as)"
  proof (subst linked_cong[of _ nd' nd])
    fix a assume "a \<in> set (butlast (root # as))"
    then show "nxt (nd' a) = nxt (nd a)" using last_root_notin(2)[OF d] p nd'(1) by metis
  next
    fix a assume "a \<in> set (tl (root # as))"
    then show "prev (nd' a) = prev (nd a)" using hd_root_notin(1)[OF d] q nd'(2) by (metis list.sel(3))
  qed (rule l1)
  moreover have "linked nd' (bs @ [root])"
  proof (subst linked_cong[of _ nd' nd])
    fix a assume "a \<in> set (butlast (bs @ [root]))"
    then show "nxt (nd' a) = nxt (nd a)" using last_root_notin(1)[OF d] p nd'(1) by (metis butlast_snoc)
  next
    fix a assume "a \<in> set (tl (bs @ [root]))"
    then show "prev (nd' a) = prev (nd a)" using hd_root_notin(2)[OF d] q nd'(2) by metis
  qed (rule l2)
  ultimately have "linked nd' (butlast (root # as) @ p # q # tl (bs @ [root]))"
    unfolding linked_join using nd'(3,4) e1 e2 by simp
  moreover have "root # as @ bs @ [root] = butlast (root # as) @ p # q # tl (bs @ [root])"
    using e1 e2 by (metis append_Cons append_assoc append_Nil)
  ultimately show ?thesis by simp
qed

lemma linked_parts:
  "linked nd (xs @ ys) \<Longrightarrow> linked nd xs" "linked nd (xs @ ys) \<Longrightarrow> linked nd ys"
proof -
  assume l: "linked nd (xs @ ys)"
  show "linked nd xs"
  proof (cases ys)
    case (Cons y r)
    then show ?thesis using l by (cases xs rule: rev_cases) (auto simp: linked_join)
  qed (use l in simp)
  show "linked nd ys"
  proof (cases xs rule: rev_cases)
    case (snoc r x)
    then show ?thesis using l by (cases ys) (auto simp: linked_join)
  qed (use l in simp)
qed


lemma remove_ring:
  assumes r: "ring c (as @ n # bs)"
  obtains c' where "remove n c = Some c'" "ring c' (as @ bs)" "linked (nodes c') (root # as @ bs @ [root])"
    "same_data c c'" "nodes c' n = nodes c n"
proof -
  let ?p = "last (root # as)" and ?q = "hd (bs @ [root])"
  note a = ring_around[OF r]
  have d: "distinct (as @ n # bs)" "root \<notin> set (as @ n # bs)" using r by (auto simp: ring_def)
  then have d': "distinct (as @ bs)" "root \<notin> set (as @ bs)" by auto
  have np: "?p \<noteq> n" "?q \<noteq> n" using d by (cases as rule: rev_cases; auto; fail)+ (cases bs; use d in auto)
  let ?c1 = "upd_node ?p (\<lambda>x. x\<lparr>nxt := Some ?q\<rparr>) c"
  let ?c' = "upd_node ?q (\<lambda>x. x\<lparr>prev := Some ?p\<rparr>) ?c1"
  have rem: "remove n c = Some ?c'"
    using a np by (simp add: remove_def Let_def upd_node_def)
  have "linked (nodes c) (root # as @ n # bs @ [root])" using r by (auto simp: ring_def)
  then have "linked (nodes c) ((root # as) @ [n] @ (bs @ [root]))" by simp
  then have l: "linked (nodes c) (root # as)" "linked (nodes c) (bs @ [root])"
    by (blast intro: linked_parts)+
  have lk: "linked (nodes ?c') (root # as @ bs @ [root])"
    by (rule linked_tie[OF d' l refl refl]) (auto simp: upd_node_def)
  have sd: "same_data c ?c'" by (auto simp: same_data_def upd_node_def entry_of_def)
  have nn: "nodes ?c' n = nodes c n" using np by (auto simp: upd_node_def)
  have "ring ?c' (as @ bs)" using lk d' unfolding ring_def by simp
  from that[OF rem this lk sd nn] show ?thesis .
qed

lemma insert_after_ring:
  assumes l: "linked (nodes c) (root # as @ bs @ [root])"
    and d: "distinct (as @ n # bs)" "root \<notin> set (as @ n # bs)"
  obtains c' where "insert_after (last (root # as)) n c = Some c'" "ring c' (as @ n # bs)" "same_data c c'"
proof -
  define p q where "p = last (root # as)" and "q = hd (bs @ [root])"
  note pq = p_def[symmetric] q_def[symmetric]
  have d': "distinct (as @ bs)" "root \<notin> set (as @ bs)" using d by auto
  have np: "p \<noteq> n" "q \<noteq> n" unfolding p_def q_def
    using d by (cases as rule: rev_cases; auto; fail)+ (cases bs; use d in auto)
  have "root # as @ bs @ [root] = butlast (root # as) @ p # q # tl (bs @ [root])"
    unfolding p_def q_def by (cases as rule: rev_cases; cases bs) auto
  with l have nx: "nxt (nodes c p) = Some q" by (metis linked_join)
  define c' where "c' = upd_node q (\<lambda>x. x\<lparr>prev := Some n\<rparr>)
      (upd_node n (\<lambda>x. x\<lparr>nxt := Some q\<rparr>)
      (upd_node n (\<lambda>x. x\<lparr>prev := Some p\<rparr>)
      (upd_node p (\<lambda>x. x\<lparr>nxt := Some n\<rparr>) c)))"
  have ins: "insert_after p n c = Some c'" using nx by (simp add: insert_after_def c'_def)
  have "linked (nodes c) ((root # as) @ (bs @ [root]))" using l by simp
  then have ll: "linked (nodes c) (root # as)" "linked (nodes c) (bs @ [root])"
    by (blast intro: linked_parts)+
  let ?nd = "(nodes c)(p := (nodes c p)\<lparr>nxt := Some n\<rparr>)"
  let ?nd1 = "?nd(n := (?nd n)\<lparr>prev := Some p\<rparr>)"
  have e: "root # as @ [n] = butlast (root # as) @ p # n # []"
    unfolding p_def by (cases as rule: rev_cases) auto
  have r: "root # as = butlast (root # as) @ [p]" unfolding p_def by simp
  have lr: "linked ?nd1 (root # as)"
  proof (subst linked_cong[of _ _ "nodes c"])
    fix a assume "a \<in> set (butlast (root # as))"
    then show "nxt (?nd1 a) = nxt (nodes c a)" using last_root_notin(2)[OF d', unfolded pq] by auto
  next
    fix a assume "a \<in> set (tl (root # as))"
    then have "a \<noteq> n" using d by auto
    then show "prev (?nd1 a) = prev (nodes c a)" by simp
  qed (rule ll(1))
  have l1: "linked ?nd1 (root # as @ [n])"
    unfolding e linked_join using np lr r by simp
  have l2: "linked ?nd1 (bs @ [root])"
  proof (subst linked_cong[of _ _ "nodes c"])
    fix a assume "a \<in> set (butlast (bs @ [root]))"
    then have "a \<noteq> p" "a \<in> set bs" using last_root_notin(1)[OF d', unfolded pq] by auto
    then show "nxt (?nd1 a) = nxt (nodes c a)" by simp
  next
    fix a assume "a \<in> set (tl (bs @ [root]))"
    then have "a \<noteq> n" using d by (cases bs) auto
    then show "prev (?nd1 a) = prev (nodes c a)" by simp
  qed (rule ll(2))
  have "linked (nodes c') (root # (as @ [n]) @ bs @ [root])"
  proof (rule linked_tie[OF _ _ _ l2])
    show "distinct ((as @ [n]) @ bs)" "root \<notin> set ((as @ [n]) @ bs)" using d by auto
    show "linked ?nd1 (root # as @ [n])" by (rule l1)
    show "n = last (root # as @ [n])" "q = hd (bs @ [root])" by (simp_all add: q_def)
  qed (use np in \<open>auto simp: c'_def upd_node_def\<close>)
  then have "ring c' (as @ n # bs)" using d by (simp add: ring_def)
  moreover have "same_data c c'" by (auto simp: c'_def same_data_def upd_node_def entry_of_def)
  ultimately show ?thesis using that[OF ins[unfolded p_def]] by blast
qed

text \<open>\<open>add\<close> inserts behind the nodes that do not expire later.\<close>

lemma add_loop_ring:
  assumes "linked (nodes c) (root # as @ bs @ [root])"
    and "distinct (as @ n # bs)" "root \<notin> set (as @ n # bs)"
    and "sorted (map (\<lambda>a. expiration (nodes c a)) as)"
    and "expiration (nodes c root) \<le> expiration (nodes c n)"
  defines "P \<equiv> \<lambda>a. expiration (nodes c a) \<le> expiration (nodes c n)"
  shows "\<exists>c'. add_loop n (Some (last (root # as))) c = Some c'
    \<and> ring c' (takeWhile P as @ n # dropWhile P as @ bs) \<and> same_data c c'"
  using assms(1-4)
proof (induction as arbitrary: bs rule: rev_induct)
  case Nil
  obtain c' where "insert_after root n c = Some c'" "ring c' ([] @ n # bs)" "same_data c c'"
    using insert_after_ring[of c "[]" bs n] Nil by auto
  with assms(5) show ?case by (auto simp: add_loop.simps)
next
  case (snoc a as)
  show ?case
  proof (cases "P a")
    case True
    have all: "P x" if "x \<in> set (as @ [a])" for x
      using that snoc.prems(4) True by (auto simp: P_def sorted_append)
    then have "takeWhile P (as @ [a]) = as @ [a]" "dropWhile P (as @ [a]) = []"
      by (auto simp: takeWhile_eq_all_conv dropWhile_eq_Nil_conv)
    moreover obtain c' where "insert_after (last (root # as @ [a])) n c = Some c'"
      "ring c' ((as @ [a]) @ n # bs)" "same_data c c'"
      using insert_after_ring[of c "as @ [a]" bs n] snoc.prems by auto
    ultimately show ?thesis using True by (auto simp: add_loop.simps P_def)
  next
    case False
    then have *: "takeWhile P (as @ [a]) = takeWhile P as" "dropWhile P (as @ [a]) = dropWhile P as @ [a]"
      by (induction as) auto
    have "ring c (as @ a # bs)" using snoc.prems by (auto simp: ring_def)
    then have "prev (nodes c a) = Some (last (root # as))" by (rule ring_around)
    moreover have "\<exists>c'. add_loop n (Some (last (root # as))) c = Some c'
        \<and> ring c' (takeWhile P as @ n # dropWhile P as @ (a # bs)) \<and> same_data c c'"
      using snoc.prems by (intro snoc.IH) (auto simp: sorted_append)
    ultimately show ?thesis using False *
      by (subst add_loop.simps) (auto simp: P_def)
  qed
qed

lemma add_ring:
  assumes l: "linked (nodes c) (root # xs @ [root])"
    and d: "distinct (n # xs)" "root \<notin> set (n # xs)"
    and "sorted (map (\<lambda>a. expiration (nodes c a)) xs)"
    and "expiration (nodes c root) \<le> expiration (nodes c n)"
  defines "P \<equiv> \<lambda>a. expiration (nodes c a) \<le> expiration (nodes c n)"
  obtains c' where "add n c = Some c'" "ring c' (takeWhile P xs @ n # dropWhile P xs)" "same_data c c'"
proof -
  have "root # xs @ [root] = butlast (root # xs) @ last (root # xs) # root # []"
    by (cases xs rule: rev_cases) auto
  with l have "prev (nodes c root) = Some (last (root # xs))" by (metis linked_join)
  then show ?thesis
    using add_loop_ring[of c xs "[]" n] assms that by (auto simp: add_def P_def)
qed


subsection \<open>What the operations do to the list of entries\<close>

definition insert_sorted :: "('k, 'v) entry \<Rightarrow> ('k, 'v) entry list \<Rightarrow> ('k, 'v) entry list" where
  "insert_sorted e es =
     takeWhile (\<lambda>x. eexp x \<le> eexp e) es @ e # dropWhile (\<lambda>x. eexp x \<le> eexp e) es"

definition drop_key :: "'k \<Rightarrow> ('k, 'v) entry list \<Rightarrow> ('k, 'v) entry list" where
  "drop_key k es = filter (\<lambda>x. ekey x \<noteq> k) es"

definition find_key :: "'k \<Rightarrow> ('k, 'v) entry list \<Rightarrow> ('k, 'v) entry option" where
  "find_key k es = find (\<lambda>x. ekey x = k) es"

definition put_spec :: "'k \<Rightarrow> 'v \<Rightarrow> duration \<Rightarrow> gotime \<Rightarrow> ('k, 'v) entry list \<Rightarrow> ('k, 'v) entry list" where
  "put_spec k v t now es =
     (case find_key k es of
        None \<Rightarrow> insert_sorted \<lparr>ekey = k, evalue = v, ettl = t, eexp = now + t\<rparr> es
      | Some e \<Rightarrow> insert_sorted (e\<lparr>evalue := v, eexp := now + t\<rparr>) (drop_key k es))"

text \<open>The entries evicted by a clean-up that reads the clock \<open>tc i\<close>, \<open>tc (i + 1)\<close>, ...; the rest.\<close>

fun expire :: "(nat \<Rightarrow> gotime) \<Rightarrow> nat \<Rightarrow> ('k, 'v) entry list \<Rightarrow>
    ('k, 'v) entry list \<times> ('k, 'v) entry list" where
  "expire tc i [] = ([], [])"
| "expire tc i (e # es) =
     (if tc i > eexp e then (case expire tc (i + 1) es of (ev, rest) \<Rightarrow> (e # ev, rest))
      else ([], e # es))"

definition touch_spec :: "bool \<Rightarrow> 'k \<Rightarrow> gotime \<Rightarrow> gotime \<Rightarrow> ('k, 'v) entry list \<Rightarrow>
    'v option \<times> ('k, 'v) entry list" where
  "touch_spec refresh k t1 t2 es =
     (case find_key k es of
        None \<Rightarrow> (None, es)
      | Some e \<Rightarrow>
          if eexp e > t1
          then (Some (evalue e),
                if refresh then insert_sorted (e\<lparr>eexp := t2 + ettl e\<rparr>) (drop_key k es) else es)
          else (None, es))"

definition get_spec :: "bool \<Rightarrow> 'k \<Rightarrow> gotime \<Rightarrow> gotime \<Rightarrow> (nat \<Rightarrow> gotime) \<Rightarrow> ('k, 'v) entry list \<Rightarrow>
    'v option \<times> ('k \<times> 'v) list \<times> ('k, 'v) entry list" where
  "get_spec refresh k t1 t2 tc es =
     (case touch_spec refresh k t1 t2 es of (r, es1) \<Rightarrow>
      (case expire tc 0 es1 of (ev, es2) \<Rightarrow> (r, map (\<lambda>e. (ekey e, evalue e)) ev, es2)))"

subsection \<open>Refinement\<close>

lemma cache_relD:
  assumes "cache_rel c xs"
  shows "ring c xs" "expiration (nodes c root) = zero_time" "\<And>a. a \<in> set xs \<Longrightarrow> a < fresh c"
    "root < fresh c" "distinct (map (\<lambda>a. nkey (nodes c a)) xs)"
    "\<And>k a. m c k = Some a \<longleftrightarrow> a \<in> set xs \<and> nkey (nodes c a) = k"
    "sorted (map (\<lambda>a. expiration (nodes c a)) xs)"
    "\<And>a. a \<in> set xs \<Longrightarrow> zero_time \<le> expiration (nodes c a)"
  using assms unfolding cache_rel_def by blast+

lemma entry_of_sel [simp]:
  "ekey (entry_of n) = nkey n" "evalue (entry_of n) = nvalue n" "ettl (entry_of n) = ttl n"
  "eexp (entry_of n) = expiration n"
  by (simp_all add: entry_of_def)

lemma sorted_insert_mid:
  fixes f :: "'a \<Rightarrow> int" and n :: 'a
  assumes "sorted (map f xs)"
  defines "P \<equiv> \<lambda>a. f a \<le> f n"
  shows "sorted (map f (takeWhile P xs @ n # dropWhile P xs))"
proof -
  have "f n \<le> f y" if "y \<in> set (dropWhile P xs)" for y
  proof (cases "dropWhile P xs")
    case (Cons z zs)
    then have "\<not> P z" by (metis dropWhile_eq_Cons_conv)
    moreover have "sorted (map f (z # zs))"
      using assms(1) Cons by (metis sorted_append map_append takeWhile_dropWhile_id)
    ultimately show ?thesis using that Cons by (auto simp: P_def)
  next
    case Nil
    then show ?thesis using that by (simp del: dropWhile_eq_Nil_conv)
  qed
  moreover have "f x \<le> f n" if "x \<in> set (takeWhile P xs)" for x
    using set_takeWhileD[OF that] by (simp add: P_def)
  moreover have "sorted (map f (takeWhile P xs) @ map f (dropWhile P xs))"
    using assms(1) by (metis map_append takeWhile_dropWhile_id)
  ultimately show ?thesis by (auto simp: sorted_append intro: order_trans)
qed

lemma distinct_mid: "distinct (map g (n # us @ vs)) \<Longrightarrow> distinct (map g (us @ n # vs))"
  by auto

lemma entries_takeWhile:
  "insert_sorted (entry_of (nodes c n)) (entries c xs) =
     entries c (takeWhile (\<lambda>a. expiration (nodes c a) \<le> expiration (nodes c n)) xs @ n
       # dropWhile (\<lambda>a. expiration (nodes c a) \<le> expiration (nodes c n)) xs)"
  by (simp add: insert_sorted_def entries_def takeWhile_map dropWhile_map comp_def)

lemma same_data_entries: "same_data c c' \<Longrightarrow> entries c' xs = entries c xs"
  by (simp add: entries_def same_data_def)

lemma add_rel:
  assumes l: "linked (nodes c) (root # xs @ [root])"
    and d: "distinct (n # xs)" "root \<notin> set (n # xs)"
    and e: "expiration (nodes c root) = zero_time" "\<And>a. a \<in> set (n # xs) \<Longrightarrow> a < fresh c" "root < fresh c"
    and k: "distinct (map (\<lambda>a. nkey (nodes c a)) (n # xs))"
      "\<And>k a. m c k = Some a \<longleftrightarrow> a \<in> set (n # xs) \<and> nkey (nodes c a) = k"
    and s: "sorted (map (\<lambda>a. expiration (nodes c a)) xs)"
      "\<And>a. a \<in> set (n # xs) \<Longrightarrow> zero_time \<le> expiration (nodes c a)"
  shows "\<exists>c' ys. add n c = Some c' \<and> cache_rel c' ys \<and> same_data c c' \<and> set ys = set (n # xs)
    \<and> entries c' ys = insert_sorted (entry_of (nodes c n)) (entries c xs)"
proof -
  let ?P = "\<lambda>a. expiration (nodes c a) \<le> expiration (nodes c n)"
  let ?ys = "takeWhile ?P xs @ n # dropWhile ?P xs"
  have "expiration (nodes c root) \<le> expiration (nodes c n)" using e(1) s(2) by simp
  then obtain c' where c': "add n c = Some c'" "ring c' ?ys" "same_data c c'"
    using add_ring[OF l d s(1)] by blast
  have sys: "set ?ys = set (n # xs)"
    by (metis Un_insert_right list.simps(15) set_append takeWhile_dropWhile_id)
  have "distinct (map (\<lambda>a. nkey (nodes c a)) ?ys)"
    using k(1) by (intro distinct_mid) (simp only: takeWhile_dropWhile_id)
  moreover have "sorted (map (\<lambda>a. expiration (nodes c a)) ?ys)"
    by (rule sorted_insert_mid[OF s(1)])
  ultimately have "cache_rel c' ?ys"
    using c' e k(2) s(2) same_dataD[OF c'(3)] unfolding cache_rel_def sys by auto
  with c' sys show ?thesis
    by (intro exI[of _ c'] exI[of _ ?ys]) (simp add: same_data_entries entries_takeWhile)
qed


lemma find_key_None: "cache_rel c xs \<Longrightarrow> m c k = None \<Longrightarrow> find_key k (entries c xs) = None"
  using cache_relD(6)[of c xs k]
  by (auto simp: find_key_def entries_def find_None_iff)

lemma node_split:
  assumes r: "cache_rel c xs" and k: "m c k = Some n"
  obtains as bs where "xs = as @ n # bs" "nkey (nodes c n) = k"
    "drop_key k (entries c xs) = entries c (as @ bs)"
    "find_key k (entries c xs) = Some (entry_of (nodes c n))"
proof -
  note d = cache_relD[OF r]
  have n: "n \<in> set xs" "nkey (nodes c n) = k" using d(6) k by auto
  then obtain as bs where xs: "xs = as @ n # bs" by (meson split_list)
  have "nkey (nodes c n) \<notin> (\<lambda>a. nkey (nodes c a)) ` set (as @ bs)" using d(5) xs by auto
  then have other: "nkey (nodes c a) \<noteq> k" if "a \<in> set (as @ bs)" for a
    using n that by (metis image_eqI)
  then have "drop_key k (entries c xs) = entries c (as @ bs)"
    by (auto simp: drop_key_def entries_def xs n filter_id_conv)
  moreover have "find (\<lambda>x. ekey x = k) (map (\<lambda>a. entry_of (nodes c a)) as @ ys) = find (\<lambda>x. ekey x = k) ys"
    for ys :: "('a, 'b) entry list"
    using other by (induction as) auto
  then have "find_key k (entries c xs) = Some (entry_of (nodes c n))"
    by (simp add: find_key_def entries_def xs n)
  ultimately show ?thesis using that xs n by blast
qed

lemma ring_linked: "ring c xs \<Longrightarrow> xs \<noteq> [] \<or> nxt (nodes c root) \<noteq> None \<Longrightarrow>
    linked (nodes c) (root # xs @ [root])"
  by (auto simp: ring_def)

lemma linked_head: "linked nd (root # xs @ [root]) \<Longrightarrow> nxt (nd root) = Some (hd (xs @ [root]))"
  by (cases xs) auto

text \<open>Taking a node out of the ring and adding it again with other data.\<close>

lemma move_rel:
  assumes rel: "cache_rel c (as @ n # bs)"
    and c2: "linked (nodes c2) (root # as @ bs @ [root])" "m c2 = m c" "fresh c2 = fresh c"
      "\<And>a. a \<noteq> n \<Longrightarrow> entry_of (nodes c2 a) = entry_of (nodes c a)"
      "nkey (nodes c2 n) = nkey (nodes c n)" "zero_time \<le> expiration (nodes c2 n)"
  shows "\<exists>c' ys. add n c2 = Some c' \<and> cache_rel c' ys \<and> same_data c2 c'
    \<and> entries c' ys = insert_sorted (entry_of (nodes c2 n)) (entries c (as @ bs))"
proof -
  note d = cache_relD[OF rel]
  have dist: "distinct (as @ n # bs)" "root \<notin> set (as @ n # bs)" using d(1) by (auto simp: ring_def)
  have sel: "nkey (nodes c2 a) = nkey (nodes c a)" "a \<noteq> n \<Longrightarrow> expiration (nodes c2 a) = expiration (nodes c a)" for a
    using c2(4)[of a] c2(5) by (auto simp: entry_of_def)
  have "sorted (map (\<lambda>a. expiration (nodes c2 a)) (as @ bs))"
  proof -
    have "map (\<lambda>a. expiration (nodes c2 a)) (as @ bs) = map (\<lambda>a. expiration (nodes c a)) (as @ bs)"
    proof (intro map_cong refl)
      fix a assume "a \<in> set (as @ bs)"
      then have "a \<noteq> n" using dist by auto
      then show "expiration (nodes c2 a) = expiration (nodes c a)" by (rule sel(2))
    qed
    moreover have "sorted (map (\<lambda>a. expiration (nodes c a)) (as @ bs))"
      using d(7) by (auto simp: sorted_append)
    ultimately show ?thesis by (simp only:)
  qed
  moreover have "distinct (map (\<lambda>a. nkey (nodes c2 a)) (n # as @ bs))"
    using d(5) by (auto simp: sel(1))
  moreover have "n \<noteq> root" using dist by auto
  moreover have "zero_time \<le> expiration (nodes c2 a)" if "a \<in> set (n # as @ bs)" for a
    using that d(8)[of a] c2(6) sel(2)[of a] by (cases "a = n") auto
  ultimately have "\<exists>c' ys. add n c2 = Some c' \<and> cache_rel c' ys \<and> same_data c2 c'
      \<and> set ys = set (n # as @ bs)
      \<and> entries c' ys = insert_sorted (entry_of (nodes c2 n)) (entries c2 (as @ bs))"
    using c2(1) dist d(2-4) d(6)
    by (intro add_rel) (auto simp: c2(2,3) sel)
  moreover have "entries c2 (as @ bs) = entries c (as @ bs)"
    unfolding entries_def by (intro map_cong refl c2(4)) (use dist in auto)
  ultimately show ?thesis by auto
qed

lemma Put_new_refines:
  assumes rel: "cache_rel c xs" and new: "m c k = None" and exp: "zero_time \<le> now + t"
  shows "\<exists>c' ys. Put k v t now c = Some c' \<and> cache_rel c' ys \<and> refreshTTL c' = refreshTTL c
    \<and> entries c' ys = insert_sorted \<lparr>ekey = k, evalue = v, ettl = t, eexp = now + t\<rparr> (entries c xs)"
proof -
  note d = cache_relD[OF rel]
  let ?n = "fresh c"
  let ?nd = "\<lparr>nkey = k, nvalue = v, prev = None, nxt = None, ttl = t, expiration = now + t\<rparr>"
  let ?c1 = "c\<lparr>nodes := (nodes c)(?n := ?nd), m := (m c)(k := Some ?n), fresh := fresh c + 1\<rparr>"
  have n: "?n \<notin> set xs" "?n \<noteq> root" using d(3,4) by auto
  have nd1: "nodes ?c1 a = nodes c a" if "a \<in> set xs \<or> a = root" for a using that n by auto
  have rt: "root \<notin> set xs" "distinct xs" using d(1) by (auto simp: ring_def)
  have ent: "entries ?c1 xs = entries c xs" using n by (auto simp: entries_def)
  have nk: "\<And>a. a \<in> set xs \<Longrightarrow> nkey (nodes c a) \<noteq> k" using d(6) new by (metis option.distinct(1))
  show ?thesis
  proof (cases "nxt (nodes c root) = None")
    case True
    then have xs: "xs = []" using d(1) by (cases xs) (auto simp: ring_def)
    let ?c' = "upd_node ?n (\<lambda>x. x\<lparr>prev := Some root, nxt := Some root\<rparr>)
        (upd_node root (\<lambda>x. x\<lparr>nxt := Some ?n, prev := Some ?n\<rparr>) ?c1)"
    have "Put k v t now c = Some ?c'" using new True n by (simp add: Put_def Let_def)
    moreover have "cache_rel ?c' [?n]"
      using d n exp nk unfolding cache_rel_def
      by (auto simp: ring_def upd_node_def xs split: if_splits)
    ultimately show ?thesis
      by (intro exI[of _ ?c'] exI[of _ "[?n]"])
         (use n in \<open>simp add: xs entries_def insert_sorted_def upd_node_def entry_of_def\<close>)
  next
    case False
    have "linked (nodes c) (root # xs @ [root])" using d(1) False by (intro ring_linked) auto
    then have l: "linked (nodes ?c1) (root # xs @ [root])"
      by (subst linked_cong[of _ _ "nodes c"])
         (use n in \<open>auto dest: in_set_butlastD simp: butlast_append\<close>)
    have mp: "map (\<lambda>a. f (nodes ?c1 a)) xs = map (\<lambda>a. f (nodes c a)) xs" for f :: "('a, 'b) node \<Rightarrow> 'z"
      using nd1 by (intro map_cong) auto
    have "\<exists>c' ys. add ?n ?c1 = Some c' \<and> cache_rel c' ys \<and> same_data ?c1 c'
        \<and> set ys = set (?n # xs)
        \<and> entries c' ys = insert_sorted (entry_of (nodes ?c1 ?n)) (entries ?c1 xs)"
    proof (intro add_rel)
      show "distinct (map (\<lambda>a. nkey (nodes ?c1 a)) (?n # xs))"
        using d(5) nk mp[of nkey] n by (simp only: list.map distinct.simps) auto
      show "sorted (map (\<lambda>a. expiration (nodes ?c1 a)) xs)" using d(7) mp[of expiration] by (simp only:)
      show "(m ?c1 k' = Some a) = (a \<in> set (?n # xs) \<and> nkey (nodes ?c1 a) = k')" for k' a
        using d(6)[of k' a] n nk[of a] by auto
      show "zero_time \<le> expiration (nodes ?c1 a)" if "a \<in> set (?n # xs)" for a
        using that d(8)[of a] n exp by auto
      show "a < fresh ?c1" if "a \<in> set (?n # xs)" for a
        using that d(3)[of a] by auto
    qed (use l d(2,4) n rt in \<open>auto\<close>)
    moreover have "Put k v t now c = add ?n ?c1" using new False n by (auto simp: Put_def Let_def)
    ultimately obtain c' ys where c': "Put k v t now c = Some c'" "cache_rel c' ys" "same_data ?c1 c'"
      "entries c' ys = insert_sorted (entry_of (nodes ?c1 ?n)) (entries ?c1 xs)" by auto
    then show ?thesis using ent same_dataD(2)[OF c'(3)]
      by (intro exI[of _ c'] exI[of _ ys]) (simp add: entry_of_def)
  qed
qed


lemma Put_old_refines:
  assumes rel: "cache_rel c xs" and old: "m c k = Some n" and exp: "zero_time \<le> now + t"
  shows "\<exists>c' ys. Put k v t now c = Some c' \<and> cache_rel c' ys \<and> refreshTTL c' = refreshTTL c
    \<and> entries c' ys = insert_sorted ((entry_of (nodes c n))\<lparr>evalue := v, eexp := now + t\<rparr>)
        (drop_key k (entries c xs))"
proof -
  obtain as bs where xs: "xs = as @ n # bs" "drop_key k (entries c xs) = entries c (as @ bs)"
    using node_split[OF rel old] by blast
  let ?f = "\<lambda>x :: ('a, 'b) node. x\<lparr>nvalue := v, expiration := now + t\<rparr>"
  let ?c1 = "upd_node n ?f c"
  have "ring c (as @ n # bs)" using cache_relD(1)[OF rel] xs by simp
  moreover have "linked (nodes ?c1) zs \<longleftrightarrow> linked (nodes c) zs" for zs
    by (rule linked_cong) (auto simp: upd_node_def)
  ultimately have r1: "ring ?c1 (as @ n # bs)" by (simp add: ring_def)
  then obtain c2 where c2: "remove n ?c1 = Some c2" "linked (nodes c2) (root # as @ bs @ [root])"
    "same_data ?c1 c2" by (rule remove_ring)
  have en: "entry_of (nodes c2 n) = (entry_of (nodes c n))\<lparr>evalue := v, eexp := now + t\<rparr>"
    using c2(3) by (simp add: same_data_def upd_node_def entry_of_def)
  have "\<exists>c' ys. add n c2 = Some c' \<and> cache_rel c' ys \<and> same_data c2 c'
      \<and> entries c' ys = insert_sorted (entry_of (nodes c2 n)) (entries c (as @ bs))"
    using rel c2(2) unfolding xs(1)
    by (rule move_rel) (use same_dataD[OF c2(3)] c2(3) in \<open>auto simp: upd_node_def same_data_def exp\<close>)
  moreover have "nxt (nodes ?c1 root) \<noteq> None"
    using ring_linked[OF r1] linked_head[of "nodes ?c1" "as @ n # bs"] by auto
  then have "Put k v t now c = Option.bind (remove n ?c1) (add n)"
    using old by (auto simp: Put_def Let_def)
  ultimately show ?thesis using c2 en xs same_dataD(2)[OF c2(3)]
    by (auto simp: upd_node_def dest: same_dataD)
qed

lemma Put_refines:
  assumes "cache_rel c xs" "zero_time \<le> now + t"
  shows "\<exists>c' ys. Put k v t now c = Some c' \<and> cache_rel c' ys \<and> refreshTTL c' = refreshTTL c
    \<and> entries c' ys = put_spec k v t now (entries c xs)"
proof (cases "m c k")
  case None
  then show ?thesis
    using Put_new_refines[OF assms(1) None assms(2)] find_key_None[OF assms(1) None]
    by (simp add: put_spec_def)
next
  case (Some n)
  have "find_key k (entries c xs) = Some (entry_of (nodes c n))"
    using node_split[OF assms(1) Some] by blast
  then show ?thesis using Put_old_refines[OF assms(1) Some assms(2)] by (simp add: put_spec_def)
qed

lemma get_main_refines:
  assumes rel: "cache_rel c xs"
    and exp: "\<And>n. m c k = Some n \<Longrightarrow> zero_time \<le> t2 + ttl (nodes c n)"
  shows "\<exists>r c' ys. get_main k t1 t2 c = Some (r, c') \<and> cache_rel c' ys \<and> refreshTTL c' = refreshTTL c
    \<and> (r, entries c' ys) = touch_spec (refreshTTL c) k t1 t2 (entries c xs)"
proof (cases "m c k")
  case None
  with rel find_key_None[OF rel None] show ?thesis by (auto simp: get_main_def touch_spec_def)
next
  case (Some n)
  obtain as bs where xs: "xs = as @ n # bs" "drop_key k (entries c xs) = entries c (as @ bs)"
    and f: "find_key k (entries c xs) = Some (entry_of (nodes c n))"
    using node_split[OF rel Some] by blast
  show ?thesis
  proof (cases "expiration (nodes c n) > t1 \<and> refreshTTL c")
    case False
    with rel Some f show ?thesis by (auto simp: get_main_def touch_spec_def)
  next
    case True
    have "ring c (as @ n # bs)" using cache_relD(1)[OF rel] xs by simp
    then obtain c1 where c1: "remove n c = Some c1" "linked (nodes c1) (root # as @ bs @ [root])"
      "same_data c c1" by (rule remove_ring)
    let ?c2 = "upd_node n (\<lambda>x. x\<lparr>expiration := t2 + ttl x\<rparr>) c1"
    have l2: "linked (nodes ?c2) (root # as @ bs @ [root])"
      using c1(2) linked_cong[of _ "nodes ?c2" "nodes c1"] by (auto simp: upd_node_def)
    have en: "entry_of (nodes ?c2 n) = (entry_of (nodes c n))\<lparr>eexp := t2 + ttl (nodes c n)\<rparr>"
      using same_dataD[OF c1(3)] by (simp add: upd_node_def entry_of_def)
    have "zero_time \<le> expiration (nodes ?c2 n)"
      using exp[OF Some] same_dataD[OF c1(3)] by (simp add: upd_node_def)
    then have "\<exists>c' ys. add n ?c2 = Some c' \<and> cache_rel c' ys \<and> same_data ?c2 c'
        \<and> entries c' ys = insert_sorted (entry_of (nodes ?c2 n)) (entries c (as @ bs))"
      using rel l2 unfolding xs(1)
      by (intro move_rel) (use same_dataD[OF c1(3)] c1(3) in \<open>auto simp: upd_node_def same_data_def\<close>)
    then obtain c' ys where c': "add n ?c2 = Some c'" "cache_rel c' ys" "same_data ?c2 c'"
      "entries c' ys = insert_sorted (entry_of (nodes ?c2 n)) (entries c (as @ bs))" by blast
    have "nvalue (nodes c' n) = nvalue (nodes c n)" "refreshTTL c' = refreshTTL c"
      using same_dataD[OF c'(3)] same_dataD[OF c1(3)] by (auto simp: upd_node_def)
    then show ?thesis using True Some f c1 c' en xs
      by (auto simp: get_main_def touch_spec_def)
  qed
qed

lemma entries_Cons: "entries c (a # xs) = entry_of (nodes c a) # entries c xs"
  by (simp add: entries_def)

lemma cleanup_refines:
  assumes "cache_rel c xs" "linked (nodes c) (root # xs @ [root])"
  shows "\<exists>c' ys. cleanup_loop (Some (hd (xs @ [root]))) tc i evs c =
        Some (evs @ map (\<lambda>e. (ekey e, evalue e)) (fst (expire tc i (entries c xs))), c')
      \<and> cache_rel c' ys \<and> refreshTTL c' = refreshTTL c
      \<and> entries c' ys = snd (expire tc i (entries c xs))"
  using assms
proof (induction xs arbitrary: c i evs)
  case Nil
  then show ?case by (intro exI[of _ c] exI[of _ "[]"]) (simp add: cleanup_loop.simps entries_def)
next
  case (Cons a xs)
  note d = cache_relD[OF Cons.prems(1)]
  have ar: "a \<noteq> root" using d(1) by (auto simp: ring_def)
  show ?case
  proof (cases "tc i > expiration (nodes c a)")
    case False
    then have "cleanup_loop (Some (hd ((a # xs) @ [root]))) tc i evs c = Some (evs, c)"
      using ar by (subst cleanup_loop.simps) simp
    with False Cons.prems show ?thesis
      by (intro exI[of _ c] exI[of _ "a # xs"]) (simp add: entries_def)
  next
    case True
    have "ring c ([] @ a # xs)" using d(1) by simp
    then obtain c1 where c1: "remove a c = Some c1" "ring c1 xs" "linked (nodes c1) (root # xs @ [root])"
      "same_data c c1" "nodes c1 a = nodes c a"
      by (rule remove_ring) auto
    let ?c2 = "c1\<lparr>m := (m c1)(nkey (nodes c1 a) := None)\<rparr>"
    note s = same_dataD[OF c1(4)]
    have rel2: "cache_rel ?c2 xs"
      unfolding cache_rel_def
    proof (intro conjI allI ballI)
      show "ring ?c2 xs" using c1(2) by (simp add: ring_def)
      show "(m ?c2 k = Some b) = (b \<in> set xs \<and> nkey (nodes ?c2 b) = k)" for k b
        using d(5) d(6)[of k b] by (auto simp: s) (metis image_eqI)
    qed (use d in \<open>auto simp: s\<close>)
    have e2: "entries ?c2 xs = entries c xs"
      using c1(4) by (simp add: entries_def same_data_def)
    obtain c' ys where "cleanup_loop (Some (hd (xs @ [root]))) tc (i + 1)
          (evs @ [(nkey (nodes c a), nvalue (nodes c a))]) ?c2 =
        Some ((evs @ [(nkey (nodes c a), nvalue (nodes c a))])
          @ map (\<lambda>e. (ekey e, evalue e)) (fst (expire tc (i + 1) (entries c xs))), c')"
      "cache_rel c' ys" "refreshTTL c' = refreshTTL ?c2"
      "entries c' ys = snd (expire tc (i + 1) (entries c xs))"
      using Cons.IH[OF rel2, of "i + 1" "evs @ [(nkey (nodes c a), nvalue (nodes c a))]"] c1(3)
      unfolding e2 by auto
    moreover have "nxt (nodes c a) = Some (hd (xs @ [root]))" using ring_around(2)[of c "[]" a xs] d(1) by simp
    ultimately have "cleanup_loop (Some a) tc i evs c =
          Some (evs @ map (\<lambda>e. (ekey e, evalue e)) (fst (expire tc i (entries c (a # xs)))), c')
        \<and> cache_rel c' ys \<and> refreshTTL c' = refreshTTL c
        \<and> entries c' ys = snd (expire tc i (entries c (a # xs)))"
      using True ar c1 by (subst cleanup_loop.simps) (auto simp: entries_Cons s split: prod.split)
    then show ?thesis by auto
  qed
qed


subsection \<open>Facts of the list operations\<close>

definition keys_ok :: "('k, 'v) entry list \<Rightarrow> bool" where
  "keys_ok es \<longleftrightarrow> distinct (map ekey es)"

lemma cache_rel_keys_ok: "cache_rel c xs \<Longrightarrow> keys_ok (entries c xs)"
  using cache_relD(5) by (simp add: keys_ok_def entries_def comp_def)

lemma find_key_append:
  "find_key k (es @ fs) = (case find_key k es of None \<Rightarrow> find_key k fs | Some e \<Rightarrow> Some e)"
  by (induction es) (auto simp: find_key_def)

lemma find_key_Nil [simp]: "find_key k [] = None"
  by (simp add: find_key_def)

lemma find_key_Cons: "find_key k (e # es) = (if ekey e = k then Some e else find_key k es)"
  by (simp add: find_key_def)

lemma find_key_notin: "k \<notin> ekey ` set es \<Longrightarrow> find_key k es = None"
  by (auto simp: find_key_def find_None_iff)

lemma find_key_Some: "keys_ok es \<Longrightarrow> find_key k es = Some e \<longleftrightarrow> e \<in> set es \<and> ekey e = k"
  by (induction es) (auto simp: find_key_Cons keys_ok_def image_iff split: if_splits)

lemma find_key_key: "find_key k es = Some e \<Longrightarrow> ekey e = k \<and> e \<in> set es"
  by (auto simp: find_key_def find_Some_iff)

lemma find_key_insert:
  assumes "ekey e \<notin> ekey ` set es"
  shows "find_key k (insert_sorted e es) = (if k = ekey e then Some e else find_key k es)"
proof -
  let ?P = "\<lambda>x. eexp x \<le> eexp e"
  have "find_key (ekey e) (takeWhile ?P es) = None"
    using assms by (intro find_key_notin) (auto dest: set_takeWhileD)
  moreover have "find_key k es = find_key k (takeWhile ?P es @ dropWhile ?P es)" by simp
  ultimately show ?thesis
    unfolding insert_sorted_def find_key_append by (auto simp: find_key_Cons split: option.split)
qed

lemma find_key_drop: "find_key k (drop_key k' es) = (if k = k' then None else find_key k es)"
  by (induction es) (auto simp: drop_key_def find_key_Cons)

lemma drop_key_notin: "k \<notin> ekey ` set (drop_key k es)"
  by (auto simp: drop_key_def)

lemma find_key_put:
  "find_key k' (put_spec k v t now es) =
     (if k' = k
      then Some (case find_key k es of None \<Rightarrow> \<lparr>ekey = k, evalue = v, ettl = t, eexp = now + t\<rparr>
                                     | Some e \<Rightarrow> e\<lparr>evalue := v, eexp := now + t\<rparr>)
      else find_key k' es)"
proof (cases "find_key k es")
  case None
  then have "k \<notin> ekey ` set es" by (auto simp: find_key_def find_None_iff)
  then show ?thesis using None by (simp add: put_spec_def find_key_insert)
next
  case (Some e)
  then show ?thesis using find_key_key[OF Some] drop_key_notin[of k es]
    by (simp add: put_spec_def find_key_insert find_key_drop)
qed

lemma touch_spec_find:
  "find_key k' (snd (touch_spec refresh k t1 t2 es)) =
     (case find_key k' es of None \<Rightarrow> None
      | Some e \<Rightarrow> Some (if k' = k \<and> refresh \<and> eexp e > t1 then e\<lparr>eexp := t2 + ettl e\<rparr> else e))"
proof (cases "find_key k es")
  case (Some e)
  then show ?thesis using find_key_key[OF Some] drop_key_notin[of k es]
    by (auto simp: touch_spec_def find_key_insert find_key_drop split: option.split)
qed (auto simp: touch_spec_def split: option.split)

lemma expire_append: "fst (expire tc i es) @ snd (expire tc i es) = es"
  by (induction es arbitrary: i) (auto split: prod.split, metis fst_conv snd_conv)

lemma expire_const:
  "sorted (map eexp es) \<Longrightarrow>
   expire (\<lambda>_. t) i es = (filter (\<lambda>e. eexp e < t) es, filter (\<lambda>e. eexp e \<ge> t) es)"
proof (induction es arbitrary: i)
  case (Cons e es)
  show ?case
  proof (cases "eexp e < t")
    case False
    then have *: "\<forall>x \<in> set es. t \<le> eexp x" using Cons.prems by auto
    then have "filter (\<lambda>e. t \<le> eexp e) es = es" by (simp add: filter_id_conv)
    with * False show ?thesis by (auto simp: filter_empty_conv not_less)
  qed (use Cons in auto)
qed simp

subsection \<open>The contract of the cache\<close>

text \<open>The contents: the keys stored and their values, expired or not.\<close>

definition contents :: "('k, 'v) cache \<Rightarrow> 'k \<Rightarrow> 'v option" where
  "contents c k = map_option (\<lambda>a. nvalue (nodes c a)) (m c k)"

definition represents :: "('k, 'v) cache \<Rightarrow> ('k, 'v) entry list \<Rightarrow> bool" where
  "represents c es \<longleftrightarrow> (\<exists>xs. cache_rel c xs \<and> es = entries c xs)"

lemma represents_keys_ok: "represents c es \<Longrightarrow> keys_ok es"
  by (auto simp: represents_def intro: cache_rel_keys_ok)

lemma represents_sorted: "represents c es \<Longrightarrow> sorted (map eexp es)"
  using cache_relD(7) by (fastforce simp: represents_def entries_def comp_def)

lemma represents_contents: "represents c es \<Longrightarrow> contents c k = map_option evalue (find_key k es)"
  unfolding represents_def
  by (cases "m c k") (auto simp: contents_def find_key_None elim: node_split)

lemma represents_New: "represents (New k0 v0 r) []"
  unfolding represents_def
  by (intro exI[of _ "[]"]) (simp add: cache_rel_def ring_def New_def root_def entries_def)

lemma Put_represents:
  assumes "represents c es" "zero_time \<le> now + t"
  obtains c' where "Put k v t now c = Some c'" "represents c' (put_spec k v t now es)"
    "refreshTTL c' = refreshTTL c"
  using assms Put_refines[of c _ now t k v] unfolding represents_def by metis

lemma Get_represents:
  assumes r: "represents c es" and e: "\<And>x. find_key k es = Some x \<Longrightarrow> zero_time \<le> t2 + ettl x"
  obtains c' where
    "Get k t1 t2 tc c = Some (fst (get_spec (refreshTTL c) k t1 t2 tc es),
       fst (snd (get_spec (refreshTTL c) k t1 t2 tc es)), c')"
    "represents c' (snd (snd (get_spec (refreshTTL c) k t1 t2 tc es)))" "refreshTTL c' = refreshTTL c"
proof -
  obtain xs where xs: "cache_rel c xs" "es = entries c xs" using r by (auto simp: represents_def)
  have "zero_time \<le> t2 + ttl (nodes c n)" if "m c k = Some n" for n
    using e[of "entry_of (nodes c n)"] node_split[OF xs(1) that] xs(2) by auto
  then obtain v c1 ys where g: "get_main k t1 t2 c = Some (v, c1)" "cache_rel c1 ys"
    "refreshTTL c1 = refreshTTL c" "(v, entries c1 ys) = touch_spec (refreshTTL c) k t1 t2 es"
    using get_main_refines[OF xs(1)] xs(2) by metis
  have t: "touch_spec (refreshTTL c) k t1 t2 es = (v, entries c1 ys)" using g(4) by simp
  show ?thesis
  proof (cases "nxt (nodes c1 root)")
    case None
    then have "ys = []" using cache_relD(1)[OF g(2)] by (cases ys) (auto simp: ring_def)
    with None g t show ?thesis
      by (intro that[of c1]) (auto simp: Get_def get_spec_def cleanup_loop.simps represents_def entries_def)
  next
    case (Some b)
    have l: "linked (nodes c1) (root # ys @ [root])"
      using cache_relD(1)[OF g(2)] Some by (intro ring_linked) auto
    then have b: "b = hd (ys @ [root])" using Some linked_head by fastforce
    obtain c' zs where "cleanup_loop (Some (hd (ys @ [root]))) tc 0 [] c1 =
        Some ([] @ map (\<lambda>e. (ekey e, evalue e)) (fst (expire tc 0 (entries c1 ys))), c')"
      "cache_rel c' zs" "refreshTTL c' = refreshTTL c1" "entries c' zs = snd (expire tc 0 (entries c1 ys))"
      using cleanup_refines[OF g(2) l] by blast
    with g Some b t show ?thesis
      by (intro that[of c']) (auto simp: Get_def get_spec_def represents_def split: prod.split)
  qed
qed


lemma find_key_filter:
  "keys_ok es \<Longrightarrow> find_key k (filter P es) = (case find_key k es of None \<Rightarrow> None | Some e \<Rightarrow> if P e then Some e else None)"
  by (induction es) (auto simp: find_key_Cons keys_ok_def find_key_notin split: option.split)

lemma mset_insert_sorted: "mset (insert_sorted e es) = add_mset e (mset es)"
  unfolding insert_sorted_def
  by (metis mset.simps(2) mset_append takeWhile_dropWhile_id union_mset_add_mset_right)

lemma keys_ok_insert:
  assumes "keys_ok es" shows "keys_ok (insert_sorted (e\<lparr>ekey := k\<rparr>) (drop_key k es))"
proof -
  have "mset (map ekey (insert_sorted (e\<lparr>ekey := k\<rparr>) (drop_key k es))) = mset (k # map ekey (drop_key k es))"
    by (simp add: mset_insert_sorted)
  moreover have "distinct (k # map ekey (drop_key k es))"
    using assms drop_key_notin[of k es] by (auto simp: keys_ok_def drop_key_def distinct_map_filter)
  ultimately show ?thesis unfolding keys_ok_def by (metis mset_eq_imp_distinct_iff)
qed

lemma filter_insert_sorted:
  assumes "t \<le> eexp e"
  shows "filter (\<lambda>x. eexp x < t) (insert_sorted e es) = filter (\<lambda>x. eexp x < t) es"
  unfolding insert_sorted_def using assms
  by (metis (no_types, lifting) filter.simps(2) filter_append not_less takeWhile_dropWhile_id)

lemma touch_spec_frozen:
  assumes s: "sorted (map eexp es)" and ko: "keys_ok es" and nn: "\<And>x. x \<in> set es \<Longrightarrow> 0 \<le> ettl x"
    and es1_def: "es1 = snd (touch_spec r k t t es)"
  shows "sorted (map eexp es1)" "filter (\<lambda>e. eexp e < t) es1 = filter (\<lambda>e. eexp e < t) es" "keys_ok es1"
proof -
  have "sorted (map eexp es1) \<and> filter (\<lambda>e. eexp e < t) es1 = filter (\<lambda>e. eexp e < t) es \<and> keys_ok es1"
  proof (cases "\<exists>e. find_key k es = Some e \<and> eexp e > t \<and> r")
    case False
    then have "es1 = es" by (auto simp: es1_def touch_spec_def split: option.split)
    then show ?thesis using s ko by simp
  next
    case True
    then obtain e where e: "find_key k es = Some e" "eexp e > t" "r" by blast
    have ein: "e \<in> set es" "ekey e = k" using find_key_key[OF e(1)] by auto
    define e1 where "e1 = e\<lparr>eexp := t + ettl e\<rparr>"
    have e1: "e1 = e1\<lparr>ekey := k\<rparr>" "t \<le> eexp e1" using ein nn by (auto simp: e1_def)
    have eq: "es1 = insert_sorted e1 (drop_key k es)"
      using e by (simp add: es1_def touch_spec_def e1_def)
    have sd: "sorted (map eexp (drop_key k es))"
      unfolding drop_key_def using s by (rule sorted_filter)
    have "(ekey x \<noteq> k \<and> eexp x < t) = (eexp x < t)" if "x \<in> set es" for x
      using find_key_Some[OF ko, of k x] that e by auto
    then have "filter (\<lambda>e. eexp e < t) (drop_key k es) = filter (\<lambda>e. eexp e < t) es"
      unfolding drop_key_def filter_filter by (intro filter_cong) auto
    moreover have "keys_ok es1" unfolding eq using keys_ok_insert[OF ko] e1(1) by metis
    moreover have "sorted (map eexp es1)"
      unfolding eq insert_sorted_def using sd by (rule sorted_insert_mid)
    ultimately show ?thesis using filter_insert_sorted[OF e1(2)] eq by simp
  qed
  then show "sorted (map eexp es1)" "filter (\<lambda>e. eexp e < t) es1 = filter (\<lambda>e. eexp e < t) es" "keys_ok es1"
    by auto
qed

lemma get_spec_frozen:
  assumes "represents c es" and nn: "\<And>x. x \<in> set es \<Longrightarrow> 0 \<le> ettl x"
  shows "fst (get_spec r k t t (\<lambda>_. t) es) =
      (case find_key k es of None \<Rightarrow> None | Some e \<Rightarrow> if t < eexp e then Some (evalue e) else None)"
    and "fst (snd (get_spec r k t t (\<lambda>_. t) es)) =
      map (\<lambda>e. (ekey e, evalue e)) (filter (\<lambda>e. eexp e < t) es)"
    and "find_key k' (snd (snd (get_spec r k t t (\<lambda>_. t) es))) =
      (case find_key k' es of None \<Rightarrow> None | Some e \<Rightarrow> if eexp e < t then None
         else Some (if k' = k \<and> r \<and> t < eexp e then e\<lparr>eexp := t + ettl e\<rparr> else e))"
proof -
  note ts = touch_spec_frozen[OF represents_sorted[OF assms(1)] represents_keys_ok[OF assms(1)] nn refl]
  define es1 where "es1 = snd (touch_spec r k t t es)"
  have t: "touch_spec r k t t es = (fst (touch_spec r k t t es), es1)" by (simp add: es1_def)
  have g: "get_spec r k t t (\<lambda>_. t) es = (fst (touch_spec r k t t es),
      map (\<lambda>e. (ekey e, evalue e)) (filter (\<lambda>e. eexp e < t) es), filter (\<lambda>e. t \<le> eexp e) es1)"
    by (simp add: get_spec_def case_prod_unfold expire_const ts es1_def)
  show "fst (get_spec r k t t (\<lambda>_. t) es) =
      (case find_key k es of None \<Rightarrow> None | Some e \<Rightarrow> if t < eexp e then Some (evalue e) else None)"
    unfolding g by (simp add: touch_spec_def split: option.split)
  show "fst (snd (get_spec r k t t (\<lambda>_. t) es)) =
      map (\<lambda>e. (ekey e, evalue e)) (filter (\<lambda>e. eexp e < t) es)"
    unfolding g by simp
  have "0 \<le> ettl e" if "find_key k es = Some e" for e
    using nn find_key_key[OF that] by blast
  moreover have "keys_ok es1" using ts(3) by (simp add: es1_def)
  ultimately show "find_key k' (snd (snd (get_spec r k t t (\<lambda>_. t) es))) =
      (case find_key k' es of None \<Rightarrow> None | Some e \<Rightarrow> if eexp e < t then None
         else Some (if k' = k \<and> r \<and> t < eexp e then e\<lparr>eexp := t + ettl e\<rparr> else e))"
    unfolding g snd_conv by (simp only: find_key_filter) (auto simp: es1_def touch_spec_find split: option.split)
qed

subsection \<open>The contract\<close>

text \<open>
  What a client of the cache relies on when the clock does not move during a call: a stored
  key keeps its last value until it is evicted, an eviction reports the stored value once, a
  value returned is the stored one and is not evicted by the same call.
\<close>

datatype ('k, 'v) op = OpPut 'k 'v duration gotime | OpGet 'k gotime

fun op_ok :: "('k, 'v) op \<Rightarrow> bool" where
  "op_ok (OpPut k v t now) \<longleftrightarrow> 0 \<le> t \<and> 0 \<le> now"
| "op_ok (OpGet k now) \<longleftrightarrow> 0 \<le> now"

fun put_keys :: "('k, 'v) op list \<Rightarrow> 'k list" where
  "put_keys [] = []"
| "put_keys (OpPut k v t now # ops) = k # put_keys ops"
| "put_keys (OpGet k now # ops) = put_keys ops"

text \<open>A sequence of calls, and the calls of \<open>onEvicted\<close> it makes.\<close>

fun run_ops :: "('k \<Rightarrow> 'v \<Rightarrow> duration \<Rightarrow> gotime \<Rightarrow> 'c \<Rightarrow> 'c option) \<Rightarrow>
    ('k \<Rightarrow> gotime \<Rightarrow> 'c \<Rightarrow> ('v option \<times> ('k \<times> 'v) list \<times> 'c) option) \<Rightarrow>
    ('k, 'v) op list \<Rightarrow> 'c \<Rightarrow> (('k \<times> 'v) list \<times> 'c) option" where
  "run_ops put get [] c = Some ([], c)"
| "run_ops put get (OpPut k v t now # ops) c =
     (case put k v t now c of None \<Rightarrow> None | Some c1 \<Rightarrow> run_ops put get ops c1)"
| "run_ops put get (OpGet k now # ops) c =
     (case get k now c of None \<Rightarrow> None
      | Some (r, evs, c1) \<Rightarrow>
          (case run_ops put get ops c1 of None \<Rightarrow> None
           | Some (evs', c2) \<Rightarrow> Some (evs @ evs', c2)))"

lemma count_list_distinct: "distinct xs \<Longrightarrow> count_list xs x = (if x \<in> set xs then 1 else 0)"
  by (induction xs) auto

locale ttl_store =
  fixes inv :: "'c \<Rightarrow> bool"
    and look :: "'c \<Rightarrow> 'k \<Rightarrow> 'v option"
    and put :: "'k \<Rightarrow> 'v \<Rightarrow> duration \<Rightarrow> gotime \<Rightarrow> 'c \<Rightarrow> 'c option"
    and get :: "'k \<Rightarrow> gotime \<Rightarrow> 'c \<Rightarrow> ('v option \<times> ('k \<times> 'v) list \<times> 'c) option"
  assumes put_returns: "inv c \<Longrightarrow> 0 \<le> t \<Longrightarrow> 0 \<le> now \<Longrightarrow>
      \<exists>c'. put k v t now c = Some c' \<and> inv c' \<and> look c' = (look c)(k \<mapsto> v)"
    and put_again: "inv c \<Longrightarrow> look c k \<noteq> None \<Longrightarrow> 0 \<le> now + t \<Longrightarrow>
      \<exists>c'. put k v t now c = Some c' \<and> inv c' \<and> look c' = (look c)(k \<mapsto> v)"
    and get_returns: "inv c \<Longrightarrow> 0 \<le> now \<Longrightarrow>
      \<exists>r evs c'. get k now c = Some (r, evs, c') \<and> inv c' \<and> distinct (map fst evs)
        \<and> (\<forall>(k', v') \<in> set evs. look c k' = Some v')
        \<and> look c' = (look c) |` (- fst ` set evs)
        \<and> (\<forall>v. r = Some v \<longrightarrow> look c' k = Some v)"
begin

text \<open>Every sequence of calls returns, and a key is evicted at most once for each time it was put.\<close>

lemma run_ops_evictions:
  assumes "inv c" "\<forall>x \<in> set ops. op_ok x"
  shows "\<exists>evs c'. run_ops put get ops c = Some (evs, c') \<and> inv c' \<and>
    (\<forall>k. count_list (map fst evs) k + (if look c' k = None then 0 else 1)
       \<le> count_list (put_keys ops) k + (if look c k = None then 0 else 1))"
  using assms
proof (induction ops arbitrary: c)
  case (Cons x ops)
  show ?case
  proof (cases x)
    case (OpPut k v t now)
    then obtain c1 where c1: "put k v t now c = Some c1" "inv c1" "look c1 = (look c)(k \<mapsto> v)"
      using put_returns[of c t now k v] Cons.prems by auto
    obtain evs c' where c': "run_ops put get ops c1 = Some (evs, c')" "inv c'"
      "\<And>k. count_list (map fst evs) k + (if look c' k = None then 0 else 1)
       \<le> count_list (put_keys ops) k + (if look c1 k = None then 0 else 1)"
      using Cons.IH[of c1] c1(2) Cons.prems by auto
    have "count_list (map fst evs) k' + (if look c' k' = None then 0 else 1)
        \<le> count_list (put_keys (x # ops)) k' + (if look c k' = None then 0 else 1)" for k'
      using c'(3)[of k'] OpPut c1(3) by (cases "k' = k") auto
    with c1(1) c'(1,2) OpPut show ?thesis by auto
  next
    case (OpGet k now)
    then obtain r evs c1 where c1: "get k now c = Some (r, evs, c1)" "inv c1" "distinct (map fst evs)"
      "\<forall>(k', v') \<in> set evs. look c k' = Some v'" "look c1 = (look c) |` (- fst ` set evs)"
      using get_returns[of c now k] Cons.prems by fastforce
    obtain evs' c' where c': "run_ops put get ops c1 = Some (evs', c')" "inv c'"
      "\<And>k. count_list (map fst evs') k + (if look c' k = None then 0 else 1)
       \<le> count_list (put_keys ops) k + (if look c1 k = None then 0 else 1)"
      using Cons.IH[of c1] c1(2) Cons.prems by auto
    have "count_list (map fst evs) k' + (if look c1 k' = None then 0 else 1)
        \<le> (if look c k' = None then 0 else 1)" for k'
      using c1(3,4,5) by (auto simp: count_list_distinct restrict_map_def)
    then have le: "count_list (map fst evs) k' + (if look c1 k' = None then 0 else 1)
        \<le> (if look c k' = None then 0 else 1)" for k' by blast
    have "count_list (map fst (evs @ evs')) k' + (if look c' k' = None then 0 else 1)
        \<le> count_list (put_keys (x # ops)) k' + (if look c k' = None then 0 else 1)" for k'
      using add_mono[OF le[of k'] c'(3)[of k']] OpGet by (simp add: count_list_append)
    with c1(1) c'(1,2) OpGet show ?thesis by auto
  qed
qed simp

end

text \<open>The cache meets the contract, with one reading of the clock for the whole call.\<close>

definition ttl_inv :: "('k, 'v) cache \<Rightarrow> bool" where
  "ttl_inv c \<longleftrightarrow> (\<exists>es. represents c es \<and> (\<forall>e \<in> set es. 0 \<le> ettl e))"

definition Get_at :: "'k \<Rightarrow> gotime \<Rightarrow> ('k, 'v) cache \<Rightarrow> ('v option \<times> ('k \<times> 'v) list \<times> ('k, 'v) cache) option" where
  "Get_at k now c = Get k now now (\<lambda>_. now) c"

lemma set_put_spec_ttl:
  "\<forall>e \<in> set es. 0 \<le> ettl e \<Longrightarrow> 0 \<le> t \<Longrightarrow> \<forall>e \<in> set (put_spec k v t now es). 0 \<le> ettl e"
  unfolding put_spec_def
  by (auto simp: insert_sorted_def drop_key_def dest!: set_takeWhileD find_key_key
      dest: set_dropWhileD split: option.splits)

lemma Put_contract:
  assumes "ttl_inv c" "0 \<le> t" "0 \<le> now"
  shows "\<exists>c'. Put k v t now c = Some c' \<and> ttl_inv c' \<and> contents c' = (contents c)(k \<mapsto> v)"
proof -
  obtain es where es: "represents c es" "\<forall>e \<in> set es. 0 \<le> ettl e" using assms(1) by (auto simp: ttl_inv_def)
  obtain c' where c': "Put k v t now c = Some c'" "represents c' (put_spec k v t now es)"
    using Put_represents[OF es(1), of now t k v] assms by (auto simp: zero_time_def)
  have "contents c' = (contents c)(k \<mapsto> v)"
    by (rule ext) (auto simp: represents_contents[OF es(1)] represents_contents[OF c'(2)] find_key_put split: option.split)
  then show ?thesis using c' set_put_spec_ttl[OF es(2) assms(2)] by (auto simp: ttl_inv_def)
qed

lemma Put_again_contract:
  assumes "ttl_inv c" "contents c k \<noteq> None" "0 \<le> now + t"
  shows "\<exists>c'. Put k v t now c = Some c' \<and> ttl_inv c' \<and> contents c' = (contents c)(k \<mapsto> v)"
proof -
  obtain es where es: "represents c es" "\<forall>e \<in> set es. 0 \<le> ettl e" using assms(1) by (auto simp: ttl_inv_def)
  obtain e where e: "find_key k es = Some e" using assms(2) represents_contents[OF es(1), of k] by auto
  obtain c' where c': "Put k v t now c = Some c'" "represents c' (put_spec k v t now es)"
    using Put_represents[OF es(1), of now t k v] assms by (auto simp: zero_time_def)
  have "contents c' = (contents c)(k \<mapsto> v)"
    by (rule ext) (auto simp: represents_contents[OF es(1)] represents_contents[OF c'(2)] find_key_put e)
  moreover have "\<forall>x \<in> set (put_spec k v t now es). 0 \<le> ettl x"
    using es(2) find_key_key[OF e] by (auto simp: put_spec_def e insert_sorted_def drop_key_def
        dest!: set_takeWhileD dest: set_dropWhileD)
  ultimately show ?thesis using c' by (auto simp: ttl_inv_def)
qed

lemma Get_frozen:
  assumes "represents c es" "\<And>e. e \<in> set es \<Longrightarrow> 0 \<le> ettl e" "0 \<le> now"
  obtains c' where "Get_at k now c = Some (
      (case find_key k es of None \<Rightarrow> None | Some e \<Rightarrow> if now < eexp e then Some (evalue e) else None),
      map (\<lambda>e. (ekey e, evalue e)) (filter (\<lambda>e. eexp e < now) es), c')"
    "represents c' (snd (snd (get_spec (refreshTTL c) k now now (\<lambda>_. now) es)))"
    "refreshTTL c' = refreshTTL c"
proof -
  have "zero_time \<le> now + ettl x" if "find_key k es = Some x" for x
    using assms(2,3) find_key_key[OF that] by (simp add: zero_time_def)
  then obtain c' where "Get k now now (\<lambda>_. now) c = Some (fst (get_spec (refreshTTL c) k now now (\<lambda>_. now) es),
       fst (snd (get_spec (refreshTTL c) k now now (\<lambda>_. now) es)), c')"
    "represents c' (snd (snd (get_spec (refreshTTL c) k now now (\<lambda>_. now) es)))"
    "refreshTTL c' = refreshTTL c"
    using Get_represents[OF assms(1)] by metis
  then show ?thesis using get_spec_frozen(1,2)[OF assms(1,2)] by (intro that[of c']) (simp_all add: Get_at_def)
qed

lemma Get_contract:
  assumes "ttl_inv c" "0 \<le> now"
  shows "\<exists>r evs c'. Get_at k now c = Some (r, evs, c') \<and> ttl_inv c' \<and> distinct (map fst evs)
        \<and> (\<forall>(k', v') \<in> set evs. contents c k' = Some v')
        \<and> contents c' = (contents c) |` (- fst ` set evs)
        \<and> (\<forall>v. r = Some v \<longrightarrow> contents c' k = Some v)"
proof -
  obtain es where es: "represents c es" "\<forall>e \<in> set es. 0 \<le> ettl e" using assms(1) by (auto simp: ttl_inv_def)
  define evs where "evs = map (\<lambda>e. (ekey e, evalue e)) (filter (\<lambda>e. eexp e < now) es)"
  define es' where "es' = snd (snd (get_spec (refreshTTL c) k now now (\<lambda>_. now) es))"
  obtain c' where c': "Get_at k now c = Some (
      (case find_key k es of None \<Rightarrow> None | Some e \<Rightarrow> if now < eexp e then Some (evalue e) else None), evs, c')"
    "represents c' es'"
    unfolding evs_def es'_def
    by (rule Get_frozen[OF es(1) _ assms(2), of k]) (use es(2) in blast)+
  note ko = represents_keys_ok[OF es(1)] and ko' = represents_keys_ok[OF c'(2)]
  have nn: "0 \<le> ettl x" if "x \<in> set es" for x using es(2) that by blast
  have fk: "find_key k' es' =
      (case find_key k' es of None \<Rightarrow> None | Some e \<Rightarrow> if eexp e < now then None
         else Some (if k' = k \<and> refreshTTL c \<and> now < eexp e then e\<lparr>eexp := now + ettl e\<rparr> else e))" for k'
    unfolding es'_def by (rule get_spec_frozen(3)[OF es(1)]) (rule nn)
  have ev: "k' \<in> fst ` set evs \<longleftrightarrow> (\<exists>e. find_key k' es = Some e \<and> eexp e < now)" for k'
    by (auto simp: evs_def image_iff find_key_Some[OF ko])
  have co: "contents c' k' = ((contents c) |` (- fst ` set evs)) k'" for k'
    unfolding represents_contents[OF es(1)] represents_contents[OF c'(2)] fk restrict_map_def
    by (auto simp: ev represents_contents[OF es(1)] split: option.split)
  have "0 \<le> ettl e'" if "e' \<in> set es'" for e'
  proof -
    have "find_key (ekey e') es' = Some e'" using that find_key_Some[OF ko'] by blast
    then obtain e where "find_key (ekey e') es = Some e" "ettl e' = ettl e"
      unfolding fk by (auto split: option.splits if_splits)
    then show ?thesis using nn find_key_key by metis
  qed
  then have "ttl_inv c'" using c'(2) by (auto simp: ttl_inv_def)
  moreover have "distinct (map fst evs)"
    using ko by (simp add: evs_def keys_ok_def comp_def distinct_map_filter)
  moreover have "\<forall>(k', v') \<in> set evs. contents c k' = Some v'"
    unfolding represents_contents[OF es(1)] by (auto simp: evs_def find_key_Some[OF ko])
  moreover have "contents c' k = Some v"
    if "(case find_key k es of None \<Rightarrow> None | Some e \<Rightarrow> if now < eexp e then Some (evalue e) else None) = Some v" for v
    unfolding represents_contents[OF c'(2)] fk using that by (auto split: option.splits if_splits)
  moreover have "contents c' = (contents c) |` (- fst ` set evs)" using co by (rule ext)
  ultimately show ?thesis unfolding c'(1) by (intro exI conjI) (rule refl, assumption+, blast)
qed

interpretation tc: ttl_store ttl_inv contents Put Get_at
  by unfold_locales (fact Put_contract Put_again_contract Get_contract)+

text \<open>A value that was put is found until it expires.\<close>

lemma Put_then_Get:
  assumes i: "ttl_inv c" and t: "0 \<le> t" "0 \<le> now" "0 \<le> now'" and p: "Put k v t now c = Some c1"
  shows "\<exists>evs c2. Get_at k now' c1 = Some (if now' < now + t then Some v else None, evs, c2) \<and> ttl_inv c1"
proof -
  obtain es where es: "represents c es" "\<forall>e \<in> set es. 0 \<le> ettl e" using i by (auto simp: ttl_inv_def)
  have r1: "represents c1 (put_spec k v t now es)"
    using Put_represents[OF es(1), of now t k v] p t by (auto simp: zero_time_def)
  have nn: "\<And>e. e \<in> set (put_spec k v t now es) \<Longrightarrow> 0 \<le> ettl e" using set_put_spec_ttl[OF es(2) t(1)] by blast
  obtain c2 where c2: "Get_at k now' c1 = Some (
      (case find_key k (put_spec k v t now es) of None \<Rightarrow> None | Some e \<Rightarrow> if now' < eexp e then Some (evalue e) else None),
      map (\<lambda>e. (ekey e, evalue e)) (filter (\<lambda>e. eexp e < now') (put_spec k v t now es)), c2)"
    by (rule Get_frozen[OF r1 nn t(3), of k]) auto
  have "ttl_inv c1" using r1 nn by (auto simp: ttl_inv_def)
  with c2 show ?thesis by (auto simp: find_key_put split: option.splits)
qed

subsection \<open>Properties\<close>

text \<open>C2. \<open>Put\<close> refines the insertion into a list of entries sorted by expiration: on every cache
  that represents a list it returns (no nil dereference, no endless walk), the pointer
  structure stays a well-formed ring and the list it represents is that of \<open>put_spec\<close>: a new
  key is inserted after every entry that does not expire later, an existing one gets its value
  and expiration and moves, but keeps its old time to live.\<close>

theorem Put_refines_spec:
  assumes "represents c es" "zero_time \<le> now + t"
  shows "\<exists>c'. Put k v t now c = Some c' \<and> represents c' (put_spec k v t now es)"
  using Put_represents[OF assms, of k v] by blast

theorem Put_refines_spec_witness:
  "\<exists>c'. Put (1 :: nat) ''a'' 10 5 (New 0 [] True) = Some c' \<and>
     represents c' [\<lparr>ekey = 1, evalue = ''a'', ettl = 10, eexp = 15\<rparr>]"
  using Put_refines_spec[OF represents_New[of "0 :: nat" "[]" True], of 5 10 1 "''a''"]
  by (simp add: zero_time_def put_spec_def insert_sorted_def)

text \<open>C3. \<open>Get\<close> refines \<open>get_spec\<close> for arbitrary readings of the clock: it returns, the value is
  that of the entry when it has not expired at the first reading, the entry is then moved to
  the position of its refreshed expiration (when refreshing is on), and the clean-up evicts
  and reports, in order, the longest prefix of entries each of which has expired at its own
  reading. The ring stays well formed.\<close>

theorem Get_refines_spec:
  assumes "represents c es" "\<And>x. find_key k es = Some x \<Longrightarrow> zero_time \<le> t2 + ettl x"
  shows "\<exists>r evs es' c'. get_spec (refreshTTL c) k t1 t2 tc es = (r, evs, es')
    \<and> Get k t1 t2 tc c = Some (r, evs, c') \<and> represents c' es'"
  by (rule Get_represents[OF assms, where tc = tc and ?t1.0 = t1]) (auto simp: prod_eq_iff)

definition demo_cache :: "(nat, nat) cache" where
  "demo_cache = the (Option.bind (Put 1 10 5 0 (New 0 0 True)) (Put 2 20 9 0))"

lemma demo_cache_represents:
  "represents demo_cache [\<lparr>ekey = 1, evalue = 10, ettl = 5, eexp = 5\<rparr>,
     \<lparr>ekey = 2, evalue = 20, ettl = 9, eexp = 9\<rparr>]"
proof -
  obtain c1 where c1: "Put 1 10 5 0 (New 0 0 True) = Some c1"
    "represents c1 [\<lparr>ekey = 1 :: nat, evalue = 10 :: nat, ettl = 5, eexp = 5\<rparr>]"
    using Put_represents[OF represents_New[of "0 :: nat" "0 :: nat" True], of 0 5 1 10]
    by (auto simp: zero_time_def put_spec_def insert_sorted_def)
  obtain c2 where "Put 2 20 9 0 c1 = Some c2"
    "represents c2 [\<lparr>ekey = 1, evalue = 10, ettl = 5, eexp = 5\<rparr>,
     \<lparr>ekey = 2, evalue = 20, ettl = 9, eexp = 9\<rparr>]"
    using Put_represents[OF c1(2), of 0 9 2 20]
    by (auto simp: zero_time_def put_spec_def insert_sorted_def find_key_def)
  with c1(1) show ?thesis by (simp add: demo_cache_def)
qed

theorem Get_refines_spec_witness:
  "\<exists>r evs es' c'. get_spec (refreshTTL demo_cache) 2 7 7 (\<lambda>_. 7) [\<lparr>ekey = 1, evalue = 10, ettl = 5, eexp = 5\<rparr>,
     \<lparr>ekey = 2, evalue = 20, ettl = 9, eexp = 9\<rparr>] = (r, evs, es')
    \<and> Get 2 7 7 (\<lambda>_. 7) demo_cache = Some (r, evs, c') \<and> represents c' es'"
  by (rule Get_refines_spec[OF demo_cache_represents]) (auto simp: find_key_def zero_time_def)

text \<open>When the clock does not move during the call, a \<open>Get\<close> returns the stored value exactly
  when its entry expires strictly later, and evicts exactly the entries that expired strictly
  earlier, oldest first, whatever the key asked for.\<close>

lemma Get_evicts_expired:
  assumes "represents c es" "\<And>e. e \<in> set es \<Longrightarrow> 0 \<le> ettl e" "0 \<le> now"
  shows "\<exists>c'. Get k now now (\<lambda>_. now) c = Some (
      (case find_key k es of None \<Rightarrow> None | Some e \<Rightarrow> if now < eexp e then Some (evalue e) else None),
      map (\<lambda>e. (ekey e, evalue e)) (filter (\<lambda>e. eexp e < now) es), c')"
  by (rule Get_frozen[OF assms(1) _ assms(3), of k]) (use assms(2) in \<open>auto simp: Get_at_def\<close>)

lemma Get_evicts_expired_witness:
  "\<exists>c'. Get 2 7 7 (\<lambda>_. 7) demo_cache = Some (Some 20, [(1, 10)], c')"
proof -
  have "\<exists>c'. Get 2 7 7 (\<lambda>_. 7) demo_cache = Some (
      (case find_key (2 :: nat) [\<lparr>ekey = 1, evalue = 10, ettl = 5, eexp = 5\<rparr>,
         \<lparr>ekey = 2, evalue = 20, ettl = 9, eexp = 9\<rparr>] of None \<Rightarrow> None
       | Some e \<Rightarrow> if 7 < eexp e then Some (evalue e) else None),
      map (\<lambda>e. (ekey e, evalue e)) (filter (\<lambda>e. eexp e < 7)
        [\<lparr>ekey = 1, evalue = 10, ettl = 5, eexp = 5\<rparr>, \<lparr>ekey = 2, evalue = 20, ettl = 9, eexp = 9\<rparr>]), c')"
    by (rule Get_evicts_expired[OF demo_cache_represents]) auto
  then show ?thesis by (simp add: find_key_def)
qed



text \<open>A second \<open>Put\<close> of a key with a longer time to live is forgotten by the next refresh.\<close>

lemma Put_forgets_ttl:
  assumes "represents c es" "find_key k es = Some e" "zero_time \<le> now + t"
  shows "\<exists>c' es' e'. Put k v t now c = Some c' \<and> represents c' es' \<and> find_key k es' = Some e' \<and> ettl e' = ettl e"
proof -
  obtain c' where "Put k v t now c = Some c'" "represents c' (put_spec k v t now es)"
    using Put_represents[OF assms(1,3)] by blast
  then show ?thesis using assms(2) find_key_put[of k k v t now es] by force
qed

end
