(* ===== verification/Resourcettl.thy ===== *)
theory Resourcettl
  imports Kit_Prelude Cachettl
begin

text \<open>
  The resource cache of \<open>resourcettl/cache.go\<close>, on top of the cache with time to live. Resource
  ids come from the uuid library: each new one is an argument, and the step relation only asks
  that it is not empty and was not used before. The goroutines \<open>go c.cleanup(r)\<close> are the log
  \<open>cleaned\<close>, in the order they are started. A checkin function is a handle: the number of its
  closure, whose \<open>sync.Once\<close> is the flag \<open>hdone\<close>.

  \<open>lockKey\<close> serialises the calls for one key and \<open>mu\<close> the accesses to the three maps; an
  operation of the model is a whole call. The clock readings of a call are arguments, so that
  what happens between two readings can be stated too.
\<close>

record 'r handle =
  hres :: "'r option"
  hid :: gostr
  hdone :: bool

record ('k, 'r) rcache =
  resources :: "gostr \<Rightarrow> 'r option"
  checkouts :: "gostr \<Rightarrow> int option"
  expiries :: "gostr set"
  rttl :: duration
  ttlcache :: "('k, gostr) cache"
  cleaned :: "(gostr \<times> 'r option) list"
  handles :: "'r handle list"

definition NewCache :: "'k \<Rightarrow> duration \<Rightarrow> bool \<Rightarrow> ('k, 'r) rcache" where
  "NewCache k0 t refresh = \<lparr>resources = (\<lambda>_. None), checkouts = (\<lambda>_. None), expiries = {}, rttl = t,
     ttlcache = New k0 [] refresh, cleaned = [], handles = []\<rparr>"

text \<open>\<open>c.checkouts[id]++\<close>: a missing entry counts as 0.\<close>

definition incr :: "gostr \<Rightarrow> ('k, 'r) rcache \<Rightarrow> ('k, 'r) rcache" where
  "incr i c = c\<lparr>checkouts := (checkouts c)(i \<mapsto> (case checkouts c i of None \<Rightarrow> 0 | Some n \<Rightarrow> n) + 1)\<rparr>"

definition onEvicted :: "'k \<times> gostr \<Rightarrow> ('k, 'r) rcache \<Rightarrow> ('k, 'r) rcache" where
  "onEvicted ev c =
     (let i = snd ev in
      case checkouts c i of
        None \<Rightarrow> c
      | Some n \<Rightarrow>
          if n = 0
          then c\<lparr>resources := (resources c)(i := None), checkouts := (checkouts c)(i := None),
                 cleaned := cleaned c @ [(i, resources c i)]\<rparr>
          else c\<lparr>expiries := insert i (expiries c)\<rparr>)"

text \<open>\<open>ttlcache.Get\<close> calls \<open>onEvicted\<close> for every node it removes; a missing value is \<open>""\<close>.\<close>

definition ttl_get :: "'k \<Rightarrow> gotime \<Rightarrow> gotime \<Rightarrow> (nat \<Rightarrow> gotime) \<Rightarrow> ('k, 'r) rcache \<Rightarrow>
    (gostr \<times> ('k, 'r) rcache) option" where
  "ttl_get key t1 t2 tcl c =
     (case Cachettl.Get key t1 t2 tcl (ttlcache c) of
        None \<Rightarrow> None
      | Some (r, evs, tc') \<Rightarrow>
          Some (case r of None \<Rightarrow> [] | Some i \<Rightarrow> i, fold onEvicted evs (c\<lparr>ttlcache := tc'\<rparr>)))"

definition checkinFunc :: "'r option \<Rightarrow> gostr \<Rightarrow> ('k, 'r) rcache \<Rightarrow> nat \<times> ('k, 'r) rcache" where
  "checkinFunc r i c = (length (handles c), c\<lparr>handles := handles c @ [\<lparr>hres = r, hid = i, hdone = False\<rparr>]\<rparr>)"

definition newResource :: "'k \<Rightarrow> 'e + 'r \<Rightarrow> gostr \<Rightarrow> gotime \<Rightarrow> ('k, 'r) rcache \<Rightarrow>
    (('e + 'r option \<times> nat) \<times> ('k, 'r) rcache) option" where
  "newResource key new uuid now c =
     (case new of
        Inl e \<Rightarrow> Some (Inl e, c)
      | Inr r \<Rightarrow>
          (let c1 = incr uuid (c\<lparr>resources := (resources c)(uuid \<mapsto> r)\<rparr>)
           in (case Cachettl.Put key uuid (rttl c) now (ttlcache c1) of
                 None \<Rightarrow> None
               | Some tc' \<Rightarrow>
                   (case checkinFunc (Some r) uuid (c1\<lparr>ttlcache := tc'\<rparr>) of
                      (h, c2) \<Rightarrow> Some (Inr (Some r, h), c2)))))"

text \<open>A missing resource is the zero value of its type, here \<open>None\<close>.\<close>

definition Checkout :: "'k \<Rightarrow> 'e + 'r \<Rightarrow> gostr \<Rightarrow> gotime \<Rightarrow> gotime \<Rightarrow> (nat \<Rightarrow> gotime) \<Rightarrow> gotime \<Rightarrow>
    ('k, 'r) rcache \<Rightarrow> (('e + 'r option \<times> nat) \<times> ('k, 'r) rcache) option" where
  "Checkout key new uuid t1 t2 tcl tp c =
     (case ttl_get key t1 t2 tcl c of
        None \<Rightarrow> None
      | Some (i, c1) \<Rightarrow>
          if i \<noteq> []
          then (case checkinFunc (resources c1 i) i (incr i c1) of (h, c2) \<Rightarrow> Some (Inr (resources c1 i, h), c2))
          else newResource key new uuid tp c1)"

definition Invalidate :: "'k \<Rightarrow> gotime \<Rightarrow> gotime \<Rightarrow> (nat \<Rightarrow> gotime) \<Rightarrow> gotime \<Rightarrow> ('k, 'r) rcache \<Rightarrow> ('k, 'r) rcache option" where
  "Invalidate key t1 t2 tcl tp c =
     (case ttl_get key t1 t2 tcl c of
        None \<Rightarrow> None
      | Some (i, c1) \<Rightarrow>
          if i \<noteq> []
          then (case Cachettl.Put key [] (- 1) tp (ttlcache c1) of
                  None \<Rightarrow> None
                | Some tc' \<Rightarrow> Some (onEvicted (key, i) (c1\<lparr>ttlcache := tc'\<rparr>)))
          else Some c1)"

definition checkin :: "nat \<Rightarrow> ('k, 'r) rcache \<Rightarrow> ('k, 'r) rcache" where
  "checkin h c =
     (if hdone (handles c ! h) then c
      else (let hd = handles c ! h; i = hid hd;
                n = (case checkouts c i of None \<Rightarrow> 0 | Some n \<Rightarrow> n) - 1;
                c1 = c\<lparr>handles := (handles c)[h := hd\<lparr>hdone := True\<rparr>], checkouts := (checkouts c)(i \<mapsto> n)\<rparr>
            in if i \<in> expiries c1 \<and> n = 0
               then c1\<lparr>expiries := expiries c1 - {i}, cleaned := cleaned c1 @ [(i, hres hd)]\<rparr>
               else c1))"

text \<open>Which method \<open>cleanup\<close> calls: the first the resource has, in this order.\<close>

datatype cleaner = Cleanup | CleanupErr | Close | CloseErr | Stop | StopErr

definition cleanup :: "cleaner set \<Rightarrow> cleaner option" where
  "cleanup ms =
     (if Cleanup \<in> ms then Some Cleanup
      else if CleanupErr \<in> ms then Some CleanupErr
      else if Close \<in> ms then Some Close
      else if CloseErr \<in> ms then Some CloseErr
      else if Stop \<in> ms then Some Stop
      else if StopErr \<in> ms then Some StopErr
      else None)"

subsection \<open>The invariant\<close>

definition outs :: "('k, 'r) rcache \<Rightarrow> gostr \<Rightarrow> nat" where
  "outs c i = length (filter (\<lambda>h. hid h = i \<and> \<not> hdone h) (handles c))"

definition used :: "('k, 'r) rcache \<Rightarrow> gostr set" where
  "used c = {i. checkouts c i \<noteq> None} \<union> fst ` set (cleaned c) \<union> hid ` set (handles c)"

text \<open>The current id of a key, if the cache holds one.\<close>

definition cur :: "('k, 'r) rcache \<Rightarrow> 'k \<Rightarrow> gostr \<Rightarrow> bool" where
  "cur c k i \<longleftrightarrow> i \<noteq> [] \<and> contents (ttlcache c) k = Some i"

definition cnt :: "('k, 'r) rcache \<Rightarrow> gostr \<Rightarrow> int" where
  "cnt c i = (case checkouts c i of None \<Rightarrow> 0 | Some n \<Rightarrow> n)"

inductive rinv :: "('k, 'r) rcache \<Rightarrow> bool" where
  rinvI: "\<lbrakk>\<And>i. cnt c i = int (outs c i);
    [] \<notin> used c; [] \<notin> expiries c;
    \<And>k i. cur c k i \<Longrightarrow> checkouts c i \<noteq> None \<and> resources c i \<noteq> None
      \<and> i \<notin> expiries c \<and> i \<notin> fst ` set (cleaned c);
    \<And>k k' i. cur c k i \<Longrightarrow> cur c k' i \<Longrightarrow> k = k';
    \<And>i. i \<in> expiries c \<Longrightarrow> 0 < outs c i \<and> i \<notin> fst ` set (cleaned c);
    \<And>i. i \<in> fst ` set (cleaned c) \<Longrightarrow> outs c i = 0;
    distinct (map fst (cleaned c));
    \<And>h. h \<in> set (handles c) \<Longrightarrow> \<not> hdone h \<Longrightarrow> \<exists>r. hres h = Some r \<and> resources c (hid h) = Some r;
    0 \<le> rttl c\<rbrakk> \<Longrightarrow> rinv c"

definition winv :: "('k, 'r) rcache \<Rightarrow> bool" where
  "winv c \<longleftrightarrow> rinv c \<and> ttl_inv (ttlcache c)"

lemma winv_NewCache: "0 \<le> t \<Longrightarrow> winv (NewCache k0 t refresh)"
proof -
  assume t: "0 \<le> t"
  have "rinv (NewCache k0 t refresh)"
    by (rule rinvI) (use t in \<open>auto simp: NewCache_def outs_def used_def cur_def contents_def New_def cnt_def\<close>)
  moreover have "ttl_inv (ttlcache (NewCache k0 t refresh))"
    using represents_New[of k0 "[]" refresh] by (force simp: ttl_inv_def NewCache_def)
  ultimately show ?thesis by (simp add: winv_def)
qed

lemma rinvD:
  assumes "rinv c"
  shows "cnt c i = int (outs c i)"
    "[] \<notin> used c" "[] \<notin> expiries c"
    "cur c k i \<Longrightarrow> checkouts c i \<noteq> None \<and> resources c i \<noteq> None
      \<and> i \<notin> expiries c \<and> i \<notin> fst ` set (cleaned c)"
    "cur c k i \<Longrightarrow> cur c k' i \<Longrightarrow> k = k'"
    "i \<in> expiries c \<Longrightarrow> 0 < outs c i \<and> i \<notin> fst ` set (cleaned c)"
    "i \<in> fst ` set (cleaned c) \<Longrightarrow> outs c i = 0"
    "distinct (map fst (cleaned c))"
    "h \<in> set (handles c) \<Longrightarrow> \<not> hdone h \<Longrightarrow> \<exists>r. hres h = Some r \<and> resources c (hid h) = Some r"
    "0 \<le> rttl c"
proof -
  show "cnt c i = int (outs c i)"
    using assms
  proof cases
    case rinvI
    show ?thesis by (rule rinvI(1))
  qed
  show "[] \<notin> used c"
    using assms
  proof cases
    case rinvI
    show ?thesis by (rule rinvI(2))
  qed
  show "[] \<notin> expiries c"
    using assms
  proof cases
    case rinvI
    show ?thesis by (rule rinvI(3))
  qed
  show "checkouts c i \<noteq> None \<and> resources c i \<noteq> None
      \<and> i \<notin> expiries c \<and> i \<notin> fst ` set (cleaned c)" if "cur c k i"
    using assms
  proof cases
    case rinvI
    show ?thesis using that by (rule rinvI(4))
  qed
  show "k = k'" if "cur c k i" "cur c k' i"
    using assms
  proof cases
    case rinvI
    show ?thesis using that by (rule rinvI(5))
  qed
  show "0 < outs c i \<and> i \<notin> fst ` set (cleaned c)" if "i \<in> expiries c"
    using assms
  proof cases
    case rinvI
    show ?thesis using that by (rule rinvI(6))
  qed
  show "outs c i = 0" if "i \<in> fst ` set (cleaned c)"
    using assms
  proof cases
    case rinvI
    show ?thesis using that by (rule rinvI(7))
  qed
  show "distinct (map fst (cleaned c))"
    using assms
  proof cases
    case rinvI
    show ?thesis by (rule rinvI(8))
  qed
  show "\<exists>r. hres h = Some r \<and> resources c (hid h) = Some r" if "h \<in> set (handles c)" "\<not> hdone h"
    using assms
  proof cases
    case rinvI
    show ?thesis using that by (rule rinvI(9))
  qed
  show "0 \<le> rttl c"
    using assms
  proof cases
    case rinvI
    show ?thesis by (rule rinvI(10))
  qed
qed

lemma outs_pos: "0 < outs c i \<longleftrightarrow> (\<exists>h \<in> set (handles c). hid h = i \<and> \<not> hdone h)"
  by (auto simp: outs_def filter_empty_conv)

text \<open>Evicting an id that no key holds any more keeps the invariant.\<close>

lemma onEvicted_fields [simp]:
  "ttlcache (onEvicted ev c) = ttlcache c" "handles (onEvicted ev c) = handles c"
  "rttl (onEvicted ev c) = rttl c" "cur (onEvicted ev c) k j = cur c k j" "outs (onEvicted ev c) j = outs c j"
  by (simp_all add: onEvicted_def Let_def cur_def outs_def split: option.split)

lemma onEvicted_used: "used (onEvicted ev c) = used c"
  by (auto simp: used_def onEvicted_def Let_def split: option.split if_splits)

lemma onEvicted_cleaned: "fst ` set (cleaned (onEvicted ev c)) \<subseteq> insert (snd ev) (fst ` set (cleaned c))"
  by (auto simp: onEvicted_def Let_def split: option.split)

lemma onEvicted_rinv:
  assumes r: "rinv c" and nc: "\<And>k. \<not> cur c k (snd ev)" and ni: "snd ev \<notin> fst ` set (cleaned c)"
  shows "rinv (onEvicted ev c)"
proof (cases "checkouts c (snd ev)")
  case None
  then show ?thesis using r by (simp add: onEvicted_def Let_def)
next
  case (Some n)
  note d = rinvD[OF r]
  define i where "i = snd ev"
  have n: "int (outs c i) = n" using d(1)[of i] Some by (simp add: i_def cnt_def)
  have ni': "i \<notin> fst ` set (cleaned c)" using ni by (simp add: i_def)
  show ?thesis
  proof (cases "n = 0")
    case True
    then have f: "checkouts (onEvicted ev c) = (checkouts c)(i := None)"
      "resources (onEvicted ev c) = (resources c)(i := None)" "expiries (onEvicted ev c) = expiries c"
      "cleaned (onEvicted ev c) = cleaned c @ [(i, resources c i)]"
      using Some by (simp_all add: onEvicted_def Let_def i_def)
    have o0: "outs c i = 0" using n True by simp
    have ie: "i \<notin> expiries c" using d(6)[of i] o0 by auto
    show ?thesis
    proof (rule rinvI, goal_cases)
      case (1 j)
      show ?case using d(1)[of j] o0 by (simp add: cnt_def f)
    next
      case (4 k j)
      then show ?case using d(4)[of k j] nc[of k] by (auto simp: f i_def)
    next
      case (6 j)
      then show ?case using d(6)[of j] ie by (auto simp: f)
    next
      case (7 j)
      then show ?case using d(7)[of j] o0 by (auto simp: f image_iff)
    next
      case (9 h)
      then have "h \<in> set (handles c)" "\<not> hdone h" by simp_all
      moreover from this have "hid h \<noteq> i" using o0 outs_pos[of c i] by auto
      ultimately show ?case using d(9)[of h] by (simp add: f)
    qed (use d(2,3,5,8,10) ni' in \<open>auto simp: f onEvicted_used\<close>)
  next
    case False
    then have f: "checkouts (onEvicted ev c) = checkouts c"
      "resources (onEvicted ev c) = resources c" "expiries (onEvicted ev c) = insert i (expiries c)"
      "cleaned (onEvicted ev c) = cleaned c"
      using Some by (simp_all add: onEvicted_def Let_def i_def)
    have p: "0 < outs c i" "i \<noteq> []" using n False d(2) Some by (auto simp: i_def used_def)
    show ?thesis
    proof (rule rinvI, goal_cases)
      case (1 j)
      show ?case using d(1)[of j] by (simp add: cnt_def f)
    next
      case (4 k j)
      then show ?case using d(4)[of k j] nc[of k] by (auto simp: f i_def)
    next
      case (6 j)
      then show ?case using d(6)[of j] p ni' by (auto simp: f)
    next
      case (9 h)
      then show ?case using d(9)[of h] by (simp add: f)
    qed (use d(2,3,5,7,8,10) p in \<open>auto simp: f onEvicted_used\<close>)
  qed
qed


lemma onEvicted_nil: "rinv c \<Longrightarrow> snd ev = [] \<Longrightarrow> onEvicted ev c = c"
  using rinvD(2)[of c] by (auto simp: onEvicted_def used_def)

lemma onEvicted_cur_resources: "resources (onEvicted ev c) i = resources c i \<or> i = snd ev"
  by (simp add: onEvicted_def Let_def split: option.split)

lemma fold_onEvicted:
  assumes "rinv c" "\<And>ev. ev \<in> set evs \<Longrightarrow> (\<forall>k. \<not> cur c k (snd ev)) \<and> snd ev \<notin> fst ` set (cleaned c)"
    and "distinct (filter (\<lambda>i. i \<noteq> []) (map snd evs))"
  shows "rinv (fold onEvicted evs c) \<and> ttlcache (fold onEvicted evs c) = ttlcache c
    \<and> handles (fold onEvicted evs c) = handles c \<and> used (fold onEvicted evs c) = used c
    \<and> rttl (fold onEvicted evs c) = rttl c"
  using assms
proof (induction evs arbitrary: c)
  case (Cons ev evs)
  show ?case
  proof (cases "snd ev = []")
    case True
    with Cons show ?thesis using onEvicted_nil[OF Cons.prems(1)] by simp
  next
    case False
    have "rinv (onEvicted ev c)" by (rule onEvicted_rinv) (use Cons.prems in auto)
    moreover have "(\<forall>k. \<not> cur (onEvicted ev c) k (snd e)) \<and> snd e \<notin> fst ` set (cleaned (onEvicted ev c))"
      if "e \<in> set evs" for e
    proof -
      have "snd e \<noteq> snd ev" using Cons.prems(3) False that by (auto simp: rev_image_eqI)
      then have "snd e \<notin> fst ` set (cleaned (onEvicted ev c))"
        using Cons.prems(2)[of e] that onEvicted_cleaned[of ev c] by auto
      then show ?thesis using Cons.prems(2)[of e] that by simp
    qed
    moreover have "distinct (filter (\<lambda>i. i \<noteq> []) (map snd evs))" using Cons.prems(3) by (simp split: if_splits)
    ultimately show ?thesis using Cons.IH[of "onEvicted ev c"] by (simp add: onEvicted_used)
  qed
qed simp

text \<open>Looking a key up with a frozen clock keeps the invariant; an id it returns is current.\<close>

lemma ttl_get_winv:
  assumes w: "winv c" and t: "0 \<le> now"
  obtains i c' where "ttl_get key now now (\<lambda>_. now) c = Some (i, c')" "winv c'"
    "handles c' = handles c" "used c' = used c" "i \<noteq> [] \<Longrightarrow> cur c' key i"
proof -
  have r: "rinv c" and ti: "ttl_inv (ttlcache c)" using w by (auto simp: winv_def)
  obtain rv evs tc' where g: "Get_at key now (ttlcache c) = Some (rv, evs, tc')" "ttl_inv tc'"
    "distinct (map fst evs)" "\<And>k v. (k, v) \<in> set evs \<Longrightarrow> contents (ttlcache c) k = Some v"
    "contents tc' = (contents (ttlcache c)) |` (- fst ` set evs)"
    "\<And>v. rv = Some v \<Longrightarrow> contents tc' key = Some v"
    using tc.get_returns[OF ti t, of key] by blast
  define c1 where "c1 = c\<lparr>ttlcache := tc'\<rparr>"
  note d = rinvD[OF r]
  have c1c: "cur c1 k i \<Longrightarrow> cur c k i \<and> k \<notin> fst ` set evs" for k i
    by (auto simp: cur_def c1_def g(5) restrict_map_def split: if_splits)
  have evc: "snd ev \<noteq> [] \<Longrightarrow> cur c (fst ev) (snd ev)" if "ev \<in> set evs" for ev
    using g(4)[of "fst ev" "snd ev"] that by (simp add: cur_def)
  have r1: "rinv c1"
  proof (rule rinvI, goal_cases)
    case (4 k i)
    then show ?case using d(4)[of k i] c1c[of k i] by (simp add: c1_def)
  next
    case (5 k k' i)
    then show ?case using d(5)[of k i k'] c1c by blast
  qed (use d(1,2,3,6,7,8,9,10) in \<open>simp_all add: c1_def cnt_def outs_def used_def\<close>)
  have pre: "(\<forall>k. \<not> cur c1 k (snd ev)) \<and> snd ev \<notin> fst ` set (cleaned c1)" if "ev \<in> set evs" for ev
  proof (cases "snd ev = []")
    case True
    then show ?thesis using d(2) by (auto simp: cur_def used_def c1_def)
  next
    case False
    note e = evc[OF that False]
    have "\<not> cur c1 k (snd ev)" for k
      using c1c[of k "snd ev"] d(5)[OF e, of k] that by auto
    moreover have "snd ev \<notin> fst ` set (cleaned c1)" using d(4)[OF e] by (simp add: c1_def)
    ultimately show ?thesis by blast
  qed
  have "distinct (filter (\<lambda>i. i \<noteq> []) (map snd evs))"
    unfolding filter_map comp_def distinct_map
  proof (intro conjI inj_onI)
    show "distinct (filter (\<lambda>x. snd x \<noteq> []) evs)" using g(3) by (auto simp: distinct_map intro: distinct_filter)
    fix x y assume "x \<in> set (filter (\<lambda>x. snd x \<noteq> []) evs)" "y \<in> set (filter (\<lambda>x. snd x \<noteq> []) evs)" "snd x = snd y"
    then show "x = y" using d(5)[of "fst x" "snd x" "fst y"] evc[of x] evc[of y] by (auto intro: prod_eqI)
  qed
  note f = fold_onEvicted[OF r1 pre this]
  define c' where "c' = fold onEvicted evs c1"
  have f': "rinv c'" "ttlcache c' = tc'" "handles c' = handles c" "used c' = used c"
  proof -
    have "ttlcache c1 = tc'" "handles c1 = handles c" "used c1 = used c"
      by (simp_all add: c1_def used_def)
    then show "rinv c'" "ttlcache c' = tc'" "handles c' = handles c" "used c' = used c"
      using f by (simp_all add: c'_def)
  qed
  have "ttl_get key now now (\<lambda>_. now) c = Some (case rv of None \<Rightarrow> [] | Some i \<Rightarrow> i, c')"
    using g(1) by (simp add: ttl_get_def Get_at_def c'_def c1_def)
  then show ?thesis
    by (rule that) (use f' g(2,6) in \<open>auto simp: winv_def cur_def split: option.splits\<close>)
qed


lemma outs_add: "outs (c\<lparr>handles := handles c @ [\<lparr>hres = r, hid = i, hdone = False\<rparr>]\<rparr>) j =
    outs c j + (if j = i then 1 else 0)"
  by (simp add: outs_def)

lemma used_outs: "i \<notin> used c \<Longrightarrow> outs c i = 0"
  by (auto simp: used_def outs_def filter_empty_conv)

lemma checkin_existing:
  assumes w: "winv c" and k: "cur c key i"
  shows "winv (snd (checkinFunc (resources c i) i (incr i c)))" "resources c i \<noteq> None"
proof -
  note d = rinvD[of c]
  have r: "rinv c" using w by (simp add: winv_def)
  obtain x where x: "resources c i = Some x" using d(4)[OF r k] by auto
  define c' where "c' = snd (checkinFunc (resources c i) i (incr i c))"
  have f: "checkouts c' = (checkouts c)(i \<mapsto> cnt c i + 1)" "resources c' = resources c"
    "expiries c' = expiries c" "cleaned c' = cleaned c" "ttlcache c' = ttlcache c" "rttl c' = rttl c"
    "handles c' = handles c @ [\<lparr>hres = Some x, hid = i, hdone = False\<rparr>]"
    "outs c' j = outs c j + (if j = i then 1 else 0)" "cur c' k j = cur c k j" for k j
    by (simp_all add: c'_def checkinFunc_def incr_def cnt_def x outs_def cur_def)
  have ie: "i \<noteq> []" using k by (simp add: cur_def)
  have "rinv c'"
  proof (rule rinvI, goal_cases)
    case (1 j)
    show ?case using d(1)[OF r, of j] d(1)[OF r, of i] by (simp add: f cnt_def)
  next
    case (4 k j)
    then show ?case using d(4)[OF r, of k j] by (simp add: f)
  next
    case (5 k k' j)
    then show ?case using d(5)[OF r, of k j k'] by (simp add: f)
  next
    case (6 j)
    then show ?case using d(6)[OF r, of j] by (simp add: f)
  next
    case (7 j)
    then show ?case using d(7)[OF r, of j] d(4)[OF r k] by (auto simp: f)
  next
    case (9 h)
    then show ?case using d(9)[OF r, of h] x by (auto simp: f)
  qed (use d(2,3,8,10)[OF r] ie in \<open>auto simp: f used_def\<close>)
  then show "winv (snd (checkinFunc (resources c i) i (incr i c)))"
    using w by (simp add: winv_def f(5) flip: c'_def)
  show "resources c i \<noteq> None" using x by simp
qed

lemma newResource_winv:
  assumes w: "winv c" and u: "uuid \<noteq> []" "uuid \<notin> used c" and t: "0 \<le> now"
  shows "\<exists>c'. newResource key (Inr x) uuid now c = Some (Inr (Some x, length (handles c)), c') \<and> winv c'
    \<and> handles c' = handles c @ [\<lparr>hres = Some x, hid = uuid, hdone = False\<rparr>]"
proof -
  note d = rinvD[of c]
  have r: "rinv c" and ti: "ttl_inv (ttlcache c)" using w by (auto simp: winv_def)
  obtain tc' where p: "Put key uuid (rttl c) now (ttlcache c) = Some tc'" "ttl_inv tc'"
    "contents tc' = (contents (ttlcache c))(key \<mapsto> uuid)"
    using tc.put_returns[OF ti d(10)[OF r] t] by blast
  define c' where "c' = c\<lparr>resources := (resources c)(uuid \<mapsto> x), checkouts := (checkouts c)(uuid \<mapsto> cnt c uuid + 1),
    ttlcache := tc', handles := handles c @ [\<lparr>hres = Some x, hid = uuid, hdone = False\<rparr>]\<rparr>"
  have n: "newResource key (Inr x) uuid now c = Some (Inr (Some x, length (handles c)), c')"
    using p(1) by (simp add: newResource_def Let_def incr_def checkinFunc_def c'_def cnt_def)
  have f: "checkouts c' = (checkouts c)(uuid \<mapsto> cnt c uuid + 1)" "resources c' = (resources c)(uuid \<mapsto> x)"
    "expiries c' = expiries c" "cleaned c' = cleaned c" "rttl c' = rttl c"
    "handles c' = handles c @ [\<lparr>hres = Some x, hid = uuid, hdone = False\<rparr>]" "outs c' j = outs c j + (if j = uuid then 1 else 0)"
    "cur c' k j = (if k = key then j = uuid else cur c k j)" for k j
    using u(1) by (auto simp: c'_def outs_def cur_def p(3))
  have nu: "checkouts c uuid = None" "uuid \<notin> fst ` set (cleaned c)" "uuid \<notin> hid ` set (handles c)"
    "uuid \<notin> expiries c" "\<not> cur c k uuid" for k
    using u(2) d(6)[OF r, of uuid] used_outs[OF u(2)] d(4)[OF r, of k uuid] by (auto simp: used_def)
  have "rinv c'"
  proof (rule rinvI, goal_cases)
    case (1 j)
    have "cnt c' j = cnt c j + (if j = uuid then 1 else 0)" by (simp add: f cnt_def)
    then show ?case using d(1)[OF r, of j] by (simp add: f)
  next
    case (4 k j)
    then show ?case using d(4)[OF r, of k j] nu by (auto simp: f split: if_splits)
  next
    case (5 k k' j)
    then show ?case using d(5)[OF r, of k j k'] nu(5) by (auto simp: f split: if_splits)
  next
    case (6 j)
    then show ?case using d(6)[OF r, of j] nu by (auto simp: f)
  next
    case (7 j)
    then show ?case using d(7)[OF r, of j] nu by (auto simp: f)
  next
    case (9 h)
    then show ?case using d(9)[OF r, of h] nu(3) by (auto simp: f)
  qed (use d(2,3,8,10)[OF r] u in \<open>auto simp: f used_def\<close>)
  then show ?thesis using n p(2) by (auto simp: winv_def c'_def)
qed

lemma Checkout_winv:
  assumes w: "winv c" and u: "uuid \<noteq> []" "uuid \<notin> used c" and t: "0 \<le> now"
  obtains res c' where "Checkout key new uuid now now (\<lambda>_. now) now c = Some (res, c')" "winv c'"
    "case res of Inl e \<Rightarrow> new = Inl e \<and> handles c' = handles c
      | Inr (r, h) \<Rightarrow> h = length (handles c)
          \<and> (\<exists>x i. r = Some x \<and> handles c' = handles c @ [\<lparr>hres = Some x, hid = i, hdone = False\<rparr>])"
proof -
  obtain i c1 where g: "ttl_get key now now (\<lambda>_. now) c = Some (i, c1)" "winv c1" "handles c1 = handles c"
    "used c1 = used c" "i \<noteq> [] \<Longrightarrow> cur c1 key i"
    using ttl_get_winv[OF w t, of key] by metis
  show ?thesis
  proof (cases "i = []")
    case False
    obtain x where x: "resources c1 i = Some x" using checkin_existing(2)[OF g(2) g(5)[OF False]] by blast
    then show ?thesis using checkin_existing(1)[OF g(2) g(5)[OF False]] g(1,3) False
      by (intro that[of "Inr (Some x, length (handles c))" "snd (checkinFunc (Some x) i (incr i c1))"])
        (auto simp: Checkout_def checkinFunc_def incr_def)
  next
    case True
    show ?thesis
    proof (cases new)
      case (Inl e)
      then show ?thesis using g True by (intro that[of "Inl e" c1]) (auto simp: Checkout_def newResource_def)
    next
      case (Inr x)
      then obtain c' where "newResource key new uuid now c1 = Some (Inr (Some x, length (handles c)), c')"
        "winv c'" "handles c' = handles c @ [\<lparr>hres = Some x, hid = uuid, hdone = False\<rparr>]"
        using newResource_winv[OF g(2) u(1) _ t, of key x] g(3,4) u(2) by auto
      then show ?thesis using g(1) True by (intro that[of "Inr (Some x, length (handles c))" c']) (auto simp: Checkout_def)
    qed
  qed
qed

lemma Invalidate_winv:
  assumes w: "winv c" and t: "0 < now"
  obtains c' where "Invalidate key now now (\<lambda>_. now) now c = Some c'" "winv c'" "handles c' = handles c"
proof -
  obtain i c1 where g: "ttl_get key now now (\<lambda>_. now) c = Some (i, c1)" "winv c1" "handles c1 = handles c"
    "i \<noteq> [] \<Longrightarrow> cur c1 key i"
    using ttl_get_winv[OF w, of now key] t by (metis less_imp_le)
  show ?thesis
  proof (cases "i = []")
    case True
    then show ?thesis using g by (intro that[of c1]) (auto simp: Invalidate_def)
  next
    case False
    note k = g(4)[OF False]
    have r: "rinv c1" and ti: "ttl_inv (ttlcache c1)" using g(2) by (auto simp: winv_def)
    note d = rinvD[of c1]
    have "contents (ttlcache c1) key \<noteq> None" using k by (auto simp: cur_def)
    then obtain tc' where p: "Put key [] (- 1) now (ttlcache c1) = Some tc'" "ttl_inv tc'"
      "contents tc' = (contents (ttlcache c1))(key \<mapsto> [])"
      using tc.put_again[OF ti, of key now "- 1" "[]"] t by auto
    define c2 where "c2 = c1\<lparr>ttlcache := tc'\<rparr>"
    have cu: "cur c2 k j \<longleftrightarrow> cur c1 k j \<and> k \<noteq> key" for k j by (auto simp: cur_def c2_def p(3))
    have "rinv c2"
    proof (rule rinvI, goal_cases)
      case (4 k j)
      then show ?case using d(4)[OF r, of k j] by (simp add: cu) (simp add: c2_def)
    next
      case (5 k k' j)
      then show ?case using d(5)[OF r, of k j k'] by (simp add: cu)
    qed (use d(1,2,3,6,7,8,9,10)[OF r] in \<open>simp_all add: c2_def cnt_def outs_def used_def\<close>)
    then have "rinv (onEvicted (key, i) c2)"
    proof (rule onEvicted_rinv)
      show "\<not> cur c2 k (snd (key, i))" for k using d(5)[OF r k, of k] by (auto simp: cu)
      show "snd (key, i) \<notin> fst ` set (cleaned c2)" using d(4)[OF r k] by (simp add: c2_def)
    qed
    then show ?thesis using g(1,3) p(1,2) False
      by (intro that[of "onEvicted (key, i) c2"]) (auto simp: Invalidate_def winv_def c2_def)
  qed
qed

lemma checkin_winv:
  assumes w: "winv c" and h: "h < length (handles c)"
  shows "winv (checkin h c)"
proof (cases "hdone (handles c ! h)")
  case True
  then show ?thesis using w by (simp add: checkin_def)
next
  case False
  have r: "rinv c" using w by (simp add: winv_def)
  note d = rinvD[of c]
  define i where "i = hid (handles c ! h)"
  define c1 where "c1 = c\<lparr>handles := (handles c)[h := (handles c ! h)\<lparr>hdone := True\<rparr>],
      checkouts := (checkouts c)(i \<mapsto> cnt c i - 1)\<rparr>"
  have hin: "handles c ! h \<in> set (handles c)" using h by simp
  have o: "outs c1 j = outs c j - (if j = i then 1 else 0)" for j
  proof -
    have "handles c = take h (handles c) @ handles c ! h # drop (Suc h) (handles c)"
      using h by (simp add: id_take_nth_drop)
    then have "outs c j = length (filter (\<lambda>h. hid h = j \<and> \<not> hdone h) (take h (handles c) @ handles c ! h # drop (Suc h) (handles c)))"
      unfolding outs_def by metis
    moreover have "handles c1 = take h (handles c) @ (handles c ! h)\<lparr>hdone := True\<rparr> # drop (Suc h) (handles c)"
      using h by (simp add: c1_def upd_conv_take_nth_drop)
    ultimately show ?thesis using False by (auto simp: outs_def i_def)
  qed
  have op: "0 < outs c i" using outs_pos[of c i] hin False by (auto simp: i_def)
  have ie: "i \<noteq> []" using d(2)[OF r] imageI[OF hin, of hid] by (auto simp: used_def i_def)
  have c1i: "i \<notin> fst ` set (cleaned c)" using d(7)[OF r, of i] op by auto
  have hd: "x \<in> set (handles c)" if "x \<in> set (handles c1)" "\<not> hdone x" for x
    using that h by (auto simp: c1_def dest: set_update_subset_insert[THEN subsetD])
  have f: "checkouts c1 = (checkouts c)(i \<mapsto> cnt c i - 1)" "resources c1 = resources c" "expiries c1 = expiries c"
    "cleaned c1 = cleaned c" "ttlcache c1 = ttlcache c" "rttl c1 = rttl c" "cur c1 k j = cur c k j"
    "hid ` set (handles c1) = hid ` set (handles c)" for k j
  proof -
    have "map hid (handles c1) = map hid (handles c)"
      using h by (simp add: c1_def map_update i_def list_update_same_conv)
    then show "hid ` set (handles c1) = hid ` set (handles c)" by (metis list.set_map)
  qed (simp_all add: c1_def cur_def)
  show ?thesis
  proof (cases "i \<in> expiries c \<and> cnt c i = 1")
    case True
    define c2 where "c2 = c1\<lparr>expiries := expiries c1 - {i}, cleaned := cleaned c1 @ [(i, hres (handles c ! h))]\<rparr>"
    have "checkin h c = c2"
      using False True by (simp add: checkin_def Let_def c2_def c1_def cnt_def i_def)
    moreover have o2: "outs c2 j = outs c1 j" for j by (simp add: c2_def outs_def)
    have f2: "expiries c2 = expiries c - {i}" "cleaned c2 = cleaned c @ [(i, hres (handles c ! h))]"
      by (simp_all add: c2_def f)
    have "rinv c2"
    proof (rule rinvI, goal_cases)
      case (1 j)
      have "cnt c2 j = cnt c j - (if j = i then 1 else 0)" by (simp add: c2_def cnt_def f)
      then show ?case using d(1)[OF r, of j] o[of j] op by (simp add: o2 of_nat_diff)
    next
      case (4 k j)
      then show ?case using d(4)[OF r, of k j] True by (auto simp: c2_def f cur_def c1_def)
    next
      case (5 k k' j)
      then show ?case using d(5)[OF r, of k j k'] by (simp add: c2_def c1_def cur_def)
    next
      case (6 j)
      then show ?case using d(6)[OF r, of j] o[of j] by (auto simp: o2 f2)
    next
      case (7 j)
      then show ?case using d(7)[OF r, of j] o[of j] True d(1)[OF r, of i] by (auto simp: o2 f2)
    next
      case (9 x)
      then show ?case using d(9)[OF r, of x] hd[of x] by (simp add: c2_def f)
    qed (use d(2,3,8,10)[OF r] ie c1i in \<open>auto simp: c2_def f used_def\<close>)
    ultimately show ?thesis using w by (simp add: winv_def c2_def f)
  next
    case nexp: False
    have "checkin h c = c1"
      using False nexp by (auto simp: checkin_def Let_def c1_def cnt_def i_def)
    moreover have "rinv c1"
    proof (rule rinvI, goal_cases)
      case (1 j)
      show ?case using d(1)[OF r, of j] d(1)[OF r, of i] o[of j] op by (simp add: cnt_def f of_nat_diff)
    next
      case (4 k j)
      then show ?case using d(4)[OF r, of k j] by (auto simp: f)
    next
      case (5 k k' j)
      then show ?case using d(5)[OF r, of k j k'] by (simp add: f)
    next
      case (6 j)
      then show ?case using d(6)[OF r, of j] o[of j] nexp d(1)[OF r, of i] by (auto simp: f)
    next
      case (7 j)
      then show ?case using d(7)[OF r, of j] o[of j] by (auto simp: f)
    next
      case (9 x)
      then show ?case using d(9)[OF r, of x] hd[of x] by (simp add: f)
    qed (use d(2,3,8,10)[OF r] ie in \<open>auto simp: f used_def\<close>)
    ultimately show ?thesis using w by (simp add: winv_def f)
  qed
qed


subsection \<open>Runs\<close>

text \<open>
  A client's step: a whole call, in which the clock reads the same time throughout, with a fresh
  non-empty id from the uuid library.
\<close>

inductive rstep :: "('k, 'r) rcache \<Rightarrow> ('k, 'r) rcache \<Rightarrow> bool" where
  step_checkout: "uuid \<noteq> [] \<Longrightarrow> uuid \<notin> used c \<Longrightarrow> 0 \<le> now \<Longrightarrow>
    Checkout key (new :: gostr + 'r) uuid now now (\<lambda>_. now) now c = Some (res, c') \<Longrightarrow> rstep c c'"
| step_invalidate: "0 < now \<Longrightarrow> Invalidate key now now (\<lambda>_. now) now c = Some c' \<Longrightarrow> rstep c c'"
| step_checkin: "h < length (handles c) \<Longrightarrow> rstep c (checkin h c)"

inductive rreach :: "('k, 'r) rcache \<Rightarrow> ('k, 'r) rcache \<Rightarrow> bool" for c0 where
  rreach_refl: "rreach c0 c0"
| rreach_step: "rreach c0 c \<Longrightarrow> rstep c c' \<Longrightarrow> rreach c0 c'"

lemma rstep_winv: "rstep c c' \<Longrightarrow> winv c \<Longrightarrow> winv c'"
proof (induction rule: rstep.induct)
  case (step_checkout uuid c now key new res c')
  obtain res' c'' where "Checkout key new uuid now now (\<lambda>_. now) now c = Some (res', c'')" "winv c''"
    by (rule Checkout_winv[OF step_checkout.prems step_checkout(1,2,3), of key new])
  with step_checkout show ?case by simp
next
  case (step_invalidate now key c c')
  obtain c'' where "Invalidate key now now (\<lambda>_. now) now c = Some c''" "winv c''"
    by (rule Invalidate_winv[OF step_invalidate.prems step_invalidate(1), of key])
  with step_invalidate show ?case by simp
next
  case (step_checkin h c)
  then show ?case by (simp add: checkin_winv)
qed

lemma rreach_winv: "rreach c0 c \<Longrightarrow> winv c0 \<Longrightarrow> winv c"
  by (induction rule: rreach.induct) (auto intro: rstep_winv)

subsection \<open>Properties\<close>

text \<open>A run used by the examples: a checkout at time 0, then an invalidation at time 5.\<close>

definition demo0 :: "(nat, nat) rcache" where
  "demo0 = NewCache 0 10 False"

definition demo1 :: "(nat, nat) rcache" where
  "demo1 = snd (the (Checkout 1 (Inr 42 :: gostr + nat) [7] 0 0 (\<lambda>_. 0) 0 demo0))"

definition demo2 :: "(nat, nat) rcache" where
  "demo2 = the (Invalidate 1 5 5 (\<lambda>_. 5) 5 demo1)"

lemmas run_simps = Checkout_def ttl_get_def Get_def get_main_def NewCache_def New_def demo0_def
  cleanup_loop.simps newResource_def checkinFunc_def incr_def Put_def upd_node_def root_def remove_def
  add_def add_loop.simps insert_after_def Invalidate_def onEvicted_def Let_def zero_time_def

lemma demo1_eq: "Checkout 1 (Inr 42 :: gostr + nat) [7] 0 0 (\<lambda>_. 0) 0 demo0 = Some (Inr (Some 42, 0), demo1)"
  by (simp add: demo1_def run_simps)

lemma demo2_eq: "Invalidate 1 5 5 (\<lambda>_. 5) 5 demo1 = Some demo2"
  by (simp add: demo2_def demo1_def run_simps)

lemma demo2_fields: "handles demo2 = [\<lparr>hres = Some 42, hid = [7], hdone = False\<rparr>]"
  "expiries demo2 = {[7]}" "used demo2 = {[7]}" "cleaned demo2 = []"
  by (simp add: demo2_def demo1_def run_simps, simp add: demo2_def demo1_def run_simps,
      auto simp: demo2_def demo1_def run_simps used_def)

lemma demo2_reach: "rreach (NewCache 0 10 False) demo2"
proof -
  have "rstep demo0 demo1"
    by (rule step_checkout[OF _ _ _ demo1_eq]) (simp_all add: demo0_def NewCache_def used_def)
  moreover have "rstep demo1 demo2" by (rule step_invalidate[OF _ demo2_eq]) simp
  ultimately show ?thesis unfolding demo0_def by (blast intro: rreach.intros)
qed



text \<open>\<open>Checkout\<close> in every reachable state returns, and what it returns is the error of the
  constructor with nothing checked out, or a resource that is stored, not cleaned up, and
  protected by the new checkin function.\<close>

lemma Checkout_live:
  assumes "rreach (NewCache k0 t refresh) c" "0 \<le> t" "uuid \<noteq> []" "uuid \<notin> used c" "0 \<le> now"
  shows "\<exists>res c'. Checkout key (new :: gostr + 'r) uuid now now (\<lambda>_. now) now c = Some (res, c') \<and>
    (case res of Inl e \<Rightarrow> new = Inl e \<and> handles c' = handles c
     | Inr (r, h) \<Rightarrow> h = length (handles c) \<and>
         (\<exists>x i. r = Some x \<and> handles c' = handles c @ [\<lparr>hres = Some x, hid = i, hdone = False\<rparr>]
            \<and> resources c' i = Some x \<and> i \<notin> fst ` set (cleaned c')))"
proof -
  have w: "winv c" using rreach_winv[OF assms(1) winv_NewCache[OF assms(2)]] .
  obtain res c' where k: "Checkout key new uuid now now (\<lambda>_. now) now c = Some (res, c')" "winv c'"
    "case res of Inl e \<Rightarrow> new = Inl e \<and> handles c' = handles c
      | Inr (r, h) \<Rightarrow> h = length (handles c)
          \<and> (\<exists>x i. r = Some x \<and> handles c' = handles c @ [\<lparr>hres = Some x, hid = i, hdone = False\<rparr>])"
    by (rule Checkout_winv[OF w assms(3,4,5), of key new])
  have r: "rinv c'" using k(2) by (simp add: winv_def)
  have live: "resources c' i = Some x \<and> i \<notin> fst ` set (cleaned c')"
    if "handles c' = handles c @ [\<lparr>hres = Some x, hid = i, hdone = False\<rparr>]" for x i
  proof -
    define hd where "hd = \<lparr>hres = Some x, hid = i, hdone = False\<rparr>"
    have hd: "hd \<in> set (handles c')" "\<not> hdone hd" "hres hd = Some x" "hid hd = i" using that by (simp_all add: hd_def)
    then have "resources c' i = Some x" using rinvD(9)[OF r, of hd] by simp
    moreover have "0 < outs c' i" using hd outs_pos[of c' i] by blast
    then have "outs c' i \<noteq> 0" by simp
    then have "i \<notin> fst ` set (cleaned c')" using rinvD(7)[OF r, of i] by metis
    ultimately show ?thesis by blast
  qed
  show ?thesis
  proof (cases res)
    case (Inl e)
    show ?thesis using k(1,3) unfolding Inl by (intro exI[of _ "Inl e"] exI[of _ c']) simp
  next
    case (Inr p)
    then obtain x i where x: "p = (Some x, length (handles c))"
      "handles c' = handles c @ [\<lparr>hres = Some x, hid = i, hdone = False\<rparr>]"
      using k(3) unfolding Inr by (cases p) auto
    show ?thesis
      using k(1) live[OF x(2)] x(2) unfolding Inr x(1) by (intro exI[of _ res] exI[of _ c']) (simp add: Inr x(1))
  qed
qed

lemma Checkout_live_example:
  "\<exists>res c'. Checkout 1 (Inr 43 :: gostr + nat) [8] 6 6 (\<lambda>_. 6) 6 demo2 = Some (res, c') \<and>
    (case res of Inl e \<Rightarrow> (Inr 43 :: gostr + nat) = Inl e \<and> handles c' = handles demo2
     | Inr (r, h) \<Rightarrow> h = length (handles demo2) \<and>
         (\<exists>x i. r = Some x \<and> handles c' = handles demo2 @ [\<lparr>hres = Some x, hid = i, hdone = False\<rparr>]
            \<and> resources c' i = Some x \<and> i \<notin> fst ` set (cleaned c')))"
  by (rule Checkout_live[OF demo2_reach]) (simp_all add: demo2_fields)

text \<open>The last outstanding checkin of an expired or invalidated resource cleans it up: exactly
  that resource is handed to \<open>cleanup\<close>, and it is no longer pending.\<close>

lemma last_checkin_cleans:
  assumes "rreach (NewCache k0 t refresh) c" "0 \<le> t" "h < length (handles c)" "\<not> hdone (handles c ! h)"
    and "hid (handles c ! h) \<in> expiries c" "outs c (hid (handles c ! h)) = 1"
  shows "cleaned (checkin h c) = cleaned c @ [(hid (handles c ! h), hres (handles c ! h))]
    \<and> hid (handles c ! h) \<notin> expiries (checkin h c)"
proof -
  have r: "rinv c" using rreach_winv[OF assms(1) winv_NewCache[OF assms(2)]] by (simp add: winv_def)
  have "cnt c (hid (handles c ! h)) = 1" using rinvD(1)[OF r] assms(6) by simp
  then show ?thesis using assms(4,5) by (auto simp: checkin_def Let_def cnt_def)
qed

lemma last_checkin_cleans_witness:
  "cleaned (checkin 0 demo2) = [([7], Some 42)] \<and> [7] \<notin> expiries (checkin 0 demo2)"
  using last_checkin_cleans[OF demo2_reach, of 0] by (simp add: demo2_fields outs_def)

text \<open>After that the map entries of the resource stay: \<open>resources\<close> and \<open>checkouts\<close> only shrink
  in \<open>onEvicted\<close>, which never sees the id again.\<close>

lemma checkin_leaks:
  assumes "winv c" "h < length (handles c)" "\<not> hdone (handles c ! h)"
  shows "resources (checkin h c) (hid (handles c ! h)) \<noteq> None \<and> checkouts (checkin h c) (hid (handles c ! h)) \<noteq> None"
  using assms rinvD(9)[of c "handles c ! h"] by (auto simp: winv_def checkin_def Let_def)

text \<open>
  When the clock moves between the reading that finds the entry alive and the clean-up of the
  same \<open>Get\<close>, and refreshing is off, \<open>Checkout\<close> hands out a resource that was just cleaned up
  (the zero value: its map entry is gone).
\<close>

lemma Checkout_hands_out_cleaned:
  "\<exists>h c'. Checkout 1 (Inr 43 :: gostr + nat) [8] 9 9 (\<lambda>_. 11) 11 (checkin 0 demo1) = Some (Inr (None, h), c')
    \<and> cleaned c' = [([7], Some 42)]"
  by (simp add: demo1_def run_simps checkin_def)

text \<open>
  At the very instant of expiration an entry is neither alive nor evicted: \<open>Checkout\<close> overwrites
  its id, and the old resource is never cleaned up.
\<close>

lemma Checkout_loses_resource:
  "\<exists>r c'. Checkout 1 (Inr 43 :: gostr + nat) [8] 10 10 (\<lambda>_. 10) 10 (checkin 0 demo1) = Some (r, c')
    \<and> resources c' [7] = Some 42 \<and> cleaned c' = [] \<and> contents (ttlcache c') 1 = Some [8]"
  by (simp add: demo1_def run_simps checkin_def contents_def)

end
