(* ===== verification/Config_Types.thy ===== *)
theory Config_Types
  imports Kit_Prelude "HOL-Library.Multiset"
begin

text \<open>
  The values, keys and observers of the \<open>config\<close> package (\<open>config_types.go\<close>, \<open>config_env.go\<close>,
  \<open>config_notify.go\<close>, \<open>config_valueloader.go\<close>).

  \<open>any\<close> is a setting as viper holds it; a map is a list of its pairs. \<open>cval\<close> is a value of one
  of the eight types of \<open>configTypes\<close>; \<open>int\<close>, \<open>int64\<close> and \<open>time.Duration\<close> are 64-bit words, so
  the scaling of a value wraps as in Go, and a float64 is its 64 bits.

  \<open>golib\<close> holds what the code calls in third-party packages (spf13/cast) and the float and
  time routines of the standard library: parameters of the model.
\<close>

datatype any = ANil | AStr gostr | ABool bool | AInt "64 word" | AFloat u64 | ASlice "any list"
  | AMap "(gostr \<times> any) list" | AAnyMap "(any \<times> any) list"

type_synonym smap = "(gostr \<times> any) list"

datatype cval = VInt "64 word" | VInt64 "64 word" | VString gostr | VDuration "64 word" | VBool bool
  | VFloat u64 | VSlice "gostr list" | VMap smap

datatype ctype = TInt | TInt64 | TString | TDuration | TBool | TFloat | TSlice | TMap

fun typ_of :: "cval \<Rightarrow> ctype" where
  "typ_of (VInt _) = TInt"
| "typ_of (VInt64 _) = TInt64"
| "typ_of (VString _) = TString"
| "typ_of (VDuration _) = TDuration"
| "typ_of (VBool _) = TBool"
| "typ_of (VFloat _) = TFloat"
| "typ_of (VSlice _) = TSlice"
| "typ_of (VMap _) = TMap"

fun zero_of :: "ctype \<Rightarrow> cval" where
  "zero_of TInt = VInt 0"
| "zero_of TInt64 = VInt64 0"
| "zero_of TString = VString []"
| "zero_of TDuration = VDuration 0"
| "zero_of TBool = VBool False"
| "zero_of TFloat = VFloat 0"
| "zero_of TSlice = VSlice []"
| "zero_of TMap = VMap []"

lemma typ_of_zero [simp]: "typ_of (zero_of t) = t"
  by (cases t) auto

record golib =
  ToInt :: "any option \<Rightarrow> 64 word"
  ToInt64 :: "any option \<Rightarrow> 64 word"
  ToBool :: "any option \<Rightarrow> bool"
  ToFloat64 :: "any option \<Rightarrow> u64"
  ToStr :: "any option \<Rightarrow> gostr"
  ToDuration :: "any option \<Rightarrow> 64 word"
  ToStringSlice :: "any option \<Rightarrow> gostr list"
  ToStringMap :: "any option \<Rightarrow> smap"
  ToStringE :: "any \<Rightarrow> gostr option"
  ParseDuration :: "gostr \<Rightarrow> 64 word option"
  ParseFloat_ok :: "gostr \<Rightarrow> bool"
  FormatFloat :: "u64 \<Rightarrow> gostr"
  FormatDuration :: "64 word \<Rightarrow> gostr"
  FormatMap :: "smap \<Rightarrow> gostr"
  fmul :: "u64 \<Rightarrow> u64 \<Rightarrow> u64"

text \<open>\<open>1.0\<close> as bits, and \<open>==\<close> on floats: a NaN differs from itself, the two zeros are equal.\<close>

definition float_one :: u64 where
  "float_one = 0x3FF0000000000000"

definition is_nan :: "u64 \<Rightarrow> bool" where
  "is_nan x \<longleftrightarrow> 0x7FF0000000000000 < take_bit 63 x"

definition feq :: "u64 \<Rightarrow> u64 \<Rightarrow> bool" where
  "feq x y \<longleftrightarrow> \<not> is_nan x \<and> \<not> is_nan y \<and> (x = y \<or> take_bit 63 x = 0 \<and> take_bit 63 y = 0)"

subsection \<open>Names and printed values\<close>

fun getTypeName :: "cval \<Rightarrow> gostr" where
  "getTypeName (VString _) = lit ''string''"
| "getTypeName (VInt _) = lit ''int''"
| "getTypeName (VInt64 _) = lit ''int64''"
| "getTypeName (VFloat _) = lit ''float64''"
| "getTypeName (VBool _) = lit ''bool''"
| "getTypeName (VSlice _) = lit ''[]string''"
| "getTypeName (VMap _) = lit ''map[string]any''"
| "getTypeName (VDuration _) = lit ''time.Duration''"

fun getStringValue :: "golib \<Rightarrow> cval \<Rightarrow> gostr" where
  "getStringValue L (VString s) = s"
| "getStringValue L (VInt i) = int_str (sint i)"
| "getStringValue L (VInt64 i) = int_str (sint i)"
| "getStringValue L (VFloat f) = FormatFloat L f"
| "getStringValue L (VBool b) = (if b then lit ''true'' else lit ''false'')"
| "getStringValue L (VSlice s) = Join s (lit '','')"
| "getStringValue L (VMap m) = FormatMap L m"
| "getStringValue L (VDuration d) = FormatDuration L d"

definition getMapKey :: "golib \<Rightarrow> cval \<Rightarrow> gostr list \<Rightarrow> gostr \<times> gostr" where
  "getMapKey L dv keys = (getTypeName dv @ lit '':'' @ Join keys (lit '',''), getStringValue L dv)"

text \<open>The type part of a map key determines the type: a key never mixes two types.\<close>

lemma getTypeName_no_colon: "58 \<notin> set (getTypeName v)"
  by (cases v) (auto simp: lit_def)

lemma getTypeName_inj: "getTypeName v = getTypeName w \<longleftrightarrow> typ_of v = typ_of w"
  by (cases v; cases w) (simp_all add: lit_def)

lemma split_at_colon:
  assumes "xs @ 58 # ys = us @ 58 # vs" "(58 :: nat) \<notin> set xs" "58 \<notin> set us"
  shows "xs = us"
proof -
  have "takeWhile (\<lambda>r. r \<noteq> 58) (xs @ 58 # ys) = xs" "takeWhile (\<lambda>r. r \<noteq> 58) (us @ 58 # vs) = us"
    using assms(2,3) by (auto simp: takeWhile_append takeWhile_eq_all_conv)
  then show ?thesis using assms(1) by metis
qed

lemma getMapKey_typ:
  assumes "fst (getMapKey L v ks) = fst (getMapKey L w ks')"
  shows "typ_of v = typ_of w"
proof -
  have "getTypeName v @ 58 # Join ks (lit '','') = getTypeName w @ 58 # Join ks' (lit '','')"
    using assms by (simp add: getMapKey_def lit_def)
  then have "getTypeName v = getTypeName w" by (rule split_at_colon) (rule getTypeName_no_colon)+
  then show ?thesis by (simp add: getTypeName_inj)
qed

subsection \<open>Comparisons\<close>

text \<open>
  \<open>reflect.DeepEqual\<close> on settings. A map is listed in the order of its keys, so two maps are
  compared pair by pair.
\<close>

fun DeepEqual :: "any \<Rightarrow> any \<Rightarrow> bool" where
  "DeepEqual ANil ANil = True"
| "DeepEqual (AStr s) (AStr t) = (s = t)"
| "DeepEqual (ABool s) (ABool t) = (s = t)"
| "DeepEqual (AInt s) (AInt t) = (s = t)"
| "DeepEqual (AFloat s) (AFloat t) = feq s t"
| "DeepEqual (ASlice s) (ASlice t) = list_all2 DeepEqual s t"
| "DeepEqual (AMap s) (AMap t) = list_all2 (\<lambda>p q. fst p = fst q \<and> DeepEqual (snd p) (snd q)) s t"
| "DeepEqual (AAnyMap s) (AAnyMap t) = list_all2 (\<lambda>p q. DeepEqual (fst p) (fst q) \<and> DeepEqual (snd p) (snd q)) s t"
| "DeepEqual _ _ = False"

definition mapDeepEqual :: "smap \<Rightarrow> smap \<Rightarrow> bool" where
  "mapDeepEqual a b \<longleftrightarrow> length a = length b
     \<and> (\<forall>(k, v) \<in> set a. case map_of b k of None \<Rightarrow> False | Some w \<Rightarrow> DeepEqual v w)"

text \<open>The comparison that \<open>checkConfigForChanges\<close> uses for each type.\<close>

fun same_val :: "cval \<Rightarrow> cval \<Rightarrow> bool" where
  "same_val (VFloat x) (VFloat y) = feq x y"
| "same_val (VMap a) (VMap b) = mapDeepEqual a b"
| "same_val x y = (x = y)"

subsection \<open>Reloadable values\<close>

definition swapIfNotEqual :: "cval \<Rightarrow> (cval \<Rightarrow> cval \<Rightarrow> bool) \<Rightarrow> cval \<Rightarrow> (cval \<times> bool) \<times> cval" where
  "swapIfNotEqual new cmp value = (if \<not> cmp value new then ((value, True), new) else ((value, False), value))"

text \<open>\<open>SingleValueLoader\<close> and \<open>MockValueLoader\<close>.\<close>

datatype 'a loader = Single 'a | Mock 'a

fun Load :: "'a loader \<Rightarrow> 'a" where
  "Load (Single v) = v"
| "Load (Mock v) = v"

fun MockSet :: "'a \<Rightarrow> 'a loader \<Rightarrow> 'a loader" where
  "MockSet v (Mock _) = Mock v"
| "MockSet v l = l"

subsection \<open>The environment variable of a key\<close>

definition isUpperCaseConfigKey :: "gostr \<Rightarrow> bool" where
  "isUpperCaseConfigKey s \<longleftrightarrow> (\<forall>ch \<in> set s. ch = 95 \<or> is_upper ch \<or> is_digit ch)"

text \<open>
  The loop over the runes; \<open>prev\<close> is the rune before, whose last byte is \<open>s[i-1]\<close> (a rune
  outside ASCII ends in a byte that is neither letter nor digit).
\<close>

fun env_loop :: "rune option \<Rightarrow> gostr \<Rightarrow> gostr" where
  "env_loop prev [] = []"
| "env_loop prev (r # rs) =
     (if is_upper r \<and> (case prev of None \<Rightarrow> False | Some p \<Rightarrow> is_lower p \<or> is_digit p)
      then 95 # to_upper r # env_loop (Some r) rs
      else if r = 46 then 95 # env_loop (Some r) rs
      else (if is_letter r then to_upper r else r) # env_loop (Some r) rs)"

definition ConfigKeyToEnv :: "gostr \<Rightarrow> gostr \<Rightarrow> gostr" where
  "ConfigKeyToEnv envPrefix s =
     (if isUpperCaseConfigKey s then s else envPrefix @ 95 # env_loop None s)"

lemma env_loop_upper:
  "\<forall>r \<in> set s. is_letter r \<or> is_digit r \<or> r = 46 \<or> r = 95 \<Longrightarrow> isUpperCaseConfigKey (env_loop p s)"
  by (induction p s rule: env_loop.induct)
    (auto simp: isUpperCaseConfigKey_def is_letter_def is_upper_def is_lower_def is_digit_def to_upper_def)

text \<open>The environment variable of a configuration key is a fixed point: for keys made of ASCII
  letters, digits, dots and underscores, and an upper-case prefix, the variable's name is
  itself an upper-case key, so mapping it again changes nothing.\<close>

lemma ConfigKeyToEnv_idem:
  assumes "\<forall>r \<in> set s. is_letter r \<or> is_digit r \<or> r = 46 \<or> r = 95" "isUpperCaseConfigKey envPrefix"
  shows "isUpperCaseConfigKey (ConfigKeyToEnv envPrefix s)
    \<and> ConfigKeyToEnv p (ConfigKeyToEnv envPrefix s) = ConfigKeyToEnv envPrefix s"
  using env_loop_upper[OF assms(1), of None] assms(2)
  by (auto simp: ConfigKeyToEnv_def isUpperCaseConfigKey_def)

lemma ConfigKeyToEnv_idem_witness:
  "ConfigKeyToEnv (lit ''RSERVER'') (lit ''JobsDB.maxConn2'') = lit ''RSERVER_JOBS_DB_MAX_CONN2''
    \<and> isUpperCaseConfigKey (ConfigKeyToEnv (lit ''RSERVER'') (lit ''JobsDB.maxConn2''))"
  using ConfigKeyToEnv_idem[of "lit ''JobsDB.maxConn2''" "lit ''RSERVER''"]
  by (simp add: ConfigKeyToEnv_def isUpperCaseConfigKey_def lit_def is_letter_def is_upper_def is_lower_def
      is_digit_def to_upper_def)

subsection \<open>Observers\<close>

text \<open>
  An observer is a pointer to some object, or one of the two function types. Comparing two
  values of one function type with \<open>==\<close> panics (\<open>None\<close>); values of different types differ.
\<close>

datatype observer = ObsPtr nat | ReloadableConfigChangesFunc nat | NonReloadableConfigChangesFunc nat

datatype event = Reloaded gostr cval cval | NonReloaded gostr

fun obs_eq :: "observer \<Rightarrow> observer \<Rightarrow> bool option" where
  "obs_eq (ObsPtr a) (ObsPtr b) = Some (a = b)"
| "obs_eq (ReloadableConfigChangesFunc _) (ReloadableConfigChangesFunc _) = None"
| "obs_eq (NonReloadableConfigChangesFunc _) (NonReloadableConfigChangesFunc _) = None"
| "obs_eq _ _ = Some False"

definition Register :: "observer \<Rightarrow> observer list \<Rightarrow> observer list" where
  "Register ob n = n @ [ob]"

text \<open>The scan of \<open>Unregister\<close> from index \<open>i\<close>: replace by the last element and truncate.\<close>

function Unregister_from :: "nat \<Rightarrow> observer \<Rightarrow> observer list \<Rightarrow> observer list option" where
  "Unregister_from i ob n =
     (if i < length n
      then (case obs_eq (n ! i) ob of
              None \<Rightarrow> None
            | Some True \<Rightarrow> Some (butlast (n[i := last n]))
            | Some False \<Rightarrow> Unregister_from (i + 1) ob n)
      else Some n)"
  by pat_completeness auto
termination by (relation "measure (\<lambda>(i, ob, n). length n - i)") auto

declare Unregister_from.simps [simp del]

definition Unregister :: "observer \<Rightarrow> observer list \<Rightarrow> observer list option" where
  "Unregister ob n = Unregister_from 0 ob n"

text \<open>What one observer is told of an event: the function types ignore the other kind.\<close>

fun deliver :: "event \<Rightarrow> observer \<Rightarrow> (observer \<times> event) list" where
  "deliver (Reloaded k x y) (NonReloadableConfigChangesFunc f) = []"
| "deliver (NonReloaded k) (ReloadableConfigChangesFunc f) = []"
| "deliver e ob = [(ob, e)]"

definition notify :: "event \<Rightarrow> observer list \<Rightarrow> (observer \<times> event) list" where
  "notify e n = concat (map (deliver e) n)"

lemma Unregister_from_ptr:
  "Unregister_from i (ObsPtr a) n = Some n' \<Longrightarrow>
     mset n' = mset n - (if ObsPtr a \<in> set (drop i n) then {#ObsPtr a#} else {#})"
proof (induction i "ObsPtr a" n rule: Unregister_from.induct)
  case (1 i n)
  show ?case
  proof (cases "i < length n")
    case False
    then show ?thesis using "1.prems" by (simp add: Unregister_from.simps)
  next
    case True
    have d: "drop i n = n ! i # drop (i + 1) n" using True by (simp add: Cons_nth_drop_Suc)
    show ?thesis
    proof (cases "n ! i = ObsPtr a")
      case eq: True
      then have "n' = butlast (n[i := last n])"
        using "1.prems" True by (simp add: Unregister_from.simps[of i])
      moreover have "mset (butlast (n[i := last n])) = mset n - {#ObsPtr a#}"
      proof -
        have ne: "n \<noteq> []" using True by auto
        have "n[i := last n] \<noteq> []" "last (n[i := last n]) = last n"
          using ne True by (auto simp: last_list_update)
        then have "add_mset (last n) (mset (butlast (n[i := last n]))) = mset (n[i := last n])"
          by (metis append_butlast_last_id mset.simps(2) mset.simps(1) mset_append union_mset_add_mset_right add.right_neutral)
        moreover have "mset (n[i := last n]) = add_mset (last n) (mset n - {#ObsPtr a#})"
          using True eq by (simp add: mset_update)
        ultimately show ?thesis by simp
      qed
      ultimately show ?thesis using d eq by simp
    next
      case ne: False
      then have "obs_eq (n ! i) (ObsPtr a) = Some False" by (cases "n ! i") auto
      then have "Unregister_from (i + 1) (ObsPtr a) n = Some n'" 
        using "1.prems" True by (simp add: Unregister_from.simps[of i])
      then show ?thesis using "1.hyps" True ne \<open>obs_eq (n ! i) (ObsPtr a) = Some False\<close> d by simp
    qed
  qed
qed

lemma Unregister_from_ptr_total: "\<exists>n'. Unregister_from i (ObsPtr a) n = Some n'"
proof (induction i "ObsPtr a" n rule: Unregister_from.induct)
  case (1 i n)
  then show ?case by (cases "n ! i") (auto simp: Unregister_from.simps[of i] split: bool.split)
qed

text \<open>Unregistering a pointer observer never panics and removes exactly one registration of it
  (none when it is not registered), whatever order the others end up in.\<close>

lemma Unregister_removes_one:
  "\<exists>n'. Unregister (ObsPtr a) n = Some n' \<and> mset n' = mset n - {#ObsPtr a#}"
proof -
  obtain n' where "Unregister_from 0 (ObsPtr a) n = Some n'" using Unregister_from_ptr_total by blast
  then show ?thesis using Unregister_from_ptr[of 0 a n n']
    by (auto simp: Unregister_def diff_single_trivial)
qed

text \<open>A registered function can never be unregistered: the comparison with itself panics.\<close>

lemma Unregister_func_panics:
  "Unregister (ReloadableConfigChangesFunc f) [ObsPtr 0, ReloadableConfigChangesFunc f] = None"
  by (simp add: Unregister_def Unregister_from.simps)

end
