(* ===== verification/Config.thy ===== *)
theory Config
  imports Config_Types "HOL-Library.AList"
begin

text \<open>
  The configuration registry of the \<open>config\<close> package: \<open>config.go\<close>, \<open>config_changedetect.go\<close>
  and the getters of the eight types. viper is a parameter (\<open>v_find\<close> is \<open>v.Get\<close> under an
  environment key replacer, \<open>v_all\<close> is \<open>v.AllSettings\<close>); setting a key or a change of the
  configuration file replaces it. Reloadable values live in the store \<open>rel\<close> and are named by
  address. The calls of observers are the list \<open>calls\<close>. An operation that panics returns \<open>None\<close>.

  Go iterates over a map in an arbitrary order: the order in which \<open>checkConfigForChanges\<close>
  visits the registered keys is an argument.
\<close>

record viper =
  v_find :: "(gostr \<Rightarrow> gostr) \<Rightarrow> gostr \<Rightarrow> any option"
  v_all :: "(gostr \<Rightarrow> gostr) \<Rightarrow> smap"

datatype cfgval = Plain cval | PtrTo nat

record configValue =
  cv_value :: "cfgval option"
  multiplier :: "cval option"
  defaultValue :: cval
  keys :: "gostr list"

record config =
  v :: viper
  hotReloadableConfig :: "gostr \<Rightarrow> configValue option"
  hotReloadableVars :: "gostr \<Rightarrow> nat option"
  hotReloadableVarsDefaults :: "gostr \<Rightarrow> gostr option"
  enableNonReloadableAdvancedDetection :: bool
  nonReloadableConfig :: "gostr \<Rightarrow> configValue option"
  nonReloadableKeys :: "gostr \<Rightarrow> gostr option"
  currentSettings :: smap
  envs :: "gostr \<Rightarrow> gostr option"
  envPrefix :: gostr
  observers :: "observer list"
  rel :: "nat \<Rightarrow> cval"
  nextp :: nat
  calls :: "(observer \<times> event) list"

definition notify_obs :: "event \<Rightarrow> config \<Rightarrow> config" where
  "notify_obs e c = c\<lparr>calls := calls c @ notify e (observers c)\<rparr>"

definition RegisterObserver :: "observer \<Rightarrow> config \<Rightarrow> config" where
  "RegisterObserver ob c = c\<lparr>observers := Register ob (observers c)\<rparr>"

definition UnregisterObserver :: "observer \<Rightarrow> config \<Rightarrow> config option" where
  "UnregisterObserver ob c = map_option (\<lambda>n. c\<lparr>observers := n\<rparr>) (Unregister ob (observers c))"

subsection \<open>Environment binding\<close>

definition bindEnv :: "gostr \<Rightarrow> config \<Rightarrow> config" where
  "bindEnv key c =
     (let envVar = ConfigKeyToEnv (envPrefix c) key
      in if envs c key = None then c\<lparr>envs := (envs c)(ToUpper key \<mapsto> envVar)\<rparr> else c)"

definition Replace :: "config \<Rightarrow> gostr \<Rightarrow> gostr" where
  "Replace c s = (case envs c s of Some x \<Rightarrow> x | None \<Rightarrow> s)"

definition vget :: "config \<Rightarrow> gostr \<Rightarrow> any option" where
  "vget c key = v_find (v c) (Replace c) key"

definition isSetInternal :: "gostr \<Rightarrow> config \<Rightarrow> bool \<times> config" where
  "isSetInternal key c = (let c1 = bindEnv key c in (vget c1 key \<noteq> None, c1))"

definition IsSet :: "gostr \<Rightarrow> config \<Rightarrow> bool \<times> config" where
  "IsSet key c = isSetInternal key c"

subsection \<open>Reading one key\<close>

definition getIntInternal :: "golib \<Rightarrow> gostr \<Rightarrow> 64 word \<Rightarrow> config \<Rightarrow> 64 word \<times> config" where
  "getIntInternal L key dv c =
     (case isSetInternal key c of (b, c1) \<Rightarrow> (if \<not> b then dv else ToInt L (vget c1 key), c1))"

definition getInt64Internal :: "golib \<Rightarrow> gostr \<Rightarrow> 64 word \<Rightarrow> config \<Rightarrow> 64 word \<times> config" where
  "getInt64Internal L key dv c =
     (case isSetInternal key c of (b, c1) \<Rightarrow> (if \<not> b then dv else ToInt64 L (vget c1 key), c1))"

definition getStringInternal :: "golib \<Rightarrow> gostr \<Rightarrow> gostr \<Rightarrow> config \<Rightarrow> gostr \<times> config" where
  "getStringInternal L key dv c =
     (case isSetInternal key c of (b, c1) \<Rightarrow> (if \<not> b then dv else ToStr L (vget c1 key), c1))"

definition getBoolInternal :: "golib \<Rightarrow> gostr \<Rightarrow> bool \<Rightarrow> config \<Rightarrow> bool \<times> config" where
  "getBoolInternal L key dv c =
     (case isSetInternal key c of (b, c1) \<Rightarrow> (if \<not> b then dv else ToBool L (vget c1 key), c1))"

definition getFloat64Internal :: "golib \<Rightarrow> gostr \<Rightarrow> u64 \<Rightarrow> config \<Rightarrow> u64 \<times> config" where
  "getFloat64Internal L key dv c =
     (case isSetInternal key c of (b, c1) \<Rightarrow> (if \<not> b then dv else ToFloat64 L (vget c1 key), c1))"

definition getStringSliceInternal :: "golib \<Rightarrow> gostr \<Rightarrow> gostr list \<Rightarrow> config \<Rightarrow> gostr list \<times> config" where
  "getStringSliceInternal L key dv c =
     (case isSetInternal key c of (b, c1) \<Rightarrow> (if \<not> b then dv else ToStringSlice L (vget c1 key), c1))"

definition getStringMapInternal :: "golib \<Rightarrow> gostr \<Rightarrow> smap \<Rightarrow> config \<Rightarrow> smap \<times> config" where
  "getStringMapInternal L key dv c =
     (case isSetInternal key c of (b, c1) \<Rightarrow> (if \<not> b then dv else ToStringMap L (vget c1 key), c1))"

text \<open>A duration is a Go duration literal, or a number in units of the time scale.\<close>

definition getDurationInternal ::
  "golib \<Rightarrow> gostr \<Rightarrow> 64 word \<Rightarrow> 64 word \<Rightarrow> config \<Rightarrow> 64 word \<times> config" where
  "getDurationInternal L key dv timeScale c =
     (case isSetInternal key c of (b, c1) \<Rightarrow>
        (if \<not> b then dv * timeScale
         else let x = ToStr L (vget c1 key)
              in case ParseDuration L x of
                   Some d \<Rightarrow> d
                 | None \<Rightarrow> if ParseFloat_ok L x then ToDuration L (vget c1 key) * timeScale
                           else dv * timeScale, c1))"

definition MustGetInt :: "golib \<Rightarrow> gostr \<Rightarrow> config \<Rightarrow> 64 word option \<times> config" where
  "MustGetInt L key c =
     (case isSetInternal key c of (b, c1) \<Rightarrow> (if \<not> b then None else Some (ToInt L (vget c1 key)), c1))"

definition MustGetString :: "golib \<Rightarrow> gostr \<Rightarrow> config \<Rightarrow> gostr option \<times> config" where
  "MustGetString L key c =
     (case isSetInternal key c of (b, c1) \<Rightarrow> (if \<not> b then None else Some (ToStr L (vget c1 key)), c1))"

subsection \<open>Reading the first of several keys\<close>

text \<open>The loop that all \<open>store...Var\<close> functions and the change detection share.\<close>

fun first_set :: "(gostr \<Rightarrow> config \<Rightarrow> 'a \<times> config) \<Rightarrow> 'a \<Rightarrow> gostr list \<Rightarrow> config \<Rightarrow> 'a \<times> config" where
  "first_set get dv [] c = (dv, c)"
| "first_set get dv (k # ks) c =
     (case IsSet k c of (b, c1) \<Rightarrow> if b then get k c1 else first_set get dv ks c1)"

definition storeIntVar :: "golib \<Rightarrow> 64 word \<Rightarrow> 64 word \<Rightarrow> gostr list \<Rightarrow> config \<Rightarrow> 64 word \<times> config" where
  "storeIntVar L dv scale ks =
     first_set (\<lambda>k c. case getIntInternal L k dv c of (x, c1) \<Rightarrow> (x * scale, c1)) (dv * scale) ks"

definition storeInt64Var :: "golib \<Rightarrow> 64 word \<Rightarrow> 64 word \<Rightarrow> gostr list \<Rightarrow> config \<Rightarrow> 64 word \<times> config" where
  "storeInt64Var L dv scale ks =
     first_set (\<lambda>k c. case getInt64Internal L k dv c of (x, c1) \<Rightarrow> (x * scale, c1)) (dv * scale) ks"

definition storeStringVar :: "golib \<Rightarrow> gostr \<Rightarrow> gostr list \<Rightarrow> config \<Rightarrow> gostr \<times> config" where
  "storeStringVar L dv ks = first_set (\<lambda>k. getStringInternal L k dv) dv ks"

definition storeBoolVar :: "golib \<Rightarrow> bool \<Rightarrow> gostr list \<Rightarrow> config \<Rightarrow> bool \<times> config" where
  "storeBoolVar L dv ks = first_set (\<lambda>k. getBoolInternal L k dv) dv ks"

definition storeFloat64Var :: "golib \<Rightarrow> u64 \<Rightarrow> gostr list \<Rightarrow> config \<Rightarrow> u64 \<times> config" where
  "storeFloat64Var L dv ks = first_set (\<lambda>k. getFloat64Internal L k dv) dv ks"

definition storeStringSliceVar :: "golib \<Rightarrow> gostr list \<Rightarrow> gostr list \<Rightarrow> config \<Rightarrow> gostr list \<times> config" where
  "storeStringSliceVar L dv ks = first_set (\<lambda>k. getStringSliceInternal L k dv) dv ks"

definition storeStringMapVar :: "golib \<Rightarrow> smap \<Rightarrow> gostr list \<Rightarrow> config \<Rightarrow> smap \<times> config" where
  "storeStringMapVar L dv ks = first_set (\<lambda>k. getStringMapInternal L k dv) dv ks"

definition storeDurationVar :: "golib \<Rightarrow> 64 word \<Rightarrow> 64 word \<Rightarrow> gostr list \<Rightarrow> config \<Rightarrow> 64 word \<times> config" where
  "storeDurationVar L dv scale ks = first_set (\<lambda>k. getDurationInternal L k dv scale) (dv * scale) ks"

subsection \<open>Non-reloadable variables\<close>

definition registerNonReloadableConfigKeys :: "golib \<Rightarrow> cval \<Rightarrow> configValue \<Rightarrow> config \<Rightarrow> config" where
  "registerNonReloadableConfigKeys L dv cv c =
     (if \<not> enableNonReloadableAdvancedDetection c
      then fold (\<lambda>key c. c\<lparr>nonReloadableKeys := (nonReloadableKeys c)(ToLower key \<mapsto> key)\<rparr>) (keys cv) c
      else (case getMapKey L dv (keys cv) of (key, dvKey) \<Rightarrow>
             let k = key @ lit '':'' @ dvKey
             in if nonReloadableConfig c k = None
                then c\<lparr>nonReloadableConfig := (nonReloadableConfig c)(k \<mapsto> cv)\<rparr> else c))"

definition GetIntVar :: "golib \<Rightarrow> 64 word \<Rightarrow> 64 word \<Rightarrow> gostr list \<Rightarrow> config \<Rightarrow> 64 word \<times> config" where
  "GetIntVar L dv scale ks c =
     (case storeIntVar L dv scale ks c of (x, c1) \<Rightarrow>
        (x, registerNonReloadableConfigKeys L (VInt (dv * scale))
              \<lparr>cv_value = Some (Plain (VInt x)), multiplier = Some (VInt scale), defaultValue = VInt dv, keys = ks\<rparr> c1))"

definition GetInt64Var :: "golib \<Rightarrow> 64 word \<Rightarrow> 64 word \<Rightarrow> gostr list \<Rightarrow> config \<Rightarrow> 64 word \<times> config" where
  "GetInt64Var L dv scale ks c =
     (case storeInt64Var L dv scale ks c of (x, c1) \<Rightarrow>
        (x, registerNonReloadableConfigKeys L (VInt64 (dv * scale))
              \<lparr>cv_value = Some (Plain (VInt64 x)), multiplier = Some (VInt64 scale), defaultValue = VInt64 dv, keys = ks\<rparr> c1))"

definition GetStringVar :: "golib \<Rightarrow> gostr \<Rightarrow> gostr list \<Rightarrow> config \<Rightarrow> gostr \<times> config" where
  "GetStringVar L dv ks c =
     (case storeStringVar L dv ks c of (x, c1) \<Rightarrow>
        (x, registerNonReloadableConfigKeys L (VString dv)
              \<lparr>cv_value = Some (Plain (VString x)), multiplier = None, defaultValue = VString dv, keys = ks\<rparr> c1))"

definition GetBoolVar :: "golib \<Rightarrow> bool \<Rightarrow> gostr list \<Rightarrow> config \<Rightarrow> bool \<times> config" where
  "GetBoolVar L dv ks c =
     (case storeBoolVar L dv ks c of (x, c1) \<Rightarrow>
        (x, registerNonReloadableConfigKeys L (VBool dv)
              \<lparr>cv_value = Some (Plain (VBool x)), multiplier = None, defaultValue = VBool dv, keys = ks\<rparr> c1))"

definition GetFloat64Var :: "golib \<Rightarrow> u64 \<Rightarrow> gostr list \<Rightarrow> config \<Rightarrow> u64 \<times> config" where
  "GetFloat64Var L dv ks c =
     (case storeFloat64Var L dv ks c of (x, c1) \<Rightarrow>
        (x, registerNonReloadableConfigKeys L (VFloat dv)
              \<lparr>cv_value = Some (Plain (VFloat x)), multiplier = Some (VFloat float_one), defaultValue = VFloat dv, keys = ks\<rparr> c1))"

definition GetStringSliceVar :: "golib \<Rightarrow> gostr list \<Rightarrow> gostr list \<Rightarrow> config \<Rightarrow> gostr list \<times> config" where
  "GetStringSliceVar L dv ks c =
     (case storeStringSliceVar L dv ks c of (x, c1) \<Rightarrow>
        (x, registerNonReloadableConfigKeys L (VSlice dv)
              \<lparr>cv_value = Some (Plain (VSlice x)), multiplier = None, defaultValue = VSlice dv, keys = ks\<rparr> c1))"

definition GetStringMapVar :: "golib \<Rightarrow> smap \<Rightarrow> gostr list \<Rightarrow> config \<Rightarrow> smap \<times> config" where
  "GetStringMapVar L dv ks c =
     (case storeStringMapVar L dv ks c of (x, c1) \<Rightarrow>
        (x, registerNonReloadableConfigKeys L (VMap dv)
              \<lparr>cv_value = Some (Plain (VMap x)), multiplier = None, defaultValue = VMap dv, keys = ks\<rparr> c1))"

definition GetDurationVar :: "golib \<Rightarrow> 64 word \<Rightarrow> 64 word \<Rightarrow> gostr list \<Rightarrow> config \<Rightarrow> 64 word \<times> config" where
  "GetDurationVar L dv scale ks c =
     (case storeDurationVar L dv scale ks c of (x, c1) \<Rightarrow>
        (x, registerNonReloadableConfigKeys L (VDuration (dv * scale))
              \<lparr>cv_value = Some (Plain (VDuration x)), multiplier = Some (VDuration scale), defaultValue = VInt64 dv, keys = ks\<rparr> c1))"

definition GetWorkspaceToken :: "golib \<Rightarrow> config \<Rightarrow> gostr \<times> config" where
  "GetWorkspaceToken L c =
     (case GetStringVar L [] [lit ''WORKSPACE_TOKEN''] c of (token, c1) \<Rightarrow>
        if token \<noteq> [] \<and> token \<noteq> lit ''<your_token_here>'' then (token, c1)
        else GetStringVar L [] [lit ''CONFIG_BACKEND_TOKEN''] c1)"

definition GetNamespaceIdentifier :: "gostr \<Rightarrow> gostr" where
  "GetNamespaceIdentifier k8sNamespace = (if k8sNamespace \<noteq> [] then k8sNamespace else lit ''none'')"

subsection \<open>Reloadable variables\<close>

text \<open>The result is \<open>None\<close> for the panic of the deferred check (or of the type assertion).\<close>

definition getOrCreatePointer ::
  "golib \<Rightarrow> cval \<Rightarrow> configValue \<Rightarrow> gostr list \<Rightarrow> config \<Rightarrow> (nat \<times> bool) option \<times> config" where
  "getOrCreatePointer L dv cv ks c =
     (case getMapKey L dv ks of (key, d) \<Rightarrow>
      (case (case hotReloadableVars c key of
               Some p \<Rightarrow> (if typ_of (rel c p) = typ_of dv then Some (p, True) else None, c)
             | None \<Rightarrow>
                 (let p = nextp c in
                  (Some (p, False),
                   c\<lparr>nextp := nextp c + 1, rel := (rel c)(p := zero_of (typ_of dv)),
                     hotReloadableVars := (hotReloadableVars c)(key \<mapsto> p),
                     hotReloadableConfig := (hotReloadableConfig c)(key \<mapsto> cv\<lparr>cv_value := Some (PtrTo p)\<rparr>)\<rparr>)))
       of (r, c1) \<Rightarrow>
         let c2 = (if hotReloadableVarsDefaults c1 key = None
                   then c1\<lparr>hotReloadableVarsDefaults := (hotReloadableVarsDefaults c1)(key \<mapsto> d)\<rparr> else c1)
         in if hotReloadableVarsDefaults c2 key \<noteq> Some d then (None, c2) else (r, c2)))"

text \<open>What the \<open>GetReloadable...Var\<close> functions share; \<open>store\<close> is their \<open>store...Var\<close>.\<close>

definition reloadable ::
  "golib \<Rightarrow> cval \<Rightarrow> configValue \<Rightarrow> (config \<Rightarrow> cval \<times> config) \<Rightarrow> config \<Rightarrow> nat option \<times> config" where
  "reloadable L dv cv store c =
     (case getOrCreatePointer L dv cv (keys cv) c of
        (None, c1) \<Rightarrow> (None, c1)
      | (Some (p, exists), c1) \<Rightarrow>
          if exists then (Some p, c1)
          else (case store c1 of (x, c2) \<Rightarrow> (Some p, c2\<lparr>rel := (rel c2)(p := x)\<rparr>)))"

definition GetReloadableIntVar :: "golib \<Rightarrow> 64 word \<Rightarrow> 64 word \<Rightarrow> gostr list \<Rightarrow> config \<Rightarrow> nat option \<times> config" where
  "GetReloadableIntVar L dv scale ks =
     reloadable L (VInt (dv * scale)) \<lparr>cv_value = None, multiplier = Some (VInt scale), defaultValue = VInt dv, keys = ks\<rparr>
       (\<lambda>c. apfst VInt (storeIntVar L dv scale ks c))"

definition GetReloadableInt64Var :: "golib \<Rightarrow> 64 word \<Rightarrow> 64 word \<Rightarrow> gostr list \<Rightarrow> config \<Rightarrow> nat option \<times> config" where
  "GetReloadableInt64Var L dv scale ks =
     reloadable L (VInt64 (dv * scale)) \<lparr>cv_value = None, multiplier = Some (VInt64 scale), defaultValue = VInt64 dv, keys = ks\<rparr>
       (\<lambda>c. apfst VInt64 (storeInt64Var L dv scale ks c))"

definition GetReloadableStringVar :: "golib \<Rightarrow> gostr \<Rightarrow> gostr list \<Rightarrow> config \<Rightarrow> nat option \<times> config" where
  "GetReloadableStringVar L dv ks =
     reloadable L (VString dv) \<lparr>cv_value = None, multiplier = None, defaultValue = VString dv, keys = ks\<rparr>
       (\<lambda>c. apfst VString (storeStringVar L dv ks c))"

definition GetReloadableBoolVar :: "golib \<Rightarrow> bool \<Rightarrow> gostr list \<Rightarrow> config \<Rightarrow> nat option \<times> config" where
  "GetReloadableBoolVar L dv ks =
     reloadable L (VBool dv) \<lparr>cv_value = None, multiplier = None, defaultValue = VBool dv, keys = ks\<rparr>
       (\<lambda>c. apfst VBool (storeBoolVar L dv ks c))"

definition GetReloadableFloat64Var :: "golib \<Rightarrow> u64 \<Rightarrow> gostr list \<Rightarrow> config \<Rightarrow> nat option \<times> config" where
  "GetReloadableFloat64Var L dv ks =
     reloadable L (VFloat dv) \<lparr>cv_value = None, multiplier = Some (VFloat float_one), defaultValue = VFloat dv, keys = ks\<rparr>
       (\<lambda>c. apfst VFloat (storeFloat64Var L dv ks c))"

definition GetReloadableStringSliceVar :: "golib \<Rightarrow> gostr list \<Rightarrow> gostr list \<Rightarrow> config \<Rightarrow> nat option \<times> config" where
  "GetReloadableStringSliceVar L dv ks =
     reloadable L (VSlice dv) \<lparr>cv_value = None, multiplier = None, defaultValue = VSlice dv, keys = ks\<rparr>
       (\<lambda>c. apfst VSlice (storeStringSliceVar L dv ks c))"

definition GetReloadableStringMapVar :: "golib \<Rightarrow> smap \<Rightarrow> gostr list \<Rightarrow> config \<Rightarrow> nat option \<times> config" where
  "GetReloadableStringMapVar L dv ks =
     reloadable L (VMap dv) \<lparr>cv_value = None, multiplier = None, defaultValue = VMap dv, keys = ks\<rparr>
       (\<lambda>c. apfst VMap (storeStringMapVar L dv ks c))"

definition GetReloadableDurationVar :: "golib \<Rightarrow> 64 word \<Rightarrow> 64 word \<Rightarrow> gostr list \<Rightarrow> config \<Rightarrow> nat option \<times> config" where
  "GetReloadableDurationVar L dv scale ks =
     reloadable L (VDuration (dv * scale)) \<lparr>cv_value = None, multiplier = Some (VDuration scale), defaultValue = VInt64 dv, keys = ks\<rparr>
       (\<lambda>c. apfst VDuration (storeDurationVar L dv scale ks c))"

subsection \<open>Change detection\<close>

text \<open>The new value of a registered variable of a type; \<open>None\<close> when a type assertion fails.\<close>

fun fresh_value :: "golib \<Rightarrow> ctype \<Rightarrow> configValue \<Rightarrow> config \<Rightarrow> (cval \<times> config) option" where
  "fresh_value L TInt cv c =
     (case (defaultValue cv, multiplier cv) of
        (VInt d, Some (VInt mu)) \<Rightarrow> Some (apfst (\<lambda>x. VInt (x * mu)) (first_set (\<lambda>k. getIntInternal L k d) d (keys cv) c))
      | _ \<Rightarrow> None)"
| "fresh_value L TInt64 cv c =
     (case (defaultValue cv, multiplier cv) of
        (VInt64 d, Some (VInt64 mu)) \<Rightarrow> Some (apfst (\<lambda>x. VInt64 (x * mu)) (first_set (\<lambda>k. getInt64Internal L k d) d (keys cv) c))
      | _ \<Rightarrow> None)"
| "fresh_value L TString cv c =
     (case defaultValue cv of
        VString d \<Rightarrow> Some (apfst VString (first_set (\<lambda>k. getStringInternal L k d) d (keys cv) c))
      | _ \<Rightarrow> None)"
| "fresh_value L TDuration cv c =
     (case (defaultValue cv, multiplier cv) of
        (VInt64 d, Some (VDuration mu)) \<Rightarrow>
          Some (apfst VDuration (first_set (\<lambda>k. getDurationInternal L k d mu) (d * mu) (keys cv) c))
      | _ \<Rightarrow> None)"
| "fresh_value L TBool cv c =
     (case defaultValue cv of
        VBool d \<Rightarrow> Some (apfst VBool (first_set (\<lambda>k. getBoolInternal L k d) d (keys cv) c))
      | _ \<Rightarrow> None)"
| "fresh_value L TFloat cv c =
     (case (defaultValue cv, multiplier cv) of
        (VFloat d, Some (VFloat mu)) \<Rightarrow> Some (apfst (\<lambda>x. VFloat (fmul L x mu)) (first_set (\<lambda>k. getFloat64Internal L k d) d (keys cv) c))
      | _ \<Rightarrow> None)"
| "fresh_value L TSlice cv c =
     (case defaultValue cv of
        VSlice d \<Rightarrow> Some (apfst VSlice (first_set (\<lambda>k. getStringSliceInternal L k d) d (keys cv) c))
      | _ \<Rightarrow> None)"
| "fresh_value L TMap cv c =
     (case defaultValue cv of
        VMap d \<Rightarrow> Some (apfst VMap (first_set (\<lambda>k. getStringMapInternal L k d) d (keys cv) c))
      | _ \<Rightarrow> None)"

definition swapHotReloadableConfig :: "gostr \<Rightarrow> nat \<Rightarrow> cval \<Rightarrow> config \<Rightarrow> config" where
  "swapHotReloadableConfig key p newValue c =
     (case swapIfNotEqual newValue same_val (rel c p) of ((oldValue, swapped), y) \<Rightarrow>
        let c1 = c\<lparr>rel := (rel c)(p := y)\<rparr>
        in if swapped then notify_obs (Reloaded key oldValue newValue) c1 else c1)"

datatype table = Hot | NonHot

fun get_cv :: "table \<Rightarrow> config \<Rightarrow> gostr \<Rightarrow> configValue option" where
  "get_cv Hot c = hotReloadableConfig c"
| "get_cv NonHot c = nonReloadableConfig c"

fun put_cv :: "table \<Rightarrow> gostr \<Rightarrow> configValue \<Rightarrow> config \<Rightarrow> config" where
  "put_cv Hot mk cv c = c\<lparr>hotReloadableConfig := (hotReloadableConfig c)(mk \<mapsto> cv)\<rparr>"
| "put_cv NonHot mk cv c = c\<lparr>nonReloadableConfig := (nonReloadableConfig c)(mk \<mapsto> cv)\<rparr>"

fun cfg_typ :: "config \<Rightarrow> cfgval \<Rightarrow> ctype" where
  "cfg_typ c (Plain x) = typ_of x"
| "cfg_typ c (PtrTo p) = typ_of (rel c p)"

text \<open>One iteration of \<open>checkConfigForChanges\<close>.\<close>

definition check_one :: "golib \<Rightarrow> table \<Rightarrow> gostr \<Rightarrow> configValue \<Rightarrow> config \<Rightarrow> config option" where
  "check_one L t mk cv c =
     (let key = Join (keys cv) (lit '','') in
      case cv_value cv of
        None \<Rightarrow> Some c
      | Some w \<Rightarrow>
          (case fresh_value L (cfg_typ c w) cv c of
             None \<Rightarrow> None
           | Some (x, c1) \<Rightarrow>
               (case w of
                  Plain old \<Rightarrow>
                    if \<not> same_val old x
                    then Some (notify_obs (NonReloaded key) (put_cv t mk (cv\<lparr>cv_value := Some (Plain x)\<rparr>) c1))
                    else Some c1
                | PtrTo p \<Rightarrow> Some (swapHotReloadableConfig key p x c1))))"

text \<open>The result says whether the loop ended without a panic.\<close>

fun checkConfigForChanges :: "golib \<Rightarrow> table \<Rightarrow> gostr list \<Rightarrow> config \<Rightarrow> bool \<times> config" where
  "checkConfigForChanges L t [] c = (True, c)"
| "checkConfigForChanges L t (mk # ord) c =
     (case get_cv t c mk of
        None \<Rightarrow> checkConfigForChanges L t ord c
      | Some cv \<Rightarrow> (case check_one L t mk cv c of
                      None \<Rightarrow> (False, c)
                    | Some c1 \<Rightarrow> checkConfigForChanges L t ord c1))"

text \<open>
  The settings flattened: nested maps become dotted lower-case keys. A map with keys of any
  type keeps its string keys.
\<close>

fun string_keys :: "(any \<times> any) list \<Rightarrow> smap" where
  "string_keys [] = []"
| "string_keys ((AStr s, x) # r) = (s, x) # string_keys r"
| "string_keys (_ # r) = string_keys r"

lemma string_keys_size: "size_list (size_prod (\<lambda>_. 0) size) (string_keys xs) \<le> size_list (size_prod size size) xs"
  by (induction xs rule: string_keys.induct) auto

function flattenSettings :: "gostr \<Rightarrow> smap \<Rightarrow> smap \<Rightarrow> smap" where
  "flattenSettings prefix [] flat = flat"
| "flattenSettings prefix ((k, x) # r) flat =
     (let fullKey = (if prefix \<noteq> [] then prefix @ lit ''.'' @ k else k);
          flat1 = (case x of
                     AMap child \<Rightarrow> flattenSettings fullKey child flat
                   | AAnyMap child \<Rightarrow> flattenSettings fullKey (string_keys child) flat
                   | _ \<Rightarrow> AList.update (ToLower fullKey) x flat)
      in flattenSettings prefix r flat1)"
  by pat_completeness auto
termination
proof (relation "measure (\<lambda>(p, nested, f). size_list (size_prod (\<lambda>_. 0) size) nested)", goal_cases)
  case (3 prefix k x r flat fullKey child)
  then show ?case using string_keys_size[of child] by simp
qed auto

definition getCurrentSettings :: "config \<Rightarrow> smap" where
  "getCurrentSettings c = flattenSettings [] (v_all (v c) (Replace c)) []"

text \<open>Whether a setting that exists before and after has changed.\<close>

definition setting_changed :: "golib \<Rightarrow> any \<Rightarrow> any \<Rightarrow> bool" where
  "setting_changed L oldValue newValue =
     (case (ToStringE L oldValue, ToStringE L newValue) of
        (Some a, Some b) \<Rightarrow> a \<noteq> b
      | _ \<Rightarrow> \<not> DeepEqual oldValue newValue)"

definition changedKeys :: "golib \<Rightarrow> smap \<Rightarrow> smap \<Rightarrow> gostr list" where
  "changedKeys L old new =
     remdups (map fst (filter (\<lambda>(key, newValue). case map_of old key of None \<Rightarrow> True
                                 | Some oldValue \<Rightarrow> setting_changed L oldValue newValue) new)
       @ filter (\<lambda>key. map_of new key = None) (map fst old))"

fun notify_changed :: "gostr list \<Rightarrow> config \<Rightarrow> config" where
  "notify_changed [] c = c"
| "notify_changed (key # ks) c =
     (case nonReloadableKeys c key of
        Some originalKey \<Rightarrow> notify_changed ks (notify_obs (NonReloaded originalKey) c)
      | None \<Rightarrow> notify_changed ks c)"

definition checkAndNotifyNonReloadableConfig :: "golib \<Rightarrow> config \<Rightarrow> config" where
  "checkAndNotifyNonReloadableConfig L c =
     (let newConfig = getCurrentSettings c
      in (notify_changed (changedKeys L (currentSettings c) newConfig) c)\<lparr>currentSettings := newConfig\<rparr>)"

definition onConfigChange :: "golib \<Rightarrow> gostr list \<Rightarrow> gostr list \<Rightarrow> config \<Rightarrow> config" where
  "onConfigChange L ord ord' c =
     (case checkConfigForChanges L Hot ord c of (ok, c1) \<Rightarrow>
        if \<not> ok then c1
        else if \<not> enableNonReloadableAdvancedDetection c1 then checkAndNotifyNonReloadableConfig L c1
        else snd (checkConfigForChanges L NonHot ord' c1))"

definition Set :: "golib \<Rightarrow> (gostr \<Rightarrow> any \<Rightarrow> viper \<Rightarrow> viper) \<Rightarrow> gostr list \<Rightarrow> gostr list \<Rightarrow> gostr \<Rightarrow> any \<Rightarrow> config \<Rightarrow> config" where
  "Set L vset ord ord' key value c = onConfigChange L ord ord' (c\<lparr>v := vset key value (v c)\<rparr>)"

text \<open>
  \<open>New\<close> and \<open>load\<close>: \<open>advanced\<close> is the environment variable CONFIG_ADVANCED_DETECTION, the viper
  is the one that has read the file. The observer registered first is the print observer 0.
\<close>

definition New :: "gostr \<Rightarrow> gostr option \<Rightarrow> viper \<Rightarrow> config" where
  "New prefix advanced vp =
     (let c = \<lparr>v = vp, hotReloadableConfig = Map.empty, hotReloadableVars = Map.empty,
        hotReloadableVarsDefaults = Map.empty,
        enableNonReloadableAdvancedDetection =
          ((case advanced of Some s \<Rightarrow> s | None \<Rightarrow> lit ''false'') = lit ''true''),
        nonReloadableConfig = Map.empty, nonReloadableKeys = Map.empty, currentSettings = [],
        envs = Map.empty, envPrefix = prefix, observers = [ObsPtr 0], rel = (\<lambda>_. VInt 0), nextp = 0, calls = []\<rparr>
      in c\<lparr>currentSettings := getCurrentSettings c\<rparr>)"

subsection \<open>Keys that are bound\<close>

definition bound :: "config \<Rightarrow> gostr \<Rightarrow> bool" where
  "bound c k \<longleftrightarrow> envs c (ToUpper k) = Some (ConfigKeyToEnv (envPrefix c) k)"

lemma bindEnv_bound: "bound c k \<Longrightarrow> bindEnv k c = c"
  by (simp add: bindEnv_def bound_def Let_def fun_upd_idem)

lemma isSet_bound [simp]: "bound c k \<Longrightarrow> isSetInternal k c = (vget c k \<noteq> None, c)"
  by (simp add: isSetInternal_def bindEnv_bound)

lemma first_set_bound:
  "\<forall>k \<in> set ks. bound c k \<Longrightarrow>
   first_set get dv ks c = (case find (\<lambda>k. vget c k \<noteq> None) ks of None \<Rightarrow> (dv, c) | Some k \<Rightarrow> get k c)"
  by (induction ks) (auto simp: IsSet_def)

lemma get_bound [simp]:
  assumes "bound c k"
  shows "getIntInternal L k i c = (if vget c k = None then i else ToInt L (vget c k), c)"
    "getInt64Internal L k i c = (if vget c k = None then i else ToInt64 L (vget c k), c)"
    "getStringInternal L k s c = (if vget c k = None then s else ToStr L (vget c k), c)"
    "getBoolInternal L k b c = (if vget c k = None then b else ToBool L (vget c k), c)"
    "getFloat64Internal L k f c = (if vget c k = None then f else ToFloat64 L (vget c k), c)"
    "getStringSliceInternal L k sl c = (if vget c k = None then sl else ToStringSlice L (vget c k), c)"
    "getStringMapInternal L k mp c = (if vget c k = None then mp else ToStringMap L (vget c k), c)"
    "snd (getDurationInternal L k i j c) = c"
  using assms
  by (auto simp: getIntInternal_def getInt64Internal_def getStringInternal_def getBoolInternal_def
      getFloat64Internal_def getStringSliceInternal_def getStringMapInternal_def getDurationInternal_def)

lemma find_bound:
  "find P ks = Some k \<Longrightarrow> \<forall>k \<in> set ks. bound c k \<Longrightarrow> bound c k"
  by (auto simp: find_Some_iff)

text \<open>
  What a fresh read of a variable of each type gives, through the same \<open>store...Var\<close> function
  that registered it.
\<close>

fun reread :: "golib \<Rightarrow> ctype \<Rightarrow> configValue \<Rightarrow> config \<Rightarrow> cval" where
  "reread L TInt cv c = (case (defaultValue cv, multiplier cv) of
     (VInt d, Some (VInt mu)) \<Rightarrow> VInt (fst (storeIntVar L d mu (keys cv) c)) | _ \<Rightarrow> VInt 0)"
| "reread L TInt64 cv c = (case (defaultValue cv, multiplier cv) of
     (VInt64 d, Some (VInt64 mu)) \<Rightarrow> VInt64 (fst (storeInt64Var L d mu (keys cv) c)) | _ \<Rightarrow> VInt64 0)"
| "reread L TString cv c = (case defaultValue cv of
     VString d \<Rightarrow> VString (fst (storeStringVar L d (keys cv) c)) | _ \<Rightarrow> VString [])"
| "reread L TDuration cv c = (case (defaultValue cv, multiplier cv) of
     (VInt64 d, Some (VDuration mu)) \<Rightarrow> VDuration (fst (storeDurationVar L d mu (keys cv) c)) | _ \<Rightarrow> VDuration 0)"
| "reread L TBool cv c = (case defaultValue cv of
     VBool d \<Rightarrow> VBool (fst (storeBoolVar L d (keys cv) c)) | _ \<Rightarrow> VBool False)"
| "reread L TFloat cv c = (case defaultValue cv of
     VFloat d \<Rightarrow> VFloat (fst (storeFloat64Var L d (keys cv) c)) | _ \<Rightarrow> VFloat 0)"
| "reread L TSlice cv c = (case defaultValue cv of
     VSlice d \<Rightarrow> VSlice (fst (storeStringSliceVar L d (keys cv) c)) | _ \<Rightarrow> VSlice [])"
| "reread L TMap cv c = (case defaultValue cv of
     VMap d \<Rightarrow> VMap (fst (storeStringMapVar L d (keys cv) c)) | _ \<Rightarrow> VMap [])"

text \<open>Default and multiplier have the dynamic types that the registration of a type gives them.\<close>

fun cv_ok :: "ctype \<Rightarrow> configValue \<Rightarrow> bool" where
  "cv_ok TInt cv = (\<exists>d mu. defaultValue cv = VInt d \<and> multiplier cv = Some (VInt mu))"
| "cv_ok TInt64 cv = (\<exists>d mu. defaultValue cv = VInt64 d \<and> multiplier cv = Some (VInt64 mu))"
| "cv_ok TString cv = (\<exists>d. defaultValue cv = VString d)"
| "cv_ok TDuration cv = (\<exists>d mu. defaultValue cv = VInt64 d \<and> multiplier cv = Some (VDuration mu))"
| "cv_ok TBool cv = (\<exists>d. defaultValue cv = VBool d)"
| "cv_ok TFloat cv = (\<exists>d. defaultValue cv = VFloat d \<and> multiplier cv = Some (VFloat float_one))"
| "cv_ok TSlice cv = (\<exists>d. defaultValue cv = VSlice d)"
| "cv_ok TMap cv = (\<exists>d. defaultValue cv = VMap d)"

lemma typ_of_reread [simp]: "typ_of (reread L t cv c) = t"
  by (cases t) (auto split: cval.split option.split)

lemma fresh_value_reread:
  assumes "cv_ok t cv" "\<forall>k \<in> set (keys cv). bound c k" "\<And>x. fmul L x float_one = x"
  shows "fresh_value L t cv c = Some (reread L t cv c, c)"
proof -
  define fk where "fk = find (\<lambda>k. vget c k \<noteq> None) (keys cv)"
  have b: "bound c k" if "fk = Some k" for k
    using find_bound[of "\<lambda>k. vget c k \<noteq> None" "keys cv" k c] assms(2) that by (simp add: fk_def)
  note fs = first_set_bound[OF assms(2), folded fk_def]
  show ?thesis
    using assms(1,3) b
    by (cases t; cases fk)
      (auto simp: fs storeIntVar_def storeInt64Var_def storeStringVar_def storeDurationVar_def storeBoolVar_def
        storeFloat64Var_def storeStringSliceVar_def storeStringMapVar_def prod_eq_iff)
qed

subsection \<open>The invariant\<close>

text \<open>
  Every registered reloadable variable has its own pointer, a configuration value that points to
  it and has its dynamic types, and the printed default it was registered with; the map key
  starts with the name of the type. Non-reloadable values are well typed.
\<close>

definition hot_entry :: "golib \<Rightarrow> config \<Rightarrow> gostr \<Rightarrow> nat \<Rightarrow> bool" where
  "hot_entry L c mk p \<longleftrightarrow> p < nextp c \<and>
     (\<exists>cv dv. hotReloadableConfig c mk = Some cv \<and> cv_value cv = Some (PtrTo p)
        \<and> cv_ok (typ_of (rel c p)) cv \<and> mk = fst (getMapKey L dv (keys cv))
        \<and> typ_of dv = typ_of (rel c p) \<and> hotReloadableVarsDefaults c mk \<noteq> None)"

definition config_wf :: "golib \<Rightarrow> config \<Rightarrow> bool" where
  "config_wf L c \<longleftrightarrow>
     (\<forall>mk p. hotReloadableVars c mk = Some p \<longrightarrow> hot_entry L c mk p)
     \<and> (\<forall>mk. hotReloadableVars c mk = None \<longrightarrow> hotReloadableConfig c mk = None \<and> hotReloadableVarsDefaults c mk = None)
     \<and> (\<forall>mk mk' p. hotReloadableVars c mk = Some p \<longrightarrow> hotReloadableVars c mk' = Some p \<longrightarrow> mk = mk')
     \<and> (\<forall>k cv. nonReloadableConfig c k = Some cv \<longrightarrow> (\<exists>x. cv_value cv = Some (Plain x) \<and> cv_ok (typ_of x) cv))"

lemma config_wfD:
  assumes "config_wf L c"
  shows "hotReloadableVars c mk = Some p \<Longrightarrow> hot_entry L c mk p"
    "hotReloadableVars c mk = None \<Longrightarrow> hotReloadableConfig c mk = None"
    "hotReloadableVars c mk = None \<Longrightarrow> hotReloadableVarsDefaults c mk = None"
    "hotReloadableVars c mk = Some p \<Longrightarrow> hotReloadableVars c mk' = Some p \<Longrightarrow> mk = mk'"
    "nonReloadableConfig c k = Some cv \<Longrightarrow> \<exists>x. cv_value cv = Some (Plain x) \<and> cv_ok (typ_of x) cv"
  using assms unfolding config_wf_def by blast+

text \<open>Everything the invariant looks at.\<close>

definition reg_part :: "config \<Rightarrow> _" where
  "reg_part c = (hotReloadableVars c, hotReloadableConfig c, hotReloadableVarsDefaults c, rel c, nextp c,
     nonReloadableConfig c, enableNonReloadableAdvancedDetection c)"

lemma config_wf_cong: "reg_part c' = reg_part c \<Longrightarrow> config_wf L c' = config_wf L c"
  unfolding reg_part_def config_wf_def hot_entry_def by simp

text \<open>Reading keys only binds environment variables.\<close>

definition envs_only :: "config \<Rightarrow> config \<Rightarrow> bool" where
  "envs_only c c' \<longleftrightarrow> (\<exists>e. c' = c\<lparr>envs := e\<rparr>)"

lemma envs_only_refl [simp]: "envs_only c c"
  by (auto simp: envs_only_def intro: exI[of _ "envs c"])

lemma envs_only_trans: "envs_only a b \<Longrightarrow> envs_only b c \<Longrightarrow> envs_only a c"
  by (auto simp: envs_only_def)

lemma envs_only_reg: "envs_only c c' \<Longrightarrow> reg_part c' = reg_part c"
  by (auto simp: envs_only_def reg_part_def)

lemma isSet_envs_only: "envs_only c (snd (isSetInternal k c))"
  by (auto simp: isSetInternal_def bindEnv_def Let_def envs_only_def intro: exI[of _ "envs c"])

lemma get_envs_only [simp]:
  "envs_only c (snd (getIntInternal L k i c))" "envs_only c (snd (getInt64Internal L k i c))"
  "envs_only c (snd (getStringInternal L k s c))" "envs_only c (snd (getBoolInternal L k b c))"
  "envs_only c (snd (getFloat64Internal L k f c))" "envs_only c (snd (getStringSliceInternal L k sl c))"
  "envs_only c (snd (getStringMapInternal L k mp c))" "envs_only c (snd (getDurationInternal L k i j c))"
  using isSet_envs_only[of c k]
  by (simp_all add: getIntInternal_def getInt64Internal_def getStringInternal_def getBoolInternal_def
      getFloat64Internal_def getStringSliceInternal_def getStringMapInternal_def getDurationInternal_def
      case_prod_unfold)

lemma first_set_envs_only:
  "(\<And>k c. envs_only c (snd (get k c))) \<Longrightarrow> envs_only c (snd (first_set get dv ks c))"
proof (induction ks arbitrary: c)
  case (Cons k ks)
  obtain b c1 where i: "IsSet k c = (b, c1)" by fastforce
  then have "envs_only c c1" using isSet_envs_only[of c k] by (simp add: IsSet_def)
  then show ?case using Cons i envs_only_trans by auto
qed simp

lemma store_envs_only [simp]:
  "envs_only c (snd (storeIntVar L i j ks c))" "envs_only c (snd (storeInt64Var L i j ks c))"
  "envs_only c (snd (storeStringVar L s ks c))" "envs_only c (snd (storeBoolVar L b ks c))"
  "envs_only c (snd (storeFloat64Var L f ks c))" "envs_only c (snd (storeStringSliceVar L sl ks c))"
  "envs_only c (snd (storeStringMapVar L mp ks c))" "envs_only c (snd (storeDurationVar L i j ks c))"
  by (simp_all add: storeIntVar_def storeInt64Var_def storeStringVar_def storeBoolVar_def storeFloat64Var_def
      storeStringSliceVar_def storeStringMapVar_def storeDurationVar_def first_set_envs_only case_prod_unfold)

subsection \<open>Registration\<close>

lemma getOrCreate_known:
  assumes "config_wf L c" "hotReloadableVars c (fst (getMapKey L dv ks)) = Some p"
  shows "getOrCreatePointer L dv cv ks c =
     (if hotReloadableVarsDefaults c (fst (getMapKey L dv ks)) = Some (getStringValue L dv)
      then Some (p, True) else None, c)"
proof -
  have h: "hot_entry L c (fst (getMapKey L dv ks)) p" by (rule config_wfD(1)[OF assms])
  then obtain cv' :: configValue and dv' where "fst (getMapKey L dv ks) = fst (getMapKey L dv' (keys cv'))"
    "typ_of dv' = typ_of (rel c p)" unfolding hot_entry_def by blast
  then have "typ_of dv = typ_of (rel c p)" using getMapKey_typ by metis
  then show ?thesis using h assms(2)
    by (auto simp: getOrCreatePointer_def getMapKey_def hot_entry_def Let_def)
qed

lemma getOrCreate_new:
  assumes "config_wf L c" "hotReloadableVars c (fst (getMapKey L dv ks)) = None"
  shows "getOrCreatePointer L dv cv ks c = (Some (nextp c, False),
     c\<lparr>nextp := nextp c + 1, rel := (rel c)(nextp c := zero_of (typ_of dv)),
       hotReloadableVars := (hotReloadableVars c)(fst (getMapKey L dv ks) \<mapsto> nextp c),
       hotReloadableConfig := (hotReloadableConfig c)(fst (getMapKey L dv ks) \<mapsto> cv\<lparr>cv_value := Some (PtrTo (nextp c))\<rparr>),
       hotReloadableVarsDefaults := (hotReloadableVarsDefaults c)(fst (getMapKey L dv ks) \<mapsto> getStringValue L dv)\<rparr>)"
  using config_wfD(3)[OF assms] assms(2)
  by (simp add: getOrCreatePointer_def getMapKey_def Let_def)

lemma reloadable_known:
  assumes "config_wf L c" "hotReloadableVars c (fst (getMapKey L dv (keys cv))) = Some p"
  shows "reloadable L dv cv store c =
     (if hotReloadableVarsDefaults c (fst (getMapKey L dv (keys cv))) = Some (getStringValue L dv)
      then (Some p, c) else (None, c))"
  by (simp add: reloadable_def getOrCreate_known[OF assms])

lemma reloadable_new:
  assumes w: "config_wf L c" and n: "hotReloadableVars c (fst (getMapKey L dv (keys cv))) = None"
    and st: "\<And>c. envs_only c (snd (store c))" "\<And>c. typ_of (fst (store c)) = typ_of dv"
    and ok: "cv_ok (typ_of dv) cv"
  obtains x c' where "reloadable L dv cv store c = (Some (nextp c), c')" "config_wf L c'"
    "hotReloadableVars c' (fst (getMapKey L dv (keys cv))) = Some (nextp c)"
    "hotReloadableVarsDefaults c' (fst (getMapKey L dv (keys cv))) = Some (getStringValue L dv)"
proof -
  define mk where "mk = fst (getMapKey L dv (keys cv))"
  define c1 where "c1 = c\<lparr>nextp := nextp c + 1, rel := (rel c)(nextp c := zero_of (typ_of dv)),
       hotReloadableVars := (hotReloadableVars c)(mk \<mapsto> nextp c),
       hotReloadableConfig := (hotReloadableConfig c)(mk \<mapsto> cv\<lparr>cv_value := Some (PtrTo (nextp c))\<rparr>),
       hotReloadableVarsDefaults := (hotReloadableVarsDefaults c)(mk \<mapsto> getStringValue L dv)\<rparr>"
  obtain x c2 where s: "store c1 = (x, c2)" by fastforce
  define c' where "c' = c2\<lparr>rel := (rel c2)(nextp c := x)\<rparr>"
  have e: "envs_only c1 c2" "typ_of x = typ_of dv" using st[of c1] s by simp_all
  have r: "reloadable L dv cv store c = (Some (nextp c), c')"
    using getOrCreate_new[OF w n, of cv] s by (simp add: reloadable_def c1_def mk_def c'_def)
  have f: "hotReloadableVars c' = (hotReloadableVars c)(mk \<mapsto> nextp c)"
    "hotReloadableConfig c' = (hotReloadableConfig c)(mk \<mapsto> cv\<lparr>cv_value := Some (PtrTo (nextp c))\<rparr>)"
    "hotReloadableVarsDefaults c' = (hotReloadableVarsDefaults c)(mk \<mapsto> getStringValue L dv)"
    "rel c' = (rel c)(nextp c := x)" "nextp c' = nextp c + 1" "nonReloadableConfig c' = nonReloadableConfig c"
    using e(1) by (auto simp: c'_def c1_def envs_only_def)
  note d = config_wfD[OF w]
  have old: "p < nextp c" if "hotReloadableVars c k = Some p" for k p
    using d(1)[OF that] by (simp add: hot_entry_def)
  have ok': "cv_ok (typ_of dv) (cv\<lparr>cv_value := q\<rparr>)" for q using ok by (cases "typ_of dv") auto
  have "config_wf L c'"
    unfolding config_wf_def
  proof (intro conjI allI impI)
    fix k p assume k: "hotReloadableVars c' k = Some p"
    show "hot_entry L c' k p"
    proof (cases "k = mk")
      case True
      then have "p = nextp c" using k by (simp add: f)
      then show ?thesis using True ok' e(2)
        by (auto simp: hot_entry_def f mk_def intro!: exI[of _ dv])
    next
      case False
      then have k': "hotReloadableVars c k = Some p" using k by (simp add: f)
      show ?thesis using d(1)[OF k'] old[OF k'] False by (auto simp: hot_entry_def f)
    qed
  next
    fix k k' p assume "hotReloadableVars c' k = Some p" "hotReloadableVars c' k' = Some p"
    then show "k = k'" using d(4)[of k p k'] old[of k p] old[of k' p] by (auto simp: f split: if_splits)
  qed (use d(2,3,5) in \<open>auto simp: f split: if_splits\<close>)
  with r show ?thesis by (intro that) (auto simp: f mk_def)
qed

text \<open>A registration of a new variable or of a known one keeps the invariant.\<close>

lemma reloadable_wf:
  assumes w: "config_wf L c"
    and st: "\<And>c. envs_only c (snd (store c))" "\<And>c. typ_of (fst (store c)) = typ_of dv"
    and ok: "cv_ok (typ_of dv) cv"
  shows "config_wf L (snd (reloadable L dv cv store c))"
proof (cases "hotReloadableVars c (fst (getMapKey L dv (keys cv)))")
  case (Some p)
  then show ?thesis using w by (simp add: reloadable_known)
next
  case None
  then show ?thesis using reloadable_new[OF w None st ok] by (metis snd_conv)
qed

lemma GetReloadable_wf:
  assumes "config_wf L c"
  shows "config_wf L (snd (GetReloadableIntVar L i j ks c))" "config_wf L (snd (GetReloadableInt64Var L i j ks c))"
    "config_wf L (snd (GetReloadableStringVar L s ks c))" "config_wf L (snd (GetReloadableBoolVar L b ks c))"
    "config_wf L (snd (GetReloadableFloat64Var L f ks c))" "config_wf L (snd (GetReloadableStringSliceVar L sl ks c))"
    "config_wf L (snd (GetReloadableStringMapVar L mp ks c))" "config_wf L (snd (GetReloadableDurationVar L i j ks c))"
  unfolding GetReloadableIntVar_def GetReloadableInt64Var_def GetReloadableStringVar_def GetReloadableBoolVar_def
    GetReloadableFloat64Var_def GetReloadableStringSliceVar_def GetReloadableStringMapVar_def GetReloadableDurationVar_def
  by (rule reloadable_wf[OF assms]; simp)+


lemma config_wf_nonrel:
  assumes "config_wf L c" "\<exists>x. cv_value cv = Some (Plain x) \<and> cv_ok (typ_of x) cv"
  shows "config_wf L (c\<lparr>nonReloadableConfig := (nonReloadableConfig c)(k \<mapsto> cv)\<rparr>)"
  using assms unfolding config_wf_def hot_entry_def by simp

lemma registerNonReloadable_wf:
  assumes w: "config_wf L c" and ok: "\<exists>x. cv_value cv = Some (Plain x) \<and> cv_ok (typ_of x) cv"
  shows "config_wf L (registerNonReloadableConfigKeys L dv cv c)"
proof (cases "enableNonReloadableAdvancedDetection c")
  case False
  have fo: "reg_part (fold (\<lambda>key c. c\<lparr>nonReloadableKeys := (nonReloadableKeys c)(ToLower key \<mapsto> key)\<rparr>) ks c) = reg_part c" for ks c
    by (induction ks arbitrary: c) (auto simp: reg_part_def)
  show ?thesis using iffD2[OF config_wf_cong[OF fo] w] False by (simp add: registerNonReloadableConfigKeys_def)
next
  case True
  then show ?thesis using w config_wf_nonrel[OF w ok]
    by (simp add: registerNonReloadableConfigKeys_def getMapKey_def Let_def)
qed

lemma store_wf:
  "config_wf L c \<Longrightarrow> envs_only c c' \<Longrightarrow> config_wf L c'"
  by (rule iffD2[OF config_wf_cong[OF envs_only_reg]])

lemma Get_wf:
  assumes "config_wf L c"
  shows "config_wf L (snd (GetIntVar L i j ks c))" "config_wf L (snd (GetInt64Var L i j ks c))"
    "config_wf L (snd (GetStringVar L s ks c))" "config_wf L (snd (GetBoolVar L b ks c))"
    "config_wf L (snd (GetFloat64Var L f ks c))" "config_wf L (snd (GetStringSliceVar L sl ks c))"
    "config_wf L (snd (GetStringMapVar L mp ks c))" "config_wf L (snd (GetDurationVar L i j ks c))"
  unfolding GetIntVar_def GetInt64Var_def GetStringVar_def GetBoolVar_def GetFloat64Var_def
    GetStringSliceVar_def GetStringMapVar_def GetDurationVar_def case_prod_unfold snd_conv
  by (rule registerNonReloadable_wf[OF store_wf[OF assms]]; simp)+

subsection \<open>Change detection keeps the registrations\<close>

text \<open>The event, if any, of the reloadable variable \<open>mk\<close>, and its value afterwards.\<close>

definition hot_new :: "golib \<Rightarrow> config \<Rightarrow> configValue \<Rightarrow> nat \<Rightarrow> cval" where
  "hot_new L c cv p = reread L (typ_of (rel c p)) cv c"

definition hot_value :: "golib \<Rightarrow> config \<Rightarrow> configValue \<Rightarrow> nat \<Rightarrow> cval" where
  "hot_value L c cv p = (if same_val (rel c p) (hot_new L c cv p) then rel c p else hot_new L c cv p)"

definition hot_note :: "golib \<Rightarrow> config \<Rightarrow> gostr \<Rightarrow> (observer \<times> event) list" where
  "hot_note L c mk = (case (hotReloadableVars c mk, hotReloadableConfig c mk) of
     (Some p, Some cv) \<Rightarrow> if same_val (rel c p) (hot_new L c cv p) then []
        else notify (Reloaded (Join (keys cv) (lit '','')) (rel c p) (hot_new L c cv p)) (observers c)
   | _ \<Rightarrow> [])"

definition all_bound :: "config \<Rightarrow> bool" where
  "all_bound c \<longleftrightarrow> (\<forall>mk cv. hotReloadableConfig c mk = Some cv \<longrightarrow> (\<forall>k \<in> set (keys cv). bound c k))"

lemma typ_of_hot_value [simp]: "typ_of (hot_value L c cv p) = typ_of (rel c p)"
  by (simp add: hot_value_def hot_new_def)

lemma swapHot_eq:
  "swapHotReloadableConfig key p x c =
     c\<lparr>rel := (rel c)(p := if same_val (rel c p) x then rel c p else x),
       calls := calls c @ (if same_val (rel c p) x then [] else notify (Reloaded key (rel c p) x) (observers c))\<rparr>"
  by (simp add: swapHotReloadableConfig_def swapIfNotEqual_def notify_obs_def)

lemma config_wf_rel:
  assumes "config_wf L c" "\<And>p. typ_of (r p) = typ_of (rel c p)"
  shows "config_wf L (c\<lparr>rel := r, calls := l\<rparr>)"
  using assms unfolding config_wf_def hot_entry_def by simp

text \<open>A fresh read does not depend on the reloadable values nor on the calls made.\<close>

lemma first_set_frame:
  assumes "\<And>k c. get k (f c) = apsnd f (get k c)" "\<And>k c. isSetInternal k (f c) = apsnd f (isSetInternal k c)"
  shows "first_set get dv ks (f c) = apsnd f (first_set get dv ks c)"
proof (induction ks arbitrary: c)
  case (Cons k ks)
  obtain b c1 where i: "isSetInternal k c = (b, c1)" by fastforce
  then show ?case using Cons assms by (simp add: IsSet_def)
qed simp

lemma Replace_cong: "envs c' = envs c \<Longrightarrow> Replace c' = Replace c"
  by (rule ext) (simp add: Replace_def)

lemma vget_cong: "envs c' = envs c \<Longrightarrow> v c' = v c \<Longrightarrow> vget c' = vget c"
  by (rule ext) (simp add: vget_def Replace_cong[of c' c])

lemma vget_frame [simp]: "vget (c\<lparr>rel := r, calls := l\<rparr>) = vget c"
  by (rule vget_cong) simp_all

lemma isSet_frame:
  "isSetInternal k (c\<lparr>rel := r, calls := l\<rparr>) = apsnd (\<lambda>c. c\<lparr>rel := r, calls := l\<rparr>) (isSetInternal k c)"
proof -
  have "vget (c\<lparr>rel := r, calls := l, envs := e\<rparr>) = vget (c\<lparr>envs := e\<rparr>)" for e
    by (rule vget_cong) simp_all
  then show ?thesis by (simp add: isSetInternal_def bindEnv_def Let_def)
qed

lemma reread_frame: "reread L t cv (c\<lparr>rel := r, calls := l\<rparr>) = reread L t cv c"
proof -
  let ?f = "\<lambda>c. c\<lparr>rel := r, calls := l\<rparr>"
  note g = getIntInternal_def getInt64Internal_def getStringInternal_def getBoolInternal_def
    getFloat64Internal_def getStringSliceInternal_def getStringMapInternal_def getDurationInternal_def
  note fs = first_set_frame[where f = ?f, OF _ isSet_frame]
  have "storeIntVar L i j ks (?f c) = apsnd ?f (storeIntVar L i j ks c)"
    "storeInt64Var L i j ks (?f c) = apsnd ?f (storeInt64Var L i j ks c)"
    "storeStringVar L s ks (?f c) = apsnd ?f (storeStringVar L s ks c)"
    "storeBoolVar L b ks (?f c) = apsnd ?f (storeBoolVar L b ks c)"
    "storeFloat64Var L f ks (?f c) = apsnd ?f (storeFloat64Var L f ks c)"
    "storeStringSliceVar L sl ks (?f c) = apsnd ?f (storeStringSliceVar L sl ks c)"
    "storeStringMapVar L mp ks (?f c) = apsnd ?f (storeStringMapVar L mp ks c)"
    "storeDurationVar L i j ks (?f c) = apsnd ?f (storeDurationVar L i j ks c)" for i j ks s b f sl mp
    unfolding storeIntVar_def storeInt64Var_def storeStringVar_def storeBoolVar_def storeFloat64Var_def
      storeStringSliceVar_def storeStringMapVar_def storeDurationVar_def
    by (rule fs; simp add: g case_prod_unfold isSet_frame Let_def split: option.split)+
  then show ?thesis by (cases t) (auto split: cval.split option.split)
qed

lemma bound_frame [simp]: "bound (c\<lparr>rel := r, calls := l\<rparr>) k = bound c k"
  by (simp add: bound_def)

lemma check_one_hot:
  assumes w: "config_wf L c" and p: "hotReloadableVars c mk = Some p" "hotReloadableConfig c mk = Some cv"
    and b: "all_bound c" and fm: "\<And>x. fmul L x float_one = x"
  shows "check_one L Hot mk cv c =
     Some (c\<lparr>rel := (rel c)(p := hot_value L c cv p), calls := calls c @ hot_note L c mk\<rparr>)"
proof -
  have h: "cv_value cv = Some (PtrTo p)" "cv_ok (typ_of (rel c p)) cv"
    using config_wfD(1)[OF w p(1)] p(2) by (auto simp: hot_entry_def)
  have "fresh_value L (typ_of (rel c p)) cv c = Some (hot_new L c cv p, c)"
    unfolding hot_new_def by (rule fresh_value_reread[OF h(2) _ fm]) (use b p(2) in \<open>auto simp: all_bound_def\<close>)
  then show ?thesis using h(1) p
    by (simp add: check_one_def Let_def swapHot_eq hot_value_def hot_note_def)
qed


lemma hot_entry_cv:
  assumes "config_wf L c" "hotReloadableVars c mk = Some p"
  obtains cv where "hotReloadableConfig c mk = Some cv" "cv_value cv = Some (PtrTo p)"
  using config_wfD(1)[OF assms] by (auto simp: hot_entry_def)

lemma hot_ptr:
  "config_wf L c \<Longrightarrow> hotReloadableConfig c mk = Some cv \<Longrightarrow> \<exists>p. hotReloadableVars c mk = Some p"
  using config_wfD(2)[of L c mk] by fastforce

text \<open>Visiting the keys \<open>ord\<close>: every variable gets its fresh value, once.\<close>

definition hot_upd :: "golib \<Rightarrow> config \<Rightarrow> gostr list \<Rightarrow> nat \<Rightarrow> cval" where
  "hot_upd L c ord p = (case find (\<lambda>mk. hotReloadableVars c mk = Some p) ord of
     None \<Rightarrow> rel c p
   | Some mk \<Rightarrow> (case hotReloadableConfig c mk of None \<Rightarrow> rel c p | Some cv \<Rightarrow> hot_value L c cv p))"

lemma checkConfig_hot:
  assumes "config_wf L c" "all_bound c" "\<And>x. fmul L x float_one = x" "distinct ord"
  shows "checkConfigForChanges L Hot ord c =
     (True, c\<lparr>rel := hot_upd L c ord, calls := calls c @ concat (map (hot_note L c) ord)\<rparr>)"
  using assms
proof (induction ord arbitrary: c)
  case Nil
  have "hot_upd L c [] = rel c" by (rule ext) (simp add: hot_upd_def)
  then show ?case by simp
next
  case (Cons mk ord)
  note w = Cons.prems(1)
  show ?case
  proof (cases "hotReloadableConfig c mk")
    case None
    then have nv: "hotReloadableVars c mk = None"
      using hot_entry_cv[OF w] by (metis not_None_eq option.distinct(1))
    have "hot_upd L c (mk # ord) = hot_upd L c ord" by (rule ext) (simp add: hot_upd_def nv)
    then show ?thesis using Cons None nv by (simp add: hot_note_def)
  next
    case (Some cv)
    obtain p where p: "hotReloadableVars c mk = Some p" using hot_ptr[OF w Some] by blast
    define c1 where "c1 = c\<lparr>rel := (rel c)(p := hot_value L c cv p), calls := calls c @ hot_note L c mk\<rparr>"
    have one: "check_one L Hot mk cv c = Some c1"
      unfolding c1_def by (rule check_one_hot[OF w p Some Cons.prems(2,3)])
    have f: "hotReloadableVars c1 = hotReloadableVars c" "hotReloadableConfig c1 = hotReloadableConfig c"
      "observers c1 = observers c" "rel c1 = (rel c)(p := hot_value L c cv p)" by (simp_all add: c1_def)
    have w1: "config_wf L c1" unfolding c1_def by (rule config_wf_rel[OF w]) simp
    have b1: "all_bound c1" using Cons.prems(2) by (simp add: all_bound_def c1_def)
    have inj: "hotReloadableVars c mk' = Some p \<longleftrightarrow> mk' = mk" for mk'
      using config_wfD(4)[OF w p, of mk'] p by auto
    have hn: "hot_new L c1 cv' q = hot_new L c cv' q" if "q \<noteq> p" for cv' q
      using that by (simp add: hot_new_def c1_def reread_frame)
    have nn: "hot_note L c1 mk' = hot_note L c mk'" if "mk' \<noteq> mk" for mk'
    proof (cases "hotReloadableVars c mk'")
      case (Some q)
      then have "q \<noteq> p" using inj that by auto
      then show ?thesis using hn[of q] Some by (simp add: hot_note_def f split: option.split)
    qed (simp add: hot_note_def f)
    have up: "hot_upd L c1 ord q = hot_upd L c (mk # ord) q" for q
    proof (cases "q = p")
      case True
      have "find (\<lambda>mk'. hotReloadableVars c mk' = Some p) ord = None"
        using Cons.prems(4) inj by (auto simp: find_None_iff)
      then show ?thesis using True p Some by (simp add: hot_upd_def c1_def)
    next
      case False
      then show ?thesis using p hn[OF False]
        by (auto simp: hot_upd_def f hot_value_def split: option.split)
    qed
    have mp: "map (hot_note L c1) ord = map (hot_note L c) ord" using nn Cons.prems(4)
      by (intro map_cong refl) (metis distinct.simps(2))
    have hu: "hot_upd L c1 ord = hot_upd L c (mk # ord)" using up by (rule ext)
    have "checkConfigForChanges L Hot ord c1 = (True, c1\<lparr>rel := hot_upd L c (mk # ord),
        calls := calls c1 @ concat (map (hot_note L c) ord)\<rparr>)"
      using Cons.IH[OF w1 b1 Cons.prems(3)] Cons.prems(4) unfolding mp hu by simp
    then show ?thesis using one Some by (simp add: c1_def)
  qed
qed

text \<open>The non-reloadable part leaves the reloadable variables alone.\<close>

lemma fresh_value_envs_only:
  "fresh_value L t cv c = Some (x, c') \<Longrightarrow> envs_only c c'"
  by (cases t) (auto simp: apfst_def map_prod_def case_prod_unfold first_set_envs_only split: option.splits cval.splits)

lemma fresh_value_typ: "fresh_value L t cv c = Some (x, c') \<Longrightarrow> typ_of x = t"
  by (cases t) (auto simp: apfst_def map_prod_def case_prod_unfold split: option.splits cval.splits)

lemma cv_ok_upd [simp]: "cv_ok t (cv\<lparr>cv_value := q\<rparr>) = cv_ok t cv"
  by (cases t) auto

lemma fresh_value_some: "cv_ok t cv \<Longrightarrow> fresh_value L t cv c \<noteq> None"
  by (cases t) auto

lemma check_nonhot:
  assumes "config_wf L c"
  shows "fst (checkConfigForChanges L NonHot ord c)
    \<and> config_wf L (snd (checkConfigForChanges L NonHot ord c))
    \<and> rel (snd (checkConfigForChanges L NonHot ord c)) = rel c"
  using assms
proof (induction ord arbitrary: c)
  case (Cons mk ord)
  note w = Cons.prems
  show ?case
  proof (cases "nonReloadableConfig c mk")
    case (Some cv)
    obtain y where y: "cv_value cv = Some (Plain y)" "cv_ok (typ_of y) cv" using config_wfD(5)[OF w Some] by blast
    obtain x c1 where x: "fresh_value L (typ_of y) cv c = Some (x, c1)"
      using fresh_value_some[OF y(2), of L c] by fastforce
    have e: "envs_only c c1" "typ_of x = typ_of y" using fresh_value_envs_only[OF x] fresh_value_typ[OF x] .
    define c2 where "c2 = (if same_val y x then c1
       else notify_obs (NonReloaded (Join (keys cv) (lit '',''))) (put_cv NonHot mk (cv\<lparr>cv_value := Some (Plain x)\<rparr>) c1))"
    have o: "check_one L NonHot mk cv c = Some c2" using y x by (simp add: check_one_def Let_def c2_def)
    have w1: "config_wf L c1" by (rule store_wf[OF w e(1)])
    have "config_wf L (put_cv NonHot mk (cv\<lparr>cv_value := Some (Plain x)\<rparr>) c1)"
      unfolding put_cv.simps by (rule config_wf_nonrel[OF w1]) (use y(2) e(2) in simp)
    then have "config_wf L c2" using w1 by (simp add: c2_def notify_obs_def config_wf_def hot_entry_def)
    moreover have "rel c2 = rel c" using e(1) by (auto simp: c2_def notify_obs_def envs_only_def)
    ultimately show ?thesis using Cons.IH[of c2] Some o by simp
  qed (use Cons in simp)
qed simp

lemma notify_changed_eq:
  "notify_changed ks c = c\<lparr>calls := calls c @ concat (map (\<lambda>key. case nonReloadableKeys c key of None \<Rightarrow> []
      | Some originalKey \<Rightarrow> notify (NonReloaded originalKey) (observers c)) ks)\<rparr>"
  by (induction ks arbitrary: c) (auto simp: notify_obs_def cong: option.case_cong split: option.split)

lemma notify_changed_reg [simp]: "reg_part (notify_changed ks c) = reg_part c"
  by (simp add: notify_changed_eq reg_part_def)

lemma onConfigChange_hot:
  assumes "config_wf L c" "all_bound c" "\<And>x. fmul L x float_one = x" "distinct ord"
  shows "config_wf L (onConfigChange L ord ord' c) \<and> rel (onConfigChange L ord ord' c) = hot_upd L c ord"
proof -
  define c1 where "c1 = c\<lparr>rel := hot_upd L c ord, calls := calls c @ concat (map (hot_note L c) ord)\<rparr>"
  have ck: "checkConfigForChanges L Hot ord c = (True, c1)" unfolding c1_def by (rule checkConfig_hot[OF assms])
  have w1: "config_wf L c1" unfolding c1_def
    by (rule config_wf_rel[OF assms(1)]) (simp add: hot_upd_def split: option.split)
  have "rel c1 = hot_upd L c ord" by (simp add: c1_def)
  moreover have "reg_part (checkAndNotifyNonReloadableConfig L c1) = reg_part c1"
    using notify_changed_reg by (auto simp: checkAndNotifyNonReloadableConfig_def Let_def reg_part_def)
  then have "config_wf L (checkAndNotifyNonReloadableConfig L c1)"
    and "rel (checkAndNotifyNonReloadableConfig L c1) = rel c1"
    using iffD2[OF config_wf_cong w1] by (auto simp: reg_part_def)
  ultimately show ?thesis using ck check_nonhot[OF w1, of ord'] by (simp add: onConfigChange_def)
qed


subsection \<open>Runs\<close>

text \<open>
  What a program does with a configuration: read variables of every type, register reloadable
  ones (a call that panics leaves its state), register observers; the viper changes (by \<open>Set\<close> or
  the file) and the change is then detected.
\<close>

inductive cstep :: "golib \<Rightarrow> config \<Rightarrow> config \<Rightarrow> bool" for L where
  get_int: "cstep L c (snd (GetIntVar L i j ks c))"
| get_int64: "cstep L c (snd (GetInt64Var L i j ks c))"
| get_string: "cstep L c (snd (GetStringVar L s ks c))"
| get_bool: "cstep L c (snd (GetBoolVar L b ks c))"
| get_float: "cstep L c (snd (GetFloat64Var L f ks c))"
| get_slice: "cstep L c (snd (GetStringSliceVar L sl ks c))"
| get_map: "cstep L c (snd (GetStringMapVar L mp ks c))"
| get_duration: "cstep L c (snd (GetDurationVar L i j ks c))"
| rel_int: "cstep L c (snd (GetReloadableIntVar L i j ks c))"
| rel_int64: "cstep L c (snd (GetReloadableInt64Var L i j ks c))"
| rel_string: "cstep L c (snd (GetReloadableStringVar L s ks c))"
| rel_bool: "cstep L c (snd (GetReloadableBoolVar L b ks c))"
| rel_float: "cstep L c (snd (GetReloadableFloat64Var L f ks c))"
| rel_slice: "cstep L c (snd (GetReloadableStringSliceVar L sl ks c))"
| rel_map: "cstep L c (snd (GetReloadableStringMapVar L mp ks c))"
| rel_duration: "cstep L c (snd (GetReloadableDurationVar L i j ks c))"
| is_set: "cstep L c (snd (IsSet k c))"
| observe: "cstep L c (RegisterObserver ob c)"
| unobserve: "UnregisterObserver ob c = Some c' \<Longrightarrow> cstep L c c'"
| viper_changes: "cstep L c (c\<lparr>v := vp\<rparr>)"
| detect: "distinct ord \<Longrightarrow> all_bound c \<Longrightarrow> cstep L c (onConfigChange L ord ord' c)"

inductive creach :: "golib \<Rightarrow> config \<Rightarrow> bool" for L where
  creach_new: "creach L (New prefix adv vp)"
| creach_step: "creach L c \<Longrightarrow> cstep L c c' \<Longrightarrow> creach L c'"

lemma config_wf_New: "config_wf L (New prefix adv vp)"
  by (simp add: New_def Let_def config_wf_def)

lemma cstep_wf:
  assumes "cstep L c c'" "config_wf L c" "\<And>x. fmul L x float_one = x"
  shows "config_wf L c'"
  using assms
proof (induction rule: cstep.induct)
  case (is_set c k)
  then show ?case using store_wf[OF _ isSet_envs_only[of c k]] by (simp add: IsSet_def)
next
  case (observe c ob)
  then show ?case by (simp add: RegisterObserver_def config_wf_def hot_entry_def)
next
  case (unobserve ob c c')
  then show ?case by (auto simp: UnregisterObserver_def config_wf_def hot_entry_def)
next
  case (viper_changes c vp)
  then show ?case by (simp add: config_wf_def hot_entry_def)
next
  case (detect ord c ord')
  then show ?case using onConfigChange_hot[of L c ord ord'] by simp
qed (simp_all add: Get_wf GetReloadable_wf)

lemma creach_wf: "creach L c \<Longrightarrow> (\<And>x. fmul L x float_one = x) \<Longrightarrow> config_wf L c"
  by (induction rule: creach.induct) (auto intro: config_wf_New cstep_wf)

subsection \<open>Properties\<close>

text \<open>Instances of the parameters for the examples: a viper with one setting, a library of constants.\<close>

definition demo_lib :: golib where
  "demo_lib = \<lparr>ToInt = (\<lambda>a. case a of Some (AInt i) \<Rightarrow> i | _ \<Rightarrow> 0), ToInt64 = (\<lambda>a. case a of Some (AInt i) \<Rightarrow> i | _ \<Rightarrow> 0),
     ToBool = (\<lambda>a. a = Some (ABool True)), ToFloat64 = (\<lambda>_. 0), ToStr = (\<lambda>a. case a of Some (AStr s) \<Rightarrow> s | _ \<Rightarrow> []),
     ToDuration = (\<lambda>_. 0), ToStringSlice = (\<lambda>_. []), ToStringMap = (\<lambda>_. []),
     ToStringE = (\<lambda>a. case a of AStr s \<Rightarrow> Some s | AInt i \<Rightarrow> Some (int_str (sint i)) | _ \<Rightarrow> None),
     ParseDuration = (\<lambda>_. None), ParseFloat_ok = (\<lambda>_. False), FormatFloat = (\<lambda>_. []), FormatDuration = (\<lambda>_. []),
     FormatMap = (\<lambda>_. []), fmul = (\<lambda>x y. x)\<rparr>"

definition viper_of :: "smap \<Rightarrow> viper" where
  "viper_of m = \<lparr>v_find = (\<lambda>r k. map_of m k), v_all = (\<lambda>r. m)\<rparr>"

definition demo_cfg :: config where
  "demo_cfg = (snd (GetReloadableIntVar demo_lib 5 2 [lit ''a''] (New (lit ''P'') None (viper_of []))))
     \<lparr>v := viper_of [(lit ''a'', AInt 7)]\<rparr>"

lemma demo_cfg_reach: "creach demo_lib demo_cfg"
  unfolding demo_cfg_def by (rule creach_step[OF creach_step[OF creach_new rel_int] viper_changes])

lemmas config_simps = demo_cfg_def GetReloadableIntVar_def reloadable_def getOrCreatePointer_def getMapKey_def
  New_def Let_def getCurrentSettings_def viper_of_def storeIntVar_def IsSet_def isSetInternal_def bindEnv_def
  ConfigKeyToEnv_def isUpperCaseConfigKey_def vget_def Replace_def bound_def getIntInternal_def apfst_def

lemma demo_cfg_fields:
  "hotReloadableVars demo_cfg (lit ''int:a'') = Some 0" "rel demo_cfg 0 = VInt 10"
  "hotReloadableConfig demo_cfg = [lit ''int:a'' \<mapsto> \<lparr>cv_value = Some (PtrTo 0), multiplier = Some (VInt 2),
     defaultValue = VInt 5, keys = [lit ''a'']\<rparr>]"
  "all_bound demo_cfg"
  by (simp_all add: config_simps lit_def all_bound_def ToUpper_def to_upper_def is_lower_def is_upper_def is_digit_def)






text \<open>Flattening: distinct keys, lower case, and no value is a map.\<close>

definition is_map :: "any \<Rightarrow> bool" where
  "is_map x \<longleftrightarrow> (\<exists>m. x = AMap m) \<or> (\<exists>m. x = AAnyMap m)"

definition flat_ok :: "smap \<Rightarrow> bool" where
  "flat_ok flat \<longleftrightarrow> distinct (map fst flat) \<and> (\<forall>(k, x) \<in> set flat. ToLower k = k \<and> \<not> is_map x)"

lemma flat_ok_update:
  assumes "flat_ok flat" "\<not> is_map x"
  shows "flat_ok (AList.update (ToLower k) x flat)"
proof -
  have "set (AList.update (ToLower k) x flat) \<subseteq> insert (ToLower k, x) (set flat)" for flat :: smap
    by (induction flat) auto
  then show ?thesis using assms by (fastforce simp: flat_ok_def distinct_update)
qed

lemma flattenSettings_ok: "flat_ok flat \<Longrightarrow> flat_ok (flattenSettings prefix nested flat)"
proof (induction prefix nested flat rule: flattenSettings.induct)
  case (2 prefix k x r flat)
  then show ?case
    by (cases x) (simp_all add: Let_def flat_ok_update is_map_def)
qed simp

lemma getCurrentSettings_ok: "flat_ok (getCurrentSettings c)"
  unfolding getCurrentSettings_def by (rule flattenSettings_ok) (simp add: flat_ok_def)



text \<open>The keys reported as changed are exactly those whose flattened setting was added, removed,
  or differs (as strings when both values have one, structurally otherwise), each once.\<close>

lemma changedKeys_exact:
  assumes "distinct (map fst new)"
  shows "distinct (changedKeys L old new) \<and>
    (k \<in> set (changedKeys L old new)) =
      (case (map_of old k, map_of new k) of
         (None, None) \<Rightarrow> False
       | (Some x, Some y) \<Rightarrow> setting_changed L x y
       | _ \<Rightarrow> True)"
proof -
  have "(k, y) \<in> set new \<longleftrightarrow> map_of new k = Some y" for y using assms by simp
  moreover have "k \<in> fst ` set old \<longleftrightarrow> map_of old k \<noteq> None" by (simp add: map_of_eq_None_iff)
  ultimately show ?thesis
    by (auto simp: changedKeys_def image_iff split: option.splits)
qed

lemma changedKeys_exact_example:
  "changedKeys demo_lib [(lit ''a'', AInt 1), (lit ''b'', AInt 2)] [(lit ''a'', AInt 1), (lit ''c'', AInt 2)]
     = [lit ''c'', lit ''b''] \<and> lit ''c'' \<in> set (changedKeys demo_lib [(lit ''a'', AInt 1), (lit ''b'', AInt 2)]
         [(lit ''a'', AInt 1), (lit ''c'', AInt 2)])"
  using changedKeys_exact[of "[(lit ''a'', AInt 1), (lit ''c'', AInt 2)]" demo_lib
      "[(lit ''a'', AInt 1), (lit ''b'', AInt 2)]" "lit ''c''"]
  by (simp add: changedKeys_def demo_lib_def setting_changed_def lit_def)

text \<open>Registering a reloadable int again with the same keys, in every state reached after the
  first registration succeeded: when default times scale is the same number the same pointer
  comes back and nothing changes (even if the scale itself is another one), otherwise the call
  panics, again without changing anything.\<close>

lemma GetReloadableIntVar_again:
  assumes "creach L c" "\<And>x. fmul L x float_one = x" "GetReloadableIntVar L dv scale ks c = (Some p, c1)"
  shows "GetReloadableIntVar L dv' scale' ks c1 = (if dv' * scale' = dv * scale then Some p else None, c1)"
proof -
  define mk where "mk = fst (getMapKey L (VInt (dv * scale)) ks)"
  have mk: "fst (getMapKey L (VInt i) ks) = mk" for i by (simp add: getMapKey_def mk_def)
  have w: "config_wf L c" by (rule creach_wf[OF assms(1,2)])
  have known: "GetReloadableIntVar L d sc ks c' =
      (if hotReloadableVarsDefaults c' mk = Some (getStringValue L (VInt (d * sc))) then (Some q, c') else (None, c'))"
    if "config_wf L c'" "hotReloadableVars c' mk = Some q" for d sc c' q
    unfolding GetReloadableIntVar_def
    by (subst reloadable_known[where p = q]) (simp_all add: that mk)
  have "config_wf L c1 \<and> hotReloadableVars c1 mk = Some p
      \<and> hotReloadableVarsDefaults c1 mk = Some (getStringValue L (VInt (dv * scale)))"
  proof (cases "hotReloadableVars c mk")
    case (Some q)
    then show ?thesis using assms(3) w unfolding known[OF w Some] by (simp split: if_splits)
  next
    case None
    define cv where "cv = \<lparr>cv_value = None, multiplier = Some (VInt scale), defaultValue = VInt dv, keys = ks\<rparr>"
    define store where "store = (\<lambda>c. apfst VInt (storeIntVar L dv scale ks c))"
    have k: "keys cv = ks" by (simp add: cv_def)
    obtain x c' where c': "reloadable L (VInt (dv * scale)) cv store c = (Some (nextp c), c')" "config_wf L c'"
      "hotReloadableVars c' mk = Some (nextp c)"
      "hotReloadableVarsDefaults c' mk = Some (getStringValue L (VInt (dv * scale)))"
      by (rule reloadable_new[OF w, of "VInt (dv * scale)" cv store, unfolded k mk, OF None])
        (simp_all add: store_def cv_def)
    have "(Some p, c1) = (Some (nextp c), c')"
      using assms(3) c'(1) by (simp add: GetReloadableIntVar_def cv_def store_def)
    then show ?thesis using c'(2,3,4) by simp
  qed
  then show ?thesis by (subst known[of c1 p]) (auto dest: signed_word_eqI)
qed

lemma GetReloadableIntVar_again_witness:
  "fst (GetReloadableIntVar demo_lib 10 1 [lit ''a'']
      (snd (GetReloadableIntVar demo_lib 5 2 [lit ''a''] (New (lit ''P'') None (viper_of []))))) = Some 0"
proof -
  obtain c1 where "GetReloadableIntVar demo_lib 5 2 [lit ''a''] (New (lit ''P'') None (viper_of [])) = (Some 0, c1)"
    by (simp add: config_simps)
  then show ?thesis using GetReloadableIntVar_again[OF creach_new, of demo_lib 5 2 "[lit ''a'']" _ _ _ 0 c1 10 1]
    by (simp add: demo_lib_def)
qed

text \<open>
  The two critical sections of a registration: a second caller that comes between the creation of
  the pointer and the first \<open>store\<close> is handed the pointer while it still holds the zero value.
\<close>

lemma registration_race:
  fixes cv :: configValue
  assumes "config_wf L c" "hotReloadableVars c (fst (getMapKey L dv ks)) = None"
  defines "c1 \<equiv> snd (getOrCreatePointer L dv cv ks c)"
  shows "fst (getOrCreatePointer L dv cv' ks c1) = Some (nextp c, True) \<and> rel c1 (nextp c) = zero_of (typ_of dv)"
proof -
  have "hotReloadableVars c1 (fst (getMapKey L dv ks)) = Some (nextp c)" "rel c1 (nextp c) = zero_of (typ_of dv)"
    "hotReloadableVarsDefaults c1 (fst (getMapKey L dv ks)) = Some (getStringValue L dv)"
    by (simp_all add: c1_def getOrCreate_new[OF assms(1,2)])
  then show ?thesis by (simp add: getOrCreatePointer_def getMapKey_def Let_def)
qed

text \<open>
  The guard of \<open>bindEnv\<close> looks the key up as it is spelled but the binding is stored in upper case:
  a key that is not upper case is bound again by every read, so of two spellings of one key the
  last one read decides which environment variable both use.
\<close>

lemma bindEnv_last_wins:
  "envs c k = None \<Longrightarrow> envs (bindEnv k c) (ToUpper k) = Some (ConfigKeyToEnv (envPrefix c) k)"
  by (simp add: bindEnv_def Let_def)


text \<open>What the loader of a reloadable string reads.\<close>

definition load_string :: "nat option \<Rightarrow> config \<Rightarrow> gostr" where
  "load_string p c = (case p of Some a \<Rightarrow> (case rel c a of VString s \<Rightarrow> s | _ \<Rightarrow> []) | None \<Rightarrow> [])"

end
