(* ===== verification/Logger.thy ===== *)
theory Logger
  imports Kit_Prelude
begin

text \<open>
  The loggers of the \<open>logger\<close> package: the levels and their cache (\<open>config.go\<close>, \<open>level.go\<close>), the
  logger tree and its methods (\<open>logger.go\<close>), the parsing of module levels (\<open>factory.go\<close>) and
  the fields (\<open>field.go\<close>).

  zap is outside: a zap logger is the list of what was derived from the base logger (\<open>zop\<close>), and
  what reaches it is the list \<open>out\<close> of entries. A method returns \<open>None\<close> when it dereferences a nil
  parent.
\<close>

subsection \<open>Levels\<close>

definition levelEvent :: nat where "levelEvent = 0"
definition levelDebug :: nat where "levelDebug = 1"
definition levelInfo :: nat where "levelInfo = 2"
definition levelWarn :: nat where "levelWarn = 3"
definition levelError :: nat where "levelError = 4"
definition levelFatal :: nat where "levelFatal = 5"

definition levelMap :: "gostr \<Rightarrow> nat option" where
  "levelMap = [lit ''EVENT'' \<mapsto> levelEvent, lit ''DEBUG'' \<mapsto> levelDebug, lit ''INFO'' \<mapsto> levelInfo,
     lit ''WARN'' \<mapsto> levelWarn, lit ''ERROR'' \<mapsto> levelError, lit ''FATAL'' \<mapsto> levelFatal]"

subsection \<open>Fields\<close>

datatype FieldType = UnknownType | StringType | IntType | BoolType | FloatType | TimeType | DurationType | ErrorType

record 'u field =
  fname :: gostr
  fieldType :: FieldType
  funknown :: "'u option"
  fstring :: gostr
  fint :: "64 word"
  fbool :: bool
  ffloat :: u64
  ftime :: gotime
  fduration :: "64 word"
  ferror :: "gostr option"

datatype 'u gval = GUnknown "'u option" | GString gostr | GInt "64 word" | GBool bool | GFloat u64 | GTime gotime
  | GDuration "64 word" | GError "gostr option"

definition zero_field :: "'u field" where
  "zero_field = \<lparr>fname = [], fieldType = UnknownType, funknown = None, fstring = [], fint = 0, fbool = False,
     ffloat = 0, ftime = zero_time, fduration = 0, ferror = None\<rparr>"

definition Value :: "'u field \<Rightarrow> 'u gval" where
  "Value f = (case fieldType f of
     StringType \<Rightarrow> GString (fstring f) | IntType \<Rightarrow> GInt (fint f) | BoolType \<Rightarrow> GBool (fbool f)
   | FloatType \<Rightarrow> GFloat (ffloat f) | TimeType \<Rightarrow> GTime (ftime f) | DurationType \<Rightarrow> GDuration (fduration f)
   | ErrorType \<Rightarrow> GError (ferror f) | UnknownType \<Rightarrow> GUnknown (funknown f))"

text \<open>\<open>toZap\<close>: the key and value handed to zap; \<open>zap.Error\<close> always uses the key "error".\<close>

definition toZap :: "'u field \<Rightarrow> gostr \<times> 'u gval" where
  "toZap f = (case fieldType f of
     StringType \<Rightarrow> (fname f, GString (fstring f)) | IntType \<Rightarrow> (fname f, GInt (fint f))
   | BoolType \<Rightarrow> (fname f, GBool (fbool f)) | FloatType \<Rightarrow> (fname f, GFloat (ffloat f))
   | TimeType \<Rightarrow> (fname f, GTime (ftime f)) | DurationType \<Rightarrow> (fname f, GDuration (fduration f))
   | ErrorType \<Rightarrow> (lit ''error'', GError (ferror f)) | UnknownType \<Rightarrow> (fname f, GUnknown (funknown f)))"

definition NewField :: "gostr \<Rightarrow> 'u \<Rightarrow> 'u field" where
  "NewField key x = zero_field\<lparr>fname := key, funknown := Some x\<rparr>"
definition NewStringField :: "gostr \<Rightarrow> gostr \<Rightarrow> 'u field" where
  "NewStringField key x = zero_field\<lparr>fname := key, fstring := x, fieldType := StringType\<rparr>"
definition NewIntField :: "gostr \<Rightarrow> 64 word \<Rightarrow> 'u field" where
  "NewIntField key x = zero_field\<lparr>fname := key, fint := x, fieldType := IntType\<rparr>"
definition NewBoolField :: "gostr \<Rightarrow> bool \<Rightarrow> 'u field" where
  "NewBoolField key x = zero_field\<lparr>fname := key, fbool := x, fieldType := BoolType\<rparr>"
definition NewFloatField :: "gostr \<Rightarrow> u64 \<Rightarrow> 'u field" where
  "NewFloatField key x = zero_field\<lparr>fname := key, ffloat := x, fieldType := FloatType\<rparr>"
definition NewTimeField :: "gostr \<Rightarrow> gotime \<Rightarrow> 'u field" where
  "NewTimeField key x = zero_field\<lparr>fname := key, ftime := x, fieldType := TimeType\<rparr>"
definition NewDurationField :: "gostr \<Rightarrow> 64 word \<Rightarrow> 'u field" where
  "NewDurationField key x = zero_field\<lparr>fname := key, fduration := x, fieldType := DurationType\<rparr>"
definition NewErrorField :: "gostr option \<Rightarrow> 'u field" where
  "NewErrorField x = zero_field\<lparr>fname := lit ''error'', ferror := x, fieldType := ErrorType\<rparr>"

text \<open>The integer types of \<open>intT\<close>: signedness and width; \<open>uint\<close> and \<open>int\<close> have 64 bits.\<close>

datatype intT = Kuint | Kuint8 | Kuint16 | Kuint32 | Kuint64 | Kint | Kint8 | Kint16 | Kint32 | Kint64

fun int_range :: "intT \<Rightarrow> int \<Rightarrow> bool" where
  "int_range Kuint x \<longleftrightarrow> 0 \<le> x \<and> x < 2 ^ 64"
| "int_range Kuint8 x \<longleftrightarrow> 0 \<le> x \<and> x < 2 ^ 8"
| "int_range Kuint16 x \<longleftrightarrow> 0 \<le> x \<and> x < 2 ^ 16"
| "int_range Kuint32 x \<longleftrightarrow> 0 \<le> x \<and> x < 2 ^ 32"
| "int_range Kuint64 x \<longleftrightarrow> 0 \<le> x \<and> x < 2 ^ 64"
| "int_range Kint x \<longleftrightarrow> - (2 ^ 63) \<le> x \<and> x < 2 ^ 63"
| "int_range Kint8 x \<longleftrightarrow> - (2 ^ 7) \<le> x \<and> x < 2 ^ 7"
| "int_range Kint16 x \<longleftrightarrow> - (2 ^ 15) \<le> x \<and> x < 2 ^ 15"
| "int_range Kint32 x \<longleftrightarrow> - (2 ^ 31) \<le> x \<and> x < 2 ^ 31"
| "int_range Kint64 x \<longleftrightarrow> - (2 ^ 63) \<le> x \<and> x < 2 ^ 63"

definition slice_elem :: "intT \<Rightarrow> int \<Rightarrow> gostr" where
  "slice_elem k x = (if k = Kuint64 then int_str x else int_str (sint (word_of_int x :: 64 word)))"

fun slice_loop :: "intT \<Rightarrow> nat \<Rightarrow> int list \<Rightarrow> gostr" where
  "slice_loop k i [] = []"
| "slice_loop k i (x # xs) = (if i > 0 then lit '','' else []) @ slice_elem k x @ slice_loop k (i + 1) xs"

definition NewIntSliceField :: "intT \<Rightarrow> gostr \<Rightarrow> int list \<Rightarrow> 'u field" where
  "NewIntSliceField k key xs = zero_field\<lparr>fname := key, fstring := slice_loop k 0 xs, fieldType := StringType\<rparr>"

definition Expand :: "'u field list \<Rightarrow> 'u gval list" where
  "Expand fs = concat (map (\<lambda>f. [GString (fname f), Value f]) fs)"

lemma slice_loop_Join: "slice_loop k i xs = (if i > 0 \<and> xs \<noteq> [] then lit '','' else []) @ Join (map (slice_elem k) xs) (lit '','')"
proof (induction xs arbitrary: i)
  case (Cons x xs)
  then show ?case by (cases xs) auto
qed simp

text \<open>An int-slice field prints the decimal values of its elements, separated by commas, for
  every integer type except \<open>uint\<close>: each element in the range of its type survives the
  conversion to \<open>int64\<close>.\<close>

lemma NewIntSliceField_prints:
  assumes "k \<noteq> Kuint" "\<forall>x \<in> set xs. int_range k x"
  shows "fstring (NewIntSliceField k key xs) = Join (map int_str xs) (lit '','')"
proof -
  have "slice_elem k x = int_str x" if "x \<in> set xs" for x
  proof (cases "k = Kuint64")
    case False
    then have "- (2 ^ 63) \<le> x" "x < 2 ^ 63" using assms that by (cases k; force)+
    then have "sint (word_of_int x :: 64 word) = x" by (simp add: sint_sbintrunc' signed_take_bit_int_eq_self)
    with False show ?thesis by (simp add: slice_elem_def)
  qed (simp add: slice_elem_def)
  then have "map (slice_elem k) xs = map int_str xs" by simp
  then show ?thesis unfolding NewIntSliceField_def slice_loop_Join by (simp cong: map_cong)
qed

lemma NewIntSliceField_prints_witness:
  "fstring (NewIntSliceField Kint8 (lit ''k'') [-128, 5] :: unit field) = lit ''-128,5''"
  using NewIntSliceField_prints[of Kint8 "[-128, 5]" "lit ''k''"]
  by (simp add: int_str_def nat_str.simps lit_def)

text \<open>A large \<open>uint\<close> is printed as a negative number: only \<open>uint64\<close> has its own case.\<close>

lemma NewIntSliceField_uint_wraps:
  "fstring (NewIntSliceField Kuint (lit ''k'') [2 ^ 64 - 1] :: unit field) = lit ''-1''"
  by (simp add: NewIntSliceField_def slice_elem_def int_str_def nat_str.simps lit_def)

subsection \<open>State\<close>

datatype style = Plain | Formatted | Keyed | Structured

datatype 'u zop = Named gostr | ZWith "gostr \<times> 'u gval" | SWith "'u gval list"

record ('m, 'u) lentry =
  e_level :: nat
  e_style :: style
  e_zap :: "'u zop list"
  e_msg :: 'm

record ('m, 'u) factoryConfig =
  rootLevel :: nat
  enableNameInLog :: bool
  enableStackTrace :: bool
  levelConfig :: "gostr \<Rightarrow> nat option"
  levelConfigCache :: "gostr \<Rightarrow> nat option"
  out :: "('m, 'u) lentry list"

datatype 'u logger = Logger (lname: gostr) (zap: "'u zop list") (sugaredZap: "'u zop list") (parent: "'u logger option")

definition NewLogger :: "'u logger" where
  "NewLogger = Logger [] [] [] None"

definition SetLogLevel :: "gostr \<Rightarrow> gostr \<Rightarrow> ('m, 'u) factoryConfig \<Rightarrow> gostr option \<times> ('m, 'u) factoryConfig" where
  "SetLogLevel nm levelStr fc =
     (case levelMap levelStr of
        None \<Rightarrow> (Some (lit ''invalid level value : '' @ levelStr), fc)
      | Some level \<Rightarrow>
          let fc1 = (if nm = [] then fc\<lparr>rootLevel := level\<rparr> else fc\<lparr>levelConfig := (levelConfig fc)(nm \<mapsto> level)\<rparr>)
          in (None, fc1\<lparr>levelConfigCache := Map.empty\<rparr>))"

definition getOrSetLogLevel :: "gostr \<Rightarrow> (('m, 'u) factoryConfig \<Rightarrow> (nat \<times> ('m, 'u) factoryConfig) option) \<Rightarrow>
    ('m, 'u) factoryConfig \<Rightarrow> (nat \<times> ('m, 'u) factoryConfig) option" where
  "getOrSetLogLevel nm parentLevelFunc fc =
     (if nm = [] then Some (rootLevel fc, fc)
      else case levelConfigCache fc nm of
        Some level \<Rightarrow> Some (level, fc)
      | None \<Rightarrow>
          (case (case levelConfig fc nm of Some level \<Rightarrow> Some (level, fc) | None \<Rightarrow> parentLevelFunc fc) of
             None \<Rightarrow> None
           | Some (level, fc1) \<Rightarrow>
               Some (level, fc1\<lparr>levelConfigCache := (levelConfigCache fc1)(nm \<mapsto> level)\<rparr>)))"

lemma getOrSet_cong [fundef_cong]:
  "nm = nm' \<Longrightarrow> fc = fc' \<Longrightarrow> (nm' \<noteq> [] \<Longrightarrow> f fc' = g fc') \<Longrightarrow> getOrSetLogLevel nm f fc = getOrSetLogLevel nm' g fc'"
  by (auto simp: getOrSetLogLevel_def split: option.split)

fun getLoggingLevel :: "'u logger \<Rightarrow> ('m, 'u) factoryConfig \<Rightarrow> (nat \<times> ('m, 'u) factoryConfig) option" where
  "getLoggingLevel (Logger nm z sz None) fc = getOrSetLogLevel nm (\<lambda>_. None) fc"
| "getLoggingLevel (Logger nm z sz (Some p)) fc = getOrSetLogLevel nm (getLoggingLevel p) fc"

definition IsDebugLevel :: "'u logger \<Rightarrow> ('m, 'u) factoryConfig \<Rightarrow> (bool \<times> ('m, 'u) factoryConfig) option" where
  "IsDebugLevel l fc = (case getLoggingLevel l fc of None \<Rightarrow> None | Some (lv, fc1) \<Rightarrow> Some (levelDebug \<ge> lv, fc1))"

definition Child :: "('m, 'u) factoryConfig \<Rightarrow> gostr \<Rightarrow> 'u logger \<Rightarrow> 'u logger" where
  "Child fc s l =
     (if s = [] then l
      else Logger (if lname l = [] then s else Join [lname l, s] (lit ''.''))
             (if enableNameInLog fc then zap l @ [Named s] else zap l)
             (if enableNameInLog fc then sugaredZap l @ [Named s] else sugaredZap l) (Some l))"

definition Withn :: "'u field list \<Rightarrow> 'u logger \<Rightarrow> 'u logger" where
  "Withn args l = Logger (lname l) (zap l @ map (\<lambda>f. ZWith (toZap f)) args) (sugaredZap l) (parent l)"

subsection \<open>The methods\<close>

definition emit :: "nat \<Rightarrow> style \<Rightarrow> 'u zop list \<Rightarrow> 'm \<Rightarrow> ('m, 'u) factoryConfig \<Rightarrow> ('m, 'u) factoryConfig" where
  "emit lv st z msg fc = fc\<lparr>out := out fc @ [\<lparr>e_level = lv, e_style = st, e_zap = z, e_msg = msg\<rparr>]\<rparr>"

text \<open>
  Debug, Info, Warn and Error in their four styles: \<open>lv\<close> is the level of the method, which is
  also the level of the zap method it calls.
\<close>

definition log_call :: "style \<Rightarrow> nat \<Rightarrow> 'u logger \<Rightarrow> 'm \<Rightarrow> ('m, 'u) factoryConfig \<Rightarrow> ('m, 'u) factoryConfig option" where
  "log_call st lv l msg fc =
     (case getLoggingLevel l fc of
        None \<Rightarrow> None
      | Some (cur, fc1) \<Rightarrow>
          Some (if lv \<ge> cur then emit lv st (if st = Structured then zap l else sugaredZap l) msg fc1 else fc1))"

definition Debug where "Debug = log_call Plain levelDebug"
definition Info where "Info = log_call Plain levelInfo"
definition Warn where "Warn = log_call Plain levelWarn"
definition Error where "Error = log_call Plain levelError"
definition Debugf where "Debugf = log_call Formatted levelDebug"
definition Infof where "Infof = log_call Formatted levelInfo"
definition Warnf where "Warnf = log_call Formatted levelWarn"
definition Errorf where "Errorf = log_call Formatted levelError"
definition Debugw where "Debugw = log_call Keyed levelDebug"
definition Infow where "Infow = log_call Keyed levelInfo"
definition Warnw where "Warnw = log_call Keyed levelWarn"
definition Errorw where "Errorw = log_call Keyed levelError"
definition Debugn where "Debugn = log_call Structured levelDebug"
definition Infon where "Infon = log_call Structured levelInfo"
definition Warnn where "Warnn = log_call Structured levelWarn"
definition Errorn where "Errorn = log_call Structured levelError"

text \<open>The Fatal methods log at zap's error level, whatever the level, and then the stack.\<close>

definition fatal_call :: "style \<Rightarrow> 'u logger \<Rightarrow> 'm \<Rightarrow> 'm \<Rightarrow> ('m, 'u) factoryConfig \<Rightarrow> ('m, 'u) factoryConfig" where
  "fatal_call st l msg stackTrace fc =
     (let z = (if st = Structured then zap l else sugaredZap l);
          fc1 = emit levelError st z msg fc
      in if \<not> enableStackTrace fc1 then emit levelError (if st = Structured then Structured else Plain) z stackTrace fc1 else fc1)"

definition Fatal where "Fatal = fatal_call Plain"
definition Fatalf where "Fatalf = fatal_call Formatted"
definition Fatalw where "Fatalw = fatal_call Keyed"
definition Fataln where "Fataln = fatal_call Structured"

text \<open>\<open>LogRequest\<close> reads the body, puts an equal one back, and logs it at zap's debug level.\<close>

definition LogRequest :: "'u logger \<Rightarrow> (gostr \<Rightarrow> 'm) \<Rightarrow> gostr \<Rightarrow> ('m, 'u) factoryConfig \<Rightarrow> (gostr \<times> ('m, 'u) factoryConfig) option" where
  "LogRequest l mk body fc =
     (case getLoggingLevel l fc of
        None \<Rightarrow> None
      | Some (cur, fc1) \<Rightarrow>
          Some (if levelEvent \<ge> cur then (body, emit levelDebug Structured (zap l) (mk body) fc1) else (body, fc1)))"

text \<open>
  \<open>With\<close>: the pairs are added to the structured logger until a key is not a string; the warning's
  arguments name the parent. The index runs over pairs.
\<close>

fun with_pairs :: "'m \<Rightarrow> 'u logger \<Rightarrow> 'u logger \<Rightarrow> 'u gval list \<Rightarrow> ('m, 'u) factoryConfig \<Rightarrow>
    ('u logger \<times> ('m, 'u) factoryConfig) option" where
  "with_pairs warning l cp (k # x # r) fc =
     (case k of
        GString key \<Rightarrow> with_pairs warning l (Logger (lname cp) (zap cp @ [ZWith (key, x)]) (sugaredZap cp) (parent cp)) r fc
      | _ \<Rightarrow> (case parent l of
                None \<Rightarrow> None
              | Some p \<Rightarrow> (case Warnw cp warning fc of None \<Rightarrow> None | Some fc1 \<Rightarrow> Some (cp, fc1))))"
| "with_pairs warning l cp _ fc = Some (cp, fc)"

definition With :: "'m \<Rightarrow> 'u gval list \<Rightarrow> 'u logger \<Rightarrow> ('m, 'u) factoryConfig \<Rightarrow> ('u logger \<times> ('m, 'u) factoryConfig) option" where
  "With warning args l fc =
     with_pairs warning l (Logger (lname l) (zap l) (sugaredZap l @ [SWith args]) (parent l)) args fc"

subsection \<open>Module levels\<close>

definition parse_pair :: "gostr \<Rightarrow> (gostr \<times> nat) option" where
  "parse_pair kv =
     (case split2 61 kv of
        None \<Rightarrow> None
      | Some (a, b) \<Rightarrow>
          let module = TrimSpace a
          in if module = [] then None
             else (case levelMap (TrimSpace b) of None \<Rightarrow> None | Some level \<Rightarrow> Some (module, level)))"

fun set_levels :: "gostr list \<Rightarrow> (gostr \<Rightarrow> nat option) \<Rightarrow> gostr \<Rightarrow> nat option" where
  "set_levels [] lc = lc"
| "set_levels (kv # r) lc =
     (case parse_pair kv of None \<Rightarrow> set_levels r lc | Some (mo, level) \<Rightarrow> set_levels r (lc(mo \<mapsto> level)))"

text \<open>\<open>newConfig\<close> from the values of its four settings; an unknown LOG_LEVEL reads 0 from the map.\<close>

definition newConfig :: "gostr \<Rightarrow> bool \<Rightarrow> bool \<Rightarrow> gostr \<Rightarrow> ('m, 'u) factoryConfig" where
  "newConfig log_level name_in_log stack_trace module_levels =
     (let levelConfigStr = TrimSpace module_levels in
      \<lparr>rootLevel = (case levelMap log_level of Some lv \<Rightarrow> lv | None \<Rightarrow> 0), enableNameInLog = name_in_log,
       enableStackTrace = stack_trace,
       levelConfig = (if levelConfigStr \<noteq> [] then set_levels (split_on 58 levelConfigStr) Map.empty else Map.empty),
       levelConfigCache = Map.empty, out = []\<rparr>)"

subsection \<open>Levels as inherited\<close>

text \<open>
  The level of the logger whose name has the segments \<open>ss\<close>: that of the longest configured
  prefix, or the root level.
\<close>

definition nm_of :: "gostr list \<Rightarrow> gostr" where
  "nm_of ss = Join ss (lit ''.'')"

fun level_rev :: "(gostr \<Rightarrow> nat option) \<Rightarrow> nat \<Rightarrow> gostr list \<Rightarrow> nat" where
  "level_rev lc root [] = root"
| "level_rev lc root (s # ss) = (case lc (nm_of (rev (s # ss))) of Some lv \<Rightarrow> lv | None \<Rightarrow> level_rev lc root ss)"

definition level_of :: "('m, 'u) factoryConfig \<Rightarrow> gostr list \<Rightarrow> nat" where
  "level_of fc ss = level_rev (levelConfig fc) (rootLevel fc) (rev ss)"

text \<open>A segment: not empty and without dots.\<close>

definition seg :: "gostr \<Rightarrow> bool" where
  "seg s \<longleftrightarrow> s \<noteq> [] \<and> 46 \<notin> set s"

text \<open>Loggers that are made with one segment at a time, and their segments.\<close>

inductive logger_ok :: "'u logger \<Rightarrow> gostr list \<Rightarrow> bool" where
  ok_root: "logger_ok (Logger [] z sz None) []"
| ok_child: "logger_ok p ss \<Longrightarrow> seg s \<Longrightarrow> logger_ok (Logger (nm_of (ss @ [s])) z sz (Some p)) (ss @ [s])"

lemma logger_ok_name: "logger_ok l ss \<Longrightarrow> lname l = nm_of ss \<and> (\<forall>s \<in> set ss. seg s)"
  by (induction rule: logger_ok.induct) (auto simp: nm_of_def)

lemma nm_of_Nil [simp]: "(\<forall>s \<in> set ss. seg s) \<Longrightarrow> nm_of ss = [] \<longleftrightarrow> ss = []"
  by (cases ss; cases "tl ss") (auto simp: nm_of_def seg_def)

lemma nm_of_inj: "\<forall>s \<in> set xs. seg s \<Longrightarrow> \<forall>s \<in> set ys. seg s \<Longrightarrow> nm_of xs = nm_of ys \<longleftrightarrow> xs = ys"
  using Join_inject[of xs 46 ys] nm_of_Nil[of xs] nm_of_Nil[of ys]
  by (cases "xs = [] \<or> ys = []") (auto simp: nm_of_def seg_def lit_def)

lemma nm_of_snoc: "ss \<noteq> [] \<Longrightarrow> nm_of (ss @ [s]) = nm_of ss @ lit ''.'' @ s"
  by (simp add: nm_of_def Join_snoc)

lemma logger_ok_Child: "logger_ok l ss \<Longrightarrow> seg s \<Longrightarrow> logger_ok (Child fc s l) (ss @ [s])"
proof -
  assume l: "logger_ok l ss" and s: "seg s"
  have "(if lname l = [] then s else Join [lname l, s] (lit ''.'')) = nm_of (ss @ [s])"
  proof (cases "ss = []")
    case True
    then show ?thesis using logger_ok_name[OF l] by (simp add: nm_of_def)
  next
    case False
    then show ?thesis using logger_ok_name[OF l] nm_of_Nil[of ss] by (simp add: nm_of_snoc)
  qed
  then show ?thesis using ok_child[OF l s] s by (simp add: Child_def seg_def)
qed

lemma logger_ok_Withn: "logger_ok l ss \<Longrightarrow> logger_ok (Withn args l) ss"
  by (induction rule: logger_ok.induct) (auto simp: Withn_def intro: logger_ok.intros)

text \<open>The cache holds the inherited level of the logger that the cached name denotes.\<close>

definition cache_ok :: "('m, 'u) factoryConfig \<Rightarrow> bool" where
  "cache_ok fc \<longleftrightarrow> (\<forall>nm lv. levelConfigCache fc nm = Some lv \<longrightarrow>
     (\<exists>ss. (\<forall>s \<in> set ss. seg s) \<and> ss \<noteq> [] \<and> nm = nm_of ss \<and> lv = level_of fc ss))"

lemma level_of_snoc:
  "level_of fc (ss @ [s]) = (case levelConfig fc (nm_of (ss @ [s])) of Some lv \<Rightarrow> lv | None \<Rightarrow> level_of fc ss)"
  by (simp add: level_of_def split: option.split)

lemma level_of_cache [simp]: "level_of (fc\<lparr>levelConfigCache := ca\<rparr>) = level_of fc"
  by (rule ext) (simp add: level_of_def)

lemma getLoggingLevel_level_of:
  "logger_ok l ss \<Longrightarrow> cache_ok fc \<Longrightarrow>
   \<exists>ca. getLoggingLevel l fc = Some (level_of fc ss, fc\<lparr>levelConfigCache := ca\<rparr>)
      \<and> cache_ok (fc\<lparr>levelConfigCache := ca\<rparr>)"
proof (induction arbitrary: fc rule: logger_ok.induct)
  case (ok_root z sz)
  then show ?case by (intro exI[of _ "levelConfigCache fc"]) (simp add: getOrSetLogLevel_def level_of_def)
next
  case (ok_child p ss s z sz)
  let ?nm = "nm_of (ss @ [s])"
  have segs: "\<forall>x \<in> set (ss @ [s]). seg x" using logger_ok_name[OF ok_child(1)] ok_child(2) by simp
  then have ne: "?nm \<noteq> []" using nm_of_Nil[OF segs] by simp
  show ?case
  proof (cases "levelConfigCache fc ?nm")
    case (Some lv)
    then obtain ss' where "\<forall>x \<in> set ss'. seg x" "?nm = nm_of ss'" "lv = level_of fc ss'"
      using ok_child.prems by (auto simp: cache_ok_def)
    then have "lv = level_of fc (ss @ [s])" using nm_of_inj[OF segs] by metis
    then show ?thesis using Some ne ok_child.prems
      by (intro exI[of _ "levelConfigCache fc"]) (simp add: getOrSetLogLevel_def)
  next
    case None
    have upd: "cache_ok (fc\<lparr>levelConfigCache := ca(?nm \<mapsto> level_of fc (ss @ [s]))\<rparr>)"
      if "cache_ok (fc\<lparr>levelConfigCache := ca\<rparr>)" for ca
      unfolding cache_ok_def
    proof (intro allI impI)
      fix nm lv assume a: "levelConfigCache (fc\<lparr>levelConfigCache := ca(?nm \<mapsto> level_of fc (ss @ [s]))\<rparr>) nm = Some lv"
      show "\<exists>ss'. (\<forall>s \<in> set ss'. seg s) \<and> ss' \<noteq> [] \<and> nm = nm_of ss'
          \<and> lv = level_of (fc\<lparr>levelConfigCache := ca(?nm \<mapsto> level_of fc (ss @ [s]))\<rparr>) ss'"
      proof (cases "nm = ?nm")
        case True
        then show ?thesis using a segs by (intro exI[of _ "ss @ [s]"]) simp
      next
        case False
        then show ?thesis using a that by (simp add: cache_ok_def)
      qed
    qed
    show ?thesis
    proof (cases "levelConfig fc ?nm")
      case (Some lv)
      then show ?thesis using None ne upd[of "levelConfigCache fc"] ok_child.prems
        by (auto simp: getOrSetLogLevel_def level_of_snoc)
    next
      case lc: None
      obtain ca where "getLoggingLevel p fc = Some (level_of fc ss, fc\<lparr>levelConfigCache := ca\<rparr>)"
        "cache_ok (fc\<lparr>levelConfigCache := ca\<rparr>)"
        using ok_child.IH[OF ok_child.prems] by blast
      then show ?thesis using None lc ne upd[of ca]
        by (auto simp: getOrSetLogLevel_def level_of_snoc)
    qed
  qed
qed

subsection \<open>Runs\<close>

text \<open>The states of a factory whose loggers are all made with one segment at a time.\<close>

inductive freach :: "('m, 'u) factoryConfig \<Rightarrow> bool" where
  f_new: "freach (newConfig lv nl st ml)"
| f_set: "freach fc \<Longrightarrow> SetLogLevel nm s fc = (e, fc') \<Longrightarrow> freach fc'"
| f_log: "freach fc \<Longrightarrow> logger_ok l ss \<Longrightarrow> log_call st lv l msg fc = Some fc' \<Longrightarrow> freach fc'"
| f_fatal: "freach fc \<Longrightarrow> freach (fatal_call st l msg trace fc)"

lemma cache_ok_out [simp]: "cache_ok (fc\<lparr>out := xs\<rparr>) = cache_ok fc"
  by (simp add: cache_ok_def level_of_def)

lemma cache_ok_emit [simp]: "cache_ok (emit lv st z msg fc) = cache_ok fc"
  by (simp add: emit_def)

lemma log_call_eq:
  assumes "logger_ok l ss" "cache_ok fc"
  shows "\<exists>ca. log_call st lv l msg fc = Some ((if lv \<ge> level_of fc ss
       then emit lv st (if st = Structured then zap l else sugaredZap l) msg fc else fc)\<lparr>levelConfigCache := ca\<rparr>)
     \<and> cache_ok (fc\<lparr>levelConfigCache := ca\<rparr>)"
proof -
  obtain ca where "getLoggingLevel l fc = Some (level_of fc ss, fc\<lparr>levelConfigCache := ca\<rparr>)"
    "cache_ok (fc\<lparr>levelConfigCache := ca\<rparr>)"
    using getLoggingLevel_level_of[OF assms] by blast
  then show ?thesis by (intro exI[of _ ca]) (simp add: log_call_def emit_def)
qed

lemma cache_ok_cache: "cache_ok (fc\<lparr>levelConfigCache := ca\<rparr>) \<Longrightarrow>
    levelConfig fc' = levelConfig fc \<Longrightarrow> rootLevel fc' = rootLevel fc \<Longrightarrow> cache_ok (fc'\<lparr>levelConfigCache := ca\<rparr>)"
  by (simp add: cache_ok_def level_of_def)

lemma freach_cache_ok: "freach fc \<Longrightarrow> cache_ok fc"
proof (induction rule: freach.induct)
  case (f_new lv nl st ml)
  then show ?case by (simp add: newConfig_def cache_ok_def Let_def)
next
  case (f_set fc nm s e fc')
  then show ?case
    by (auto simp: SetLogLevel_def Let_def cache_ok_def split: option.splits)
next
  case (f_log fc l ss st lv msg fc')
  then obtain ca where "fc' = (if lv \<ge> level_of fc ss
       then emit lv st (if st = Structured then zap l else sugaredZap l) msg fc else fc)\<lparr>levelConfigCache := ca\<rparr>"
    "cache_ok (fc\<lparr>levelConfigCache := ca\<rparr>)"
    using log_call_eq[OF f_log(2,4), of st lv msg] by auto
  then show ?case by (auto simp: emit_def intro!: cache_ok_cache[where fc = fc])
next
  case (f_fatal fc st l msg trace)
  then show ?case by (simp add: fatal_call_def Let_def)
qed

subsection \<open>Properties\<close>




text \<open>Setting the level of a module with a valid level name takes effect at once for the logger
  of that name and for every descendant without a longer configured prefix, whatever was
  cached; an unknown level name is an error and changes nothing.\<close>

lemma SetLogLevel_effective:
  assumes "freach fc" "logger_ok l ss" "ss \<noteq> []"
  shows "(levelMap s = None \<longrightarrow> SetLogLevel (lname l) s fc = (Some (lit ''invalid level value : '' @ s), fc))
    \<and> (\<forall>lv. levelMap s = Some lv \<longrightarrow> (\<exists>fc' fc''. SetLogLevel (lname l) s fc = (None, fc')
        \<and> getLoggingLevel l fc' = Some (lv, fc'')))"
proof (intro conjI allI impI)
  assume "levelMap s = None"
  then show "SetLogLevel (lname l) s fc = (Some (lit ''invalid level value : '' @ s), fc)" by (simp add: SetLogLevel_def)
next
  fix lv assume lv: "levelMap s = Some lv"
  note n = logger_ok_name[OF assms(2)]
  obtain ss' x where ss: "ss = ss' @ [x]" using assms(3) by (cases ss rule: rev_cases) auto
  have "lname l \<noteq> []" using n nm_of_Nil[of ss] assms(3) by simp
  then obtain fc' where fc': "SetLogLevel (lname l) s fc = (None, fc')" "levelConfig fc' (lname l) = Some lv"
    using lv by (simp add: SetLogLevel_def)
  have "cache_ok fc'" by (rule freach_cache_ok[OF f_set[OF assms(1) fc'(1)]])
  then obtain ca where "getLoggingLevel l fc' = Some (level_of fc' ss, fc'\<lparr>levelConfigCache := ca\<rparr>)"
    using getLoggingLevel_level_of[OF assms(2)] by blast
  moreover have "level_of fc' ss = lv" using fc'(2) n unfolding ss by (simp add: level_of_snoc)
  ultimately show "\<exists>fc' fc''. SetLogLevel (lname l) s fc = (None, fc') \<and> getLoggingLevel l fc' = Some (lv, fc'')"
    using fc'(1) by blast
qed

lemma SetLogLevel_effective_witness:
  "\<exists>fc' fc''. SetLogLevel (lit ''a'') (lit ''WARN'') (newConfig (lit ''INFO'') True False [] :: (unit, unit) factoryConfig) = (None, fc')
     \<and> getLoggingLevel (Logger (lit ''a'') [] [] (Some NewLogger) :: unit logger) fc' = Some (levelWarn, fc'')"
proof -
  have "logger_ok (Logger (lit ''a'') [] [] (Some NewLogger) :: unit logger) [lit ''a'']"
    using ok_child[OF ok_root, of "lit ''a''" "[]" "[]" "[]" "[]"] by (simp add: NewLogger_def seg_def nm_of_def lit_def)
  note e = SetLogLevel_effective[OF f_new[of "lit ''INFO''" True False "[]"] this, where s = "lit ''WARN''"]
  have "levelMap (lit ''WARN'') = Some levelWarn" by (simp add: levelMap_def lit_def)
  then show ?thesis using e by (simp del: getLoggingLevel.simps)
qed

text \<open>The printed form of module levels.\<close>

definition level_pair :: "gostr \<times> gostr \<Rightarrow> gostr" where
  "level_pair p = fst p @ 61 # snd p"

definition clean :: "gostr \<Rightarrow> bool" where
  "clean s \<longleftrightarrow> s \<noteq> [] \<and> 58 \<notin> set s \<and> 61 \<notin> set s \<and> \<not> is_space (hd s) \<and> \<not> is_space (last s)"

lemma levelMap_clean: "levelMap s = Some lv \<Longrightarrow> clean s"
  by (auto simp: levelMap_def lit_def clean_def is_space_def split: if_splits)

lemma parse_level_pair:
  "clean a \<Longrightarrow> levelMap b = Some lv \<Longrightarrow> parse_pair (level_pair (a, b)) = Some (a, lv)"
  using levelMap_clean[of b lv]
  by (simp add: parse_pair_def level_pair_def split2_append clean_def TrimSpace_id)

lemma set_levels_pairs:
  "\<forall>(a, b) \<in> set ps. clean a \<and> levelMap b \<noteq> None \<Longrightarrow>
   set_levels (map level_pair ps) lc = fold (\<lambda>(a, b) m. m(a \<mapsto> the (levelMap b))) ps lc"
  by (induction ps arbitrary: lc) (auto simp: parse_level_pair)

text \<open>The module levels setting is parsed back exactly: a list of module=LEVEL pairs joined by
  colons, with clean module names and known levels, configures each module with its level,
  the last pair winning.\<close>

lemma module_levels_roundtrip:
  assumes "\<forall>(a, b) \<in> set ps. clean a \<and> levelMap b \<noteq> None"
  shows "levelConfig (newConfig lv nl st (Join (map level_pair ps) (lit '':'')) :: ('m, 'u) factoryConfig)
    = fold (\<lambda>(a, b) m. m(a \<mapsto> the (levelMap b))) ps Map.empty"
proof (cases "ps = []")
  case True
  then show ?thesis by (simp add: newConfig_def TrimSpace_def)
next
  case False
  let ?s = "Join (map level_pair ps) (lit '':'')"
  have cl: "clean a" "clean b" if "(a, b) \<in> set ps" for a b
    using assms that levelMap_clean by fastforce+
  have np: "\<forall>w \<in> set (map level_pair ps). 58 \<notin> set w"
    using cl by (fastforce simp: level_pair_def clean_def)
  have h: "hd ?s = hd (fst (hd ps)) \<and> ?s \<noteq> []"
  proof -
    obtain a b r where "ps = (a, b) # r" using False by (metis list.exhaust prod.exhaust)
    then show ?thesis using cl[of a b] by (cases r) (auto simp: level_pair_def clean_def)
  qed
  have l: "last ?s = last (snd (last ps))"
  proof -
    obtain a b r where ps: "ps = r @ [(a, b)]" using False by (metis rev_exhaust prod.exhaust)
    then have "b \<noteq> []" using cl[of a b] by (simp add: clean_def)
    then show ?thesis by (cases "r = []") (auto simp: ps level_pair_def Join_snoc)
  qed
  have "clean (fst (hd ps))" "clean (snd (last ps))"
    using cl[of "fst (hd ps)" "snd (hd ps)"] cl[of "fst (last ps)" "snd (last ps)"] False by auto
  then have t: "TrimSpace ?s = ?s" using h l by (intro TrimSpace_id) (auto simp: clean_def)
  have "split_on 58 ?s = map level_pair ps"
    using split_on_Join[OF _ np] False by (simp add: lit_def)
  then show ?thesis using t h set_levels_pairs[OF assms] by (simp add: newConfig_def Let_def)
qed

lemma module_levels_roundtrip_witness:
  "levelConfig (newConfig [] True False (lit ''router.GA=DEBUG:warehouse=WARN'') :: (unit, unit) factoryConfig)
     = [lit ''router.GA'' \<mapsto> levelDebug, lit ''warehouse'' \<mapsto> levelWarn]"
  using module_levels_roundtrip[of "[(lit ''router.GA'', lit ''DEBUG''), (lit ''warehouse'', lit ''WARN'')]" "[]" True False]
  by (simp add: clean_def lit_def is_space_def levelMap_def level_pair_def)

subsection \<open>What can go wrong\<close>

text \<open>\<open>With\<close> on a root logger with a key that is not a string dereferences the nil parent.\<close>

lemma With_root_panics: "With w [GInt 1, x] NewLogger fc = None"
  by (simp add: With_def NewLogger_def)

text \<open>
  A name with a dot made in one step and the same name made in two share a cache entry, though
  they inherit from different parents: whoever logs first decides the level of both.
\<close>

lemma cache_shared_by_name:
  "let fc = newConfig (lit ''ERROR'') False False (lit ''a=DEBUG'') :: (unit, unit) factoryConfig;
       one = Child fc (lit ''a.b'') NewLogger;
       two = Child fc (lit ''b'') (Child fc (lit ''a'') NewLogger)
   in map_option fst (getLoggingLevel one fc) = Some levelError
    \<and> map_option fst (getLoggingLevel two fc) = Some levelDebug
    \<and> (\<exists>fc'. getLoggingLevel one fc = Some (levelError, fc') \<and> map_option fst (getLoggingLevel two fc') = Some levelError)"
  by (simp add: Let_def newConfig_def TrimSpace_def is_space_def parse_pair_def split2_def levelMap_def Child_def
      NewLogger_def getOrSetLogLevel_def lit_def levelError_def levelDebug_def levelEvent_def levelInfo_def
      levelWarn_def levelFatal_def)

text \<open>
  \<open>getOrSetLogLevel\<close> is not one critical section: when the level changes between the computation
  and the write to the cache, the stale level enters the new cache.
\<close>

lemma stale_level_race:
  assumes "levelMap s = Some lv" "lv \<noteq> old" "nm \<noteq> []" "levelConfig fc nm = Some old"
  defines "fc1 \<equiv> snd (SetLogLevel nm s fc)"
  defines "fc2 \<equiv> fc1\<lparr>levelConfigCache := (levelConfigCache fc1)(nm \<mapsto> old)\<rparr>"
  shows "levelConfig fc2 nm = Some lv \<and> getLoggingLevel (Logger nm z sz (Some p)) fc2 = Some (old, fc2)"
  using assms by (simp add: SetLogLevel_def getOrSetLogLevel_def)

end
