(* ===== verification/Partmap.thy ===== *)
theory Partmap
  imports Kit_Prelude "HOL-Library.AList"
begin

text \<open>
  The partition mappings of \<open>partmap/partitionmapping.go\<close> and the partitioner of
  \<open>partmap/murmur.go\<close>. A Go map is the list of its pairs, with distinct keys, in the order in
  which \<open>range\<close> visits them. The hash (murmur3) and gzip are parameters: \<open>gz\<close> compresses, \<open>gunz\<close>
  decompresses or fails, and the code relies on \<open>gunz (gz bs) = Some bs\<close>.
\<close>

type_synonym PartitionRangeStart = u32
type_synonym PartitionIndex = u16
type_synonym NodeIndex = u16
type_synonym PartitionMapping = "(u32 \<times> u16) list"
type_synonym PartitionIndexMapping = "(u16 \<times> u16) list"

subsection \<open>Bytes\<close>

unbundle bit_operations_syntax

definition be32 :: "u32 \<Rightarrow> byte list" where
  "be32 w = [ucast (drop_bit 24 w), ucast (drop_bit 16 w), ucast (drop_bit 8 w), ucast w]"

definition be16 :: "u16 \<Rightarrow> byte list" where
  "be16 w = [ucast (drop_bit 8 w), ucast w]"

fun read32 :: "byte list \<Rightarrow> (u32 \<times> byte list) option" where
  "read32 (a # b # c # d # r) =
     Some (ucast d OR push_bit 8 (ucast c) OR push_bit 16 (ucast b) OR push_bit 24 (ucast a), r)"
| "read32 _ = None"

fun read16 :: "byte list \<Rightarrow> (u16 \<times> byte list) option" where
  "read16 (a # b # r) = Some (ucast b OR push_bit 8 (ucast a), r)"
| "read16 _ = None"

definition Marshal :: "(byte list \<Rightarrow> byte list) \<Rightarrow> PartitionMapping \<Rightarrow> byte list" where
  "Marshal gz pm = gz (be32 (word_of_nat (length pm))
     @ concat (map (\<lambda>(part, nodeIdx). be32 part @ be16 nodeIdx) pm))"

datatype unmarshal_error = CreatingReader | ReadingLength | ReadingInt | ReadingShort

text \<open>The loop of \<open>Unmarshal\<close>; the mapping read so far stays in the receiver on an error.\<close>

fun unmarshal_loop :: "nat \<Rightarrow> byte list \<Rightarrow> PartitionMapping \<Rightarrow> unmarshal_error option \<times> PartitionMapping" where
  "unmarshal_loop 0 r pm = (None, pm)"
| "unmarshal_loop (Suc n) r pm =
     (case read32 r of
        None \<Rightarrow> (Some ReadingInt, pm)
      | Some (part, r1) \<Rightarrow>
          (case read16 r1 of
             None \<Rightarrow> (Some ReadingShort, pm)
           | Some (nodeIdx, r2) \<Rightarrow> unmarshal_loop n r2 (AList.update part nodeIdx pm)))"

definition Unmarshal :: "(byte list \<Rightarrow> byte list option) \<Rightarrow> byte list \<Rightarrow> PartitionMapping \<Rightarrow>
    unmarshal_error option \<times> PartitionMapping" where
  "Unmarshal gunz data pm =
     (case gunz data of
        None \<Rightarrow> (Some CreatingReader, pm)
      | Some r \<Rightarrow> (case read32 r of
                    None \<Rightarrow> (Some ReadingLength, pm)
                  | Some (listLength, r1) \<Rightarrow> unmarshal_loop (unat listLength) r1 []))"

subsection \<open>Conversions\<close>

definition window :: "u32 \<Rightarrow> u32" where
  "window numPartitions = word_of_nat (2 ^ 32 div unat numPartitions)"

datatype conv_error = ZeroPartitions | WrongLength | NotAligned u32 | OutOfRange

fun to_index_loop :: "u32 \<Rightarrow> PartitionMapping \<Rightarrow> PartitionIndexMapping \<Rightarrow> conv_error + PartitionIndexMapping" where
  "to_index_loop w [] result = Inr result"
| "to_index_loop w ((rangeStart, nodeIdx) # pm) result =
     (if rangeStart mod w \<noteq> 0 then Inl (NotAligned rangeStart)
      else to_index_loop w pm (AList.update (ucast (rangeStart div w)) nodeIdx result))"

definition ToPartitionIndexMappingWithNumPartitions ::
  "PartitionMapping \<Rightarrow> u32 \<Rightarrow> conv_error + PartitionIndexMapping" where
  "ToPartitionIndexMappingWithNumPartitions pm numPartitions =
     (if numPartitions = 0 then Inl ZeroPartitions
      else if numPartitions = 1
      then (if length pm \<noteq> 1 then Inl WrongLength
            else Inr [(0, case map_of pm 0 of Some x \<Rightarrow> x | None \<Rightarrow> 0)])
      else to_index_loop (window numPartitions) pm [])"

definition ToPartitionIndexMapping :: "PartitionMapping \<Rightarrow> conv_error + PartitionIndexMapping" where
  "ToPartitionIndexMapping pm = ToPartitionIndexMappingWithNumPartitions pm (word_of_nat (length pm))"

definition ToPartitionMappingWithNumPartitions ::
  "PartitionIndexMapping \<Rightarrow> u32 \<Rightarrow> conv_error + PartitionMapping" where
  "ToPartitionMappingWithNumPartitions pim numPartitions =
     (if numPartitions = 0 then Inl ZeroPartitions
      else if numPartitions = 1
      then (if length pim \<noteq> 1 then Inl WrongLength
            else Inr [(0, case map_of pim 0 of Some x \<Rightarrow> x | None \<Rightarrow> 0)])
      else Inr (fold (\<lambda>(partitionIdx, nodeIdx) result.
                  AList.update (ucast partitionIdx * window numPartitions) nodeIdx result) pim []))"

definition ToPartitionMapping :: "PartitionIndexMapping \<Rightarrow> conv_error + PartitionMapping" where
  "ToPartitionMapping pim = ToPartitionMappingWithNumPartitions pim (word_of_nat (length pim))"

definition ToPartitionRangeStart :: "PartitionIndex \<Rightarrow> u32 \<Rightarrow> conv_error + PartitionRangeStart" where
  "ToPartitionRangeStart partitionIdx numPartitions =
     (if numPartitions = 0 then Inl ZeroPartitions
      else if numPartitions = 1 then Inr 0
      else if partitionIdx \<ge> ucast numPartitions then Inl OutOfRange
      else Inr (ucast partitionIdx * window numPartitions))"

definition ToPartitionIndex :: "PartitionRangeStart \<Rightarrow> u32 \<Rightarrow> conv_error + PartitionIndex" where
  "ToPartitionIndex rangeStart numPartitions =
     (if numPartitions = 0 then Inl ZeroPartitions
      else if numPartitions = 1 then Inr 0
      else Inr (ucast (rangeStart div window numPartitions)))"

text \<open>\<open>None\<close> is the panic of the division by zero.\<close>

definition Murmur3Partition32 :: "(gostr \<Rightarrow> u32) \<Rightarrow> gostr \<Rightarrow> u32 \<Rightarrow> (u32 \<times> u32) option" where
  "Murmur3Partition32 sum32 key numPartitions =
     (if numPartitions = 1 then Some (0, 0)
      else if numPartitions = 0 then None
      else let w = window numPartitions;
               partitionIdx = sum32 key div w
           in Some (partitionIdx, partitionIdx * w))"

subsection \<open>Windows\<close>

lemma unat_window:
  assumes "2 \<le> unat n"
  shows "unat (window n) = 2 ^ 32 div unat n" "0 < unat (window n)"
proof -
  have "2 ^ 32 div unat n \<le> 2 ^ 32 div 2" using assms by (intro div_le_mono2) auto
  then have "2 ^ 32 div unat n < 2 ^ 32" by simp
  then show w: "unat (window n) = 2 ^ 32 div unat n"
    by (simp add: window_def unat_of_nat)
  have "unat n \<le> 2 ^ 32" using unsigned_less[of n, where 'a = nat] by simp
  then show "0 < unat (window n)" using assms by (simp add: w div_greater_zero_iff)
qed

lemma unat_ge2: "n \<noteq> 0 \<Longrightarrow> n \<noteq> 1 \<Longrightarrow> 2 \<le> unat (n :: 'a :: len word)"
proof -
  assume "n \<noteq> 0" "n \<noteq> 1"
  then have "unat n \<noteq> 0" "unat n \<noteq> 1" by (auto simp: word_unat_eq_iff)
  then show ?thesis by simp
qed

lemma idx_window:
  fixes i :: u16 and n :: u32
  assumes "2 \<le> unat n" "unat i < unat n"
  shows "unat (ucast i * window n) = unat i * unat (window n)"
    "ucast i * window n div window n = (ucast i :: u32)" "ucast i * window n mod window n = (0 :: u32)"
proof -
  have "unat i * unat (window n) \<le> unat i * (2 ^ 32 div unat n)" by (simp add: unat_window(1)[OF assms(1)])
  also have "\<dots> < unat n * (2 ^ 32 div unat n)"
    using assms unat_window[OF assms(1)] by (intro mult_strict_right_mono) auto
  also have "\<dots> \<le> 2 ^ 32" by (metis mult.commute div_times_less_eq_dividend)
  finally have lt: "unat i * unat (window n) < 2 ^ 32" .
  have ui: "unat (ucast i :: u32) = unat i" using unsigned_less[of i, where 'a = nat] by (simp add: unsigned_ucast_eq take_bit_nat_eq_self)
  show m: "unat (ucast i * window n) = unat i * unat (window n)"
    using lt ui unat_mult_lem[of "ucast i :: u32" "window n"] by simp
  show "ucast i * window n div window n = (ucast i :: u32)"
    by (rule word_unat_eq_iff[THEN iffD2]) (use unat_window(2)[OF assms(1)] in \<open>simp add: unat_div m ui\<close>)
  show "ucast i * window n mod window n = (0 :: u32)"
    by (rule word_unat_eq_iff[THEN iffD2]) (simp add: unat_mod m)
qed

subsection \<open>Marshalling\<close>

lemma read32_be32 [simp]: "read32 (be32 w @ r) = Some (w, r)"
proof -
  have "ucast (ucast w :: byte) OR push_bit 8 (ucast (ucast (drop_bit 8 w) :: byte))
      OR push_bit 16 (ucast (ucast (drop_bit 16 w) :: byte)) OR push_bit 24 (ucast (ucast (drop_bit 24 w) :: byte)) = w"
  proof (rule bit_word_eqI)
    fix n assume "n < LENGTH(32)"
    then have "n < 8 \<or> (8 \<le> n \<and> n < 16) \<or> (16 \<le> n \<and> n < 24) \<or> (24 \<le> n \<and> n < 32)" by auto
    then show "bit (ucast (ucast w :: byte) OR push_bit 8 (ucast (ucast (drop_bit 8 w) :: byte) :: u32)
      OR push_bit 16 (ucast (ucast (drop_bit 16 w) :: byte)) OR push_bit 24 (ucast (ucast (drop_bit 24 w) :: byte))) n = bit w n"
      by (auto simp: bit_simps)
  qed
  then show ?thesis by (simp add: be32_def)
qed

lemma read16_be16 [simp]: "read16 (be16 w @ r) = Some (w, r)"
proof -
  have "ucast (ucast w :: byte) OR push_bit 8 (ucast (ucast (drop_bit 8 w) :: byte)) = w"
  proof (rule bit_word_eqI)
    fix n assume "n < LENGTH(16)"
    then have "n < 8 \<or> (8 \<le> n \<and> n < 16)" by auto
    then show "bit (ucast (ucast w :: byte) OR push_bit 8 (ucast (ucast (drop_bit 8 w) :: byte) :: u16)) n = bit w n"
      by (auto simp: bit_simps)
  qed
  then show ?thesis by (simp add: be16_def)
qed

lemma update_new: "k \<notin> fst ` set xs \<Longrightarrow> AList.update k x xs = xs @ [(k, x)]"
  by (induction xs) auto

lemma unmarshal_loop_ok:
  "distinct (map fst (acc @ pm)) \<Longrightarrow>
   unmarshal_loop (length pm) (concat (map (\<lambda>(part, nodeIdx). be32 part @ be16 nodeIdx) pm) @ r) acc = (None, acc @ pm)"
proof (induction pm arbitrary: acc)
  case (Cons e pm)
  obtain k x where e: "e = (k, x)" by fastforce
  have "k \<notin> fst ` set acc" using Cons.prems by (auto simp: e)
  then show ?case using Cons.IH[of "acc @ [(k, x)]"] Cons.prems by (simp add: e update_new)
qed simp

lemma update_mod:
  assumes "inj_on f (set (map fst pim))" "distinct (map fst pim)" "\<forall>k \<in> set (map fst pim). f k \<notin> fst ` set acc"
  shows "fold (\<lambda>(k, x) result. AList.update (f k) x result) pim acc = acc @ map (\<lambda>(k, x). (f k, x)) pim"
  using assms
proof (induction pim arbitrary: acc)
  case (Cons e pim)
  obtain k x where e: "e = (k, x)" by fastforce
  have "f k \<notin> fst ` set acc" using Cons.prems by (simp add: e)
  moreover have "\<forall>k' \<in> set (map fst pim). f k' \<notin> fst ` set (acc @ [(f k, x)])"
    using Cons.prems by (auto simp: e inj_on_def)
  ultimately show ?case using Cons.IH[of "acc @ [(f k, x)]"] Cons.prems
    by (simp add: e update_new inj_on_def)
qed simp

lemma to_index_loop_ok:
  assumes "\<forall>(i, x) \<in> set pim. f i mod w = 0 \<and> ucast (f i div w) = i" "distinct (map fst (acc @ pim))"
  shows "to_index_loop w (map (\<lambda>(i, x). (f i, x)) pim) acc = Inr (acc @ pim)"
  using assms
proof (induction pim arbitrary: acc)
  case (Cons e pim)
  obtain i x where e: "e = (i, x)" by fastforce
  have "i \<notin> fst ` set acc" using Cons.prems(2) by (auto simp: e)
  then show ?case using Cons.IH[of "acc @ [(i, x)]"] Cons.prems by (simp add: e update_new)
qed simp

lemma ucast_ucast_16 [simp]: "(ucast (ucast i :: u32) :: u16) = i"
  using unsigned_less[of i, where 'a = nat]
  by (simp add: word_unat_eq_iff unsigned_ucast_eq take_bit_nat_eq_self unsigned_take_bit_eq)

lemma ucast16_eq: "(ucast (i :: u16) :: u32) = ucast j \<longleftrightarrow> i = j"
  by (metis ucast_ucast_16)

lemma idx_roundtrip:
  fixes i :: u16
  assumes "2 \<le> unat n" "unat i < unat n"
  shows "ucast (ucast i * window n div window n) = i" "ucast i * window n mod window n = 0"
  using idx_window[OF assms] by simp_all

subsection \<open>Properties\<close>

text \<open>C13. Unmarshalling what \<open>Marshal\<close> wrote gives the same mapping without an error, whatever the
  receiver held before.\<close>

theorem Marshal_roundtrip:
  assumes "\<And>bs. gunz (gz bs) = Some bs" "distinct (map fst pm)" "length pm < 2 ^ 32"
  shows "Unmarshal gunz (Marshal gz pm) old = (None, pm)"
proof -
  have "unat (word_of_nat (length pm) :: u32) = length pm"
    using assms(3) by (simp add: unat_of_nat)
  then show ?thesis using unmarshal_loop_ok[of "[]" pm "[]"] assms(1,2)
    by (simp add: Unmarshal_def Marshal_def)
qed

theorem Marshal_roundtrip_witness:
  "Unmarshal Some (Marshal id [(0, 3), (0x80000000, 7)]) [] = (None, [(0, 3), (0x80000000, 7)])"
  by (rule Marshal_roundtrip) simp_all

text \<open>Converting a partition index mapping to range starts and back is the identity for every
  number of partitions from 2 on that all its indices are below (also when it is not a power of
  two): no window product overflows and no two indices collide.\<close>

lemma index_mapping_roundtrip:
  assumes "2 \<le> unat n" "\<forall>i \<in> set (map fst pim). unat i < unat n" "distinct (map fst pim)"
  shows "\<exists>pm. ToPartitionMappingWithNumPartitions pim n = Inr pm \<and> distinct (map fst pm)
    \<and> ToPartitionIndexMappingWithNumPartitions pm n = Inr pim"
proof -
  define f where "f = (\<lambda>i :: u16. ucast i * window n)"
  have fi: "f i mod window n = 0 \<and> ucast (f i div window n) = i" if "i \<in> set (map fst pim)" for i
    using idx_roundtrip[OF assms(1)] assms(2) that by (auto simp: f_def)
  have inj: "inj_on f (set (map fst pim))" using fi by (metis inj_onI)
  have n: "n \<noteq> 0" "n \<noteq> 1" using assms(1) by auto
  define pm where "pm = map (\<lambda>(i, x). (f i, x)) pim"
  have "ToPartitionMappingWithNumPartitions pim n = Inr pm"
    using update_mod[OF inj assms(3), of "[]"] n
    by (simp add: ToPartitionMappingWithNumPartitions_def pm_def f_def)
  moreover have "map fst pm = map f (map fst pim)" by (simp add: pm_def case_prod_unfold comp_def)
  then have "distinct (map fst pm)" using inj assms(3) distinct_map[of f "map fst pim"] by simp
  moreover have "\<forall>(i, x) \<in> set pim. f i mod window n = 0 \<and> ucast (f i div window n) = i"
  proof (clarify)
    fix i x assume "(i, x) \<in> set pim"
    then have "i \<in> set (map fst pim)" by force
    then show "f i mod window n = 0 \<and> ucast (f i div window n) = i" by (rule fi)
  qed
  then have "ToPartitionIndexMappingWithNumPartitions pm n = Inr pim"
    using to_index_loop_ok[of pim f "window n" "[]"] assms(3) n
    by (simp add: ToPartitionIndexMappingWithNumPartitions_def pm_def)
  ultimately show ?thesis by blast
qed

lemma index_mapping_roundtrip_witness:
  "\<exists>pm. ToPartitionMappingWithNumPartitions [(0, 5), (2, 6)] 3 = Inr pm \<and> distinct (map fst pm)
    \<and> ToPartitionIndexMappingWithNumPartitions pm 3 = Inr [(0, 5), (2, 6)]"
  by (rule index_mapping_roundtrip) simp_all

text \<open>The range start of an index in range maps back to the index, and it is the index times the
  window without wrap-around, for 2 up to 65535 partitions.\<close>

lemma range_start_roundtrip:
  assumes "2 \<le> unat n" "unat n < 65536" "unat i < unat n"
  shows "ToPartitionRangeStart i n = Inr (ucast i * window n)
    \<and> unat (ucast i * window n :: u32) = unat i * (2 ^ 32 div unat n)
    \<and> ToPartitionIndex (ucast i * window n) n = Inr i"
proof -
  have "unat (ucast n :: u16) = unat n" using assms(2) by (simp add: unsigned_ucast_eq take_bit_nat_eq_self)
  then have "i < ucast n" using assms(3) by (simp add: word_less_nat_alt)
  moreover have "n \<noteq> 0" "n \<noteq> 1" using assms(1) by auto
  ultimately show ?thesis using idx_window[OF assms(1,3)] idx_roundtrip[OF assms(1,3)] unat_window(1)[OF assms(1)]
    by (simp add: ToPartitionRangeStart_def ToPartitionIndex_def)
qed

theorem range_start_roundtrip_witness:
  "ToPartitionRangeStart 3 4 = Inr 0xC0000000 \<and> ToPartitionIndex 0xC0000000 4 = Inr 3"
  using range_start_roundtrip[of 4 3] by (simp add: window_def)

text \<open>The partitioner returns the index of the window that contains the hash and the start of
  that window; with a number of partitions that divides \<open>2 ^ 32\<close> the index is below it.\<close>

lemma Murmur3Partition32_window:
  assumes "2 \<le> unat n"
  shows "\<exists>i st. Murmur3Partition32 sum32 key n = Some (i, st) \<and> unat st = unat i * (2 ^ 32 div unat n)
    \<and> unat st \<le> unat (sum32 key) \<and> unat (sum32 key) < unat st + 2 ^ 32 div unat n
    \<and> (unat n dvd 2 ^ 32 \<longrightarrow> unat i < unat n)"
proof -
  define h where "h = unat (sum32 key)"
  define w where "w = (2 :: nat) ^ 32 div unat n"
  have w: "unat (window n) = w" "0 < w" using unat_window[OF assms] by (simp_all add: w_def)
  have h: "h < 2 ^ 32" using unsigned_less[of "sum32 key", where 'a = nat] by (simp add: h_def)
  have i: "unat (sum32 key div window n) = h div w" by (simp add: unat_div w h_def)
  have "h div w * w \<le> h" by simp
  then have st: "unat (sum32 key div window n * window n) = h div w * w"
    using unat_mult_lem[of "sum32 key div window n" "window n"] i w h le_less_trans[of "h div w * w" h "2 ^ 32"] by simp
  have "h < h div w * w + w" using w(2) by (metis add.commute dividend_less_div_times)
  moreover have "h div w < unat n" if "unat n dvd 2 ^ 32"
  proof -
    have "w * unat n = 2 ^ 32" using that by (simp add: w_def)
    then show ?thesis using h w(2) by (metis div_less_iff_less_mult mult.commute)
  qed
  moreover have "n \<noteq> 0" "n \<noteq> 1" using assms by auto
  moreover have "4294967296 div unat n = w" by (simp add: w_def)
  ultimately show ?thesis using i st \<open>h div w * w \<le> h\<close>
    by (simp add: Murmur3Partition32_def Let_def flip: h_def)
qed

lemma Murmur3Partition32_window_example:
  "\<exists>i st. Murmur3Partition32 (\<lambda>_. 0xDEADBEEF) [] 4 = Some (i, st) \<and> unat st = unat i * 2 ^ 30 \<and> unat i < 4"
  using Murmur3Partition32_window[of 4 "\<lambda>_. 0xDEADBEEF" "[]"] by auto

subsection \<open>What can go wrong\<close>

text \<open>The bound check casts the number of partitions to 16 bits: with 65536 partitions every index is refused.\<close>

lemma range_start_65536: "ToPartitionRangeStart i 65536 = Inl OutOfRange"
proof -
  have u: "ucast (65536 :: u32) = (0 :: u16)" by (simp add: word_unat_eq_iff)
  show ?thesis unfolding ToPartitionRangeStart_def u by simp
qed

text \<open>With one partition a mapping whose only key is not 0 is converted to node 0.\<close>

lemma single_partition_default: "ToPartitionIndexMappingWithNumPartitions [(5, 9)] 1 = Inr [(0, 0)]"
  by (simp add: ToPartitionIndexMappingWithNumPartitions_def)

end
