(* ===== verification/Throttling.thy ===== *)
theory Throttling
  imports Cachettl
begin

text \<open>
  The rate limiter of the \<open>throttling\<close> package: argument checks and dispatch
  (\<open>throttling.go\<close>), the in-memory GCRA with its cache of limiters and compare-and-swap store
  (\<open>memory_gcra.go\<close>), the decoding of the Redis scripts' results, the tokens that can be given
  back (\<open>return.go\<close>), and the sliding window of \<open>lua/sortedset.lua\<close>.

  The GCRA of the throttled library is a parameter: \<open>newGCRA\<close> makes the state of a limiter and
  \<open>rateLimit\<close> advances it. The result of a Redis call is an argument of type \<open>rres\<close>.
\<close>

subsection \<open>The store of one limiter\<close>

definition newGCRAMemStore :: int where
  "newGCRAMemStore = - 1"

definition GetWithTime :: "gotime \<Rightarrow> int \<Rightarrow> int \<times> gotime" where
  "GetWithTime now store = (store, now)"

definition SetIfNotExistsWithTTL :: "int \<Rightarrow> int \<Rightarrow> bool \<times> int" where
  "SetIfNotExistsWithTTL value store = (if store = - 1 then (True, value) else (False, store))"

definition CompareAndSwapWithTTL :: "int \<Rightarrow> int \<Rightarrow> int \<Rightarrow> bool \<times> int" where
  "CompareAndSwapWithTTL old new store = (if store = old then (True, new) else (False, store))"

subsection \<open>The limiters in memory\<close>

record 's gcra =
  store :: "(gostr, nat) cache option"
  rls :: "nat \<Rightarrow> 's"
  nrl :: nat

definition new_gcra :: "'s \<Rightarrow> 's gcra" where
  "new_gcra s0 = \<lparr>store = None, rls = (\<lambda>_. s0), nrl = 0\<rparr>"

definition cacheKey :: "gostr \<Rightarrow> int \<Rightarrow> int \<Rightarrow> int \<Rightarrow> gostr" where
  "cacheKey key burst rate period = key @ lit '':'' @ int_str burst @ lit '':'' @ int_str rate @ lit '':'' @ int_str period"

definition limiter_ttl :: "int \<Rightarrow> int \<Rightarrow> int \<Rightarrow> duration" where
  "limiter_ttl burst rate period = wrap64 (wrap64 (go_div burst rate * period) * 1000000000)"

datatype throttle_error = BadCost | BadRate | BadWindow | BadKey | CreateFailed | LimitFailed
  | RedisFailed | UnexpectedType nat | UnexpectedLength

text \<open>\<open>getLimiter\<close>: the outer \<open>None\<close> would be a nil dereference in the cache; the clock is read at \<open>now\<close>.\<close>

definition getLimiter :: "(int \<Rightarrow> int \<Rightarrow> int \<Rightarrow> throttle_error + 's) \<Rightarrow> gostr \<Rightarrow> int \<Rightarrow> int \<Rightarrow> int \<Rightarrow> gotime \<Rightarrow> 's gcra \<Rightarrow>
    ((throttle_error + nat) \<times> 's gcra) option" where
  "getLimiter newGCRA key burst rate period now g =
     (let st = (case store g of None \<Rightarrow> New [] 0 True | Some s \<Rightarrow> s);
          ck = cacheKey key burst rate period
      in case Get_at ck now st of
           None \<Rightarrow> None
         | Some (Some rl, _, st1) \<Rightarrow> Some (Inr rl, g\<lparr>store := Some st1\<rparr>)
         | Some (None, _, st1) \<Rightarrow>
             (case newGCRA rate period burst of
                Inl e \<Rightarrow> Some (Inl CreateFailed, g\<lparr>store := Some st1\<rparr>)
              | Inr s \<Rightarrow>
                  (case Put ck (nrl g) (limiter_ttl burst rate period) now st1 of
                     None \<Rightarrow> None
                   | Some st2 \<Rightarrow> Some (Inr (nrl g), g\<lparr>store := Some st2, rls := (rls g)(nrl g := s), nrl := nrl g + 1\<rparr>))))"

text \<open>\<open>gcra.limit\<close>: the limiter's state moves on; the answer is whether the call is allowed and after how long to retry.\<close>

definition gcra_limit :: "(int \<Rightarrow> int \<Rightarrow> int \<Rightarrow> throttle_error + 's) \<Rightarrow> (int \<Rightarrow> gotime \<Rightarrow> 's \<Rightarrow> (throttle_error + bool \<times> duration) \<times> 's) \<Rightarrow>
    gostr \<Rightarrow> int \<Rightarrow> int \<Rightarrow> int \<Rightarrow> int \<Rightarrow> gotime \<Rightarrow> 's gcra \<Rightarrow> ((throttle_error + bool \<times> duration) \<times> 's gcra) option" where
  "gcra_limit newGCRA rateLimit key cost burst rate period now g =
     (case getLimiter newGCRA key burst rate period now g of
        None \<Rightarrow> None
      | Some (Inl e, g1) \<Rightarrow> Some (Inl e, g1)
      | Some (Inr rl, g1) \<Rightarrow>
          (case rateLimit cost now (rls g1 rl) of
             (Inl e, s) \<Rightarrow> Some (Inl LimitFailed, g1\<lparr>rls := (rls g1)(rl := s)\<rparr>)
           | (Inr (limited, retryAfter), s) \<Rightarrow> Some (Inr (\<not> limited, retryAfter), g1\<lparr>rls := (rls g1)(rl := s)\<rparr>)))"

subsection \<open>Results\<close>

datatype token_return = Unsupported | SortedSetReturn gostr "gostr list"

datatype rval = RInt int | RStr gostr | ROther

datatype rres = RErr | RNotList | RList "rval list"

type_synonym answer = "(throttle_error + (bool \<times> duration \<times> token_return option))"

text \<open>A Redis duration is in microseconds.\<close>

definition micros :: "int \<Rightarrow> duration" where
  "micros t = wrap64 (t * 1000)"

definition redisSortedSet :: "gostr \<Rightarrow> rres \<Rightarrow> duration \<times> answer" where
  "redisSortedSet key res =
     (case res of
        RErr \<Rightarrow> (0, Inl RedisFailed)
      | RNotList \<Rightarrow> (0, Inl UnexpectedLength)
      | RList result \<Rightarrow>
          if length result \<noteq> 3 then (0, Inl UnexpectedLength)
          else (case result ! 0 of
                  RInt t \<Rightarrow>
                    (let redisTime = micros t in
                     case result ! 1 of
                       RStr members \<Rightarrow>
                         if members = []
                         then (case result ! 2 of
                                 RInt retryAfter \<Rightarrow> (redisTime, Inr (False, micros retryAfter, None))
                               | _ \<Rightarrow> (redisTime, Inl (UnexpectedType 2)))
                         else (redisTime, Inr (True, 0, Some (SortedSetReturn key (split_on 44 members))))
                     | _ \<Rightarrow> (redisTime, Inl (UnexpectedType 1)))
                | _ \<Rightarrow> (0, Inl (UnexpectedType 0))))"

definition redisGCRA :: "rres \<Rightarrow> duration \<times> answer" where
  "redisGCRA res =
     (case res of
        RErr \<Rightarrow> (0, Inl RedisFailed)
      | RNotList \<Rightarrow> (0, Inl UnexpectedLength)
      | RList result \<Rightarrow>
          if length result \<noteq> 5 then (0, Inl UnexpectedLength)
          else (case result ! 0 of
                  RInt t \<Rightarrow>
                    (let redisTime = micros t in
                     case result ! 1 of
                       RInt allowed \<Rightarrow>
                         if allowed < 1
                         then (case result ! 3 of
                                 RInt retryAfter \<Rightarrow> (redisTime, Inr (False, micros retryAfter, None))
                               | _ \<Rightarrow> (redisTime, Inl (UnexpectedType 3)))
                         else (redisTime, Inr (True, 0, Some Unsupported))
                     | _ \<Rightarrow> (redisTime, Inl (UnexpectedType 1)))
                | _ \<Rightarrow> (0, Inl (UnexpectedType 0))))"

text \<open>\<open>Return\<close>: \<open>zrem\<close> removes members from the sorted set of the key, \<open>None\<close> is its error.\<close>

fun Return :: "(gostr \<Rightarrow> gostr list \<Rightarrow> 'r \<Rightarrow> 'r option) \<Rightarrow> token_return \<Rightarrow> 'r \<Rightarrow> (throttle_error + unit) \<times> 'r" where
  "Return zrem Unsupported redis = (Inr (), redis)"
| "Return zrem (SortedSetReturn key members) redis =
     (case zrem key members redis of None \<Rightarrow> (Inl RedisFailed, redis) | Some redis' \<Rightarrow> (Inr (), redis'))"

subsection \<open>The limiter\<close>

record limiter_conf =
  redisSpeaker :: bool
  useGCRA :: bool
  gcraBurst :: int

datatype lim_option = WithInMemoryGCRA int | WithRedisGCRA int | WithRedisSortedSet

fun apply_option :: "lim_option \<Rightarrow> limiter_conf \<Rightarrow> limiter_conf" where
  "apply_option (WithInMemoryGCRA burst) l = l\<lparr>useGCRA := True, gcraBurst := (if burst > 0 then burst else gcraBurst l)\<rparr>"
| "apply_option (WithRedisGCRA burst) l =
     l\<lparr>useGCRA := True, redisSpeaker := True, gcraBurst := (if burst > 0 then burst else gcraBurst l)\<rparr>"
| "apply_option WithRedisSortedSet l = l\<lparr>useGCRA := False, redisSpeaker := True\<rparr>"

definition New_limiter :: "lim_option list \<Rightarrow> limiter_conf" where
  "New_limiter options =
     (let rl = fold apply_option options \<lparr>redisSpeaker = False, useGCRA = False, gcraBurst = 0\<rparr>
      in if redisSpeaker rl then rl else rl\<lparr>useGCRA := True\<rparr>)"

definition burst_of :: "limiter_conf \<Rightarrow> int \<Rightarrow> int" where
  "burst_of l rate = (if gcraBurst l > 0 then gcraBurst l else rate)"

definition gcraLimit :: "limiter_conf \<Rightarrow> (int \<Rightarrow> int \<Rightarrow> int \<Rightarrow> throttle_error + 's) \<Rightarrow>
    (int \<Rightarrow> gotime \<Rightarrow> 's \<Rightarrow> (throttle_error + bool \<times> duration) \<times> 's) \<Rightarrow>
    int \<Rightarrow> int \<Rightarrow> int \<Rightarrow> gostr \<Rightarrow> gotime \<Rightarrow> 's gcra \<Rightarrow> (answer \<times> 's gcra) option" where
  "gcraLimit l newGCRA rateLimit cost rate win key now g =
     (case gcra_limit newGCRA rateLimit key cost (burst_of l rate) rate win now g of
        None \<Rightarrow> None
      | Some (Inl e, g1) \<Rightarrow> Some (Inl e, g1)
      | Some (Inr (allowed, retryAfter), g1) \<Rightarrow>
          Some (if \<not> allowed then Inr (False, retryAfter, None) else Inr (True, 0, Some Unsupported), g1))"

text \<open>\<open>redis_gcra\<close> and \<open>redis_sorted\<close> run the scripts with their arguments.\<close>

definition allow :: "limiter_conf \<Rightarrow> (int \<Rightarrow> int \<Rightarrow> int \<Rightarrow> throttle_error + 's) \<Rightarrow>
    (int \<Rightarrow> gotime \<Rightarrow> 's \<Rightarrow> (throttle_error + bool \<times> duration) \<times> 's) \<Rightarrow>
    (gostr \<Rightarrow> int \<Rightarrow> int \<Rightarrow> int \<Rightarrow> int \<Rightarrow> rres) \<Rightarrow> (gostr \<Rightarrow> int \<Rightarrow> int \<Rightarrow> int \<Rightarrow> rres) \<Rightarrow>
    int \<Rightarrow> int \<Rightarrow> int \<Rightarrow> gostr \<Rightarrow> gotime \<Rightarrow> 's gcra \<Rightarrow> (answer \<times> 's gcra) option" where
  "allow l newGCRA rateLimit redis_gcra redis_sorted cost rate win key now g =
     (if cost < 1 then Some (Inl BadCost, g)
      else if rate < 1 then Some (Inl BadRate, g)
      else if win < 1 then Some (Inl BadWindow, g)
      else if key = [] then Some (Inl BadKey, g)
      else if redisSpeaker l
      then (if useGCRA l then Some (snd (redisGCRA (redis_gcra key (burst_of l rate) rate win cost)), g)
            else Some (snd (redisSortedSet key (redis_sorted key cost rate win)), g))
      else gcraLimit l newGCRA rateLimit cost rate win key now g)"

text \<open>The timer of a call that passed the checks: the algorithm, and the tags that are given by default.\<close>

definition algo_of :: "limiter_conf \<Rightarrow> gostr" where
  "algo_of l = (if redisSpeaker l then (if useGCRA l then lit ''redis-gcra'' else lit ''redis-sorted-set'') else lit ''gcra'')"

definition default_tags :: "gostr \<Rightarrow> gostr \<Rightarrow> int \<Rightarrow> int \<Rightarrow> (gostr \<times> gostr) list" where
  "default_tags key algo rate win =
     [(lit ''key'', key), (lit ''algo'', algo), (lit ''rate'', int_str rate), (lit ''window'', int_str win)]"

definition timed :: "limiter_conf \<Rightarrow> int \<Rightarrow> int \<Rightarrow> int \<Rightarrow> gostr \<Rightarrow> (gostr \<times> gostr) list option" where
  "timed l cost rate win key =
     (if cost < 1 \<or> rate < 1 \<or> win < 1 \<or> key = [] then None else Some (default_tags key (algo_of l) rate win))"

definition Allow where
  "Allow l newGCRA rateLimit redis_gcra redis_sorted cost rate win key now g =
     map_option (apfst (map_sum id (\<lambda>(allowed, _, tr). (allowed, tr))))
       (allow l newGCRA rateLimit redis_gcra redis_sorted cost rate win key now g)"

subsection \<open>Sharing of limiters\<close>

definition gcra_inv :: "'s gcra \<Rightarrow> bool" where
  "gcra_inv g \<longleftrightarrow> (case store g of None \<Rightarrow> True | Some st \<Rightarrow> ttl_inv st)"

lemma ttl_inv_New: "ttl_inv (New k v r)"
  using represents_New[of k v r] by (force simp: ttl_inv_def)

lemma getLimiter_creates:
  assumes "gcra_inv g" "0 \<le> now" "0 \<le> limiter_ttl burst rate period"
    and "getLimiter newGCRA key burst rate period now g = Some (Inr (nrl g), g1)" "nrl g1 = nrl g + 1" "0 \<le> now'"
    and "newGCRA rate period burst = Inr s"
  shows "gcra_inv g1 \<and> (\<exists>r g2. getLimiter newGCRA key burst rate period now' g1 = Some (Inr r, g2) \<and>
    r = (if now' < now + limiter_ttl burst rate period then nrl g else nrl g1))"
proof -
  define ck where "ck = cacheKey key burst rate period"
  define st where "st = (case store g of None \<Rightarrow> New [] 0 True | Some s \<Rightarrow> s)"
  have i: "ttl_inv st" using assms(1) by (auto simp: gcra_inv_def st_def ttl_inv_New split: option.splits)
  obtain r evs st1 where g: "Get_at ck now st = Some (r, evs, st1)" "ttl_inv st1"
    using tc.get_returns[OF i assms(2), of ck] by blast
  have rn: "r = None" using assms(4,5) g(1) by (cases r) (auto simp: getLimiter_def Let_def st_def ck_def)
  obtain st2 where p: "Put ck (nrl g) (limiter_ttl burst rate period) now st1 = Some st2"
    using tc.put_returns[OF g(2) assms(3,2)] by blast
  have st2: "store g1 = Some st2"
    using assms(4,7) g(1) rn p by (auto simp: getLimiter_def Let_def simp flip: st_def ck_def)
  obtain evs' st3 where q: "Get_at ck now' st2 = Some (if now' < now + limiter_ttl burst rate period then Some (nrl g) else None, evs', st3)"
    "ttl_inv st2" using Put_then_Get[OF g(2) assms(3,2,6) p] by blast
  have "\<exists>st4. Put ck (nrl g1) (limiter_ttl burst rate period) now' st3 = Some st4"
  proof -
    have "ttl_inv st3" using tc.get_returns[OF q(2) assms(6), of ck] q(1) by auto
    from tc.put_returns[OF this assms(3,6), of ck "nrl g1"] show ?thesis by blast
  qed
  then have "\<exists>r g2. getLimiter newGCRA key burst rate period now' g1 = Some (Inr r, g2) \<and>
    r = (if now' < now + limiter_ttl burst rate period then nrl g else nrl g1)"
    using q(1) st2 assms(7) by (auto simp: getLimiter_def Let_def simp flip: ck_def)
  then show ?thesis using st2 q(2) by (simp add: gcra_inv_def)
qed

lemma limiter_ttl_eq:
  assumes "1 \<le> rate" "1 \<le> burst" "1 \<le> period" "burst * period * 1000000000 < 2 ^ 63"
  shows "limiter_ttl burst rate period = burst div rate * period * 1000000000"
    "0 \<le> limiter_ttl burst rate period"
proof -
  have q: "0 \<le> burst div rate" "burst div rate \<le> burst"
    using assms using div_le_dividend[of "nat burst" "nat rate"] by (auto simp: pos_imp_zdiv_nonneg_iff nat_div_distrib[symmetric])
  define b where "b = burst div rate * period"
  have "b \<le> burst * period" using q assms unfolding b_def by (intro mult_right_mono) auto
  moreover have "0 \<le> b" using q assms by (simp add: b_def)
  ultimately have b: "0 \<le> b" "b * 1000000000 < 2 ^ 63" using assms(4) by linarith+
  then have "wrap64 b = b" "wrap64 (b * 1000000000) = b * 1000000000" by (simp_all add: wrap64_id)
  then show "limiter_ttl burst rate period = burst div rate * period * 1000000000"
    "0 \<le> limiter_ttl burst rate period"
    using b assms by (simp_all add: limiter_ttl_def go_div_nonneg b_def)
qed

text \<open>Two calls for one key and one rate use the same limiter exactly as long as less than
  \<open>burst div rate\<close> whole periods lie between them. In particular when the burst is smaller than
  the rate the limiter made by a call is never found again: each call gets a fresh limiter, so
  calls are not limited against each other at all.\<close>

lemma limiter_sharing:
  assumes "gcra_inv g" "0 \<le> now" "1 \<le> rate" "1 \<le> burst" "1 \<le> period" "burst * period * 1000000000 < 2 ^ 63"
    and "getLimiter newGCRA key burst rate period now g = Some (Inr (nrl g), g1)" "nrl g1 = nrl g + 1"
    and "now \<le> now'" "newGCRA rate period burst = Inr s"
  shows "\<exists>r g2. getLimiter newGCRA key burst rate period now' g1 = Some (Inr r, g2) \<and>
    (r = nrl g \<longleftrightarrow> now' - now < burst div rate * period * 1000000000) \<and> (burst < rate \<longrightarrow> r \<noteq> nrl g)"
proof -
  note t = limiter_ttl_eq[OF assms(3,4,5,6)]
  obtain r g2 where r: "getLimiter newGCRA key burst rate period now' g1 = Some (Inr r, g2)"
    "r = (if now' < now + limiter_ttl burst rate period then nrl g else nrl g1)"
    using getLimiter_creates[OF assms(1,2) t(2) assms(7,8) _ assms(10), of now'] assms(2,9) by auto
  have "burst div rate = 0" if "burst < rate" using assms(4) that by simp
  then have "(r = nrl g \<longleftrightarrow> now' - now < burst div rate * period * 1000000000) \<and> (burst < rate \<longrightarrow> r \<noteq> nrl g)"
    using r(2) assms(8,9) t(1) by (auto split: if_splits)
  then show ?thesis using r(1) by blast
qed

lemma limiter_sharing_example:
  "\<exists>g1 r g2. getLimiter (\<lambda>_ _ _. Inr ()) (lit ''k'') 10 100 1 0 (new_gcra ()) = Some (Inr 0, g1)
     \<and> getLimiter (\<lambda>_ _ _. Inr ()) (lit ''k'') 10 100 1 0 g1 = Some (Inr r, g2) \<and> r \<noteq> 0"
proof -
  let ?g = "new_gcra ()"
  obtain evs st1 where g: "Get_at (cacheKey (lit ''k'') 10 100 1) 0 (New [] (0 :: nat) True) = Some (None, evs, st1)"
    by (simp add: Get_at_def Get_def get_main_def New_def cleanup_loop.simps)
  have "ttl_inv st1"
    using tc.get_returns[OF ttl_inv_New[of "[]" "0 :: nat" True], of 0 "cacheKey (lit ''k'') 10 100 1"] g by auto
  then obtain st2 where p: "Put (cacheKey (lit ''k'') 10 100 1) 0 (limiter_ttl 10 100 1) 0 st1 = Some st2"
    using tc.put_returns[of st1 "limiter_ttl 10 100 1" 0] limiter_ttl_eq(2)[of 100 10 1] by auto
  have "\<exists>g1. getLimiter (\<lambda>_ _ _. Inr ()) (lit ''k'') 10 100 1 0 ?g = Some (Inr (nrl ?g), g1) \<and> nrl g1 = nrl ?g + 1"
    using g p by (simp add: getLimiter_def Let_def new_gcra_def)
  then obtain g1 where "getLimiter (\<lambda>_ _ _. Inr ()) (lit ''k'') 10 100 1 0 ?g = Some (Inr (nrl ?g), g1)" "nrl g1 = nrl ?g + 1"
    by blast
  then show ?thesis
    using limiter_sharing[of ?g 0 100 10 1 "\<lambda>_ _ _. Inr ()" "lit ''k''" g1 0 "()"]
    by (auto simp: new_gcra_def gcra_inv_def)
qed

subsection \<open>The sliding window script\<close>

text \<open>
  \<open>lua/sortedset.lua\<close> with the scores in microseconds: the sorted set of a key is the list of
  the scores of its tokens, in order. \<open>None\<close> is the script error of adding to a missing score.
\<close>

definition sorted_set_script :: "int \<Rightarrow> int \<Rightarrow> int \<Rightarrow> int \<Rightarrow> int list \<Rightarrow> (bool \<times> int) option \<times> int list" where
  "sorted_set_script cost rate period now z =
     (let z1 = filter (\<lambda>s. \<not> (0 \<le> s \<and> s \<le> now - period)) z
      in if int (length z1) + cost > rate
         then ((case z1 of [] \<Rightarrow> None | s # _ \<Rightarrow> Some (False, s + period - now)), z1)
         else (Some (True, 0), z1 @ replicate (nat cost) now))"

definition granted :: "(bool \<times> int) option \<Rightarrow> bool" where
  "granted res = (case res of Some (allowed, _) \<Rightarrow> allowed | None \<Rightarrow> False)"

fun run_script :: "int \<Rightarrow> int \<Rightarrow> (int \<times> int) list \<Rightarrow> int list \<Rightarrow> (int \<times> int) list" where
  "run_script rate period [] z = []"
| "run_script rate period ((now, cost) # r) z =
     (if granted (fst (sorted_set_script cost rate period now z)) then [(now, cost)] else [])
     @ run_script rate period r (snd (sorted_set_script cost rate period now z))"

text \<open>The cost granted at the calls at times in the window that starts after \<open>a\<close>.\<close>

definition granted_in :: "int \<Rightarrow> int \<Rightarrow> (int \<times> int) list \<Rightarrow> int" where
  "granted_in a period gs = sum_list (map snd (filter (\<lambda>(t, _). a < t \<and> t \<le> a + period) gs))"

definition trim :: "int \<Rightarrow> int list \<Rightarrow> int list" where
  "trim t z = filter (\<lambda>s. \<not> (0 \<le> s \<and> s \<le> t)) z"

lemma sorted_set_script_granted:
  "granted (fst (sorted_set_script cost rate period now z)) \<longleftrightarrow> int (length (trim (now - period) z)) + cost \<le> rate"
  by (auto simp: sorted_set_script_def granted_def Let_def trim_def not_less split: list.split option.split)

lemma sorted_set_script_set:
  "snd (sorted_set_script cost rate period now z) =
     trim (now - period) z @ (if int (length (trim (now - period) z)) + cost \<le> rate then replicate (nat cost) now else [])"
  by (simp add: sorted_set_script_def Let_def trim_def)

lemma run_script_times: "x \<in> set (run_script rate period calls z) \<Longrightarrow> x \<in> set calls"
  by (induction rate period calls z rule: run_script.induct) (auto split: if_splits)

lemma granted_in_late: "\<forall>x\<in>set gs. a + period < fst x \<Longrightarrow> granted_in a period gs = 0"
proof -
  assume "\<forall>x\<in>set gs. a + period < fst x"
  then have "filter (\<lambda>(t, _). a < t \<and> t \<le> a + period) gs = []" by (fastforce simp: filter_empty_conv)
  then show ?thesis unfolding granted_in_def by simp
qed

lemma granted_in_Cons: "granted_in a period ((t, c) # gs) = (if a < t \<and> t \<le> a + period then c else 0) + granted_in a period gs"
  by (simp add: granted_in_def)

lemma trim_in_window: "now \<le> a + period \<Longrightarrow> filter (\<lambda>s. a < s \<and> Q s) (trim (now - period) z) = filter (\<lambda>s. a < s \<and> Q s) z"
  unfolding trim_def filter_filter by (rule filter_cong) auto

lemma length_filter_and_le: "length (filter (\<lambda>s. P s \<and> Q s) z) \<le> length (filter P z)"
  by (induction z) auto

text \<open>The tokens in the set that are in the window after \<open>a\<close> and those granted from now on stay within the rate.\<close>

lemma run_script_bound:
  assumes "sorted (map fst calls)" "\<forall>x\<in>set calls. 1 \<le> snd x"
    and "int (length (filter (\<lambda>s. a < s \<and> True) z)) \<le> rate"
  shows "int (length (filter (\<lambda>s. a < s \<and> s \<le> a + period) z)) + granted_in a period (run_script rate period calls z) \<le> rate"
  using assms
proof (induction rate period calls z rule: run_script.induct)
  case (1 rate period z)
  then show ?case using length_filter_and_le[of "\<lambda>s. a < s" "\<lambda>s. s \<le> a + period" z] by (simp add: granted_in_def)
next
  case (2 rate period now cost r z)
  let ?z1 = "trim (now - period) z" and ?S = "sorted_set_script cost rate period now z"
  show ?case
  proof (cases "now \<le> a + period")
    case False
    have "\<forall>x\<in>set ((now, cost) # r). a + period < fst x" using False 2(2) by auto
    then have "\<forall>x\<in>set (run_script rate period ((now, cost) # r) z). a + period < fst x"
      using run_script_times by blast
    then have "granted_in a period (run_script rate period ((now, cost) # r) z) = 0" by (rule granted_in_late)
    then show ?thesis using 2(4) length_filter_and_le[of "\<lambda>s. a < s" "\<lambda>s. s \<le> a + period" z] by simp
  next
    case True
    note keep = trim_in_window[OF True, of "\<lambda>_. True" z] trim_in_window[OF True, of "\<lambda>s. s \<le> a + period" z]
    have len: "length (filter (\<lambda>s. a < s \<and> True) ?z1) \<le> length ?z1" by (rule length_filter_le)
    have "int (length (filter (\<lambda>s. a < s \<and> True) (snd ?S))) \<le> rate"
      using 2(3,4) keep(1) len length_filter_le[of "\<lambda>s. a < s" "replicate (nat cost) now"] unfolding sorted_set_script_set filter_append length_append by (auto simp: length_filter_le)
    note ih = 2(1)[OF _ _ this]
    have "int (length (filter (\<lambda>s. a < s \<and> s \<le> a + period) (snd ?S))) + granted_in a period (run_script rate period r (snd ?S)) \<le> rate"
      using 2(2,3) by (intro ih) auto
    moreover have "int (length (filter (\<lambda>s. a < s \<and> s \<le> a + period) (snd ?S))) =
      int (length (filter (\<lambda>s. a < s \<and> s \<le> a + period) z)) + (if granted (fst ?S) \<and> a < now then cost else 0)"
      using 2(3) True keep(2) unfolding sorted_set_script_set filter_append length_append sorted_set_script_granted by auto
    ultimately show ?thesis using True by (auto simp: granted_in_Cons split: if_splits)
  qed
qed

text \<open>A call for more than the rate on an empty bucket is an error of the script, not a refusal.\<close>

lemma sorted_set_cost_above_rate: "rate < cost \<Longrightarrow> sorted_set_script cost rate period now [] = (None, [])"
  by (simp add: sorted_set_script_def)

text \<open>C15. The sliding window of the Redis sorted set keeps its promise: whatever calls are made, in
  the order of their times, the total cost granted in any window of one period is at most the rate.\<close>

theorem sorted_set_window:
  assumes "sorted (map fst calls)" "\<forall>x\<in>set calls. 1 \<le> snd x" "0 \<le> rate"
  shows "granted_in a period (run_script rate period calls []) \<le> rate"
  using run_script_bound[OF assms(1,2), of a "[]" rate period] assms(3) by simp

theorem sorted_set_window_witness:
  "granted_in 0 10 (run_script 3 10 [(1, 2), (2, 2), (4, 1), (12, 2)] []) \<le> 3
   \<and> run_script 3 10 [(1, 2), (2, 2), (4, 1), (12, 2)] [] = [(1, 2), (4, 1), (12, 2)]"
  using sorted_set_window[of "[(1, 2), (2, 2), (4, 1), (12, 2)]" 3 0 10]
  by (simp add: sorted_set_script_def granted_def eval_nat_numeral)

end
