(* ===== verification/Gcra_Script.thy ===== *)
theory Gcra_Script
  imports Throttling Complex_Main
begin

text \<open>
  The generic cell rate algorithm of \<open>throttling/lua/gcra.lua\<close>, as the package calls it and reads its answer. Numbers of
  the script are reals; times are microseconds. A key of Redis is its value with the time at which it expires.
\<close>

subsection \<open>The script\<close>

definition jan_1_2017 :: int where
  "jan_1_2017 = 1483228800 * 1000 * 1000"

text \<open>The time is read as seconds and microseconds in decimal; the script pads the latter.\<close>

function pad_micro :: "gostr \<Rightarrow> gostr" where
  "pad_micro us = (if length us < 6 then pad_micro (48 # us) else us)"
  by pat_completeness auto
termination by (relation "measure (\<lambda>us. 6 - length us)") auto

declare pad_micro.simps [simp del]

definition redis_time :: "nat \<Rightarrow> nat \<Rightarrow> int" where
  "redis_time secs micro = int (digits_val 0 (nat_str secs @ pad_micro (nat_str micro)))"

text \<open>Redis truncates the numbers of an answer.\<close>

definition to_redis :: "real \<Rightarrow> rval" where
  "to_redis x = RInt (if 0 \<le> x then \<lfloor>x\<rfloor> else \<lceil>x\<rceil>)"

type_synonym gcra_key = "(real \<times> real) option"

definition redis_GET :: "real \<Rightarrow> gcra_key \<Rightarrow> real option" where
  "redis_GET now key = (case key of Some (t, expires) \<Rightarrow> if now < expires then Some t else None | None \<Rightarrow> None)"

text \<open>\<open>SET\<close> with \<open>EX\<close>, which counts seconds.\<close>

definition redis_SET_EX :: "real \<Rightarrow> real \<Rightarrow> int \<Rightarrow> gcra_key" where
  "redis_SET_EX now t secs = Some (t, now + 1000000 * real_of_int secs)"

definition emission_interval :: "int \<Rightarrow> int \<Rightarrow> real" where
  "emission_interval rate period = real_of_int (period * 1000 * 1000) / real_of_int rate"

definition gcra_script :: "int \<Rightarrow> int \<Rightarrow> int \<Rightarrow> int \<Rightarrow> int \<Rightarrow> gcra_key \<Rightarrow> rres \<times> gcra_key" where
  "gcra_script burst rate period cost current_time_micro key =
     (let ei = emission_interval rate period;
          increment = ei * real_of_int cost;
          burst_offset = ei * real_of_int burst;
          current_time = real_of_int (current_time_micro - jan_1_2017);
          tat = max (case redis_GET current_time key of None \<Rightarrow> current_time | Some t \<Rightarrow> t) current_time;
          new_tat = tat + increment;
          allow_at = new_tat - burst_offset;
          diff = current_time - allow_at;
          remaining = diff / ei
      in if remaining < 0
         then (RList [RInt current_time_micro, RInt 0, RInt 0, to_redis (diff * - 1), to_redis (tat - current_time)], key)
         else
           (let reset_after = new_tat - current_time in
            (RList [RInt current_time_micro, RInt cost, to_redis remaining, RInt (- 1), to_redis reset_after],
             if 0 < reset_after then redis_SET_EX current_time new_tat \<lceil>reset_after\<rceil> else key)))"

text \<open>What the package makes of the answer, and a series of calls for one key, at times in microseconds.\<close>

definition gcra_allowed :: "rres \<Rightarrow> bool" where
  "gcra_allowed res = (case snd (redisGCRA res) of Inr (allowed, _) \<Rightarrow> allowed | Inl _ \<Rightarrow> False)"

fun run_gcra :: "int \<Rightarrow> int \<Rightarrow> int \<Rightarrow> (int \<times> int) list \<Rightarrow> gcra_key \<Rightarrow> (int \<times> int) list" where
  "run_gcra burst rate period [] key = []"
| "run_gcra burst rate period ((now, cost) # r) key =
     (if gcra_allowed (fst (gcra_script burst rate period cost now key)) then [(now, cost)] else [])
     @ run_gcra burst rate period r (snd (gcra_script burst rate period cost now key))"

subsection \<open>The time\<close>

lemma pad_micro_eq: "pad_micro us = replicate (6 - length us) 48 @ us"
proof (induction us rule: pad_micro.induct)
  case (1 us)
  show ?case
  proof (cases "length us < 6")
    case True
    then have k: "6 - length us = Suc (6 - length (48 # us))" by simp
    have "pad_micro us = replicate (6 - length (48 # us)) 48 @ 48 # us" using 1[OF True] True by (subst pad_micro.simps) simp
    then show ?thesis by (simp only: k replicate_app_Cons_same replicate_Suc append_Cons)
  qed (subst pad_micro.simps, simp)
qed

lemma digits_val_shift: "digits_val acc s = acc * 10 ^ length s + digits_val 0 s"
proof (induction s arbitrary: acc)
  case (Cons c s)
  show ?case using Cons[of "acc * 10 + (c - 48)"] Cons[of "c - 48"] by (simp add: algebra_simps)
qed simp

lemma digits_val_zeros: "digits_val 0 (replicate k 48 @ s) = digits_val 0 s"
  by (induction k) simp_all

lemma nat_str_length: "n < 10 ^ k \<Longrightarrow> 0 < k \<Longrightarrow> length (nat_str n) \<le> k"
proof (induction n arbitrary: k rule: nat_str.induct)
  case (1 n)
  show ?case
  proof (cases "n < 10")
    case False
    then have "0 < k - 1" using 1(2) by (cases k; cases "k - 1") auto
    moreover have "n div 10 < 10 ^ (k - 1)" using 1(2,3) by (cases k) (auto simp: less_mult_imp_div_less)
    ultimately have "length (nat_str (n div 10)) \<le> k - 1" using 1(1) False by blast
    then show ?thesis using False 1(3) by (subst nat_str.simps) simp
  qed (use 1 in \<open>simp add: nat_str.simps[of n]\<close>)
qed

text \<open>The two parts make the number of microseconds: the padding is what they need.\<close>

lemma redis_time_exact: "us < 1000000 \<Longrightarrow> redis_time secs us = int secs * 1000000 + int us"
proof -
  assume us: "us < 1000000"
  have "length (nat_str us) \<le> 6" using us by (intro nat_str_length) simp_all
  then have l: "length (pad_micro (nat_str us)) = 6" by (simp add: pad_micro_eq)
  have "digits_val 0 (nat_str secs @ pad_micro (nat_str us)) = digits_val secs (pad_micro (nat_str us))"
    by (simp add: digits_val_append)
  also have "\<dots> = secs * 1000000 + us"
    by (subst digits_val_shift) (simp add: l, simp add: pad_micro_eq digits_val_zeros)
  finally show ?thesis by (simp add: redis_time_def)
qed

subsection \<open>One call\<close>

text \<open>The time of a key that counts: what is in the past does not, nor what has expired.\<close>

definition gcra_tat :: "real \<Rightarrow> gcra_key \<Rightarrow> real" where
  "gcra_tat now key = max now (case key of None \<Rightarrow> now | Some (t, _) \<Rightarrow> t)"

definition key_ok :: "gcra_key \<Rightarrow> bool" where
  "key_ok key \<longleftrightarrow> (case key of None \<Rightarrow> True | Some (t, expires) \<Rightarrow> t \<le> expires)"

definition since_2017 :: "int \<Rightarrow> real" where
  "since_2017 t = real_of_int (t - jan_1_2017)"

lemma key_ok_None [simp]: "key_ok None"
  by (simp add: key_ok_def)

lemma tat_read: "key_ok key \<Longrightarrow> max (case redis_GET now key of None \<Rightarrow> now | Some t \<Rightarrow> t) now = gcra_tat now key"
  by (auto simp: key_ok_def redis_GET_def gcra_tat_def max_def split: option.split)

lemma emission_pos: "1 \<le> rate \<Longrightarrow> 1 \<le> period \<Longrightarrow> 0 < emission_interval rate period"
  by (simp add: emission_interval_def)

text \<open>A call is allowed exactly where its increment fits into the burst; a refused one changes nothing.\<close>

lemma gcra_script_cases:
  fixes now cost burst :: int
  assumes "1 \<le> rate" "1 \<le> period" "1 \<le> cost" "key_ok key"
  defines "ei \<equiv> emission_interval rate period" and "t \<equiv> gcra_tat (since_2017 now) key"
  shows "gcra_allowed (fst (gcra_script burst rate period cost now key)) \<longleftrightarrow>
      t + ei * cost \<le> since_2017 now + ei * burst"
    and "snd (gcra_script burst rate period cost now key) =
      (if t + ei * cost \<le> since_2017 now + ei * burst
       then redis_SET_EX (since_2017 now) (t + ei * cost) \<lceil>t + ei * cost - since_2017 now\<rceil> else key)"
proof -
  have pos: "0 < ei" using emission_pos assms(1,2) by (simp add: ei_def)
  then have inc: "0 < ei * cost" using assms(3) by simp
  have t: "since_2017 now \<le> t" by (simp add: t_def gcra_tat_def)
  have neg: "x / ei < 0 \<longleftrightarrow> x < 0" for x using pos by (simp add: divide_less_0_iff)
  note d = gcra_script_def Let_def ei_def[symmetric] since_2017_def[symmetric] tat_read[OF assms(4)] t_def[symmetric] neg
  show "gcra_allowed (fst (gcra_script burst rate period cost now key)) \<longleftrightarrow> t + ei * cost \<le> since_2017 now + ei * burst"
    using assms(3) unfolding d by (auto simp: gcra_allowed_def redisGCRA_def to_redis_def)
  show "snd (gcra_script burst rate period cost now key) =
      (if t + ei * cost \<le> since_2017 now + ei * burst
       then redis_SET_EX (since_2017 now) (t + ei * cost) \<lceil>t + ei * cost - since_2017 now\<rceil> else key)"
    using inc t unfolding d by auto
qed

lemma key_ok_SET: "now \<le> x \<Longrightarrow> key_ok (redis_SET_EX now x \<lceil>x - now\<rceil>)"
proof -
  assume "now \<le> x"
  then have "0 \<le> real_of_int \<lceil>x - now\<rceil>" by simp
  moreover have "x - now \<le> real_of_int \<lceil>x - now\<rceil>" by simp
  ultimately have "x - now \<le> 1000000 * real_of_int \<lceil>x - now\<rceil>" by linarith
  then show ?thesis by (simp add: key_ok_def redis_SET_EX_def)
qed

lemma gcra_script_key_ok:
  assumes "1 \<le> rate" "1 \<le> period" "1 \<le> cost" "key_ok key"
  shows "key_ok (snd (gcra_script burst rate period cost now key))"
proof -
  have "0 < emission_interval rate period * real_of_int cost" using emission_pos[OF assms(1,2)] assms(3) by simp
  moreover have "since_2017 now \<le> gcra_tat (since_2017 now) key" by (simp add: gcra_tat_def)
  ultimately show ?thesis using assms(4) by (simp add: gcra_script_cases(2)[OF assms] key_ok_SET)
qed

subsection \<open>A series of calls\<close>

definition raw_tat :: "real \<Rightarrow> gcra_key \<Rightarrow> real" where
  "raw_tat a key = (case key of None \<Rightarrow> a | Some (t, _) \<Rightarrow> max a t)"

lemma run_gcra_times: "x \<in> set (run_gcra burst rate period calls key) \<Longrightarrow> x \<in> set calls"
  by (induction burst rate period calls key rule: run_gcra.induct) (auto split: if_splits)

text \<open>What is granted after \<open>a\<close> fits between the time the key has reached and the end of the window plus the burst.\<close>

lemma run_gcra_bound:
  fixes a w burst rate period :: int
  defines "ei \<equiv> emission_interval rate period"
  assumes "1 \<le> rate" "1 \<le> period" "sorted (map fst calls)" "\<forall>x\<in>set calls. 1 \<le> snd x" "key_ok key"
  shows "ei * real_of_int (granted_in a w (run_gcra burst rate period calls key)) \<le>
    max 0 (since_2017 (a + w) + ei * real_of_int burst - raw_tat (since_2017 a) key)"
  using assms(4-6)
proof (induction calls arbitrary: key)
  case Nil
  then show ?case by (simp add: granted_in_def)
next
  case (Cons c calls)
  obtain now cost where c: "c = (now, cost)" by (cases c)
  let ?key' = "snd (gcra_script burst rate period cost now key)" and ?t = "gcra_tat (since_2017 now) key"
  let ?v = "raw_tat (since_2017 a) key" and ?e = "since_2017 (a + w) + ei * real_of_int burst"
  have cost: "1 \<le> cost" using Cons.prems(2) c by simp
  note cases = gcra_script_cases[OF assms(2,3) cost Cons.prems(3), folded ei_def]
  have ok: "key_ok ?key'" using gcra_script_key_ok[OF assms(2,3) cost Cons.prems(3)] .
  have ih: "ei * real_of_int (granted_in a w (run_gcra burst rate period calls ?key')) \<le> max 0 (?e - raw_tat (since_2017 a) ?key')"
    using Cons.prems(1,2) ok by (intro Cons.IH) auto
  show ?case
  proof (cases "now \<le> a + w")
    case False
    have "\<forall>x\<in>set (c # calls). a + w < fst x" using False Cons.prems(1) c by auto
    then have "\<forall>x\<in>set (run_gcra burst rate period (c # calls) key). a + w < fst x" using run_gcra_times by blast
    then have "granted_in a w (run_gcra burst rate period (c # calls) key) = 0" by (rule granted_in_late)
    then show ?thesis by simp
  next
    case now: True
    show ?thesis
    proof (cases "?t + ei * real_of_int cost \<le> since_2017 now + ei * real_of_int burst")
      case False
      then show ?thesis using ih by (simp add: c cases)
    next
      case True
      have pos: "0 < ei * real_of_int cost" using emission_pos[OF assms(2,3)] cost by (simp add: ei_def)
      have new: "raw_tat (since_2017 a) ?key' = max (since_2017 a) (?t + ei * real_of_int cost)"
        using True by (simp add: cases raw_tat_def redis_SET_EX_def)
      have upto: "since_2017 now \<le> since_2017 (a + w)" using now by (simp add: since_2017_def)
      have vt: "since_2017 a \<le> since_2017 now \<Longrightarrow> ?v \<le> ?t" by (auto simp: raw_tat_def gcra_tat_def split: option.split)
      have mono: "?v \<le> max (since_2017 a) (?t + ei * real_of_int cost)"
        using pos by (auto simp: raw_tat_def gcra_tat_def split: option.split)
      have g: "granted_in a w (run_gcra burst rate period (c # calls) key) =
          (if a < now then cost else 0) + granted_in a w (run_gcra burst rate period calls ?key')"
        using True now by (simp add: c cases granted_in_Cons)
      show ?thesis
      proof (cases "a < now")
        case False
        then show ?thesis using ih mono unfolding g new by (simp add: max_def split: if_splits)
      next
        case after: True
        then have an: "since_2017 a \<le> since_2017 now" by (simp add: since_2017_def)
        have "since_2017 now \<le> ?t" by (simp add: gcra_tat_def)
        then have new': "raw_tat (since_2017 a) ?key' = ?t + ei * real_of_int cost" using an pos unfolding new by linarith
        have "?t + ei * real_of_int cost \<le> ?e" using True upto by linarith
        then have "ei * real_of_int (granted_in a w (run_gcra burst rate period calls ?key')) \<le> ?e - (?t + ei * real_of_int cost)"
          using ih new' by simp
        moreover have "ei * real_of_int (granted_in a w (run_gcra burst rate period (c # calls) key)) =
            ei * real_of_int cost + ei * real_of_int (granted_in a w (run_gcra burst rate period calls ?key'))"
          using after by (simp add: g distrib_left)
        ultimately show ?thesis using vt[OF an] by linarith
      qed
    qed
  qed
qed

text \<open>C14. Whatever calls are made, in the order of their times, the cost granted in any window exceeds the burst by no more
  than the rate gives back in that time: within one period at most the burst and the rate together.\<close>

theorem gcra_window:
  fixes a w burst rate period :: int
  assumes "1 \<le> rate" "1 \<le> period" "0 \<le> burst" "0 \<le> w" "sorted (map fst calls)" "\<forall>x\<in>set calls. 1 \<le> snd x"
  shows "granted_in a w (run_gcra burst rate period calls None) * (period * 1000000) \<le> burst * (period * 1000000) + rate * w"
proof -
  define g where "g = granted_in a w (run_gcra burst rate period calls None)"
  have ei: "emission_interval rate period * real_of_int rate = real_of_int (period * 1000000)"
    using assms(1) by (simp add: emission_interval_def)
  have pos: "0 < emission_interval rate period" using emission_pos assms(1,2) by simp
  have "0 \<le> real_of_int w + emission_interval rate period * real_of_int burst" using assms(3,4) pos by simp
  then have "emission_interval rate period * real_of_int g \<le> real_of_int w + emission_interval rate period * real_of_int burst"
    using run_gcra_bound[OF assms(1,2,5,6) key_ok_None, of a w burst] by (simp add: g_def raw_tat_def since_2017_def)
  then have "real_of_int rate * (emission_interval rate period * real_of_int g) \<le>
      real_of_int rate * (real_of_int w + emission_interval rate period * real_of_int burst)"
    using assms(1) by (simp add: mult_left_mono)
  then have "real_of_int (period * 1000000) * real_of_int g \<le>
      real_of_int rate * real_of_int w + real_of_int (period * 1000000) * real_of_int burst"
    unfolding ei[symmetric] by (simp add: algebra_simps)
  then have "real_of_int (g * (period * 1000000)) \<le> real_of_int (burst * (period * 1000000) + rate * w)"
    by (simp add: algebra_simps)
  then show ?thesis unfolding of_int_le_iff g_def .
qed

lemmas gcra_eval = gcra_script_def gcra_allowed_def redisGCRA_def to_redis_def emission_interval_def jan_1_2017_def redis_GET_def
  redis_SET_EX_def Let_def

text \<open>With the default burst, which is the rate, nearly twice the rate passes in one period: here 3 calls of 2 per second.\<close>

theorem gcra_window_witness:
  "granted_in 1500000000000000 1000000 (run_gcra 2 2 1 [(1500000000000001, 2), (1500000000500001, 1), (1500000000900000, 1)] None)
     * (1 * 1000000) \<le> 2 * (1 * 1000000) + 2 * 1000000
   \<and> run_gcra 2 2 1 [(1500000000000001, 2), (1500000000500001, 1), (1500000000900000, 1)] None
     = [(1500000000000001, 2), (1500000000500001, 1)]"
  using gcra_window[of 2 1 2 1000000 "[(1500000000000001, 2), (1500000000500001, 1), (1500000000900000, 1)]" 1500000000000000]
  by (simp add: gcra_eval)

text \<open>A call that is refused although it fits into the burst is granted exactly after the time that the answer gives, before it is
  rounded down to microseconds.\<close>

lemma gcra_retry:
  fixes now now' cost burst :: int
  assumes "1 \<le> rate" "1 \<le> period" "1 \<le> cost" "key_ok key" "cost \<le> burst" "now \<le> now'"
    and refused: "\<not> gcra_allowed (fst (gcra_script burst rate period cost now key))"
  defines "d \<equiv> gcra_tat (since_2017 now) key + emission_interval rate period * (real_of_int cost - real_of_int burst) - since_2017 now"
  shows "gcra_allowed (fst (gcra_script burst rate period cost now' key)) \<longleftrightarrow> d \<le> real_of_int (now' - now)"
    and "snd (redisGCRA (fst (gcra_script burst rate period cost now key))) = Inr (False, micros \<lfloor>d\<rfloor>, None)"
proof -
  let ?ei = "emission_interval rate period"
  have fits: "?ei * real_of_int cost \<le> ?ei * real_of_int burst" using emission_pos[OF assms(1,2)] assms(5) by simp
  note c = gcra_script_cases(1)[OF assms(1-4)]
  have r: "since_2017 now + ?ei * real_of_int burst < gcra_tat (since_2017 now) key + ?ei * real_of_int cost"
    using refused unfolding c by simp
  have nn: "since_2017 now' = since_2017 now + real_of_int (now' - now)" "0 \<le> real_of_int (now' - now)"
    using assms(6) by (simp_all add: since_2017_def)
  have t: "gcra_tat (since_2017 now') key = max (gcra_tat (since_2017 now) key) (since_2017 now')"
    using nn r fits by (auto simp: gcra_tat_def split: option.split)
  show "gcra_allowed (fst (gcra_script burst rate period cost now' key)) \<longleftrightarrow> d \<le> real_of_int (now' - now)"
    using fits r nn unfolding c t d_def by (auto simp: right_diff_distrib max_def)
  have "0 < d" using r by (simp add: d_def right_diff_distrib)
  moreover have "(gcra_tat (since_2017 now) key + ?ei * real_of_int cost - ?ei * real_of_int burst - since_2017 now) / ?ei = d / ?ei"
    by (simp add: d_def right_diff_distrib)
  moreover have neg: "x / ?ei < 0 \<longleftrightarrow> x < 0" for x using emission_pos[OF assms(1,2)] by (simp add: divide_less_0_iff)
  ultimately show "snd (redisGCRA (fst (gcra_script burst rate period cost now key))) = Inr (False, micros \<lfloor>d\<rfloor>, None)"
    unfolding gcra_script_def Let_def since_2017_def[symmetric] tat_read[OF assms(4)] neg
    by (auto simp: redisGCRA_def to_redis_def d_def algebra_simps)
qed

text \<open>A call for more than the burst is refused for ever, with a time to retry after all the same.\<close>

lemma gcra_cost_above_burst:
  assumes "1 \<le> rate" "1 \<le> period" "1 \<le> cost" "key_ok key" "burst < cost"
  shows "\<not> gcra_allowed (fst (gcra_script burst rate period cost now key))"
proof -
  have "since_2017 now \<le> gcra_tat (since_2017 now) key" by (simp add: gcra_tat_def)
  moreover have "emission_interval rate period * real_of_int burst < emission_interval rate period * real_of_int cost"
    using emission_pos[OF assms(1,2)] assms(5) by simp
  ultimately show ?thesis unfolding gcra_script_cases(1)[OF assms(1-4)] by linarith
qed

text \<open>The time after which the key is of no use is given to Redis in microseconds where seconds are expected: the key of a
  call of one in a second lives for more than eleven days.\<close>

lemma gcra_key_lifetime:
  "snd (gcra_script 1 1 1 1 (jan_1_2017 + now) None) = Some (real_of_int now + 1000000, real_of_int now + 1000000 * 1000000)"
  by (simp add: gcra_eval)

end
