(* ===== verification/Metric.thy ===== *)
theory Metric
  imports Kit_Prelude Complex_Main "HOL-Library.Multiset" "HOL-Library.AList"
begin

text \<open>
  The package \<open>stats/metric\<close>: the percentile tracker and the simple moving average with their
  rings of observations, the exponentially weighted averages, counter, gauge, and the registry with
  its index by name. A float64 is a real: rounding, NaN and the infinities are not modelled, and
  the conversion of a float that does not fit an integer type is the parameter \<open>oor\<close>.
\<close>

subsection \<open>Rings\<close>

lemma rotate_Suc_update:
  assumes "s \<noteq> []"
  shows "rotate (Suc n) (s[n mod length s := x]) = tl (rotate n s) @ [x]"
proof -
  let ?k = "n mod length s"
  have k: "?k < length s" using assms by simp
  have "rotate n (s[?k := x]) = x # drop (Suc ?k) s @ take ?k s"
    unfolding rotate_drop_take using k
    by (simp add: Cons_nth_drop_Suc[symmetric, of ?k "s[?k := x]"])
  moreover have "rotate n s = s ! ?k # drop (Suc ?k) s @ take ?k s"
    unfolding rotate_drop_take using k by (simp add: Cons_nth_drop_Suc[symmetric])
  ultimately show ?thesis by (simp add: rotate_Suc)
qed

lemma mset_rotate: "mset (rotate n s) = mset s"
proof -
  have "mset (rotate n s) = mset (take (n mod length s) s @ drop (n mod length s) s)"
    by (simp only: rotate_drop_take mset_append add.commute)
  then show ?thesis by (simp only: append_take_drop_id)
qed

subsection \<open>The percentile tracker\<close>

record percentileTracker =
  capacity :: nat
  times :: "gotime list"
  tvalues :: "real list"
  next_pos :: nat
  tsize :: nat

definition NewPercentileTracker :: "int \<Rightarrow> percentileTracker" where
  "NewPercentileTracker cap =
     (let c = (if cap \<le> 0 then 512 else nat cap)
      in \<lparr>capacity = c, times = replicate c zero_time, tvalues = replicate c 0, next_pos = 0, tsize = 0\<rparr>)"

definition pt_Observe :: "gotime \<Rightarrow> real \<Rightarrow> percentileTracker \<Rightarrow> percentileTracker" where
  "pt_Observe now v t =
     (let n = next_pos t + 1
      in t\<lparr>times := (times t)[next_pos t := now], tvalues := (tvalues t)[next_pos t := v],
           next_pos := (if n = capacity t then 0 else n),
           tsize := (if tsize t < capacity t then tsize t + 1 else tsize t)\<rparr>)"

definition nearestRankPercentile :: "real list \<Rightarrow> real \<Rightarrow> real" where
  "nearestRankPercentile vs p =
     (let s = sort vs;
          rank = max (\<lceil>p / 100 * real (length vs)\<rceil> - 1) 0;
          rank' = (if rank \<ge> int (length vs) then int (length vs) - 1 else rank)
      in s ! nat rank')"

definition Percentile :: "gotime \<Rightarrow> real \<Rightarrow> duration \<Rightarrow> percentileTracker \<Rightarrow> real \<times> bool" where
  "Percentile now p win t =
     (if p < 0 \<or> p > 100 \<or> win \<le> 0 then (0, False)
      else let cutoff = now - win;
               vs = map snd (filter (\<lambda>(s, _). \<not> s < cutoff) (take (tsize t) (zip (times t) (tvalues t))))
           in if vs = [] then (0, False) else (nearestRankPercentile vs p, True))"

text \<open>The ring after the observations \<open>h\<close>, the newest last.\<close>

definition pt_after :: "int \<Rightarrow> (gotime \<times> real) list \<Rightarrow> percentileTracker" where
  "pt_after cap h = fold (\<lambda>(now, v). pt_Observe now v) h (NewPercentileTracker cap)"

definition slots :: "percentileTracker \<Rightarrow> (gotime \<times> real) list" where
  "slots t = zip (times t) (tvalues t)"

definition pt_inv :: "nat \<Rightarrow> (gotime \<times> real) list \<Rightarrow> percentileTracker \<Rightarrow> bool" where
  "pt_inv c h t \<longleftrightarrow> capacity t = c \<and> length (times t) = c \<and> length (tvalues t) = c \<and> next_pos t = length h mod c
     \<and> tsize t = min (length h) c \<and> rotate (length h) (slots t) = drop (length h) (replicate c (zero_time, 0) @ h)"

lemma pt_inv_Observe:
  assumes "pt_inv c h t" "0 < c"
  shows "pt_inv c (h @ [(now, v)]) (pt_Observe now v t)"
proof -
  have l: "length (slots t) = c" "slots t \<noteq> []" using assms by (auto simp: pt_inv_def slots_def)
  have "slots (pt_Observe now v t) = (slots t)[length h mod length (slots t) := (now, v)]"
    using assms(1) l by (simp add: pt_Observe_def Let_def pt_inv_def slots_def zip_update)
  then have "rotate (Suc (length h)) (slots (pt_Observe now v t)) = tl (rotate (length h) (slots t)) @ [(now, v)]"
    using rotate_Suc_update[OF l(2)] by simp
  also have "\<dots> = drop (Suc (length h)) (replicate c (zero_time, 0) @ h @ [(now, v)])"
  proof -
    let ?l = "replicate c (zero_time, 0 :: real) @ h"
    have "rotate (length h) (slots t) = drop (length h) ?l" using assms(1) by (simp add: pt_inv_def)
    moreover have "tl (drop (length h) ?l) @ [(now, v)] = drop (Suc (length h)) (?l @ [(now, v)])"
      using assms(2) by (simp only: drop_append[of _ ?l] drop_Suc tl_drop) simp
    ultimately show ?thesis by simp
  qed
  finally show ?thesis
    using assms by (auto simp: pt_inv_def pt_Observe_def Let_def mod_Suc slots_def)
qed

definition cap_of :: "int \<Rightarrow> nat" where
  "cap_of cap = (if cap \<le> 0 then 512 else nat cap)"

lemma pt_inv_after: "pt_inv (cap_of cap) h (pt_after cap h)"
proof (induction h rule: rev_induct)
  case Nil
  show ?case by (simp add: pt_inv_def pt_after_def NewPercentileTracker_def Let_def cap_of_def slots_def zip_replicate)
next
  case (snoc x h)
  then show ?case using pt_inv_Observe[OF snoc, of "fst x" "snd x"]
    by (cases x) (simp add: pt_after_def cap_of_def)
qed

text \<open>The observations the ring holds are the last ones, whatever their place.\<close>

definition last_n :: "nat \<Rightarrow> 'x list \<Rightarrow> 'x list" where
  "last_n c h = drop (length h - c) h"

lemma pt_inv_held:
  assumes "pt_inv c h t"
  shows "mset (take (tsize t) (slots t)) = mset (last_n c h)"
proof (cases "length h < c")
  case True
  have "length (slots t) = c" using assms by (simp add: pt_inv_def slots_def)
  then have "drop (length h) (slots t) @ take (length h) (slots t) = replicate (c - length h) (zero_time, 0) @ h"
    using assms True by (simp add: pt_inv_def rotate_drop_take)
  then have "take (length h) (slots t) = h"
    using \<open>length (slots t) = c\<close> True by (simp add: append_eq_append_conv)
  then show ?thesis using assms True by (simp add: pt_inv_def last_n_def)
next
  case False
  then have "rotate (length h) (slots t) = last_n c h" "tsize t = c" "length (slots t) = c"
    using assms by (auto simp: pt_inv_def last_n_def slots_def)
  then show ?thesis by (metis mset_rotate order_refl take_all)
qed

definition count_le :: "real list \<Rightarrow> real \<Rightarrow> nat" where
  "count_le vs v = length (filter (\<lambda>x. x \<le> v) vs)"

text \<open>The nearest rank: the least value such that at least \<open>p\<close> percent of the values are at most it.\<close>

definition nearest_rank :: "real \<Rightarrow> real list \<Rightarrow> real \<Rightarrow> bool" where
  "nearest_rank p vs v \<longleftrightarrow> v \<in> set vs \<and> p / 100 * real (length vs) \<le> real (count_le vs v)
     \<and> (\<forall>w\<in>set vs. p / 100 * real (length vs) \<le> real (count_le vs w) \<longrightarrow> v \<le> w)"

lemma count_le_mset: "mset vs = mset ws \<Longrightarrow> count_le vs v = count_le ws v"
  unfolding count_le_def by (metis mset_filter size_mset)

lemma nearest_rank_mset: "mset vs = mset ws \<Longrightarrow> nearest_rank p vs v = nearest_rank p ws v"
  using count_le_mset[of vs ws] mset_eq_setD[of vs ws] mset_eq_length[of vs ws] by (simp add: nearest_rank_def)

lemma count_le_split: "count_le vs v = count_le (take k vs) v + count_le (drop k vs) v"
  unfolding count_le_def by (metis append_take_drop_id filter_append length_append)

lemma count_le_sorted_ge:
  assumes "sorted s" "k < length s"
  shows "Suc k \<le> count_le s (s ! k)"
proof -
  have "\<forall>x\<in>set (take (Suc k) s). x \<le> s ! k"
    using assms by (auto simp: in_set_conv_nth less_Suc_eq_le intro!: sorted_nth_mono)
  then have "count_le (take (Suc k) s) (s ! k) = Suc k"
    unfolding count_le_def using assms(2) by (subst filter_True) auto
  then show ?thesis using count_le_split[of s _ "Suc k"] by simp
qed

lemma count_le_sorted_less:
  assumes "sorted s" "k < length s" "w < s ! k"
  shows "count_le s w \<le> k"
proof -
  have "\<forall>x\<in>set (drop k s). \<not> x \<le> w"
  proof
    fix x assume "x \<in> set (drop k s)"
    then obtain i where "i < length s - k" "x = s ! (k + i)" by (auto simp: in_set_conv_nth)
    then have "s ! k \<le> x" using assms by (auto intro!: sorted_nth_mono)
    then show "\<not> x \<le> w" using assms(3) by simp
  qed
  then have "count_le (drop k s) w = 0" unfolding count_le_def by (subst filter_False) auto
  moreover have "count_le (take k s) w \<le> k"
    unfolding count_le_def by (rule order_trans[OF length_filter_le]) simp
  ultimately show ?thesis using count_le_split[of s w k] by simp
qed

lemma nearestRankPercentile_spec:
  assumes "vs \<noteq> []" "0 \<le> p" "p \<le> 100"
  shows "nearest_rank p vs (nearestRankPercentile vs p)"
proof -
  define s where "s = sort vs"
  define x where "x = p / 100 * real (length vs)"
  define r where "r = nat (\<lceil>x\<rceil> - 1)"
  have n: "length s = length vs" "0 < length vs" "sorted s" "mset s = mset vs" using assms by (simp_all add: s_def)
  have "x \<le> 1 * real (length vs)" unfolding x_def using assms by (intro mult_right_mono) auto
  then have xc: "\<lceil>x\<rceil> \<le> int (length vs)" by (simp add: ceiling_le_iff)
  then have r: "r < length s" using n(1,2) unfolding r_def by linarith
  have v: "nearestRankPercentile vs p = s ! r"
    unfolding nearestRankPercentile_def Let_def s_def[symmetric] x_def[symmetric] r_def
    using xc n(2) by (intro arg_cong[of _ _ "(!) s"]) (auto simp: max_def)
  have "x \<le> real_of_int \<lceil>x\<rceil>" by (rule le_of_int_ceiling)
  also have "real_of_int \<lceil>x\<rceil> \<le> real (Suc r)" by (simp add: r_def)
  also have "\<dots> \<le> real (count_le s (s ! r))" using count_le_sorted_ge[OF n(3) r] by simp
  finally have lo: "x \<le> real (count_le s (s ! r))" .
  have hi: "s ! r \<le> w" if "w \<in> set s" "x \<le> real (count_le s w)" for w
  proof (rule ccontr)
    assume "\<not> s ! r \<le> w"
    then have le: "count_le s w \<le> r" using count_le_sorted_less[OF n(3) r] by simp
    have "0 < count_le s w" using that(1) by (auto simp: count_le_def filter_empty_conv)
    then have "real r < x" using le by (simp add: r_def) linarith
    then show False using le that(2) by linarith
  qed
  have "nearest_rank p s (s ! r)"
    unfolding nearest_rank_def n(1) x_def[symmetric] using lo hi r by simp
  then show ?thesis using nearest_rank_mset[OF n(4)] v by simp
qed

text \<open>After any observations, a percentile over a window is the nearest rank of exactly those
  among the last \<open>capacity\<close> observations that lie in the window, wherever the ring has put them;
  there is no result exactly when the arguments are invalid or no such observation exists.\<close>

lemma Percentile_exact:
  "let vs = map snd (filter (\<lambda>(s, _). now - win \<le> s) (last_n (cap_of cap) h))
   in case Percentile now p win (pt_after cap h) of
        (v, ok) \<Rightarrow> ok = (0 \<le> p \<and> p \<le> 100 \<and> 0 < win \<and> vs \<noteq> []) \<and> (if ok then nearest_rank p vs v else v = 0)"
proof -
  let ?t = "pt_after cap h" and ?f = "filter (\<lambda>(s, _). now - win \<le> s)"
  define ws where "ws = map snd (?f (take (tsize ?t) (slots ?t)))"
  define vs where "vs = map snd (?f (last_n (cap_of cap) h))"
  have m: "mset ws = mset vs"
    using pt_inv_held[OF pt_inv_after, of cap h] by (simp add: ws_def vs_def)
  have e: "ws = [] \<longleftrightarrow> vs = []" using m by (metis mset_zero_iff)
  have P: "Percentile now p win ?t = (if p < 0 \<or> p > 100 \<or> win \<le> 0 \<or> ws = [] then (0, False) else (nearestRankPercentile ws p, True))"
    by (simp add: Percentile_def Let_def ws_def slots_def not_less)
  show ?thesis
    unfolding P Let_def vs_def[symmetric]
    using nearestRankPercentile_spec[of ws p] nearest_rank_mset[OF m] e by auto
qed

subsection \<open>The simple moving average\<close>

record sma =
  window :: "real list"
  sma_size :: nat
  index :: nat
  sum_of :: real
  sma_count :: nat

text \<open>A negative size panics in \<open>make\<close>, size 0 in the first \<open>Observe\<close> (index out of range): \<open>None\<close>.\<close>

definition NewSimpleMovingAverage :: "int \<Rightarrow> sma option" where
  "NewSimpleMovingAverage sz =
     (if sz < 0 then None
      else Some \<lparr>window = replicate (nat sz) 0, sma_size = nat sz, index = 0, sum_of = 0, sma_count = 0\<rparr>)"

definition sma_Observe :: "real \<Rightarrow> sma \<Rightarrow> sma option" where
  "sma_Observe v s =
     (if index s < length (window s)
      then Some (s\<lparr>sum_of := sum_of s - window s ! index s + v, window := (window s)[index s := v],
                   index := (index s + 1) mod sma_size s,
                   sma_count := (if sma_count s < sma_size s then sma_count s + 1 else sma_count s)\<rparr>)
      else None)"

definition sma_Load :: "sma \<Rightarrow> real" where
  "sma_Load s = (if sma_count s = 0 then 0 else sum_of s / real (sma_count s))"

fun sma_run :: "real list \<Rightarrow> sma \<Rightarrow> sma option" where
  "sma_run [] s = Some s"
| "sma_run (v # vs) s = Option.bind (sma_Observe v s) (sma_run vs)"

definition sma_inv :: "nat \<Rightarrow> real list \<Rightarrow> sma \<Rightarrow> bool" where
  "sma_inv c h s \<longleftrightarrow> length (window s) = c \<and> sma_size s = c \<and> index s = length h mod c \<and> sma_count s = min (length h) c
     \<and> sum_of s = sum_list (window s) \<and> rotate (length h) (window s) = drop (length h) (replicate c 0 @ h)"

lemma sum_list_real_update:
  "k < length s \<Longrightarrow> sum_list (s[k := v]) = sum_list s - s ! k + (v :: real)"
  by (induction s arbitrary: k) (auto split: nat.split)

lemma sma_inv_Observe:
  assumes "sma_inv c h s" "0 < c"
  shows "\<exists>s'. sma_Observe v s = Some s' \<and> sma_inv c (h @ [v]) s'"
proof -
  let ?l = "replicate c (0 :: real) @ h"
  have ne: "window s \<noteq> []" and i: "index s = length h mod length (window s)" "index s < length (window s)"
    using assms by (auto simp: sma_inv_def)
  have "rotate (Suc (length h)) ((window s)[index s := v]) = tl (drop (length h) ?l) @ [v]"
    using rotate_Suc_update[OF ne, of "length h" v] assms(1) i(1) by (simp add: sma_inv_def)
  also have "\<dots> = drop (Suc (length h)) (?l @ [v])"
    using assms(2) by (simp only: drop_append[of _ ?l] drop_Suc tl_drop) simp
  finally have r: "rotate (Suc (length h)) ((window s)[index s := v]) = drop (Suc (length h)) (replicate c 0 @ h @ [v])"
    by simp
  have "sum_list ((window s)[index s := v]) = sum_list (window s) - window s ! index s + v"
    using i(2) by (rule sum_list_real_update)
  then show ?thesis
    using assms i r by (auto simp: sma_Observe_def sma_inv_def mod_Suc_eq)
qed

lemma sma_inv_run:
  "sma_inv c h s \<Longrightarrow> 0 < c \<Longrightarrow> \<exists>s'. sma_run vs s = Some s' \<and> sma_inv c (h @ vs) s'"
proof (induction vs arbitrary: h s)
  case (Cons v vs)
  then obtain s1 where "sma_Observe v s = Some s1" "sma_inv c (h @ [v]) s1" using sma_inv_Observe by blast
  then show ?case using Cons.IH[of "h @ [v]" s1] Cons.prems(2) by simp
qed simp

lemma sum_list_rotate: "sum_list (rotate n s) = sum_list (s :: real list)"
  using mset_rotate[of n s] by (metis sum_mset_sum_list)

text \<open>The simple moving average never panics for a positive size and loads the mean of the last
  observations, \<open>size\<close> of them or all when there are fewer.\<close>

lemma sma_Load_mean:
  assumes "1 \<le> sz"
  shows "\<exists>s0 s. NewSimpleMovingAverage sz = Some s0 \<and> sma_run vs s0 = Some s
    \<and> sma_Load s = (if vs = [] then 0 else sum_list (last_n (nat sz) vs) / real (length (last_n (nat sz) vs)))"
proof -
  let ?c = "nat sz"
  obtain s0 where s0: "NewSimpleMovingAverage sz = Some s0" "sma_inv ?c [] s0"
    using assms that[of "\<lparr>window = replicate ?c 0, sma_size = ?c, index = 0, sum_of = 0, sma_count = 0\<rparr>"]
    by (simp add: NewSimpleMovingAverage_def sma_inv_def sum_list_replicate)
  obtain s where s: "sma_run vs s0 = Some s" "sma_inv ?c vs s"
    using sma_inv_run[OF s0(2)] assms by fastforce
  have "sum_of s = sum_list (drop (length vs) (replicate ?c 0 @ vs))"
    using s(2) sum_list_rotate[of "length vs" "window s"] by (simp add: sma_inv_def)
  also have "\<dots> = sum_list (last_n ?c vs)" by (simp add: last_n_def sum_list_replicate)
  finally have "sma_Load s = (if vs = [] then 0 else sum_list (last_n ?c vs) / real (length (last_n ?c vs)))"
    using s(2) assms by (auto simp: sma_Load_def sma_inv_def last_n_def min_def split: if_splits)
  then show ?thesis using s0(1) s(1) by blast
qed

lemma sma_Load_mean_witness:
  "\<exists>s0 s. NewSimpleMovingAverage 2 = Some s0 \<and> sma_run [1, 2, 4] s0 = Some s \<and> sma_Load s = 3"
  using sma_Load_mean[of 2 "[1, 2, 4]"] by (simp add: last_n_def)

subsection \<open>Exponentially weighted averages\<close>

definition DECAY :: real where
  "DECAY = 2 / (30 + 1)"

definition WARMUP_SAMPLES :: nat where
  "WARMUP_SAMPLES = 10"

definition SimpleEWMA_Add :: "real \<Rightarrow> real \<Rightarrow> real" where
  "SimpleEWMA_Add v e = (if e = 0 then v else v * DECAY + e * (1 - DECAY))"

record VariableEWMA =
  decay :: real
  ewma_value :: real
  ewma_count :: nat

definition NewVariableEWMA :: "real \<Rightarrow> VariableEWMA" where
  "NewVariableEWMA age = \<lparr>decay = 2 / (age + 1), ewma_value = 0, ewma_count = 0\<rparr>"

definition VariableEWMA_Add :: "real \<Rightarrow> VariableEWMA \<Rightarrow> VariableEWMA" where
  "VariableEWMA_Add v e =
     (if ewma_count e < WARMUP_SAMPLES
      then e\<lparr>ewma_count := ewma_count e + 1, ewma_value := ewma_value e + v\<rparr>
      else if ewma_count e = WARMUP_SAMPLES
      then e\<lparr>ewma_count := ewma_count e + 1,
             ewma_value := v * decay e + (ewma_value e / real WARMUP_SAMPLES) * (1 - decay e)\<rparr>
      else e\<lparr>ewma_value := v * decay e + ewma_value e * (1 - decay e)\<rparr>)"

definition VariableEWMA_Value :: "VariableEWMA \<Rightarrow> real" where
  "VariableEWMA_Value e = (if ewma_count e \<le> WARMUP_SAMPLES then 0 else ewma_value e)"

definition VariableEWMA_Set :: "real \<Rightarrow> VariableEWMA \<Rightarrow> VariableEWMA" where
  "VariableEWMA_Set v e =
     e\<lparr>ewma_value := v, ewma_count := (if ewma_count e \<le> WARMUP_SAMPLES then WARMUP_SAMPLES + 1 else ewma_count e)\<rparr>"

subsection \<open>Counter and gauge\<close>

definition go_trunc :: "real \<Rightarrow> int" where
  "go_trunc x = (if 0 \<le> x then \<lfloor>x\<rfloor> else \<lceil>x\<rceil>)"

definition to_u64 :: "(real \<Rightarrow> u64) \<Rightarrow> real \<Rightarrow> u64" where
  "to_u64 oor x = (if 0 \<le> go_trunc x \<and> go_trunc x < 2 ^ 64 then word_of_int (go_trunc x) else oor x)"

record counter =
  valBits :: real
  valInt :: u64

definition NewCounter :: counter where
  "NewCounter = \<lparr>valBits = 0, valInt = 0\<rparr>"

text \<open>\<open>None\<close> is the panic.\<close>

definition counter_Add :: "(real \<Rightarrow> u64) \<Rightarrow> real \<Rightarrow> counter \<Rightarrow> counter option" where
  "counter_Add oor v c =
     (if v < 0 then None
      else let ival = to_u64 oor v
           in if real (unat ival) = v then Some (c\<lparr>valInt := valInt c + ival\<rparr>)
              else Some (c\<lparr>valBits := valBits c + v\<rparr>))"

definition counter_Inc :: "counter \<Rightarrow> counter" where
  "counter_Inc c = c\<lparr>valInt := valInt c + 1\<rparr>"

definition counter_Value :: "counter \<Rightarrow> real" where
  "counter_Value c = valBits c + real (unat (valInt c))"

text \<open>The counter adds up exactly while the integer part has room.\<close>

lemma counter_Add_Value:
  assumes "counter_Add oor v c = Some c'" "counter_Value c + v < 2 ^ 64" "0 \<le> valBits c"
  shows "counter_Value c' = counter_Value c + v" "0 \<le> valBits c'"
proof -
  have "unat (valInt c + to_u64 oor v) = unat (valInt c) + unat (to_u64 oor v)" if "real (unat (to_u64 oor v)) = v"
  proof (rule unat_add_lem[THEN iffD1])
    have "real (unat (valInt c) + unat (to_u64 oor v)) < 2 ^ 64"
      using assms(2,3) that by (simp add: counter_Value_def)
    then show "unat (valInt c) + unat (to_u64 oor v) < 2 ^ LENGTH(64)"
      unfolding of_nat_less_numeral_power_cancel_iff by simp
  qed
  then have "real (unat (valInt c + to_u64 oor v)) = real (unat (valInt c)) + v" if "real (unat (to_u64 oor v)) = v"
    using that by (metis of_nat_add)
  then show "counter_Value c' = counter_Value c + v" "0 \<le> valBits c'"
    using assms(1,3) by (auto simp: counter_Add_def counter_Value_def Let_def split: if_splits)
qed

definition gauge_Inc :: "real \<Rightarrow> real" where "gauge_Inc g = g + 1"

definition gauge_Dec :: "real \<Rightarrow> real" where "gauge_Dec g = g + - 1"

definition gauge_Add :: "real \<Rightarrow> real \<Rightarrow> real" where "gauge_Add v g = g + v"

definition gauge_Sub :: "real \<Rightarrow> real \<Rightarrow> real" where "gauge_Sub v g = gauge_Add (v * - 1) g"

definition gauge_SetToCurrentTime :: "gotime \<Rightarrow> real" where
  "gauge_SetToCurrentTime unixnano = real_of_int unixnano / 1000000000"

definition gauge_IntValue :: "(real \<Rightarrow> int) \<Rightarrow> real \<Rightarrow> int" where
  "gauge_IntValue oor g = (if - (2 ^ 63) \<le> go_trunc g \<and> go_trunc g < 2 ^ 63 then go_trunc g else oor g)"

definition gauge_ValueAsTime :: "(real \<Rightarrow> int) \<Rightarrow> real \<Rightarrow> gotime" where
  "gauge_ValueAsTime oor g = gauge_IntValue oor (g * 1000000000)"

subsection \<open>The registry\<close>

text \<open>
  A measurement is a comparable Go value \<open>'m\<close> with a name and tags (\<open>gname\<close>, \<open>gtags\<close>). Metrics are
  objects of a heap, and the registry keeps their addresses. What a pool hands out is always in the
  state of a new object, since only objects that lost the race to be stored are put back.
\<close>

datatype metric = MCounter counter | MGauge real | MSimpleEWMA real | MVariableEWMA VariableEWMA

record ('m, 't) registry =
  reg_store :: "'m \<rightharpoonup> nat"
  nameIndex :: "gostr \<rightharpoonup> ('m \<times> 't \<times> nat) list"
  heap :: "nat \<Rightarrow> metric"
  next_addr :: nat

definition NewRegistry :: "('m, 't) registry" where
  "NewRegistry = \<lparr>reg_store = Map.empty, nameIndex = Map.empty, heap = (\<lambda>_. MGauge 0), next_addr = 0\<rparr>"

definition updateIndex :: "('m \<Rightarrow> gostr) \<Rightarrow> ('m \<Rightarrow> 't) \<Rightarrow> 'm \<Rightarrow> nat \<Rightarrow> ('m, 't) registry \<Rightarrow> ('m, 't) registry" where
  "updateIndex gname gtags m a r =
     (let s = (case nameIndex r (gname m) of None \<Rightarrow> [] | Some s \<Rightarrow> s)
      in r\<lparr>nameIndex := (nameIndex r)(gname m \<mapsto> AList.update m (gtags m, a) s)\<rparr>)"

text \<open>\<open>get\<close>, with \<open>init\<close> the state of the pool's objects.\<close>

definition get :: "('m \<Rightarrow> gostr) \<Rightarrow> ('m \<Rightarrow> 't) \<Rightarrow> 'm \<Rightarrow> metric \<Rightarrow> ('m, 't) registry \<Rightarrow> nat \<times> ('m, 't) registry" where
  "get gname gtags m init r =
     (case reg_store r m of
        Some a \<Rightarrow> (a, r)
      | None \<Rightarrow>
          (let a = next_addr r
           in (a, updateIndex gname gtags m a
                    (r\<lparr>reg_store := (reg_store r)(m \<mapsto> a), heap := (heap r)(a := init), next_addr := a + 1\<rparr>))))"

datatype reg_error = DifferentType | AnotherAge real

text \<open>Go's type assertions are structural: a \<open>Counter\<close> is what has \<open>Inc\<close>, \<open>Add\<close> and \<open>Value\<close>, a
  \<open>MovingAverage\<close> what has \<open>Add\<close>, \<open>Value\<close> and \<open>Set\<close>; a gauge has all of these.\<close>

fun is_Counter :: "metric \<Rightarrow> bool" where
  "is_Counter (MCounter _) = True"
| "is_Counter (MGauge _) = True"
| "is_Counter _ = False"

fun is_Gauge :: "metric \<Rightarrow> bool" where
  "is_Gauge (MGauge _) = True"
| "is_Gauge _ = False"

fun is_MovingAverage :: "metric \<Rightarrow> bool" where
  "is_MovingAverage (MCounter _) = False"
| "is_MovingAverage _ = True"

definition typed_get :: "(metric \<Rightarrow> bool) \<Rightarrow> nat \<times> ('m, 't) registry \<Rightarrow> (reg_error + nat) \<times> ('m, 't) registry" where
  "typed_get ok res = (case res of (a, r) \<Rightarrow> (if ok (heap r a) then Inr a else Inl DifferentType, r))"

definition GetCounter where
  "GetCounter gname gtags m r = typed_get is_Counter (get gname gtags m (MCounter NewCounter) r)"

definition GetGauge where
  "GetGauge gname gtags m r = typed_get is_Gauge (get gname gtags m (MGauge 0) r)"

definition GetSimpleMovingAvg where
  "GetSimpleMovingAvg gname gtags m r = typed_get is_MovingAverage (get gname gtags m (MSimpleEWMA 0) r)"

definition GetVarMovingAvg where
  "GetVarMovingAvg gname gtags m age r =
     (case get gname gtags m (MVariableEWMA (NewVariableEWMA age)) r of
        (a, r1) \<Rightarrow>
          (case heap r1 a of
             MVariableEWMA e \<Rightarrow>
               (if decay e \<noteq> 2 / (age + 1) then Inl (AnotherAge (2 / decay e + 1)) else Inr a, r1)
           | _ \<Rightarrow> (Inl DifferentType, r1)))"

text \<open>The \<open>MustGet\<close> variants panic on an error: \<open>None\<close>.\<close>

definition must :: "(reg_error + nat) \<times> ('m, 't) registry \<Rightarrow> (nat \<times> ('m, 't) registry) option" where
  "must res = (case res of (Inl _, _) \<Rightarrow> None | (Inr a, r) \<Rightarrow> Some (a, r))"

definition MustGetCounter where "MustGetCounter gname gtags m r = must (GetCounter gname gtags m r)"

definition MustGetGauge where "MustGetGauge gname gtags m r = must (GetGauge gname gtags m r)"

definition MustGetSimpleMovingAvg where "MustGetSimpleMovingAvg gname gtags m r = must (GetSimpleMovingAvg gname gtags m r)"

definition MustGetVarMovingAvg where "MustGetVarMovingAvg gname gtags m age r = must (GetVarMovingAvg gname gtags m age r)"

definition GetMetricsByName :: "gostr \<Rightarrow> ('m, 't) registry \<Rightarrow> ('t \<times> nat) list" where
  "GetMetricsByName name r = (case nameIndex r name of None \<Rightarrow> [] | Some s \<Rightarrow> map snd s)"

text \<open>The manager: one registry per key.\<close>

definition PublishedMetrics :: gostr where
  "PublishedMetrics = lit ''published_metrics''"

definition NewManager :: "gostr \<rightharpoonup> ('m, 't) registry" where
  "NewManager = [PublishedMetrics \<mapsto> NewRegistry]"

definition GetRegistry :: "gostr \<Rightarrow> (gostr \<rightharpoonup> ('m, 't) registry) \<Rightarrow> ('m, 't) registry option" where
  "GetRegistry k m = m k"

definition Reset :: "(gostr \<rightharpoonup> ('m, 't) registry) \<Rightarrow> (gostr \<rightharpoonup> ('m, 't) registry)" where
  "Reset m = map_option (\<lambda>_. NewRegistry) \<circ> m"

subsection \<open>What the registry keeps\<close>

datatype 'm reg_op = OpCounter 'm | OpGauge 'm | OpSimple 'm | OpVar 'm real | OpUse nat metric

text \<open>\<open>OpUse\<close> is any use of a metric object: it changes the object only.\<close>

fun reg_step :: "('m \<Rightarrow> gostr) \<Rightarrow> ('m \<Rightarrow> 't) \<Rightarrow> 'm reg_op \<Rightarrow> ('m, 't) registry \<Rightarrow> ('m, 't) registry" where
  "reg_step gname gtags (OpCounter m) r = snd (GetCounter gname gtags m r)"
| "reg_step gname gtags (OpGauge m) r = snd (GetGauge gname gtags m r)"
| "reg_step gname gtags (OpSimple m) r = snd (GetSimpleMovingAvg gname gtags m r)"
| "reg_step gname gtags (OpVar m age) r = snd (GetVarMovingAvg gname gtags m age r)"
| "reg_step gname gtags (OpUse a v) r = r\<lparr>heap := (heap r)(a := v)\<rparr>"

definition reg_run where
  "reg_run gname gtags ops = fold (reg_step gname gtags) ops"

definition reg_inv :: "('m \<Rightarrow> gostr) \<Rightarrow> ('m \<Rightarrow> 't) \<Rightarrow> ('m, 't) registry \<Rightarrow> bool" where
  "reg_inv gname gtags r \<longleftrightarrow> (\<forall>m a. reg_store r m = Some a \<longrightarrow> a < next_addr r)
     \<and> (\<forall>m m' a. reg_store r m = Some a \<longrightarrow> reg_store r m' = Some a \<longrightarrow> m = m')
     \<and> (\<forall>name. let s = (case nameIndex r name of None \<Rightarrow> [] | Some s \<Rightarrow> s)
           in distinct (map fst s)
            \<and> map_of s = (\<lambda>m. if gname m = name then map_option (\<lambda>a. (gtags m, a)) (reg_store r m) else None))"

lemma reg_inv_get:
  assumes "reg_inv gname gtags r"
  shows "reg_inv gname gtags (snd (get gname gtags m init r))"
proof (cases "reg_store r m")
  case None
  then show ?thesis
    using assms by (auto simp: reg_inv_def get_def updateIndex_def Let_def update_conv' distinct_update fun_eq_iff
      intro: less_SucI split: option.splits)
qed (use assms in \<open>simp add: get_def\<close>)

lemma get_store:
  "reg_store (snd (get gname gtags m init r)) = (reg_store r)(m \<mapsto> fst (get gname gtags m init r))"
  by (auto simp: get_def updateIndex_def Let_def fun_eq_iff split: option.split)

lemma typed_get_snd: "snd (typed_get ok res) = snd res"
  by (simp add: typed_get_def split: prod.split)

lemma GetVarMovingAvg_snd:
  "snd (GetVarMovingAvg gname gtags m age r) = snd (get gname gtags m (MVariableEWMA (NewVariableEWMA age)) r)"
  by (simp add: GetVarMovingAvg_def split: prod.split metric.split)

lemmas getters = GetCounter_def GetGauge_def GetSimpleMovingAvg_def typed_get_snd GetVarMovingAvg_snd

lemma reg_inv_step: "reg_inv gname gtags r \<Longrightarrow> reg_inv gname gtags (reg_step gname gtags op r)"
  by (cases op) (simp_all add: getters reg_inv_get, simp add: reg_inv_def cong: if_cong)

lemma reg_step_keeps: "reg_store r m = Some a \<Longrightarrow> reg_store (reg_step gname gtags op r) m = Some a"
  by (cases op) (auto simp: getters get_store, auto simp: get_def)

lemma reg_inv_run: "reg_inv gname gtags r \<Longrightarrow> reg_inv gname gtags (reg_run gname gtags ops r)"
  unfolding reg_run_def by (induction ops arbitrary: r) (auto simp: reg_inv_step)

lemma reg_run_keeps: "reg_store r m = Some a \<Longrightarrow> reg_store (reg_run gname gtags ops r) m = Some a"
  unfolding reg_run_def by (induction ops arbitrary: r) (auto simp: reg_step_keeps)

lemma reg_inv_New: "reg_inv gname gtags NewRegistry"
  by (simp add: reg_inv_def NewRegistry_def fun_eq_iff)


lemma GetCounter_takes_gauge:
  assumes "GetGauge gname gtags m r = (Inr a, r1)"
  shows "GetCounter gname gtags m r1 = (Inr a, r1)" "GetSimpleMovingAvg gname gtags m r1 = (Inr a, r1)"
proof -
  have "reg_store r1 m = Some a" "is_Gauge (heap r1 a)"
    using assms get_store[of gname gtags m "MGauge 0" r]
    by (auto simp: GetGauge_def typed_get_def split: prod.splits if_splits)
  then show "GetCounter gname gtags m r1 = (Inr a, r1)" "GetSimpleMovingAvg gname gtags m r1 = (Inr a, r1)"
    by (auto simp: GetCounter_def GetSimpleMovingAvg_def typed_get_def get_def elim!: is_Gauge.elims)
qed

text \<open>The age that the error message reports is off by two.\<close>

lemma AnotherAge_off_by_two: "- 1 < age \<Longrightarrow> 2 / decay (NewVariableEWMA age) + 1 = age + 2"
  by (simp add: NewVariableEWMA_def)

end
