(* ===== verification/Iab.thy ===== *)
theory Iab
  imports Kit_Prelude
begin

text \<open>
  The parser of the IAB blacklist and whitelist files (package \<open>iabparser\<close>): the line scanner of
  the standard library as the code uses it, the fields of a line, dates in \<open>mm/dd/yyyy\<close> form, and
  the collection of the entries. A reader is the text it delivers and whether it fails at its end.
\<close>

subsection \<open>Scanning lines\<close>

text \<open>
  \<open>bufio.Scanner\<close> with its default buffer: a line ends at a newline or at the end of the text, a
  trailing carriage return is dropped, an empty rest is no line, and a line of 64 KiB or more
  (in UTF-8) makes the scanner stop with an error.
\<close>

definition utf8_len :: "gostr \<Rightarrow> nat" where
  "utf8_len s = sum_list (map (\<lambda>r. if r < 0x80 then 1 else if r < 0x800 then 2 else if r < 0x10000 then 3 else 4) s)"

definition dropCR :: "gostr \<Rightarrow> gostr" where
  "dropCR s = (if s \<noteq> [] \<and> last s = 13 then butlast s else s)"

text \<open>The lines before the first one that is too long, and whether there is such a line.\<close>

fun fit_lines :: "gostr list \<Rightarrow> gostr list \<times> bool" where
  "fit_lines [] = ([], False)"
| "fit_lines (l # ls) = (if utf8_len l \<ge> 65536 then ([], True) else (let (r, b) = fit_lines ls in (dropCR l # r, b)))"

definition scan :: "gostr \<times> bool \<Rightarrow> gostr list \<times> bool" where
  "scan rd = (let ls = split_on 10 (fst rd);
                  (r, toolong) = fit_lines (if last ls = [] then butlast ls else ls)
              in (r, toolong \<or> snd rd))"

subsection \<open>Fields\<close>

datatype line_error = FieldCount nat | EmptyPattern | BadBinaryFlag gostr gostr | BadDualPass gostr
  | BadImpactType gostr | BadDate gostr

datatype iab_error = AtLine nat line_error | ReadingInput

fun split_comma :: "gostr \<Rightarrow> gostr list" where
  "split_comma [] = [[]]"
| "split_comma (r # rs) =
     (if r = 44 \<and> rs \<noteq> [] \<and> hd rs = 32 then [] # split_comma (tl rs)
      else (r # hd (split_comma rs)) # tl (split_comma rs))"

definition parseBinaryFlag :: "gostr \<Rightarrow> gostr \<Rightarrow> line_error + bool" where
  "parseBinaryFlag s name = (if s = lit ''0'' then Inr False else if s = lit ''1'' then Inr True else Inl (BadBinaryFlag name s))"

definition parseDualPassFlag :: "gostr \<Rightarrow> line_error + int" where
  "parseDualPassFlag s = (if s = lit ''0'' then Inr 0 else if s = lit ''1'' then Inr 1 else Inl (BadDualPass s))"

definition parseImpactType :: "gostr \<Rightarrow> line_error + int" where
  "parseImpactType s = (if s = lit ''0'' then Inr 0 else if s = lit ''1'' then Inr 1
     else if s = lit ''2'' then Inr 2 else Inl (BadImpactType s))"

subsection \<open>Dates\<close>

definition is_leap :: "int \<Rightarrow> bool" where
  "is_leap y \<longleftrightarrow> y mod 4 = 0 \<and> (y mod 100 \<noteq> 0 \<or> y mod 400 = 0)"

definition daysIn :: "int \<Rightarrow> int \<Rightarrow> int" where
  "daysIn m y = (if m = 2 then (if is_leap y then 29 else 28) else if m \<in> {4, 6, 9, 11} then 30 else 31)"

text \<open>Midnight UTC of a date; the zero time is January 1 of year 1.\<close>

definition date_time :: "int \<Rightarrow> int \<Rightarrow> int \<Rightarrow> gotime" where
  "date_time y m d =
     (365 * (y - 1) + (y - 1) div 4 - (y - 1) div 100 + (y - 1) div 400
      + sum_list (map (\<lambda>i. daysIn (int i) y) [1..<nat m]) + (d - 1)) * 86400 * 1000000000"

definition valid_date :: "int \<Rightarrow> int \<Rightarrow> int \<Rightarrow> bool" where
  "valid_date y m d \<longleftrightarrow> 0 \<le> y \<and> y \<le> 9999 \<and> 1 \<le> m \<and> m \<le> 12 \<and> 1 \<le> d \<and> d \<le> daysIn m y"

text \<open>\<open>time.Parse\<close> with the layout \<open>01/02/2006\<close>: fixed widths, digits only, nothing after the year.\<close>

fun parse_mdy :: "gostr \<Rightarrow> (int \<times> int \<times> int) option" where
  "parse_mdy [m1, m2, s1, d1, d2, s2, y1, y2, y3, y4] =
     (if (\<forall>r\<in>set [m1, m2, d1, d2, y1, y2, y3, y4]. is_digit r) \<and> s1 = 47 \<and> s2 = 47
      then Some (int (digits_val 0 [y1, y2, y3, y4]), int (digits_val 0 [m1, m2]), int (digits_val 0 [d1, d2]))
      else None)"
| "parse_mdy _ = None"

definition time_Parse :: "gostr \<Rightarrow> gotime option" where
  "time_Parse s = (case parse_mdy s of
                     None \<Rightarrow> None
                   | Some (y, m, d) \<Rightarrow>
                       if m \<le> 0 \<or> 12 < m then None
                       else if d < 1 \<or> d > daysIn m y then None else Some (date_time y m d))"

definition parseInactiveDate :: "gostr \<Rightarrow> line_error + gotime" where
  "parseInactiveDate s =
     (if s = [] then Inr zero_time
      else case time_Parse s of None \<Rightarrow> Inl (BadDate s) | Some t \<Rightarrow> Inr t)"

subsection \<open>Lines\<close>

record BlacklistEntry =
  Pattern :: gostr
  Active :: bool
  Exceptions :: "gostr list"
  DualPassFlag :: int
  ImpactType :: int
  StartOfString :: bool
  InactiveDate :: gotime

record WhitelistEntry =
  WPattern :: gostr
  WActive :: bool
  WStartOfString :: bool
  WInactiveDate :: gotime

definition parseBlacklistLine :: "gostr \<Rightarrow> line_error + BlacklistEntry" where
  "parseBlacklistLine line =
     (let fs = split_on 124 line; nf = length fs
      in if nf \<noteq> 6 \<and> nf \<noteq> 7 then Inl (FieldCount nf)
         else if fs ! 0 = [] then Inl EmptyPattern
         else bind_res (parseBinaryFlag (fs ! 1) (lit ''active flag (field 2)'')) (\<lambda>isActive.
              let exceptions = (if fs ! 2 \<noteq> [] then split_comma (fs ! 2) else [])
              in bind_res (parseDualPassFlag (fs ! 3)) (\<lambda>dualPass.
                 bind_res (parseImpactType (fs ! 4)) (\<lambda>impactType.
                 bind_res (parseBinaryFlag (fs ! 5) (lit ''start-of-string flag (field 6)'')) (\<lambda>startOfString.
                 bind_res (if nf = 7 then parseInactiveDate (fs ! 6) else Inr zero_time) (\<lambda>inactiveDate.
                   Inr \<lparr>Pattern = fs ! 0, Active = isActive, Exceptions = exceptions, DualPassFlag = dualPass,
                        ImpactType = impactType, StartOfString = startOfString, InactiveDate = inactiveDate\<rparr>))))))"

definition parseWhitelistLine :: "gostr \<Rightarrow> line_error + WhitelistEntry" where
  "parseWhitelistLine line =
     (let fs = split_on 124 line; nf = length fs
      in if nf \<noteq> 3 \<and> nf \<noteq> 4 then Inl (FieldCount nf)
         else if fs ! 0 = [] then Inl EmptyPattern
         else bind_res (parseBinaryFlag (fs ! 1) (lit ''active flag (field 2)'')) (\<lambda>isActive.
              bind_res (parseBinaryFlag (fs ! 2) (lit ''start-of-string flag (field 3)'')) (\<lambda>startOfString.
              bind_res (if nf = 4 then parseInactiveDate (fs ! 3) else Inr zero_time) (\<lambda>inactiveDate.
                Inr \<lparr>WPattern = fs ! 0, WActive = isActive, WStartOfString = startOfString, WInactiveDate = inactiveDate\<rparr>))))"

subsection \<open>Files\<close>

definition shouldSkipLine :: "gostr \<Rightarrow> bool" where
  "shouldSkipLine line = (let trimmed = TrimSpace line in trimmed = [] \<or> hd trimmed = 35)"

fun line_loop :: "(gostr \<Rightarrow> line_error + 'e) \<Rightarrow> bool \<Rightarrow> nat \<Rightarrow> 'e list \<Rightarrow> gostr list \<Rightarrow> iab_error + 'e list" where
  "line_loop parseLine collect lineNum entries [] = Inr entries"
| "line_loop parseLine collect lineNum entries (line # lines) =
     (if shouldSkipLine line then line_loop parseLine collect (lineNum + 1) entries lines
      else case parseLine line of
             Inl e \<Rightarrow> Inl (AtLine (lineNum + 1) e)
           | Inr entry \<Rightarrow> line_loop parseLine collect (lineNum + 1) (if collect then entries @ [entry] else entries) lines)"

definition scanLines :: "gostr \<times> bool \<Rightarrow> (gostr \<Rightarrow> line_error + 'e) \<Rightarrow> bool \<Rightarrow> iab_error + 'e list" where
  "scanLines rd parseLine collect =
     (let (lines, err) = scan rd
      in bind_res (line_loop parseLine collect 0 [] lines) (\<lambda>entries. if err then Inl ReadingInput else Inr entries))"

definition validateLines :: "gostr \<times> bool \<Rightarrow> (gostr \<Rightarrow> line_error + 'e) \<Rightarrow> iab_error + unit" where
  "validateLines rd parseLine = map_sum id (\<lambda>_. ()) (scanLines rd parseLine False)"

definition parseLines :: "gostr \<times> bool \<Rightarrow> (gostr \<Rightarrow> line_error + 'e) \<Rightarrow> iab_error + 'e list" where
  "parseLines rd parseLine = scanLines rd parseLine True"

definition ValidateBlacklist where "ValidateBlacklist rd = validateLines rd parseBlacklistLine"

definition ValidateWhitelist where "ValidateWhitelist rd = validateLines rd parseWhitelistLine"

definition ParseBlacklist where "ParseBlacklist rd = parseLines rd parseBlacklistLine"

definition ParseWhitelist where "ParseWhitelist rd = parseLines rd parseWhitelistLine"

subsection \<open>Printing\<close>

definition two :: "int \<Rightarrow> gostr" where
  "two n = [48 + nat (n div 10), 48 + nat (n mod 10)]"

definition print_mdy :: "int \<times> int \<times> int \<Rightarrow> gostr" where
  "print_mdy = (\<lambda>(y, m, d). two m @ [47] @ two d @ [47] @ two (y div 100) @ two (y mod 100))"

definition print_flag :: "bool \<Rightarrow> gostr" where
  "print_flag b = (if b then lit ''1'' else lit ''0'')"

text \<open>A line for an entry that was made inactive at a date, or at none.\<close>

definition print_entry :: "BlacklistEntry \<Rightarrow> (int \<times> int \<times> int) option \<Rightarrow> gostr" where
  "print_entry e date =
     Join ([Pattern e, print_flag (Active e), Join (Exceptions e) [44, 32], int_str (DualPassFlag e), int_str (ImpactType e),
            print_flag (StartOfString e)] @ (case date of None \<Rightarrow> [] | Some ymd \<Rightarrow> [print_mdy ymd])) [124]"

subsection \<open>Dates read back\<close>

lemma digits_val_two: "0 \<le> n \<Longrightarrow> n < 100 \<Longrightarrow> digits_val a (two n) = a * 100 + nat n"
  by (simp add: two_def nat_div_distrib nat_mod_distrib)

lemma two_digits: "0 \<le> n \<Longrightarrow> n < 100 \<Longrightarrow> r \<in> set (two n) \<Longrightarrow> is_digit r"
  by (auto simp: two_def is_digit_def)

lemma parse_mdy_Some:
  "(\<forall>r\<in>set m \<union> set d \<union> set yh \<union> set yl. is_digit r) \<Longrightarrow> length m = 2 \<Longrightarrow> length d = 2 \<Longrightarrow> length yh = 2 \<Longrightarrow> length yl = 2 \<Longrightarrow>
     parse_mdy (m @ [47] @ d @ [47] @ yh @ yl) = Some (int (digits_val 0 (yh @ yl)), int (digits_val 0 m), int (digits_val 0 d))"
  by (auto simp: length_Suc_conv eval_nat_numeral)

lemma parse_print_mdy:
  assumes "valid_date y m d"
  shows "parse_mdy (print_mdy (y, m, d)) = Some (y, m, d)"
proof -
  have d: "d < 100" using assms by (auto simp: valid_date_def daysIn_def split: if_splits)
  have b: "0 \<le> y div 100" "y div 100 < 100" "0 \<le> y mod 100" "y mod 100 < 100" "0 \<le> m" "m < 100" "0 \<le> d"
    using assms by (auto simp: valid_date_def)
  have "digits_val 0 (two (y div 100) @ two (y mod 100)) = nat (y div 100) * 100 + nat (y mod 100)"
    using b by (simp add: digits_val_append digits_val_two)
  also have "int \<dots> = y" using b by simp
  finally have "int (digits_val 0 (two (y div 100) @ two (y mod 100))) = y" by simp
  moreover have dg: "\<forall>r\<in>set (two m) \<union> set (two d) \<union> set (two (y div 100)) \<union> set (two (y mod 100)). is_digit r"
    using two_digits[of m] two_digits[of d] two_digits[of "y div 100"] two_digits[of "y mod 100"] b d by blast
  moreover have "length (two n) = 2" for n by (simp add: two_def)
  note p = parse_mdy_Some[OF dg this this this this]
  moreover have "int (digits_val 0 (two m)) = m" "int (digits_val 0 (two d)) = d"
    using b d by (simp_all add: digits_val_two)
  ultimately show ?thesis by (simp only: print_mdy_def prod.case)
qed

lemma time_Parse_print: "valid_date y m d \<Longrightarrow> time_Parse (print_mdy (y, m, d)) = Some (date_time y m d)"
  by (simp add: time_Parse_def parse_print_mdy valid_date_def)

lemma print_mdy_chars:
  assumes "valid_date y m d" "r \<in> set (print_mdy (y, m, d))"
  shows "r \<noteq> 124 \<and> r \<noteq> 10"
proof -
  have d: "d < 100" using assms by (auto simp: valid_date_def daysIn_def split: if_splits)
  have "is_digit r \<or> r = 47"
    using assms d two_digits[of m] two_digits[of d] two_digits[of "y div 100"] two_digits[of "y mod 100"]
    unfolding print_mdy_def valid_date_def by auto
  then show ?thesis by (auto simp: is_digit_def)
qed

lemma print_mdy_last: "valid_date y m d \<Longrightarrow> print_mdy (y, m, d) \<noteq> [] \<and> last (print_mdy (y, m, d)) \<noteq> 13"
  by (simp add: print_mdy_def two_def valid_date_def)

subsection \<open>Entries read back\<close>

definition entry_ok :: "BlacklistEntry \<Rightarrow> (int \<times> int \<times> int) option \<Rightarrow> bool" where
  "entry_ok e date \<longleftrightarrow> Pattern e \<noteq> [] \<and> 124 \<notin> set (Pattern e) \<and> 10 \<notin> set (Pattern e)
     \<and> take 1 (dropWhile is_space (Pattern e)) \<noteq> [35]
     \<and> Exceptions e \<noteq> [[]] \<and> (\<forall>x\<in>set (Exceptions e). 124 \<notin> set x \<and> 10 \<notin> set x \<and> 44 \<notin> set x)
     \<and> DualPassFlag e \<in> {0, 1} \<and> ImpactType e \<in> {0, 1, 2}
     \<and> (case date of None \<Rightarrow> InactiveDate e = zero_time
          | Some (y, m, d) \<Rightarrow> valid_date y m d \<and> InactiveDate e = date_time y m d)
     \<and> utf8_len (print_entry e date) < 65536"

lemma split_comma_not_Nil [simp]: "split_comma s \<noteq> []"
  by (cases s) auto

lemma split_comma_append: "44 \<notin> set w \<Longrightarrow> split_comma (w @ 44 # 32 # s) = w # split_comma s"
  by (induction w) auto

lemma split_comma_none: "44 \<notin> set w \<Longrightarrow> split_comma w = [w]"
  by (induction w) auto

lemma split_comma_Join: "ws \<noteq> [] \<Longrightarrow> \<forall>w\<in>set ws. 44 \<notin> set w \<Longrightarrow> split_comma (Join ws [44, 32]) = ws"
  by (induction ws "[44, 32 :: nat]" rule: Join.induct) (auto simp: split_comma_none split_comma_append)

lemma Join_chars: "r \<in> set (Join ws sep) \<Longrightarrow> r \<in> set sep \<or> (\<exists>w\<in>set ws. r \<in> set w)"
  by (induction ws sep rule: Join.induct) auto

lemma Join_Nil_iff: "Join ws [a, b] = [] \<longleftrightarrow> ws = [] \<or> ws = [[]]"
  by (induction ws "[a, b]" rule: Join.induct) auto

lemma small_int_str: "int_str 0 = lit ''0''" "int_str 1 = lit ''1''" "int_str 2 = lit ''2''"
  by (simp_all add: int_str_def nat_str.simps lit_def)

lemmas flag_defs = print_flag_def parseBinaryFlag_def parseDualPassFlag_def parseImpactType_def small_int_str

lemma lit_digits: "lit ''0'' = [48]" "lit ''1'' = [49]" "lit ''2'' = [50]"
  by (simp_all add: lit_def)

definition entry_fields :: "BlacklistEntry \<Rightarrow> (int \<times> int \<times> int) option \<Rightarrow> gostr list" where
  "entry_fields e date =
     [Pattern e, print_flag (Active e), Join (Exceptions e) [44, 32], int_str (DualPassFlag e), int_str (ImpactType e),
      print_flag (StartOfString e)] @ (case date of None \<Rightarrow> [] | Some ymd \<Rightarrow> [print_mdy ymd])"

lemma entry_fields_chars:
  assumes "entry_ok e date" "f \<in> set (entry_fields e date)"
  shows "124 \<notin> set f \<and> 10 \<notin> set f"
proof -
  have "124 \<notin> set (Join (Exceptions e) [44, 32])" "10 \<notin> set (Join (Exceptions e) [44, 32])"
    using assms(1) by (auto simp: entry_ok_def dest!: Join_chars)
  moreover have "124 \<notin> set (int_str i) \<and> 10 \<notin> set (int_str i)" if "i = 0 \<or> i = 1 \<or> i = 2" for i
    using that by (auto simp: small_int_str lit_digits)
  moreover have "124 \<notin> set (print_flag b) \<and> 10 \<notin> set (print_flag b)" for b
    by (simp add: print_flag_def lit_digits)
  moreover have "124 \<notin> set (print_mdy ymd) \<and> 10 \<notin> set (print_mdy ymd)" if "date = Some ymd" for ymd
    using assms(1) that by (cases ymd) (auto simp: entry_ok_def dest: print_mdy_chars)
  moreover have "124 \<notin> set (Pattern e) \<and> 10 \<notin> set (Pattern e)" "DualPassFlag e = 0 \<or> DualPassFlag e = 1 \<or> DualPassFlag e = 2"
    "ImpactType e = 0 \<or> ImpactType e = 1 \<or> ImpactType e = 2"
    using assms(1) by (simp_all add: entry_ok_def) blast
  ultimately show ?thesis
    using assms(2) unfolding entry_fields_def by (cases date) (simp_all, blast+)
qed

lemma split_print_entry: "entry_ok e date \<Longrightarrow> split_on 124 (print_entry e date) = entry_fields e date"
  unfolding print_entry_def entry_fields_def[symmetric]
  using entry_fields_chars by (intro split_on_Join) (auto simp: entry_fields_def)

lemma parse_print_entry:
  assumes "entry_ok e date"
  shows "parseBlacklistLine (print_entry e date) = Inr e"
proof -
  have x: "Join (Exceptions e) [44, 32] = [] \<longleftrightarrow> Exceptions e = []"
    "Exceptions e \<noteq> [] \<Longrightarrow> split_comma (Join (Exceptions e) [44, 32]) = Exceptions e"
    using assms by (auto simp: entry_ok_def Join_Nil_iff intro: split_comma_Join)
  have d: "parseDualPassFlag (int_str (DualPassFlag e)) = Inr (DualPassFlag e)"
    "parseImpactType (int_str (ImpactType e)) = Inr (ImpactType e)"
    using assms by (auto simp: entry_ok_def flag_defs lit_digits)
  have b: "parseBinaryFlag (print_flag v) name = Inr v" for v name by (simp add: flag_defs lit_digits)
  show ?thesis
  proof (cases date)
    case None
    then show ?thesis using assms x d b split_print_entry[OF assms]
      by (cases "Exceptions e") (simp_all add: parseBlacklistLine_def entry_fields_def Let_def entry_ok_def)
  next
    case (Some ymd)
    then obtain y m d' where v: "ymd = (y, m, d')" "valid_date y m d'" "InactiveDate e = date_time y m d'"
      using assms by (cases ymd) (auto simp: entry_ok_def)
    have "parseInactiveDate (print_mdy ymd) = Inr (InactiveDate e)"
      using v time_Parse_print[OF v(2)] print_mdy_last[OF v(2)] by (simp add: parseInactiveDate_def)
    then show ?thesis using assms x d b split_print_entry[OF assms] Some
      by (cases "Exceptions e") (simp_all add: parseBlacklistLine_def entry_fields_def Let_def entry_ok_def)
  qed
qed

subsection \<open>Files read back\<close>

lemma print_entry_Join: "print_entry e date = Join (entry_fields e date) [124]"
  by (simp add: print_entry_def entry_fields_def)

lemma last_Join: "ws \<noteq> [] \<Longrightarrow> last ws \<noteq> [] \<Longrightarrow> Join ws sep \<noteq> [] \<and> last (Join ws sep) = last (last ws)"
  by (induction ws sep rule: Join.induct) (auto simp: last_append)

lemma print_entry_line:
  assumes "entry_ok e date"
  shows "10 \<notin> set (print_entry e date)" "print_entry e date \<noteq> []" "last (print_entry e date) \<noteq> 13"
proof -
  show "10 \<notin> set (print_entry e date)"
    using entry_fields_chars[OF assms] by (auto simp: print_entry_Join dest!: Join_chars)
  have f: "entry_fields e date \<noteq> []" by (simp add: entry_fields_def)
  have "last (entry_fields e date) \<noteq> [] \<and> last (last (entry_fields e date)) \<noteq> 13"
  proof (cases date)
    case None
    then show ?thesis by (simp add: entry_fields_def print_flag_def lit_digits)
  next
    case (Some ymd)
    then show ?thesis using assms by (cases ymd) (auto simp: entry_fields_def entry_ok_def dest: print_mdy_last)
  qed
  then show "print_entry e date \<noteq> []" "last (print_entry e date) \<noteq> 13"
    using last_Join[OF f, of "[124]"] by (auto simp: print_entry_Join)
qed

lemma TrimSpace_hd: "dropWhile is_space s \<noteq> [] \<Longrightarrow> TrimSpace s \<noteq> [] \<and> hd (TrimSpace s) = hd (dropWhile is_space s)"
proof -
  assume ne: "dropWhile is_space s \<noteq> []"
  define t where "t = dropWhile is_space s"
  have h: "\<not> is_space (hd t)" "t \<noteq> []" using hd_dropWhile[OF ne] ne by (auto simp: t_def)
  then obtain x r where t: "t = x # r" "\<not> is_space x" by (cases t) auto
  have "rev (dropWhile is_space (rev t)) = x # rev (dropWhile is_space (rev r))"
    using t by (simp add: dropWhile_append)
  then show ?thesis using t by (simp add: TrimSpace_def t_def[symmetric])
qed

lemma not_skipped:
  assumes "entry_ok e date"
  shows "\<not> shouldSkipLine (print_entry e date)"
proof -
  obtain r where r: "print_entry e date = Pattern e @ 124 # r"
    by (simp add: print_entry_Join entry_fields_def)
  have "\<not> is_space 124" by (simp add: is_space_def)
  then have d: "dropWhile is_space (print_entry e date) = dropWhile is_space (Pattern e) @ 124 # r"
    unfolding r by (cases "\<forall>x\<in>set (Pattern e). is_space x") (auto simp: dropWhile_append dropWhile_eq_Nil_conv[THEN iffD2])
  then have "dropWhile is_space (print_entry e date) \<noteq> []" by simp
  note t = TrimSpace_hd[OF this]
  have "hd (dropWhile is_space (print_entry e date)) \<noteq> 35"
  proof (cases "dropWhile is_space (Pattern e)")
    case Nil
    show ?thesis unfolding d Nil by simp
  next
    case (Cons x r)
    then have "x \<noteq> 35" using assms by (simp add: entry_ok_def)
    then show ?thesis unfolding d Cons by simp
  qed
  then show ?thesis using t by (simp add: shouldSkipLine_def)
qed

lemma split_lines: "\<forall>l\<in>set ls. 10 \<notin> set l \<Longrightarrow> split_on 10 (concat (map (\<lambda>l. l @ [10]) ls)) = ls @ [[]]"
  by (induction ls) (auto simp: split_on_append)

lemma fit_lines_id:
  "\<forall>l\<in>set ls. utf8_len l < 65536 \<and> l \<noteq> [] \<and> last l \<noteq> 13 \<Longrightarrow> fit_lines ls = (ls, False)"
  by (induction ls) (auto simp: dropCR_def)

lemma scan_lines:
  assumes "\<forall>l\<in>set ls. 10 \<notin> set l \<and> utf8_len l < 65536 \<and> l \<noteq> [] \<and> last l \<noteq> 13"
  shows "scan (concat (map (\<lambda>l. l @ [10]) ls), err) = (ls, err)"
  using assms split_lines[of ls] fit_lines_id[of ls] by (simp add: scan_def Let_def)

lemma line_loop_print:
  "\<forall>(e, date)\<in>set es. entry_ok e date \<Longrightarrow>
     line_loop parseBlacklistLine True n acc (map (\<lambda>(e, date). print_entry e date) es) = Inr (acc @ map fst es)"
  by (induction es arbitrary: n acc) (auto simp: not_skipped parse_print_entry)

text \<open>C17. A blacklist file written from valid entries, one per line and each with the date it was made
  inactive or none, is parsed back to exactly those entries.\<close>

theorem ParseBlacklist_roundtrip:
  assumes "\<forall>(e, date)\<in>set es. entry_ok e date"
  shows "ParseBlacklist (concat (map (\<lambda>(e, date). print_entry e date @ [10]) es), False) = Inr (map fst es)"
proof -
  let ?ls = "map (\<lambda>(e, date). print_entry e date) es"
  have "\<forall>l\<in>set ?ls. 10 \<notin> set l \<and> utf8_len l < 65536 \<and> l \<noteq> [] \<and> last l \<noteq> 13"
    using assms print_entry_line by (auto simp: entry_ok_def)
  from scan_lines[OF this, of False] have "scan (concat (map (\<lambda>(e, date). print_entry e date @ [10]) es), False) = (?ls, False)"
    by (simp add: comp_def case_prod_unfold)
  then show ?thesis
    using line_loop_print[OF assms, of 0 "[]"] by (simp add: ParseBlacklist_def parseLines_def scanLines_def)
qed

definition bot_entry :: BlacklistEntry where
  "bot_entry = \<lparr>Pattern = lit ''bot'', Active = False, Exceptions = [lit ''a'', lit ''b''], DualPassFlag = 1, ImpactType = 2,
     StartOfString = True, InactiveDate = date_time 2024 2 29\<rparr>"

theorem ParseBlacklist_roundtrip_witness:
  "ParseBlacklist (lit ''bot|0|a, b|1|2|1|02/29/2024'' @ [10], False) = Inr [bot_entry]"
proof -
  have p: "print_entry bot_entry (Some (2024, 2, 29)) = lit ''bot|0|a, b|1|2|1|02/29/2024''"
    by (simp add: print_entry_def bot_entry_def print_flag_def small_int_str print_mdy_def two_def lit_def)
  have "entry_ok bot_entry (Some (2024, 2, 29))"
    unfolding entry_ok_def p
    by (simp add: bot_entry_def lit_def is_space_def valid_date_def daysIn_def is_leap_def utf8_len_def)
  then show ?thesis using ParseBlacklist_roundtrip[of "[(bot_entry, Some (2024, 2, 29))]"] p by simp
qed

subsection \<open>Validation and parsing\<close>

lemma line_loop_collect:
  "map_sum id (\<lambda>_. ()) (line_loop parse False n [] ls) = map_sum id (\<lambda>_. ()) (line_loop parse True n acc ls)"
  by (induction ls arbitrary: n acc) (auto split: sum.split)

lemma line_loop_kind:
  "(\<exists>e. line_loop parse False n [] ls = Inl e \<and> line_loop parse True n acc ls = Inl e)
   \<or> (\<exists>a b. line_loop parse False n [] ls = Inr a \<and> line_loop parse True n acc ls = Inr b)"
  using line_loop_collect[of parse n ls acc]
  by (cases "line_loop parse False n [] ls"; cases "line_loop parse True n acc ls") auto

lemma validate_parse: "validateLines rd parse = map_sum id (\<lambda>_. ()) (parseLines rd parse)"
  using line_loop_kind[of parse 0 "fst (scan rd)" "[]"]
  by (auto simp: validateLines_def parseLines_def scanLines_def split: prod.split)

text \<open>Validating a file without building the entries agrees with parsing it: both accept the same
  files and report the same error at the same line.\<close>

lemma Validate_agrees:
  "ValidateBlacklist rd = map_sum id (\<lambda>_. ()) (ParseBlacklist rd)
   \<and> ValidateWhitelist rd = map_sum id (\<lambda>_. ()) (ParseWhitelist rd)"
  by (simp add: ValidateBlacklist_def ParseBlacklist_def ValidateWhitelist_def ParseWhitelist_def validate_parse)

text \<open>A pattern that starts with a hash is taken for a comment: its entry is dropped without an error.\<close>

lemma hash_pattern_dropped: "ParseBlacklist (lit ''#bot|1||0|0|0'' @ [10], False) = Inr []"
  by (simp add: ParseBlacklist_def parseLines_def scanLines_def scan_def lit_def utf8_len_def dropCR_def shouldSkipLine_def
      TrimSpace_def is_space_def)

end
