(* ===== verification/Plocker.thy ===== *)
theory Plocker
  imports Kit_Prelude "HOL-Library.Multiset"
begin

text \<open>
  The partition locks of the \<open>sync\<close> package: \<open>PartitionLocker\<close> (\<open>plocker.go\<close>) and
  \<open>PartitionRWLocker\<close> with its \<open>RWMutex\<close> handles (\<open>prwlocker.go\<close>). A locker keeps one counted lock
  per partition in use. A call is what it does under the locker's own mutex (one step) and then,
  for a lock, waiting for the lock of the partition (another step). \<open>PartitionLocker\<close> is the same
  code with a mutex in place of the read-write mutex: its calls are the writer's.
\<close>

subsection \<open>The locker\<close>

text \<open>A \<open>sync.RWMutex\<close> is its writer bit and its number of readers. That waiting writers also hold
  back new readers only removes some of the runs considered here.\<close>

record rwLockInfo =
  writer :: bool
  readers :: nat
  refs :: int

record locker =
  infos_of :: "gostr \<rightharpoonup> nat"
  infos :: "nat \<Rightarrow> rwLockInfo"
  next_info :: nat

definition NewPartitionRWLocker :: locker where
  "NewPartitionRWLocker = \<lparr>infos_of = Map.empty, infos = (\<lambda>_. \<lparr>writer = False, readers = 0, refs = 0\<rparr>), next_info = 0\<rparr>"

definition lockInfo :: "gostr \<Rightarrow> locker \<Rightarrow> nat \<times> locker" where
  "lockInfo k p =
     (case infos_of p k of
        Some a \<Rightarrow> (a, p)
      | None \<Rightarrow> (next_info p, p\<lparr>infos_of := (infos_of p)(k \<mapsto> next_info p),
                   infos := (infos p)(next_info p := \<lparr>writer = False, readers = 0, refs = 0\<rparr>), next_info := next_info p + 1\<rparr>))"

text \<open>The critical section that \<open>Lock\<close> and \<open>RLock\<close> begin with: the lock to wait for.\<close>

definition enter :: "gostr \<Rightarrow> locker \<Rightarrow> nat \<times> locker" where
  "enter k p = (case lockInfo k p of (a, p1) \<Rightarrow> (a, p1\<lparr>infos := (infos p1)(a := (infos p1 a)\<lparr>refs := refs (infos p1 a) + 1\<rparr>)\<rparr>))"

text \<open>\<open>li.mu.Lock()\<close> and \<open>li.mu.RLock()\<close>; \<open>None\<close> while they block.\<close>

definition mu_Lock :: "nat \<Rightarrow> locker \<Rightarrow> locker option" where
  "mu_Lock a p = (if writer (infos p a) \<or> readers (infos p a) > 0 then None
     else Some (p\<lparr>infos := (infos p)(a := (infos p a)\<lparr>writer := True\<rparr>)\<rparr>))"

definition mu_RLock :: "nat \<Rightarrow> locker \<Rightarrow> locker option" where
  "mu_RLock a p = (if writer (infos p a) then None
     else Some (p\<lparr>infos := (infos p)(a := (infos p a)\<lparr>readers := readers (infos p a) + 1\<rparr>)\<rparr>))"

definition drop_ref :: "gostr \<Rightarrow> nat \<Rightarrow> locker \<Rightarrow> locker" where
  "drop_ref k a p =
     (let p1 = p\<lparr>infos := (infos p)(a := (infos p a)\<lparr>refs := refs (infos p a) - 1\<rparr>)\<rparr>
      in if refs (infos p1 a) = 0 then p1\<lparr>infos_of := (infos_of p1)(k := None)\<rparr> else p1)"

text \<open>\<open>Unlock\<close> and \<open>RUnlock\<close>; \<open>None\<close> is the fatal error of unlocking a lock that is not held.\<close>

definition Unlock :: "gostr \<Rightarrow> locker \<Rightarrow> locker option" where
  "Unlock k p =
     (case lockInfo k p of (a, p1) \<Rightarrow>
        if writer (infos p1 a)
        then Some (drop_ref k a (p1\<lparr>infos := (infos p1)(a := (infos p1 a)\<lparr>writer := False\<rparr>)\<rparr>))
        else None)"

definition RUnlock :: "gostr \<Rightarrow> locker \<Rightarrow> locker option" where
  "RUnlock k p =
     (case lockInfo k p of (a, p1) \<Rightarrow>
        if readers (infos p1 a) > 0
        then Some (drop_ref k a (p1\<lparr>infos := (infos p1)(a := (infos p1 a)\<lparr>readers := readers (infos p1 a) - 1\<rparr>)\<rparr>))
        else None)"

text \<open>\<open>PartitionLocker\<close>: the same with a mutex, which is a read-write mutex without readers.\<close>

definition NewPartitionLocker :: locker where
  "NewPartitionLocker = NewPartitionRWLocker"

definition PLock :: "gostr \<Rightarrow> locker \<Rightarrow> nat \<times> locker" where
  "PLock k p = enter k p"

definition PUnlock :: "gostr \<Rightarrow> locker \<Rightarrow> locker option" where
  "PUnlock k p = Unlock k p"

subsection \<open>Goroutines\<close>

text \<open>
  A goroutine in a lock call, or that has returned from one and not unlocked yet, is what it locks:
  for writing or reading, the partition, and the lock it found there. A goroutine unlocks what it holds.
\<close>

type_synonym user = "bool \<times> gostr \<times> nat"

record system =
  locks :: locker
  waiting :: "user multiset"
  holding :: "user multiset"

definition begin_sys :: system where
  "begin_sys = \<lparr>locks = NewPartitionRWLocker, waiting = {#}, holding = {#}\<rparr>"

definition acquire :: "bool \<Rightarrow> nat \<Rightarrow> locker \<Rightarrow> locker option" where
  "acquire w a p = (if w then mu_Lock a p else mu_RLock a p)"

definition release :: "bool \<Rightarrow> gostr \<Rightarrow> locker \<Rightarrow> locker option" where
  "release w k p = (if w then Unlock k p else RUnlock k p)"

inductive lock_step :: "system \<Rightarrow> system \<Rightarrow> bool" where
  call: "enter k (locks s) = (a, p) \<Longrightarrow>
     lock_step s (s\<lparr>locks := p, waiting := waiting s + {#(w, k, a)#}\<rparr>)"
| got: "(w, k, a) \<in># waiting s \<Longrightarrow> acquire w a (locks s) = Some p \<Longrightarrow>
     lock_step s (s\<lparr>locks := p, waiting := waiting s - {#(w, k, a)#}, holding := holding s + {#(w, k, a)#}\<rparr>)"
| unlock: "(w, k, a) \<in># holding s \<Longrightarrow> release w k (locks s) = Some p \<Longrightarrow>
     lock_step s (s\<lparr>locks := p, holding := holding s - {#(w, k, a)#}\<rparr>)"

inductive lock_reach :: "system \<Rightarrow> bool" where
  reach_begin: "lock_reach begin_sys"
| reach_step: "lock_reach s \<Longrightarrow> lock_step s s' \<Longrightarrow> lock_reach s'"

subsection \<open>The invariant\<close>

definition users :: "nat \<Rightarrow> user multiset \<Rightarrow> nat" where
  "users a M = size (filter_mset (\<lambda>x. snd (snd x) = a) M)"

lemma users_simps [simp]:
  "users a {#} = 0" "users a (add_mset x M) = (if snd (snd x) = a then 1 else 0) + users a M"
  by (simp_all add: users_def)

lemma users_plus [simp]: "users a (M + N) = users a M + users a N"
  by (simp add: users_def)

lemma users_minus: "x \<in># M \<Longrightarrow> users a M = (if snd (snd x) = a then 1 else 0) + users a (M - {#x#})"
  by (drule multi_member_split) auto

lemma users_none: "(\<And>x. snd (snd x) = a \<Longrightarrow> x \<notin># M) \<Longrightarrow> users a M = 0"
  by (induction M) auto

lemma users_pos: "x \<in># M \<Longrightarrow> snd (snd x) = a \<Longrightarrow> 0 < users a M"
  by (drule multi_member_split) auto

definition used :: "nat \<Rightarrow> system \<Rightarrow> nat" where
  "used a s = users a (waiting s) + users a (holding s)"

text \<open>The table has the lock of every partition in use, and no others; its count is that of the users.\<close>

inductive table_ok :: "system \<Rightarrow> bool" where
  table_okI: "(\<And>k a. infos_of (locks s) k = Some a \<Longrightarrow> a < next_info (locks s)) \<Longrightarrow>
     (\<And>k a. infos_of (locks s) k = Some a \<Longrightarrow> refs (infos (locks s) a) = int (used a s)) \<Longrightarrow>
     (\<And>k a. infos_of (locks s) k = Some a \<Longrightarrow> 0 < used a s) \<Longrightarrow>
     (\<And>k k' a. infos_of (locks s) k = Some a \<Longrightarrow> infos_of (locks s) k' = Some a \<Longrightarrow> k = k') \<Longrightarrow>
     (\<And>w k a. (w, k, a) \<in># waiting s + holding s \<Longrightarrow> infos_of (locks s) k = Some a) \<Longrightarrow> table_ok s"

text \<open>The read-write mutex of a partition counts the holders.\<close>

inductive mutex_ok :: "system \<Rightarrow> bool" where
  mutex_okI: "(\<And>k a. infos_of (locks s) k = Some a \<Longrightarrow> count (holding s) (True, k, a) = (if writer (infos (locks s) a) then 1 else 0)) \<Longrightarrow>
     (\<And>k a. infos_of (locks s) k = Some a \<Longrightarrow> count (holding s) (False, k, a) = readers (infos (locks s) a)) \<Longrightarrow>
     (\<And>k a. infos_of (locks s) k = Some a \<Longrightarrow> writer (infos (locks s) a) \<Longrightarrow> readers (infos (locks s) a) = 0) \<Longrightarrow> mutex_ok s"

lemma table_okD:
  assumes "table_ok s"
  shows "infos_of (locks s) k = Some a \<Longrightarrow> a < next_info (locks s)"
    and "infos_of (locks s) k = Some a \<Longrightarrow> refs (infos (locks s) a) = int (used a s)"
    and "infos_of (locks s) k = Some a \<Longrightarrow> 0 < used a s"
    and "infos_of (locks s) k = Some a \<Longrightarrow> infos_of (locks s) k' = Some a \<Longrightarrow> k = k'"
    and "(w, k, a) \<in># waiting s \<Longrightarrow> infos_of (locks s) k = Some a"
    and "(w, k, a) \<in># holding s \<Longrightarrow> infos_of (locks s) k = Some a"
  using assms by (auto elim!: table_ok.cases)

lemma fresh_unused:
  assumes "table_ok s"
  shows "users (next_info (locks s)) (waiting s) = 0" "users (next_info (locks s)) (holding s) = 0"
proof -
  have "x \<notin># waiting s \<and> x \<notin># holding s" if "snd (snd x) = next_info (locks s)" for x
    using that table_okD(5,6)[OF assms] table_okD(1)[OF assms] by (cases x) fastforce
  then show "users (next_info (locks s)) (waiting s) = 0" "users (next_info (locks s)) (holding s) = 0"
    by (intro users_none; blast)+
qed

lemma table_ok_call:
  assumes t: "table_ok s" and e: "enter k (locks s) = (a, p)"
  shows "table_ok (s\<lparr>locks := p, waiting := waiting s + {#(w, k, a)#}\<rparr>)"
proof (cases "infos_of (locks s) k")
  case None
  then have p: "a = next_info (locks s)" "infos_of p = (infos_of (locks s))(k \<mapsto> a)" "next_info p = a + 1"
    "infos p = (infos (locks s))(a := \<lparr>writer = False, readers = 0, refs = 1\<rparr>)"
    using e by (auto simp: enter_def lockInfo_def)
  show ?thesis
  proof (rule table_okI, goal_cases)
    case (1 k' a')
    then show ?case using table_okD(1)[OF t, of k' a'] by (auto simp: p split: if_splits)
  next
    case (2 k' a')
    then show ?case using table_okD(1,2)[OF t, of k' a'] fresh_unused[OF t] by (auto simp: p used_def split: if_splits)
  next
    case (3 k' a')
    then show ?case using table_okD(3)[OF t, of k' a'] by (auto simp: p used_def split: if_splits)
  next
    case (4 k' k'' a')
    then show ?case using table_okD(1)[OF t, of k'] table_okD(1)[OF t, of k''] table_okD(4)[OF t, of k' a' k'']
      by (auto simp: p split: if_splits)
  next
    case (5 w' k' a')
    then show ?case using table_okD(5,6)[OF t, of w' k' a'] None by (auto simp: p)
  qed
next
  case (Some b)
  then have p: "a = b" "infos_of p = infos_of (locks s)" "next_info p = next_info (locks s)"
    "infos p = (infos (locks s))(a := (infos (locks s) a)\<lparr>refs := refs (infos (locks s) a) + 1\<rparr>)"
    using e by (auto simp: enter_def lockInfo_def)
  show ?thesis
    using table_okD[OF t] Some
    by (intro table_okI) (auto simp: p used_def split: if_splits)
qed

lemma acquire_frame:
  assumes "acquire w a p = Some p'"
  shows "infos_of p' = infos_of p" "next_info p' = next_info p" "refs (infos p' b) = refs (infos p b)"
    "b \<noteq> a \<Longrightarrow> infos p' b = infos p b"
  using assms by (auto simp: acquire_def mu_Lock_def mu_RLock_def split: if_splits)

lemma used_got: "(w, k, a) \<in># waiting s \<Longrightarrow>
   used b (s\<lparr>locks := p, waiting := waiting s - {#(w, k, a)#}, holding := holding s + {#(w, k, a)#}\<rparr>) = used b s"
  using users_minus[of "(w, k, a)" "waiting s" b] by (simp add: used_def)

lemma table_ok_got:
  assumes t: "table_ok s" and "(w, k, a) \<in># waiting s" "acquire w a (locks s) = Some p"
  shows "table_ok (s\<lparr>locks := p, waiting := waiting s - {#(w, k, a)#}, holding := holding s + {#(w, k, a)#}\<rparr>)"
  using table_okD[OF t] acquire_frame[OF assms(3)] used_got[OF assms(2)] assms(2)
  by (intro table_okI) (auto dest: in_diffD)

text \<open>A release by a holder: the lock is the one in the table, and it goes when its last user does.\<close>

lemma release_holder:
  assumes "infos_of p k = Some a"
  shows "release w k p =
    (if if w then writer (infos p a) else readers (infos p a) > 0
     then Some (p\<lparr>infos_of := (if refs (infos p a) = 1 then (infos_of p)(k := None) else infos_of p),
                  infos := (infos p)(a := \<lparr>writer = writer (infos p a) \<and> \<not> w,
                    readers = readers (infos p a) - (if w then 0 else 1), refs = refs (infos p a) - 1\<rparr>)\<rparr>)
     else None)"
  using assms by (cases p; cases "infos p a") (auto simp: release_def Unlock_def RUnlock_def lockInfo_def drop_ref_def Let_def)

lemma used_unlock: "(w, k, a) \<in># holding s \<Longrightarrow>
   used b (s\<lparr>locks := p, holding := holding s - {#(w, k, a)#}\<rparr>) = used b s - (if b = a then 1 else 0)"
  using users_minus[of "(w, k, a)" "holding s" b] by (auto simp: used_def)

lemma unused_gone: "used a s = 0 \<Longrightarrow> (w, k, a) \<notin># waiting s + holding s"
  using users_pos[of "(w, k, a)" "waiting s" a] users_pos[of "(w, k, a)" "holding s" a] by (auto simp: used_def)

lemma table_ok_unlock:
  assumes t: "table_ok s" and h: "(w, k, a) \<in># holding s" and r: "release w k (locks s) = Some p"
  shows "table_ok (s\<lparr>locks := p, holding := holding s - {#(w, k, a)#}\<rparr>)" (is "table_ok ?s")
proof -
  note e = table_okD(6)[OF t h]
  note rel = release_holder[OF e, of w]
  have p: "infos_of p = (if refs (infos (locks s) a) = 1 then (infos_of (locks s))(k := None) else infos_of (locks s))"
    "next_info p = next_info (locks s)" "refs (infos p b) = refs (infos (locks s) b) - (if b = a then 1 else 0)" for b
    using r rel by (auto split: if_splits)
  have u: "used b ?s = used b s - (if b = a then 1 else 0)" for b by (rule used_unlock[OF h])
  have sub: "infos_of p k' = Some a' \<Longrightarrow> infos_of (locks s) k' = Some a'" for k' a'
    by (auto simp: p split: if_splits)
  have other: "infos_of p k' = Some a \<Longrightarrow> refs (infos (locks s) a) \<noteq> 1" for k'
    using table_okD(4)[OF t e, of k'] by (auto simp: p split: if_splits)
  show ?thesis
  proof (rule table_okI, goal_cases)
    case (1 k' a')
    then show ?case using table_okD(1)[OF t sub[of k' a']] by (simp add: p(2))
  next
    case (2 k' a')
    then have i: "infos_of (locks s) k' = Some a'" using sub[of k' a'] by simp
    show ?case using table_okD(2,3)[OF t i] by (auto simp: p(3) u)
  next
    case (3 k' a')
    then have i: "infos_of p k' = Some a'" by simp
    show ?case using table_okD(2,3)[OF t sub[OF i]] other[of k'] i by (auto simp: u)
  next
    case (4 k' k'' a')
    then show ?case using table_okD(4)[OF t sub[of k' a'] sub[of k'' a']] by simp
  next
    case (5 w' k' a')
    then have "(w', k', a') \<in># waiting s + holding s" by (auto dest: in_diffD)
    then have i: "infos_of (locks s) k' = Some a'" using table_okD(5,6)[OF t] by auto
    have "used a' ?s \<noteq> 0" using 5 unused_gone[of a' ?s] by auto
    then have "\<not> (k' = k \<and> refs (infos (locks s) a) = 1)"
      using i e table_okD(2)[OF t e] by (auto simp: u split: if_splits)
    then show ?case using i by (auto simp: p)
  qed
qed

lemma mutex_okD:
  assumes "mutex_ok s" "infos_of (locks s) k = Some a"
  shows "count (holding s) (True, k, a) = (if writer (infos (locks s) a) then 1 else 0)"
    and "count (holding s) (False, k, a) = readers (infos (locks s) a)"
    and "writer (infos (locks s) a) \<Longrightarrow> readers (infos (locks s) a) = 0"
  using assms by (auto elim!: mutex_ok.cases)

lemma mutex_ok_call:
  assumes t: "table_ok s" and m: "mutex_ok s" and e: "enter k (locks s) = (a, p)"
  shows "mutex_ok (s\<lparr>locks := p, waiting := waiting s + {#(w, k, a)#}\<rparr>)"
proof (cases "infos_of (locks s) k")
  case None
  then have p: "a = next_info (locks s)" "infos_of p = (infos_of (locks s))(k \<mapsto> a)"
    "infos p = (infos (locks s))(a := \<lparr>writer = False, readers = 0, refs = 1\<rparr>)"
    using e by (auto simp: enter_def lockInfo_def)
  have z: "count (holding s) (w', k', a) = 0" for w' k'
    using table_okD(6)[OF t, of w' k' a] table_okD(1)[OF t, of k' a] p(1) by (auto simp: count_eq_zero_iff)
  have old: "infos_of p k' = Some a' \<Longrightarrow> a' \<noteq> a \<Longrightarrow> infos_of (locks s) k' = Some a'" for k' a'
    by (auto simp: p(2) split: if_splits)
  show ?thesis
  proof (rule mutex_okI, goal_cases)
    case (1 k' a')
    then show ?case using mutex_okD(1)[OF m old[of k' a']] z by (cases "a' = a") (auto simp: p(3))
  next
    case (2 k' a')
    then show ?case using mutex_okD(2)[OF m old[of k' a']] z by (cases "a' = a") (auto simp: p(3))
  next
    case (3 k' a')
    then show ?case using mutex_okD(3)[OF m old[of k' a']] by (cases "a' = a") (auto simp: p(3))
  qed
next
  case (Some b)
  then have p: "infos_of p = infos_of (locks s)" "writer (infos p b) = writer (infos (locks s) b)"
    "readers (infos p b) = readers (infos (locks s) b)" for b
    using e by (auto simp: enter_def lockInfo_def split: if_splits)
  show ?thesis using mutex_okD[OF m] by (intro mutex_okI) (auto simp: p)
qed

text \<open>A step of a user of \<open>a\<close> that changes the lock \<open>a\<close> and the holders alike.\<close>

lemma mutex_ok_change:
  assumes t: "table_ok s" and m: "mutex_ok s" and e: "infos_of (locks s) k = Some a"
    and sub: "\<And>k' a'. infos_of (locks s') k' = Some a' \<Longrightarrow> infos_of (locks s) k' = Some a'"
    and same: "\<And>b. b \<noteq> a \<Longrightarrow> infos (locks s') b = infos (locks s) b"
      "\<And>x. snd (snd x) \<noteq> a \<Longrightarrow> count (holding s') x = count (holding s) x"
    and new: "count (holding s') (True, k, a) = (if writer (infos (locks s') a) then 1 else 0)"
      "count (holding s') (False, k, a) = readers (infos (locks s') a)"
      "writer (infos (locks s') a) \<Longrightarrow> readers (infos (locks s') a) = 0"
  shows "mutex_ok s'"
proof -
  have k: "k' = k" if "infos_of (locks s') k' = Some a" for k' using table_okD(4)[OF t e sub[OF that]] by simp
  show ?thesis
  proof (rule mutex_okI, goal_cases)
    case (1 k' a')
    then show ?case using new(1) k[of k'] same mutex_okD(1)[OF m sub[of k' a']] by (cases "a' = a") auto
  next
    case (2 k' a')
    then show ?case using new(2) k[of k'] same mutex_okD(2)[OF m sub[of k' a']] by (cases "a' = a") auto
  next
    case (3 k' a')
    then show ?case using new(3) k[of k'] same mutex_okD(3)[OF m sub[of k' a']] by (cases "a' = a") auto
  qed
qed

lemma mutex_ok_got:
  assumes t: "table_ok s" and m: "mutex_ok s" and w: "(w, k, a) \<in># waiting s" and g: "acquire w a (locks s) = Some p"
  shows "mutex_ok (s\<lparr>locks := p, waiting := waiting s - {#(w, k, a)#}, holding := holding s + {#(w, k, a)#}\<rparr>)"
proof -
  note e = table_okD(5)[OF t w]
  have g': "writer (infos p a) = (w \<or> writer (infos (locks s) a))" "\<not> writer (infos (locks s) a)"
    "readers (infos p a) = readers (infos (locks s) a) + (if w then 0 else 1)" "w \<Longrightarrow> readers (infos (locks s) a) = 0"
    using g by (auto simp: acquire_def mu_Lock_def mu_RLock_def split: if_splits)
  show ?thesis
    by (rule mutex_ok_change[OF t m e]) (use mutex_okD[OF m e] acquire_frame[OF g] g' in auto)
qed

lemma mutex_ok_unlock:
  assumes t: "table_ok s" and m: "mutex_ok s" and h: "(w, k, a) \<in># holding s" and r: "release w k (locks s) = Some p"
  shows "mutex_ok (s\<lparr>locks := p, holding := holding s - {#(w, k, a)#}\<rparr>)"
proof -
  note e = table_okD(6)[OF t h]
  note rel = release_holder[OF e, of w]
  have p: "infos_of p k' = Some a' \<Longrightarrow> infos_of (locks s) k' = Some a'" "b \<noteq> a \<Longrightarrow> infos p b = infos (locks s) b"
    "writer (infos p a) = (writer (infos (locks s) a) \<and> \<not> w)"
    "readers (infos p a) = readers (infos (locks s) a) - (if w then 0 else 1)" for b k' a'
    using r rel by (auto split: if_splits)
  show ?thesis
    by (rule mutex_ok_change[OF t m e]) (use mutex_okD[OF m e] p in auto)
qed

lemma lock_reach_inv: "lock_reach s \<Longrightarrow> table_ok s \<and> mutex_ok s"
proof (induction rule: lock_reach.induct)
  case reach_begin
  show ?case by (auto intro!: table_okI mutex_okI simp: begin_sys_def NewPartitionRWLocker_def)
next
  case (reach_step s s')
  from reach_step(2,3) show ?case
    by (cases rule: lock_step.cases)
      (auto intro: table_ok_call table_ok_got table_ok_unlock mutex_ok_call mutex_ok_got mutex_ok_unlock
        simp del: add_mset_add_single union_mset_add_mset_right)
qed

subsection \<open>Properties\<close>

definition holders :: "bool \<Rightarrow> gostr \<Rightarrow> system \<Rightarrow> nat" where
  "holders w k s = size (filter_mset (\<lambda>(w', k', a). w' = w \<and> k' = k) (holding s))"

lemma holders_count:
  assumes "table_ok s"
  shows "holders w k s = (case infos_of (locks s) k of None \<Rightarrow> 0 | Some a \<Rightarrow> count (holding s) (w, k, a))"
proof -
  have eq: "filter_mset (\<lambda>(w', k', a). w' = w \<and> k' = k) (holding s) =
    filter_mset (\<lambda>x. Some (snd (snd x)) = infos_of (locks s) k \<and> fst x = w \<and> fst (snd x) = k) (holding s)"
    using table_okD(6)[OF assms] by (intro filter_mset_cong refl) auto
  have "filter_mset (\<lambda>x. Some (snd (snd x)) = infos_of (locks s) k \<and> fst x = w \<and> fst (snd x) = k) (holding s) =
    (case infos_of (locks s) k of None \<Rightarrow> {#} | Some a \<Rightarrow> filter_mset (\<lambda>x. x = (w, k, a)) (holding s))"
    by (auto split: option.split intro!: filter_mset_cong)
  then show ?thesis unfolding holders_def eq by (simp add: filter_eq_replicate_mset split: option.split)
qed

text \<open>C18. However lock, read-lock and unlock calls interleave, a partition has at most one writer, and
  no reader while it has one; and the locker keeps a lock exactly for the partitions in use.\<close>

theorem partition_lock_exclusive:
  assumes "lock_reach s"
  shows "holders True k s \<le> 1 \<and> holders True k s * holders False k s = 0
    \<and> dom (infos_of (locks s)) = {k. \<exists>w a. (w, k, a) \<in># waiting s + holding s}"
proof -
  have t: "table_ok s" and m: "mutex_ok s" using lock_reach_inv[OF assms] by auto
  have "k' \<in> dom (infos_of (locks s)) \<longleftrightarrow> (\<exists>w a. (w, k', a) \<in># waiting s + holding s)" for k'
  proof
    assume "k' \<in> dom (infos_of (locks s))"
    then obtain a where a: "infos_of (locks s) k' = Some a" by blast
    have "\<exists>x. x \<in># waiting s + holding s \<and> snd (snd x) = a"
    proof (rule ccontr)
      assume "\<not> (\<exists>x. x \<in># waiting s + holding s \<and> snd (snd x) = a)"
      then have "users a (waiting s + holding s) = 0" by (intro users_none) blast
      then show False using table_okD(3)[OF t a] by (simp add: used_def)
    qed
    then obtain w k2 where x: "(w, k2, a) \<in># waiting s + holding s" by auto
    then have "infos_of (locks s) k2 = Some a" using table_okD(5,6)[OF t, of w k2 a] by auto
    then have "k2 = k'" using table_okD(4)[OF t a] by simp
    then show "\<exists>w a. (w, k', a) \<in># waiting s + holding s" using x by blast
  qed (use table_okD(5,6)[OF t] in auto)
  then have "dom (infos_of (locks s)) = {k. \<exists>w a. (w, k, a) \<in># waiting s + holding s}" by blast
  moreover have "holders True k s \<le> 1 \<and> holders True k s * holders False k s = 0"
    using mutex_okD[OF m, of k] by (auto simp: holders_count[OF t] split: option.split)
  ultimately show ?thesis by blast
qed

text \<open>A goroutine that locks one partition for writing while another waits to read it.\<close>

definition demo_sys :: system where
  "demo_sys = \<lparr>locks = \<lparr>infos_of = [lit ''p'' \<mapsto> 0], infos = (\<lambda>_. \<lparr>writer = False, readers = 0, refs = 0\<rparr>)(0 := \<lparr>writer = True, readers = 0, refs = 2\<rparr>), next_info = 1\<rparr>,
     waiting = {#(False, lit ''p'', 0)#}, holding = {#(True, lit ''p'', 0)#}\<rparr>"

lemma demo_sys_reach: "lock_reach demo_sys"
proof -
  let ?k = "lit ''p''"
  let ?p1 = "snd (enter ?k NewPartitionRWLocker)"
  let ?s1 = "begin_sys\<lparr>locks := ?p1, waiting := {#(True, ?k, 0)#}\<rparr>"
  have e: "enter ?k NewPartitionRWLocker = (0, ?p1)" "enter ?k ?p1 = (0, snd (enter ?k ?p1))"
    by (simp_all add: enter_def lockInfo_def NewPartitionRWLocker_def)
  have 1: "lock_reach ?s1"
    using reach_step[OF reach_begin call[of ?k begin_sys 0 ?p1 True]] e by (simp add: begin_sys_def)
  have "lock_step ?s1 (?s1\<lparr>locks := snd (enter ?k ?p1), waiting := {#(True, ?k, 0)#} + {#(False, ?k, 0)#}\<rparr>)"
    (is "lock_step ?s1 ?s2") using call[of ?k ?s1 0 _ False] e by simp
  then have 2: "lock_reach ?s2" using 1 by (rule reach_step[rotated])
  have "acquire True 0 (locks ?s2) = Some (locks demo_sys)"
    by (simp add: acquire_def mu_Lock_def enter_def lockInfo_def NewPartitionRWLocker_def demo_sys_def)
  from got[of True ?k 0 ?s2, OF _ this] have "lock_step ?s2 demo_sys"
    by (simp add: begin_sys_def demo_sys_def)
  then show ?thesis using 2 by (rule reach_step[rotated])
qed

theorem partition_lock_exclusive_witness:
  "holders True (lit ''p'') demo_sys = 1 \<and> holders False (lit ''p'') demo_sys = 0
   \<and> dom (infos_of (locks demo_sys)) = {lit ''p''}"
  using partition_lock_exclusive[OF demo_sys_reach, of "lit ''p''"] by (simp add: demo_sys_def holders_def)



text \<open>An unlock of a partition that is not locked leaves nothing behind but takes the program down.\<close>

lemma Unlock_unlocked: "infos_of p k = None \<Longrightarrow> Unlock k p = None"
  by (simp add: Unlock_def lockInfo_def)

end
