(* ===== verification/Etcdwatcher.thy ===== *)
theory Etcdwatcher
  imports Kit_Prelude
begin

text \<open>
  The etcd watcher (package \<open>etcdwatcher\<close>): the builder, the load of the initial state, the loop over
  the watch responses with its event types, filter, transactional gate and once mode, and the two
  entry points; and the \<open>SingleSender\<close> of package \<open>async\<close> they send through.

  The client is a parameter: the response of \<open>Get\<close>, the responses of a watch that starts at a
  revision, and the answer to the n-th transaction. What the watcher sends is the list of messages
  in order; the sender says which of them the receiver gets.
\<close>

subsection \<open>Events\<close>

datatype EventType = PutEvent | DeleteEvent

datatype WatchMode = AllMode | OnceMode | NoneMode | OtherMode gostr

datatype WatchEventType = PutWatchEventType | DeleteWatchEventType | AllWatchEventType | OtherWatchEventType gostr

record 'v Event =
  Key :: gostr
  Type :: EventType
  Value :: 'v
  Revision :: int
  Version :: int

record kv =
  kv_key :: gostr
  kv_value :: gostr
  kv_mod :: int
  kv_version :: int

datatype 'e werror = GetFailed 'e | UnmarshalFailed 'e | WatchFailed 'e | TxnFailed 'e | TxnUnmarshalFailed 'e

datatype ('v, 'e) message = AnEvent "'v Event" | AnError "'e werror"

record ('v, 'c, 'e) wconfig =
  eventTypes :: WatchEventType
  mode :: WatchMode
  wfilter :: "('v Event \<Rightarrow> bool) option"
  unmarshalValue :: "gostr \<Rightarrow> 'e + 'v"
  isPrefix :: bool
  txnGate :: "('v \<Rightarrow> 'c list) option"

text \<open>The result of a transaction: an error, or whether its conditions held and the keys it read.\<close>

type_synonym ('c, 'e) txns = "nat \<Rightarrow> 'c list \<Rightarrow> gostr \<Rightarrow> 'e + bool \<times> kv list"

subsection \<open>The gate\<close>

definition passes :: "('v, 'c, 'e) wconfig \<Rightarrow> 'v Event \<Rightarrow> bool" where
  "passes w ev = (case wfilter w of None \<Rightarrow> True | Some f \<Rightarrow> f ev)"

definition put_event :: "kv \<Rightarrow> 'v \<Rightarrow> 'v Event" where
  "put_event kv v = \<lparr>Key = kv_key kv, Type = PutEvent, Value = v, Revision = kv_mod kv, Version = kv_version kv\<rparr>"

text \<open>\<open>applyTxnGate\<close>; the counter numbers the transactions.\<close>

definition applyTxnGate :: "('v, 'c, 'e) wconfig \<Rightarrow> ('v \<Rightarrow> 'c list) \<Rightarrow> ('c, 'e) txns \<Rightarrow> nat \<Rightarrow> 'v Event \<Rightarrow>
    ('e werror + 'v Event option) \<times> nat" where
  "applyTxnGate w gate txn n ev =
     (let cmps = gate (Value ev)
      in if cmps = [] then (Inr (Some ev), n)
         else (case txn n cmps (Key ev) of
                 Inl e \<Rightarrow> (Inl (TxnFailed e), n + 1)
               | Inr (succeeded, kvs) \<Rightarrow>
                   if \<not> succeeded \<or> kvs = [] then (Inr None, n + 1)
                   else (case unmarshalValue w (kv_value (hd kvs)) of
                           Inl e \<Rightarrow> (Inl (TxnUnmarshalFailed e), n + 1)
                         | Inr v \<Rightarrow> (Inr (if passes w (put_event (hd kvs) v) then Some (put_event (hd kvs) v) else None), n + 1))))"

definition gated :: "('v, 'c, 'e) wconfig \<Rightarrow> ('c, 'e) txns \<Rightarrow> nat \<Rightarrow> 'v Event \<Rightarrow> ('e werror + 'v Event option) \<times> nat" where
  "gated w txn n ev = (case txnGate w of None \<Rightarrow> (Inr (Some ev), n) | Some gate \<Rightarrow> applyTxnGate w gate txn n ev)"

subsection \<open>The initial state\<close>

fun load_loop :: "('v, 'c, 'e) wconfig \<Rightarrow> ('c, 'e) txns \<Rightarrow> nat \<Rightarrow> kv list \<Rightarrow> ('e werror + 'v Event list) \<times> nat" where
  "load_loop w txn n [] = (Inr [], n)"
| "load_loop w txn n (kv # kvs) =
     (case unmarshalValue w (kv_value kv) of
        Inl e \<Rightarrow> (Inl (UnmarshalFailed e), n)
      | Inr v \<Rightarrow>
          if \<not> passes w (put_event kv v) then load_loop w txn n kvs
          else (case gated w txn n (put_event kv v) of
                  (Inl e, n1) \<Rightarrow> (Inl e, n1)
                | (Inr None, n1) \<Rightarrow> load_loop w txn n1 kvs
                | (Inr (Some ev), n1) \<Rightarrow> apfst (map_sum id ((#) ev)) (load_loop w txn n1 kvs)))"

definition loadInitialData :: "('v, 'c, 'e) wconfig \<Rightarrow> ('c, 'e) txns \<Rightarrow> 'e + kv list \<times> int \<Rightarrow>
    ('e werror + 'v Event list \<times> int) \<times> nat" where
  "loadInitialData w txn resp =
     (case resp of
        Inl e \<Rightarrow> (Inl (GetFailed e), 0)
      | Inr (kvs, revision) \<Rightarrow>
          if eventTypes w = DeleteWatchEventType then (Inr ([], revision), 0)
          else apfst (map_sum id (\<lambda>evs. (evs, revision))) (load_loop w txn 0 kvs))"

subsection \<open>The watch loop\<close>

record ev_in =
  in_delete :: bool
  in_kv :: kv

definition event_type :: "ev_in \<Rightarrow> EventType" where
  "event_type i = (if in_delete i then DeleteEvent else PutEvent)"

definition shouldProcess :: "('v, 'c, 'e) wconfig \<Rightarrow> EventType \<Rightarrow> bool" where
  "shouldProcess w t = (case eventTypes w of PutWatchEventType \<Rightarrow> t = PutEvent | DeleteWatchEventType \<Rightarrow> t = DeleteEvent
     | AllWatchEventType \<Rightarrow> True | OtherWatchEventType _ \<Rightarrow> False)"

text \<open>What becomes of one event: an error, nothing, or the event to send; \<open>zero\<close> is the zero value
  a delete event carries.\<close>

definition one_event :: "('v, 'c, 'e) wconfig \<Rightarrow> ('c, 'e) txns \<Rightarrow> 'v \<Rightarrow> nat \<Rightarrow> ev_in \<Rightarrow> ('e werror + 'v Event option) \<times> nat" where
  "one_event w txn zero n i =
     (let t = event_type i; kv = in_kv i
      in if \<not> shouldProcess w t then (Inr None, n)
         else case (if t = PutEvent then unmarshalValue w (kv_value kv) else Inr zero) of
                Inl e \<Rightarrow> (Inl (UnmarshalFailed e), n)
              | Inr v \<Rightarrow>
                  (let ev = \<lparr>Key = kv_key kv, Type = t, Value = v, Revision = kv_mod kv, Version = kv_version kv\<rparr>
                   in if \<not> passes w ev then (Inr None, n)
                      else if t = PutEvent then gated w txn n ev else (Inr (Some ev), n)))"

text \<open>The events of one response: the messages, whether the watch ends, and the keys emitted so far.\<close>

fun event_loop :: "('v, 'c, 'e) wconfig \<Rightarrow> ('c, 'e) txns \<Rightarrow> 'v \<Rightarrow> nat \<Rightarrow> gostr set \<Rightarrow> ev_in list \<Rightarrow>
    ('v, 'e) message list \<times> bool \<times> nat \<times> gostr set" where
  "event_loop w txn zero n emitted [] = ([], False, n, emitted)"
| "event_loop w txn zero n emitted (i # es) =
     (case one_event w txn zero n i of
        (Inl e, n1) \<Rightarrow> ([AnError e], True, n1, emitted)
      | (Inr None, n1) \<Rightarrow> event_loop w txn zero n1 emitted es
      | (Inr (Some ev), n1) \<Rightarrow>
          if mode w = OnceMode \<and> Key ev \<in> emitted then event_loop w txn zero n1 emitted es
          else apfst ((#) (AnEvent ev))
                 (event_loop w txn zero n1 (if mode w = OnceMode then insert (Key ev) emitted else emitted) es))"

fun watch_loop :: "('v, 'c, 'e) wconfig \<Rightarrow> ('c, 'e) txns \<Rightarrow> 'v \<Rightarrow> nat \<Rightarrow> gostr set \<Rightarrow> ('e + ev_in list) list \<Rightarrow> ('v, 'e) message list" where
  "watch_loop w txn zero n emitted [] = []"
| "watch_loop w txn zero n emitted (Inl e # rs) = [AnError (WatchFailed e)]"
| "watch_loop w txn zero n emitted (Inr es # rs) =
     (case event_loop w txn zero n emitted es of
        (out, stop, n1, emitted1) \<Rightarrow> if stop then out else out @ watch_loop w txn zero n1 emitted1 rs)"

definition watch :: "('v, 'c, 'e) wconfig \<Rightarrow> ('c, 'e) txns \<Rightarrow> 'v \<Rightarrow> (int \<Rightarrow> ('e + ev_in list) list) \<Rightarrow> nat \<Rightarrow> 'v Event list \<Rightarrow> int \<Rightarrow>
    ('v, 'e) message list" where
  "watch w txn zero watch_from n initialEvents revision =
     watch_loop w txn zero n (if mode w = OnceMode then set (map Key initialEvents) else {}) (watch_from (revision + 1))"

subsection \<open>The two entry points\<close>

text \<open>\<open>LoadAndWatch\<close>: the initial events or their error, and the messages on the channel.\<close>

definition LoadAndWatch where
  "LoadAndWatch w txn zero watch_from resp =
     (case loadInitialData w txn resp of
        (Inl e, _) \<Rightarrow> (Inl e, [])
      | (Inr (events, revision), n) \<Rightarrow>
          (Inr events, if mode w = NoneMode then [] else watch w txn zero watch_from n events revision))"

definition Watch where
  "Watch w txn zero watch_from resp =
     (case loadInitialData w txn resp of
        (Inl e, _) \<Rightarrow> [AnError e]
      | (Inr (initialEvents, revision), n) \<Rightarrow>
          map AnEvent initialEvents
          @ (if mode w = NoneMode then [] else watch w txn zero watch_from n initialEvents revision))"

subsection \<open>The builder\<close>

definition NewBuilder :: "(gostr \<Rightarrow> 'e + 'v) \<Rightarrow> ('v, 'c, 'e) wconfig" where
  "NewBuilder defaultUnmarshalValue = \<lparr>eventTypes = AllWatchEventType, mode = AllMode, wfilter = None,
     unmarshalValue = defaultUnmarshalValue, isPrefix = False, txnGate = None\<rparr>"

definition WithPrefix :: "('v, 'c, 'e) wconfig \<Rightarrow> ('v, 'c, 'e) wconfig" where
  "WithPrefix b = b\<lparr>isPrefix := True\<rparr>"

definition WithWatchEventType :: "WatchEventType \<Rightarrow> ('v, 'c, 'e) wconfig \<Rightarrow> ('v, 'c, 'e) wconfig" where
  "WithWatchEventType t b = b\<lparr>eventTypes := t\<rparr>"

definition WithWatchMode :: "WatchMode \<Rightarrow> ('v, 'c, 'e) wconfig \<Rightarrow> ('v, 'c, 'e) wconfig" where
  "WithWatchMode m b = b\<lparr>mode := m\<rparr>"

definition WithFilter :: "('v Event \<Rightarrow> bool) \<Rightarrow> ('v, 'c, 'e) wconfig \<Rightarrow> ('v, 'c, 'e) wconfig" where
  "WithFilter f b = b\<lparr>wfilter := Some f\<rparr>"

definition WithTxnGate :: "('v \<Rightarrow> 'c list) \<Rightarrow> ('v, 'c, 'e) wconfig \<Rightarrow> ('v, 'c, 'e) wconfig" where
  "WithTxnGate g b = b\<lparr>txnGate := Some g\<rparr>"

definition WithValueUnmarshaller :: "(gostr \<Rightarrow> 'e + 'v) \<Rightarrow> ('v, 'c, 'e) wconfig \<Rightarrow> ('v, 'c, 'e) wconfig" where
  "WithValueUnmarshaller u b = b\<lparr>unmarshalValue := u\<rparr>"

text \<open>\<open>None\<close> is the error that once mode needs a prefix.\<close>

definition Build :: "('v, 'c, 'e) wconfig \<Rightarrow> ('v, 'c, 'e) wconfig option" where
  "Build b = (if mode b = OnceMode \<and> \<not> isPrefix b then None else Some b)"

subsection \<open>The sender\<close>

text \<open>
  \<open>SingleSender\<close>: \<open>ctx_done\<close> is the context of the sending side, \<open>left\<close> the one the receiver ends when
  it leaves. A value sent while the receiver has left may still be taken if both are ready
  (\<open>takes\<close>); with a receiver that stays it is delivered.
\<close>

record 'm sender =
  ctx_done :: bool
  left :: bool
  closed :: bool
  delivered :: "'m list"

definition Begin :: "bool \<Rightarrow> 'm sender" where
  "Begin parent_done = \<lparr>ctx_done = parent_done, left = False, closed = False, delivered = []\<rparr>"

definition leave :: "'m sender \<Rightarrow> 'm sender" where
  "leave s = s\<lparr>left := True\<rparr>"

definition Send :: "bool \<Rightarrow> 'm \<Rightarrow> 'm sender \<Rightarrow> 'm sender" where
  "Send takes v s =
     (if closed s then s
      else if left s \<and> \<not> takes then s\<lparr>ctx_done := True\<rparr>
      else s\<lparr>delivered := delivered s @ [v]\<rparr>)"

definition Close :: "'m sender \<Rightarrow> 'm sender" where
  "Close s = (if closed s then s\<lparr>ctx_done := True, left := True\<rparr> else s\<lparr>ctx_done := True, left := True, closed := True\<rparr>)"

text \<open>The whole of a watch: its messages, then the close that \<open>watch\<close> defers.\<close>

definition send_all :: "'m list \<Rightarrow> 'm sender \<Rightarrow> 'm sender" where
  "send_all ms s = Close (fold (Send True) ms s)"

lemma send_all_delivers:
  "\<not> closed s \<Longrightarrow> delivered (send_all ms s) = delivered s @ ms \<and> closed (send_all ms s)"
proof -
  assume c: "\<not> closed s"
  have "delivered (fold (Send True) ms s) = delivered s @ ms \<and> closed (fold (Send True) ms s) = closed s" if "\<not> closed s" for s
    using that by (induction ms arbitrary: s) (auto simp: Send_def)
  then show ?thesis using c by (simp add: send_all_def Close_def)
qed

subsection \<open>What is sent\<close>

fun is_error :: "('v, 'e) message \<Rightarrow> bool" where
  "is_error (AnError _) = True"
| "is_error (AnEvent _) = False"

fun event_key :: "('v, 'e) message \<Rightarrow> gostr list" where
  "event_key (AnError _) = []"
| "event_key (AnEvent ev) = [Key ev]"

definition sent_keys :: "('v, 'e) message list \<Rightarrow> gostr list" where
  "sent_keys ms = concat (map event_key ms)"

lemma sent_keys_simps [simp]:
  "sent_keys [] = []" "sent_keys (AnEvent ev # ms) = Key ev # sent_keys ms" "sent_keys (AnError e # ms) = sent_keys ms"
  "sent_keys (ms @ ms') = sent_keys ms @ sent_keys ms'" "sent_keys (map AnEvent evs) = map Key evs"
  by (simp_all add: sent_keys_def, induction evs, auto)

text \<open>Only the last message is an error, and it ends the loop.\<close>

definition shaped :: "('v, 'e) message list \<Rightarrow> bool \<Rightarrow> bool" where
  "shaped out stop \<longleftrightarrow> (\<exists>evs. if stop then (\<exists>e. out = map AnEvent evs @ [AnError e]) else out = map AnEvent evs)"

lemma shaped_Nil [simp]: "shaped [] stop \<longleftrightarrow> \<not> stop"
  by (simp add: shaped_def)

lemma shaped_error [simp]: "shaped [AnError e] stop \<longleftrightarrow> stop"
  by (auto simp: shaped_def Cons_eq_append_conv Cons_eq_map_conv intro: exI[of _ "[]"])

lemma shaped_Cons: "shaped out stop \<Longrightarrow> shaped (AnEvent ev # out) stop"
  unfolding shaped_def by (cases stop) (auto intro: exI[of _ "ev # _"])

lemma shaped_append: "shaped out False \<Longrightarrow> shaped out' stop \<Longrightarrow> shaped (out @ out') stop"
  unfolding shaped_def by (cases stop) (auto intro: exI[of _ "_ @ _"])

lemma event_loop_shaped:
  "shaped (fst (event_loop w txn zero n emitted es)) (fst (snd (event_loop w txn zero n emitted es)))"
proof (induction es arbitrary: n emitted)
  case (Cons i es)
  show ?case
    using Cons.IH by (auto split: prod.split sum.split option.split intro!: shaped_Cons)
qed simp

lemma watch_loop_shaped: "\<exists>stop. shaped (watch_loop w txn zero n emitted rs) stop"
proof (induction rs arbitrary: n emitted)
  case (Cons r rs)
  show ?case
  proof (cases r)
    case (Inr es)
    obtain out stop n1 emitted1 where e: "event_loop w txn zero n emitted es = (out, stop, n1, emitted1)"
      by (cases "event_loop w txn zero n emitted es") auto
    have s: "shaped out stop" using event_loop_shaped[of w txn zero n emitted es] e by simp
    obtain stop' where "shaped (watch_loop w txn zero n1 emitted1 rs) stop'" using Cons.IH by blast
    then show ?thesis using s Inr e shaped_append[of out] by (cases stop) auto
  qed auto
qed (auto intro: exI[of _ False])

text \<open>In once mode the loop never sends a key of \<open>emitted\<close>, and none twice.\<close>

lemma event_loop_once:
  assumes "mode w = OnceMode"
  shows "distinct (sent_keys (fst (event_loop w txn zero n emitted es)))
    \<and> set (sent_keys (fst (event_loop w txn zero n emitted es))) \<inter> emitted = {}
    \<and> snd (snd (snd (event_loop w txn zero n emitted es))) = emitted \<union> set (sent_keys (fst (event_loop w txn zero n emitted es)))"
proof (induction es arbitrary: n emitted)
  case (Cons i es)
  show ?case
    using Cons.IH assms by (auto split: prod.split sum.split option.split)
qed simp

lemma watch_loop_once:
  assumes "mode w = OnceMode"
  shows "distinct (sent_keys (watch_loop w txn zero n emitted rs)) \<and> set (sent_keys (watch_loop w txn zero n emitted rs)) \<inter> emitted = {}"
proof (induction rs arbitrary: n emitted)
  case (Cons r rs)
  show ?case
  proof (cases r)
    case (Inr es)
    obtain out stop n1 emitted1 where e: "event_loop w txn zero n emitted es = (out, stop, n1, emitted1)"
      by (cases "event_loop w txn zero n emitted es") auto
    show ?thesis using event_loop_once[OF assms, of txn zero n emitted es] Cons.IH[of n1 emitted1] e Inr by auto
  qed auto
qed simp

subsection \<open>Properties\<close>

text \<open>A transaction reads the key it is given, as \<open>OpGet\<close> documents.\<close>

definition txn_ok :: "('c, 'e) txns \<Rightarrow> bool" where
  "txn_ok txn \<longleftrightarrow> (\<forall>n cmps k succeeded kvs. txn n cmps k = Inr (succeeded, kvs) \<longrightarrow> (\<forall>kv\<in>set kvs. kv_key kv = k))"

lemma gated_key: "txn_ok txn \<Longrightarrow> gated w txn n ev = (Inr (Some ev'), n1) \<Longrightarrow> Key ev' = Key ev"
  by (auto simp: gated_def applyTxnGate_def Let_def txn_ok_def put_event_def
    split: option.splits if_splits sum.splits prod.splits)

lemma load_loop_keys:
  assumes "txn_ok txn" "load_loop w txn n kvs = (Inr evs, n1)"
  shows "set (map Key evs) \<subseteq> set (map kv_key kvs) \<and> (distinct (map kv_key kvs) \<longrightarrow> distinct (map Key evs))"
  using assms(2)
proof (induction kvs arbitrary: n evs)
  case (Cons kv kvs)
  obtain v where v: "unmarshalValue w (kv_value kv) = Inr v" using Cons.prems by (auto split: sum.splits)
  obtain g n2 where g: "gated w txn n (put_event kv v) = (g, n2)" by (cases "gated w txn n (put_event kv v)")
  show ?case
  proof (cases "passes w (put_event kv v) \<and> (\<exists>ev. g = Inr (Some ev))")
    case True
    then obtain ev where ev: "g = Inr (Some ev)" by blast
    have "Key ev = kv_key kv" using gated_key[OF assms(1)] g ev by (fastforce simp: put_event_def)
    moreover obtain evs' where "load_loop w txn n2 kvs = (Inr evs', n1)" "evs = ev # evs'"
      using Cons.prems v True g ev
      by (cases "load_loop w txn n2 kvs"; cases "fst (load_loop w txn n2 kvs)") auto
    ultimately show ?thesis using Cons.IH[of n2 evs'] by auto
  next
    case False
    then obtain m where "load_loop w txn m kvs = (Inr evs, n1)"
      using Cons.prems v g by (auto split: if_splits sum.splits option.splits)
    then show ?thesis using Cons.IH[of m evs] by auto
  qed
qed simp

lemma Watch_Inr:
  assumes "loadInitialData w txn resp = (Inr (evs, revision), n)"
  shows "Watch w txn zero watch_from resp = map AnEvent evs @ (if mode w = NoneMode then [] else watch w txn zero watch_from n evs revision)"
  using assms by (simp add: Watch_def)

text \<open>C21. In once mode no key is sent twice, counting the initial state and everything the watch
  brings, puts, updates and deletes alike.\<close>

theorem once_mode_once:
  assumes "mode w = OnceMode" "txn_ok txn" "distinct (map kv_key kvs)"
  shows "distinct (sent_keys (Watch w txn zero watch_from (Inr (kvs, revision))))"
proof (cases "loadInitialData w txn (Inr (kvs, revision))")
  case (Pair r n)
  show ?thesis
  proof (cases r)
    case (Inl e)
    then show ?thesis using Pair by (simp add: Watch_def)
  next
    case (Inr x)
    then obtain evs where x: "x = (evs, revision)" and d: "distinct (map Key evs)"
      using Pair load_loop_keys[OF assms(2), of w 0 kvs] assms(3)
      by (cases "load_loop w txn 0 kvs"; cases "fst (load_loop w txn 0 kvs)")
        (auto simp: loadInitialData_def split: if_splits)
    show ?thesis
      using watch_loop_once[OF assms(1), of txn zero n "set (map Key evs)" "watch_from (revision + 1)"] d assms(1) Pair Inr x
      by (auto simp: Watch_Inr watch_def)
  qed
qed


subsection \<open>A mirror of the store\<close>

definition raw_apply :: "ev_in \<Rightarrow> (gostr \<rightharpoonup> gostr) \<Rightarrow> (gostr \<rightharpoonup> gostr)" where
  "raw_apply i m = m(kv_key (in_kv i) := (if in_delete i then None else Some (kv_value (in_kv i))))"

fun apply_message :: "('v, 'e) message \<Rightarrow> (gostr \<rightharpoonup> 'v) \<Rightarrow> (gostr \<rightharpoonup> 'v)" where
  "apply_message (AnError e) m = m"
| "apply_message (AnEvent ev) m = m(Key ev := (if Type ev = DeleteEvent then None else Some (Value ev)))"

definition plain :: "('v, 'c, 'e) wconfig \<Rightarrow> (gostr \<Rightarrow> 'v) \<Rightarrow> bool" where
  "plain w u \<longleftrightarrow> eventTypes w = AllWatchEventType \<and> mode w = AllMode \<and> wfilter w = None \<and> txnGate w = None
     \<and> unmarshalValue w = (\<lambda>x. Inr (u x))"

definition mapped :: "('a \<Rightarrow> 'b) \<Rightarrow> ('k \<rightharpoonup> 'a) \<Rightarrow> ('k \<rightharpoonup> 'b)" where
  "mapped u m = map_option u \<circ> m"

lemma plain_one_event:
  fixes w :: "('v, 'c, 'e) wconfig"
  shows "plain w u \<Longrightarrow> \<exists>ev. one_event w txn zero n i = (Inr (Some ev), n)
     \<and> apply_message (AnEvent ev :: ('v, 'e) message) (mapped u m) = mapped u (raw_apply i m)"
  by (auto simp: plain_def one_event_def Let_def event_type_def shouldProcess_def passes_def gated_def raw_apply_def mapped_def fun_eq_iff)

lemma plain_event_loop:
  fixes w :: "('v, 'c, 'e) wconfig"
  assumes "plain w u"
  shows "\<exists>out. event_loop w txn zero n emitted es = (out, False, n, emitted)
    \<and> fold apply_message out (mapped u m) = mapped u (fold raw_apply es m)"
proof (induction es arbitrary: m)
  case (Cons i es)
  obtain ev where ev: "one_event w txn zero n i = (Inr (Some ev), n)"
    "apply_message (AnEvent ev :: ('v, 'e) message) (mapped u m) = mapped u (raw_apply i m)"
    using plain_one_event[OF assms] by blast
  obtain out where "event_loop w txn zero n emitted es = (out, False, n, emitted)"
    "fold apply_message out (mapped u (raw_apply i m)) = mapped u (fold raw_apply es (raw_apply i m))"
    using Cons.IH by blast
  then show ?case using ev assms by (simp add: plain_def del: apply_message.simps)
qed simp

lemma plain_watch_loop:
  assumes "plain w u"
  shows "fold apply_message (watch_loop w txn zero n emitted (map Inr ess)) (mapped u m)
    = mapped u (fold raw_apply (concat ess) m)"
proof (induction ess arbitrary: m)
  case (Cons es ess)
  obtain out where "event_loop w txn zero n emitted es = (out, False, n, emitted)"
    "fold apply_message out (mapped u m) = mapped u (fold raw_apply es m)"
    using plain_event_loop[OF assms] by blast
  then show ?case using Cons.IH by simp
qed simp

lemma plain_load_loop:
  assumes "plain w u"
  shows "load_loop w txn n kvs = (Inr (map (\<lambda>kv. put_event kv (u (kv_value kv))) kvs), n)"
  using assms by (induction kvs) (auto simp: plain_def passes_def gated_def)

lemma mirror_snapshot:
  "distinct (map kv_key kvs) \<Longrightarrow>
   fold apply_message (map AnEvent (map (\<lambda>kv. put_event kv (u (kv_value kv))) kvs)) m
   = m ++ mapped u (map_of (map (\<lambda>kv. (kv_key kv, kv_value kv)) kvs))"
proof (induction kvs arbitrary: m)
  case (Cons kv kvs)
  have "map_of (map (\<lambda>kv. (kv_key kv, kv_value kv)) kvs) (kv_key kv) = None"
    using Cons.prems by (auto simp: map_of_eq_None_iff)
  then show ?case using Cons by (auto simp: put_event_def mapped_def fun_eq_iff map_add_def split: option.split)
qed (simp add: mapped_def fun_eq_iff map_add_def)


text \<open>A concrete client: at revision 5 the store had one key, then it was deleted and another put.\<close>

definition demo_kv :: "string \<Rightarrow> string \<Rightarrow> int \<Rightarrow> kv" where
  "demo_kv k v r = \<lparr>kv_key = lit k, kv_value = lit v, kv_mod = r, kv_version = 1\<rparr>"

definition demo_watch :: "int \<Rightarrow> (unit + ev_in list) list" where
  "demo_watch r =
     (let changes = [\<lparr>in_delete = True, in_kv = demo_kv ''a'' [] 6\<rparr>, \<lparr>in_delete = False, in_kv = demo_kv ''b'' ''y'' 7\<rparr>]
      in map (\<lambda>i. Inr [i]) (filter (\<lambda>i. r \<le> kv_mod (in_kv i)) changes))"

definition demo_store :: "int \<Rightarrow> gostr \<rightharpoonup> gostr" where
  "demo_store r = (if r \<le> 5 then [lit ''a'' \<mapsto> lit ''x''] else if r = 6 then Map.empty else [lit ''b'' \<mapsto> lit ''y''])"

definition demo_config :: "(gostr, unit, unit) wconfig" where
  "demo_config = NewBuilder Inr"


theorem once_mode_once_witness:
  "distinct (sent_keys (Watch (WithWatchMode OnceMode (WithPrefix demo_config)) (\<lambda>_ _ _. Inl ()) [] demo_watch
     (Inr ([demo_kv ''a'' ''x'' 5], 5))))
   \<and> sent_keys (Watch (WithWatchMode OnceMode (WithPrefix demo_config)) (\<lambda>_ _ _. Inl ()) [] demo_watch
     (Inr ([demo_kv ''a'' ''x'' 5], 5))) = [lit ''a'', lit ''b'']"
proof
  show "distinct (sent_keys (Watch (WithWatchMode OnceMode (WithPrefix demo_config)) (\<lambda>_ _ _. Inl ()) [] demo_watch
     (Inr ([demo_kv ''a'' ''x'' 5], 5))))"
    by (rule once_mode_once) (auto simp: WithWatchMode_def txn_ok_def)
  show "sent_keys (Watch (WithWatchMode OnceMode (WithPrefix demo_config)) (\<lambda>_ _ _. Inl ()) [] demo_watch
     (Inr ([demo_kv ''a'' ''x'' 5], 5))) = [lit ''a'', lit ''b'']"
    by (simp add: Watch_def loadInitialData_def watch_def demo_watch_def demo_config_def NewBuilder_def WithWatchMode_def WithPrefix_def
      passes_def gated_def one_event_def event_type_def shouldProcess_def demo_kv_def put_event_def Let_def lit_def)
qed

text \<open>\<open>Watch\<close> sends what \<open>LoadAndWatch\<close> returns and then what that sends.\<close>

lemma Watch_LoadAndWatch:
  "Watch w txn zero watch_from resp =
     (case LoadAndWatch w txn zero watch_from resp of (Inl e, _) \<Rightarrow> [AnError e] | (Inr evs, ms) \<Rightarrow> map AnEvent evs @ ms)"
  by (auto simp: Watch_def LoadAndWatch_def split: prod.split sum.split)

end
