(* ===== verification/Memory.thy ===== *)
theory Memory
  imports Kit_Prelude Complex_Main
begin

text \<open>
  Memory statistics (package \<open>mem\<close>): the reading of the cgroup files of both versions
  (\<open>internal/cgroup\<close>), the choice between the cgroup and the machine, and the memory limit derived
  from a percentage. The file system is a map from paths to contents, the memory of the machine is
  what gopsutil reports; percentages are reals. Platforms have 64-bit integers.
\<close>

subsection \<open>Library routines\<close>

text \<open>\<open>path.Clean\<close> and \<open>path.Join\<close>.\<close>

fun clean_loop :: "bool \<Rightarrow> gostr list \<Rightarrow> gostr list \<Rightarrow> gostr list" where
  "clean_loop rooted out [] = rev out"
| "clean_loop rooted out (c # cs) =
     (if c = [] \<or> c = [46] then clean_loop rooted out cs
      else if c = [46, 46]
      then (case out of
              [] \<Rightarrow> clean_loop rooted (if rooted then [] else [c]) cs
            | d # ds \<Rightarrow> clean_loop rooted (if d = [46, 46] then c # d # ds else ds) cs)
      else clean_loop rooted (c # out) cs)"

definition Clean :: "gostr \<Rightarrow> gostr" where
  "Clean p = (if p = [] then [46]
     else let rooted = (hd p = 47); r = Join (clean_loop rooted [] (split_on 47 p)) [47]
          in if rooted then 47 # r else if r = [] then [46] else r)"

definition path_Join :: "gostr list \<Rightarrow> gostr" where
  "path_Join es = (let ne = filter (\<lambda>e. e \<noteq> []) es in if ne = [] then [] else Clean (Join ne [47]))"

subsection \<open>Reading the cgroup files\<close>

type_synonym files = "gostr \<rightharpoonup> gostr"

fun grep_lines :: "gostr list \<Rightarrow> gostr \<Rightarrow> nat \<Rightarrow> rune \<Rightarrow> gostr option" where
  "grep_lines [] match index delimiter = None"
| "grep_lines (s # lines) match index delimiter =
     (if \<not> Contains s match then grep_lines lines match index delimiter
      else let parts = split_on delimiter s
           in if index < length parts then Some (TrimSpace (parts ! index)) else grep_lines lines match index delimiter)"

definition grepFirstMatch :: "gostr \<Rightarrow> gostr \<Rightarrow> nat \<Rightarrow> rune \<Rightarrow> gostr option" where
  "grepFirstMatch data match index delimiter = grep_lines (split_on 10 data) match index delimiter"

definition getFileContents :: "files \<Rightarrow> gostr \<Rightarrow> gostr \<Rightarrow> gostr \<Rightarrow> gostr \<Rightarrow> gostr option" where
  "getFileContents fs statName sysfsPrefix cgroupPath cgroupGrepLine =
     (case fs (path_Join [sysfsPrefix, statName]) of
        Some data \<Rightarrow> Some data
      | None \<Rightarrow>
          Option.bind (fs cgroupPath) (\<lambda>cgroupData.
          Option.bind (grepFirstMatch cgroupData cgroupGrepLine 2 58) (\<lambda>subPath.
            fs (path_Join [sysfsPrefix, subPath, statName]))))"

definition getStatGeneric :: "files \<Rightarrow> gostr \<Rightarrow> gostr \<Rightarrow> gostr \<Rightarrow> gostr \<Rightarrow> int option" where
  "getStatGeneric fs statName sysfsPrefix cgroupPath cgroupGrepLine =
     Option.bind (getFileContents fs statName sysfsPrefix cgroupPath cgroupGrepLine) (\<lambda>data. ParseInt (TrimSpace data))"

definition getMemStatCgroup2 :: "files \<Rightarrow> gostr \<Rightarrow> gostr \<Rightarrow> int option" where
  "getMemStatCgroup2 fs basePath statName =
     getStatGeneric fs statName (basePath @ lit ''/sys/fs/cgroup'') (basePath @ lit ''/proc/self/cgroup'') []"

definition getMemStatCgroup1 :: "files \<Rightarrow> gostr \<Rightarrow> gostr \<Rightarrow> int option" where
  "getMemStatCgroup1 fs basePath statName =
     getStatGeneric fs statName (basePath @ lit ''/sys/fs/cgroup/memory'') (basePath @ lit ''/proc/self/cgroup'') (lit ''memory'')"

definition or_zero :: "int option \<Rightarrow> int" where
  "or_zero r = (case r of None \<Rightarrow> 0 | Some n \<Rightarrow> n)"

definition memStatCgroup1 :: "files \<Rightarrow> gostr \<Rightarrow> gostr \<Rightarrow> int" where
  "memStatCgroup1 fs basePath key = or_zero
     (Option.bind (getFileContents fs (lit ''memory.stat'') (basePath @ lit ''/sys/fs/cgroup/memory'') (basePath @ lit ''/proc/self/cgroup'') (lit ''memory'')) (\<lambda>data.
      Option.bind (grepFirstMatch data key 1 32) ParseInt))"

definition memStatCgroup2 :: "files \<Rightarrow> gostr \<Rightarrow> gostr \<Rightarrow> int" where
  "memStatCgroup2 fs basePath key = or_zero
     (Option.bind (getFileContents fs (lit ''memory.stat'') (basePath @ lit ''/sys/fs/cgroup'') (basePath @ lit ''/proc/self/cgroup'') []) (\<lambda>data.
      Option.bind (grepFirstMatch data key 1 32) ParseInt))"

definition GetHierarchicalMemoryLimitCgroup1 :: "files \<Rightarrow> gostr \<Rightarrow> int" where
  "GetHierarchicalMemoryLimitCgroup1 fs basePath = memStatCgroup1 fs basePath (lit ''hierarchical_memory_limit'')"

definition getRSSMemoryCgroup1 :: "files \<Rightarrow> gostr \<Rightarrow> int" where
  "getRSSMemoryCgroup1 fs basePath = memStatCgroup1 fs basePath (lit ''total_rss'')"

definition getWSSMemoryCgroup1 :: "files \<Rightarrow> gostr \<Rightarrow> int \<Rightarrow> int" where
  "getWSSMemoryCgroup1 fs basePath used =
     (let inactive = memStatCgroup1 fs basePath (lit ''total_inactive_file'')
      in if used < inactive then 0 else wrap64 (used - inactive))"

definition getWSSMemoryCgroup2 :: "files \<Rightarrow> gostr \<Rightarrow> int \<Rightarrow> int" where
  "getWSSMemoryCgroup2 fs basePath used =
     (let inactive = memStatCgroup2 fs basePath (lit ''inactive_file'')
      in if used < inactive then 0 else wrap64 (used - inactive))"

definition getRSSMemoryCgroup2 :: "files \<Rightarrow> gostr \<Rightarrow> int" where
  "getRSSMemoryCgroup2 fs basePath = memStatCgroup2 fs basePath (lit ''anon'')"

definition GetMemoryUsage :: "files \<Rightarrow> gostr \<Rightarrow> int" where
  "GetMemoryUsage fs basePath =
     (case getMemStatCgroup1 fs basePath (lit ''memory.usage_in_bytes'') of
        Some n \<Rightarrow> (let wss = getWSSMemoryCgroup1 fs basePath n; rss = getRSSMemoryCgroup1 fs basePath
                   in if wss > rss then wss else rss)
      | None \<Rightarrow> (case getMemStatCgroup2 fs basePath (lit ''memory.current'') of
                   None \<Rightarrow> 0
                 | Some n \<Rightarrow> getWSSMemoryCgroup2 fs basePath n))"

definition GetMemoryRSS :: "files \<Rightarrow> gostr \<Rightarrow> int" where
  "GetMemoryRSS fs basePath =
     (let rss = getRSSMemoryCgroup1 fs basePath in if rss > 0 then rss else getRSSMemoryCgroup2 fs basePath)"

definition GetMemoryLimit :: "files \<Rightarrow> gostr \<Rightarrow> int \<Rightarrow> int" where
  "GetMemoryLimit fs basePath totalMem =
     (let limit =
        (case getMemStatCgroup1 fs basePath (lit ''memory.limit_in_bytes'') of
           Some n \<Rightarrow> (if n \<le> 0 \<or> n > totalMem then GetHierarchicalMemoryLimitCgroup1 fs basePath else n)
         | None \<Rightarrow> or_zero (getMemStatCgroup2 fs basePath (lit ''memory.max'')))
      in if limit \<le> 0 \<or> limit > totalMem then totalMem else limit)"

subsection \<open>The statistics\<close>

record Stat =
  Total :: u64
  Available :: u64
  AvailablePercent :: real
  Used :: u64
  UsedPercent :: real
  RSS :: u64

text \<open>A division by zero is a NaN in Go and 0 here; a machine has memory.\<close>

definition percent :: "u64 \<Rightarrow> u64 \<Rightarrow> real" where
  "percent a tot = real (unat a) * 100 / real (unat tot)"

definition RSSPercent :: "Stat \<Rightarrow> real" where
  "RSSPercent s = percent (RSS s) (Total s)"

definition AvailableIgnoreCache :: "Stat \<Rightarrow> u64" where
  "AvailableIgnoreCache s = Total s - RSS s"

definition AvailableIgnoreCachePercent :: "Stat \<Rightarrow> real" where
  "AvailableIgnoreCachePercent s = percent (AvailableIgnoreCache s) (Total s)"

text \<open>\<open>collector.Get\<close>; the machine's memory is total and available, or an error.\<close>

definition Get :: "files \<Rightarrow> gostr \<Rightarrow> 'e + u64 \<times> u64 \<Rightarrow> 'e + Stat" where
  "Get fs basePath vm =
     (case vm of
        Inl e \<Rightarrow> Inl e
      | Inr (memTotal, memAvailable) \<Rightarrow>
          (let cgroupLimit = GetMemoryLimit fs basePath (sint memTotal);
               (tot, used, rss, available) =
                 (if cgroupLimit < sint memTotal
                  then (let t = word_of_int cgroupLimit;
                            u = min (word_of_int (GetMemoryUsage fs basePath)) t;
                            r0 = word_of_int (GetMemoryRSS fs basePath);
                            r = (if r0 = 0 \<or> r0 > u then u else r0)
                        in (t, u, r, t - u))
                  else (let u = memTotal - memAvailable in (memTotal, u, u, memAvailable)))
           in Inr \<lparr>Total = tot, Available = available, AvailablePercent = percent available tot,
                   Used = used, UsedPercent = percent used tot, RSS = rss\<rparr>))"

subsection \<open>The memory limit\<close>

definition calculateMemoryLimit :: "int \<Rightarrow> 'e + Stat \<Rightarrow> 'e + int" where
  "calculateMemoryLimit limitPercent stat =
     (case stat of Inl e \<Rightarrow> Inl e | Inr s \<Rightarrow> Inr (sint ((word_of_int limitPercent * Total s) div 100)))"

text \<open>\<open>distinctMemoryLimitValues\<close>: one poll, and the values that a series of polls puts on the channel.\<close>

definition poll :: "'e + int \<Rightarrow> int \<Rightarrow> int list \<times> int" where
  "poll r lastMemoryLimit =
     (case r of Inl _ \<Rightarrow> ([], lastMemoryLimit)
      | Inr m \<Rightarrow> if m \<noteq> lastMemoryLimit then ([m], m) else ([], lastMemoryLimit))"

fun polls :: "('e + int) list \<Rightarrow> int \<Rightarrow> int list" where
  "polls [] lastMemoryLimit = []"
| "polls (r # rs) lastMemoryLimit = (case poll r lastMemoryLimit of (out, l) \<Rightarrow> out @ polls rs l)"

subsection \<open>Properties\<close>

lemma GetMemoryLimit_bounds: "0 < totalMem \<Longrightarrow> 0 < GetMemoryLimit fs basePath totalMem \<and> GetMemoryLimit fs basePath totalMem \<le> totalMem"
  by (auto simp: GetMemoryLimit_def Let_def)

lemma sint_small: "unat x < 2 ^ 63 \<Longrightarrow> sint (x :: u64) = int (unat x)"
proof -
  assume "unat x < 2 ^ 63"
  then have "int (unat x) < int (2 ^ 63)" by (simp only: of_nat_less_iff)
  then have u: "uint x < 2 ^ 63" by simp
  have "- (2 ^ 63) \<le> uint x" by (rule order_trans[of _ 0]) simp_all
  from signed_take_bit_int_eq_self[OF this u] show ?thesis by (simp add: sint_uint)
qed

lemma unat_minus_le: "a \<le> (b :: u64) \<Longrightarrow> unat (b - a) = unat b - unat a \<and> unat a \<le> unat b"
  by (simp add: unat_sub word_le_nat_alt)

lemma percent_sum:
  assumes "unat a + unat b = unat tot" "0 < unat tot"
  shows "percent a tot + percent b tot = 100" "0 \<le> percent a tot" "percent a tot \<le> 100"
proof -
  have t: "real (unat tot) = real (unat a) + real (unat b)" "0 < real (unat tot)" using assms by linarith+
  have "real (unat a) * 100 + real (unat b) * 100 = 100 * real (unat tot)" using t(1) by simp
  then show "percent a tot + percent b tot = 100"
    using t(2) by (simp add: percent_def add_divide_distrib[symmetric] del: of_nat_unat)
  show "0 \<le> percent a tot" unfolding percent_def by (intro divide_nonneg_nonneg mult_nonneg_nonneg of_nat_0_le_iff) simp
  have "0 \<le> real (unat b)" by (rule of_nat_0_le_iff)
  then have "real (unat a) * 100 \<le> 100 * real (unat tot)" using t(1) by linarith
  then show "percent a tot \<le> 100" using t(2) unfolding percent_def by (simp add: pos_divide_le_eq)
qed

definition consistent :: "u64 \<Rightarrow> Stat \<Rightarrow> bool" where
  "consistent memTotal s \<longleftrightarrow> 0 < Total s \<and> Total s \<le> memTotal \<and> unat (Used s) + unat (Available s) = unat (Total s)
     \<and> RSS s \<le> Used s \<and> UsedPercent s + AvailablePercent s = 100 \<and> 0 \<le> UsedPercent s \<and> UsedPercent s \<le> 100
     \<and> unat (AvailableIgnoreCache s) + unat (RSS s) = unat (Total s)"

lemma consistentI:
  assumes "0 < t" "t \<le> memTotal" "unat u + unat a = unat t" "r \<le> u"
  shows "consistent memTotal \<lparr>Total = t, Available = a, AvailablePercent = percent a t, Used = u, UsedPercent = percent u t, RSS = r\<rparr>"
proof -
  have t: "0 < unat t" using assms(1) by (simp add: word_less_nat_alt)
  have "unat r \<le> unat u" using assms(4) by (simp add: word_le_nat_alt)
  then have "r \<le> t" using assms(3) by (simp add: word_le_nat_alt)
  from unat_minus_le[OF this] have "unat (t - r) + unat r = unat t" by simp
  then show ?thesis using assms percent_sum[OF assms(3) t] by (simp add: consistent_def AvailableIgnoreCache_def)
qed

text \<open>C23. Whatever the cgroup files contain, the statistics are consistent: used and available memory add
  up to the total, which is positive and at most the machine's, the resident set is part of the used
  memory, and the percentages lie between 0 and 100 and add up to 100.\<close>

theorem Get_consistent:
  assumes "0 < memTotal" "unat memTotal < 2 ^ 63" "memAvailable \<le> memTotal"
  shows "\<exists>s. Get fs basePath (Inr (memTotal, memAvailable)) = Inr s \<and> consistent memTotal s"
proof -
  have st: "sint memTotal = int (unat memTotal)"
    by (rule sint_small[OF assms(2)])
  have pos: "0 < sint memTotal" using assms(1) unfolding st of_nat_0_less_iff by (simp add: word_less_nat_alt)
  define l where "l = GetMemoryLimit fs basePath (sint memTotal)"
  have l: "0 < l" "l \<le> sint memTotal" using GetMemoryLimit_bounds[OF pos] by (auto simp: l_def)
  show ?thesis
  proof (cases "l < sint memTotal")
    case True
    define t :: u64 where "t = word_of_int l"
    have "int (unat memTotal) < int (2 ^ 63)" using assms(2) by (simp only: of_nat_less_iff)
    then have "l < 2 ^ 64" using l(2) unfolding st by simp
    then have ut: "int (unat t) = l" using l by (simp add: t_def unsigned_of_int take_bit_int_eq_self)
    have t: "0 < t" "t \<le> memTotal" using ut l st by (simp_all add: word_less_def word_le_def)
    define u where "u = min (word_of_int (GetMemoryUsage fs basePath)) t"
    have "u \<le> t" by (simp add: u_def)
    from unat_minus_le[OF this] have a: "unat u + unat (t - u) = unat t" by simp
    define r0 :: u64 where "r0 = word_of_int (GetMemoryRSS fs basePath)"
    define r where "r = (if r0 = 0 \<or> r0 > u then u else r0)"
    have "r \<le> u" by (auto simp: r_def)
    from consistentI[OF t a this] show ?thesis
      using True by (cases "r0 = 0 \<or> r0 > u")
        (auto simp: Get_def Let_def l_def[symmetric] t_def[symmetric] u_def[symmetric] r0_def[symmetric] r_def)
  next
    case False
    from unat_minus_le[OF assms(3)] have "unat (memTotal - memAvailable) + unat memAvailable = unat memTotal" by simp
    from consistentI[OF assms(1) order_refl this order_refl] show ?thesis
      using False by (simp add: Get_def Let_def l_def[symmetric])
  qed
qed

definition demo_files :: files where
  "demo_files = [lit ''/sys/fs/cgroup/memory.max'' \<mapsto> lit ''1000'' @ [10], lit ''/sys/fs/cgroup/memory.current'' \<mapsto> lit ''400'' @ [10],
     lit ''/sys/fs/cgroup/memory.stat'' \<mapsto> lit ''anon 250'' @ [10] @ lit ''inactive_file 100'' @ [10]]"

theorem Get_consistent_witness:
  "\<exists>s. Get demo_files [] (Inr (4096, 1024) :: unit + u64 \<times> u64) = Inr s \<and> consistent 4096 s"
  by (rule Get_consistent) simp_all

text \<open>A series of polls never puts the same limit on the channel twice in a row.\<close>

lemma polls_distinct: "distinct_adj (l # polls rs l)"
  by (induction rs arbitrary: l) (auto simp: poll_def split: sum.splits)

text \<open>The limit does not wrap for a percentage and a memory below 144 petabytes.\<close>

lemma calculateMemoryLimit_exact:
  assumes "0 \<le> p" "p \<le> 100" "unat (Total s) < 2 ^ 57"
  shows "calculateMemoryLimit p (Inr s) = Inr (p * int (unat (Total s)) div 100)"
proof -
  have p: "unat (word_of_int p :: u64) = nat p" using assms by (simp add: unsigned_of_int take_bit_int_eq_self flip: nat_take_bit_eq)
  have "nat p * unat (Total s) \<le> 100 * unat (Total s)" using assms(2) by (intro mult_right_mono) auto
  then have lt: "nat p * unat (Total s) < 100 * 2 ^ 57" using assms(3) by linarith
  have "unat (word_of_int p :: u64) * unat (Total s) < 2 ^ LENGTH(64)"
    unfolding p by (rule order.strict_trans[OF lt]) simp
  then have "unat (word_of_int p * Total s) = nat p * unat (Total s)" using unat_mult_lem p by metis
  then have d: "unat ((word_of_int p * Total s) div 100) = nat p * unat (Total s) div 100" by (simp add: unat_div)
  have "nat p * unat (Total s) div 100 < 2 ^ 63"
    using less_mult_imp_div_less[of "nat p * unat (Total s)" "2 ^ 57" 100] lt by simp
  from this[folded d] have "sint ((word_of_int p * Total s) div 100) = int (nat p * unat (Total s) div 100)"
    unfolding d[symmetric] by (rule sint_small)
  then show ?thesis using assms(1) by (simp add: calculateMemoryLimit_def zdiv_int)
qed

text \<open>The path of a process' cgroup is cut at its first colon: with containerd's systemd driver, whose
  paths contain colons, the files are looked for in the wrong place.\<close>

lemma colon_path_cut:
  assumes "58 \<notin> set p" "10 \<notin> set p" "10 \<notin> set r" "p \<noteq> []" "\<not> is_space (hd p)" "\<not> is_space (last p)"
  shows "grepFirstMatch ([48, 58, 58] @ p @ 58 # r) [] 2 58 = Some p"
proof -
  have "split_on 58 ([48] @ 58 # [] @ 58 # p @ 58 # r) = [48] # [] # p # split_on 58 r"
    using assms(1) by (subst split_on_append, simp, subst split_on_append, simp, subst split_on_append) simp_all
  moreover have "split_on 10 ([48, 58, 58] @ p @ 58 # r) = [[48, 58, 58] @ p @ 58 # r]"
    using assms(2,3) by (intro split_on_none) auto
  ultimately show ?thesis using assms(4-6) by (simp add: grepFirstMatch_def TrimSpace_id)
qed


subsection \<open>Setting and watching the limit\<close>

text \<open>A loader reads the percentage from the configuration \<open>'c\<close>; loggers are left out.\<close>

record 'c SetConfig =
  set_limitPercent :: "'c \<Rightarrow> int"

record 'c WatchConfig =
  watch_limitPercent :: "'c \<Rightarrow> int"
  interval :: int

datatype 'c SetOption = SetWithPercentage int | SetWithPercentageLoader "'c \<Rightarrow> int" | SetWithLogger

datatype 'c WatchOption = WatchWithInterval int | WatchWithPercentage int | WatchWithPercentageLoader "'c \<Rightarrow> int" | WatchWithLogger

fun apply_SetOption :: "'c SetOption \<Rightarrow> 'c SetConfig \<Rightarrow> 'c SetConfig" where
  "apply_SetOption (SetWithPercentage pc) c = c\<lparr>set_limitPercent := (\<lambda>_. pc)\<rparr>"
| "apply_SetOption (SetWithPercentageLoader loader) c = c\<lparr>set_limitPercent := loader\<rparr>"
| "apply_SetOption SetWithLogger c = c"

fun apply_WatchOption :: "'c WatchOption \<Rightarrow> 'c WatchConfig \<Rightarrow> 'c WatchConfig" where
  "apply_WatchOption (WatchWithInterval i) c = c\<lparr>interval := i\<rparr>"
| "apply_WatchOption (WatchWithPercentage pc) c = c\<lparr>watch_limitPercent := (\<lambda>_. pc)\<rparr>"
| "apply_WatchOption (WatchWithPercentageLoader loader) c = c\<lparr>watch_limitPercent := loader\<rparr>"
| "apply_WatchOption WatchWithLogger c = c"

definition set_config :: "'c SetOption list \<Rightarrow> 'c SetConfig" where
  "set_config opts = fold apply_SetOption opts \<lparr>set_limitPercent = (\<lambda>_. 90)\<rparr>"

definition watch_config :: "'c WatchOption list \<Rightarrow> 'c WatchConfig" where
  "watch_config opts = fold apply_WatchOption opts \<lparr>watch_limitPercent = (\<lambda>_. 90), interval = 10 * 1000000000\<rparr>"

text \<open>\<open>debug.SetMemoryLimit\<close> leaves the limit as it is where the argument is negative.\<close>

definition debug_SetMemoryLimit :: "int \<Rightarrow> int \<Rightarrow> int" where
  "debug_SetMemoryLimit l limit = (if l < 0 then limit else l)"

definition SetMemoryLimit :: "'c SetOption list \<Rightarrow> 'c \<Rightarrow> 'e + Stat \<Rightarrow> int \<Rightarrow> int" where
  "SetMemoryLimit opts conf stat limit =
     (case calculateMemoryLimit (set_limitPercent (set_config opts) conf) stat of
        Inl _ \<Rightarrow> limit
      | Inr l \<Rightarrow> debug_SetMemoryLimit l limit)"

text \<open>
  \<open>WatchMemoryLimit\<close>: the goroutine that polls, the channel of one place, and the goroutine that sets the limit; \<open>applied\<close>
  is the last value it was given. What a poll reads is chosen by the step.
\<close>

datatype poller = Waiting_poll | Sending int | Poller_ended

record watch =
  last_limit :: int
  poller :: poller
  limits_chan :: "int list"
  applied :: int
  setter_ended :: bool
  watch_ctx_done :: bool

definition WatchMemoryLimit :: watch where
  "WatchMemoryLimit =
     \<lparr>last_limit = - 1, poller = Waiting_poll, limits_chan = [], applied = - 1, setter_ended = False, watch_ctx_done = False\<rparr>"

inductive watch_step :: "watch \<Rightarrow> watch \<Rightarrow> bool" where
  polled: "poller w = Waiting_poll \<Longrightarrow> poll (Inr l :: unit + int) (last_limit w) = ([l], l) \<Longrightarrow> watch_step w (w\<lparr>last_limit := l, poller := Sending l\<rparr>)"
| sent: "poller w = Sending l \<Longrightarrow> limits_chan w = [] \<Longrightarrow> watch_step w (w\<lparr>poller := Waiting_poll, limits_chan := [l]\<rparr>)"
| poll_stops: "poller w \<noteq> Poller_ended \<Longrightarrow> watch_ctx_done w \<Longrightarrow> watch_step w (w\<lparr>poller := Poller_ended\<rparr>)"
| applies: "\<not> setter_ended w \<Longrightarrow> limits_chan w = l # r \<Longrightarrow> watch_step w (w\<lparr>applied := l, limits_chan := r\<rparr>)"
| setter_stops: "limits_chan w = [] \<Longrightarrow> poller w = Poller_ended \<Longrightarrow> watch_step w (w\<lparr>setter_ended := True\<rparr>)"
| watch_cancel: "watch_step w (w\<lparr>watch_ctx_done := True\<rparr>)"

definition watch_ok :: "watch \<Rightarrow> bool" where
  "watch_ok w \<longleftrightarrow> length (limits_chan w) \<le> 1
     \<and> (poller w = Waiting_poll \<longrightarrow> last (applied w # limits_chan w) = last_limit w)
     \<and> (\<forall>l. poller w = Sending l \<longrightarrow> l = last_limit w)
     \<and> (poller w = Poller_ended \<longrightarrow> watch_ctx_done w)
     \<and> (setter_ended w \<longrightarrow> poller w = Poller_ended \<and> limits_chan w = [])"

interpretation memlimit_watch: transition_system "\<lambda>w. w = WatchMemoryLimit" watch_step watch_ok
proof
  show "w = WatchMemoryLimit \<Longrightarrow> watch_ok w" for w by (simp add: WatchMemoryLimit_def watch_ok_def)
  show "watch_ok w \<Longrightarrow> watch_step w w' \<Longrightarrow> watch_ok w'" for w w'
    by (erule watch_step.cases) (auto simp: watch_ok_def poll_def split: sum.splits if_splits)
qed

text \<open>Whenever nothing is on its way, the value that was set last is the one that was calculated last; once the context is
  done either both goroutines have ended or one of them can move, and none of their moves can be repeated for ever.\<close>

definition watch_rank :: "watch \<Rightarrow> nat" where
  "watch_rank w = (if poller w = Poller_ended then 0 else 1) + length (limits_chan w) + (if setter_ended w then 0 else 1)"

lemma memlimit_watch_exact:
  assumes "watch_step\<^sup>*\<^sup>* WatchMemoryLimit w"
  shows "poller w = Waiting_poll \<Longrightarrow> limits_chan w = [] \<Longrightarrow> applied w = last_limit w"
    and "watch_ctx_done w \<Longrightarrow> poller w \<noteq> Poller_ended \<or> \<not> setter_ended w \<Longrightarrow> \<exists>w'. watch_step w w' \<and> watch_rank w' < watch_rank w"
proof -
  have ok: "watch_ok w" by (rule memlimit_watch.reach_inv[OF refl assms])
  then show "poller w = Waiting_poll \<Longrightarrow> limits_chan w = [] \<Longrightarrow> applied w = last_limit w" by (simp add: watch_ok_def)
  assume d: "watch_ctx_done w" and n: "poller w \<noteq> Poller_ended \<or> \<not> setter_ended w"
  show "\<exists>w'. watch_step w w' \<and> watch_rank w' < watch_rank w"
  proof (cases "poller w = Poller_ended")
    case False
    have "watch_rank (w\<lparr>poller := Poller_ended\<rparr>) < watch_rank w" using False by (simp add: watch_rank_def)
    then show ?thesis using poll_stops[OF False d] by blast
  next
    case True
    then have s: "\<not> setter_ended w" using n by simp
    show ?thesis
    proof (cases "limits_chan w")
      case Nil
      have "watch_rank (w\<lparr>setter_ended := True\<rparr>) < watch_rank w" using s by (simp add: watch_rank_def)
      then show ?thesis using setter_stops[OF Nil True] by blast
    next
      case (Cons l r)
      have "watch_rank (w\<lparr>applied := l, limits_chan := r\<rparr>) < watch_rank w" using Cons by (simp add: watch_rank_def)
      then show ?thesis using applies[OF s Cons] by blast
    qed
  qed
qed

end
