(* ===== verification/Codec.thy ===== *)
theory Codec
  imports Kit_Prelude
begin

text \<open>
  The packages \<open>compress\<close> and \<open>encrypt\<close>: their algorithms and levels, the settings strings, the
  compressor with its timeout and the AES-GCM encryptor. Strings are byte strings here. The zstd
  libraries and the block cipher are parameters; of the level constants those of the C library are
  in the comments of the code, those of the Go library number its four speeds from 1.
\<close>

subsection \<open>Compression settings\<close>

definition CompressionAlgoZstd :: int where "CompressionAlgoZstd = 1"

definition CompressionAlgoZstdCgo :: int where "CompressionAlgoZstdCgo = 2"

definition algo_String :: "int \<Rightarrow> gostr" where
  "algo_String c = (if c = CompressionAlgoZstd then lit ''zstd'' else if c = CompressionAlgoZstdCgo then lit ''zstd-cgo'' else [])"

text \<open>Fastest, default, better and best are 1 to 4 for zstd, and 1, 5 and 20 for its C library.\<close>

definition level_String :: "int \<Rightarrow> gostr" where
  "level_String c = (if c = 1 then lit ''fastest'' else if c = 2 \<or> c = 5 then lit ''default'' else if c = 3 then lit ''better''
     else if c = 4 \<or> c = 20 then lit ''best'' else [])"

datatype settings_error = UnknownLevel gostr gostr | UnknownAlgo gostr | BadSettings | InvalidLevel int int | InvalidAlgo int

definition NewSettings :: "gostr \<Rightarrow> gostr \<Rightarrow> settings_error + int \<times> int" where
  "NewSettings algo level =
     (if algo = lit ''zstd''
      then (if level = lit ''fastest'' then Inr (1, 1) else if level = lit ''default'' then Inr (1, 2)
            else if level = lit ''better'' then Inr (1, 3) else if level = lit ''best'' then Inr (1, 4)
            else Inl (UnknownLevel algo level))
      else if algo = lit ''zstd-cgo''
      then (if level = lit ''fastest'' then Inr (2, 1) else if level = lit ''default'' then Inr (2, 5)
            else if level = lit ''best'' then Inr (2, 20) else Inl (UnknownLevel algo level))
      else Inl (UnknownAlgo algo))"

definition SerializeSettings :: "int \<Rightarrow> int \<Rightarrow> gostr" where
  "SerializeSettings algo level = int_str algo @ [58] @ int_str level"

text \<open>\<open>fmt.Sscanf\<close> with \<open>%d\<close>: spaces (no newline), a sign, digits that fit an int; the rest is left over.\<close>

definition scan_int :: "gostr \<Rightarrow> (int \<times> gostr) option" where
  "scan_int s =
     (let s1 = dropWhile (\<lambda>r. is_space r \<and> r \<noteq> 10) s;
          (neg, s2) = (case s1 of r # rs \<Rightarrow> if r = 45 then (True, rs) else if r = 43 then (False, rs) else (False, s1) | [] \<Rightarrow> (False, []));
          ds = takeWhile is_digit s2; n = int (digits_val 0 ds); i = (if neg then - n else n)
      in if ds = [] \<or> i < - (2 ^ 63) \<or> 2 ^ 63 \<le> i then None else Some (i, dropWhile is_digit s2))"

definition Sscanf_settings :: "gostr \<Rightarrow> (int \<times> int) option" where
  "Sscanf_settings s =
     (case scan_int s of
        Some (a, r # rs) \<Rightarrow> (if r = 58 then map_option (\<lambda>(l, _). (a, l)) (scan_int rs) else None)
      | _ \<Rightarrow> None)"

definition valid_settings :: "int \<Rightarrow> int \<Rightarrow> bool" where
  "valid_settings a l \<longleftrightarrow> a = 1 \<and> l \<in> {1, 2, 3, 4} \<or> a = 2 \<and> l \<in> {1, 5, 20}"

definition DeserializeSettings :: "gostr \<Rightarrow> settings_error + int \<times> int" where
  "DeserializeSettings s =
     (case Sscanf_settings s of
        None \<Rightarrow> Inl BadSettings
      | Some (algo, level) \<Rightarrow>
          if algo = CompressionAlgoZstd
          then (if level \<in> {1, 2, 3, 4} then Inr (algo, level) else Inl (InvalidLevel algo level))
          else if algo = CompressionAlgoZstdCgo
          then (if level \<in> {1, 5, 20} then Inr (algo, level) else Inl (InvalidLevel algo level))
          else Inl (InvalidAlgo algo))"

subsection \<open>The compressor\<close>

record settings =
  timeout :: duration
  panicOnTimeout :: bool
  onTimeout :: bool

datatype comp_option = WithTimeout duration | WithPanicOnTimeout | WithOnTimeout

fun apply_comp_option :: "comp_option \<Rightarrow> settings \<Rightarrow> settings" where
  "apply_comp_option (WithTimeout t) s = s\<lparr>timeout := t\<rparr>"
| "apply_comp_option WithPanicOnTimeout s = s\<lparr>panicOnTimeout := True\<rparr>"
| "apply_comp_option WithOnTimeout s = s\<lparr>onTimeout := True\<rparr>"

datatype compressor_kind = KZstd int | KZstdCgo int

record compressor =
  kind :: compressor_kind
  csettings :: settings

text \<open>Creating zstd's encoder or decoder fails with the errors of the library.\<close>

datatype 'e new_error = SettingsError settings_error | CannotCreateEncoder 'e | CannotCreateDecoder 'e

definition New_compressor :: "(int \<Rightarrow> 'e + unit) \<Rightarrow> ('e + unit) \<Rightarrow> int \<Rightarrow> int \<Rightarrow> comp_option list \<Rightarrow> 'e new_error + compressor" where
  "New_compressor newEncoder newDecoder algo level opts =
     (let st = fold apply_comp_option opts \<lparr>timeout = 0, panicOnTimeout = False, onTimeout = False\<rparr>
      in case NewSettings (algo_String algo) (level_String level) of
           Inl e \<Rightarrow> Inl (SettingsError e)
         | Inr (a, l) \<Rightarrow>
             if a = CompressionAlgoZstd
             then (case newEncoder l of
                     Inl e \<Rightarrow> Inl (CannotCreateEncoder e)
                   | Inr _ \<Rightarrow> (case newDecoder of
                                 Inl e \<Rightarrow> Inl (CannotCreateDecoder e)
                               | Inr _ \<Rightarrow> Inr \<lparr>kind = KZstd l, csettings = st\<rparr>))
             else Inr \<lparr>kind = KZstdCgo l, csettings = st\<rparr>)"

text \<open>
  An operation of the library takes some time or never ends (\<open>None\<close>). \<open>Hangs\<close> is a call that never
  returns; a call that times out leaks its goroutine and reports to the callback if there is one.
  When both are due at the same instant, \<open>late\<close> says that the timer is taken.
\<close>

datatype ('e, 'r) outcome = Done "'e + 'r" | TimedOut bool | Panics bool | Hangs

definition withTimeout :: "settings \<Rightarrow> bool \<Rightarrow> duration option \<Rightarrow> 'e + 'r \<Rightarrow> ('e, 'r) outcome" where
  "withTimeout s late took res =
     (if timeout s = 0 then (case took of None \<Rightarrow> Hangs | Some _ \<Rightarrow> Done res)
      else case took of
             Some t \<Rightarrow> if t < timeout s \<or> (t = timeout s \<and> \<not> late) then Done res
                      else if panicOnTimeout s then Panics (onTimeout s) else TimedOut (onTimeout s)
           | None \<Rightarrow> if panicOnTimeout s then Panics (onTimeout s) else TimedOut (onTimeout s))"

text \<open>The two libraries, as their documentation has them: zstd's \<open>EncodeAll\<close> cannot fail.\<close>

record ('e) zstd_lib =
  EncodeAll :: "int \<Rightarrow> gostr \<Rightarrow> gostr"
  DecodeAll :: "gostr \<Rightarrow> 'e + gostr"
  CompressLevel :: "int \<Rightarrow> gostr \<Rightarrow> 'e + gostr"
  cgo_Decompress :: "gostr \<Rightarrow> 'e + gostr"
  took :: "gostr \<Rightarrow> duration option"

definition compress_raw :: "'e zstd_lib \<Rightarrow> compressor_kind \<Rightarrow> gostr \<Rightarrow> 'e + gostr" where
  "compress_raw lib k src = (case k of KZstdCgo l \<Rightarrow> CompressLevel lib l src | KZstd l \<Rightarrow> Inr (EncodeAll lib l src))"

definition decompress_raw :: "'e zstd_lib \<Rightarrow> compressor_kind \<Rightarrow> gostr \<Rightarrow> 'e + gostr" where
  "decompress_raw lib k src = (case k of KZstdCgo l \<Rightarrow> cgo_Decompress lib src | KZstd l \<Rightarrow> DecodeAll lib src)"

definition Compress :: "'e zstd_lib \<Rightarrow> bool \<Rightarrow> compressor \<Rightarrow> gostr \<Rightarrow> ('e, gostr) outcome" where
  "Compress lib late c src = withTimeout (csettings c) late (took lib src) (compress_raw lib (kind c) src)"

definition Decompress :: "'e zstd_lib \<Rightarrow> bool \<Rightarrow> compressor \<Rightarrow> gostr \<Rightarrow> ('e, gostr) outcome" where
  "Decompress lib late c src = withTimeout (csettings c) late (took lib src) (decompress_raw lib (kind c) src)"

subsection \<open>Encryption\<close>

definition EncryptionAlgoAESGCM :: int where "EncryptionAlgoAESGCM = 1"

definition enc_algo_String :: "int \<Rightarrow> gostr" where
  "enc_algo_String e = (if e = EncryptionAlgoAESGCM then lit ''aes-gcm'' else [])"

definition enc_level_String :: "int \<Rightarrow> gostr" where
  "enc_level_String e = (if e = 128 \<or> e = 192 \<or> e = 256 then int_str e else [])"

definition enc_NewSettings :: "gostr \<Rightarrow> gostr \<Rightarrow> settings_error + int \<times> int" where
  "enc_NewSettings algo level =
     (if algo = lit ''aes-gcm''
      then (if level = lit ''128'' then Inr (1, 128) else if level = lit ''192'' then Inr (1, 192)
            else if level = lit ''256'' then Inr (1, 256) else Inl (UnknownLevel algo level))
      else Inl (UnknownAlgo algo))"

text \<open>The encryptor is its level.\<close>

definition New_encryptor :: "int \<Rightarrow> int \<Rightarrow> settings_error + int" where
  "New_encryptor algo level =
     (case enc_NewSettings (enc_algo_String algo) (enc_level_String level) of
        Inl e \<Rightarrow> Inl e
      | Inr (a, l) \<Rightarrow> if a = EncryptionAlgoAESGCM then Inr l else Inl (InvalidAlgo a))"

definition enc_SerializeSettings :: "int \<Rightarrow> int \<Rightarrow> gostr" where
  "enc_SerializeSettings algo level = enc_algo_String algo @ [58] @ enc_level_String level"

definition enc_DeserializeSettings :: "gostr \<Rightarrow> settings_error + int \<times> int" where
  "enc_DeserializeSettings settings =
     (let parts = split_on 58 settings
      in if length parts \<noteq> 2 then Inl BadSettings else enc_NewSettings (parts ! 0) (parts ! 1))"

text \<open>The cipher: \<open>newCipher\<close> fails for a bad key, \<open>seal\<close> and \<open>open_\<close> take key and nonce.\<close>

record 'e gcm =
  newCipher :: "gostr \<Rightarrow> 'e option"
  nonceSize :: nat
  seal :: "gostr \<Rightarrow> gostr \<Rightarrow> gostr \<Rightarrow> gostr"
  openc :: "gostr \<Rightarrow> gostr \<Rightarrow> gostr \<Rightarrow> 'e + gostr"

datatype 'e enc_error = KeyLength int | CipherError 'e | RandomError 'e | TooShort | OpenError 'e

text \<open>\<open>rand\<close> is what the random source delivers: a nonce or its error.\<close>

definition Encrypt :: "'e gcm \<Rightarrow> int \<Rightarrow> 'e + gostr \<Rightarrow> gostr \<Rightarrow> gostr \<Rightarrow> 'e enc_error + gostr" where
  "Encrypt g level rand src key =
     (if int (length key) \<noteq> go_div level 8 then Inl (KeyLength (go_div level 8))
      else case newCipher g key of
             Some e \<Rightarrow> Inl (CipherError e)
           | None \<Rightarrow> (case rand of Inl e \<Rightarrow> Inl (RandomError e) | Inr nonce \<Rightarrow> Inr (nonce @ seal g key nonce src)))"

definition Decrypt :: "'e gcm \<Rightarrow> int \<Rightarrow> gostr \<Rightarrow> gostr \<Rightarrow> 'e enc_error + gostr" where
  "Decrypt g level src key =
     (if int (length key) \<noteq> go_div level 8 then Inl (KeyLength (go_div level 8))
      else case newCipher g key of
             Some e \<Rightarrow> Inl (CipherError e)
           | None \<Rightarrow> if length src < nonceSize g then Inl TooShort
                     else (case openc g key (take (nonceSize g) src) (drop (nonceSize g) src) of
                             Inl e \<Rightarrow> Inl (OpenError e) | Inr p \<Rightarrow> Inr p))"

subsection \<open>Properties\<close>

lemmas lits = lit_def

lemma DeserializeSettings_valid: "DeserializeSettings s = Inr (a, l) \<Longrightarrow> valid_settings a l"
  by (auto simp: DeserializeSettings_def valid_settings_def CompressionAlgoZstd_def CompressionAlgoZstdCgo_def
    split: option.splits if_splits)

lemma small_ints: "int_str 1 = [49]" "int_str 2 = [50]" "int_str 3 = [51]" "int_str 4 = [52]" "int_str 5 = [53]" "int_str 20 = [50, 48]"
  by (simp_all add: int_str_def nat_str.simps)

lemma DeserializeSettings_Serialize:
  assumes "valid_settings a l"
  shows "DeserializeSettings (SerializeSettings a l) = Inr (a, l)"
  using assms
  by (auto simp: valid_settings_def SerializeSettings_def small_ints DeserializeSettings_def Sscanf_settings_def scan_int_def
    is_digit_def is_space_def CompressionAlgoZstd_def CompressionAlgoZstdCgo_def)

lemma NewSettings_names: "valid_settings a l \<Longrightarrow> NewSettings (algo_String a) (level_String l) = Inr (a, l)"
  by (auto simp: valid_settings_def algo_String_def level_String_def CompressionAlgoZstd_def CompressionAlgoZstdCgo_def NewSettings_def lit_def)

lemma NewSettings_valid: "NewSettings x y = Inr (a, l) \<Longrightarrow> valid_settings a l"
  by (auto simp: NewSettings_def valid_settings_def split: if_splits)

lemma enc_NewSettings_valid: "enc_NewSettings x y = Inr (a, l) \<Longrightarrow> a = 1 \<and> l \<in> {128, 192, 256}"
  by (auto simp: enc_NewSettings_def split: if_splits)

lemma enc_ints: "int_str 128 = [49, 50, 56]" "int_str 192 = [49, 57, 50]" "int_str 256 = [50, 53, 54]"
  by (simp_all add: int_str_def nat_str.simps)

lemma enc_Deserialize_Serialize: "l \<in> {128, 192, 256} \<Longrightarrow> enc_DeserializeSettings (enc_SerializeSettings 1 l) = Inr (1, l)"
proof -
  assume l: "l \<in> {128, 192, 256}"
  have "split_on 58 (lit ''aes-gcm'' @ 58 # int_str l) = [lit ''aes-gcm'', int_str l]"
    using l by (subst split_on_append) (auto simp: lit_def enc_ints split_on_none)
  then have "enc_DeserializeSettings (enc_SerializeSettings 1 l) = enc_NewSettings (lit ''aes-gcm'') (int_str l)"
    using l by (auto simp: enc_DeserializeSettings_def enc_SerializeSettings_def enc_algo_String_def EncryptionAlgoAESGCM_def enc_level_String_def)
  then show ?thesis using l by (auto simp: enc_NewSettings_def enc_ints lit_def)
qed

text \<open>The settings strings and the names of algorithms and levels read back exactly for the valid
  combinations, and no string or name ever yields an invalid combination.\<close>

lemma settings_roundtrip:
  "(DeserializeSettings (SerializeSettings a l) = Inr (a, l) \<longleftrightarrow> valid_settings a l)
   \<and> (NewSettings (algo_String a) (level_String l) = Inr (a, l) \<longleftrightarrow> valid_settings a l)
   \<and> (enc_DeserializeSettings (enc_SerializeSettings a l) = Inr (a, l) \<longleftrightarrow> a = 1 \<and> l \<in> {128, 192, 256})
   \<and> {p. \<exists>s. DeserializeSettings s = Inr p} = {(a, l). valid_settings a l}"
proof (intro conjI)
  show "DeserializeSettings (SerializeSettings a l) = Inr (a, l) \<longleftrightarrow> valid_settings a l"
    using DeserializeSettings_valid DeserializeSettings_Serialize by blast
  show "NewSettings (algo_String a) (level_String l) = Inr (a, l) \<longleftrightarrow> valid_settings a l"
    using NewSettings_valid NewSettings_names by blast
  show "enc_DeserializeSettings (enc_SerializeSettings a l) = Inr (a, l) \<longleftrightarrow> a = 1 \<and> l \<in> {128, 192, 256}"
    using enc_Deserialize_Serialize[of l] enc_NewSettings_valid
    by (auto simp: enc_DeserializeSettings_def Let_def split: if_splits)
  show "{p. \<exists>s. DeserializeSettings s = Inr p} = {(a, l). valid_settings a l}"
    using DeserializeSettings_valid DeserializeSettings_Serialize by fast
qed

text \<open>What follows a settings string is ignored, and a level of the one library is taken for the level
  of the other that has the same name.\<close>

lemma settings_trailing_ignored: "DeserializeSettings (lit ''1:2x'') = Inr (1, 2)"
  by (simp add: DeserializeSettings_def Sscanf_settings_def scan_int_def lit_def is_digit_def is_space_def CompressionAlgoZstd_def)

lemma New_level_by_name: "New_compressor newEncoder newDecoder 2 2 [] =
   Inr \<lparr>kind = KZstdCgo 5, csettings = \<lparr>timeout = 0, panicOnTimeout = False, onTimeout = False\<rparr>\<rparr>"
  by (simp add: New_compressor_def algo_String_def level_String_def NewSettings_def CompressionAlgoZstd_def CompressionAlgoZstdCgo_def lit_def)

text \<open>A call of the compressor hangs exactly when no timeout is set and the library never returns.
  Otherwise it returns the library's result when that is there in time, and else an error, or a
  panic if so configured, after calling the callback if there is one.\<close>

lemma compressor_returns:
  "(Compress lib late c src = Hangs \<longleftrightarrow> timeout (csettings c) = 0 \<and> took lib src = None)
   \<and> (Decompress lib late c src = Hangs \<longleftrightarrow> timeout (csettings c) = 0 \<and> took lib src = None)
   \<and> (case Compress lib late c src of
        Hangs \<Rightarrow> True
      | Done r \<Rightarrow> r = compress_raw lib (kind c) src \<and> took lib src \<noteq> None
      | TimedOut cb \<Rightarrow> \<not> panicOnTimeout (csettings c) \<and> cb = onTimeout (csettings c) \<and> timeout (csettings c) \<noteq> 0
      | Panics cb \<Rightarrow> panicOnTimeout (csettings c) \<and> cb = onTimeout (csettings c) \<and> timeout (csettings c) \<noteq> 0)"
  by (auto simp: Compress_def Decompress_def withTimeout_def split: option.split)

text \<open>What \<open>cipher.AEAD\<close> documents: opening what was sealed under the same key and nonce gives it back.\<close>

definition gcm_ok :: "'e gcm \<Rightarrow> bool" where
  "gcm_ok g \<longleftrightarrow> (\<forall>key nonce p. length nonce = nonceSize g \<longrightarrow> openc g key nonce (seal g key nonce p) = Inr p)"

text \<open>C24. For every level an encryptor can have, what it encrypts with a key it decrypts with that key;
  a key of the wrong length is an error on both sides.\<close>

theorem encrypt_roundtrip:
  assumes "gcm_ok g" "length nonce = nonceSize g"
  shows "(case Encrypt g level (Inr nonce) src key of
      Inr c \<Rightarrow> Decrypt g level c key = Inr src \<and> int (length key) = go_div level 8
    | Inl e \<Rightarrow> (if int (length key) = go_div level 8 then \<exists>err. newCipher g key = Some err \<and> e = CipherError err
              else e = KeyLength (go_div level 8) \<and> (\<forall>c. Decrypt g level c key = Inl e)))"
  using assms by (auto simp: Encrypt_def Decrypt_def gcm_ok_def split: option.splits)

text \<open>A toy cipher that adds the first byte of the key.\<close>

definition demo_gcm :: "unit gcm" where
  "demo_gcm = \<lparr>newCipher = (\<lambda>_. None), nonceSize = 1, seal = (\<lambda>key nonce p. map (\<lambda>b. b + hd key) p),
     openc = (\<lambda>key nonce c. Inr (map (\<lambda>b. b - hd key) c))\<rparr>"

theorem encrypt_roundtrip_witness:
  "Encrypt demo_gcm 128 (Inr [9]) [1, 2] (replicate 16 7) = Inr [9, 8, 9]
   \<and> Decrypt demo_gcm 128 [9, 8, 9] (replicate 16 7) = Inr [1, 2]"
proof -
  have e: "Encrypt demo_gcm 128 (Inr [9]) [1, 2] (replicate 16 7) = Inr [9, 8, 9]"
    by (simp add: Encrypt_def demo_gcm_def go_div_def)
  have "gcm_ok demo_gcm" by (simp add: gcm_ok_def demo_gcm_def comp_def)
  from encrypt_roundtrip[OF this, where nonce = "[9]" and level = 128 and src = "[1, 2]" and key = "replicate 16 7"] e show ?thesis
    by (simp add: demo_gcm_def)
qed

end
