(* ===== verification/Text_Utils.thy ===== *)
theory Text_Utils
  imports Kit_Prelude Complex_Main "HOL-Library.Sublist"
begin

text \<open>
  Small packages on strings and maps: the similarity of strings by their longest common subsequence
  (\<open>lcs\<close>), the repair of invalid UTF-8 (\<open>utf8\<close>), nested lookup and read-only maps (\<open>maputil\<close>), and
  memoization (\<open>ro\<close>).
\<close>

subsection \<open>Longest common subsequence\<close>

definition dp_step :: "'a list \<Rightarrow> 'a list \<Rightarrow> nat \<Rightarrow> nat \<Rightarrow> nat list list \<Rightarrow> nat list list" where
  "dp_step seq1 seq2 i j dp = dp[i := (dp ! i)[j :=
     (if seq1 ! (i - 1) = seq2 ! (j - 1) then dp ! (i - 1) ! (j - 1) + 1
      else if dp ! (i - 1) ! j \<ge> dp ! i ! (j - 1) then dp ! (i - 1) ! j
      else dp ! i ! (j - 1))]]"

definition dp_row :: "'a list \<Rightarrow> 'a list \<Rightarrow> nat \<Rightarrow> nat \<Rightarrow> nat list list \<Rightarrow> nat list list" where
  "dp_row seq1 seq2 k i dp = fold (dp_step seq1 seq2 i) [1..<k + 1] dp"

definition longestCommonSubsequence :: "'a list \<Rightarrow> 'a list \<Rightarrow> nat" where
  "longestCommonSubsequence seq1 seq2 =
     (let m = length seq1; n = length seq2
      in if m = 0 \<or> n = 0 then 0
         else fold (dp_row seq1 seq2 n) [1..<m + 1] (replicate (m + 1) (replicate (n + 1) 0)) ! m ! n)"

text \<open>The recurrence, on reversed prefixes.\<close>

fun lcs_ref :: "'a list \<Rightarrow> 'a list \<Rightarrow> nat" where
  "lcs_ref (x # xs) (y # ys) = (if x = y then lcs_ref xs ys + 1 else max (lcs_ref xs (y # ys)) (lcs_ref (x # xs) ys))"
| "lcs_ref _ _ = 0"

definition L :: "'a list \<Rightarrow> 'a list \<Rightarrow> nat \<Rightarrow> nat \<Rightarrow> nat" where
  "L seq1 seq2 i j = lcs_ref (rev (take i seq1)) (rev (take j seq2))"

lemma L_zero [simp]: "L seq1 seq2 0 j = 0" "L seq1 seq2 i 0 = 0"
  by (simp_all add: L_def)

lemma rev_take_Suc: "i < length s \<Longrightarrow> rev (take (Suc i) s) = s ! i # rev (take i s)"
  by (simp add: take_Suc_conv_app_nth)

lemma L_Suc:
  assumes "i < length seq1" "j < length seq2"
  shows "L seq1 seq2 (Suc i) (Suc j) = (if seq1 ! i = seq2 ! j then L seq1 seq2 i j + 1
    else max (L seq1 seq2 i (Suc j)) (L seq1 seq2 (Suc i) j))"
  using assms by (simp add: L_def rev_take_Suc)

text \<open>The table when all cells before \<open>(i, j)\<close>, row by row, are filled.\<close>

definition filled :: "'a list \<Rightarrow> 'a list \<Rightarrow> nat \<Rightarrow> nat \<Rightarrow> nat list list \<Rightarrow> bool" where
  "filled seq1 seq2 i j dp \<longleftrightarrow> length dp = length seq1 + 1 \<and> (\<forall>a \<le> length seq1. length (dp ! a) = length seq2 + 1)
     \<and> (\<forall>a \<le> length seq1. \<forall>b \<le> length seq2. dp ! a ! b = (if a < i \<or> a = i \<and> b < j then L seq1 seq2 a b else 0))"

lemma filled_step:
  assumes "filled seq1 seq2 i j dp" "1 \<le> i" "i \<le> length seq1" "1 \<le> j" "j \<le> length seq2"
  shows "filled seq1 seq2 i (j + 1) (dp_step seq1 seq2 i j dp)"
proof -
  obtain i' j' where ij: "i = Suc i'" "j = Suc j'" using assms(2,4) by (cases i; cases j) auto
  have v: "dp ! i' ! j' = L seq1 seq2 i' j'" "dp ! i' ! j = L seq1 seq2 i' j" "dp ! i ! j' = L seq1 seq2 i j'"
    using assms by (auto simp: filled_def ij)
  have "dp_step seq1 seq2 i j dp = dp[i := (dp ! i)[j := L seq1 seq2 i j]]"
    using v L_Suc[of i' seq1 j' seq2] assms by (simp add: dp_step_def ij)
  then show ?thesis
    using assms by (auto simp: filled_def nth_list_update)
qed

lemma filled_row:
  assumes "filled seq1 seq2 i 1 dp" "1 \<le> i" "i \<le> length seq1" "k \<le> length seq2"
  shows "filled seq1 seq2 i (k + 1) (dp_row seq1 seq2 k i dp)"
  using assms(4)
proof (induction k)
  case 0
  then show ?case using assms(1) by (simp add: dp_row_def)
next
  case (Suc k)
  then have "filled seq1 seq2 i (k + 1) (dp_row seq1 seq2 k i dp)" by simp
  from filled_step[OF this assms(2,3)] Suc.prems show ?case by (simp add: dp_row_def)
qed

lemma filled_next: "filled seq1 seq2 i (length seq2 + 1) dp \<Longrightarrow> filled seq1 seq2 (Suc i) 1 dp"
  by (auto simp: filled_def less_Suc_eq)

lemma filled_rows:
  "k \<le> length seq1 \<Longrightarrow> filled seq1 seq2 (k + 1) 1
     (fold (dp_row seq1 seq2 (length seq2)) [1..<k + 1] (replicate (length seq1 + 1) (replicate (length seq2 + 1) 0)))"
proof (induction k)
  case 0
  show ?case by (auto simp: filled_def nth_Cons' simp flip: replicate_Suc)
next
  case (Suc k)
  then have "filled seq1 seq2 (k + 1) 1 (fold (dp_row seq1 seq2 (length seq2)) [1..<k + 1] (replicate (length seq1 + 1) (replicate (length seq2 + 1) 0)))"
    by simp
  from filled_next[OF filled_row[OF this _ _ order_refl]] Suc.prems show ?case by simp
qed

lemma longestCommonSubsequence_L: "longestCommonSubsequence seq1 seq2 = L seq1 seq2 (length seq1) (length seq2)"
proof (cases "seq1 = [] \<or> seq2 = []")
  case False
  have "filled seq1 seq2 (length seq1 + 1) 1 (fold (dp_row seq1 seq2 (length seq2)) [1..<length seq1 + 1]
    (replicate (length seq1 + 1) (replicate (length seq2 + 1) 0)))" by (rule filled_rows) simp
  then show ?thesis using False by (simp add: longestCommonSubsequence_def Let_def filled_def del: upt_Suc)
qed (auto simp: longestCommonSubsequence_def)

lemma lcs_ref_upper: "subseq zs xs \<Longrightarrow> subseq zs ys \<Longrightarrow> length zs \<le> lcs_ref xs ys"
proof (induction xs ys arbitrary: zs rule: lcs_ref.induct)
  case (1 x xs y ys)
  show ?case
  proof (cases zs)
    case (Cons z zs')
    have t: "subseq zs' xs" "subseq zs' ys" using 1(4,5) Cons by (auto dest: subseq_Cons' split: if_splits)
    show ?thesis
    proof (cases "x = y")
      case True
      then show ?thesis using 1(1)[OF _ t] Cons by simp
    next
      case False
      have "subseq zs xs \<or> subseq zs ys" using 1(4,5) Cons False by (auto split: if_splits)
      then show ?thesis using 1(2)[OF False _ 1(5)] 1(3)[OF False 1(4)] False by (auto simp: le_max_iff_disj)
    qed
  qed simp
qed auto

lemma lcs_ref_attained: "\<exists>zs. subseq zs xs \<and> subseq zs ys \<and> length zs = lcs_ref xs ys"
proof (induction xs ys rule: lcs_ref.induct)
  case (1 x xs y ys)
  show ?case
  proof (cases "x = y")
    case True
    then obtain zs where "subseq zs xs" "subseq zs ys" "length zs = lcs_ref xs ys" using 1(1) by blast
    then show ?thesis using True by (intro exI[of _ "x # zs"]) simp
  next
    case False
    obtain zs zs' where z: "subseq zs xs" "subseq zs (y # ys)" "length zs = lcs_ref xs (y # ys)"
      "subseq zs' (x # xs)" "subseq zs' ys" "length zs' = lcs_ref (x # xs) ys" using 1(2,3)[OF False] by blast
    then show ?thesis using False
      by (cases "lcs_ref (x # xs) ys \<le> lcs_ref xs (y # ys)") (auto intro: exI[of _ zs] exI[of _ zs'])
  qed
qed auto

lemma subseq_revI: "subseq xs ys \<Longrightarrow> subseq (rev xs) (rev ys)"
proof (induction xs ys rule: list_emb.induct)
  case (list_emb_Cons xs ys y)
  then show ?case using list_emb_prefix by auto
next
  case (list_emb_Cons2 x y xs ys)
  then show ?case by (simp add: list_emb_append_mono)
qed simp

lemma subseq_rev: "subseq (rev xs) (rev ys) = subseq xs ys"
  using subseq_revI[of xs ys] subseq_revI[of "rev xs" "rev ys"] by auto

text \<open>C25. The table computes the length of a longest common subsequence: one of that length exists and
  none is longer.\<close>

theorem longestCommonSubsequence_correct:
  "(\<exists>zs. subseq zs seq1 \<and> subseq zs seq2 \<and> length zs = longestCommonSubsequence seq1 seq2)
   \<and> Max (length ` {zs. subseq zs seq1 \<and> subseq zs seq2}) = longestCommonSubsequence seq1 seq2"
proof -
  have l: "longestCommonSubsequence seq1 seq2 = lcs_ref (rev seq1) (rev seq2)"
    by (simp add: longestCommonSubsequence_L L_def)
  obtain zs where "subseq zs (rev seq1)" "subseq zs (rev seq2)" "length zs = lcs_ref (rev seq1) (rev seq2)"
    using lcs_ref_attained by blast
  then have a: "subseq (rev zs) seq1" "subseq (rev zs) seq2" "length (rev zs) = longestCommonSubsequence seq1 seq2"
    using l subseq_rev[of zs "rev seq1"] subseq_rev[of zs "rev seq2"] subseq_rev[of "rev zs" seq1] subseq_rev[of "rev zs" seq2] by simp_all
  have u: "length ws \<le> longestCommonSubsequence seq1 seq2" if "subseq ws seq1" "subseq ws seq2" for ws
    using lcs_ref_upper[of "rev ws" "rev seq1" "rev seq2"] that l by (simp add: subseq_rev)
  have f: "finite (length ` {zs. subseq zs seq1 \<and> subseq zs seq2})"
    by (rule finite_subset[of _ "{0..longestCommonSubsequence seq1 seq2}"]) (use u in auto)
  have "Max (length ` {zs. subseq zs seq1 \<and> subseq zs seq2}) = longestCommonSubsequence seq1 seq2"
    by (rule Max_eqI[OF f]) (use u a in \<open>auto intro: image_eqI[of _ _ "rev zs"]\<close>)
  then show ?thesis using a by blast
qed

text \<open>\<open>strings.Fields\<close>.\<close>

fun fields_from :: "gostr \<Rightarrow> gostr \<Rightarrow> gostr list" where
  "fields_from w [] = (if w = [] then [] else [rev w])"
| "fields_from w (r # rs) = (if is_space r then (if w = [] then [] else [rev w]) @ fields_from [] rs else fields_from (r # w) rs)"

text \<open>\<open>None\<close> is the NaN of a division of zero by zero.\<close>

definition Similarity :: "gostr \<Rightarrow> gostr \<Rightarrow> real option" where
  "Similarity str1 str2 =
     (if str1 = str2 then Some 1
      else if str1 = [] \<or> str2 = [] then Some 0
      else let words1 = fields_from [] str1; words2 = fields_from [] str2
           in if length words1 + length words2 = 0 then None
              else Some (real (2 * longestCommonSubsequence words1 words2) / real (length words1 + length words2)))"

text \<open>Two different strings of spaces have no similarity, not 0 or 1.\<close>

lemma Similarity_blank: "Similarity [32] [32, 32] = None"
  by (simp add: Similarity_def is_space_def)

subsection \<open>UTF-8\<close>

text \<open>\<open>utf8.DecodeRune\<close> on a non-empty slice of bytes: whether the first byte is invalid, and the size.\<close>

definition cont :: "nat \<Rightarrow> bool" where
  "cont b \<longleftrightarrow> 0x80 \<le> b \<and> b \<le> 0xBF"

definition DecodeRune :: "nat list \<Rightarrow> bool \<times> nat" where
  "DecodeRune p =
     (let n = length p; b0 = p ! 0; b1 = p ! 1; b2 = p ! 2; b3 = p ! 3
      in if b0 < 0x80 then (False, 1)
         else if 0xC2 \<le> b0 \<and> b0 \<le> 0xDF
         then (if 2 \<le> n \<and> cont b1 then (False, 2) else (True, 1))
         else if 0xE0 \<le> b0 \<and> b0 \<le> 0xEF
         then (if 3 \<le> n \<and> (if b0 = 0xE0 then 0xA0 \<le> b1 \<and> b1 \<le> 0xBF else if b0 = 0xED then 0x80 \<le> b1 \<and> b1 \<le> 0x9F else cont b1)
                 \<and> cont b2 then (False, 3) else (True, 1))
         else if 0xF0 \<le> b0 \<and> b0 \<le> 0xF4
         then (if 4 \<le> n \<and> (if b0 = 0xF0 then 0x90 \<le> b1 \<and> b1 \<le> 0xBF else if b0 = 0xF4 then 0x80 \<le> b1 \<and> b1 \<le> 0x8F else cont b1)
                 \<and> cont b2 \<and> cont b3 then (False, 4) else (True, 1))
         else (True, 1))"

lemma DecodeRune_size: "p \<noteq> [] \<Longrightarrow> 0 < snd (DecodeRune p) \<and> snd (DecodeRune p) \<le> length p"
  by (cases p) (auto simp: DecodeRune_def Let_def)

lemma sanitize_step: "i < length data \<Longrightarrow> (bad, sz) = DecodeRune (drop i data) \<Longrightarrow> length data - (i + sz) < length data - i"
  using DecodeRune_size[of "drop i data"] by (metis diff_less_mono2 drop_eq_Nil2 less_add_same_cancel1 not_le snd_conv)

text \<open>The loop, from index \<open>i\<close>.\<close>

function sanitize_loop :: "nat \<Rightarrow> nat list \<Rightarrow> nat list" where
  "sanitize_loop i data =
     (if i < length data
      then case DecodeRune (drop i data) of
             (bad, sz) \<Rightarrow> sanitize_loop (i + sz) (if bad then data[i := 63] else data)
      else data)"
  by pat_completeness auto
termination
  by (relation "measure (\<lambda>(i, data). length data - i)") (use sanitize_step in auto)

declare sanitize_loop.simps [simp del]

definition Sanitize :: "nat list \<Rightarrow> nat list" where
  "Sanitize data = sanitize_loop 0 data"

text \<open>The loop only looks ahead, at bytes it has not changed.\<close>

function san :: "nat list \<Rightarrow> nat list" where
  "san p = (if p = [] then []
     else (if fst (DecodeRune p) then [63] else take (snd (DecodeRune p)) p) @ san (drop (snd (DecodeRune p)) p))"
  by pat_completeness auto
termination
  by (relation "measure length") (use DecodeRune_size in auto)

declare san.simps [simp del]

lemma DecodeRune_bad: "fst (DecodeRune p) \<Longrightarrow> snd (DecodeRune p) = 1"
  by (auto simp: DecodeRune_def Let_def split: if_splits)

lemma sanitize_loop_san: "i \<le> length data \<Longrightarrow> sanitize_loop i data = take i data @ san (drop i data)"
proof (induction i data rule: sanitize_loop.induct)
  case (1 i data)
  show ?case
  proof (cases "i < length data")
    case True
    obtain bad sz where d: "DecodeRune (drop i data) = (bad, sz)" by (cases "DecodeRune (drop i data)")
    have sz: "0 < sz" "i + sz \<le> length data" using DecodeRune_size[of "drop i data"] d True by auto
    let ?data = "if bad then data[i := 63] else data"
    have "sanitize_loop i data = sanitize_loop (i + sz) ?data" by (subst sanitize_loop.simps) (simp add: d True)
    also have "\<dots> = take (i + sz) ?data @ san (drop (i + sz) ?data)"
      using 1(1)[OF True d[symmetric]] sz by simp
    also have "\<dots> = take i data @ san (drop i data)"
    proof (cases bad)
      case True
      then have "sz = 1" using DecodeRune_bad[of "drop i data"] d by simp
      then show ?thesis using True d \<open>i < length data\<close> by (subst (2) san.simps) (simp add: take_Suc_conv_app_nth add.commute)
    next
      case False
      then show ?thesis using d \<open>i < length data\<close> by (subst (2) san.simps) (simp add: take_add add.commute)
    qed
    finally show ?thesis .
  next
    case False
    then show ?thesis using 1(2) by (subst sanitize_loop.simps, subst san.simps) simp
  qed
qed

lemma Sanitize_san: "Sanitize data = san data"
  by (simp add: Sanitize_def sanitize_loop_san)

text \<open>The encoding of a code point, and which code points have one.\<close>

definition scalar :: "nat \<Rightarrow> bool" where
  "scalar cp \<longleftrightarrow> cp < 0x110000 \<and> \<not> (0xD800 \<le> cp \<and> cp \<le> 0xDFFF)"

definition encode :: "nat \<Rightarrow> nat list" where
  "encode cp =
     (if cp < 0x80 then [cp]
      else if cp < 0x800 then [0xC0 + cp div 64, 0x80 + cp mod 64]
      else if cp < 0x10000 then [0xE0 + cp div 4096, 0x80 + cp div 64 mod 64, 0x80 + cp mod 64]
      else [0xF0 + cp div 262144, 0x80 + cp div 4096 mod 64, 0x80 + cp div 64 mod 64, 0x80 + cp mod 64])"

lemma decode_encode2:
  assumes "0xC2 \<le> b0" "b0 \<le> 0xDF" "cont b1"
  shows "\<exists>cp. scalar cp \<and> [b0, b1] = encode cp"
proof -
  obtain x y where b: "b0 = 0xC0 + x" "b1 = 0x80 + y" "2 \<le> x" "x < 32" "y < 64"
    using assms by (auto simp: cont_def dest!: le_Suc_ex)
  show ?thesis by (rule exI[of _ "x * 64 + y"]) (use b in \<open>simp add: scalar_def encode_def\<close>)
qed

lemma digit_div: "(z::nat) < 64 \<Longrightarrow> (a * 64 + z) div 64 = a" "(z::nat) < 64 \<Longrightarrow> (a * 64 + z) mod 64 = z"
  by simp_all

lemma mixed3: "(y::nat) < 64 \<Longrightarrow> z < 64 \<Longrightarrow> (x * 4096 + y * 64 + z) div 64 mod 64 = y \<and> (x * 4096 + y * 64 + z) mod 64 = z"
  using digit_div[of z "x * 64 + y"] digit_div[of y x] by (simp add: mult.commute[of x])

lemma decode_encode3:
  assumes "0xE0 \<le> b0" "b0 \<le> 0xEF" "cont b1" "cont b2" "b0 = 0xE0 \<Longrightarrow> 0xA0 \<le> b1" "b0 = 0xED \<Longrightarrow> b1 \<le> 0x9F"
  shows "\<exists>cp. scalar cp \<and> [b0, b1, b2] = encode cp"
proof -
  obtain x y z where b: "b0 = 0xE0 + x" "b1 = 0x80 + y" "b2 = 0x80 + z" "x < 16" "y < 64" "z < 64"
    using assms(1-4) by (auto simp: cont_def dest!: le_Suc_ex)
  have c: "x = 0 \<Longrightarrow> 32 \<le> y" "x = 13 \<Longrightarrow> y < 32" using assms(5,6) b by auto
  let ?cp = "x * 4096 + y * 64 + z"
  have r: "0x800 \<le> ?cp" "?cp < 0x10000" using b c(1) by (cases "x = 0"; simp)+
  have s: "\<not> (0xD800 \<le> ?cp \<and> ?cp \<le> 0xDFFF)"
  proof
    assume a: "0xD800 \<le> ?cp \<and> ?cp \<le> 0xDFFF"
    then have "x = 13" using b by linarith
    then show False using c(2) a b by linarith
  qed
  have d: "?cp div 4096 = x" "?cp div 64 mod 64 = y" "?cp mod 64 = z"
    using b mixed3[of y z x] by simp_all
  show ?thesis by (rule exI[of _ ?cp]) (use r s d b in \<open>simp add: scalar_def encode_def\<close>)
qed

lemma mixed4:
  "(v::nat) < 64 \<Longrightarrow> y < 64 \<Longrightarrow> z < 64 \<Longrightarrow> (x * 262144 + v * 4096 + y * 64 + z) div 4096 mod 64 = v
     \<and> (x * 262144 + v * 4096 + y * 64 + z) div 262144 = x \<and> (x * 262144 + v * 4096 + y * 64 + z) div 64 mod 64 = y
     \<and> (x * 262144 + v * 4096 + y * 64 + z) mod 64 = z"
proof -
  assume a: "v < 64" "y < 64" "z < 64"
  have l: "y * 64 + z < 4096" using a by linarith
  have "x * 262144 + v * 4096 + y * 64 + z = (y * 64 + z) + (x * 64 + v) * 4096" by (simp add: algebra_simps)
  then have d: "(x * 262144 + v * 4096 + y * 64 + z) div 4096 = x * 64 + v"
    using l by (metis add.commute add_0 div_less div_mult_self3 zero_neq_numeral)
  have "v * 4096 + y * 64 + z < 262144" using a by linarith
  then have "(x * 262144 + v * 4096 + y * 64 + z) div 262144 = x" by simp
  then show ?thesis using d mixed3[of y z "x * 64 + v"] a by (simp add: algebra_simps)
qed

lemma decode_encode4:
  assumes "0xF0 \<le> b0" "b0 \<le> 0xF4" "cont b1" "cont b2" "cont b3" "b0 = 0xF0 \<Longrightarrow> 0x90 \<le> b1" "b0 = 0xF4 \<Longrightarrow> b1 \<le> 0x8F"
  shows "\<exists>cp. scalar cp \<and> [b0, b1, b2, b3] = encode cp"
proof -
  obtain x v y z where b: "b0 = 0xF0 + x" "b1 = 0x80 + v" "b2 = 0x80 + y" "b3 = 0x80 + z" "x < 5" "v < 64" "y < 64" "z < 64"
    using assms(1-5) by (auto simp: cont_def dest!: le_Suc_ex)
  have c: "x = 0 \<Longrightarrow> 16 \<le> v" "x = 4 \<Longrightarrow> v < 16" using assms(6,7) b by auto
  let ?cp = "x * 262144 + v * 4096 + y * 64 + z"
  have r: "0x10000 \<le> ?cp" using c(1) by (cases "x = 0"; simp)
  have s: "?cp < 0x110000" using c(2) b by (cases "x = 4"; simp)
  show ?thesis by (rule exI[of _ ?cp]) (use r s b mixed4[of v y z x] in \<open>simp add: scalar_def encode_def\<close>)
qed

text \<open>A valid sequence at the head is the encoding of a code point, and the encoding of a code point is valid.\<close>

lemma DecodeRune_good:
  assumes "p \<noteq> []" "\<not> fst (DecodeRune p)"
  shows "\<exists>cp. scalar cp \<and> take (snd (DecodeRune p)) p = encode cp"
proof -
  obtain b0 q where p: "p = b0 # q" using assms(1) by (cases p) auto
  show ?thesis
  proof (cases "b0 < 0x80")
    case True
    then show ?thesis by (intro exI[of _ b0]) (simp add: p DecodeRune_def encode_def scalar_def)
  next
    case ge: False
    obtain b1 q1 where q: "q = b1 # q1" using assms(2) ge by (cases q) (auto simp: p DecodeRune_def Let_def split: if_splits)
    show ?thesis
    proof (cases "b0 \<le> 0xDF")
      case True
      then have "0xC2 \<le> b0 \<and> cont b1" using assms(2) ge by (auto simp: p q DecodeRune_def Let_def split: if_splits)
      then show ?thesis using decode_encode2[of b0 b1] True ge by (simp add: p q DecodeRune_def)
    next
      case g2: False
      obtain b2 q2 where q1: "q1 = b2 # q2" using assms(2) ge g2 by (cases q1) (auto simp: p q DecodeRune_def Let_def split: if_splits)
      show ?thesis
      proof (cases "b0 \<le> 0xEF")
        case True
        then have "cont b1 \<and> cont b2 \<and> (b0 = 0xE0 \<longrightarrow> 0xA0 \<le> b1) \<and> (b0 = 0xED \<longrightarrow> b1 \<le> 0x9F)"
          using assms(2) ge g2 by (auto simp: p q q1 DecodeRune_def Let_def cont_def split: if_splits)
        then show ?thesis using decode_encode3[of b0 b1 b2] True ge g2 assms(2)
          by (simp add: p q q1 DecodeRune_def Let_def split: if_splits)
      next
        case g3: False
        obtain b3 q3 where q2: "q2 = b3 # q3" using assms(2) ge g2 g3 by (cases q2) (auto simp: p q q1 DecodeRune_def Let_def split: if_splits)
        have "b0 \<le> 0xF4 \<and> cont b1 \<and> cont b2 \<and> cont b3 \<and> (b0 = 0xF0 \<longrightarrow> 0x90 \<le> b1) \<and> (b0 = 0xF4 \<longrightarrow> b1 \<le> 0x8F)"
          using assms(2) ge g2 g3 by (auto simp: p q q1 q2 DecodeRune_def Let_def cont_def split: if_splits)
        then show ?thesis using decode_encode4[of b0 b1 b2 b3] ge g2 g3 assms(2)
          by (simp add: p q q1 q2 DecodeRune_def Let_def split: if_splits)
      qed
    qed
  qed
qed

lemma cont_digit: "cont (0x80 + n mod 64)"
  using mod_less_divisor[of 64 n] by (simp add: cont_def del: mod_less_divisor)

lemma DecodeRune_encode:
  assumes "scalar cp"
  shows "DecodeRune (encode cp @ rest) = (False, length (encode cp))"
proof -
  consider "cp < 0x80" | "0x80 \<le> cp" "cp < 0x800" | "0x800 \<le> cp" "cp < 0x10000" | "0x10000 \<le> cp" by linarith
  then show ?thesis
  proof cases
    case 1
    then show ?thesis by (simp add: encode_def DecodeRune_def)
  next
    case 2
    then have "2 \<le> cp div 64" "cp div 64 \<le> 31" by linarith+
    then show ?thesis using 2 cont_digit[of cp] by (simp add: encode_def DecodeRune_def)
  next
    case 3
    define x y where "x = cp div 4096" and "y = cp div 64 mod 64"
    have y: "y = cp div 64 - 64 * x" "y < 64" unfolding x_def y_def by (simp_all add: minus_mult_div_eq_mod[symmetric] div_mult2_eq[symmetric])
    have b: "x < 16" "x = 0 \<Longrightarrow> 32 \<le> y" "x = 13 \<Longrightarrow> y < 32"
      using 3 assms unfolding scalar_def y(1) x_def by linarith+
    then show ?thesis using 3 cont_digit[of cp] y(2)
      by (auto simp: encode_def DecodeRune_def Let_def cont_def x_def[symmetric] y_def[symmetric])
  next
    case 4
    define x y where "x = cp div 262144" and "y = cp div 4096 mod 64"
    have y: "y = cp div 4096 - 64 * x" "y < 64" unfolding x_def y_def by (simp_all add: minus_mult_div_eq_mod[symmetric] div_mult2_eq[symmetric])
    have b: "x < 5" "x = 0 \<Longrightarrow> 16 \<le> y" "x = 4 \<Longrightarrow> y < 16"
      using 4 assms unfolding scalar_def y(1) x_def by linarith+
    then show ?thesis using 4 cont_digit[of cp] cont_digit[of "cp div 64"] y(2)
      by (auto simp: encode_def DecodeRune_def Let_def cont_def x_def[symmetric] y_def[symmetric])
  qed
qed

lemma encode_nonempty: "encode cp \<noteq> []"
  by (simp add: encode_def)

lemma san_valid: "list_all scalar cps \<Longrightarrow> san (concat (map encode cps)) = concat (map encode cps)"
proof (induction cps)
  case (Cons cp cps)
  then have d: "DecodeRune (encode cp @ concat (map encode cps)) = (False, length (encode cp))"
    by (simp add: DecodeRune_encode)
  show ?case using Cons by (subst san.simps) (simp add: d encode_nonempty)
qed (simp add: san.simps)

lemma san_encodes: "\<exists>cps. list_all scalar cps \<and> san p = concat (map encode cps)"
proof (induction p rule: san.induct)
  case (1 p)
  show ?case
  proof (cases "p = []")
    case True
    then show ?thesis by (intro exI[of _ "[]"]) (simp add: san.simps)
  next
    case False
    obtain cps where cps: "list_all scalar cps" "san (drop (snd (DecodeRune p)) p) = concat (map encode cps)"
      using 1 False by blast
    obtain cp where cp: "scalar cp" "(if fst (DecodeRune p) then [63] else take (snd (DecodeRune p)) p) = encode cp"
    proof (cases "fst (DecodeRune p)")
      case True
      then show ?thesis using that[of 63] by (simp add: scalar_def encode_def)
    qed (use that DecodeRune_good[OF False] in auto)
    then have "san p = concat (map encode (cp # cps))" using cps False by (subst san.simps) simp
    then show ?thesis using cp cps by (intro exI[of _ "cp # cps"]) simp
  qed
qed

lemma san_bytes: "list_all2 (\<lambda>b b'. b' = b \<or> b' = 63) p (san p)"
proof (induction p rule: san.induct)
  case (1 p)
  show ?case
  proof (cases "p = []")
    case False
    let ?h = "if fst (DecodeRune p) then [63] else take (snd (DecodeRune p)) p"
    have "list_all2 (\<lambda>b b'. b' = b \<or> b' = 63) (take (snd (DecodeRune p)) p) ?h"
      using False DecodeRune_bad[of p] by (cases p) (auto simp: list_all2_refl)
    then have "list_all2 (\<lambda>b b'. b' = b \<or> b' = 63) (take (snd (DecodeRune p)) p @ drop (snd (DecodeRune p)) p)
       (?h @ san (drop (snd (DecodeRune p)) p))" using 1 False by (intro list_all2_appendI) auto
    then show ?thesis using False by (subst san.simps) simp
  qed (simp add: san.simps)
qed

text \<open>C26. \<open>Sanitize\<close> leaves a valid UTF-8 text, whatever the bytes were, keeps the length, changes a byte only to a
  question mark, and changes nothing exactly when the bytes were valid (the encoding of a list of code points).\<close>

theorem Sanitize_valid:
  "(\<exists>cps. list_all scalar cps \<and> Sanitize data = concat (map encode cps))
   \<and> list_all2 (\<lambda>b b'. b' = b \<or> b' = 63) data (Sanitize data)
   \<and> (Sanitize data = data) = (\<exists>cps. list_all scalar cps \<and> data = concat (map encode cps))"
  using san_encodes[of data] san_bytes[of data] san_valid unfolding Sanitize_san by metis

subsection \<open>Maps\<close>

text \<open>A value of type \<open>any\<close>, as \<open>MapLookup\<close> looks at it.\<close>

datatype 'a any = MapVal "gostr \<Rightarrow> 'a any option" | OtherVal 'a

fun MapLookup :: "(gostr \<Rightarrow> 'a any option) \<Rightarrow> gostr list \<Rightarrow> 'a any option" where
  "MapLookup mapToLookup [] = None"
| "MapLookup mapToLookup (key # keys) =
     (case mapToLookup key of
        None \<Rightarrow> None
      | Some val \<Rightarrow> (if keys = [] then Some val
                     else case val of MapVal nextMap \<Rightarrow> MapLookup nextMap keys | OtherVal x \<Rightarrow> None))"

lemma MapLookup_path:
  "ks' \<noteq> [] \<Longrightarrow> MapLookup m (ks @ ks') = (if ks = [] then MapLookup m ks'
     else case MapLookup m ks of Some (MapVal m') \<Rightarrow> MapLookup m' ks' | _ \<Rightarrow> None)"
proof (induction m ks rule: MapLookup.induct)
  case (2 m key keys)
  then show ?case by (cases "keys = []") (auto split: option.splits any.splits)
qed simp

text \<open>\<open>ReadOnlyMap\<close>: \<open>None\<close> is the nil map, which \<open>maps.Clone\<close> keeps nil and which panics when an
  entry is assigned to it.\<close>

record ('k, 'v) ReadOnlyMap =
  rom_data :: "('k \<rightharpoonup> 'v) option"

definition NewReadOnlyMap :: "('k \<rightharpoonup> 'v) option \<Rightarrow> ('k, 'v) ReadOnlyMap" where
  "NewReadOnlyMap data = \<lparr>rom_data = data\<rparr>"

definition lookup_nil :: "('k \<rightharpoonup> 'v) option \<Rightarrow> 'k \<Rightarrow> 'v option" where
  "lookup_nil d k = (case d of None \<Rightarrow> None | Some m \<Rightarrow> m k)"

definition rom_Get :: "('k, 'v) ReadOnlyMap \<Rightarrow> 'k \<Rightarrow> 'v option" where
  "rom_Get r key = lookup_nil (rom_data r) key"

definition rom_Has :: "('k, 'v) ReadOnlyMap \<Rightarrow> 'k \<Rightarrow> bool" where
  "rom_Has r key = (lookup_nil (rom_data r) key \<noteq> None)"

definition rom_Len :: "('k, 'v) ReadOnlyMap \<Rightarrow> nat" where
  "rom_Len r = card (dom (lookup_nil (rom_data r)))"

text \<open>\<open>maps.Copy\<close> and the result of the clone; \<open>None\<close> is the panic.\<close>

definition rom_Append :: "('k, 'v) ReadOnlyMap \<Rightarrow> ('k \<rightharpoonup> 'v) \<Rightarrow> ('k, 'v) ReadOnlyMap option" where
  "rom_Append r entries =
     (case rom_data r of
        Some m \<Rightarrow> Some \<lparr>rom_data = Some (m ++ entries)\<rparr>
      | None \<Rightarrow> (if entries = Map.empty then Some \<lparr>rom_data = None\<rparr> else None))"

definition rom_Remove :: "('k, 'v) ReadOnlyMap \<Rightarrow> 'k list \<Rightarrow> ('k, 'v) ReadOnlyMap" where
  "rom_Remove r entries = \<lparr>rom_data = map_option (\<lambda>m. fold (\<lambda>k m. m(k := None)) entries m) (rom_data r)\<rparr>"

lemma fold_delete: "fold (\<lambda>k m. m(k := None)) ks m k = (if k \<in> set ks then None else m k)"
  by (induction ks arbitrary: m) auto

lemma rom_Remove_Get: "rom_Get (rom_Remove r ks) k = (if k \<in> set ks then None else rom_Get r k)"
  by (auto simp: rom_Get_def rom_Remove_def lookup_nil_def fold_delete split: option.splits)

lemma lookup_nil_None [simp]: "lookup_nil None = Map.empty"
  by (simp add: lookup_nil_def fun_eq_iff)

text \<open>\<open>Append\<close> on a non-nil map answers the appended entries first and the old ones otherwise, and on a map
  made from nil it panics for any entry, although \<open>Get\<close> and \<open>Len\<close> work there.\<close>

lemma rom_Append_nil:
  "map_option (\<lambda>r. rom_Get r k) (rom_Append (NewReadOnlyMap (Some m)) entries)
     = Some (case entries k of None \<Rightarrow> m k | Some v \<Rightarrow> Some v)
   \<and> rom_Append (NewReadOnlyMap None) (entries(k \<mapsto> v)) = None
   \<and> rom_Get (NewReadOnlyMap None) k = None \<and> rom_Len (NewReadOnlyMap None :: ('k, 'v) ReadOnlyMap) = 0"
  for k :: 'k and v :: 'v
  by (auto simp: rom_Append_def NewReadOnlyMap_def rom_Get_def rom_Len_def map_add_def) (simp_all add: lookup_nil_def map_add_def)

subsection \<open>Memoization\<close>

record 'r memo =
  result :: "'r option"
  called :: bool

definition Memoize :: "'r memo" where
  "Memoize = \<lparr>result = None, called = False\<rparr>"

text \<open>A call of the returned closure: \<open>f\<close> runs on the world \<open>w\<close>.\<close>

definition memo_call :: "('w \<Rightarrow> 'r \<times> 'w) \<Rightarrow> 'r memo \<times> 'w \<Rightarrow> 'r option \<times> 'r memo \<times> 'w" where
  "memo_call f s =
     (let (st, w) = s
      in if called st then (result st, st, w)
         else let (r, w') = f w in (Some r, \<lparr>result = Some r, called = True\<rparr>, w'))"

text \<open>The results of \<open>n\<close> calls in a row, and the world they leave.\<close>

fun memo_calls :: "('w \<Rightarrow> 'r \<times> 'w) \<Rightarrow> nat \<Rightarrow> 'r memo \<times> 'w \<Rightarrow> 'r option list \<times> 'w" where
  "memo_calls f 0 s = ([], snd s)"
| "memo_calls f (Suc n) s = (let (r, s') = memo_call f s; (rs, w) = memo_calls f n s' in (r # rs, w))"

lemma memo_calls_called: "memo_calls f n (\<lparr>result = r, called = True\<rparr>, w) = (replicate n r, w)"
  by (induction n) (simp_all add: memo_call_def)

lemma Memoize_once:
  "memo_calls f (Suc n) (Memoize, w) = (replicate (Suc n) (Some (fst (f w))), snd (f w))"
  by (simp add: memo_call_def Memoize_def memo_calls_called split: prod.splits)

end
