(* ===== verification/Eager_Group.thy ===== *)
theory Eager_Group
  imports Kit_Prelude
begin

text \<open>
  The rest of the \<open>sync\<close> package: the eager group of goroutines (\<open>eagergroup.go\<close>), the function that runs at
  most once per interval (\<open>once_every.go\<close>) and the call with a timeout (\<open>timeout.go\<close>).

  A group is its context (\<open>ctx.Err()\<close>), the semaphore channel (its capacity and the number of tokens
  in it), the counter of the wait group and the error behind its \<open>sync.Once\<close>. A call of \<open>Go\<close> and the
  goroutine it starts go through the phases of a task, one atomic step at a time.
\<close>

subsection \<open>The eager group\<close>

datatype ctx_error = Canceled | DeadlineExceeded

datatype 'e group_error = CtxErr ctx_error | FnErr 'e

record 'e group =
  ctx_err :: "ctx_error option"
  sem_cap :: "nat option"
  sem_len :: nat
  wg :: nat
  once_done :: bool
  group_err :: "'e group_error option"

definition NewEagerGroup :: "ctx_error option \<Rightarrow> int \<Rightarrow> 'e group" where
  "NewEagerGroup ctx lim =
     \<lparr>ctx_err = ctx, sem_cap = (if lim > 0 then Some (nat lim) else None), sem_len = 0, wg = 0,
      once_done = False, group_err = None\<rparr>"

definition cancel :: "'e group \<Rightarrow> 'e group" where
  "cancel g = g\<lparr>ctx_err := (case ctx_err g of None \<Rightarrow> Some Canceled | Some c \<Rightarrow> Some c)\<rparr>"

text \<open>The body of \<open>errOnce.Do\<close>.\<close>

definition errOnce :: "'e group_error \<Rightarrow> 'e group \<Rightarrow> 'e group" where
  "errOnce e g = (if once_done g then g else cancel (g\<lparr>once_done := True, group_err := Some e\<rparr>))"

text \<open>How a function ends: it returned nil, it returned an error, or it was skipped because the context was
  done. A task is rejected when \<open>Go\<close> returns without starting a goroutine.\<close>

datatype 'e ending = Completed | Failed 'e | Skipped ctx_error

datatype 'e task = Fresh | Blocked | Spawned | Running | Leaving "'e ending" | Finished "'e ending" | Rejected ctx_error

text \<open>\<open>Go\<close> up to the semaphore, and the two arms of its \<open>select\<close>.\<close>

definition spawn :: "'e group \<Rightarrow> 'e task \<times> 'e group" where
  "spawn g = (Spawned, g\<lparr>wg := wg g + 1\<rparr>)"

definition Go_check :: "'e group \<Rightarrow> 'e task \<times> 'e group" where
  "Go_check g =
     (case ctx_err g of
        Some c \<Rightarrow> (Rejected c, errOnce (CtxErr c) g)
      | None \<Rightarrow> if sem_cap g \<noteq> None then (Blocked, g) else spawn g)"

definition Go_done :: "'e group \<Rightarrow> ('e task \<times> 'e group) option" where
  "Go_done g = (case ctx_err g of None \<Rightarrow> None | Some c \<Rightarrow> Some (Rejected c, errOnce (CtxErr c) g))"

definition Go_send :: "'e group \<Rightarrow> ('e task \<times> 'e group) option" where
  "Go_send g =
     (case sem_cap g of
        None \<Rightarrow> None
      | Some n \<Rightarrow> if sem_len g < n then Some (spawn (g\<lparr>sem_len := sem_len g + 1\<rparr>)) else None)"

text \<open>The goroutine: it looks at the context, runs \<open>f\<close> (\<open>r\<close> is its result), and gives the token back.\<close>

definition routine_start :: "'e group \<Rightarrow> 'e task \<times> 'e group" where
  "routine_start g =
     (case ctx_err g of
        None \<Rightarrow> (Running, g)
      | Some c \<Rightarrow> (Leaving (Skipped c), errOnce (CtxErr c) g))"

definition routine_end :: "'e option \<Rightarrow> 'e group \<Rightarrow> 'e task \<times> 'e group" where
  "routine_end r g = (case r of None \<Rightarrow> (Leaving Completed, g) | Some e \<Rightarrow> (Leaving (Failed e), errOnce (FnErr e) g))"

definition routine_release :: "'e group \<Rightarrow> 'e group" where
  "routine_release g = g\<lparr>sem_len := (if sem_cap g \<noteq> None then sem_len g - 1 else sem_len g), wg := wg g - 1\<rparr>"

text \<open>\<open>Wait\<close>, once the wait group lets it through (\<open>None\<close>: it blocks).\<close>

definition Wait :: "'e group \<Rightarrow> ('e group_error option \<times> 'e group) option" where
  "Wait g = (if wg g = 0 then Some (group_err g, cancel g) else None)"

record 'e system =
  grp :: "'e group"
  tasks :: "nat \<Rightarrow> 'e task"

definition put :: "nat \<Rightarrow> 'e task \<times> 'e group \<Rightarrow> 'e system \<Rightarrow> 'e system" where
  "put i r s = \<lparr>grp = snd r, tasks = (tasks s)(i := fst r)\<rparr>"

inductive group_step :: "'e system \<Rightarrow> 'e system \<Rightarrow> bool" where
  go_check: "tasks s i = Fresh \<Longrightarrow> group_step s (put i (Go_check (grp s)) s)"
| go_done: "tasks s i = Blocked \<Longrightarrow> Go_done (grp s) = Some r \<Longrightarrow> group_step s (put i r s)"
| go_send: "tasks s i = Blocked \<Longrightarrow> Go_send (grp s) = Some r \<Longrightarrow> group_step s (put i r s)"
| start: "tasks s i = Spawned \<Longrightarrow> group_step s (put i (routine_start (grp s)) s)"
| ends: "tasks s i = Running \<Longrightarrow> group_step s (put i (routine_end r (grp s)) s)"
| release: "tasks s i = Leaving e \<Longrightarrow> group_step s (put i (Finished e, routine_release (grp s)) s)"
| wait: "Wait (grp s) = Some (r, g) \<Longrightarrow> group_step s (s\<lparr>grp := g\<rparr>)"
| parent: "ctx_err (grp s) = None \<Longrightarrow> group_step s (s\<lparr>grp := (grp s)\<lparr>ctx_err := Some c\<rparr>\<rparr>)"

inductive_cases group_stepE: "group_step s s'"

definition initial :: "int \<Rightarrow> 'e system \<Rightarrow> bool" where
  "initial lim s \<longleftrightarrow> (\<exists>ctx. s = \<lparr>grp = NewEagerGroup ctx lim, tasks = (\<lambda>_. Fresh)\<rparr>)"

fun busy :: "'e task \<Rightarrow> bool" where
  "busy Spawned = True"
| "busy Running = True"
| "busy (Leaving e) = True"
| "busy _ = False"

definition active :: "'e system \<Rightarrow> nat set" where
  "active s = {i. busy (tasks s i)}"

definition running :: "'e system \<Rightarrow> nat set" where
  "running s = {i. tasks s i = Running}"

text \<open>The error a task reports, if it does.\<close>

fun ending_error :: "'e ending \<Rightarrow> 'e group_error option" where
  "ending_error Completed = None"
| "ending_error (Failed e) = Some (FnErr e)"
| "ending_error (Skipped c) = Some (CtxErr c)"

fun task_error :: "'e task \<Rightarrow> 'e group_error option" where
  "task_error (Leaving e) = ending_error e"
| "task_error (Finished e) = ending_error e"
| "task_error (Rejected c) = Some (CtxErr c)"
| "task_error _ = None"

text \<open>The wait group and the semaphore count the active tasks; the error is that of a task that reported one.\<close>

definition count_ok :: "int \<Rightarrow> 'e system \<Rightarrow> bool" where
  "count_ok lim s \<longleftrightarrow> finite (active s) \<and> wg (grp s) = card (active s)
     \<and> sem_cap (grp s) = (if lim > 0 then Some (nat lim) else None)
     \<and> (lim > 0 \<longrightarrow> sem_len (grp s) = card (active s) \<and> int (card (active s)) \<le> lim)"

definition error_ok :: "'e system \<Rightarrow> bool" where
  "error_ok s \<longleftrightarrow> once_done (grp s) = (group_err (grp s) \<noteq> None)
     \<and> (case group_err (grp s) of
          None \<Rightarrow> (\<forall>i. task_error (tasks s i) = None)
        | Some e \<Rightarrow> ctx_err (grp s) \<noteq> None \<and> (\<exists>i. task_error (tasks s i) = Some e))"

definition group_ok :: "int \<Rightarrow> 'e system \<Rightarrow> bool" where
  "group_ok lim s \<longleftrightarrow> count_ok lim s \<and> error_ok s"

lemma active_put: "active (put i r s) = (if busy (fst r) then insert i (active s) else active s - {i})"
  by (auto simp: active_def put_def)

lemma put_sel [simp]: "grp (put i r s) = snd r" "tasks (put i r s) = (tasks s)(i := fst r)"
  by (simp_all add: put_def)

lemma errOnce_counts [simp]:
  "wg (errOnce e g) = wg g" "sem_cap (errOnce e g) = sem_cap g" "sem_len (errOnce e g) = sem_len g"
  by (simp_all add: errOnce_def cancel_def)

lemma cancel_sel [simp]:
  "wg (cancel g) = wg g" "sem_cap (cancel g) = sem_cap g" "sem_len (cancel g) = sem_len g"
  "once_done (cancel g) = once_done g" "group_err (cancel g) = group_err g" "ctx_err (cancel g) \<noteq> None" "\<exists>c. ctx_err (cancel g) = Some c"
  by (simp_all add: cancel_def split: option.split)

text \<open>A step of a task that neither enters nor leaves the active ones, that enters them, that leaves them.\<close>

lemma count_keep:
  "count_ok lim s \<Longrightarrow> busy (fst r) = busy (tasks s i) \<Longrightarrow> wg (snd r) = wg (grp s) \<Longrightarrow> sem_cap (snd r) = sem_cap (grp s)
   \<Longrightarrow> sem_len (snd r) = sem_len (grp s) \<Longrightarrow> count_ok lim (put i r s)"
proof -
  assume a: "count_ok lim s" "busy (fst r) = busy (tasks s i)" "wg (snd r) = wg (grp s)" "sem_cap (snd r) = sem_cap (grp s)"
    "sem_len (snd r) = sem_len (grp s)"
  then have "active (put i r s) = active s" by (auto simp: active_put active_def)
  then show ?thesis using a by (simp add: count_ok_def)
qed

lemma count_enter:
  assumes "count_ok lim s" "\<not> busy (tasks s i)" "lim > 0 \<Longrightarrow> sem_len (grp s) < nat lim"
  shows "count_ok lim (put i (spawn ((grp s)\<lparr>sem_len := sem_len (grp s) + (if lim > 0 then 1 else 0)\<rparr>)) s)"
proof -
  have "i \<notin> active s" using assms(2) by (simp add: active_def)
  then show ?thesis using assms(1,3) by (auto simp: count_ok_def active_put spawn_def)
qed

lemma count_leave:
  assumes "count_ok lim s" "busy (tasks s i)" "\<not> busy t"
  shows "count_ok lim (put i (t, routine_release (grp s)) s)"
proof -
  have i: "i \<in> active s" using assms(2) by (simp add: active_def)
  then have "card (active s - {i}) = card (active s) - 1" "0 < card (active s)"
    using assms(1) by (auto simp: count_ok_def card_gt_0_iff)
  then show ?thesis using assms(1,3) by (auto simp: count_ok_def active_put routine_release_def)
qed

text \<open>A step that reports no error, and one that does.\<close>

lemma error_keep:
  assumes "error_ok s" "task_error (fst r) = task_error (tasks s i)" "once_done (snd r) = once_done (grp s)"
    "group_err (snd r) = group_err (grp s)" "ctx_err (grp s) \<noteq> None \<Longrightarrow> ctx_err (snd r) \<noteq> None"
  shows "error_ok (put i r s)"
proof -
  have "task_error (((tasks s)(i := fst r)) j) = task_error (tasks s j)" for j using assms(2) by simp
  then show ?thesis using assms(1,3,4,5) by (simp add: error_ok_def split: option.splits del: fun_upd_apply)
qed

lemma error_report:
  assumes "error_ok s" "task_error (tasks s i) = None" "task_error t = Some e"
  shows "error_ok (put i (t, errOnce e (grp s)) s)"
proof (cases "group_err (grp s)")
  case None
  then show ?thesis using assms by (auto simp: error_ok_def errOnce_def)
next
  case (Some e')
  then obtain j where "task_error (tasks s j) = Some e'" "j \<noteq> i" using assms(1,2) by (fastforce simp: error_ok_def)
  then show ?thesis using assms Some by (auto simp: error_ok_def errOnce_def intro: exI[of _ j])
qed

lemma group_ok_initial: "initial lim s \<Longrightarrow> group_ok lim s"
  by (auto simp: initial_def group_ok_def count_ok_def error_ok_def NewEagerGroup_def active_def)

lemma group_ok_step:
  assumes "group_ok lim s" "group_step s s'"
  shows "group_ok lim s'"
  using assms(2)
proof cases
  case (go_check i)
  then show ?thesis
    using assms(1) count_enter[of lim s i]
    by (cases "ctx_err (grp s)"; cases "lim > 0")
       (auto simp: group_ok_def Go_check_def spawn_def count_ok_def[of lim s] intro!: count_keep error_keep error_report)
next
  case (go_done i r)
  then show ?thesis
    using assms(1) by (auto simp: group_ok_def Go_done_def intro!: count_keep error_report split: option.splits)
next
  case (go_send i r)
  then show ?thesis
    using assms(1) count_enter[of lim s i]
    by (auto simp: group_ok_def Go_send_def spawn_def count_ok_def[of lim s] intro!: error_keep split: option.splits if_splits)
next
  case (start i)
  then show ?thesis
    using assms(1) by (auto simp: group_ok_def routine_start_def intro!: count_keep error_keep error_report split: option.split)
next
  case (ends i r)
  then show ?thesis
    using assms(1) by (auto simp: group_ok_def routine_end_def intro!: count_keep error_keep error_report split: option.split)
next
  case (release i e)
  then show ?thesis
    using assms(1) count_leave[of lim s i "Finished e"] error_keep[of s "(Finished e, routine_release (grp s))" i]
    by (simp add: group_ok_def routine_release_def)
next
  case (wait r g)
  then show ?thesis
    using assms(1) by (auto simp: group_ok_def Wait_def count_ok_def error_ok_def active_def split: if_splits option.splits)
next
  case (parent c)
  then show ?thesis
    using assms(1) by (auto simp: group_ok_def count_ok_def error_ok_def active_def split: option.splits)
qed

interpretation eager: transition_system "initial lim" group_step "group_ok lim" for lim
  by unfold_locales (fact group_ok_initial group_ok_step)+

text \<open>However the calls of \<open>Go\<close>, the goroutines, \<open>Wait\<close> and a cancellation from outside interleave, at most
  \<open>limit\<close> functions run at a time (a limit below 1 is none), and a call that is blocked at the limit while
  no goroutine of the group is left can go on.\<close>

lemma eager_group_bound:
  assumes "initial lim s0" "group_step\<^sup>*\<^sup>* s0 s"
  shows "(0 < lim \<longrightarrow> int (card (running s)) \<le> lim) \<and> finite (running s)
    \<and> (0 < lim \<and> active s = {} \<longrightarrow> Go_send (grp s) \<noteq> None)"
proof -
  have c: "count_ok lim s" using eager.reach_inv[OF assms] by (simp add: group_ok_def)
  have "running s \<subseteq> active s" by (auto simp: running_def active_def)
  moreover from this have "card (running s) \<le> card (active s)" "finite (running s)"
    using c by (auto simp: count_ok_def intro: card_mono finite_subset)
  ultimately show ?thesis using c by (auto simp: count_ok_def Go_send_def)
qed

text \<open>C27. What \<open>Wait\<close> returns: nil exactly when every call of \<open>Go\<close> that did not block led to a function that ran
  and returned nil, and else the error of a task that failed, was skipped or was rejected.\<close>

theorem eager_group_wait:
  assumes "initial lim s0" "group_step\<^sup>*\<^sup>* s0 s" "Wait (grp s) = Some (r, g)"
  shows "(r = None) = (\<forall>i. tasks s i = Fresh \<or> tasks s i = Blocked \<or> tasks s i = Finished Completed)
    \<and> (\<forall>e. r = Some e \<longrightarrow> (\<exists>i. task_error (tasks s i) = Some e))"
proof -
  have c: "count_ok lim s" and e: "error_ok s" using eager.reach_inv[OF assms(1,2)] by (simp_all add: group_ok_def)
  have "active s = {}" and r: "r = group_err (grp s)"
    using assms(3) c by (auto simp: Wait_def count_ok_def split: if_splits)
  then have nb: "\<not> busy (tasks s i)" for i by (auto simp: active_def)
  have "(task_error (tasks s i) = None) = (tasks s i = Fresh \<or> tasks s i = Blocked \<or> tasks s i = Finished Completed)" for i
    using nb[of i] by (cases "tasks s i") (auto elim: ending_error.elims)
  then have t: "(\<forall>i. task_error (tasks s i) = None) = (\<forall>i. tasks s i = Fresh \<or> tasks s i = Blocked \<or> tasks s i = Finished Completed)"
    by simp
  show ?thesis unfolding t[symmetric] using e r by (auto simp: error_ok_def split: option.splits)
qed

text \<open>Once the context of the group is done, for instance by the first error, no function starts any more and the
  error never changes.\<close>

lemma eager_group_cancels:
  assumes "initial lim s0" "group_step\<^sup>*\<^sup>* s0 s" "group_step\<^sup>*\<^sup>* s s'" "ctx_err (grp s) \<noteq> None"
  shows "running s' \<subseteq> running s \<and> ctx_err (grp s') \<noteq> None
    \<and> (group_err (grp s) = None \<or> group_err (grp s') = group_err (grp s))"
proof (rule eager.run_stable[OF _ assms(3) eager.reach_inv[OF assms(1,2)],
    where P = "\<lambda>t. running t \<subseteq> running s \<and> ctx_err (grp t) \<noteq> None \<and> (group_err (grp s) = None \<or> group_err (grp t) = group_err (grp s))"])
  fix t t'
  assume t: "group_ok lim t" "group_step t t'" "running t \<subseteq> running s \<and> ctx_err (grp t) \<noteq> None
    \<and> (group_err (grp s) = None \<or> group_err (grp t) = group_err (grp s))"
  have o: "group_err (grp t) = None \<or> once_done (grp t)" using t(1) by (auto simp: group_ok_def error_ok_def)
  from t(2) show "running t' \<subseteq> running s \<and> ctx_err (grp t') \<noteq> None
    \<and> (group_err (grp s) = None \<or> group_err (grp t') = group_err (grp s))"
    by cases (use t(3) o in \<open>auto simp: put_def running_def Go_check_def Go_done_def Go_send_def routine_start_def routine_end_def
      routine_release_def spawn_def Wait_def errOnce_def cancel_def split: option.splits if_splits\<close>)
qed (use assms(4) in auto)

text \<open>A run with limit 1: the first function fails while the second call is blocked, and is rejected.\<close>

definition demo_start :: "nat system" where
  "demo_start = \<lparr>grp = NewEagerGroup None 1, tasks = (\<lambda>_. Fresh)\<rparr>"

definition demo_failed :: "nat system" where
  "demo_failed = \<lparr>grp = \<lparr>ctx_err = Some Canceled, sem_cap = Some 1, sem_len = 0, wg = 0, once_done = True, group_err = Some (FnErr 7)\<rparr>,
     tasks = (\<lambda>_. Fresh)(0 := Finished (Failed 7), 1 := Rejected Canceled)\<rparr>"

lemmas group_eval = put_def Go_check_def Go_done_def Go_send_def routine_start_def routine_end_def routine_release_def spawn_def
  errOnce_def cancel_def

lemma demo_run: "group_step\<^sup>*\<^sup>* demo_start demo_failed"
proof -
  note then_step = rtranclp.rtrancl_into_rtrancl[of group_step demo_start]
  let ?g = "NewEagerGroup None 1 :: nat group"
  have 1: "group_step\<^sup>*\<^sup>* demo_start \<lparr>grp = ?g, tasks = (\<lambda>_. Fresh)(0 := Blocked)\<rparr>"
    using then_step[OF rtranclp.rtrancl_refl go_check[of demo_start 0]] by (simp add: group_eval demo_start_def NewEagerGroup_def)
  have 2: "group_step\<^sup>*\<^sup>* demo_start \<lparr>grp = ?g\<lparr>wg := 1, sem_len := 1\<rparr>, tasks = (\<lambda>_. Fresh)(0 := Spawned)\<rparr>"
    using then_step[OF 1 go_send[of _ 0]] by (simp add: group_eval NewEagerGroup_def)
  have 3: "group_step\<^sup>*\<^sup>* demo_start \<lparr>grp = ?g\<lparr>wg := 1, sem_len := 1\<rparr>, tasks = (\<lambda>_. Fresh)(0 := Running)\<rparr>"
    using then_step[OF 2 start[of _ 0]] by (simp add: group_eval NewEagerGroup_def)
  have 4: "group_step\<^sup>*\<^sup>* demo_start \<lparr>grp = ?g\<lparr>wg := 1, sem_len := 1\<rparr>, tasks = (\<lambda>_. Fresh)(0 := Running, 1 := Blocked)\<rparr>"
    using then_step[OF 3 go_check[of _ 1]] by (simp add: group_eval NewEagerGroup_def)
  let ?f = "?g\<lparr>wg := 1, sem_len := 1, ctx_err := Some Canceled, once_done := True, group_err := Some (FnErr 7)\<rparr>"
  have 5: "group_step\<^sup>*\<^sup>* demo_start \<lparr>grp = ?f, tasks = (\<lambda>_. Fresh)(0 := Leaving (Failed 7), 1 := Blocked)\<rparr>"
    using then_step[OF 4 ends[of _ 0 "Some 7"]] by (simp add: group_eval NewEagerGroup_def fun_upd_twist)
  have 6: "group_step\<^sup>*\<^sup>* demo_start \<lparr>grp = ?f, tasks = (\<lambda>_. Fresh)(0 := Leaving (Failed 7), 1 := Rejected Canceled)\<rparr>"
    using then_step[OF 5 go_done[of _ 1]] by (simp add: group_eval NewEagerGroup_def)
  then show ?thesis
    using then_step[OF 6 release[of _ 0 "Failed 7"]] by (simp add: group_eval NewEagerGroup_def demo_failed_def fun_upd_twist)
qed

lemma demo_initial: "initial 1 demo_start"
  unfolding initial_def demo_start_def by blast

lemma eager_group_bound_example: "group_step\<^sup>*\<^sup>* demo_start demo_failed \<and> int (card (running demo_failed)) \<le> 1"
  using eager_group_bound[OF demo_initial demo_run] demo_run by simp

theorem eager_group_wait_witness: "\<exists>r g. Wait (grp demo_failed) = Some (r, g) \<and> r = Some (FnErr 7) \<and> (\<exists>i. task_error (tasks demo_failed i) = r)"
proof -
  have w: "Wait (grp demo_failed) = Some (Some (FnErr 7), grp demo_failed)" by (simp add: Wait_def demo_failed_def cancel_def)
  show ?thesis using eager_group_wait[OF demo_initial demo_run w] w by blast
qed

lemma eager_group_cancels_example: "running demo_failed \<subseteq> {} \<and> ctx_err (grp demo_failed) \<noteq> None"
  using eager_group_cancels[OF demo_initial demo_run rtranclp.rtrancl_refl] by (simp add: demo_failed_def running_def)

subsection \<open>At most once per interval\<close>

text \<open>\<open>time.Sub\<close> saturates at the ends of the 64-bit range. Times count from the zero time.\<close>

definition time_Sub :: "gotime \<Rightarrow> gotime \<Rightarrow> duration" where
  "time_Sub t u = max (- (2 ^ 63)) (min (2 ^ 63 - 1) (t - u))"

record OnceEvery =
  interval :: duration
  lastRun :: gotime

definition NewOnceEvery :: "duration \<Rightarrow> OnceEvery" where
  "NewOnceEvery d = \<lparr>interval = d, lastRun = zero_time\<rparr>"

text \<open>Whether \<open>f\<close> runs.\<close>

definition Do :: "gotime \<Rightarrow> OnceEvery \<Rightarrow> bool \<times> OnceEvery" where
  "Do now e = (if time_Sub now (lastRun e) \<ge> interval e then (True, e\<lparr>lastRun := now\<rparr>) else (False, e))"

text \<open>The times at which a sequence of calls runs \<open>f\<close>.\<close>

fun runs :: "OnceEvery \<Rightarrow> gotime list \<Rightarrow> gotime list" where
  "runs e [] = []"
| "runs e (t # ts) = (let (r, e') = Do t e in (if r then [t] else []) @ runs e' ts)"

lemma runs_spaced:
  "0 \<le> interval e \<Longrightarrow> interval e < 2 ^ 63 \<Longrightarrow> sorted_wrt (\<lambda>t u. interval e \<le> u - t) (runs e ts) \<and> (\<forall>u \<in> set (runs e ts). interval e \<le> u - lastRun e)"
proof (induction ts arbitrary: e)
  case (Cons t ts)
  show ?case
  proof (cases "time_Sub t (lastRun e) \<ge> interval e")
    case True
    then have "interval e \<le> t - lastRun e" using Cons.prems by (simp add: time_Sub_def)
    then show ?thesis using Cons.IH[of "e\<lparr>lastRun := t\<rparr>"] Cons.prems True by (fastforce simp: Do_def)
  next
    case False
    then show ?thesis using Cons by (simp add: Do_def)
  qed
qed simp

text \<open>A call that does not run \<open>f\<close> comes less than an interval after the last run.\<close>

lemma Do_skips: "\<not> fst (Do t e) \<Longrightarrow> 0 \<le> t - lastRun e \<Longrightarrow> interval e < 2 ^ 63 \<Longrightarrow> t - lastRun e < interval e"
  by (simp add: Do_def time_Sub_def split: if_splits)

subsection \<open>A call with a timeout\<close>

text \<open>\<open>took\<close> is how long the task runs, \<open>None\<close> for ever; \<open>late\<close> is the choice of the \<open>select\<close> when both of its
  channels are ready.\<close>

datatype 'e timeout_error = ErrTimeout | TaskErr 'e

definition DoErrWithTimeout :: "bool \<Rightarrow> duration option \<Rightarrow> 'e option \<Rightarrow> duration \<Rightarrow> 'e timeout_error option" where
  "DoErrWithTimeout late took taskErr d =
     (case took of
        Some t \<Rightarrow> if t < max 0 d \<or> (t = max 0 d \<and> \<not> late) then map_option TaskErr taskErr else Some ErrTimeout
      | None \<Rightarrow> Some ErrTimeout)"

definition DoWithTimeout :: "bool \<Rightarrow> duration option \<Rightarrow> duration \<Rightarrow> 'e timeout_error option" where
  "DoWithTimeout late took d = DoErrWithTimeout late took None d"

lemma DoWithTimeout_nil: "(DoWithTimeout late took d :: 'e timeout_error option) = None \<longleftrightarrow> (\<exists>t. took = Some t \<and> (t < max 0 d \<or> t = max 0 d \<and> \<not> late))"
  by (auto simp: DoWithTimeout_def DoErrWithTimeout_def split: option.split)

end
