(* ===== verification/Stats_Kit.thy ===== *)
theory Stats_Kit
  imports Kit_Prelude Complex_Main "HOL-Library.Multiset" "HOL-Library.AList" "HOL-Library.List_Lexorder"
begin

text \<open>
  Measurements of package \<open>stats\<close>: tags and their canonical strings (\<open>tags.go\<close>), the statsd implementation
  with its table of clients that are filled in when the connection is made (\<open>statsd.go\<close>,
  \<open>statsd_measurement.go\<close>), and the in-memory store of \<open>stats/memstats\<close>.

  A Go map of tags is the list of its pairs, with distinct keys, in the order in which \<open>range\<close> visits them.
  A client of the statsd library is what \<open>clone\<close> makes of the tags and the sampling rate, \<open>fmt_rate\<close> is
  \<open>Sprintf("%f")\<close>; which runes are letters and digits is asked of \<open>word_rune\<close>. Log lines are left out.
\<close>

subsection \<open>Tags\<close>

type_synonym tags = "(gostr \<times> gostr) list"

definition no_colon :: "gostr \<Rightarrow> gostr" where
  "no_colon s = map (\<lambda>r. if r = 58 then 45 else r) s"

definition Strings :: "tags \<Rightarrow> gostr list" where
  "Strings t = concat (map (\<lambda>n. [no_colon n, no_colon (the (map_of t n))]) (sort (map fst t)))"

definition tags_String :: "tags \<Rightarrow> gostr" where
  "tags_String t = Join (Strings t) [44]"

definition sanitizeTagKey :: "(rune \<Rightarrow> bool) \<Rightarrow> gostr \<Rightarrow> gostr" where
  "sanitizeTagKey word_rune key = map (\<lambda>r. if word_rune r \<or> r = 58 \<or> r = 95 then r else 95) key"

definition blank :: "gostr \<Rightarrow> bool" where
  "blank s = list_all (\<lambda>r. r = 32) s"

fun clean_tags :: "(rune \<Rightarrow> bool) \<Rightarrow> gostr list \<Rightarrow> tags \<Rightarrow> tags \<Rightarrow> tags" where
  "clean_tags word_rune excluded newTags [] = newTags"
| "clean_tags word_rune excluded newTags ((k, v) # ts) =
     (let sanitizedKey = sanitizeTagKey word_rune k
      in clean_tags word_rune excluded
           (if blank k \<or> k \<in> set excluded \<or> sanitizedKey \<in> set excluded then newTags
            else AList.update sanitizedKey v newTags) ts)"

lemma distinct_clean: "distinct (map fst new) \<Longrightarrow> distinct (map fst (clean_tags w ex new ts))"
  by (induction ts arbitrary: new) (auto simp: Let_def distinct_update)

lemma sort_keys_unique:
  assumes "distinct (map fst s)" "distinct (map fst t)" "map_of s = map_of t"
  shows "sort (map fst s) = sort (map fst t)"
proof -
  have "set (map fst s) = set (map fst t)" using assms(3) by (metis dom_map_of_conv_image_fst list.set_map)
  then show ?thesis using assms(1,2) by (intro sorted_distinct_set_unique) auto
qed

text \<open>The strings of a map of tags do not depend on the order in which it is visited.\<close>

lemma Strings_order:
  assumes "distinct (map fst s)" "distinct (map fst t)" "map_of s = map_of t"
  shows "Strings s = Strings t"
  using sort_keys_unique[OF assms] assms(3) by (simp add: Strings_def)

text \<open>Where no text contains a comma the string can be read back into the strings.\<close>

lemma tags_String_inject:
  assumes "list_all (\<lambda>w. 44 \<notin> set w) (Strings s)" "list_all (\<lambda>w. 44 \<notin> set w) (Strings t)"
    "tags_String s = tags_String t" "Strings s = [] \<longleftrightarrow> Strings t = []"
  shows "Strings s = Strings t"
  using assms Join_inject[of "Strings s" 44 "Strings t"] by (auto simp: tags_String_def list_all_iff)

text \<open>Otherwise different tags have the same string; so have tags that differ in a colon and a dash.\<close>

lemma tags_String_collides:
  "tags_String [(lit ''a'', lit ''1,b,2'')] = tags_String [(lit ''a'', lit ''1''), (lit ''b'', lit ''2'')]
   \<and> tags_String [(lit ''a'', lit ''x:y'')] = tags_String [(lit ''a'', lit ''x-y'')]"
  by (simp add: tags_String_def Strings_def no_colon_def lit_def)

subsection \<open>Measurements\<close>

datatype stat_type = CountType | TimerType | GaugeType | HistogramType | OtherType gostr

text \<open>A call of a measurement. A float64 is its 64 bits, an \<open>any\<close> is of type \<open>'v\<close>.\<close>

datatype 'v op = Count "64 word" | Increment | Gauge 'v | Observe u64 | SendTiming duration

fun op_type :: "'v op \<Rightarrow> stat_type" where
  "op_type (Count n) = CountType"
| "op_type Increment = CountType"
| "op_type (Gauge v) = GaugeType"
| "op_type (Observe x) = HistogramType"
| "op_type (SendTiming d) = TimerType"

text \<open>What a call sends through the statsd client. A timing is in milliseconds.\<close>

datatype 'v packet = CountPacket "64 word" | GaugePacket 'v | HistogramPacket u64 | TimingPacket int

fun packet_of :: "'v op \<Rightarrow> 'v packet" where
  "packet_of (Count n) = CountPacket n"
| "packet_of Increment = CountPacket 1"
| "packet_of (Gauge v) = GaugePacket v"
| "packet_of (Observe x) = HistogramPacket x"
| "packet_of (SendTiming d) = TimingPacket (go_div d 1000000)"

subsection \<open>The statsd implementation\<close>

record ('r, 'c) statsdClient =
  samplingRate :: 'r
  client_tags :: "gostr list"
  statsd :: "'c option"

datatype phase = NotStarted | Retrying | Collecting | GaveUp

text \<open>\<open>clients\<close> and \<open>pendingClients\<close> hold pointers into \<open>store\<close>; the latter is a list of pairs, \<open>None\<close> for the nil map.
  \<open>phase\<close> says where the goroutine of \<open>Start\<close> is.\<close>

record ('r, 'c) statsdStats =
  enabled :: bool
  excludedTags :: "gostr list"
  configRate :: 'r
  connEstablished :: bool
  clients :: "gostr \<Rightarrow> nat option"
  pendingClients :: "(gostr \<times> nat) list option"
  store :: "nat \<Rightarrow> ('r, 'c) statsdClient"
  nextp :: nat
  phase :: phase

record measurement =
  m_enabled :: bool
  m_name :: gostr
  m_client :: "nat option"
  m_type :: stat_type

definition newStatsdMeasurement :: "gostr \<Rightarrow> stat_type \<Rightarrow> nat option \<Rightarrow> ('r, 'c) statsdStats \<Rightarrow> measurement option" where
  "newStatsdMeasurement nm t client s =
     (case t of
        OtherType x \<Rightarrow> None
      | _ \<Rightarrow> Some \<lparr>m_enabled = enabled s, m_name = (if blank nm then lit ''novalue'' else nm), m_client = client, m_type = t\<rparr>)"

definition client_key :: "('r \<Rightarrow> gostr) \<Rightarrow> tags \<Rightarrow> 'r \<Rightarrow> gostr" where
  "client_key fmt_rate newTags rate = tags_String newTags @ fmt_rate rate"

text \<open>\<open>None\<close>: the assignment to an entry of the nil map panics.\<close>

definition taggedClient :: "(gostr list \<Rightarrow> 'r \<Rightarrow> 'c) \<Rightarrow> gostr \<Rightarrow> tags \<Rightarrow> 'r \<Rightarrow> ('r, 'c) statsdStats \<Rightarrow>
    (nat \<times> ('r, 'c) statsdStats) option" where
  "taggedClient clone key newTags rate s =
     (case clients s key of
        Some a \<Rightarrow> Some (a, s)
      | None \<Rightarrow>
          let tagVals = Strings newTags; a = nextp s;
              s1 = s\<lparr>nextp := a + 1, clients := (clients s)(key \<mapsto> a)\<rparr>
          in if connEstablished s
             then Some (a, s1\<lparr>store := (store s)(a := \<lparr>samplingRate = rate, client_tags = tagVals, statsd = Some (clone tagVals rate)\<rparr>)\<rparr>)
             else case pendingClients s of
                    None \<Rightarrow> None
                  | Some p \<Rightarrow> Some (a, s1\<lparr>store := (store s)(a := \<lparr>samplingRate = rate, client_tags = tagVals, statsd = None\<rparr>),
                                          pendingClients := Some ((key, a) # p)\<rparr>))"

definition internalNewTaggedStat :: "(rune \<Rightarrow> bool) \<Rightarrow> (gostr list \<Rightarrow> 'r \<Rightarrow> 'c) \<Rightarrow> ('r \<Rightarrow> gostr) \<Rightarrow> gostr \<Rightarrow> stat_type \<Rightarrow> tags \<Rightarrow> 'r \<Rightarrow>
    ('r, 'c) statsdStats \<Rightarrow> (measurement option \<times> ('r, 'c) statsdStats) option" where
  "internalNewTaggedStat word_rune clone fmt_rate nm t ts rate s =
     (if \<not> enabled s then Some (newStatsdMeasurement nm t None s, s)
      else let newTags = clean_tags word_rune (excludedTags s) [] ts
           in case taggedClient clone (client_key fmt_rate newTags rate) newTags rate s of
                None \<Rightarrow> None
              | Some (a, s') \<Rightarrow> Some (newStatsdMeasurement nm t (Some a) s', s'))"

definition NewSampledTaggedStat where
  "NewSampledTaggedStat word_rune clone fmt_rate nm t ts s = internalNewTaggedStat word_rune clone fmt_rate nm t ts (configRate s) s"

text \<open>A call of a measurement: \<open>None\<close> when the type does not support it, else what is sent and through
  which client.\<close>

definition call :: "measurement \<Rightarrow> 'v op \<Rightarrow> ('r, 'c) statsdStats \<Rightarrow> ('c \<times> gostr \<times> 'v packet) option option" where
  "call m x s =
     (if op_type x \<noteq> m_type m then None
      else Some (if \<not> m_enabled m then None
                 else case m_client m of
                        None \<Rightarrow> None
                      | Some a \<Rightarrow> (case statsd (store s a) of None \<Rightarrow> None | Some c \<Rightarrow> Some (c, m_name m, packet_of x))))"

text \<open>\<open>Start\<close>: \<open>ok\<close> says whether the first attempt to connect succeeded. Then the end of the retries in the
  background.\<close>

definition statsd_Start :: "bool \<Rightarrow> ('r, 'c) statsdStats \<Rightarrow> ('r, 'c) statsdStats" where
  "statsd_Start ok s =
     (if \<not> enabled s then s
      else if ok then s\<lparr>connEstablished := True, phase := Collecting\<rparr>
      else s\<lparr>phase := Retrying\<rparr>)"

definition fill :: "(gostr list \<Rightarrow> 'r \<Rightarrow> 'c) \<Rightarrow> ('r, 'c) statsdClient \<Rightarrow> ('r, 'c) statsdClient" where
  "fill clone c = c\<lparr>statsd := Some (clone (client_tags c) (samplingRate c))\<rparr>"

definition retry_succeeds :: "(gostr list \<Rightarrow> 'r \<Rightarrow> 'c) \<Rightarrow> ('r, 'c) statsdStats \<Rightarrow> ('r, 'c) statsdStats" where
  "retry_succeeds clone s =
     s\<lparr>store := fold (\<lambda>(k, a) st. st(a := fill clone (st a))) (case pendingClients s of None \<Rightarrow> [] | Some p \<Rightarrow> p) (store s),
       connEstablished := True, pendingClients := None, phase := Collecting\<rparr>"

definition retry_fails :: "('r, 'c) statsdStats \<Rightarrow> ('r, 'c) statsdStats" where
  "retry_fails s = s\<lparr>enabled := False, phase := GaveUp\<rparr>"

definition new_statsd :: "bool \<Rightarrow> gostr list \<Rightarrow> 'r \<Rightarrow> ('r, 'c) statsdStats" where
  "new_statsd en ex rate =
     \<lparr>enabled = en, excludedTags = ex, configRate = rate, connEstablished = False, clients = Map.empty,
      pendingClients = Some [], store = (\<lambda>_. \<lparr>samplingRate = rate, client_tags = [], statsd = None\<rparr>),
      nextp = 0, phase = NotStarted\<rparr>"

text \<open>The steps, with the set of the keys whose clients existed when a \<open>Start\<close> connected at once.\<close>

inductive statsd_step :: "(gostr list \<Rightarrow> 'r \<Rightarrow> 'c) \<Rightarrow> ('r \<Rightarrow> gostr) \<Rightarrow> gostr set \<times> ('r, 'c) statsdStats \<Rightarrow> gostr set \<times> ('r, 'c) statsdStats \<Rightarrow> bool"
  for clone fmt_rate where
  request: "internalNewTaggedStat w clone fmt_rate nm t ts rate s = Some (m, s') \<Longrightarrow> statsd_step clone fmt_rate (E, s) (E, s')"
| start: "phase s = NotStarted \<Longrightarrow>
    statsd_step clone fmt_rate (E, s) (if enabled s \<and> ok then dom (clients s) else E, statsd_Start ok s)"
| retry_ok: "phase s = Retrying \<Longrightarrow> statsd_step clone fmt_rate (E, s) (E, retry_succeeds clone s)"
| retry_failed: "phase s = Retrying \<Longrightarrow> statsd_step clone fmt_rate (E, s) (E, retry_fails s)"

definition statsd_initial :: "gostr set \<times> ('r, 'c) statsdStats \<Rightarrow> bool" where
  "statsd_initial x \<longleftrightarrow> (\<exists>en ex rate. x = ({}, new_statsd en ex rate))"

definition client_ok :: "(gostr list \<Rightarrow> 'r \<Rightarrow> 'c) \<Rightarrow> ('r \<Rightarrow> gostr) \<Rightarrow> gostr \<Rightarrow> bool \<Rightarrow> ('r, 'c) statsdClient \<Rightarrow> bool" where
  "client_ok clone fmt_rate key rdy c \<longleftrightarrow> key = Join (client_tags c) [44] @ fmt_rate (samplingRate c)
     \<and> statsd c = (if rdy then Some (clone (client_tags c) (samplingRate c)) else None)"

definition table_ok :: "(gostr list \<Rightarrow> 'r \<Rightarrow> 'c) \<Rightarrow> ('r \<Rightarrow> gostr) \<Rightarrow> gostr set \<Rightarrow> ('r, 'c) statsdStats \<Rightarrow> bool" where
  "table_ok clone fmt_rate E s \<longleftrightarrow> (\<forall>k a. clients s k = Some a \<longrightarrow> a < nextp s
       \<and> client_ok clone fmt_rate k (connEstablished s \<and> k \<notin> E) (store s a))
     \<and> (\<forall>k k' a. clients s k = Some a \<and> clients s k' = Some a \<longrightarrow> k = k')"

definition phase_ok :: "gostr set \<Rightarrow> ('r, 'c) statsdStats \<Rightarrow> bool" where
  "phase_ok E s \<longleftrightarrow> connEstablished s = (phase s = Collecting) \<and> E \<subseteq> dom (clients s)
     \<and> (phase s = Collecting \<or> (E = {} \<and> (\<exists>p. pendingClients s = Some p \<and> (\<forall>k a. (k, a) \<in> set p \<longleftrightarrow> clients s k = Some a))))"

definition statsd_ok :: "(gostr list \<Rightarrow> 'r \<Rightarrow> 'c) \<Rightarrow> ('r \<Rightarrow> gostr) \<Rightarrow> gostr set \<times> ('r, 'c) statsdStats \<Rightarrow> bool" where
  "statsd_ok clone fmt_rate x \<longleftrightarrow> table_ok clone fmt_rate (fst x) (snd x) \<and> phase_ok (fst x) (snd x)"

lemma fill_sel [simp]: "client_tags (fill clone c) = client_tags c" "samplingRate (fill clone c) = samplingRate c"
  by (simp_all add: fill_def)

lemma fold_fill:
  "fold (\<lambda>(k, a) st. st(a := fill clone (st a))) p st a = (if a \<in> snd ` set p then fill clone (st a) else st a)"
  by (induction p arbitrary: st) (auto simp: fill_def)

lemma client_key_tags: "client_key fmt_rate newTags rate = Join (Strings newTags) [44] @ fmt_rate rate"
  by (simp add: client_key_def tags_String_def)

lemma taggedClient_ok:
  assumes "statsd_ok clone fmt_rate (E, s)" "taggedClient clone (client_key fmt_rate newTags rate) newTags rate s = Some (a, s')"
  shows "statsd_ok clone fmt_rate (E, s') \<and> clients s' (client_key fmt_rate newTags rate) = Some a"
proof (cases "clients s (client_key fmt_rate newTags rate)")
  case (Some b)
  then show ?thesis using assms by (simp add: taggedClient_def)
next
  case None
  let ?k = "client_key fmt_rate newTags rate"
  have t: "table_ok clone fmt_rate E s" and p: "phase_ok E s" using assms(1) by (simp_all add: statsd_ok_def)
  have E: "?k \<notin> E" using p None by (auto simp: phase_ok_def)
  have s': "clients s' = (clients s)(?k \<mapsto> nextp s)" "nextp s' = nextp s + 1" "a = nextp s" "connEstablished s' = connEstablished s"
    "phase s' = phase s"
    "store s' = (store s)(nextp s := \<lparr>samplingRate = rate, client_tags = Strings newTags,
       statsd = if connEstablished s then Some (clone (Strings newTags) rate) else None\<rparr>)"
    "pendingClients s' = (if connEstablished s then pendingClients s else map_option (\<lambda>p. (?k, a) # p) (pendingClients s))"
    using assms(2) None by (auto simp: taggedClient_def Let_def split: if_splits option.splits)
  have "table_ok clone fmt_rate E s'" unfolding table_ok_def
  proof (intro conjI allI impI)
    fix k b
    assume "clients s' k = Some b"
    then have "b < nextp s' \<and> client_ok clone fmt_rate k (connEstablished s' \<and> k \<notin> E) (store s' b)"
    proof (cases "k = ?k")
      case True
      then show ?thesis using \<open>clients s' k = Some b\<close> E unfolding s' by (simp add: client_ok_def client_key_tags)
    next
      case False
      then have "b < nextp s" "client_ok clone fmt_rate k (connEstablished s \<and> k \<notin> E) (store s b)"
        using t \<open>clients s' k = Some b\<close> unfolding s' by (auto simp: table_ok_def)
      then show ?thesis unfolding s' by simp
    qed
    then show "b < nextp s'" "client_ok clone fmt_rate k (connEstablished s' \<and> k \<notin> E) (store s' b)" by simp_all
  next
    fix k k' b
    assume "clients s' k = Some b \<and> clients s' k' = Some b"
    then show "k = k'" using t unfolding s' by (auto simp: table_ok_def split: if_splits)
  qed
  moreover have "phase_ok E s'" using p None unfolding phase_ok_def s'(1,3,4,5,7) by auto
  ultimately show ?thesis by (simp add: statsd_ok_def s')
qed

lemma statsd_ok_initial: "statsd_initial x \<Longrightarrow> statsd_ok clone fmt_rate x"
  by (auto simp: statsd_initial_def statsd_ok_def table_ok_def phase_ok_def new_statsd_def)

lemma statsd_ok_step:
  assumes "statsd_ok clone fmt_rate x" "statsd_step clone fmt_rate x y"
  shows "statsd_ok clone fmt_rate y"
  using assms(2,1)
proof (induction rule: statsd_step.induct)
  case (request w nm t ts rate s m s' E)
  then have "s' = s \<or> (\<exists>newTags a. taggedClient clone (client_key fmt_rate newTags rate) newTags rate s = Some (a, s'))"
    by (auto simp: internalNewTaggedStat_def Let_def split: if_splits option.splits)
  then show ?case using taggedClient_ok[OF request(2)] request(2) by blast
next
  case (start s E ok)
  then show ?case
    by (auto simp: statsd_ok_def table_ok_def phase_ok_def statsd_Start_def client_ok_def)
next
  case (retry_ok s E)
  then have E: "E = {}" and c: "\<not> connEstablished s"
    and p: "\<exists>p. pendingClients s = Some p \<and> (\<forall>k a. (k, a) \<in> set p \<longleftrightarrow> clients s k = Some a)"
    and t: "table_ok clone fmt_rate E s" by (auto simp: statsd_ok_def phase_ok_def)
  obtain p where p: "pendingClients s = Some p" "\<And>k a. (k, a) \<in> set p \<longleftrightarrow> clients s k = Some a" using p by blast
  have f: "clients s k = Some a \<Longrightarrow> store (retry_succeeds clone s) a = fill clone (store s a)" for k a
  proof -
    assume "clients s k = Some a"
    then have "a \<in> snd ` set p" using p(2)[of k a] by force
    then show ?thesis by (simp add: retry_succeeds_def fold_fill p(1))
  qed
  have s: "clients (retry_succeeds clone s) = clients s" "connEstablished (retry_succeeds clone s)"
    "nextp (retry_succeeds clone s) = nextp s" "phase (retry_succeeds clone s) = Collecting"
    by (simp_all add: retry_succeeds_def)
  have "table_ok clone fmt_rate E (retry_succeeds clone s)"
    using t f unfolding table_ok_def s(1,3) by (auto simp: client_ok_def fill_def E s(2))
  then show ?case by (simp add: statsd_ok_def phase_ok_def s E)
next
  case (retry_failed s E)
  then show ?case by (auto simp: statsd_ok_def table_ok_def phase_ok_def retry_fails_def)
qed

interpretation stats: transition_system statsd_initial "statsd_step clone fmt_rate" "statsd_ok clone fmt_rate" for clone fmt_rate
  by unfold_locales (fact statsd_ok_initial statsd_ok_step)+

text \<open>A client in the table stays where it is and keeps its tags and its rate.\<close>

definition kept :: "gostr \<Rightarrow> nat \<Rightarrow> gostr list \<Rightarrow> 'r \<Rightarrow> gostr set \<times> ('r, 'c) statsdStats \<Rightarrow> bool" where
  "kept k a tg r x \<longleftrightarrow> clients (snd x) k = Some a \<and> client_tags (store (snd x) a) = tg \<and> samplingRate (store (snd x) a) = r"

lemma kept_taggedClient:
  assumes "table_ok clone fmt_rate E s" "taggedClient clone key newTags rate s = Some (b, s')" "kept k a tg r (E, s)"
  shows "kept k a tg r (E, s')"
proof -
  have "a < nextp s" using assms(1,3) by (auto simp: table_ok_def kept_def)
  then show ?thesis using assms(2,3) by (auto simp: taggedClient_def Let_def kept_def split: if_splits option.splits)
qed

lemma kept_step:
  assumes "statsd_step clone fmt_rate x y" "statsd_ok clone fmt_rate x" "kept k a tg r x"
  shows "kept k a tg r y"
  using assms
proof (induction rule: statsd_step.induct)
  case (request w nm t ts rate s m s' E)
  then have "s' = s \<or> (\<exists>newTags b. taggedClient clone (client_key fmt_rate newTags rate) newTags rate s = Some (b, s'))"
    by (auto simp: internalNewTaggedStat_def Let_def split: if_splits option.splits)
  then show ?case using kept_taggedClient request(2,3) by (metis fst_conv snd_conv statsd_ok_def)
next
  case (start s E ok)
  then show ?case by (simp add: kept_def statsd_Start_def)
next
  case (retry_ok s E)
  then show ?case by (simp add: kept_def retry_succeeds_def fold_fill)
next
  case (retry_failed s E)
  then show ?case by (simp add: kept_def retry_fails_def)
qed

text \<open>C28. What a measurement requested from enabled stats sends later: a call its type does not support panics;
  any other call goes through a client whose tags and rate have the requested key, under the given name
  (\<open>novalue\<close> for a blank one), once the connection is made; except that nothing is ever sent for a key that
  was first requested before a \<open>Start\<close> that connected at once.\<close>

theorem statsd_delivery:
  assumes "statsd_initial x" "(statsd_step clone fmt_rate)\<^sup>*\<^sup>* x (E, s)" "enabled s"
    "internalNewTaggedStat word_rune clone fmt_rate nm t ts rate s = Some (Some m, s1)"
    "(statsd_step clone fmt_rate)\<^sup>*\<^sup>* (E, s1) (E', s2)"
    "key = client_key fmt_rate (clean_tags word_rune (excludedTags s) [] ts) rate"
  shows "\<exists>tg r. key = Join tg [44] @ fmt_rate r
    \<and> call m p s2 = (if op_type p \<noteq> t then None
        else Some (if connEstablished s2 \<and> key \<notin> E'
                   then Some (clone tg r, if blank nm then lit ''novalue'' else nm, packet_of p) else None))"
proof -
  have ok: "statsd_ok clone fmt_rate (E, s)" by (rule stats.reach_inv[OF assms(1,2)])
  obtain a where a: "taggedClient clone key (clean_tags word_rune (excludedTags s) [] ts) rate s = Some (a, s1)"
    "newStatsdMeasurement nm t (Some a) s1 = Some m"
    using assms(3,4) unfolding assms(6) by (auto simp: internalNewTaggedStat_def Let_def split: option.splits prod.splits)
  have ok1: "statsd_ok clone fmt_rate (E, s1)" "clients s1 key = Some a"
    using taggedClient_ok[OF ok a(1)[unfolded assms(6)]] assms(6) by simp_all
  have en: "enabled s1" using a(1) assms(3) by (auto simp: taggedClient_def Let_def split: if_splits option.splits)
  let ?c = "store s1 a"
  have k: "kept key a (client_tags ?c) (samplingRate ?c) (E', s2)"
    by (rule stats.run_stable[OF kept_step assms(5) ok1(1)]) (simp_all add: kept_def ok1(2))
  have "table_ok clone fmt_rate E' s2" using stats.run_inv[OF assms(5) ok1(1)] by (simp add: statsd_ok_def)
  then have "client_ok clone fmt_rate key (connEstablished s2 \<and> key \<notin> E') (store s2 a)"
    using k by (simp add: table_ok_def kept_def)
  moreover have "m = \<lparr>m_enabled = True, m_name = (if blank nm then lit ''novalue'' else nm), m_client = Some a, m_type = t\<rparr>"
    using a(2) en by (auto simp: newStatsdMeasurement_def split: stat_type.splits)
  ultimately show ?thesis
    using k by (intro exI[of _ "client_tags ?c"] exI[of _ "samplingRate ?c"]) (simp add: call_def client_ok_def kept_def)
qed

definition demo_stats :: "(nat, gostr list \<times> nat) statsdStats" where
  "demo_stats = new_statsd True [] 1"

definition demo_requested :: "(nat, gostr list \<times> nat) statsdStats" where
  "demo_requested = demo_stats\<lparr>nextp := 1, clients := [[1] \<mapsto> 0], pendingClients := Some [([1], 0)],
     store := (store demo_stats)(0 := \<lparr>samplingRate = 1, client_tags = [], statsd = None\<rparr>)\<rparr>"

definition demo_counter :: measurement where
  "demo_counter = \<lparr>m_enabled = True, m_name = [120], m_client = Some 0, m_type = CountType\<rparr>"

lemma demo_request:
  "internalNewTaggedStat is_letter Pair (\<lambda>n. [n]) [120] CountType [] 1 demo_stats = Some (Some demo_counter, demo_requested)"
  by (simp add: internalNewTaggedStat_def taggedClient_def client_key_def tags_String_def Strings_def demo_stats_def
    new_statsd_def newStatsdMeasurement_def blank_def demo_counter_def demo_requested_def)

text \<open>A counter requested before \<open>Start\<close>: nothing is sent after a start that connects at once, while the packet goes out
  when the first attempt failed.\<close>

theorem statsd_delivery_witness:
  "call demo_counter (Increment :: nat op) (statsd_Start True demo_requested) = Some None
   \<and> call demo_counter (Increment :: nat op) (retry_succeeds Pair (statsd_Start False demo_requested)) = Some (Some (([], 1), [120], CountPacket 1))"
proof -
  have i: "statsd_initial ({}, demo_stats)" by (auto simp: statsd_initial_def demo_stats_def)
  have e: "enabled demo_stats" "phase demo_requested = NotStarted" "enabled demo_requested"
    by (simp_all add: demo_stats_def demo_requested_def new_statsd_def)
  have k: "[1::nat] = client_key (\<lambda>n. [n]) (clean_tags is_letter (excludedTags demo_stats) [] []) 1"
    by (simp add: client_key_def tags_String_def Strings_def)
  have s1: "(statsd_step Pair (\<lambda>n. [n]))\<^sup>*\<^sup>* ({}, demo_requested) ({[1]}, statsd_Start True demo_requested)"
    using start[of demo_requested Pair "\<lambda>n. [n]" "{}" True] e by (simp add: demo_requested_def)
  have s2: "(statsd_step Pair (\<lambda>n. [n]))\<^sup>*\<^sup>* ({}, demo_requested) ({}, retry_succeeds Pair (statsd_Start False demo_requested))"
    using start[of demo_requested Pair "\<lambda>n. [n]" "{}" False] retry_ok[of "statsd_Start False demo_requested" Pair "\<lambda>n. [n]" "{}"] e
    by (simp add: statsd_Start_def)
  from statsd_delivery[OF i rtranclp.rtrancl_refl e(1) demo_request s1 k, of "Increment :: nat op"]
  have r1: "call demo_counter (Increment :: nat op) (statsd_Start True demo_requested) = Some None" by auto
  from statsd_delivery[OF i rtranclp.rtrancl_refl e(1) demo_request s2 k, of "Increment :: nat op"]
  have "\<exists>tg r. [1] = Join tg [44] @ [r] \<and> call demo_counter (Increment :: nat op) (retry_succeeds Pair (statsd_Start False demo_requested))
    = Some (Some ((tg, r), [120], CountPacket 1))" by (auto simp: retry_succeeds_def blank_def)
  then show ?thesis using r1
    by (simp add: call_def demo_counter_def retry_succeeds_def statsd_Start_def demo_requested_def demo_stats_def new_statsd_def fill_def)
qed

subsection \<open>The OpenTelemetry implementation\<close>

text \<open>\<open>canonicalMeasurementIdentity\<close>: the name and the attributes that survive, in the order in which the tags are
  visited; \<open>NewSet\<close> of the library makes the attribute set of them. Instruments and callbacks belong to the library; the
  cache of gauges hands out numbers for them, in the order of creation.\<close>

fun otel_attrs :: "(rune \<Rightarrow> bool) \<Rightarrow> gostr list \<Rightarrow> gostr list \<Rightarrow> tags \<Rightarrow> tags" where
  "otel_attrs word_rune excluded resourceAttrs [] = []"
| "otel_attrs word_rune excluded resourceAttrs ((k, v) # ts) =
     (let sanitizedKey = sanitizeTagKey word_rune k
      in (if blank k \<or> k \<in> set excluded \<or> sanitizedKey \<in> set excluded \<or> sanitizedKey \<in> set resourceAttrs then []
          else [(sanitizedKey, v)]) @ otel_attrs word_rune excluded resourceAttrs ts)"

definition canonicalMeasurementIdentity :: "(rune \<Rightarrow> bool) \<Rightarrow> (tags \<Rightarrow> 'a) \<Rightarrow> gostr list \<Rightarrow> gostr list \<Rightarrow> gostr \<Rightarrow> tags \<Rightarrow> gostr \<times> 'a" where
  "canonicalMeasurementIdentity word_rune NewSet excluded resourceAttrs nm ts =
     (if blank nm then lit ''novalue'' else nm, NewSet (otel_attrs word_rune excluded resourceAttrs ts))"

definition getGauge :: "('a \<Rightarrow> 'd) \<Rightarrow> gostr \<times> 'a \<Rightarrow> (gostr \<times> 'd \<Rightarrow> nat option) \<times> nat \<Rightarrow> nat \<times> (gostr \<times> 'd \<Rightarrow> nat option) \<times> nat" where
  "getGauge Equivalent ident st =
     (let mapKey = (fst ident, Equivalent (snd ident)); (gauges, n) = st
      in case gauges mapKey of Some g \<Rightarrow> (g, st) | None \<Rightarrow> (n, gauges(mapKey \<mapsto> n), n + 1))"

text \<open>Without resource attributes both implementations keep the same tags, when the attribute set takes the last value of
  a key that occurs twice.\<close>

lemma clean_tags_map: "map_of (clean_tags w ex new ts) = map_of new ++ map_of (clean_tags w ex [] ts)"
proof (induction ts arbitrary: new)
  case (Cons kv ts)
  obtain k v where kv: "kv = (k, v)" by (cases kv)
  show ?case
    using Cons.IH[of "AList.update (sanitizeTagKey w k) v new"] Cons.IH[of "[(sanitizeTagKey w k, v)]"] Cons.IH[of new]
    by (simp add: kv Let_def update_conv' map_add_def fun_eq_iff split: option.split)
qed simp

lemma otel_attrs_clean: "map_of (rev (otel_attrs w ex [] ts)) = map_of (clean_tags w ex [] ts)"
proof (induction ts)
  case (Cons kv ts)
  obtain k v where kv: "kv = (k, v)" by (cases kv)
  show ?case
    using Cons.IH clean_tags_map[of w ex "[(sanitizeTagKey w k, v)]" ts] by (simp add: kv Let_def)
qed simp

definition gauges_ok :: "(gostr \<times> 'd \<Rightarrow> nat option) \<times> nat \<Rightarrow> bool" where
  "gauges_ok st \<longleftrightarrow> (\<forall>k g. fst st k = Some g \<longrightarrow> g < snd st) \<and> (\<forall>k k' g. fst st k = Some g \<and> fst st k' = Some g \<longrightarrow> k = k')"

lemma getGauge_keeps:
  assumes "gauges_ok st" "getGauge Equivalent i st = (g, st')"
  shows "gauges_ok st'" "fst st' (fst i, Equivalent (snd i)) = Some g" "fst st \<subseteq>\<^sub>m fst st'"
proof -
  obtain gs n where st: "st = (gs, n)" by (cases st)
  have l: "gs k = Some h \<Longrightarrow> h < n" for k h using assms(1) by (cases k) (simp add: gauges_ok_def st)
  have inj: "gs k = Some h \<Longrightarrow> gs k' = Some h \<Longrightarrow> k = k'" for k k' h
    using assms(1) unfolding gauges_ok_def st fst_conv by blast
  let ?k = "(fst i, Equivalent (snd i))"
  show "gauges_ok st'"
  proof (cases "gs ?k")
    case None
    then have st': "st' = (gs(?k \<mapsto> n), n + 1)" using assms(2) by (auto simp: getGauge_def st)
    have "\<forall>k h. (gs(?k \<mapsto> n)) k = Some h \<longrightarrow> h < n + 1" using l by (metis fun_upd_apply less_Suc_eq option.inject Suc_eq_plus1)
    moreover have "\<forall>k k' h. (gs(?k \<mapsto> n)) k = Some h \<and> (gs(?k \<mapsto> n)) k' = Some h \<longrightarrow> k = k'"
      using l inj by (metis fun_upd_apply less_irrefl option.inject)
    ultimately show ?thesis unfolding gauges_ok_def st' fst_conv snd_conv by (rule conjI)
  next
    case (Some h)
    then have "st' = st" using assms(2) by (auto simp: getGauge_def st)
    then show ?thesis using assms(1) by simp
  qed
  show "fst st' ?k = Some g" "fst st \<subseteq>\<^sub>m fst st'" using assms(2)
    by (cases "gs ?k"; force simp: getGauge_def st map_le_def)+
qed

subsection \<open>The store of \<open>memstats\<close>\<close>

text \<open>A pointer to a measurement is its key, since nothing is ever removed. Floats are reals. A panic is
  \<open>None\<close>.\<close>

record mem_measurement =
  mm_name :: gostr
  mm_tags :: tags
  mm_type :: stat_type
  mm_sum :: real
  mm_values :: "real list"
  mm_durations :: "duration list"

type_synonym mem_store = "gostr \<Rightarrow> mem_measurement option"

datatype mem_op = MCount int | MIncrement | MGauge real | MObserve real | MSendTiming duration

fun mem_type :: "mem_op \<Rightarrow> stat_type" where
  "mem_type (MCount n) = CountType"
| "mem_type MIncrement = CountType"
| "mem_type (MGauge v) = GaugeType"
| "mem_type (MObserve v) = HistogramType"
| "mem_type (MSendTiming d) = TimerType"

definition getKey :: "gostr \<Rightarrow> tags \<Rightarrow> gostr" where
  "getKey nm ts = nm @ tags_String ts"

definition mem_NewTaggedStat :: "gostr \<Rightarrow> stat_type \<Rightarrow> tags \<Rightarrow> mem_store \<Rightarrow> gostr \<times> mem_store" where
  "mem_NewTaggedStat nm t ts st =
     (let k = getKey nm ts
      in case st k of
           Some m \<Rightarrow> (k, st)
         | None \<Rightarrow> (k, st(k \<mapsto> \<lparr>mm_name = nm, mm_tags = ts, mm_type = t, mm_sum = 0, mm_values = [], mm_durations = []\<rparr>)))"

definition mem_count :: "int \<Rightarrow> mem_measurement \<Rightarrow> mem_measurement" where
  "mem_count n m = m\<lparr>mm_sum := mm_sum m + of_int n, mm_values := mm_values m @ [mm_sum m + of_int n]\<rparr>"

definition mem_call :: "mem_op \<Rightarrow> mem_measurement \<Rightarrow> mem_measurement option" where
  "mem_call x m =
     (if mem_type x \<noteq> mm_type m then None
      else Some (case x of
                   MCount n \<Rightarrow> mem_count n m
                 | MIncrement \<Rightarrow> mem_count 1 m
                 | MGauge v \<Rightarrow> m\<lparr>mm_values := mm_values m @ [v]\<rparr>
                 | MObserve v \<Rightarrow> m\<lparr>mm_values := mm_values m @ [v]\<rparr>
                 | MSendTiming d \<Rightarrow> m\<lparr>mm_durations := mm_durations m @ [d]\<rparr>))"

definition LastValue :: "mem_measurement \<Rightarrow> real" where
  "LastValue m = (if mm_values m = [] then 0 else last (mm_values m))"

definition LastDuration :: "mem_measurement \<Rightarrow> duration" where
  "LastDuration m = (if mm_durations m = [] then 0 else last (mm_durations m))"

datatype reading = ValueOf real | ValuesOf "real list" | DurationsOf "duration list"

definition mem_reading :: "mem_measurement \<Rightarrow> (gostr \<times> tags \<times> reading) option" where
  "mem_reading m =
     (case mm_type m of
        CountType \<Rightarrow> Some (mm_name m, mm_tags m, ValueOf (LastValue m))
      | GaugeType \<Rightarrow> Some (mm_name m, mm_tags m, ValueOf (LastValue m))
      | HistogramType \<Rightarrow> Some (mm_name m, mm_tags m, ValuesOf (mm_values m))
      | TimerType \<Rightarrow> Some (mm_name m, mm_tags m, DurationsOf (mm_durations m))
      | OtherType t \<Rightarrow> None)"

text \<open>\<open>ks\<close> are the keys of the map, in the order in which it is visited.\<close>

definition getAllByName :: "gostr list \<Rightarrow> gostr \<Rightarrow> mem_store \<Rightarrow> (gostr \<times> tags \<times> reading) option list" where
  "getAllByName ks nm st =
     map (\<lambda>k. mem_reading (the (st k))) (sort (filter (\<lambda>k. nm = [] \<or> mm_name (the (st k)) = nm) ks))"

text \<open>Calls in a row on one measurement.\<close>

fun mem_calls :: "mem_op list \<Rightarrow> mem_measurement \<Rightarrow> mem_measurement option" where
  "mem_calls [] m = Some m"
| "mem_calls (x # xs) m = (case mem_call x m of None \<Rightarrow> None | Some m' \<Rightarrow> mem_calls xs m')"

fun amount :: "mem_op \<Rightarrow> real" where
  "amount (MCount n) = of_int n"
| "amount MIncrement = 1"
| "amount _ = 0"

lemma mem_calls_counter:
  "mm_type m = CountType \<Longrightarrow> (mm_values m = [] \<longrightarrow> mm_sum m = 0) \<Longrightarrow> (mm_values m \<noteq> [] \<longrightarrow> mm_sum m = last (mm_values m)) \<Longrightarrow>
   list_all (\<lambda>x. mem_type x = CountType) xs \<Longrightarrow>
   \<exists>m'. mem_calls xs m = Some m' \<and> LastValue m' = LastValue m + sum_list (map amount xs) \<and> length (mm_values m') = length (mm_values m) + length xs"
proof (induction xs arbitrary: m)
  case (Cons x xs)
  obtain n where n: "mem_call x m = Some (mem_count n m)" "amount x = of_int n"
    using Cons.prems by (cases x) (auto simp: mem_call_def)
  have "LastValue (mem_count n m) = LastValue m + of_int n" using Cons.prems by (auto simp: LastValue_def mem_count_def)
  then show ?case using Cons.IH[of "mem_count n m"] Cons.prems n by (auto simp: mem_count_def add.assoc)
qed (simp add: LastValue_def)

text \<open>The readings of a store do not depend on the order of the map.\<close>

lemma getAllByName_order: "mset ks = mset ks' \<Longrightarrow> getAllByName ks nm st = getAllByName ks' nm st"
  by (simp add: getAllByName_def flip: sorted_list_of_multiset_mset)

text \<open>The key does not separate the name from the tags, and leaves the type out: another name finds a measurement that was
  made for different tags, and a second type finds one whose calls panic.\<close>

lemma mem_keys_collide:
  "getKey (lit ''foo'') [(lit ''bar'', v)] = getKey (lit ''foob'') [(lit ''ar'', v)]
   \<and> (let st = snd (mem_NewTaggedStat nm CountType ts Map.empty); (k, st') = mem_NewTaggedStat nm GaugeType ts st
      in st' = st \<and> mem_call (MGauge x) (the (st' k)) = None)"
  by (simp add: getKey_def tags_String_def Strings_def no_colon_def lit_def mem_NewTaggedStat_def mem_call_def Let_def)

end
