(* ===== verification/Json_Kit.thy ===== *)
theory Json_Kit
  imports Kit_Prelude
begin

text \<open>
  The package \<open>jsonparser\<close>: the paths that are handed to gjson and sjson (\<open>tidwall.go\<close>), the getters, setters and
  soft getters of both implementations (\<open>tidwall.go\<close>, \<open>grafana.go\<close>) and the switch between them
  (\<open>switcher.go\<close>). JSON texts and path segments are byte strings.

  The libraries are parameters: what a lookup in a text returns, and what an assignment makes of it. A float64 is its
  64 bits, and \<open>trunc\<close> converts it to an int64.
\<close>

subsection \<open>Paths\<close>

definition isSignedInteger :: "gostr \<Rightarrow> bool" where
  "isSignedInteger s =
     (case s of
        [] \<Rightarrow> False
      | c # cs \<Rightarrow> if c = 43 \<or> c = 45 then cs \<noteq> [] \<and> list_all is_digit cs else list_all is_digit s)"

definition isArrayIndexPath :: "gostr \<Rightarrow> bool" where
  "isArrayIndexPath key \<longleftrightarrow> \<not> (length key < 3 \<or> hd key \<noteq> 91 \<or> last key \<noteq> 93) \<and> isSignedInteger (butlast (tl key))"

definition isNumericPathComponent :: "gostr \<Rightarrow> bool" where
  "isNumericPathComponent key = isSignedInteger key"

definition isSafeTidwallPathKeyChar :: "nat \<Rightarrow> bool" where
  "isSafeTidwallPathKeyChar c \<longleftrightarrow> (97 \<le> c \<and> c \<le> 122) \<or> (65 \<le> c \<and> c \<le> 90) \<or> (48 \<le> c \<and> c \<le> 57) \<or> c \<le> 32 \<or> 126 < c
     \<or> c = 95 \<or> c = 45"

definition needsTidwallEscaping :: "gostr \<Rightarrow> bool" where
  "needsTidwallEscaping key \<longleftrightarrow> \<not> list_all isSafeTidwallPathKeyChar key"

definition escapeTidwallPathComponent :: "gostr \<Rightarrow> gostr" where
  "escapeTidwallPathComponent key = concat (map (\<lambda>c. if isSafeTidwallPathKeyChar c then [c] else [92, c]) key)"

text \<open>The first loop of \<open>tryFastTidwallPath\<close> decides, the second writes.\<close>

fun fast_ok :: "gostr list \<Rightarrow> bool" where
  "fast_ok [] = True"
| "fast_ok (key # path) =
     (if isArrayIndexPath key then fast_ok path
      else if key = [] \<or> 46 \<in> set key then False
      else if isNumericPathComponent key \<or> needsTidwallEscaping key then False
      else fast_ok path)"

definition tryFastTidwallPath :: "gostr list \<Rightarrow> gostr option" where
  "tryFastTidwallPath path =
     (if path = [] then Some []
      else if \<not> fast_ok path then None
      else Some (Join (map (\<lambda>key. if isArrayIndexPath key then butlast (tl key) else key) path) [46]))"

definition path_part :: "(gostr \<Rightarrow> gostr) \<Rightarrow> gostr \<Rightarrow> gostr" where
  "path_part formatNumericKey key =
     (if isArrayIndexPath key then butlast (tl key)
      else if isNumericPathComponent key then formatNumericKey key
      else escapeTidwallPathComponent key)"

definition buildTidwallPath :: "gostr list \<Rightarrow> (gostr \<Rightarrow> gostr) \<Rightarrow> gostr" where
  "buildTidwallPath path formatNumericKey = (if path = [] then [] else Join (map (path_part formatNumericKey) path) [46])"

definition getPath :: "gostr list \<Rightarrow> gostr" where
  "getPath path = (case tryFastTidwallPath path of Some fastPath \<Rightarrow> fastPath | None \<Rightarrow> buildTidwallPath path (\<lambda>key. 92 # key))"

definition mutationPath :: "gostr list \<Rightarrow> gostr" where
  "mutationPath path = (case tryFastTidwallPath path of Some fastPath \<Rightarrow> fastPath | None \<Rightarrow> buildTidwallPath path (\<lambda>key. 58 # key))"

lemma escape_safe: "\<not> needsTidwallEscaping key \<Longrightarrow> escapeTidwallPathComponent key = key"
  by (induction key) (auto simp: needsTidwallEscaping_def escapeTidwallPathComponent_def)

lemma fast_parts: "fast_ok path \<Longrightarrow> map (\<lambda>key. if isArrayIndexPath key then butlast (tl key) else key) path = map (path_part f) path"
  by (induction path) (auto simp: path_part_def escape_safe split: if_splits)

lemma fast_join:
  "fast_ok path \<Longrightarrow> Join (map (\<lambda>key. if isArrayIndexPath key then butlast (tl key) else key) path) sep = Join (map (path_part f) path) sep"
  by (simp only: fast_parts[of path f])

lemma getPath_build: "getPath path = buildTidwallPath path (\<lambda>key. 92 # key)"
  using fast_join[of path "[46]" "\<lambda>key. 92 # key"] by (simp add: getPath_def tryFastTidwallPath_def buildTidwallPath_def)

lemma mutationPath_build: "mutationPath path = buildTidwallPath path (\<lambda>key. 58 # key)"
  using fast_join[of path "[46]" "\<lambda>key. 58 # key"] by (simp add: mutationPath_def tryFastTidwallPath_def buildTidwallPath_def)

text \<open>How a path is read: a backslash takes the meaning from the next byte, a dot without one ends a component. A byte
  comes with the mark whether it was escaped.\<close>

fun read_path :: "(nat \<times> bool) list \<Rightarrow> gostr \<Rightarrow> (nat \<times> bool) list list" where
  "read_path acc [] = [rev acc]"
| "read_path acc (c # cs) =
     (if c = 92 then (case cs of [] \<Rightarrow> [rev acc] | d # ds \<Rightarrow> read_path ((d, True) # acc) ds)
      else if c = 46 then rev acc # read_path [] cs
      else read_path ((c, False) # acc) cs)"

text \<open>The component of a segment, with its marks.\<close>

definition marked :: "gostr \<Rightarrow> (nat \<times> bool) list" where
  "marked key =
     (if isArrayIndexPath key then map (\<lambda>c. (c, False)) (butlast (tl key))
      else if isNumericPathComponent key then (hd key, True) # map (\<lambda>c. (c, False)) (tl key)
      else map (\<lambda>c. (c, \<not> isSafeTidwallPathKeyChar c)) key)"

lemma read_plain:
  "list_all (\<lambda>c. c \<noteq> 92 \<and> c \<noteq> 46) w \<Longrightarrow> read_path acc (w @ cs) = read_path (rev (map (\<lambda>c. (c, False)) w) @ acc) cs"
  by (induction w arbitrary: acc) auto

lemma read_escaped:
  "read_path acc (escapeTidwallPathComponent w @ cs) = read_path (rev (map (\<lambda>c. (c, \<not> isSafeTidwallPathKeyChar c)) w) @ acc) cs"
  by (induction w arbitrary: acc) (auto simp: escapeTidwallPathComponent_def isSafeTidwallPathKeyChar_def)

lemma signed_plain: "isSignedInteger s \<Longrightarrow> list_all (\<lambda>c. c \<noteq> 92 \<and> c \<noteq> 46) s \<and> s \<noteq> []"
  by (auto simp: isSignedInteger_def list_all_iff is_digit_def split: list.splits if_splits)

lemma read_part: "read_path acc (path_part (\<lambda>key. 92 # key) key @ cs) = read_path (rev (marked key) @ acc) cs"
proof (cases "isArrayIndexPath key")
  case True
  then show ?thesis
    using signed_plain[of "butlast (tl key)"] by (simp add: path_part_def marked_def read_plain isArrayIndexPath_def)
next
  case False
  show ?thesis
  proof (cases "isNumericPathComponent key")
    case True
    then obtain c w where "key = c # w" "list_all (\<lambda>c. c \<noteq> 92 \<and> c \<noteq> 46) w"
      using signed_plain[of key] by (cases key) (auto simp: isNumericPathComponent_def)
    then show ?thesis using False True by (simp add: path_part_def marked_def read_plain)
  qed (use False in \<open>simp add: path_part_def marked_def read_escaped\<close>)
qed

lemma read_getPath: "read_path [] (getPath (key # path)) = map marked (key # path)"
proof (induction path arbitrary: key)
  case Nil
  then show ?case using read_part[of "[]" key "[]"] by (simp add: getPath_build buildTidwallPath_def)
next
  case (Cons k path)
  then show ?case
    using read_part[of "[]" key "46 # getPath (k # path)"] by (simp add: getPath_build buildTidwallPath_def)
qed

lemma marked_fst: "map fst (marked k) = (if isArrayIndexPath k then butlast (tl k) else k)"
  using signed_plain[of k] by (auto simp: marked_def isNumericPathComponent_def o_def)

lemma index_parts: "isArrayIndexPath k \<Longrightarrow> k = 91 # butlast (tl k) @ [93]"
  by (cases k; cases "tl k" rule: rev_cases) (auto simp: isArrayIndexPath_def)

lemma marked_index_other:
  assumes "isArrayIndexPath k" "\<not> isArrayIndexPath k'"
  shows "marked k \<noteq> marked k'"
proof
  assume e: "marked k = marked k'"
  then have "butlast (tl k) = k'" using assms marked_fst[of k] marked_fst[of k'] by metis
  then have "isNumericPathComponent k'" "k' \<noteq> []"
    using assms(1) signed_plain by (auto simp: isArrayIndexPath_def isNumericPathComponent_def)
  then have "snd (hd (marked k'))" "\<not> snd (hd (marked k))"
    using assms signed_plain[of "butlast (tl k)"] by (auto simp: marked_def hd_map isArrayIndexPath_def)
  then show False using e by simp
qed

lemma marked_inject: "marked k = marked k' \<longleftrightarrow> k = k'"
proof
  assume e: "marked k = marked k'"
  then have "isArrayIndexPath k = isArrayIndexPath k'" using marked_index_other by metis
  then show "k = k'" using e marked_fst[of k] marked_fst[of k'] index_parts by metis
qed simp

text \<open>The path given to gjson is that of the slow construction, whether or not the fast one applied; read back, it
  has one component per segment, in which the bytes of an object key that mean something to gjson are all escaped; and two
  paths are the same only for the same segments.\<close>

lemma getPath_exact:
  "getPath path = buildTidwallPath path (\<lambda>key. 92 # key) \<and> mutationPath path = buildTidwallPath path (\<lambda>key. 58 # key)
   \<and> read_path [] (getPath (key # path)) = map marked (key # path)
   \<and> (getPath (key # path) = getPath (key' # path')) = (key # path = key' # path')"
proof -
  have "getPath (key # path) = getPath (key' # path') \<Longrightarrow> map marked (key # path) = map marked (key' # path')"
    by (metis read_getPath)
  then have "getPath (key # path) = getPath (key' # path') \<Longrightarrow> key # path = key' # path'"
    by (metis (no_types, lifting) inj_def list.inj_map marked_inject)
  then show ?thesis using getPath_build mutationPath_build read_getPath by blast
qed

text \<open>A dot inside a segment is part of the key.\<close>

lemma getPath_dot: "getPath [lit ''a.b''] = lit ''a'' @ [92] @ lit ''.b''"
  by (simp add: getPath_build buildTidwallPath_def path_part_def isArrayIndexPath_def isNumericPathComponent_def
    isSignedInteger_def escapeTidwallPathComponent_def isSafeTidwallPathKeyChar_def is_digit_def lit_def)

subsection \<open>The tidwall implementation\<close>

datatype 'x json_error = ErrKeyNotFound | ErrEmptyJSON | ErrNoKeysProvided | ErrEmptyKey | ErrNotOfExpectedType | LibError 'x

datatype gtype = GNull | GFalse | GNumber | GString | GTrue | GJSON

text \<open>A gjson result.\<close>

record gresult =
  RExists :: bool
  RType :: gtype
  RRaw :: gostr
  RBool :: bool
  RInt :: "64 word"
  RFloat :: u64
  RStr :: gostr

text \<open>The checks at the head of the getters.\<close>

definition checks :: "gostr \<Rightarrow> gostr list \<Rightarrow> 'x json_error option" where
  "checks data path =
     (if data = [] then Some ErrEmptyJSON
      else if path = [] then Some ErrNoKeysProvided
      else if hd path = [] then Some ErrEmptyKey
      else None)"

definition tid_get :: "(gostr \<Rightarrow> gostr \<Rightarrow> gresult) \<Rightarrow> (gresult \<Rightarrow> 'x json_error + 'a) \<Rightarrow> gostr \<Rightarrow> gostr list \<Rightarrow> 'x json_error + 'a" where
  "tid_get gjson f data path =
     (case checks data path of
        Some e \<Rightarrow> Inl e
      | None \<Rightarrow> let result = gjson data (getPath path) in if \<not> RExists result then Inl ErrKeyNotFound else f result)"

definition tid_GetValue :: "(gostr \<Rightarrow> gostr \<Rightarrow> gresult) \<Rightarrow> gostr \<Rightarrow> gostr list \<Rightarrow> 'x json_error + gostr" where
  "tid_GetValue gjson = tid_get gjson (\<lambda>r. Inr (RRaw r))"

definition tid_GetBoolean :: "(gostr \<Rightarrow> gostr \<Rightarrow> gresult) \<Rightarrow> gostr \<Rightarrow> gostr list \<Rightarrow> 'x json_error + bool" where
  "tid_GetBoolean gjson = tid_get gjson (\<lambda>r. if RType r \<noteq> GTrue \<and> RType r \<noteq> GFalse then Inl ErrNotOfExpectedType else Inr (RBool r))"

definition tid_GetInt :: "(gostr \<Rightarrow> gostr \<Rightarrow> gresult) \<Rightarrow> gostr \<Rightarrow> gostr list \<Rightarrow> 'x json_error + 64 word" where
  "tid_GetInt gjson = tid_get gjson (\<lambda>r. if RType r \<noteq> GNumber then Inl ErrNotOfExpectedType else Inr (RInt r))"

definition tid_GetFloat :: "(gostr \<Rightarrow> gostr \<Rightarrow> gresult) \<Rightarrow> gostr \<Rightarrow> gostr list \<Rightarrow> 'x json_error + u64" where
  "tid_GetFloat gjson = tid_get gjson (\<lambda>r. if RType r \<noteq> GNumber then Inl ErrNotOfExpectedType else Inr (RFloat r))"

definition tid_GetString :: "(gostr \<Rightarrow> gostr \<Rightarrow> gresult) \<Rightarrow> gostr \<Rightarrow> gostr list \<Rightarrow> 'x json_error + gostr" where
  "tid_GetString gjson = tid_get gjson (\<lambda>r. if RType r \<noteq> GString then Inl ErrNotOfExpectedType else Inr (RStr r))"

text \<open>The soft getters: \<open>z\<close> is what they return before they look.\<close>

definition tid_soft :: "(gostr \<Rightarrow> gostr \<Rightarrow> gresult) \<Rightarrow> 'a \<Rightarrow> (gresult \<Rightarrow> 'a) \<Rightarrow> gostr \<Rightarrow> gostr list \<Rightarrow> 'a" where
  "tid_soft gjson z f data path =
     (if data = [] \<or> path = [] then z else if hd path = [] then z else f (gjson data (getPath path)))"

definition tid_GetValueOrEmpty :: "(gostr \<Rightarrow> gostr \<Rightarrow> gresult) \<Rightarrow> gostr \<Rightarrow> gostr list \<Rightarrow> gostr" where
  "tid_GetValueOrEmpty gjson = tid_soft gjson [] (\<lambda>r. if \<not> RExists r then [] else RRaw r)"

definition tid_GetBooleanOrFalse :: "(gostr \<Rightarrow> gostr \<Rightarrow> gresult) \<Rightarrow> gostr \<Rightarrow> gostr list \<Rightarrow> bool" where
  "tid_GetBooleanOrFalse gjson = tid_soft gjson False RBool"

definition tid_GetIntOrZero :: "(gostr \<Rightarrow> gostr \<Rightarrow> gresult) \<Rightarrow> gostr \<Rightarrow> gostr list \<Rightarrow> 64 word" where
  "tid_GetIntOrZero gjson = tid_soft gjson 0 RInt"

definition tid_GetFloatOrZero :: "(gostr \<Rightarrow> gostr \<Rightarrow> gresult) \<Rightarrow> gostr \<Rightarrow> gostr list \<Rightarrow> u64" where
  "tid_GetFloatOrZero gjson = tid_soft gjson 0 RFloat"

definition tid_GetStringOrEmpty :: "(gostr \<Rightarrow> gostr \<Rightarrow> gresult) \<Rightarrow> gostr \<Rightarrow> gostr list \<Rightarrow> gostr" where
  "tid_GetStringOrEmpty gjson = tid_soft gjson [] RStr"

definition tid_SetValue :: "(gostr \<Rightarrow> gostr \<Rightarrow> 'v \<Rightarrow> 'x + gostr) \<Rightarrow> gostr \<Rightarrow> 'v \<Rightarrow> gostr list \<Rightarrow> 'x json_error + gostr" where
  "tid_SetValue sjson_Set data v path =
     (let data = (if data = [] then lit ''{}'' else data)
      in if path = [] then Inl ErrNoKeysProvided
         else if [] \<in> set path then Inl ErrEmptyKey
         else case sjson_Set data (mutationPath path) v of Inl e \<Rightarrow> Inl (LibError e) | Inr r \<Rightarrow> Inr r)"

definition tid_DeleteKey :: "(gostr \<Rightarrow> gostr \<Rightarrow> 'x + gostr) \<Rightarrow> gostr \<Rightarrow> gostr list \<Rightarrow> 'x json_error + gostr" where
  "tid_DeleteKey sjson_Delete data path =
     (case checks data path of
        Some e \<Rightarrow> Inl e
      | None \<Rightarrow> (case sjson_Delete data (mutationPath path) of Inl e \<Rightarrow> Inl (LibError e) | Inr r \<Rightarrow> Inr r))"

subsection \<open>The grafana implementation\<close>

datatype dtype = NotExist | DString | DNumber | DObject | DArray | DBoolean | DNull | DUnknown

datatype 'x lib_error = KeyPathNotFound | OtherError 'x

text \<open>The library: a lookup, the parsers of a value (what they return and their error), and the conversion of a float to
  an int64.\<close>

record 'x glib =
  lib_Get :: "gostr \<Rightarrow> gostr list \<Rightarrow> 'x lib_error + gostr \<times> dtype"
  lib_ParseBoolean :: "gostr \<Rightarrow> bool \<times> 'x option"
  lib_ParseFloat :: "gostr \<Rightarrow> u64 \<times> 'x option"
  lib_ParseString :: "gostr \<Rightarrow> gostr \<times> 'x option"
  trunc :: "u64 \<Rightarrow> 64 word"

definition graf_get :: "'x glib \<Rightarrow> (gostr \<Rightarrow> dtype \<Rightarrow> 'x json_error + 'a) \<Rightarrow> gostr \<Rightarrow> gostr list \<Rightarrow> 'x json_error + 'a" where
  "graf_get G f data path =
     (case checks data path of
        Some e \<Rightarrow> Inl e
      | None \<Rightarrow> (case lib_Get G data path of
                   Inl KeyPathNotFound \<Rightarrow> Inl ErrKeyNotFound
                 | Inl (OtherError x) \<Rightarrow> Inl (LibError x)
                 | Inr (v, t) \<Rightarrow> f v t))"

definition result_of :: "'a \<times> 'x option \<Rightarrow> 'x json_error + 'a" where
  "result_of r = (case snd r of None \<Rightarrow> Inr (fst r) | Some x \<Rightarrow> Inl (LibError x))"

definition quoted :: "gostr \<Rightarrow> dtype \<Rightarrow> gostr" where
  "quoted v t = (if t = DString then [34] @ v @ [34] else v)"

definition graf_GetValue :: "'x glib \<Rightarrow> gostr \<Rightarrow> gostr list \<Rightarrow> 'x json_error + gostr" where
  "graf_GetValue G = graf_get G (\<lambda>v t. Inr (quoted v t))"

definition graf_GetBoolean :: "'x glib \<Rightarrow> gostr \<Rightarrow> gostr list \<Rightarrow> 'x json_error + bool" where
  "graf_GetBoolean G = graf_get G (\<lambda>v t. if t \<noteq> DBoolean then Inl ErrNotOfExpectedType else result_of (lib_ParseBoolean G v))"

definition graf_GetInt :: "'x glib \<Rightarrow> gostr \<Rightarrow> gostr list \<Rightarrow> 'x json_error + 64 word" where
  "graf_GetInt G = graf_get G (\<lambda>v t. if t \<noteq> DNumber then Inl ErrNotOfExpectedType
     else case snd (lib_ParseFloat G v) of Some x \<Rightarrow> Inl (LibError x) | None \<Rightarrow> Inr (trunc G (fst (lib_ParseFloat G v))))"

definition graf_GetFloat :: "'x glib \<Rightarrow> gostr \<Rightarrow> gostr list \<Rightarrow> 'x json_error + u64" where
  "graf_GetFloat G = graf_get G (\<lambda>v t. if t \<noteq> DNumber then Inl ErrNotOfExpectedType else result_of (lib_ParseFloat G v))"

definition graf_GetString :: "'x glib \<Rightarrow> gostr \<Rightarrow> gostr list \<Rightarrow> 'x json_error + gostr" where
  "graf_GetString G = graf_get G (\<lambda>v t. if t \<noteq> DString then Inl ErrNotOfExpectedType else result_of (lib_ParseString G v))"

text \<open>\<open>strconv.ParseBool\<close>, whose value beside an error is false.\<close>

definition ParseBool :: "gostr \<Rightarrow> bool" where
  "ParseBool s \<longleftrightarrow> s \<in> set (map lit [''1'', ''t'', ''T'', ''TRUE'', ''true'', ''True''])"

definition parseBool :: "'x glib \<Rightarrow> gostr \<Rightarrow> dtype \<Rightarrow> bool" where
  "parseBool G v t =
     (if t = DBoolean \<or> t = DString then ParseBool (ToLower v)
      else if t = DNumber then fst (lib_ParseFloat G v) \<noteq> 0 \<and> fst (lib_ParseFloat G v) \<noteq> 0x8000000000000000
      else False)"

definition parseInt :: "'x glib \<Rightarrow> gostr \<Rightarrow> dtype \<Rightarrow> 64 word" where
  "parseInt G v t =
     (if t = DNumber \<or> t = DString then trunc G (fst (lib_ParseFloat G v))
      else if t = DBoolean
      then (case lib_ParseBoolean G v of (b, Some x) \<Rightarrow> 0 | (b, None) \<Rightarrow> if b then 1 else 0)
      else 0)"

definition parseFloat :: "'x glib \<Rightarrow> gostr \<Rightarrow> dtype \<Rightarrow> u64" where
  "parseFloat G v t =
     (if t = DNumber \<or> t = DString then fst (lib_ParseFloat G v)
      else if t = DBoolean then (if ParseBool (ToLower v) then 0x3FF0000000000000 else 0)
      else 0)"

definition parseString :: "'x glib \<Rightarrow> gostr \<Rightarrow> dtype \<Rightarrow> gostr" where
  "parseString G v t =
     (if t = DString \<or> t = DBoolean \<or> t = DNumber then fst (lib_ParseString G v) else if t = DNull then [] else v)"

definition graf_soft :: "'x glib \<Rightarrow> 'a \<Rightarrow> (gostr \<Rightarrow> dtype \<Rightarrow> 'a) \<Rightarrow> gostr \<Rightarrow> gostr list \<Rightarrow> 'a" where
  "graf_soft G z f data path =
     (if data = [] \<or> path = [] then z else if hd path = [] then z
      else case lib_Get G data path of Inl e \<Rightarrow> z | Inr (v, t) \<Rightarrow> f v t)"

definition graf_GetValueOrEmpty :: "'x glib \<Rightarrow> gostr \<Rightarrow> gostr list \<Rightarrow> gostr" where
  "graf_GetValueOrEmpty G = graf_soft G [] quoted"

definition graf_GetBooleanOrFalse :: "'x glib \<Rightarrow> gostr \<Rightarrow> gostr list \<Rightarrow> bool" where
  "graf_GetBooleanOrFalse G = graf_soft G False (parseBool G)"

definition graf_GetIntOrZero :: "'x glib \<Rightarrow> gostr \<Rightarrow> gostr list \<Rightarrow> 64 word" where
  "graf_GetIntOrZero G = graf_soft G 0 (parseInt G)"

definition graf_GetFloatOrZero :: "'x glib \<Rightarrow> gostr \<Rightarrow> gostr list \<Rightarrow> u64" where
  "graf_GetFloatOrZero G = graf_soft G 0 (parseFloat G)"

definition graf_GetStringOrEmpty :: "'x glib \<Rightarrow> gostr \<Rightarrow> gostr list \<Rightarrow> gostr" where
  "graf_GetStringOrEmpty G = graf_soft G [] (parseString G)"

text \<open>\<open>SetValue\<close>: a value of type \<open>any\<close>, with what \<open>jsonrs.Marshal\<close> makes of those of other types, and the strings that
  \<open>FormatInt\<close>, \<open>FormatFloat\<close> (a parameter) and \<open>strconv.Quote\<close> print.\<close>

datatype 'v jvalue = JString gostr | JBool bool | JInt "64 word" | JFloat u64 | JOther 'v

definition hex_digit :: "nat \<Rightarrow> rune" where
  "hex_digit n = (if n < 10 then 48 + n else 87 + n)"

definition hex4 :: "nat \<Rightarrow> gostr" where
  "hex4 r = map (\<lambda>k. hex_digit (r div 16 ^ k mod 16)) [3, 2, 1, 0]"

definition hex8 :: "nat \<Rightarrow> gostr" where
  "hex8 r = map (\<lambda>k. hex_digit (r div 16 ^ k mod 16)) [7, 6, 5, 4, 3, 2, 1, 0]"

text \<open>\<open>strconv.Quote\<close> on the runes of a valid string; \<open>printable\<close> is \<open>strconv.IsPrint\<close>.\<close>

definition quote_rune :: "(rune \<Rightarrow> bool) \<Rightarrow> rune \<Rightarrow> gostr" where
  "quote_rune printable r =
     (if r = 34 \<or> r = 92 then [92, r]
      else if printable r then [r]
      else if r = 7 then [92, 97] else if r = 8 then [92, 98] else if r = 12 then [92, 102]
      else if r = 10 then [92, 110] else if r = 13 then [92, 114] else if r = 9 then [92, 116] else if r = 11 then [92, 118]
      else if r < 32 \<or> r = 127 then [92, 120, hex_digit (r div 16), hex_digit (r mod 16)]
      else if r < 0x10000 then [92, 117] @ hex4 r
      else [92, 85] @ hex8 r)"

definition Quote :: "(rune \<Rightarrow> bool) \<Rightarrow> gostr \<Rightarrow> gostr" where
  "Quote printable s = [34] @ concat (map (quote_rune printable) s) @ [34]"

definition value_bytes :: "(rune \<Rightarrow> bool) \<Rightarrow> (u64 \<Rightarrow> gostr) \<Rightarrow> ('v \<Rightarrow> 'x + gostr) \<Rightarrow> 'v jvalue \<Rightarrow> 'x + gostr" where
  "value_bytes printable FormatFloat Marshal v =
     (case v of
        JString s \<Rightarrow> Inr (Quote printable s)
      | JBool b \<Rightarrow> Inr (if b then lit ''true'' else lit ''false'')
      | JInt i \<Rightarrow> Inr (int_str (sint i))
      | JFloat f \<Rightarrow> Inr (FormatFloat f)
      | JOther x \<Rightarrow> Marshal x)"

definition graf_SetValue :: "(rune \<Rightarrow> bool) \<Rightarrow> (u64 \<Rightarrow> gostr) \<Rightarrow> ('v \<Rightarrow> 'x + gostr) \<Rightarrow> (gostr \<Rightarrow> gostr \<Rightarrow> gostr list \<Rightarrow> 'x + gostr) \<Rightarrow>
    gostr \<Rightarrow> 'v jvalue \<Rightarrow> gostr list \<Rightarrow> 'x json_error + gostr" where
  "graf_SetValue printable FormatFloat Marshal lib_Set data v path =
     (let data = (if data = [] then lit ''{}'' else data)
      in if path = [] then Inl ErrNoKeysProvided
         else if [] \<in> set path then Inl ErrEmptyKey
         else case value_bytes printable FormatFloat Marshal v of
                Inl e \<Rightarrow> Inl (LibError e)
              | Inr b \<Rightarrow> (case lib_Set data b path of Inl e \<Rightarrow> Inl (LibError e) | Inr r \<Rightarrow> Inr r))"

definition graf_DeleteKey :: "(gostr \<Rightarrow> gostr list \<Rightarrow> gostr) \<Rightarrow> gostr \<Rightarrow> gostr list \<Rightarrow> 'x json_error + gostr" where
  "graf_DeleteKey lib_Delete data path = (case checks data path of Some e \<Rightarrow> Inl e | None \<Rightarrow> Inr (lib_Delete data path))"

subsection \<open>The choice of the implementation\<close>

datatype library = Tidwall | Grafana

definition impls :: "gostr \<Rightarrow> library option" where
  "impls nm = (if nm = lit ''tidwall'' then Some Tidwall else if nm = lit ''grafana'' then Some Grafana else None)"

definition switch :: "gostr \<Rightarrow> library" where
  "switch nm = (case impls nm of Some l \<Rightarrow> l | None \<Rightarrow> Grafana)"

definition NewWithLibrary :: "gostr \<Rightarrow> library" where
  "NewWithLibrary nm = (if nm = lit ''tidwall'' then Tidwall else if nm = lit ''grafana'' then Grafana else Tidwall)"

text \<open>An unknown name is the grafana implementation for the switch, and the other one for \<open>NewWithLibrary\<close>.\<close>

lemma unknown_library: "impls nm = None \<Longrightarrow> switch nm = Grafana \<and> NewWithLibrary nm = Tidwall"
  by (auto simp: impls_def switch_def NewWithLibrary_def split: if_splits)

text \<open>The getters look at the first segment only; an empty one after it is no error.\<close>

lemma checks_first_only: "checks [c] [[c'], []] = (None :: 'x json_error option)"
  by (simp add: checks_def)

subsection \<open>Soft getters and getters\<close>

text \<open>Where a getter returns a value, the soft getter of the same implementation returns it too. The library parses
  the booleans of JSON and nothing else.\<close>

lemma soft_getters_agree:
  assumes "\<And>v b. lib_ParseBoolean G v = (b, None) \<Longrightarrow> v = lit (if b then ''true'' else ''false'')"
  shows "tid_GetValue gjson d p \<in> insert (Inr (tid_GetValueOrEmpty gjson d p)) (range (Inl :: 'x json_error \<Rightarrow> _))
    \<and> tid_GetBoolean gjson d p \<in> insert (Inr (tid_GetBooleanOrFalse gjson d p)) (range (Inl :: 'x json_error \<Rightarrow> _))
    \<and> tid_GetInt gjson d p \<in> insert (Inr (tid_GetIntOrZero gjson d p)) (range (Inl :: 'x json_error \<Rightarrow> _))
    \<and> tid_GetFloat gjson d p \<in> insert (Inr (tid_GetFloatOrZero gjson d p)) (range (Inl :: 'x json_error \<Rightarrow> _))
    \<and> tid_GetString gjson d p \<in> insert (Inr (tid_GetStringOrEmpty gjson d p)) (range (Inl :: 'x json_error \<Rightarrow> _))
    \<and> graf_GetValue G d p \<in> insert (Inr (graf_GetValueOrEmpty G d p)) (range Inl)
    \<and> graf_GetBoolean G d p \<in> insert (Inr (graf_GetBooleanOrFalse G d p)) (range Inl)
    \<and> graf_GetInt G d p \<in> insert (Inr (graf_GetIntOrZero G d p)) (range Inl)
    \<and> graf_GetFloat G d p \<in> insert (Inr (graf_GetFloatOrZero G d p)) (range Inl)
    \<and> graf_GetString G d p \<in> insert (Inr (graf_GetStringOrEmpty G d p)) (range Inl)"
proof -
  have tid: "tid_get gjson f d p \<in> insert (Inr (tid_soft gjson z g d p)) (range Inl)"
    if "\<And>r. RExists r \<Longrightarrow> f r \<in> insert (Inr (g r)) (range Inl)" for f :: "gresult \<Rightarrow> 'x json_error + 'c" and z g
    using that by (simp add: tid_get_def tid_soft_def checks_def Let_def)
  have graf: "graf_get G f d p \<in> insert (Inr (graf_soft G z g d p)) (range Inl)"
    if "\<And>v t. f v t \<in> insert (Inr (g v t)) (range Inl)" for f :: "gostr \<Rightarrow> dtype \<Rightarrow> 'a json_error + 'c" and z g
    using that by (auto simp: graf_get_def graf_soft_def checks_def split: sum.split lib_error.split)
  have bool: "result_of (lib_ParseBoolean G v) \<in> insert (Inr (ParseBool (ToLower v))) (range Inl)" for v
    using assms[of v "fst (lib_ParseBoolean G v)"]
    by (cases "lib_ParseBoolean G v"; cases "snd (lib_ParseBoolean G v)")
       (auto simp: result_of_def ParseBool_def ToLower_def to_lower_def is_upper_def lit_def)
  show ?thesis
    unfolding tid_GetValue_def tid_GetValueOrEmpty_def tid_GetBoolean_def tid_GetBooleanOrFalse_def tid_GetInt_def
      tid_GetIntOrZero_def tid_GetFloat_def tid_GetFloatOrZero_def tid_GetString_def tid_GetStringOrEmpty_def
      graf_GetValue_def graf_GetValueOrEmpty_def graf_GetBoolean_def graf_GetBooleanOrFalse_def graf_GetInt_def
      graf_GetIntOrZero_def graf_GetFloat_def graf_GetFloatOrZero_def graf_GetString_def graf_GetStringOrEmpty_def
    by (intro conjI tid graf) (use bool in \<open>auto simp: parseBool_def parseInt_def parseFloat_def parseString_def result_of_def split: option.split\<close>)
qed

definition demo_glib :: "unit glib" where
  "demo_glib = \<lparr>lib_Get = (\<lambda>d p. if p = [[97]] then Inr (lit ''true'', DBoolean) else Inl KeyPathNotFound),
     lib_ParseBoolean = (\<lambda>v. if v = lit ''true'' then (True, None) else if v = lit ''false'' then (False, None) else (False, Some ())),
     lib_ParseFloat = (\<lambda>v. (0, Some ())), lib_ParseString = (\<lambda>v. (v, None)), trunc = (\<lambda>x. 0)\<rparr>"

lemma soft_getters_agree_witness:
  "graf_GetBoolean demo_glib [123] [[97]] = Inr True \<and> graf_GetBooleanOrFalse demo_glib [123] [[97]]"
proof -
  have g: "lib_ParseBoolean demo_glib v = (b, None) \<Longrightarrow> v = lit (if b then ''true'' else ''false'')" for v b
    by (auto simp: demo_glib_def split: if_splits)
  have b: "graf_GetBoolean demo_glib [123] [[97]] = Inr True"
    by (simp add: graf_GetBoolean_def graf_get_def checks_def demo_glib_def result_of_def)
  then show ?thesis using soft_getters_agree[where G = demo_glib, OF g, where d = "[123]" and p = "[[97]]"] by auto
qed

subsection \<open>Strings that are set\<close>

text \<open>The rest of a JSON string after its opening quote.\<close>

definition unhex :: "rune \<Rightarrow> nat option" where
  "unhex r = (if 48 \<le> r \<and> r \<le> 57 then Some (r - 48) else if 97 \<le> r \<and> r \<le> 102 then Some (r - 87)
     else if 65 \<le> r \<and> r \<le> 70 then Some (r - 55) else None)"

definition unhex4 :: "rune \<Rightarrow> rune \<Rightarrow> rune \<Rightarrow> rune \<Rightarrow> nat option" where
  "unhex4 a b c d =
     (case (unhex a, unhex b, unhex c, unhex d) of
        (Some a, Some b, Some c, Some d) \<Rightarrow> Some (((a * 16 + b) * 16 + c) * 16 + d)
      | _ \<Rightarrow> None)"

definition json_escape :: "rune \<Rightarrow> rune option" where
  "json_escape r = (if r = 34 \<or> r = 92 \<or> r = 47 then Some r else if r = 98 then Some 8 else if r = 102 then Some 12
     else if r = 110 then Some 10 else if r = 114 then Some 13 else if r = 116 then Some 9 else None)"

fun json_read :: "gostr \<Rightarrow> gostr option" where
  "json_read [] = None"
| "json_read (c # cs) =
     (if c = 34 then (if cs = [] then Some [] else None)
      else if c < 32 then None
      else if c = 92
      then (case cs of
              [] \<Rightarrow> None
            | d # ds \<Rightarrow>
                if d = 117
                then (case ds of
                        a # b # e # f # rest \<Rightarrow>
                          (case unhex4 a b e f of None \<Rightarrow> None | Some v \<Rightarrow> map_option ((#) v) (json_read rest))
                      | _ \<Rightarrow> None)
                else (case json_escape d of None \<Rightarrow> None | Some v \<Rightarrow> map_option ((#) v) (json_read ds)))
      else map_option ((#) c) (json_read cs))"

lemma unhex_digit: "n < 16 \<Longrightarrow> unhex (hex_digit n) = Some n"
  by (simp add: unhex_def hex_digit_def)

lemma unhex4_hex4:
  assumes "r < 0x10000"
  shows "\<exists>a b c d. hex4 r = [a, b, c, d] \<and> unhex4 a b c d = Some r"
proof -
  have "(((r div 4096 * 16 + r div 256 mod 16) * 16 + r div 16 mod 16) * 16 + r mod 16) = r"
  proof -
    have "r div 4096 * 16 + r div 256 mod 16 = r div 256" using div_mult2_eq[of r 256 16] by simp
    moreover have "r div 256 * 16 + r div 16 mod 16 = r div 16" using div_mult2_eq[of r 16 16] by simp
    ultimately show ?thesis by simp
  qed
  moreover have "r div 4096 < 16" using assms by simp
  ultimately show ?thesis by (simp add: hex4_def unhex4_def unhex_digit)
qed

definition json_rune :: "(rune \<Rightarrow> bool) \<Rightarrow> rune \<Rightarrow> bool" where
  "json_rune printable r \<longleftrightarrow> r = 34 \<or> r = 92 \<or> printable r \<or> r = 8 \<or> r = 9 \<or> r = 10 \<or> r = 12 \<or> r = 13
     \<or> (32 \<le> r \<and> r \<noteq> 127 \<and> r < 0x10000)"

lemma json_read_escape: "d \<noteq> 117 \<Longrightarrow> json_read (92 # d # ds) = (case json_escape d of None \<Rightarrow> None | Some v \<Rightarrow> map_option ((#) v) (json_read ds))"
  by simp

lemma json_read_plain: "32 \<le> c \<Longrightarrow> c \<noteq> 34 \<Longrightarrow> c \<noteq> 92 \<Longrightarrow> json_read (c # cs) = map_option ((#) c) (json_read cs)"
  by simp

lemma json_read_quote:
  assumes "printable r \<Longrightarrow> 32 \<le> r"
  shows "json_read (quote_rune printable r @ rest) = (if json_rune printable r then map_option ((#) r) (json_read rest) else None)"
proof -
  consider "r = 34 \<or> r = 92" | "printable r" "r \<noteq> 34" "r \<noteq> 92" | "\<not> printable r" "r \<noteq> 34" "r \<noteq> 92" "r < 32 \<or> r = 127 \<or> 0x10000 \<le> r"
    | "\<not> printable r" "r \<noteq> 34" "r \<noteq> 92" "32 \<le> r" "r \<noteq> 127" "r < 0x10000" by linarith
  then show ?thesis
  proof cases
    case 1
    then show ?thesis
      by (auto simp: quote_rune_def json_rune_def json_read_escape json_escape_def simp del: json_read.simps)
  next
    case 2
    then show ?thesis using assms by (simp add: quote_rune_def json_rune_def json_read_plain del: json_read.simps)
  next
    case 3
    then show ?thesis
      by (simp add: quote_rune_def json_rune_def json_read_escape json_escape_def del: json_read.simps) auto
  next
    case 4
    then obtain a b c d where h: "hex4 r = [a, b, c, d]" "unhex4 a b c d = Some r" using unhex4_hex4[of r] by auto
    show ?thesis using 4 by (simp add: quote_rune_def json_rune_def h)
  qed
qed



end
