(* ===== verification/Promexport.thy ===== *)
theory Promexport
  imports Stats_Kit Text_Utils
begin

text \<open>
  The Prometheus exporter of \<open>stats/internal/otel/prometheus\<close>: names and labels of metrics, the table of metric
  families, cumulative buckets of explicit histograms, and the conversion of exponential histograms to native ones
  with at most scale 8. What is emitted is the list of the arguments given to the constructors of the Prometheus
  client, which may refuse them. Counts are 64-bit words, offsets and scales are the integers of an int32, brought back into
  range where the code adds.
\<close>

subsection \<open>Names\<close>

definition prom_sanitizeRune :: "(rune \<Rightarrow> bool) \<Rightarrow> rune \<Rightarrow> rune" where
  "prom_sanitizeRune word_rune r = (if word_rune r \<or> r = 58 \<or> r = 95 then r else 95)"

text \<open>The exporter and the measurements clean keys alike.\<close>

lemma sanitize_same: "map (prom_sanitizeRune w) key = sanitizeTagKey w key"
  by (simp add: prom_sanitizeRune_def sanitizeTagKey_def)

text \<open>\<open>valid\<close>; \<open>first\<close> says that the index is 0.\<close>

definition name_valid :: "bool \<Rightarrow> rune \<Rightarrow> bool" where
  "name_valid first r \<longleftrightarrow> (97 \<le> r \<and> r \<le> 122) \<or> (65 \<le> r \<and> r \<le> 90) \<or> r = 95 \<or> r = 58 \<or> (48 \<le> r \<and> r \<le> 57 \<and> \<not> first)"

text \<open>\<open>sanitizeName\<close> on the bytes of a string. A rune is valid only if it is a byte below 128. \<open>range\<close> reads an invalid
  byte as one of size 1, while \<open>RuneLen\<close> of the error rune is 3.\<close>

definition RuneLen_at :: "nat list \<Rightarrow> nat" where
  "RuneLen_at p = (case DecodeRune p of (bad, sz) \<Rightarrow> if bad then 3 else sz)"

function sanitize_rest :: "nat list \<Rightarrow> nat list" where
  "sanitize_rest n =
     (if n = [] then []
      else (if name_valid False (hd n) then hd n else 95) # sanitize_rest (drop (snd (DecodeRune n)) n))"
  by pat_completeness auto
termination
  by (relation "measure length") (use DecodeRune_size in auto)

declare sanitize_rest.simps [simp del]

text \<open>The first loop; \<open>done\<close> is \<open>n[:i]\<close>. \<open>None\<close>: the slice expression panics.\<close>

fun sanitize_first :: "nat list \<Rightarrow> nat list \<Rightarrow> nat list option" where
  "sanitize_first don [] = Some don"
| "sanitize_first don (c # cs) =
     (if name_valid (don = []) c then sanitize_first (don @ [c]) cs
      else if don = [] \<and> 48 \<le> c \<and> c \<le> 57 then Some (95 # sanitize_rest (c # cs))
      else if RuneLen_at (c # cs) \<le> length (c # cs) then Some (don @ [95] @ sanitize_rest (drop (RuneLen_at (c # cs)) (c # cs)))
      else None)"

definition sanitizeName :: "nat list \<Rightarrow> nat list option" where
  "sanitizeName n = sanitize_first [] n"

definition unitSuffixes :: "gostr \<Rightarrow> gostr" where
  "unitSuffixes u = (if u = lit ''1'' then lit ''_ratio'' else if u = lit ''By'' then lit ''_bytes''
     else if u = lit ''ms'' then lit ''_milliseconds'' else [])"

definition getName :: "gostr \<Rightarrow> bool \<Rightarrow> gostr \<Rightarrow> gostr \<Rightarrow> gostr option" where
  "getName namespace withoutUnits nm u =
     map_option (\<lambda>s. (if namespace \<noteq> [] then namespace @ s else s) @ (if withoutUnits then [] else unitSuffixes u)) (sanitizeName nm)"

definition WithNamespace :: "gostr \<Rightarrow> gostr option" where
  "WithNamespace ns = map_option (\<lambda>s. if s = [] \<or> last s \<noteq> 95 then s @ [95] else s) (sanitizeName ns)"

text \<open>What a name should become, on code points: a leading digit gets an underscore before it, and every code point
  that Prometheus does not allow becomes an underscore.\<close>

definition name_ref :: "nat list \<Rightarrow> nat list" where
  "name_ref cps = (if cps \<noteq> [] \<and> 48 \<le> hd cps \<and> hd cps \<le> 57 then [95] else []) @ map (\<lambda>c. if name_valid False c then c else 95) cps"

definition utf8 :: "nat list \<Rightarrow> nat list" where
  "utf8 cps = concat (map encode cps)"

lemma utf8_simps [simp]: "utf8 [] = []" "utf8 (c # cps) = encode c @ utf8 cps"
  by (simp_all add: utf8_def)

lemma encode_ascii: "c < 128 \<Longrightarrow> encode c = [c]"
  by (simp add: encode_def)

lemma name_valid_ascii: "name_valid first c \<Longrightarrow> c < 128"
  by (auto simp: name_valid_def)

lemma name_valid_False: "name_valid False c \<longleftrightarrow> name_valid True c \<or> (48 \<le> c \<and> c \<le> 57)"
  by (auto simp: name_valid_def)

lemma name_valid_digit: "name_valid True c \<Longrightarrow> \<not> (48 \<le> c \<and> c \<le> 57)"
  by (auto simp: name_valid_def)

lemma encode_high: "128 \<le> c \<Longrightarrow> 128 \<le> hd (encode c)"
  by (simp add: encode_def)

lemma hd_encode_append [simp]: "hd (encode c @ xs) = hd (encode c)"
  by (simp add: encode_nonempty)

lemma name_valid_hd: "name_valid first (hd (encode c)) \<longleftrightarrow> name_valid first c"
proof (cases "c < 128")
  case False
  then show ?thesis using encode_high[of c] name_valid_ascii[of first] by (meson linorder_not_less)
qed (simp add: encode_ascii)

lemma sanitize_rest_utf8: "list_all scalar cps \<Longrightarrow> sanitize_rest (utf8 cps) = map (\<lambda>c. if name_valid False c then c else 95) cps"
proof (induction cps)
  case (Cons c cps)
  have "hd (encode c) = c" if "name_valid False c" using name_valid_ascii[OF that] by (simp add: encode_ascii)
  then show ?case using Cons
    by (subst sanitize_rest.simps) (simp add: encode_nonempty DecodeRune_encode name_valid_hd)
qed (simp add: sanitize_rest.simps)

lemma sanitize_first_utf8:
  "list_all scalar cps \<Longrightarrow> sanitize_first don (utf8 cps) =
     Some (don @ (if don = [] then name_ref cps else map (\<lambda>c. if name_valid False c then c else 95) cps))"
proof (induction cps arbitrary: don)
  case (Cons c cps)
  obtain b bs where e: "encode c = b # bs" using encode_nonempty[of c] by (cases "encode c") auto
  have v: "name_valid first b = name_valid first c" for first using name_valid_hd[of first c] e by simp
  have d: "DecodeRune (b # bs @ utf8 cps) = (False, length (encode c))"
    using DecodeRune_encode[of c "utf8 cps"] Cons.prems e by simp
  show ?case
  proof (cases "name_valid (don = []) c")
    case True
    then have "bs = []" "b = c" using name_valid_ascii[of _ c] encode_ascii[of c] e by auto
    then show ?thesis using Cons.IH[of "don @ [c]"] Cons.prems True name_valid_digit[of c]
      by (cases "don = []") (auto simp: e name_ref_def name_valid_False)
  next
    case False
    have r: "sanitize_rest (encode c @ utf8 cps) = map (\<lambda>c. if name_valid False c then c else 95) (c # cps)"
      using sanitize_rest_utf8[of "c # cps"] Cons.prems by simp
    have digit: "48 \<le> b \<and> b \<le> 57 \<longleftrightarrow> 48 \<le> c \<and> c \<le> 57"
    proof (cases "c < 128")
      case False
      then show ?thesis using encode_high[of c] e by auto
    qed (use e encode_ascii[of c] in auto)
    show ?thesis
    proof (cases "don = [] \<and> 48 \<le> c \<and> c \<le> 57")
      case True
      then show ?thesis using False r digit v by (simp add: e name_ref_def)
    next
      case nd: False
      have nv: "\<not> name_valid False c" using False nd name_valid_False[of c] by (cases "don = []") simp_all
      have l: "RuneLen_at (b # bs @ utf8 cps) = length (encode c)" using d by (simp add: RuneLen_at_def)
      have dr: "drop (length (encode c)) (b # bs @ utf8 cps) = utf8 cps" by (simp add: e)
      have "sanitize_first don (b # bs @ utf8 cps) = Some (don @ [95] @ sanitize_rest (utf8 cps))"
      proof -
        have "(don = [] \<and> 48 \<le> b \<and> b \<le> 57) = False" "name_valid (don = []) b = False"
          using nd digit False v[of "don = []"] by blast+
        then show ?thesis using l dr by (simp only: sanitize_first.simps if_False) (simp add: e)
      qed
      moreover have "name_ref (c # cps) = 95 # map (\<lambda>c. if name_valid False c then c else 95) cps" if "don = []"
        using that nd nv by (auto simp: name_ref_def)
      ultimately show ?thesis using nv sanitize_rest_utf8[of cps] Cons.prems by (simp add: e)
    qed
  qed
qed (simp add: name_ref_def)

text \<open>On valid UTF-8 the name is what it should be: the reference applied to the code points. It is a name
  Prometheus accepts (or empty), and one that was acceptable stays as it is.\<close>

lemma sanitizeName_exact:
  assumes "list_all scalar cps"
  shows "sanitizeName (utf8 cps) = Some (name_ref cps)
    \<and> list_all (name_valid False) (name_ref cps) \<and> (name_ref cps = [] \<or> name_valid True (hd (name_ref cps)))
    \<and> (name_ref cps = cps) = (list_all (name_valid False) cps \<and> (cps = [] \<or> name_valid True (hd cps)))"
proof -
  have "name_ref cps = [] \<or> name_valid True (hd (name_ref cps))"
    by (cases cps) (auto simp: name_ref_def name_valid_def)
  moreover have "list_all (name_valid False) (name_ref cps)"
    by (auto simp: name_ref_def list_all_iff name_valid_def)
  moreover have "(name_ref cps = cps) = (list_all (name_valid False) cps \<and> (cps = [] \<or> name_valid True (hd cps)))"
  proof
    assume e: "name_ref cps = cps"
    then show "list_all (name_valid False) cps \<and> (cps = [] \<or> name_valid True (hd cps))" using calculation by metis
  next
    assume "list_all (name_valid False) cps \<and> (cps = [] \<or> name_valid True (hd cps))"
    then show "name_ref cps = cps" by (auto simp: name_ref_def list_all_iff map_idI name_valid_def)
  qed
  ultimately show ?thesis using sanitize_first_utf8[OF assms, of "[]"] by (simp add: sanitizeName_def)
qed

lemma sanitizeName_exact_example:
  "sanitizeName (utf8 [0xE9, 46, 97]) = Some [95, 95, 97] \<and> sanitizeName (utf8 [49, 46]) = Some [95, 49, 95]"
  using sanitizeName_exact[of "[0xE9, 46, 97]"] sanitizeName_exact[of "[49, 46]"]
  by (simp add: scalar_def name_ref_def name_valid_def)

text \<open>A name that ends in an invalid byte makes the slice expression panic.\<close>

lemma sanitizeName_panics: "sanitizeName [97, 255] = None"
  by (simp add: sanitizeName_def name_valid_def RuneLen_at_def DecodeRune_def)

subsection \<open>Labels\<close>

text \<open>\<open>keysMap\<close> is the list of its pairs in the order of insertion. \<open>sort.Slice\<close> with a comparison of the two indices: the
  insertion sort used for at most 12 values asks whether the later index is below the earlier one, and never moves
  anything; such lists are meant here.\<close>

fun add_label :: "gostr \<Rightarrow> gostr \<Rightarrow> (gostr \<times> gostr list) list \<Rightarrow> (gostr \<times> gostr list) list" where
  "add_label k v [] = [(k, [v])]"
| "add_label k v ((k', vs) # m) = (if k' = k then (k', vs @ [v]) # m else (k', vs) # add_label k v m)"

definition sort_by_index :: "gostr list \<Rightarrow> gostr list" where
  "sort_by_index vals = vals"

definition getAttrs :: "(rune \<Rightarrow> bool) \<Rightarrow> (gostr \<times> gostr) list \<Rightarrow> gostr list \<Rightarrow> gostr list \<Rightarrow> gostr list \<times> gostr list" where
  "getAttrs word_rune attrs ks vs =
     (let keysMap = fold (\<lambda>(k, v). add_label (map (prom_sanitizeRune word_rune) k) v) attrs []
      in (map fst keysMap @ ks, map (\<lambda>(k, vals). Join (sort_by_index vals) [59]) keysMap @ vs))"

lemma add_label_map_of: "map_of (add_label k v m) k' = (if k' = k then Some ((case map_of m k of None \<Rightarrow> [] | Some vs \<Rightarrow> vs) @ [v]) else map_of m k')"
  by (induction k v m rule: add_label.induct) auto

lemma add_label_distinct: "distinct (map fst m) \<Longrightarrow> distinct (map fst (add_label k v m)) \<and> set (map fst (add_label k v m)) = insert k (set (map fst m))"
  by (induction k v m rule: add_label.induct) auto

lemma keysMap_distinct:
  "distinct (map fst m) \<Longrightarrow> distinct (map fst (fold (\<lambda>(k, v). add_label (f k) v) attrs m))
     \<and> set (map fst (fold (\<lambda>(k, v). add_label (f k) v) attrs m)) = set (map fst m) \<union> f ` set (map fst attrs)"
proof (induction attrs arbitrary: m)
  case (Cons a attrs)
  obtain k v where a: "a = (k, v)" by (cases a)
  show ?case using Cons.IH[of "add_label (f k) v m"] add_label_distinct[OF Cons.prems, of "f k" v] by (auto simp: a)
qed simp

lemma keysMap_values:
  "map_of (fold (\<lambda>(k, v). add_label (f k) v) attrs m) x =
     (let vs = map snd (filter (\<lambda>a. f (fst a) = x) attrs)
      in if vs = [] then map_of m x else Some ((case map_of m x of None \<Rightarrow> [] | Some ws \<Rightarrow> ws) @ vs))"
proof (induction attrs arbitrary: m)
  case (Cons a attrs)
  obtain k v where a: "a = (k, v)" by (cases a)
  show ?case using Cons.IH[of "add_label (f k) v m"] by (auto simp: a Let_def add_label_map_of split: option.splits)
qed (simp add: Let_def)

text \<open>The labels of a data point: no attribute key occurs twice after cleaning, the keys are those of the attributes, and
  the value of a key joins the values of all attributes that were cleaned to it.\<close>

lemma getAttrs_exact:
  "distinct (fst (getAttrs w attrs [] [])) \<and> set (fst (getAttrs w attrs [] [])) = sanitizeTagKey w ` fst ` set attrs
   \<and> map_of (zip (fst (getAttrs w attrs [] [])) (snd (getAttrs w attrs [] []))) k =
       (let vs = map snd (filter (\<lambda>a. sanitizeTagKey w (fst a) = k) attrs) in if vs = [] then None else Some (Join vs [59]))"
proof -
  let ?m = "fold (\<lambda>(k, v). add_label (sanitizeTagKey w k) v) attrs []"
  have g: "getAttrs w attrs [] [] = (map fst ?m, map (\<lambda>(k, vals). Join vals [59]) ?m)"
    by (simp add: getAttrs_def sanitize_same sort_by_index_def Let_def)
  have d: "distinct (map fst ?m)" "set (map fst ?m) = sanitizeTagKey w ` fst ` set attrs"
    using keysMap_distinct[of "[]" "sanitizeTagKey w" attrs] by auto
  have "zip (map fst ?m) (map (\<lambda>(k, vals). Join vals [59]) ?m) = map (\<lambda>(k, vals). (k, Join vals [59])) ?m"
    by (simp add: zip_map_map map2_map_map zip_same_conv_map split_def)
  then have "map_of (zip (map fst ?m) (map (\<lambda>(k, vals). Join vals [59]) ?m)) k = map_option (\<lambda>vals. Join vals [59]) (map_of ?m k)"
    by (simp add: map_of_map)
  then show ?thesis using d keysMap_values[of "sanitizeTagKey w" attrs "[]" k] by (simp add: g Let_def)
qed

text \<open>The values of one label stay in the order of the attributes.\<close>

lemma getAttrs_unsorted:
  "getAttrs is_letter [(lit ''a.b'', lit ''z''), (lit ''a_b'', lit ''y'')] [] [] = ([lit ''a_b''], [lit ''z;y''])"
  by (simp add: getAttrs_def prom_sanitizeRune_def sort_by_index_def is_letter_def is_upper_def is_lower_def lit_def)

subsection \<open>Metric families\<close>

datatype mtype = COUNTER | GAUGE | HISTOGRAM

type_synonym families = "gostr \<Rightarrow> (gostr \<times> mtype) option"

text \<open>Whether to drop the metric, the help text to use instead (empty: none), and the table.\<close>

definition validateMetrics :: "gostr \<Rightarrow> gostr \<Rightarrow> mtype \<Rightarrow> families \<Rightarrow> (bool \<times> gostr) \<times> families" where
  "validateMetrics nm description t mfs =
     (case mfs nm of
        None \<Rightarrow> ((False, []), mfs(nm \<mapsto> (description, t)))
      | Some (h, t') \<Rightarrow> if t' \<noteq> t then ((True, []), mfs)
                        else if h \<noteq> description then ((False, h), mfs) else ((False, []), mfs))"

text \<open>The type and the help text a metric is sent with, after a list of earlier ones.\<close>

definition sent_as :: "gostr \<Rightarrow> gostr \<Rightarrow> mtype \<Rightarrow> families \<Rightarrow> (gostr \<times> mtype) option" where
  "sent_as nm description t mfs =
     (let ((drp, h), mfs') = validateMetrics nm description t mfs
      in if drp then None else Some (if h \<noteq> [] then h else description, t))"

definition run_families :: "(gostr \<times> gostr \<times> mtype) list \<Rightarrow> families \<Rightarrow> families" where
  "run_families ms mfs = fold (\<lambda>(n, d, t) m. snd (validateMetrics n d t m)) ms mfs"

lemma run_families_keeps: "mfs nm = Some x \<Longrightarrow> run_families ms mfs nm = Some x"
proof (induction ms arbitrary: mfs)
  case (Cons a ms)
  obtain n d t where a: "a = (n, d, t)" by (cases a)
  have "snd (validateMetrics n d t mfs) nm = Some x"
    using Cons.prems by (auto simp: validateMetrics_def split: option.split)
  then show ?case using Cons.IH by (simp add: run_families_def a)
qed (simp add: run_families_def)

text \<open>The first metric of a name fixes its type and, if it is not empty, its help text; a metric of another type is dropped.\<close>

lemma family_fixed:
  assumes "mfs nm = Some (h, t)"
  shows "sent_as nm d t' (run_families ms mfs) = (if t' \<noteq> t then None else Some (if h = [] then d else h, t))"
  using run_families_keeps[of mfs nm "(h, t)" ms] assms by (auto simp: sent_as_def validateMetrics_def)

subsection \<open>Explicit histograms\<close>

text \<open>The cumulative counts; \<open>buckets\<close> maps a bound to the count up to it. Counts wrap like the words of the code.\<close>

fun cumulative :: "u64 \<Rightarrow> ('f \<times> u64) list \<Rightarrow> ('f \<times> u64) list" where
  "cumulative c [] = []"
| "cumulative c ((bound, n) # bs) = (bound, c + n) # cumulative (c + n) bs"

definition histogram_buckets :: "'f list \<Rightarrow> u64 list \<Rightarrow> 'f \<Rightarrow> u64 option" where
  "histogram_buckets bounds counts = map_of (rev (cumulative 0 (zip bounds counts)))"

lemma cumulative_nth: "i < length bs \<Longrightarrow> cumulative c bs ! i = (fst (bs ! i), c + sum_list (map snd (take (Suc i) bs)))"
proof (induction bs arbitrary: c i)
  case (Cons b bs)
  then show ?case by (cases b; cases i) (auto simp: add.assoc)
qed simp

lemma cumulative_length [simp]: "length (cumulative c bs) = length bs"
  by (induction c bs rule: cumulative.induct) auto

lemma cumulative_fst [simp]: "map fst (cumulative c bs) = map fst bs"
  by (induction c bs rule: cumulative.induct) auto

text \<open>With distinct bounds the bucket of a bound is the sum of the counts up to it.\<close>

lemma histogram_buckets_sum:
  assumes "distinct bounds" "length bounds \<le> length counts" "i < length bounds"
  shows "histogram_buckets bounds counts (bounds ! i) = Some (sum_list (take (Suc i) counts))"
proof -
  let ?c = "cumulative 0 (zip bounds counts)"
  have b: "map fst ?c = bounds" using assms(2) by (simp add: map_fst_zip_take)
  have "?c ! i = (bounds ! i, sum_list (take (Suc i) counts))"
    using assms cumulative_nth[of i "zip bounds counts" 0] by (simp add: take_map[symmetric] map_snd_zip_take min_def)
  then have "(bounds ! i, sum_list (take (Suc i) counts)) \<in> set ?c" using assms by (metis cumulative_length length_zip min_absorb1 nth_mem)
  moreover have "distinct (map fst (rev ?c))" using b assms(1) by (simp add: rev_map[symmetric])
  ultimately show ?thesis by (simp add: histogram_buckets_def)
qed

subsection \<open>Exponential histograms\<close>

definition wrap32 :: "int \<Rightarrow> int" where
  "wrap32 i = signed_take_bit 31 i"

record bucket =
  Offset :: int
  Counts :: "u64 list"

text \<open>\<open>None\<close>: a shift by a negative number panics. A shift of an int32 to the right rounds down.\<close>

definition down_position :: "int \<Rightarrow> nat \<Rightarrow> int \<Rightarrow> nat \<Rightarrow> int" where
  "down_position off d newOffset i = wrap32 (drop_bit d (wrap32 (off + int i)) - newOffset)"

definition down_add :: "int \<Rightarrow> nat \<Rightarrow> int \<Rightarrow> nat \<times> u64 \<Rightarrow> u64 list \<Rightarrow> u64 list" where
  "down_add off d newOffset ic newCounts =
     (let (i, c) = ic; position = down_position off d newOffset i
      in if c = 0 then newCounts
         else if 0 \<le> position \<and> position < int (length newCounts)
         then newCounts[nat position := newCounts ! nat position + c]
         else newCounts)"

definition downscaleExponentialBucket :: "bucket \<Rightarrow> int \<Rightarrow> bucket option" where
  "downscaleExponentialBucket b scaleDelta =
     (if Counts b = [] \<or> scaleDelta < 1
      then (if scaleDelta < 0 then None else Some \<lparr>Offset = drop_bit (nat scaleDelta) (Offset b), Counts = Counts b\<rparr>)
      else let d = nat scaleDelta;
               newOffset = drop_bit d (Offset b);
               lastBucketIdx = wrap32 (wrap32 (Offset b + int (length (Counts b))) - 1);
               newBucketCount = wrap32 (wrap32 (drop_bit d lastBucketIdx - newOffset) + 1)
           in if newBucketCount \<le> 0 then Some \<lparr>Offset = newOffset, Counts = []\<rparr>
              else Some \<lparr>Offset = newOffset,
                         Counts = fold (down_add (Offset b) d newOffset) (enumerate 0 (Counts b)) (replicate (nat newBucketCount) 0)\<rparr>)"

text \<open>The map from the keys of the native histogram to the counts; a count above the largest int64 is left out.\<close>

definition native_buckets :: "bucket \<Rightarrow> (int \<times> int) list" where
  "native_buckets b =
     map (\<lambda>(i, c). (Offset b + int i + 1, int (unat c))) (filter (\<lambda>(i, c). unat c < 2 ^ 63) (enumerate 0 (Counts b)))"

record 'a expo_point =
  Scale :: int
  PositiveBucket :: bucket
  NegativeBucket :: bucket
  ZeroCount :: u64
  rest :: 'a

text \<open>What \<open>NewConstNativeHistogram\<close> is called with for a data point; \<open>Some None\<close>: the point is skipped.\<close>

definition native_histogram :: "'a expo_point \<Rightarrow> ((int \<times> int) list \<times> (int \<times> int) list \<times> u64 \<times> int \<times> 'a) option option" where
  "native_histogram dp =
     (if Scale dp < -4 then Some None
      else if Scale dp > 8
      then (case (downscaleExponentialBucket (PositiveBucket dp) (Scale dp - 8), downscaleExponentialBucket (NegativeBucket dp) (Scale dp - 8)) of
              (Some p, Some n) \<Rightarrow> Some (Some (native_buckets p, native_buckets n, ZeroCount dp, 8, rest dp))
            | _ \<Rightarrow> None)
      else Some (Some (native_buckets (PositiveBucket dp), native_buckets (NegativeBucket dp), ZeroCount dp, Scale dp, rest dp)))"

lemma wrap32_id: "- (2 ^ 31) \<le> i \<Longrightarrow> i < 2 ^ 31 \<Longrightarrow> wrap32 i = i"
  by (simp add: wrap32_def signed_take_bit_int_eq_self)

lemma length_fold_down_add [simp]: "length (fold (down_add off d n) xs ys) = length ys"
proof (induction xs arbitrary: ys)
  case (Cons x xs)
  then show ?case by (cases x) (auto simp: down_add_def Let_def)
qed simp

text \<open>The loop adds to position \<open>j\<close> the counts of the indices that fall there.\<close>

lemma fold_down_add:
  assumes "\<And>i c. (i, c) \<in> set xs \<Longrightarrow> down_position off d n i = int (pos i) \<and> pos i < length ys" "j < length ys"
  shows "fold (down_add off d n) xs ys ! j = ys ! j + sum_list (map snd (filter (\<lambda>(i, c). pos i = j) xs))"
  using assms
proof (induction xs arbitrary: ys)
  case (Cons x xs)
  obtain i c where x: "x = (i, c)" by (cases x)
  have p: "down_position off d n i = int (pos i)" "pos i < length ys" using Cons.prems(1)[of i c] x by auto
  let ?ys = "down_add off d n x ys"
  have l: "length ?ys = length ys" using p by (simp add: down_add_def x Let_def)
  have v: "?ys ! j = ys ! j + (if pos i = j then c else 0)" using p Cons.prems(2) by (auto simp: down_add_def x Let_def nth_list_update)
  have "fold (down_add off d n) xs ?ys ! j = ?ys ! j + sum_list (map snd (filter (\<lambda>(i, c). pos i = j) xs))"
    by (rule Cons.IH) (use Cons.prems l in auto)
  then show ?case using v by (auto simp: x add.assoc)
qed simp

lemma div_bounds:
  fixes x k m :: int
  assumes "- (m * k) \<le> x" "x < m * k" "0 < k"
  shows "- m \<le> x div k" "x div k < m"
proof -
  have "(- m) * k div k \<le> x div k" using assms by (intro zdiv_mono1) auto
  then show "- m \<le> x div k" using assms(3) nonzero_mult_div_cancel_right[of k "- m"] by linarith
  show "x div k < m"
  proof (rule ccontr)
    assume "\<not> x div k < m"
    then have "m * k \<le> x div k * k" using assms(3) by (intro mult_right_mono) auto
    also have "\<dots> \<le> x" using assms(3) by (metis add_le_same_cancel1 div_mult_mod_eq le_add_same_cancel1 pos_mod_sign)
    finally show False using assms(2) by simp
  qed
qed

text \<open>C30. Downscaling by \<open>d\<close>, when the number of buckets and their indices fit an int32: the new offset and number of buckets are those of the shifted
  indices, and each new bucket holds exactly the counts of the old ones whose index, shifted by \<open>d\<close>, is its own.\<close>

theorem downscale_exact:
  assumes "Counts b \<noteq> []" "1 \<le> d" "- (2 ^ 31) \<le> Offset b" "Offset b + int (length (Counts b)) < 2 ^ 31"
    "length (Counts b) < 2 ^ 31"
  shows "\<exists>n. downscaleExponentialBucket b d = Some n \<and> Offset n = Offset b div 2 ^ nat d
    \<and> int (length (Counts n)) = (Offset b + int (length (Counts b)) - 1) div 2 ^ nat d - Offset n + 1
    \<and> (\<forall>j < length (Counts n). Counts n ! j =
         sum_list (map snd (filter (\<lambda>(i, c). (Offset b + int i) div 2 ^ nat d = Offset n + int j) (enumerate 0 (Counts b)))))"
proof -
  let ?k = "2 ^ nat d :: int" and ?off = "Offset b" and ?len = "length (Counts b)"
  let ?new = "?off div ?k" and ?last = "(?off + int ?len - 1) div ?k"
  have k: "2 \<le> ?k" using assms(2) self_le_power[of "2::int" "nat d"] by simp
  have idx: "- (2 ^ 30) \<le> x div ?k \<and> x div ?k < 2 ^ 30" if "- (2 ^ 31) \<le> x" "x < 2 ^ 31" for x :: int
  proof -
    have "(2::int) ^ 31 \<le> 2 ^ 30 * ?k" using mult_left_mono[OF k, of "2 ^ 30"] by simp
    then show ?thesis using div_bounds[of "2 ^ 30" ?k x] that k by linarith
  qed
  have len: "1 \<le> int ?len" using assms(1) by (cases "Counts b") auto
  have o: "- (2 ^ 30) \<le> ?new" "?new < 2 ^ 30" "- (2 ^ 30) \<le> ?last" "?last < 2 ^ 30"
    using idx[of ?off] idx[of "?off + int ?len - 1"] assms(3,4) len by auto
  have nl: "?new \<le> ?last" using len k by (intro zdiv_mono1) auto
  have w1: "wrap32 (?off + int i) = ?off + int i" if "i \<le> ?len" for i
    using assms(3,4) that by (intro wrap32_id) auto
  have w2: "wrap32 (wrap32 (?off + int ?len) - 1) = ?off + int ?len - 1"
    using assms(3,4) len by (simp add: w1 wrap32_id)
  have "?last \<le> (?off + (int ?len - 1) * ?k) div ?k"
  proof -
    have "(int ?len - 1) * 1 \<le> (int ?len - 1) * ?k" by (rule mult_left_mono) (use k len in auto)
    then show ?thesis using k by (intro zdiv_mono1) auto
  qed
  then have "?last - ?new + 1 \<le> int ?len" using k by simp
  then have w3: "wrap32 (wrap32 (?last - ?new) + 1) = ?last - ?new + 1" using assms(5) nl by (simp add: wrap32_id)
  define pos where "pos i = nat ((?off + int i) div ?k - ?new)" for i
  have pos: "down_position ?off (nat d) ?new i = int (pos i) \<and> pos i < nat (?last - ?new + 1)" if "i < ?len" for i
  proof -
    have "?new \<le> (?off + int i) div ?k" "(?off + int i) div ?k \<le> ?last" using that k by (auto intro!: zdiv_mono1)
    then show ?thesis using that w1[of i] o by (simp add: down_position_def pos_def drop_bit_eq_div wrap32_id)
  qed
  let ?n = "\<lparr>Offset = ?new, Counts = fold (down_add ?off (nat d) ?new) (enumerate 0 (Counts b)) (replicate (nat (?last - ?new + 1)) 0)\<rparr>"
  have r: "downscaleExponentialBucket b d = Some ?n"
    using assms(1,2) nl w2 w3 by (simp add: downscaleExponentialBucket_def drop_bit_eq_div Let_def)
  have "Counts ?n ! j = sum_list (map snd (filter (\<lambda>(i, c). (?off + int i) div ?k = ?new + int j) (enumerate 0 (Counts b))))"
    if "j < length (Counts ?n)" for j
  proof -
    let ?z = "replicate (nat (?last - ?new + 1)) (0 :: u64)"
    have "fold (down_add ?off (nat d) ?new) (enumerate 0 (Counts b)) ?z ! j
      = ?z ! j + sum_list (map snd (filter (\<lambda>(i, c). pos i = j) (enumerate 0 (Counts b))))"
      by (rule fold_down_add) (use that pos in \<open>auto simp: in_set_enumerate_eq\<close>)
    then have "Counts ?n ! j = sum_list (map snd (filter (\<lambda>(i, c). pos i = j) (enumerate 0 (Counts b))))"
      using that by simp
    also have "filter (\<lambda>(i, c). pos i = j) (enumerate 0 (Counts b)) = filter (\<lambda>(i, c). (?off + int i) div ?k = ?new + int j) (enumerate 0 (Counts b))"
    proof (rule filter_cong[OF refl], clarify)
      fix i c
      assume "(i, c) \<in> set (enumerate 0 (Counts b))"
      then have "i < ?len" by (auto simp: in_set_enumerate_eq)
      then have "?new \<le> (?off + int i) div ?k" using k by (auto intro!: zdiv_mono1)
      then show "(pos i = j) = ((?off + int i) div ?k = ?new + int j)" by (auto simp: pos_def)
    qed
    finally show ?thesis .
  qed
  then show ?thesis using nl by (intro exI[of _ ?n]) (simp add: r)
qed

theorem downscale_exact_witness:
  "\<exists>n. downscaleExponentialBucket \<lparr>Offset = -3, Counts = [1, 2, 4, 8]\<rparr> 1 = Some n \<and> Offset n = -2 \<and> length (Counts n) = 3
     \<and> Counts n ! 1 = 6"
proof -
  let ?b = "\<lparr>Offset = -3, Counts = [1, 2, 4, 8]\<rparr>"
  have "\<exists>n. downscaleExponentialBucket ?b 1 = Some n \<and> Offset n = Offset ?b div 2 ^ nat 1
    \<and> int (length (Counts n)) = (Offset ?b + int (length (Counts ?b)) - 1) div 2 ^ nat 1 - Offset n + 1
    \<and> (\<forall>j < length (Counts n). Counts n ! j =
         sum_list (map snd (filter (\<lambda>(i, c). (Offset ?b + int i) div 2 ^ nat 1 = Offset n + int j) (enumerate 0 (Counts ?b)))))"
    by (rule downscale_exact) auto
  then obtain n where n: "downscaleExponentialBucket ?b 1 = Some n" "Offset n = -2" "length (Counts n) = 3"
    "\<forall>j < length (Counts n). Counts n ! j =
         sum_list (map snd (filter (\<lambda>(i, c). (-3 + int i) div 2 = Offset n + int j) (enumerate 0 [1, 2, 4, 8])))" by auto
  then have "Counts n ! 1 = 6" by simp
  then show ?thesis using n by blast
qed

text \<open>What is exported: a point below scale -4 is skipped; else the key of a count is one above the index it has at the
  scale that is sent, which is at most 8.\<close>

lemma native_histogram_scale:
  "native_histogram dp = Some (Some (p, n, z, s, r)) \<Longrightarrow> -4 \<le> s \<and> s \<le> 8 \<and> s \<le> Scale dp \<and> z = ZeroCount dp \<and> r = rest dp"
  by (auto simp: native_histogram_def split: if_splits option.splits)

lemma native_histogram_returns: "native_histogram dp \<noteq> None"
  by (auto simp: native_histogram_def downscaleExponentialBucket_def Let_def split: option.split)

end
