(* ===== verification/Prom_Collect.thy ===== *)
theory Prom_Collect
  imports Promexport Json_Kit
begin

text \<open>
  The collector of \<open>stats/internal/otel/prometheus\<close>: the options of the exporter, what one collection sends for each kind of
  instrument, exemplars, the metric with the resource, and the table of families over many collections. A metric of the
  Prometheus client is the call of the constructor that makes it; which calls the client accepts is a parameter
  (\<open>accepts\<close>). The numbers are those of the instrument, converted by \<open>to_float\<close>. A panic is \<open>None\<close>.
\<close>

subsection \<open>Options\<close>

text \<open>\<open>config\<close>, in \<open>config.go\<close>; the registerer, the selector and the logger by name, 0 being the default registerer.\<close>

record exporter_config =
  registerer :: "nat option"
  disableTargetInfo :: bool
  withoutUnits :: bool
  aggregation_selector :: "nat option"
  namespace :: gostr
  exporter_logger :: "nat option"

type_synonym exporter_option = "exporter_config \<Rightarrow> exporter_config option"

definition WithRegisterer :: "nat option \<Rightarrow> exporter_option" where
  "WithRegisterer reg cfg = Some (cfg\<lparr>registerer := reg\<rparr>)"

definition WithAggregationSelector :: "nat option \<Rightarrow> exporter_option" where
  "WithAggregationSelector agg cfg = Some (cfg\<lparr>aggregation_selector := agg\<rparr>)"

definition WithoutTargetInfo :: exporter_option where
  "WithoutTargetInfo cfg = Some (cfg\<lparr>disableTargetInfo := True\<rparr>)"

definition WithoutUnits :: exporter_option where
  "WithoutUnits cfg = Some (cfg\<lparr>withoutUnits := True\<rparr>)"

definition apply_WithNamespace :: "gostr \<Rightarrow> exporter_option" where
  "apply_WithNamespace ns cfg = map_option (\<lambda>n. cfg\<lparr>namespace := n\<rparr>) (WithNamespace ns)"

definition exporter_WithLogger :: "nat option \<Rightarrow> exporter_option" where
  "exporter_WithLogger l cfg = Some (cfg\<lparr>exporter_logger := l\<rparr>)"

fun apply_options :: "exporter_option list \<Rightarrow> exporter_option" where
  "apply_options [] cfg = Some cfg"
| "apply_options (opt # opts) cfg = Option.bind (opt cfg) (apply_options opts)"

text \<open>The default registerer is 0; the default logger, which writes nothing, stays \<open>None\<close>.\<close>

definition newConfig :: "exporter_option list \<Rightarrow> exporter_config option" where
  "newConfig opts =
     map_option (\<lambda>cfg. if registerer cfg = None then cfg\<lparr>registerer := Some 0\<rparr> else cfg)
       (apply_options opts \<lparr>registerer = None, disableTargetInfo = False, withoutUnits = False, aggregation_selector = None,
          namespace = [], exporter_logger = None\<rparr>)"

definition manualReaderOptions :: "exporter_config \<Rightarrow> nat list" where
  "manualReaderOptions cfg = (case aggregation_selector cfg of Some agg \<Rightarrow> [agg] | None \<Rightarrow> [])"

subsection \<open>Metrics and data\<close>

datatype vtype = CounterValue | GaugeValue

record desc =
  fqName :: gostr
  help_text :: gostr
  variableLabels :: "gostr list"

record 'f prom_exemplar =
  pe_Value :: 'f
  pe_Timestamp :: gotime
  pe_Labels :: "gostr \<Rightarrow> gostr option"

text \<open>\<open>NewConstMetric\<close>, \<open>NewConstHistogram\<close>, \<open>NewConstNativeHistogram\<close> and \<open>NewMetricWithExemplars\<close> with their arguments.\<close>

datatype 'f prom_metric =
    ConstMetric desc vtype 'f "gostr list"
  | ConstHistogram desc u64 'f "'f \<Rightarrow> u64 option" "gostr list"
  | ConstNativeHistogram desc u64 'f "(int \<times> int) list" "(int \<times> int) list" u64 int 'f gotime "gostr list"
  | MetricWithExemplars "'f prom_metric" "'f prom_exemplar list"

text \<open>A value of an attribute: what \<open>AsString\<close> and what \<open>String\<close> return.\<close>

record attr_value =
  AsString :: gostr
  String :: gostr

type_synonym attrs = "(gostr \<times> attr_value) list"

record 'n exemplar =
  FilteredAttributes :: attrs
  ex_Time :: gotime
  ex_Value :: 'n
  SpanID :: "nat list"
  TraceID :: "nat list"

record 'n data_point =
  dp_Attributes :: attrs
  dp_Value :: 'n
  dp_Exemplars :: "'n exemplar list"

record ('n, 'f) histogram_point =
  hp_Attributes :: attrs
  hp_Count :: u64
  hp_Bounds :: "'f list"
  hp_BucketCounts :: "u64 list"
  hp_Sum :: 'n
  hp_Exemplars :: "'n exemplar list"

text \<open>The other fields of a point of an exponential histogram.\<close>

record ('n, 'f) expo_other =
  xp_Attributes :: attrs
  xp_StartTime :: gotime
  xp_Count :: u64
  xp_Sum :: 'n
  ZeroThreshold :: 'f
  xp_Exemplars :: "'n exemplar list"

text \<open>\<open>metricdata\<close>: the aggregations the type switch of \<open>Collect\<close> knows, for both types of numbers, and any other.\<close>

datatype ('n, 'f) aggregation_data =
    HistogramData "('n, 'f) histogram_point list"
  | ExponentialHistogramData "('n, 'f) expo_other expo_point list"
  | SumData bool "'n data_point list"
  | GaugeData "'n data_point list"
  | OtherData

record ('n, 'f) metrics =
  Name :: gostr
  Description :: gostr
  Unit :: gostr
  Data :: "('n, 'f) aggregation_data"

text \<open>What a collection does: metrics sent on the channel, errors given to the handler, lines logged.\<close>

datatype 'f event = Sent "'f prom_metric" | Handled | LoggedError | LoggedInfo

subsection \<open>Exemplars\<close>

definition hex_EncodeToString :: "nat list \<Rightarrow> gostr" where
  "hex_EncodeToString bs = concat (map (\<lambda>b. [hex_digit (b div 16), hex_digit (b mod 16)]) bs)"

definition exemplar_labels :: "(rune \<Rightarrow> bool) \<Rightarrow> 'n exemplar \<Rightarrow> gostr \<Rightarrow> gostr option" where
  "exemplar_labels word_rune e =
     (let labels = fold (\<lambda>(k, x) l. l(map (prom_sanitizeRune word_rune) k \<mapsto> String x)) (FilteredAttributes e) Map.empty;
          labels = if TraceID e \<noteq> [] then labels(lit ''trace_id'' \<mapsto> hex_EncodeToString (TraceID e)) else labels
      in if SpanID e \<noteq> [] then labels(lit ''span_id'' \<mapsto> hex_EncodeToString (SpanID e)) else labels)"

definition addExemplars :: "(rune \<Rightarrow> bool) \<Rightarrow> ('n \<Rightarrow> 'f) \<Rightarrow> ('f prom_metric \<Rightarrow> bool) \<Rightarrow> 'f prom_metric \<Rightarrow> 'n exemplar list
    \<Rightarrow> 'f event list \<times> 'f prom_metric" where
  "addExemplars word_rune to_float accepts m exemplars =
     (if exemplars = [] then ([], m)
      else let me = MetricWithExemplars m (map (\<lambda>e. \<lparr>pe_Value = to_float (ex_Value e), pe_Timestamp = ex_Time e,
                                                     pe_Labels = exemplar_labels word_rune e\<rparr>) exemplars)
           in if accepts me then ([], me) else ([Handled], m))"

subsection \<open>Instruments\<close>

definition attr_strings :: "attrs \<Rightarrow> (gostr \<times> gostr) list" where
  "attr_strings = map (\<lambda>(k, x). (k, String x))"

definition family_log :: "gostr \<Rightarrow> gostr \<Rightarrow> mtype \<Rightarrow> families \<Rightarrow> 'f event list" where
  "family_log nm description t mfs =
     (case mfs nm of
        None \<Rightarrow> []
      | Some (h, t') \<Rightarrow> if t' \<noteq> t then [LoggedError] else if h \<noteq> description then [LoggedInfo] else [])"

text \<open>How all four functions begin: the family decides whether anything is sent, and the help text.\<close>

definition with_family :: "gostr \<Rightarrow> gostr \<Rightarrow> mtype \<Rightarrow> families \<Rightarrow> (gostr \<Rightarrow> 'f event list option) \<Rightarrow> ('f event list \<times> families) option" where
  "with_family nm description t mfs points =
     (let ((drp, h), mfs') = validateMetrics nm description t mfs;
          log = family_log nm description t mfs
      in if drp then Some (log, mfs')
         else map_option (\<lambda>ev. (log @ ev, mfs')) (points (if h \<noteq> [] then h else description)))"

text \<open>How each point ends.\<close>

definition send_point :: "(rune \<Rightarrow> bool) \<Rightarrow> ('n \<Rightarrow> 'f) \<Rightarrow> ('f prom_metric \<Rightarrow> bool) \<Rightarrow> 'f prom_metric \<Rightarrow> 'n exemplar list \<Rightarrow> 'f event list" where
  "send_point word_rune to_float accepts m exemplars =
     (if accepts m then (let (ev, m') = addExemplars word_rune to_float accepts m exemplars in ev @ [Sent m']) else [Handled])"

definition point_desc :: "(rune \<Rightarrow> bool) \<Rightarrow> gostr \<Rightarrow> gostr \<Rightarrow> gostr list \<Rightarrow> attrs \<Rightarrow> desc" where
  "point_desc word_rune nm h ks as = \<lparr>fqName = nm, help_text = h, variableLabels = fst (getAttrs word_rune (attr_strings as) ks [])\<rparr>"

definition point_values :: "(rune \<Rightarrow> bool) \<Rightarrow> gostr list \<Rightarrow> attrs \<Rightarrow> gostr list" where
  "point_values word_rune vs as = snd (getAttrs word_rune (attr_strings as) [] vs)"

text \<open>\<open>None\<close>: there are fewer counts than bounds, and the index expression panics.\<close>

definition addHistogramMetric where
  "addHistogramMetric word_rune to_float accepts dps m ks vs nm mfs =
     with_family nm (Description m) HISTOGRAM mfs
       (\<lambda>h. if list_all (\<lambda>dp. length (hp_Bounds dp) \<le> length (hp_BucketCounts dp)) dps
             then Some (concat (map (\<lambda>dp. send_point word_rune to_float accepts
                     (ConstHistogram (point_desc word_rune nm h ks (hp_Attributes dp)) (hp_Count dp) (to_float (hp_Sum dp))
                        (histogram_buckets (hp_Bounds dp) (hp_BucketCounts dp)) (point_values word_rune vs (hp_Attributes dp)))
                     (hp_Exemplars dp)) dps))
             else None)"

definition addSumMetric where
  "addSumMetric word_rune to_float accepts IsMonotonic dps m ks vs nm mfs =
     (let valueType = (if IsMonotonic then CounterValue else GaugeValue)
      in with_family nm (Description m) (if IsMonotonic then COUNTER else GAUGE) mfs
           (\<lambda>h. Some (concat (map (\<lambda>dp. send_point word_rune to_float accepts
                     (ConstMetric (point_desc word_rune nm h ks (dp_Attributes dp)) valueType (to_float (dp_Value dp))
                        (point_values word_rune vs (dp_Attributes dp)))
                     (if valueType \<noteq> GaugeValue then dp_Exemplars dp else [])) dps))))"

definition addGaugeMetric where
  "addGaugeMetric word_rune to_float accepts dps m ks vs nm mfs =
     with_family nm (Description m) GAUGE mfs
       (\<lambda>h. Some (concat (map (\<lambda>dp. send_point word_rune to_float accepts
                 (ConstMetric (point_desc word_rune nm h ks (dp_Attributes dp)) GaugeValue (to_float (dp_Value dp))
                    (point_values word_rune vs (dp_Attributes dp))) []) dps)))"

text \<open>A count above the largest int64 is an error for the handler and left out of the map.\<close>

definition large_counts :: "bucket \<Rightarrow> 'f event list" where
  "large_counts b = map (\<lambda>_. Handled) (filter (\<lambda>c. \<not> unat c < 2 ^ 63) (Counts b))"

definition expo_errors :: "('n, 'f) expo_other expo_point \<Rightarrow> 'f event list option" where
  "expo_errors dp =
     (if Scale dp < -4 then Some [Handled]
      else if Scale dp > 8
      then (case (downscaleExponentialBucket (PositiveBucket dp) (Scale dp - 8), downscaleExponentialBucket (NegativeBucket dp) (Scale dp - 8)) of
              (Some p, Some n) \<Rightarrow> Some (large_counts p @ large_counts n)
            | _ \<Rightarrow> None)
      else Some (large_counts (PositiveBucket dp) @ large_counts (NegativeBucket dp)))"

definition expo_events where
  "expo_events word_rune to_float accepts ks vs nm h dp =
     (case (expo_errors dp, native_histogram dp) of
        (Some ev, Some None) \<Rightarrow> Some ev
      | (Some ev, Some (Some (pos, neg, zero, scl, other))) \<Rightarrow>
          Some (ev @ send_point word_rune to_float accepts
            (ConstNativeHistogram (point_desc word_rune nm h ks (xp_Attributes other)) (xp_Count other) (to_float (xp_Sum other)) pos neg zero scl
               (ZeroThreshold other) (xp_StartTime other) (point_values word_rune vs (xp_Attributes other))) (xp_Exemplars other))
      | _ \<Rightarrow> None)"

fun concat_opt :: "'a list option list \<Rightarrow> 'a list option" where
  "concat_opt [] = Some []"
| "concat_opt (None # xs) = None"
| "concat_opt (Some x # xs) = map_option ((@) x) (concat_opt xs)"

definition addExponentialHistogramMetric where
  "addExponentialHistogramMetric word_rune to_float accepts dps m ks vs nm mfs =
     with_family nm (Description m) HISTOGRAM mfs
       (\<lambda>h. concat_opt (map (expo_events word_rune to_float accepts ks vs nm h) dps))"

subsection \<open>The collector\<close>

record 'f collector =
  c_disableTargetInfo :: bool
  c_withoutUnits :: bool
  targetInfo :: "'f prom_metric option"
  createTargetInfoOnce :: bool
  metricFamilies :: families
  c_namespace :: gostr

text \<open>\<open>New\<close>: the panic of an option, the error of the registration, or the collector and the selectors its reader is made with.\<close>

definition New :: "exporter_option list \<Rightarrow> (nat \<Rightarrow> bool) \<Rightarrow> (unit + 'f collector \<times> nat list) option" where
  "New opts Register =
     map_option (\<lambda>cfg. if Register (the (registerer cfg))
        then Inr (\<lparr>c_disableTargetInfo = disableTargetInfo cfg, c_withoutUnits = withoutUnits cfg, targetInfo = None,
               createTargetInfoOnce = False, metricFamilies = Map.empty, c_namespace = namespace cfg\<rparr>, manualReaderOptions cfg)
        else Inl ())
       (newConfig opts)"

definition createInfoMetric :: "(rune \<Rightarrow> bool) \<Rightarrow> ('f prom_metric \<Rightarrow> bool) \<Rightarrow> 'f \<Rightarrow> gostr \<Rightarrow> gostr \<Rightarrow> attrs \<Rightarrow> 'f prom_metric option" where
  "createInfoMetric word_rune accepts float_1 nm description res =
     (let (ks, vs) = getAttrs word_rune (attr_strings res) [] [];
          info = ConstMetric \<lparr>fqName = nm, help_text = description, variableLabels = ks\<rparr> GaugeValue float_1 vs
      in if accepts info then Some info else None)"

definition create_target_info :: "(rune \<Rightarrow> bool) \<Rightarrow> ('f prom_metric \<Rightarrow> bool) \<Rightarrow> 'f \<Rightarrow> attrs \<Rightarrow> 'f collector \<Rightarrow> 'f event list \<times> 'f collector" where
  "create_target_info word_rune accepts float_1 res c =
     (if createTargetInfoOnce c then ([], c)
      else case createInfoMetric word_rune accepts float_1 (lit ''target_info'') (lit ''Target metadata'') res of
             None \<Rightarrow> ([Handled], c\<lparr>createTargetInfoOnce := True, c_disableTargetInfo := True, targetInfo := None\<rparr>)
           | Some info \<Rightarrow> ([], c\<lparr>createTargetInfoOnce := True, targetInfo := Some info\<rparr>))"

text \<open>The labels of the resource: a key that is \<open>service.name\<close> gives one more label, \<open>job\<close>, before its own.\<close>

definition scope_labels :: "(rune \<Rightarrow> bool) \<Rightarrow> attrs \<Rightarrow> (gostr \<times> gostr) list" where
  "scope_labels word_rune res =
     concat (map (\<lambda>(k, x). (if k = lit ''service.name'' then [(lit ''job'', AsString x)] else [])
                           @ [(map (prom_sanitizeRune word_rune) k, AsString x)]) res)"

definition collect_metric where
  "collect_metric word_rune to_float accepts c ks vs m mfs =
     (if Data m = OtherData then Some ([], mfs)
      else case getName (c_namespace c) (c_withoutUnits c) (Name m) (Unit m) of
        None \<Rightarrow> None
      | Some nm \<Rightarrow>
          (case Data m of
             HistogramData dps \<Rightarrow> addHistogramMetric word_rune to_float accepts dps m ks vs nm mfs
           | ExponentialHistogramData dps \<Rightarrow> addExponentialHistogramMetric word_rune to_float accepts dps m ks vs nm mfs
           | SumData monotonic dps \<Rightarrow> addSumMetric word_rune to_float accepts monotonic dps m ks vs nm mfs
           | GaugeData dps \<Rightarrow> addGaugeMetric word_rune to_float accepts dps m ks vs nm mfs
           | OtherData \<Rightarrow> Some ([], mfs)))"

fun collect_metrics where
  "collect_metrics f [] mfs = Some ([], mfs)"
| "collect_metrics f (m # ms) mfs =
     (case f m mfs of
        None \<Rightarrow> None
      | Some (ev, mfs') \<Rightarrow> map_option (\<lambda>(ev', mfs''). (ev @ ev', mfs'')) (collect_metrics f ms mfs'))"

datatype collect_error = ErrReaderNotRegistered | OtherCollectError

text \<open>What the reader gives: an error, the resource, and the metrics of all scopes.\<close>

record ('n, 'f) gathered =
  g_err :: "collect_error option"
  Resource :: attrs
  ScopeMetrics :: "('n, 'f) metrics list list"

definition Collect :: "(rune \<Rightarrow> bool) \<Rightarrow> ('n \<Rightarrow> 'f) \<Rightarrow> ('f prom_metric \<Rightarrow> bool) \<Rightarrow> 'f \<Rightarrow> ('n, 'f) gathered \<Rightarrow> 'f collector
    \<Rightarrow> ('f event list \<times> 'f collector) option" where
  "Collect word_rune to_float accepts float_1 g c =
     (let err = (if g_err g = None then [] else [Handled])
      in if g_err g = Some ErrReaderNotRegistered then Some (err, c)
         else let (ev, c1) = create_target_info word_rune accepts float_1 (Resource g) c;
                  info = (if c_disableTargetInfo c1 then [] else [Sent (the (targetInfo c1))]);
                  scope = scope_labels word_rune (Resource g)
              in map_option (\<lambda>(ev', mfs). (err @ ev @ info @ ev', c1\<lparr>metricFamilies := mfs\<rparr>))
                   (collect_metrics (collect_metric word_rune to_float accepts c1 (map fst scope) (map snd scope))
                      (concat (ScopeMetrics g)) (metricFamilies c1)))"

fun collections where
  "collections f [] c = Some ([], c)"
| "collections f (g # gs) c =
     (case f g c of
        None \<Rightarrow> None
      | Some (ev, c') \<Rightarrow> map_option (\<lambda>(ev', c''). (ev @ ev', c'')) (collections f gs c'))"

subsection \<open>Families over many collections\<close>

fun metric_desc :: "'f prom_metric \<Rightarrow> desc" where
  "metric_desc (ConstMetric d t x vs) = d"
| "metric_desc (ConstHistogram d n s b vs) = d"
| "metric_desc (ConstNativeHistogram d n s p ne z sc th st vs) = d"
| "metric_desc (MetricWithExemplars m es) = metric_desc m"

fun metric_type :: "'f prom_metric \<Rightarrow> mtype" where
  "metric_type (ConstMetric d t x vs) = (if t = CounterValue then COUNTER else GAUGE)"
| "metric_type (ConstHistogram d n s b vs) = HISTOGRAM"
| "metric_type (ConstNativeHistogram d n s p ne z sc th st vs) = HISTOGRAM"
| "metric_type (MetricWithExemplars m es) = metric_type m"

text \<open>A metric agrees with the family of its name: the type is the same, and so is the help text unless the family has none.\<close>

definition in_family :: "families \<Rightarrow> 'f prom_metric \<Rightarrow> bool" where
  "in_family mfs a \<longleftrightarrow> (case mfs (fqName (metric_desc a)) of
     None \<Rightarrow> False | Some (h, t) \<Rightarrow> t = metric_type a \<and> (h = [] \<or> help_text (metric_desc a) = h))"

definition all_in_family :: "families \<Rightarrow> 'f event list \<Rightarrow> bool" where
  "all_in_family mfs ev \<longleftrightarrow> list_all (\<lambda>e. case e of Sent a \<Rightarrow> in_family mfs a | _ \<Rightarrow> True) ev"

lemma all_in_family_simps [simp]:
  "all_in_family mfs []" "all_in_family mfs (Sent a # ev) \<longleftrightarrow> in_family mfs a \<and> all_in_family mfs ev"
  "all_in_family mfs (Handled # ev) \<longleftrightarrow> all_in_family mfs ev" "all_in_family mfs (LoggedError # ev) \<longleftrightarrow> all_in_family mfs ev"
  "all_in_family mfs (LoggedInfo # ev) \<longleftrightarrow> all_in_family mfs ev"
  "all_in_family mfs (ev1 @ ev2) \<longleftrightarrow> all_in_family mfs ev1 \<and> all_in_family mfs ev2"
  by (simp_all add: all_in_family_def)

lemma all_in_family_concat: "all_in_family mfs (concat evs) \<longleftrightarrow> list_all (all_in_family mfs) evs"
  by (induction evs) auto

lemma in_family_mono: "in_family mfs a \<Longrightarrow> mfs \<subseteq>\<^sub>m mfs' \<Longrightarrow> in_family mfs' a"
  by (auto simp: in_family_def map_le_def dom_def split: option.splits)

lemma all_in_family_mono: "all_in_family mfs ev \<Longrightarrow> mfs \<subseteq>\<^sub>m mfs' \<Longrightarrow> all_in_family mfs' ev"
  by (auto simp: all_in_family_def list_all_iff in_family_mono split: event.splits)

lemma addExemplars_desc:
  "metric_desc (snd (addExemplars w f acc a exs)) = metric_desc a \<and> metric_type (snd (addExemplars w f acc a exs)) = metric_type a
     \<and> all_in_family mfs (fst (addExemplars w f acc a exs))"
  by (simp add: addExemplars_def Let_def)

lemma send_point_in_family: "in_family mfs a \<Longrightarrow> all_in_family mfs (send_point w f acc a exs)"
  using addExemplars_desc[of w f acc a exs mfs]
  by (auto simp: send_point_def in_family_def split: prod.split option.splits)

text \<open>What a family admits is in it, and the table only grows.\<close>

lemma with_family_in_family:
  fixes ev :: "'f event list"
  assumes "with_family nm d t mfs points = Some (ev, mfs')"
    "\<And>h ev mfs. points h = Some ev \<Longrightarrow> \<forall>a :: 'f prom_metric. fqName (metric_desc a) = nm \<and> metric_type a = t \<and> help_text (metric_desc a) = h \<longrightarrow> in_family mfs a
        \<Longrightarrow> all_in_family mfs ev"
  shows "mfs \<subseteq>\<^sub>m mfs' \<and> all_in_family mfs' ev"
proof (cases "mfs nm")
  case None
  then obtain ev' where e: "points d = Some ev'" "ev = ev'" "mfs' = mfs(nm \<mapsto> (d, t))"
    using assms(1) by (auto simp: with_family_def validateMetrics_def family_log_def)
  have "all_in_family mfs' ev'" by (rule assms(2)[OF e(1)]) (simp add: in_family_def e(3))
  then show ?thesis using None e by (simp add: map_le_def dom_def)
next
  case (Some x)
  obtain h t' where x: "x = (h, t')" by (cases x)
  show ?thesis
  proof (cases "t' = t")
    case False
    then show ?thesis using assms(1) Some x by (auto simp: with_family_def validateMetrics_def family_log_def)
  next
    case True
    let ?h = "if h \<noteq> d \<and> h \<noteq> [] then h else d"
    have p: "points ?h \<noteq> None" "mfs' = mfs" "ev = (if h \<noteq> d then [LoggedInfo] else []) @ the (points ?h)"
      using assms(1) Some x True by (auto simp: with_family_def validateMetrics_def family_log_def split: if_splits)
    have "all_in_family mfs (the (points ?h))"
      by (rule assms(2)[of ?h]) (use p(1) Some x True in \<open>auto simp: in_family_def\<close>)
    then show ?thesis using p by simp
  qed
qed

lemma point_desc_simps [simp]: "fqName (point_desc w nm h ks as) = nm" "help_text (point_desc w nm h ks as) = h"
  by (simp_all add: point_desc_def)

lemma addHistogramMetric_in_family:
  "addHistogramMetric w f acc dps m ks vs nm mfs = Some (ev, mfs') \<Longrightarrow> mfs \<subseteq>\<^sub>m mfs' \<and> all_in_family mfs' ev"
  unfolding addHistogramMetric_def
  by (erule with_family_in_family) (auto simp: all_in_family_concat list_all_iff split: if_splits intro!: send_point_in_family)

lemma addSumMetric_in_family:
  "addSumMetric w f acc monotonic dps m ks vs nm mfs = Some (ev, mfs') \<Longrightarrow> mfs \<subseteq>\<^sub>m mfs' \<and> all_in_family mfs' ev"
  unfolding addSumMetric_def Let_def
  by (erule with_family_in_family) (auto simp: all_in_family_concat list_all_iff split: if_splits intro!: send_point_in_family)

lemma addGaugeMetric_in_family:
  "addGaugeMetric w f acc dps m ks vs nm mfs = Some (ev, mfs') \<Longrightarrow> mfs \<subseteq>\<^sub>m mfs' \<and> all_in_family mfs' ev"
  unfolding addGaugeMetric_def
  by (erule with_family_in_family) (auto simp: all_in_family_concat list_all_iff intro!: send_point_in_family)

lemma large_counts_in_family [simp]: "all_in_family mfs (large_counts b)"
  by (simp add: large_counts_def all_in_family_def list_all_iff)

lemma expo_events_in_family:
  fixes ev :: "'f event list"
  assumes "expo_events w f acc ks vs nm h dp = Some ev"
    "\<forall>a :: 'f prom_metric. fqName (metric_desc a) = nm \<and> metric_type a = HISTOGRAM \<and> help_text (metric_desc a) = h \<longrightarrow> in_family mfs a"
  shows "all_in_family mfs ev"
proof -
  have "all_in_family mfs e" if "expo_errors dp = Some e" for e
    using that by (auto simp: expo_errors_def split: if_splits option.splits)
  then show ?thesis using assms
    by (auto simp: expo_events_def split: option.splits prod.splits intro!: send_point_in_family)
qed

lemma concat_opt_Some: "concat_opt xs = Some ys \<longleftrightarrow> None \<notin> set xs \<and> ys = concat (map the xs)"
  by (induction xs arbitrary: ys rule: concat_opt.induct) auto

lemma addExponentialHistogramMetric_in_family:
  "addExponentialHistogramMetric w f acc dps m ks vs nm mfs = Some (ev :: 'f event list, mfs') \<Longrightarrow> mfs \<subseteq>\<^sub>m mfs' \<and> all_in_family mfs' ev"
  unfolding addExponentialHistogramMetric_def
proof (erule with_family_in_family)
  fix h and ev :: "'f event list" and mfs :: families
  assume c: "concat_opt (map (expo_events w f acc ks vs nm h) dps) = Some ev"
    and i: "\<forall>a :: 'f prom_metric. fqName (metric_desc a) = nm \<and> metric_type a = HISTOGRAM \<and> help_text (metric_desc a) = h \<longrightarrow> in_family mfs a"
  have "all_in_family mfs (the (expo_events w f acc ks vs nm h dp))" if "dp \<in> set dps" for dp
  proof -
    have "expo_events w f acc ks vs nm h dp \<noteq> None" using c that unfolding concat_opt_Some set_map by (metis imageI)
    then obtain e where e: "expo_events w f acc ks vs nm h dp = Some e" by blast
    then show ?thesis using expo_events_in_family[OF e i] by simp
  qed
  then show "all_in_family mfs ev" using c by (auto simp: concat_opt_Some all_in_family_concat list_all_iff)
qed

lemma collect_metric_in_family:
  "collect_metric w f acc c ks vs m mfs = Some (ev, mfs') \<Longrightarrow> mfs \<subseteq>\<^sub>m mfs' \<and> all_in_family mfs' ev"
  unfolding collect_metric_def
  by (auto split: if_splits option.splits aggregation_data.splits
      dest: addHistogramMetric_in_family addExponentialHistogramMetric_in_family addSumMetric_in_family addGaugeMetric_in_family)

lemma collect_metrics_in_family:
  assumes "\<And>m mfs ev mfs'. g m mfs = Some (ev, mfs') \<Longrightarrow> mfs \<subseteq>\<^sub>m mfs' \<and> all_in_family mfs' ev"
  shows "collect_metrics g ms mfs = Some (ev, mfs') \<Longrightarrow> mfs \<subseteq>\<^sub>m mfs' \<and> all_in_family mfs' ev"
proof (induction ms arbitrary: mfs ev)
  case (Cons m ms)
  obtain ev1 mfs1 ev2 where e: "g m mfs = Some (ev1, mfs1)" "collect_metrics g ms mfs1 = Some (ev2, mfs')" "ev = ev1 @ ev2"
    using Cons.prems by (auto split: option.splits)
  have "mfs \<subseteq>\<^sub>m mfs1 \<and> all_in_family mfs1 ev1" "mfs1 \<subseteq>\<^sub>m mfs' \<and> all_in_family mfs' ev2"
    using assms[OF e(1)] Cons.IH[OF e(2)] by auto
  then show ?case using e(3) all_in_family_mono[of mfs1 ev1 mfs'] map_le_trans[of mfs mfs1 mfs'] by auto
qed simp

lemma create_target_info_events:
  "create_target_info w acc one res c = (ev, c1) \<Longrightarrow> metricFamilies c1 = metricFamilies c \<and> all_in_family mfs ev"
  by (auto simp: create_target_info_def split: if_splits option.splits)

text \<open>Once made, the metric of the resource never changes and is never asked for again.\<close>

definition info_ok :: "'f collector \<Rightarrow> bool" where
  "info_ok c \<longleftrightarrow> (createTargetInfoOnce c \<longrightarrow> c_disableTargetInfo c
     \<or> (\<exists>info. targetInfo c = Some info \<and> fqName (metric_desc info) = lit ''target_info''))"

lemma create_target_info_ok:
  assumes "info_ok c" "create_target_info w acc one res c = (ev, c1)"
  shows "info_ok c1 \<and> createTargetInfoOnce c1 \<and> create_target_info w acc one res' c1 = ([], c1)"
  using assms
  by (auto simp: create_target_info_def info_ok_def createInfoMetric_def Let_def split: if_splits option.splits prod.splits)

lemma New_ok: "New opts reg = Some (Inr (c, sels)) \<Longrightarrow> info_ok c"
  by (auto simp: New_def info_ok_def split: if_splits)

definition ordinary :: "'f event list \<Rightarrow> 'f event list" where
  "ordinary = filter (\<lambda>e. case e of Sent a \<Rightarrow> fqName (metric_desc a) \<noteq> lit ''target_info'' | _ \<Rightarrow> True)"

lemma ordinary_simps [simp]: "ordinary [] = []" "ordinary (xs @ ys) = ordinary xs @ ordinary ys"
  by (simp_all add: ordinary_def)

lemma all_in_family_ordinary: "all_in_family mfs ev \<Longrightarrow> all_in_family mfs (ordinary ev)"
  by (auto simp: all_in_family_def ordinary_def list_all_iff)

lemma Collect_in_family:
  assumes "info_ok c" "Collect w f acc one g c = Some (ev, c')"
  shows "info_ok c' \<and> metricFamilies c \<subseteq>\<^sub>m metricFamilies c' \<and> all_in_family (metricFamilies c') (ordinary ev)"
proof (cases "g_err g = Some ErrReaderNotRegistered")
  case True
  then show ?thesis using assms by (auto simp: Collect_def ordinary_def)
next
  case False
  obtain ev1 c1 where c1: "create_target_info w acc one (Resource g) c = (ev1, c1)" by fastforce
  let ?sc = "scope_labels w (Resource g)"
  obtain ev2 mfs where e: "collect_metrics (collect_metric w f acc c1 (map fst ?sc) (map snd ?sc)) (concat (ScopeMetrics g)) (metricFamilies c1) = Some (ev2, mfs)"
    "ev = (if g_err g = None then [] else [Handled]) @ ev1 @ (if c_disableTargetInfo c1 then [] else [Sent (the (targetInfo c1))]) @ ev2"
    "c' = c1\<lparr>metricFamilies := mfs\<rparr>"
    using assms(2) False c1 by (auto simp: Collect_def Let_def)
  have m: "metricFamilies c1 \<subseteq>\<^sub>m mfs \<and> all_in_family mfs ev2"
    using collect_metrics_in_family[OF collect_metric_in_family e(1)] .
  have ok: "info_ok c1 \<and> createTargetInfoOnce c1" and fams: "metricFamilies c1 = metricFamilies c \<and> all_in_family mfs ev1"
    using create_target_info_ok[OF assms(1) c1] create_target_info_events[OF c1] by auto
  have "info_ok c'" using ok by (simp add: e(3) info_ok_def)
  moreover have "all_in_family mfs (ordinary ev)"
  proof -
    have "ordinary (if c_disableTargetInfo c1 then [] else [Sent (the (targetInfo c1))]) = []"
      using ok unfolding info_ok_def ordinary_def by fastforce
    moreover have "all_in_family mfs (ordinary (if g_err g = None then [] else [Handled]))" by (simp add: ordinary_def)
    ultimately show ?thesis using fams m by (simp add: e(2) all_in_family_ordinary split del: if_split)
  qed
  ultimately show ?thesis using m fams e(3) by simp
qed

lemma collections_in_family:
  "collections (Collect w f acc one) gs c = Some (ev, c') \<Longrightarrow> info_ok c
     \<Longrightarrow> info_ok c' \<and> metricFamilies c \<subseteq>\<^sub>m metricFamilies c' \<and> all_in_family (metricFamilies c') (ordinary ev)"
proof (induction gs arbitrary: c ev)
  case (Cons g gs)
  obtain ev1 c1 ev2 where e: "Collect w f acc one g c = Some (ev1, c1)" "collections (Collect w f acc one) gs c1 = Some (ev2, c')" "ev = ev1 @ ev2"
    using Cons.prems(1) by (auto split: option.splits)
  have 1: "info_ok c1 \<and> metricFamilies c \<subseteq>\<^sub>m metricFamilies c1 \<and> all_in_family (metricFamilies c1) (ordinary ev1)"
    using Collect_in_family[OF Cons.prems(2) e(1)] .
  then have 2: "info_ok c' \<and> metricFamilies c1 \<subseteq>\<^sub>m metricFamilies c' \<and> all_in_family (metricFamilies c') (ordinary ev2)"
    using Cons.IH[OF e(2)] by blast
  have "metricFamilies c \<subseteq>\<^sub>m metricFamilies c'" using 1 2 map_le_trans by blast
  moreover have "all_in_family (metricFamilies c') (ordinary ev1)" using 1 2 all_in_family_mono by blast
  ultimately show ?case using 2 e(3) by simp
qed simp

text \<open>C40. Over any collections of an exporter, all metrics sent under one name (other than the resource's own) have one
  type, and one help text if the family of the name has one.\<close>

theorem prom_families_consistent:
  assumes "New opts reg = Some (Inr (c, sels))" "collections (Collect w f acc one) gs c = Some (ev, c')"
  shows "\<exists>family. \<forall>a. Sent a \<in> set ev \<and> fqName (metric_desc a) \<noteq> lit ''target_info'' \<longrightarrow>
    (\<exists>h. family (fqName (metric_desc a)) = Some (h, metric_type a) \<and> (h \<noteq> [] \<longrightarrow> help_text (metric_desc a) = h))"
proof (intro exI[of _ "metricFamilies c'"] allI impI)
  fix a
  assume a: "Sent a \<in> set ev \<and> fqName (metric_desc a) \<noteq> lit ''target_info''"
  have "in_family (metricFamilies c') a"
    using collections_in_family[OF assms(2) New_ok[OF assms(1)]] a
    by (auto simp: all_in_family_def ordinary_def list_all_iff)
  then show "\<exists>h. metricFamilies c' (fqName (metric_desc a)) = Some (h, metric_type a) \<and> (h \<noteq> [] \<longrightarrow> help_text (metric_desc a) = h)"
    by (auto simp: in_family_def split: option.splits)
qed

definition demo_gathered :: "(int, int) gathered" where
  "demo_gathered = \<lparr>g_err = None, Resource = [(lit ''service.name'', \<lparr>AsString = lit ''gw'', String = lit ''gw''\<rparr>)],
     ScopeMetrics = [[\<lparr>Name = lit ''a'', Description = lit ''d'', Unit = [], Data = SumData True [\<lparr>dp_Attributes = [], dp_Value = 3, dp_Exemplars = []\<rparr>]\<rparr>,
                      \<lparr>Name = lit ''a'', Description = lit ''e'', Unit = [], Data = SumData True [\<lparr>dp_Attributes = [], dp_Value = 4, dp_Exemplars = []\<rparr>]\<rparr>,
                      \<lparr>Name = lit ''a'', Description = lit ''d'', Unit = [], Data = GaugeData [\<lparr>dp_Attributes = [], dp_Value = 5, dp_Exemplars = []\<rparr>]\<rparr>]]\<rparr>"

definition demo_collector :: "int collector" where
  "demo_collector = \<lparr>c_disableTargetInfo = True, c_withoutUnits = False, targetInfo = None, createTargetInfoOnce = False,
     metricFamilies = Map.empty, c_namespace = []\<rparr>"

definition demo_metric :: "int \<Rightarrow> int prom_metric" where
  "demo_metric x = ConstMetric \<lparr>fqName = lit ''a'', help_text = lit ''d'', variableLabels = [lit ''job'', lit ''service_name'']\<rparr>
     CounterValue x [lit ''gw'', lit ''gw'']"

lemma demo_collect:
  "\<exists>c'. Collect is_letter id (\<lambda>_. True) 1 demo_gathered demo_collector =
     Some ([Sent (demo_metric 3), LoggedInfo, Sent (demo_metric 4), LoggedError], c')"
proof -
  have nm: "getName [] False (lit ''a'') [] = Some (lit ''a'')"
    by (simp add: getName_def sanitizeName_def name_valid_def unitSuffixes_def lit_def)
  have sc: "scope_labels is_letter (Resource demo_gathered) = [(lit ''job'', lit ''gw''), (lit ''service_name'', lit ''gw'')]"
    by (simp add: scope_labels_def demo_gathered_def lit_def prom_sanitizeRune_def is_letter_def is_upper_def is_lower_def)
  have pt: "point_desc is_letter n h ks [] = \<lparr>fqName = n, help_text = h, variableLabels = ks\<rparr>" "point_values is_letter vs [] = vs" for n h ks vs
    by (simp_all add: point_desc_def point_values_def attr_strings_def getAttrs_def)
  obtain ev c1 where c1: "create_target_info is_letter (\<lambda>_. True) 1 (Resource demo_gathered) demo_collector = (ev, c1)" by fastforce
  have c: "ev = [] \<and> c_disableTargetInfo c1 \<and> metricFamilies c1 = Map.empty \<and> c_namespace c1 = [] \<and> \<not> c_withoutUnits c1"
    using c1 by (auto simp: create_target_info_def demo_collector_def createInfoMetric_def Let_def split: prod.splits)
  have d: "lit ''d'' \<noteq> []" "lit ''e'' \<noteq> lit ''d''" by (simp_all add: lit_def)
  show ?thesis unfolding Collect_def Let_def sc c1
    using c d by (simp add: demo_gathered_def collect_metric_def nm addSumMetric_def addGaugeMetric_def with_family_def validateMetrics_def
        family_log_def send_point_def addExemplars_def pt demo_metric_def)
qed

theorem prom_families_consistent_witness:
  "\<exists>family h. Sent (demo_metric 3) \<in> set [Sent (demo_metric 3), LoggedInfo, Sent (demo_metric 4), LoggedError]
     \<and> family (lit ''a'') = Some (h, COUNTER) \<and> (h \<noteq> [] \<longrightarrow> h = lit ''d'')"
proof -
  obtain c' where c': "Collect is_letter id (\<lambda>_. True) 1 demo_gathered demo_collector =
     Some ([Sent (demo_metric 3), LoggedInfo, Sent (demo_metric 4), LoggedError], c')" using demo_collect by blast
  have n: "New [WithoutTargetInfo] (\<lambda>_. True) = Some (Inr (demo_collector, []))"
    by (simp add: New_def newConfig_def WithoutTargetInfo_def manualReaderOptions_def demo_collector_def)
  have "\<exists>family. \<forall>a. Sent a \<in> set [Sent (demo_metric 3), LoggedInfo, Sent (demo_metric 4), LoggedError] \<and> fqName (metric_desc a) \<noteq> lit ''target_info'' \<longrightarrow>
    (\<exists>h. family (fqName (metric_desc a)) = Some (h, metric_type a) \<and> (h \<noteq> [] \<longrightarrow> help_text (metric_desc a) = h))"
    by (rule prom_families_consistent[OF n, where gs = "[demo_gathered]" and w = is_letter and f = id and acc = "\<lambda>_. True" and one = 1])
      (simp add: c')
  then obtain family where f: "\<forall>a. Sent a \<in> set [Sent (demo_metric 3), LoggedInfo, Sent (demo_metric 4), LoggedError] \<and> fqName (metric_desc a) \<noteq> lit ''target_info'' \<longrightarrow>
    (\<exists>h. family (fqName (metric_desc a)) = Some (h, metric_type a) \<and> (h \<noteq> [] \<longrightarrow> help_text (metric_desc a) = h))" by blast
  have "fqName (metric_desc (demo_metric 3)) = lit ''a'' \<and> lit ''a'' \<noteq> lit ''target_info'' \<and> metric_type (demo_metric 3) = COUNTER \<and> help_text (metric_desc (demo_metric 3)) = lit ''d''"
    by (simp add: demo_metric_def lit_def)
  then show ?thesis using f[rule_format, of "demo_metric 3"] by (metis list.set_intros(1))
qed

text \<open>A family whose first help text is empty has none: later metrics keep their own.\<close>

lemma empty_help_not_unified:
  "mfs nm = Some ([], t) \<Longrightarrow> snd (validateMetrics nm d t mfs) = mfs \<and> sent_as nm d t mfs = Some (d, t)"
  by (simp add: validateMetrics_def sent_as_def)

subsection \<open>Labels that meet those of the resource\<close>

text \<open>The client refuses a metric with a label twice. The keys of the attributes are made distinct, those of the resource are
  only appended: a point with an attribute that is cleaned to the name of one is not sent.\<close>

lemma label_of_resource_not_sent:
  assumes "\<And>m. accepts m \<Longrightarrow> distinct (variableLabels (metric_desc m))" "k \<in> fst ` set as" "sanitizeTagKey w k \<in> set ks"
    "metric_desc m = point_desc w nm h ks as"
  shows "send_point w f accepts m exs = [Handled]"
proof -
  have "fst (getAttrs w (attr_strings as) ks []) = fst (getAttrs w (attr_strings as) [] []) @ ks"
    by (simp add: getAttrs_def Let_def)
  moreover have "sanitizeTagKey w k \<in> set (fst (getAttrs w (attr_strings as) [] []))"
    using getAttrs_exact[of w "attr_strings as"] assms(2) by (force simp: attr_strings_def)
  ultimately have "\<not> distinct (variableLabels (metric_desc m))" using assms(3,4) by (auto simp: point_desc_def)
  then show ?thesis using assms(1) by (auto simp: send_point_def)
qed

text \<open>Without such an attribute, and with keys of the resource that stay different, the labels are distinct.\<close>

lemma point_labels_distinct:
  "distinct ks \<Longrightarrow> sanitizeTagKey w ` fst ` set as \<inter> set ks = {} \<Longrightarrow> distinct (variableLabels (point_desc w nm h ks as))"
proof -
  assume d: "distinct ks" "sanitizeTagKey w ` fst ` set as \<inter> set ks = {}"
  have "fst ` set (attr_strings as) = fst ` set as" by (force simp: attr_strings_def)
  moreover have "variableLabels (point_desc w nm h ks as) = fst (getAttrs w (attr_strings as) [] []) @ ks"
    by (simp add: point_desc_def getAttrs_def Let_def)
  ultimately show ?thesis using d getAttrs_exact[of w "attr_strings as"] by auto
qed

text \<open>A resource with both \<open>service.name\<close> and \<open>job\<close> gives the label \<open>job\<close> twice: none of its points is sent.\<close>

lemma job_twice:
  assumes "lit ''service.name'' \<in> fst ` set res" "lit ''job'' \<in> fst ` set res" "w 106" "w 111" "w 98"
  shows "\<not> distinct (map fst (scope_labels w res))"
proof
  assume d: "distinct (map fst (scope_labels w res))"
  let ?lab = "\<lambda>a. (if fst a = lit ''service.name'' then [lit ''job''] else []) @ [map (prom_sanitizeRune w) (fst a)]"
  have e: "map fst (scope_labels w res) = concat (map ?lab res)"
    by (induction res) (auto simp: scope_labels_def)
  obtain a b where ab: "a \<in> set res" "fst a = lit ''service.name''" "b \<in> set res" "fst b = lit ''job''" using assms by auto
  then have "a \<noteq> b" by (auto simp: lit_def)
  obtain xs ys where r: "res = xs @ a # ys" using ab(1) by (meson split_list)
  then have b: "b \<in> set xs \<or> b \<in> set ys" using ab(3) \<open>a \<noteq> b\<close> by auto
  have "lit ''job'' \<in> set (?lab a)" "lit ''job'' \<in> set (?lab b)"
    using ab(2,4) assms(3,4,5) by (auto simp: lit_def prom_sanitizeRune_def)
  moreover have "set (?lab b) \<subseteq> set (concat (map ?lab xs)) \<union> set (concat (map ?lab ys))" using b by auto
  moreover have "concat (map ?lab res) = concat (map ?lab xs) @ ?lab a @ concat (map ?lab ys)" by (simp add: r)
  then have "set (concat (map ?lab xs)) \<inter> set (?lab a) = {} \<and> set (?lab a) \<inter> set (concat (map ?lab ys)) = {}"
    using d e by (metis (no_types, lifting) distinct_append inf_sup_distrib1 set_append sup_eq_bot_iff)
  ultimately show False by blast
qed

text \<open>Nothing is lost in between: unless its type conflicts, a counter or gauge sends one metric for each point the client accepts.\<close>

definition sent_count :: "'f event list \<Rightarrow> nat" where
  "sent_count ev = length (filter (\<lambda>e. case e of Sent a \<Rightarrow> True | _ \<Rightarrow> False) ev)"

lemma sent_count_simps [simp]:
  "sent_count [] = 0" "sent_count (Sent a # ev) = Suc (sent_count ev)" "sent_count (Handled # ev) = sent_count ev"
  "sent_count (LoggedError # ev) = sent_count ev" "sent_count (LoggedInfo # ev) = sent_count ev"
  "sent_count (ev1 @ ev2) = sent_count ev1 + sent_count ev2"
  by (simp_all add: sent_count_def)

lemma send_point_count: "sent_count (send_point w f acc a exs) = (if acc a then 1 else 0)"
  by (simp add: send_point_def addExemplars_def Let_def)

lemma send_points_count:
  "sent_count (concat (map (\<lambda>dp. send_point w f acc (mk dp) (ex dp)) dps)) = length (filter (\<lambda>dp. acc (mk dp)) dps)"
  by (induction dps) (auto simp: send_point_count)

lemma sum_points_sent:
  "case mfs nm of None \<Rightarrow> True | Some (h, t) \<Rightarrow> t = (if monotonic then COUNTER else GAUGE) \<Longrightarrow>
   \<exists>h ev mfs'. addSumMetric w f acc monotonic dps m ks vs nm mfs = Some (ev, mfs')
     \<and> sent_count ev = length (filter (\<lambda>dp. acc (ConstMetric (point_desc w nm h ks (dp_Attributes dp))
          (if monotonic then CounterValue else GaugeValue) (f (dp_Value dp)) (point_values w vs (dp_Attributes dp)))) dps)"
  by (cases "mfs nm") (auto simp: addSumMetric_def with_family_def validateMetrics_def family_log_def send_points_count Let_def)

end
