(* ===== verification/Filestore.thy ===== *)
theory Filestore
  imports Config "HOL-Library.List_Lexorder"
begin

text \<open>
  The package \<open>filemanager\<close>: list sessions and the iterator over them, keys and locations of objects, ranges of
  downloads, deletion in batches, timeouts. The storage services are parameters: a listing is the pages a service
  would return, one for each request, or its error; a request is the value handed to the service. Keys are byte
  strings, dates are left out.
\<close>

subsection \<open>The iterator\<close>

record ('f, 's) ObjectIterator =
  session :: 's
  item :: "'f option"
  items :: "'f list"
  it_err :: "gostr option"

definition NewListIterator :: "'s \<Rightarrow> ('f, 's) ObjectIterator" where
  "NewListIterator s = \<lparr>session = s, item = None, items = [], it_err = None\<rparr>"

definition it_Next :: "('s \<Rightarrow> (gostr + 'f list) \<times> 's) \<Rightarrow> ('f, 's) ObjectIterator \<Rightarrow> bool \<times> ('f, 's) ObjectIterator" where
  "it_Next nxt it =
     (let (r, it1) = (if items it = []
                      then (let (r, s) = nxt (session it)
                            in (case r of
                                  Inl e \<Rightarrow> (Some e, it\<lparr>session := s, items := [], it_err := Some e\<rparr>)
                                | Inr xs \<Rightarrow> (None, it\<lparr>session := s, items := xs\<rparr>)))
                      else (None, it))
      in if r \<noteq> None then (False, it1)
         else case items it1 of
                [] \<Rightarrow> (False, it1)
              | x # xs \<Rightarrow> (True, it1\<lparr>item := Some x, items := xs\<rparr>))"

text \<open>\<open>for it.Next() { ... it.Get() ... }\<close>, at most \<open>n\<close> times: the files, and the iterator at the end.\<close>

fun iterate :: "('s \<Rightarrow> (gostr + 'f list) \<times> 's) \<Rightarrow> nat \<Rightarrow> ('f, 's) ObjectIterator \<Rightarrow> 'f list \<times> ('f, 's) ObjectIterator" where
  "iterate nxt 0 it = ([], it)"
| "iterate nxt (Suc n) it =
     (let (b, it') = it_Next nxt it
      in if b then (let (xs, it2) = iterate nxt n it' in (the (item it') # xs, it2)) else ([], it'))"

text \<open>What a session promises: \<open>rest s\<close> are the files still to come; a call returns the first of them, and none only
  when there are no more.\<close>

locale list_session =
  fixes nxt :: "'s \<Rightarrow> (gostr + 'f list) \<times> 's" and ok :: "'s \<Rightarrow> bool" and rest :: "'s \<Rightarrow> 'f list"
  assumes next_ok: "ok s \<Longrightarrow> \<exists>xs s'. nxt s = (Inr xs, s') \<and> ok s' \<and> rest s = xs @ rest s' \<and> (xs = [] \<longrightarrow> rest s = [])"
begin

lemma iterate_rest:
  "ok (session it) \<Longrightarrow> length (items it @ rest (session it)) < n \<Longrightarrow>
   \<exists>it'. iterate nxt n it = (items it @ rest (session it), it') \<and> it_err it' = it_err it"
proof (induction n arbitrary: it)
  case (Suc n)
  show ?case
  proof (cases "items it")
    case (Cons x xs)
    let ?it = "it\<lparr>item := Some x, items := xs\<rparr>"
    have "it_Next nxt it = (True, ?it)" using Cons by (simp add: it_Next_def)
    then show ?thesis using Suc.IH[of ?it] Suc.prems Cons by auto
  next
    case Nil
    obtain xs s' where n: "nxt (session it) = (Inr xs, s')" "ok s'" "rest (session it) = xs @ rest s'" "xs = [] \<Longrightarrow> rest (session it) = []"
      using next_ok[OF Suc.prems(1)] by blast
    show ?thesis
    proof (cases xs)
      case xs: Nil
      then show ?thesis using n Nil by (simp add: it_Next_def)
    next
      case (Cons x ys)
      let ?it = "it\<lparr>session := s', item := Some x, items := ys\<rparr>"
      have "it_Next nxt it = (True, ?it)" using Cons Nil n(1) by (simp add: it_Next_def)
      then show ?thesis using Suc.IH[of ?it] Suc.prems n Cons Nil by auto
    qed
  qed
qed simp

end

subsection \<open>Sessions of S3, DigitalOcean and MinIO\<close>

text \<open>The request of a page: prefix, largest number of keys (an int32), continuation token, start after (\<open>None\<close>: not
  set). The response: keys, whether there are more, the next token.\<close>

type_synonym 't list_service = "gostr \<Rightarrow> int \<Rightarrow> 't option \<Rightarrow> gostr option \<Rightarrow> gostr + gostr list \<times> bool \<times> 't option"

record 't s3ListSession =
  startAfter :: gostr
  prefix :: gostr
  maxItems :: int
  continuationToken :: "'t option"
  isTruncated :: bool

definition sanitizeKey :: "gostr \<Rightarrow> gostr" where
  "sanitizeKey key = TrimLeft1 47 (TrimSpace key)"

definition ListFilesWithPrefix :: "gostr \<Rightarrow> gostr \<Rightarrow> int \<Rightarrow> 't s3ListSession" where
  "ListFilesWithPrefix sa pre n =
     \<lparr>startAfter = sa, prefix = sanitizeKey pre, maxItems = n, continuationToken = None, isTruncated = True\<rparr>"

definition s3_Next :: "'t list_service \<Rightarrow> 't s3ListSession \<Rightarrow> (gostr + gostr list) \<times> 't s3ListSession" where
  "s3_Next list_objects l =
     (if \<not> isTruncated l then (Inr [], l)
      else case list_objects (prefix l) (signed_take_bit 31 (maxItems l)) (continuationToken l)
                  (if startAfter l \<noteq> [] then Some (startAfter l) else None) of
             Inl e \<Rightarrow> (Inl e, l)
           | Inr (contents, truncated, token) \<Rightarrow> (Inr contents, l\<lparr>isTruncated := truncated, continuationToken := token\<rparr>))"

text \<open>A service that has the given pages for every request; a token is the number of a page.\<close>

definition pages_service :: "gostr list list \<Rightarrow> nat list_service" where
  "pages_service ps pre n token sa =
     (let i = (case token of None \<Rightarrow> 0 | Some i \<Rightarrow> i)
      in if i < length ps then Inr (ps ! i, i + 1 < length ps, Some (i + 1)) else Inr ([], False, None))"

definition s3_rest :: "gostr list list \<Rightarrow> nat s3ListSession \<Rightarrow> gostr list" where
  "s3_rest ps l = (if isTruncated l then concat (drop (case continuationToken l of None \<Rightarrow> 0 | Some i \<Rightarrow> i) ps) else [])"

definition s3_ok :: "gostr list list \<Rightarrow> nat s3ListSession \<Rightarrow> bool" where
  "s3_ok ps l \<longleftrightarrow> [] \<notin> set ps"

interpretation s3: list_session "s3_Next (pages_service ps)" "s3_ok ps" "s3_rest ps" for ps
proof
  fix l
  assume "s3_ok ps l"
  let ?i = "case continuationToken l of None \<Rightarrow> 0 | Some i \<Rightarrow> i"
  show "\<exists>xs s'. s3_Next (pages_service ps) l = (Inr xs, s') \<and> s3_ok ps s' \<and> s3_rest ps l = xs @ s3_rest ps s'
    \<and> (xs = [] \<longrightarrow> s3_rest ps l = [])"
  proof (cases "isTruncated l \<and> ?i < length ps")
    case True
    define i where "i = ?i"
    have i: "isTruncated l" "i < length ps" using True by (simp_all add: i_def)
    let ?l = "l\<lparr>isTruncated := i + 1 < length ps, continuationToken := Some (i + 1)\<rparr>"
    have n: "s3_Next (pages_service ps) l = (Inr (ps ! i), ?l)"
      using i by (simp add: s3_Next_def pages_service_def i_def[symmetric] Let_def)
    have "s3_rest ps l = ps ! i @ s3_rest ps ?l"
      using i by (auto simp: s3_rest_def i_def[symmetric] Cons_nth_drop_Suc[symmetric])
    moreover have "ps ! i \<noteq> []" using i \<open>s3_ok ps l\<close> by (metis nth_mem s3_ok_def)
    ultimately show ?thesis using n \<open>s3_ok ps l\<close> by (auto simp: s3_ok_def)
  qed (use \<open>s3_ok ps l\<close> in \<open>auto simp: s3_Next_def pages_service_def s3_rest_def s3_ok_def\<close>)
qed



text \<open>An empty page in the middle ends the iteration, although more files follow and no error is reported.\<close>

lemma empty_page_stops:
  "fst (iterate (s3_Next (pages_service [[], [[98]]])) n (NewListIterator (ListFilesWithPrefix sa pre m))) = []"
  by (cases n) (simp_all add: it_Next_def NewListIterator_def ListFilesWithPrefix_def s3_Next_def pages_service_def)

subsection \<open>Sessions of Azure and GCS\<close>

text \<open>A session of Azure is the segments still to come; a segment is the names in it or an error. The loop over the
  segments of one call: \<open>n\<close> is \<open>maxItems\<close>, \<open>objs\<close> the result so far.\<close>

fun azure_loop :: "gostr \<Rightarrow> int \<Rightarrow> (gostr + gostr list) list \<Rightarrow> gostr list \<Rightarrow> (gostr + gostr list) \<times> (gostr + gostr list) list" where
  "azure_loop sa n [] objs = (Inr objs, [])"
| "azure_loop sa n (seg # segs) objs =
     (if n \<le> 0 then (Inr objs, seg # segs)
      else case seg of
             Inl e \<Rightarrow> (Inl e, seg # segs)
           | Inr names \<Rightarrow>
               (let fileObjects = filter (\<lambda>k. k > sa) names
                in azure_loop sa (n - int (length fileObjects)) segs fileObjects))"

definition azure_Next :: "gostr \<Rightarrow> int \<Rightarrow> (gostr + gostr list) list \<Rightarrow> (gostr + gostr list) \<times> (gostr + gostr list) list" where
  "azure_Next sa n segs = azure_loop sa n segs []"

definition after_start :: "gostr \<Rightarrow> gostr list \<Rightarrow> gostr list" where
  "after_start sa ks = filter (\<lambda>k. k > sa) ks"

text \<open>How many segments a call reads: those before which fewer than \<open>n\<close> files were seen.\<close>

definition segments_read :: "gostr \<Rightarrow> int \<Rightarrow> gostr list list \<Rightarrow> nat" where
  "segments_read sa n segs = length (filter (\<lambda>i. int (length (after_start sa (concat (take i segs)))) < n) [0..<length segs])"

lemma segments_read_Nil [simp]: "segments_read sa n [] = 0"
  by (simp add: segments_read_def)

lemma segments_read_0 [simp]: "n \<le> 0 \<Longrightarrow> segments_read sa n segs = 0"
  by (auto simp: segments_read_def filter_empty_conv)

lemma segments_read_Cons:
  "0 < n \<Longrightarrow> segments_read sa n (s # segs) = Suc (segments_read sa (n - int (length (after_start sa s))) segs)"
proof -
  assume n: "0 < n"
  have u: "[0..<Suc (length segs)] = 0 # map Suc [0..<length segs]"
    by (simp only: upt_conv_Cons[OF zero_less_Suc] map_Suc_upt)
  show ?thesis
    using n by (simp add: segments_read_def u filter_map o_def after_start_def less_diff_eq add.commute del: upt_Suc)
qed

lemma azure_loop_exact:
  "azure_loop sa n (map Inr segs) objs =
     (let k = segments_read sa n segs
      in (Inr (if k = 0 then objs else after_start sa (segs ! (k - 1))), map Inr (drop k segs)))"
proof (induction segs arbitrary: n objs)
  case (Cons s segs)
  show ?case
  proof (cases "0 < n")
    case True
    then show ?thesis
      using Cons[of "n - int (length (after_start sa s))" "after_start sa s"]
      by (simp add: segments_read_Cons after_start_def[symmetric] Let_def split: if_splits)
  qed simp
qed simp

text \<open>A call on Azure reads segments until it has seen \<open>maxItems\<close> files after the start key or there are no more, and
  returns those of the last segment it read only: what the segments before it held is left out of the listing for good.\<close>

lemma azure_Next_last:
  "azure_Next sa n (map Inr segs) =
     (let k = segments_read sa n segs
      in (Inr (if k = 0 then [] else after_start sa (segs ! (k - 1))), map Inr (drop k segs)))"
  by (simp add: azure_Next_def azure_loop_exact)

lemma azure_loses: "azure_Next [] 3 [Inr [[97]], Inr [[98]]] = (Inr [[98]], [])"
  by (simp add: azure_Next_def)

text \<open>A session of GCS asks the iterator of the library, which is the objects still to come; an error stays in it.\<close>

fun gcs_loop :: "nat \<Rightarrow> (gostr + gostr) list \<Rightarrow> gostr list \<Rightarrow> (gostr option \<times> gostr list) \<times> (gostr + gostr) list" where
  "gcs_loop 0 objs acc = ((None, rev acc), objs)"
| "gcs_loop (Suc n) [] acc = ((None, rev acc), [])"
| "gcs_loop (Suc n) (Inl e # objs) acc = ((Some e, rev acc), Inl e # objs)"
| "gcs_loop (Suc n) (Inr k # objs) acc = gcs_loop n objs (k # acc)"

definition gcs_Next :: "int \<Rightarrow> (gostr + gostr) list \<Rightarrow> (gostr option \<times> gostr list) \<times> (gostr + gostr) list" where
  "gcs_Next n objs = gcs_loop (nat n) objs []"

lemma gcs_loop_prefix: "gcs_loop n (map Inr ks) acc = ((None, rev acc @ take n ks), map Inr (drop n ks))"
  by (induction n "map Inr ks :: (gostr + gostr) list" acc arbitrary: ks rule: gcs_loop.induct) auto

definition gcs_session_Next :: "int \<Rightarrow> gostr list \<Rightarrow> (gostr + gostr list) \<times> gostr list" where
  "gcs_session_Next m ks =
     (let ((e, xs), objs) = gcs_Next m (map Inr ks)
      in (case e of None \<Rightarrow> Inr xs | Some e \<Rightarrow> Inl e, map projr objs))"

interpretation gcs: list_session "gcs_session_Next m" "\<lambda>_. 0 < m" "\<lambda>ks. ks" for m
proof
  fix ks :: "gostr list"
  assume "0 < m"
  then show "\<exists>xs s'. gcs_session_Next m ks = (Inr xs, s') \<and> 0 < m \<and> ks = xs @ s' \<and> (xs = [] \<longrightarrow> ks = [])"
    by (simp add: gcs_session_Next_def gcs_Next_def gcs_loop_prefix o_def)
qed

subsection \<open>Keys and locations\<close>

text \<open>\<open>UploadReader\<close> up to the request: the key it puts.\<close>

definition s3_upload_key :: "gostr \<Rightarrow> gostr option" where
  "s3_upload_key objName = (if objName = [] then None else Some (sanitizeKey objName))"

lemma upload_empty_key: "s3_upload_key [47] = Some []"
  by (simp add: s3_upload_key_def sanitizeKey_def TrimLeft1_def TrimSpace_def is_space_def)

text \<open>The object of a location of S3 or DigitalOcean, from the host and the path of the parsed URL.\<close>

definition s3_object :: "bool \<Rightarrow> gostr \<Rightarrow> gostr \<Rightarrow> gostr \<Rightarrow> gostr" where
  "s3_object forcePathStyle bucket host upath =
     (let trimmed = TrimLeft1 47 upath
      in if forcePathStyle \<or> \<not> Contains host bucket then TrimPrefix trimmed (bucket @ [47]) else trimmed)"

lemma sanitizeKey_head: "sanitizeKey k = [] \<or> hd (sanitizeKey k) \<noteq> 47"
  by (metis (full_types) hd_dropWhile sanitizeKey_def TrimLeft1_def)

text \<open>Where the location is in the style that the configuration expects, the key comes back.\<close>

lemma s3_object_key:
  assumes "s3_upload_key objName = Some key" "key \<noteq> []"
  shows "Contains host bucket \<Longrightarrow> s3_object False bucket host ([47] @ key) = key"
    and "bucket \<noteq> [] \<Longrightarrow> hd bucket \<noteq> 47 \<Longrightarrow> force \<or> \<not> Contains host bucket \<Longrightarrow>
      s3_object force bucket host ([47] @ bucket @ [47] @ key) = key"
proof -
  have h: "hd key \<noteq> 47" using assms sanitizeKey_head by (metis s3_upload_key_def option.inject option.distinct(1))
  have d: "dropWhile (\<lambda>r. r = 47) (x @ y) = x @ y" if "x \<noteq> []" "hd x \<noteq> 47" for x y :: gostr
    using that by (cases x) auto
  show "Contains host bucket \<Longrightarrow> s3_object False bucket host ([47] @ key) = key"
    using d[of key "[]"] assms(2) h by (simp add: s3_object_def TrimLeft1_def)
  show "bucket \<noteq> [] \<Longrightarrow> hd bucket \<noteq> 47 \<Longrightarrow> force \<or> \<not> Contains host bucket \<Longrightarrow>
      s3_object force bucket host ([47] @ bucket @ [47] @ key) = key"
    using d[of bucket "47 # key"] using TrimPrefix_append[of "bucket @ [47]" key] by (auto simp: s3_object_def TrimLeft1_def)
qed

text \<open>A path-style location in a host that happens to contain the name of the bucket gives the bucket too.\<close>

lemma s3_object_wrong: "s3_object False (lit ''aws'') (lit ''s3.amazonaws.com'') (lit ''/aws/k'') = lit ''aws/k''"
  by (simp add: s3_object_def TrimPrefix_def TrimLeft1_def lit_def)


subsection \<open>Locations of GCS, Azure and MinIO\<close>

text \<open>The last part of \<open>strings.Split\<close> at a separator: what follows its last occurrence, occurrences being counted
  from the left without overlaps.\<close>

function after_last :: "gostr \<Rightarrow> gostr \<Rightarrow> gostr \<Rightarrow> gostr" where
  "after_last sep [] acc = rev acc"
| "after_last sep (c # s) acc =
     (if sep \<noteq> [] \<and> has_prefix sep (c # s) then after_last sep (drop (length sep) (c # s)) [] else after_last sep s (c # acc))"
  by pat_completeness auto

termination
  by (relation "measure (\<lambda>(_, s, _). length s)") auto

definition gcs_object :: "gostr \<Rightarrow> gostr \<Rightarrow> gostr" where
  "gcs_object bucket location = TrimLeft1 47 (after_last bucket location [])"

definition azure_object :: "gostr \<Rightarrow> gostr \<Rightarrow> gostr" where
  "azure_object container location = after_last (container @ [47]) location []"

definition gcs_objectURL :: "gostr option \<Rightarrow> gostr \<Rightarrow> gostr \<Rightarrow> gostr" where
  "gcs_objectURL ep bucket name =
     (case ep of
        Some e \<Rightarrow> if e \<noteq> [] then (if e \<noteq> [] \<and> last e = 47 then butlast e else e) @ [47] @ bucket @ [47] @ name
                  else lit ''https://storage.googleapis.com/'' @ bucket @ [47] @ name
      | None \<Rightarrow> lit ''https://storage.googleapis.com/'' @ bucket @ [47] @ name)"

text \<open>A key that does not start with a slash and holds no occurrence of the bucket's name comes back, where the
  bucket's name does not occur before its place in the location either.\<close>

lemma after_last_none: "\<not> Contains s sep \<Longrightarrow> after_last sep s acc = rev acc @ s"
proof (induction s arbitrary: acc)
  case (Cons c s)
  then have "\<not> has_prefix sep (c # s)" "\<not> Contains s sep" by auto
  then show ?case using Cons.IH[of "c # acc"] by simp
qed simp

lemma gcs_cut: "gcs_object (lit ''logs'') (gcs_objectURL None (lit ''logs'') (lit ''a/logs/b'')) = lit ''b''"
  by (simp add: gcs_object_def gcs_objectURL_def lit_def TrimLeft1_def)

lemma azure_cut: "azure_object (lit ''logs'') (lit ''https://acc.blob.core.windows.net/logs/a/logs/b'') = lit ''b''"
  by (simp add: azure_object_def lit_def)

definition minio_objectUrl :: "bool \<Rightarrow> gostr \<Rightarrow> gostr \<Rightarrow> gostr \<Rightarrow> gostr" where
  "minio_objectUrl useSSL endpoint bucket name =
     (if useSSL then lit ''https'' else lit ''http'') @ lit ''://'' @ endpoint @ [47] @ bucket @ [47] @ name"

text \<open>\<open>location[len(baseURL):]\<close> panics (\<open>None\<close>) where the location is shorter than the base.\<close>

definition minio_object :: "bool \<Rightarrow> gostr \<Rightarrow> gostr \<Rightarrow> gostr \<Rightarrow> gostr option" where
  "minio_object useSSL endpoint bucket location =
     (let base = (if useSSL then lit ''https://'' else lit ''http://'') @ endpoint @ [47] @ bucket @ [47]
      in if length base \<le> length location then Some (drop (length base) location) else None)"

lemma minio_roundtrip: "minio_object ssl ep b (minio_objectUrl ssl ep b name) = Some name"
  by (simp add: minio_object_def minio_objectUrl_def lit_def)

lemma minio_panics: "minio_object False (lit ''h'') (lit ''b'') (lit ''http://h/b'') = None"
  by (simp add: minio_object_def lit_def)

subsection \<open>Ranges of downloads\<close>

text \<open>Offsets and lengths are int64: sums are taken at that width.\<close>

record downloadOptions =
  offset :: int
  len :: int
  isRangeRequest :: bool

definition WithDownloadOffSetAndLength :: "int \<Rightarrow> int \<Rightarrow> downloadOptions \<Rightarrow> downloadOptions" where
  "WithDownloadOffSetAndLength off l opt =
     opt\<lparr>offset := (if off < 0 then 0 else off), len := (if l < 0 then 0 else l), isRangeRequest := True\<rparr>"

definition WithDownloadOffSet :: "int \<Rightarrow> downloadOptions \<Rightarrow> downloadOptions" where
  "WithDownloadOffSet off = WithDownloadOffSetAndLength off 0"

definition applyDownloadOptions :: "(downloadOptions \<Rightarrow> downloadOptions) list \<Rightarrow> downloadOptions" where
  "applyDownloadOptions opts = fold (\<lambda>opt. opt) opts \<lparr>offset = 0, len = 0, isRangeRequest = False\<rparr>"

definition s3_range :: "downloadOptions \<Rightarrow> gostr option" where
  "s3_range d =
     (if \<not> isRangeRequest d then None
      else if 0 < len d then Some (lit ''bytes='' @ int_str (offset d) @ [45] @ int_str (wrap64 (wrap64 (offset d + len d) - 1)))
      else Some (lit ''bytes='' @ int_str (offset d) @ [45]))"

definition gcs_range :: "downloadOptions \<Rightarrow> (int \<times> int) option" where
  "gcs_range d = (if isRangeRequest d then Some (offset d, if len d \<le> 0 then - 1 else len d) else None)"

text \<open>\<open>CountToEnd\<close> is 0.\<close>

definition azure_range :: "downloadOptions \<Rightarrow> int \<times> int" where
  "azure_range d = (if isRangeRequest d then (offset d, if 0 < len d then len d else 0) else (0, 0))"

definition minio_range :: "downloadOptions \<Rightarrow> (int \<times> int) option" where
  "minio_range d = (if isRangeRequest d then Some (offset d, if 0 < len d then wrap64 (wrap64 (offset d + len d) - 1) else 0) else None)"

lemma last_option_wins:
  "applyDownloadOptions (opts @ [WithDownloadOffSetAndLength o1 l]) = \<lparr>offset = max o1 0, len = max l 0, isRangeRequest = True\<rparr>"
  by (auto simp: applyDownloadOptions_def WithDownloadOffSetAndLength_def max_def)

text \<open>MinIO is asked for the same range for everything from the start and for the first byte only.\<close>

lemma minio_range_zero:
  "minio_range (applyDownloadOptions [WithDownloadOffSet 0]) = minio_range (applyDownloadOptions [WithDownloadOffSetAndLength 0 1])"
  by (simp add: minio_range_def applyDownloadOptions_def WithDownloadOffSet_def WithDownloadOffSetAndLength_def wrap64_def)

subsection \<open>Writing a download\<close>

text \<open>\<open>writerAtAdapter\<close> over a file: \<open>WriteAt\<close> replaces the bytes at an offset, filling a gap with zeros.\<close>

definition write_at :: "byte list \<Rightarrow> byte list \<Rightarrow> nat \<Rightarrow> byte list" where
  "write_at f p off = take off f @ replicate (off - length f) 0 @ p @ drop (off + length p) f"

definition adapter_Write :: "byte list \<Rightarrow> byte list \<times> nat \<Rightarrow> byte list \<times> nat" where
  "adapter_Write p w = (write_at (fst w) p (snd w), snd w + length p)"

text \<open>However the stream is cut, the file starts with it; bytes of a longer file that was there stay behind it.\<close>

lemma adapter_writes:
  "snd (fold adapter_Write ps (f, 0)) = length (concat ps) \<and>
   fst (fold adapter_Write ps (f, 0)) = concat ps @ drop (length (concat ps)) f"
proof (induction ps rule: rev_induct)
  case (snoc p ps)
  then show ?case by (auto simp: adapter_Write_def write_at_def add.commute)
qed simp


lemma after_last_append:
  "sep \<noteq> [] \<Longrightarrow> \<forall>i < length pre. \<not> has_prefix sep (drop i (pre @ sep @ s)) \<Longrightarrow> \<not> Contains s sep \<Longrightarrow>
   after_last sep (pre @ sep @ s) acc = s"
proof (induction pre arbitrary: acc)
  case Nil
  obtain c sep' where sep: "sep = c # sep'" using Nil by (cases sep) auto
  then have "has_prefix (c # sep') (c # sep' @ s)" using has_prefix_append[of sep s] by simp
  then show ?case using Nil sep by (simp add: after_last_none)
next
  case (Cons p pre)
  have "\<not> has_prefix sep ((p # pre) @ sep @ s)" using Cons.prems(2) by auto
  moreover have "\<forall>i < length pre. \<not> has_prefix sep (drop i (pre @ sep @ s))" using Cons.prems(2) by fastforce
  ultimately show ?case using Cons.IH[of "p # acc"] Cons.prems by simp
qed

lemma azure_object_key:
  assumes "\<forall>i < length base. \<not> has_prefix (container @ [47]) (drop i (base @ container @ [47] @ key))" "\<not> Contains key (container @ [47])"
  shows "azure_object container (base @ container @ [47] @ key) = key"
  using after_last_append[of "container @ [47]" base key "[]"] assms by (simp add: azure_object_def)

subsection \<open>Names of uploaded objects\<close>

text \<open>\<open>Upload\<close> of GCS, Azure, MinIO and DigitalOcean; S3 sanitizes the name too.\<close>

definition upload_name :: "gostr \<Rightarrow> gostr list \<Rightarrow> gostr \<Rightarrow> gostr" where
  "upload_name pre prefixes file = path_Join [pre, path_Join prefixes, path_Base file]"

definition s3_upload_name :: "gostr \<Rightarrow> gostr list \<Rightarrow> gostr \<Rightarrow> gostr" where
  "s3_upload_name pre prefixes file = sanitizeKey (upload_name pre prefixes file)"

definition plain :: "gostr \<Rightarrow> bool" where
  "plain c \<longleftrightarrow> c \<noteq> [] \<and> c \<noteq> [46] \<and> c \<noteq> [46, 46] \<and> 47 \<notin> set c"

lemma fold_clean_plain: "list_all plain cs \<Longrightarrow> fold (clean_step rooted) cs acc = rev cs @ acc"
  by (induction cs arbitrary: acc) (auto simp: clean_step_def plain_def)

lemma Join_plain_head: "cs \<noteq> [] \<Longrightarrow> list_all plain cs \<Longrightarrow> Join cs [47] \<noteq> [] \<and> hd (Join cs [47]) \<noteq> 47"
  by (cases cs rule: remdups_adj.cases) (auto simp: plain_def neq_Nil_conv)

lemma path_Clean_plain:
  assumes "cs \<noteq> []" "list_all plain cs"
  shows "path_Clean (Join cs [47]) = Join cs [47]"
proof -
  have "split_on 47 (Join cs [47]) = cs" using split_on_Join assms by (auto simp: plain_def list_all_iff)
  then show ?thesis using Join_plain_head[OF assms] fold_clean_plain[OF assms(2)] by (simp add: path_Clean_def Let_def)
qed

lemma path_Join_plain: "list_all plain cs \<Longrightarrow> path_Join cs = Join cs [47]"
proof -
  assume p: "list_all plain cs"
  then have "filter (\<lambda>e. e \<noteq> []) cs = cs" by (auto simp: filter_id_conv list_all_iff plain_def)
  then show ?thesis using path_Clean_plain[of cs] p by (simp add: path_Join_def Let_def)
qed

lemma takeWhile_tail: "x \<notin> set g \<Longrightarrow> takeWhile (\<lambda>r. r \<noteq> x) (rev g @ x # d) = rev g"
  by (subst takeWhile_append2) auto

lemma path_Base_plain: "plain f \<Longrightarrow> path_Base (d @ [47] @ f) = f"
proof -
  assume p: "plain f"
  obtain g c where f: "f = g @ [c]" using p by (cases f rule: rev_cases) (auto simp: plain_def)
  then have "c \<noteq> 47" "47 \<notin> set g" using p by (auto simp: plain_def)
  then show ?thesis using f by (simp add: path_Base_def TrimRight1_def takeWhile_tail)
qed

text \<open>An uploaded file is named by its prefixes and its base name, where these hold no empty parts, dots or slashes.\<close>

lemma upload_name_plain:
  assumes "plain pre" "prefixes \<noteq> []" "list_all plain prefixes" "plain f"
  shows "upload_name pre prefixes (d @ [47] @ f) = pre @ [47] @ Join prefixes [47] @ [47] @ f"
proof -
  have j: "Join (pre # prefixes @ [f]) [47] = pre @ [47] @ Join prefixes [47] @ [47] @ f"
    using assms(2) Join_snoc[of prefixes f "[47]"] by (cases prefixes) auto
  have "path_Join [pre, Join prefixes [47], f] = path_Clean (Join (pre # prefixes @ [f]) [47])"
    using assms Join_plain_head[of prefixes] j by (auto simp: path_Join_def plain_def)
  also have "\<dots> = Join (pre # prefixes @ [f]) [47]" using assms by (intro path_Clean_plain) auto
  finally show ?thesis using assms j by (simp add: upload_name_def path_Join_plain path_Base_plain del: append_Cons append_Nil)
qed

lemma upload_escapes: "upload_name (lit ''tenant'') [lit ''..''] (lit ''f'') = lit ''f''"
  by (simp add: upload_name_def path_Join_def path_Clean_def path_Base_def clean_step_def lit_def TrimRight1_def Let_def)


subsection \<open>Deleting\<close>

text \<open>\<open>lo.Chunk\<close>; the loop over the batches: the requests sent, and the error of the first that fails.\<close>

function Chunk :: "nat \<Rightarrow> 'a list \<Rightarrow> 'a list list" where
  "Chunk n [] = []"
| "Chunk n (x # xs) = (if n = 0 then [] else take n (x # xs) # Chunk n (drop n (x # xs)))"
  by pat_completeness auto

termination
  by (relation "measure (\<lambda>(_, xs). length xs)") auto

fun delete_batches :: "(gostr list \<Rightarrow> gostr option) \<Rightarrow> gostr list list \<Rightarrow> gostr list list \<times> gostr option" where
  "delete_batches del [] = ([], None)"
| "delete_batches del (c # cs) =
     (case del c of Some e \<Rightarrow> ([c], Some e) | None \<Rightarrow> (let (sent, r) = delete_batches del cs in (c # sent, r)))"

definition s3_Delete :: "(gostr list \<Rightarrow> gostr option) \<Rightarrow> gostr list \<Rightarrow> gostr list list \<times> gostr option" where
  "s3_Delete del ks = delete_batches del (Chunk 1000 (map sanitizeKey ks))"

definition do_Delete :: "(gostr list \<Rightarrow> gostr option) \<Rightarrow> gostr list \<Rightarrow> gostr list list \<times> gostr option" where
  "do_Delete del ks = (if ks = [] then ([], None) else delete_batches del (Chunk 1000 ks))"

text \<open>GCS deletes one object after another and goes on where an object does not exist (\<open>Some True\<close>); Azure stops there.\<close>

fun gcs_Delete :: "(gostr \<Rightarrow> bool option) \<Rightarrow> gostr list \<Rightarrow> gostr list \<times> bool" where
  "gcs_Delete del [] = ([], True)"
| "gcs_Delete del (k # ks) =
     (case del k of
        Some notExist \<Rightarrow> if \<not> notExist then ([k], False) else apfst ((#) k) (gcs_Delete del ks)
      | None \<Rightarrow> apfst ((#) k) (gcs_Delete del ks))"

fun azure_Delete :: "(gostr \<Rightarrow> gostr option) \<Rightarrow> gostr list \<Rightarrow> gostr list \<times> gostr option" where
  "azure_Delete del [] = ([], None)"
| "azure_Delete del (k # ks) = (case del k of Some e \<Rightarrow> ([k], Some e) | None \<Rightarrow> apfst ((#) k) (azure_Delete del ks))"

text \<open>MinIO answers with the errors of the objects that could not be deleted; the first of them is the result.\<close>

definition minio_Delete :: "(gostr list \<Rightarrow> gostr list) \<Rightarrow> gostr list \<Rightarrow> gostr option" where
  "minio_Delete remove ks = (case remove ks of [] \<Rightarrow> None | e # es \<Rightarrow> Some e)"

lemma Chunk_concat: "0 < n \<Longrightarrow> concat (Chunk n xs) = xs"
  by (induction n xs rule: Chunk.induct) (simp_all del: take_Suc_Cons)

lemma Chunk_sizes: "list_all (\<lambda>c. c \<noteq> [] \<and> length c \<le> n) (Chunk n xs)"
  by (induction n xs rule: Chunk.induct) auto

lemma delete_batches_split:
  "\<exists>later. cs = fst (delete_batches del cs) @ later \<and> list_all (\<lambda>c. del c = None) (butlast (fst (delete_batches del cs))) \<and>
     (case snd (delete_batches del cs) of
        None \<Rightarrow> later = [] \<and> list_all (\<lambda>c. del c = None) cs
      | Some e \<Rightarrow> fst (delete_batches del cs) \<noteq> [] \<and> del (last (fst (delete_batches del cs))) = Some e)"
  by (induction cs) (auto split: option.splits prod.splits)

text \<open>A deletion in S3 sends batches of at most 1000 keys, none of them empty: without an error they are all the keys,
  sanitized, in order; with one, they end with the batch that failed, those before it succeeded, and no later key was sent.\<close>

lemma s3_Delete_exact:
  "list_all (\<lambda>c. c \<noteq> [] \<and> length c \<le> 1000) (fst (s3_Delete del ks))
   \<and> list_all (\<lambda>c. del c = None) (butlast (fst (s3_Delete del ks)))
   \<and> (\<exists>later. map sanitizeKey ks = concat (fst (s3_Delete del ks)) @ later
      \<and> (case snd (s3_Delete del ks) of
           None \<Rightarrow> later = [] \<and> list_all (\<lambda>c. del c = None) (fst (s3_Delete del ks))
         | Some e \<Rightarrow> fst (s3_Delete del ks) \<noteq> [] \<and> del (last (fst (s3_Delete del ks))) = Some e))"
proof -
  let ?cs = "Chunk 1000 (map sanitizeKey ks)"
  have c: "concat ?cs = map sanitizeKey ks" by (rule Chunk_concat) simp
  obtain later where l: "?cs = fst (s3_Delete del ks) @ later" "list_all (\<lambda>c. del c = None) (butlast (fst (s3_Delete del ks)))"
    "case snd (s3_Delete del ks) of
       None \<Rightarrow> later = [] \<and> list_all (\<lambda>c. del c = None) ?cs
     | Some e \<Rightarrow> fst (s3_Delete del ks) \<noteq> [] \<and> del (last (fst (s3_Delete del ks))) = Some e"
    using delete_batches_split[of ?cs del, folded s3_Delete_def] by blast
  have "list_all (\<lambda>c. c \<noteq> [] \<and> length c \<le> 1000) (fst (s3_Delete del ks) @ later)"
    using Chunk_sizes[of 1000 "map sanitizeKey ks"] l(1) by simp
  moreover have "map sanitizeKey ks = concat (fst (s3_Delete del ks)) @ concat later"
    using c l(1) by (metis concat_append)
  ultimately show ?thesis using l by (auto split: option.splits)
qed


subsection \<open>Settings of the managers\<close>

text \<open>\<open>config[k].(T)\<close> on a map of settings; a pointer is an option.\<close>

type_synonym cfgmap = "gostr \<rightharpoonup> any"

definition cfg_strp :: "cfgmap \<Rightarrow> string \<Rightarrow> gostr option" where
  "cfg_strp m k = (case m (lit k) of Some (AStr s) \<Rightarrow> Some s | _ \<Rightarrow> None)"

definition cfg_boolp :: "cfgmap \<Rightarrow> string \<Rightarrow> bool option" where
  "cfg_boolp m k = (case m (lit k) of Some (ABool b) \<Rightarrow> Some b | _ \<Rightarrow> None)"

definition cfg_str :: "cfgmap \<Rightarrow> string \<Rightarrow> gostr" where
  "cfg_str m k = (case cfg_strp m k of Some s \<Rightarrow> s | None \<Rightarrow> [])"

definition cfg_bool :: "cfgmap \<Rightarrow> string \<Rightarrow> bool" where
  "cfg_bool m k \<longleftrightarrow> cfg_boolp m k = Some True"

record AzureBlobConfig =
  az_Container :: gostr
  az_Prefix :: gostr
  az_AccountName :: gostr
  az_AccountKey :: gostr
  az_SASToken :: gostr
  az_EndPoint :: "gostr option"
  az_ForcePathStyle :: "bool option"
  az_DisableSSL :: "bool option"
  az_UseSASTokens :: bool

definition azureBlobConfig :: "cfgmap \<Rightarrow> AzureBlobConfig" where
  "azureBlobConfig m =
     \<lparr>az_Container = cfg_str m ''containerName'', az_Prefix = cfg_str m ''prefix'', az_AccountName = cfg_str m ''accountName'',
      az_AccountKey = cfg_str m ''accountKey'', az_SASToken = TrimPrefix (cfg_str m ''sasToken'') [63],
      az_EndPoint = cfg_strp m ''endPoint'', az_ForcePathStyle = cfg_boolp m ''forcePathStyle'',
      az_DisableSSL = cfg_boolp m ''disableSSL'', az_UseSASTokens = cfg_bool m ''useSASTokens''\<rparr>"

record GCSConfig =
  gcs_Bucket :: gostr
  gcs_Prefix :: gostr
  gcs_Credentials :: gostr
  gcs_EndPoint :: "gostr option"
  gcs_ForcePathStyle :: "bool option"
  gcs_DisableSSL :: "bool option"
  gcs_JSONReads :: bool
  gcs_UploadIfNotExist :: bool

definition gcsConfig :: "cfgmap \<Rightarrow> GCSConfig" where
  "gcsConfig m =
     \<lparr>gcs_Bucket = cfg_str m ''bucketName'', gcs_Prefix = cfg_str m ''prefix'', gcs_Credentials = cfg_str m ''credentials'',
      gcs_EndPoint = cfg_strp m ''endPoint'', gcs_ForcePathStyle = cfg_boolp m ''forcePathStyle'',
      gcs_DisableSSL = cfg_boolp m ''disableSSL'', gcs_JSONReads = cfg_bool m ''jsonReads'',
      gcs_UploadIfNotExist = cfg_bool m ''uploadIfNotExist''\<rparr>"

record MinioConfig =
  mn_Bucket :: gostr
  mn_Prefix :: gostr
  mn_EndPoint :: gostr
  mn_AccessKeyID :: gostr
  mn_SecretAccessKey :: gostr
  mn_UseSSL :: bool

definition minioConfig :: "cfgmap \<Rightarrow> MinioConfig" where
  "minioConfig m =
     \<lparr>mn_Bucket = cfg_str m ''bucketName'', mn_Prefix = cfg_str m ''prefix'', mn_EndPoint = cfg_str m ''endPoint'',
      mn_AccessKeyID = cfg_str m ''accessKeyID'', mn_SecretAccessKey = cfg_str m ''secretAccessKey'', mn_UseSSL = cfg_bool m ''useSSL''\<rparr>"

text \<open>What \<open>NewS3Manager\<close> does to the prefix and the bucket of the decoded settings.\<close>

definition s3_clean :: "gostr \<Rightarrow> gostr \<Rightarrow> gostr \<times> gostr" where
  "s3_clean pre bucket =
     ((if pre \<noteq> [] \<and> hd pre = 47 then sanitizeKey pre else pre), TrimRight1 47 bucket)"

text \<open>The address of the account: scheme, host, path and query.\<close>

definition getBaseURL :: "AzureBlobConfig \<Rightarrow> gostr \<times> gostr \<times> gostr \<times> gostr" where
  "getBaseURL m =
     (let protocol = (if az_DisableSSL m = Some True then lit ''http'' else lit ''https'');
          endpoint = (case az_EndPoint m of Some e \<Rightarrow> if e \<noteq> [] then e else lit ''blob.core.windows.net''
                      | None \<Rightarrow> lit ''blob.core.windows.net'');
          query = (if az_UseSASTokens m then az_SASToken m else [])
      in if az_ForcePathStyle m = Some True
         then (protocol, endpoint, [47] @ az_AccountName m @ [47], query)
         else (protocol, az_AccountName m @ [46] @ endpoint, [], query))"

datatype credential = Anonymous | SharedKey gostr gostr

definition getCredentials :: "AzureBlobConfig \<Rightarrow> gostr + credential" where
  "getCredentials m =
     (if az_UseSASTokens m then Inr Anonymous
      else if az_AccountName m = [] \<or> az_AccountKey m = [] then Inl (lit ''either accountName or accountKey is empty'')
      else Inr (SharedKey (az_AccountName m) (az_AccountKey m)))"

text \<open>The address of the container, and what it is signed with.\<close>

definition getContainerURL :: "AzureBlobConfig \<Rightarrow> gostr + credential \<times> (gostr \<times> gostr \<times> gostr \<times> gostr) \<times> gostr" where
  "getContainerURL m =
     (if az_Container m = [] then Inl (lit ''no container configured'')
      else bind_res (getCredentials m) (\<lambda>c. Inr (c, getBaseURL m, az_Container m)))"

lemma getContainerURL_ok:
  "getContainerURL m = Inr (c, u, n) \<longleftrightarrow>
     az_Container m \<noteq> [] \<and> n = az_Container m \<and> u = getBaseURL m \<and>
     (if az_UseSASTokens m then c = Anonymous
      else az_AccountName m \<noteq> [] \<and> az_AccountKey m \<noteq> [] \<and> c = SharedKey (az_AccountName m) (az_AccountKey m))"
  by (auto simp: getContainerURL_def getCredentials_def)

text \<open>Only a SAS token puts a query into the address, without its question mark.\<close>

lemma query_of_sas: "getBaseURL (azureBlobConfig m) = (p, h, u, q) \<Longrightarrow>
  q = (if cfg_bool m ''useSASTokens'' then TrimPrefix (cfg_str m ''sasToken'') [63] else [])"
  by (auto simp: getBaseURL_def azureBlobConfig_def Let_def split: if_splits)

subsection \<open>The region of DigitalOcean\<close>

text \<open>\<open>getSpacesLocation\<close>: the pattern is a raw string, so that \<open>\\.\<close> in it is a backslash and any character:
  the match is everything up to the last backslash, character, \<open>digitaloceanspaces\<close>, backslash, character and
  \<open>com\<close> (in a location without line ends).\<close>

definition spaces_here :: "gostr \<Rightarrow> bool" where
  "spaces_here s \<longleftrightarrow>
     (let d = lit ''digitaloceanspaces''; n = length d
      in take 1 s = [92] \<and> has_prefix d (drop 2 s) \<and> take 1 (drop (2 + n) s) = [92] \<and> has_prefix (lit ''com'') (drop (4 + n) s))"

fun spaces_match :: "gostr \<Rightarrow> gostr option" where
  "spaces_match [] = None"
| "spaces_match (c # s) =
     (case spaces_match s of
        Some t \<Rightarrow> Some (c # t)
      | None \<Rightarrow> if spaces_here (c # s) then Some (take (7 + length (lit ''digitaloceanspaces'')) (c # s)) else None)"

definition getSpacesLocation :: "gostr \<Rightarrow> gostr" where
  "getSpacesLocation location =
     (let tokens = split_on 46 (case spaces_match location of Some t \<Rightarrow> t | None \<Rightarrow> [])
      in if length tokens = 3 then tokens ! 0 else [])"

lemma spaces_match_none: "92 \<notin> set s \<Longrightarrow> spaces_match s = None"
  by (induction s) (auto simp: spaces_here_def Let_def)

text \<open>No address of a region gives one: they hold no backslash.\<close>

lemma getSpacesLocation_empty: "92 \<notin> set s \<Longrightarrow> getSpacesLocation s = []"
  by (simp add: getSpacesLocation_def spaces_match_none)

subsection \<open>Timeouts and providers\<close>

definition second :: "64 word" where
  "second = 1000000000"

definition getTimeout :: "64 word \<Rightarrow> ('c \<Rightarrow> 64 word \<times> 'c) option \<Rightarrow> 'c \<Rightarrow> 64 word \<times> 'c" where
  "getTimeout timeout dflt c =
     (if 0 <s timeout then (timeout, c)
      else case dflt of Some f \<Rightarrow> f c | None \<Rightarrow> (120 * second, c))"

definition getDefaultTimeout :: "golib \<Rightarrow> gostr \<Rightarrow> config \<Rightarrow> 64 word \<times> config" where
  "getDefaultTimeout L destType c =
     (let fm = lit ''FileManager.''; br = lit ''BatchRouter.''; key = lit ''timeout'';
          (b1, c1) = IsSet (fm @ destType @ [46] @ key) c
      in if b1 then GetDurationVar L 120 second [fm @ destType @ [46] @ key] c1
         else let (b2, c2) = IsSet (fm @ key) c1
              in if b2 then GetDurationVar L 120 second [fm @ key] c2
                 else let (b3, c3) = IsSet (br @ destType @ [46] @ key) c2
                      in if b3 then GetDurationVar L 120 second [br @ destType @ [46] @ key] c3
                         else GetDurationVar L 120 second [br @ key] c3)"

datatype provider = S3 | GCS | Azure | Minio | DigitalOcean

definition New_provider :: "gostr \<Rightarrow> gostr + provider" where
  "New_provider p =
     (if p = lit ''S3_DATALAKE'' \<or> p = lit ''S3'' then Inr S3
      else if p = lit ''GCS'' then Inr GCS
      else if p = lit ''AZURE_BLOB'' then Inr Azure
      else if p = lit ''MINIO'' then Inr Minio
      else if p = lit ''DIGITAL_OCEAN_SPACES'' then Inr DigitalOcean
      else Inl (lit ''service provider not supported: '' @ p))"


text \<open>\<open>GetProviderConfigFromEnv\<close>: the settings read one after another, and the configuration after it. \<open>extID\<close> is
  the supplier of the external id, \<open>file\<close> the content of a file, where it can be read.\<close>

datatype setting = SStr string gostr gostr | SBool string bool gostr

fun read_settings :: "golib \<Rightarrow> setting list \<Rightarrow> config \<Rightarrow> cfgmap \<Rightarrow> cfgmap \<times> config" where
  "read_settings L [] c m = (m, c)"
| "read_settings L (SStr k d env # ss) c m = (let (s, c1) = GetStringVar L d [env] c in read_settings L ss c1 (m(lit k \<mapsto> AStr s)))"
| "read_settings L (SBool k d env # ss) c m = (let (b, c1) = GetBoolVar L d [env] c in read_settings L ss c1 (m(lit k \<mapsto> ABool b)))"

definition GetProviderConfigFromEnv ::
  "golib \<Rightarrow> (gostr \<Rightarrow> gostr option) \<Rightarrow> gostr \<Rightarrow> gostr \<Rightarrow> gostr \<Rightarrow> gostr \<Rightarrow> config \<Rightarrow> cfgmap \<times> config" where
  "GetProviderConfigFromEnv L file extID prov bucket pre c =
     (let start = Map.empty(lit ''bucketName'' \<mapsto> AStr bucket, lit ''prefix'' \<mapsto> AStr pre) in
      if prov = lit ''S3'' then
        (let (m, c1) = read_settings L
               [SStr ''accessKeyID'' [] (lit ''AWS_ACCESS_KEY_ID''), SStr ''accessKey'' [] (lit ''AWS_SECRET_ACCESS_KEY''),
                SBool ''enableSSE'' False (lit ''AWS_ENABLE_SSE''), SStr ''regionHint'' (lit ''us-east-1'') (lit ''AWS_S3_REGION_HINT''),
                SStr ''iamRoleArn'' [] (lit ''BACKUP_IAM_ROLE_ARN''), SStr ''region'' [] (lit ''AWS_REGION'')] c start
         in (if m (lit ''iamRoleArn'') \<noteq> Some (AStr []) then m(lit ''externalID'' \<mapsto> AStr extID) else m, c1))
      else if prov = lit ''GCS'' then
        (let (path, c1) = GetStringVar L [] [lit ''GOOGLE_APPLICATION_CREDENTIALS''] c
         in (case file path of Some s \<Rightarrow> start(lit ''credentials'' \<mapsto> AStr s) | None \<Rightarrow> start, c1))
      else if prov = lit ''AZURE_BLOB'' then
        read_settings L [SStr ''accountName'' [] (lit ''AZURE_STORAGE_ACCOUNT''), SStr ''accountKey'' [] (lit ''AZURE_STORAGE_ACCESS_KEY'')] c
          (Map.empty(lit ''containerName'' \<mapsto> AStr bucket, lit ''prefix'' \<mapsto> AStr pre))
      else if prov = lit ''MINIO'' then
        read_settings L
          [SStr ''endPoint'' (lit ''localhost:9000'') (lit ''MINIO_ENDPOINT''), SStr ''accessKeyID'' (lit ''minioadmin'') (lit ''MINIO_ACCESS_KEY_ID''),
           SStr ''secretAccessKey'' (lit ''minioadmin'') (lit ''MINIO_SECRET_ACCESS_KEY''), SBool ''useSSL'' False (lit ''MINIO_SSL'')] c start
      else if prov = lit ''DIGITAL_OCEAN_SPACES'' then
        read_settings L
          [SStr ''endPoint'' [] (lit ''DO_SPACES_ENDPOINT''), SStr ''accessKeyID'' [] (lit ''DO_SPACES_ACCESS_KEY_ID''),
           SStr ''accessKey'' [] (lit ''DO_SPACES_SECRET_ACCESS_KEY'')] c start
      else (Map.empty, c))"

fun setting_key :: "setting \<Rightarrow> gostr" where
  "setting_key (SStr k d env) = lit k"
| "setting_key (SBool k d env) = lit k"

lemma read_settings_other:
  "k \<notin> setting_key ` set ss \<Longrightarrow> fst (read_settings L ss c m) k = m k"
  by (induction L ss c m rule: read_settings.induct) (auto split: prod.splits)

text \<open>What the environment gives is read back by the manager: bucket and prefix reach the settings of GCS and MinIO, the
  container and the prefix those of Azure.\<close>

lemma env_buckets:
  "gcs_Bucket (gcsConfig (fst (GetProviderConfigFromEnv L file e (lit ''GCS'') b p c))) = b"
  "az_Container (azureBlobConfig (fst (GetProviderConfigFromEnv L file e (lit ''AZURE_BLOB'') b p c))) = b"
  "mn_Bucket (minioConfig (fst (GetProviderConfigFromEnv L file e (lit ''MINIO'') b p c))) = b"
  "az_Prefix (azureBlobConfig (fst (GetProviderConfigFromEnv L file e (lit ''AZURE_BLOB'') b p c))) = p"
  "mn_Prefix (minioConfig (fst (GetProviderConfigFromEnv L file e (lit ''MINIO'') b p c))) = p"
  by (auto simp: GetProviderConfigFromEnv_def gcsConfig_def azureBlobConfig_def minioConfig_def cfg_str_def cfg_strp_def
      read_settings_other lit_def Let_def split: prod.splits option.splits)

text \<open>The key of the role (\<open>iamRoleArn\<close>) is not the one that \<open>SessionConfig\<close> names (\<open>iamRoleARN\<close>); its decoder
  takes keys of any case, so that the role is found.\<close>

subsection \<open>Formats of a selection\<close>

datatype input_ser = Parquet
datatype output_ser = CSV gostr gostr | JSON

definition createS3SelectSerializationV2 :: "gostr \<Rightarrow> gostr \<Rightarrow> gostr + input_ser \<times> output_ser" where
  "createS3SelectSerializationV2 i out =
     (if i \<noteq> lit ''parquet'' then Inl (lit ''invalid input format: '' @ i)
      else if out = lit ''csv'' then Inr (Parquet, CSV [10] [44])
      else if out = lit ''json'' then Inr (Parquet, JSON)
      else Inl (lit ''invalid output format: '' @ out))"

subsection \<open>Sessions of AWS\<close>

text \<open>The settings after decoding (\<open>decoded\<close>), and what \<open>NewSimpleSessionConfig\<close> makes of them; \<open>isSet\<close> says
  whether \<open>roleBasedAuth\<close> is a boolean in the map.\<close>

record SessionConfig =
  AccessKeyID :: gostr
  AccessKey :: gostr
  SecretAccessKey :: gostr
  RoleBasedAuth :: bool
  IAMRoleARN :: gostr
  ExternalID :: gostr
  Service :: gostr

definition isRoleBasedAuthFieldExist :: "cfgmap \<Rightarrow> bool" where
  "isRoleBasedAuthFieldExist m \<longleftrightarrow> (case m (lit ''roleBasedAuth'') of Some (ABool b) \<Rightarrow> True | _ \<Rightarrow> False)"

definition NewSimpleSessionConfig :: "(cfgmap \<Rightarrow> SessionConfig option) \<Rightarrow> cfgmap option \<Rightarrow> gostr \<Rightarrow> gostr + SessionConfig" where
  "NewSimpleSessionConfig decode m service =
     (case m of
        None \<Rightarrow> Inl (lit ''config should not be nil'')
      | Some m \<Rightarrow>
          (case decode m of
             None \<Rightarrow> Inl (lit ''unable to populate session config using destinationConfig'')
           | Some s \<Rightarrow>
               let s1 = (if \<not> isRoleBasedAuthFieldExist m then s\<lparr>RoleBasedAuth := IAMRoleARN s \<noteq> []\<rparr> else s);
                   s2 = (if IAMRoleARN s1 = [] then s1\<lparr>RoleBasedAuth := False\<rparr> else s1);
                   s3 = (if SecretAccessKey s2 \<noteq> [] then s2\<lparr>AccessKey := SecretAccessKey s2\<rparr> else s2)
               in Inr (s3\<lparr>Service := service\<rparr>)))"

datatype aws_credentials = Default | Static gostr gostr | Role gostr gostr gostr

definition createRoleSessionName :: "gostr \<Rightarrow> gostr" where
  "createRoleSessionName service =
     lit ''rudderstack-aws-'' @ ToLower (map (\<lambda>r. if r = 32 then 45 else r) service) @ lit ''-access''"

text \<open>The credentials that \<open>CreateAWSConfig\<close> settles on.\<close>

definition aws_credentials_of :: "SessionConfig \<Rightarrow> gostr + aws_credentials" where
  "aws_credentials_of s =
     (if RoleBasedAuth s then
        (if ExternalID s = [] then Inl (lit ''awsutil: externalID is required for IAM role'')
         else Inr (Role (IAMRoleARN s) (ExternalID s) (createRoleSessionName (Service s))))
      else if AccessKeyID s \<noteq> [] \<and> AccessKey s \<noteq> [] then Inr (Static (AccessKeyID s) (AccessKey s))
      else Inr Default)"

text \<open>A role is assumed exactly where one is given and not turned off, a role needs an external id, and the secret key
  takes precedence over the access key.\<close>

lemma session_credentials:
  assumes "decode m = Some s" "NewSimpleSessionConfig decode (Some m) service = Inr t"
  shows "aws_credentials_of t =
    (if IAMRoleARN s \<noteq> [] \<and> (isRoleBasedAuthFieldExist m \<and> RoleBasedAuth s \<or> \<not> isRoleBasedAuthFieldExist m) then
       (if ExternalID s = [] then Inl (lit ''awsutil: externalID is required for IAM role'')
        else Inr (Role (IAMRoleARN s) (ExternalID s) (createRoleSessionName service)))
     else let k = (if SecretAccessKey s \<noteq> [] then SecretAccessKey s else AccessKey s)
          in if AccessKeyID s \<noteq> [] \<and> k \<noteq> [] then Inr (Static (AccessKeyID s) k) else Inr Default)"
proof -
  have t: "t = s\<lparr>RoleBasedAuth := IAMRoleARN s \<noteq> [] \<and> (isRoleBasedAuthFieldExist m \<longrightarrow> RoleBasedAuth s),
      AccessKey := (if SecretAccessKey s \<noteq> [] then SecretAccessKey s else AccessKey s), Service := service\<rparr>"
    using assms by (cases "isRoleBasedAuthFieldExist m"; cases "IAMRoleARN s = []"; cases "SecretAccessKey s = []")
      (auto simp: NewSimpleSessionConfig_def)
  show ?thesis unfolding t aws_credentials_of_def by (cases "isRoleBasedAuthFieldExist m") (simp_all add: Let_def)
qed

end
