(* ===== verification/Cdoc_Scan.thy ===== *)
theory Cdoc_Scan
  imports Kit_Prelude "HOL-Library.Multiset" "HOL-Library.Product_Lexorder"
begin

text \<open>
  The scanner of the tool \<open>cmd/cdoc\<close>, which documents the configuration getters that a Go file calls: directives in
  comments, calls in the syntax tree, their merge into one stream of events, and the entries extracted from it. A syntax
  tree is a datatype with the nodes the scanner looks at; every other node has only its children, in the order of
  \<open>ast.Inspect\<close>. Printing an expression is the argument \<open>pr\<close> (\<open>go/printer\<close>). Strings are runes; a literal with
  byte escapes above 127 is left out.
\<close>

subsection \<open>Entries and warnings\<close>

record Entry =
  PrimaryKey :: gostr
  ConfigKeys :: "gostr list"
  EnvKeys :: "gostr list"
  Default :: gostr
  Description :: gostr
  Reloadable :: bool
  Group :: gostr
  GroupOrder :: int
  eFile :: gostr
  eLine :: int

record GroupOrderDeclaration =
  gGroup :: gostr
  gOrder :: int
  gFile :: gostr
  gLine :: int

datatype WarningCode = ParseFailed | ArgCount | DynamicKeyMissing | UnusedKeyOverride | ConflictingGroupOrder
  | ConflictingGroup | ConflictingDefault | UnusedDescDirective | UnusedDefaultDirective | MissingDescription | MissingGroup

record Warning =
  Code :: WarningCode
  wFile :: gostr
  wLine :: int
  Message :: gostr

subsection \<open>Directives\<close>

datatype directiveKind = DGroup | DDesc | DIgnore | DKey | DDefault

record directive =
  dkind :: directiveKind
  dvalue :: gostr
  dline :: int
  dorder :: nat

definition CutPrefix :: "gostr \<Rightarrow> gostr \<Rightarrow> gostr option" where
  "CutPrefix s p = (if has_prefix p s then Some (drop (length p) s) else None)"

definition parse_comment :: "gostr \<Rightarrow> (directiveKind \<times> gostr) option" where
  "parse_comment c =
     (let text = TrimSpace (TrimPrefix c (lit ''//'')) in
      case CutPrefix text (lit ''cdoc:group '') of Some x \<Rightarrow> Some (DGroup, x) | None \<Rightarrow>
      case CutPrefix text (lit ''cdoc:desc '') of Some x \<Rightarrow> Some (DDesc, x) | None \<Rightarrow>
      if text = lit ''cdoc:ignore'' then Some (DIgnore, []) else
      case CutPrefix text (lit ''cdoc:key '') of Some x \<Rightarrow> Some (DKey, x) | None \<Rightarrow>
      case CutPrefix text (lit ''cdoc:default '') of Some x \<Rightarrow> Some (DDefault, x) | None \<Rightarrow> None)"

text \<open>The comments of a file are their lines and texts, in order; the map from lines to directives is a list of pairs.\<close>

fun add_line :: "int \<Rightarrow> directive \<Rightarrow> (int \<times> directive list) list \<Rightarrow> (int \<times> directive list) list" where
  "add_line l d [] = [(l, [d])]"
| "add_line l d ((k, ds) # m) = (if k = l then (k, ds @ [d]) # m else (k, ds) # add_line l d m)"

fun collect_loop :: "nat \<Rightarrow> (int \<times> gostr) list \<Rightarrow> (int \<times> directive list) list \<Rightarrow> (int \<times> directive list) list" where
  "collect_loop n [] m = m"
| "collect_loop n ((l, c) # cs) m =
     collect_loop (n + 1) cs
       (case parse_comment c of
          Some (k, x) \<Rightarrow> add_line l \<lparr>dkind = k, dvalue = x, dline = l, dorder = n\<rparr> m
        | None \<Rightarrow> m)"

definition collectDirectives :: "(int \<times> gostr) list \<Rightarrow> (int \<times> directive list) list" where
  "collectDirectives cs = collect_loop 0 cs []"

definition flattenDirectives :: "(int \<times> directive list) list \<Rightarrow> directive list" where
  "flattenDirectives m = concat (map snd (sort_key fst m))"

definition parseGroupDirective :: "gostr \<Rightarrow> gostr \<times> int" where
  "parseGroupDirective x =
     (let value = TrimSpace x in
      if value = [] then ([], 0)
      else case Fields value of
             p # q # ps \<Rightarrow> (case ParseInt p of Some n \<Rightarrow> (Join (q # ps) [32], n) | None \<Rightarrow> (value, 0))
           | _ \<Rightarrow> (value, 0))"

fun extractGroupOrderDeclarations :: "gostr \<Rightarrow> directive list \<Rightarrow> GroupOrderDeclaration list" where
  "extractGroupOrderDeclarations file [] = []"
| "extractGroupOrderDeclarations file (d # ds) =
     (if dkind d \<noteq> DGroup then extractGroupOrderDeclarations file ds
      else let (g, n) = parseGroupDirective (dvalue d); g = TrimSpace g in
           if g = [] \<or> n = 0 then extractGroupOrderDeclarations file ds
           else \<lparr>gGroup = g, gOrder = n, gFile = file, gLine = dline d\<rparr> # extractGroupOrderDeclarations file ds)"

definition parseVarKeyDirective :: "gostr \<Rightarrow> gostr list" where
  "parseVarKeyDirective x = filter (\<lambda>k. k \<noteq> []) (map TrimSpace (split_on 44 x))"

subsection \<open>Calls\<close>

datatype litkind = IntLit | FloatLit | StringLit | OtherLit

record callpos =
  cpos :: nat
  cstart :: int
  cend :: int
  ellipsis :: bool

datatype expr =
  BasicLit litkind gostr
| Ident gostr
| CompositeLit "expr list" "expr list"
| UnaryExpr gostr expr
| SelectorExpr expr gostr
| CallExpr callpos expr "expr list"
| Node "expr list"

datatype methodFamily = Simple | Duration | WithMultiplier

definition classifyMethod :: "gostr \<Rightarrow> (methodFamily \<times> bool) option" where
  "classifyMethod name =
     (if \<not> has_prefix (lit ''Get'') name then None
      else let b0 = TrimPrefix name (lit ''Get'');
               reloadable = has_prefix (lit ''Reloadable'') b0;
               b1 = (if reloadable then TrimPrefix b0 (lit ''Reloadable'') else b0)
           in if \<not> HasSuffix b1 (lit ''Var'') then None
              else let b = TrimSuffix b1 (lit ''Var'') in
                if b \<in> {lit ''String'', lit ''Bool'', lit ''StringSlice'', lit ''StringMap'', lit ''Float64''} then Some (Simple, reloadable)
                else if b = lit ''Duration'' then Some (Duration, reloadable)
                else if b = lit ''Int'' \<or> b = lit ''Int64'' then Some (WithMultiplier, reloadable)
                else None)"

fun selectorMethodName :: "expr \<Rightarrow> gostr" where
  "selectorMethodName (SelectorExpr x s) = s"
| "selectorMethodName e = []"

record callInfo =
  cargs :: "expr list"
  at :: callpos
  family :: methodFamily
  reload :: bool

definition call_of :: "(expr \<Rightarrow> bool) option \<Rightarrow> expr \<Rightarrow> callInfo list" where
  "call_of flt e =
     (case e of
        CallExpr p f as \<Rightarrow>
          (case classifyMethod (selectorMethodName f) of
             None \<Rightarrow> []
           | Some (fam, r) \<Rightarrow>
               if (case flt of Some g \<Rightarrow> \<not> g e | None \<Rightarrow> False) then []
               else [\<lparr>cargs = as, at = p, family = fam, reload = r\<rparr>])
      | _ \<Rightarrow> [])"

fun inspect :: "(expr \<Rightarrow> 'a list) \<Rightarrow> expr \<Rightarrow> 'a list" where
  "inspect g (CompositeLit ts es) = g (CompositeLit ts es) @ concat (map (inspect g) ts) @ concat (map (inspect g) es)"
| "inspect g (UnaryExpr op x) = g (UnaryExpr op x) @ inspect g x"
| "inspect g (SelectorExpr x s) = g (SelectorExpr x s) @ inspect g x @ g (Ident s)"
| "inspect g (CallExpr p f as) = g (CallExpr p f as) @ inspect g f @ concat (map (inspect g) as)"
| "inspect g (Node es) = g (Node es) @ concat (map (inspect g) es)"
| "inspect g e = g e"

definition collectCalls :: "expr \<Rightarrow> (expr \<Rightarrow> bool) option \<Rightarrow> callInfo list" where
  "collectCalls file flt = inspect (call_of flt) file"

datatype fileEvent = EvDirective directive | EvCall callInfo

text \<open>The order of the events as a tuple: line, directives first, then their order or the position and line of the call.\<close>

fun event_key :: "fileEvent \<Rightarrow> int \<times> nat \<times> nat \<times> int" where
  "event_key (EvDirective d) = (dline d, 0, dorder d, 0)"
| "event_key (EvCall c) = (cend (at c), 1, cpos (at c), cstart (at c))"

definition buildEvents :: "callInfo list \<Rightarrow> directive list \<Rightarrow> fileEvent list" where
  "buildEvents calls dirs = sort_key event_key (map EvDirective dirs @ map EvCall calls)"


subsection \<open>Rendering expressions\<close>

text \<open>\<open>strconv.Unquote\<close> of a string literal.\<close>

fun hex_digit :: "rune \<Rightarrow> nat option" where
  "hex_digit c =
     (if 48 \<le> c \<and> c \<le> 57 then Some (c - 48) else if 97 \<le> c \<and> c \<le> 102 then Some (c - 87)
      else if 65 \<le> c \<and> c \<le> 70 then Some (c - 55) else None)"

fun hex_num :: "nat \<Rightarrow> gostr \<Rightarrow> nat option" where
  "hex_num acc [] = Some acc"
| "hex_num acc (c # s) = (case hex_digit c of Some d \<Rightarrow> hex_num (16 * acc + d) s | None \<Rightarrow> None)"

definition simple_escape :: "rune \<Rightarrow> rune option" where
  "simple_escape = map_of [(97, 7), (98, 8), (102, 12), (110, 10), (114, 13), (116, 9), (118, 11), (92, 92), (34, 34)]"

definition valid_rune :: "nat \<Rightarrow> bool" where
  "valid_rune r \<longleftrightarrow> r < 0xD800 \<or> 0xE000 \<le> r \<and> r \<le> 0x10FFFF"

text \<open>One escape after the backslash: the rune and what follows.\<close>

definition escape_at :: "gostr \<Rightarrow> (rune \<times> gostr) option" where
  "escape_at s =
     (case s of
        [] \<Rightarrow> None
      | e # t \<Rightarrow>
          (case simple_escape e of
             Some r \<Rightarrow> Some (r, t)
           | None \<Rightarrow>
               let n = (if e = 120 then 2 else if e = 117 then 4 else if e = 85 then 8 else 0) in
               if 0 < n then
                 (case hex_num 0 (take n t) of
                    Some r \<Rightarrow> if n \<le> length t \<and> (n = 2 \<or> valid_rune r) then Some (r, drop n t) else None
                  | None \<Rightarrow> None)
               else if 3 \<le> length s \<and> list_all (\<lambda>c. 48 \<le> c \<and> c \<le> 55) (take 3 s) then
                 (let r = foldl (\<lambda>a c. 8 * a + (c - 48)) 0 (take 3 s) in if r \<le> 255 then Some (r, drop 3 s) else None)
               else None))"

lemma escape_at_shorter: "escape_at s = Some (r, t) \<Longrightarrow> length t < length s"
  by (auto simp: escape_at_def Let_def split: list.splits option.splits if_splits)

function (sequential) unescape :: "gostr \<Rightarrow> gostr option" where
  "unescape [] = Some []"
| "unescape (c # s) =
     (if c = 34 \<or> c = 10 then None
      else if c \<noteq> 92 then map_option ((#) c) (unescape s)
      else case escape_at s of Some (r, t) \<Rightarrow> map_option ((#) r) (unescape t) | None \<Rightarrow> None)"
  by pat_completeness auto

termination
  by (relation "measure length") (auto dest: escape_at_shorter)

definition Unquote :: "gostr \<Rightarrow> gostr option" where
  "Unquote s =
     (if length s < 2 \<or> hd s \<noteq> last s then None
      else let body = butlast (tl s) in
           if hd s = 96 then (if 96 \<in> set body then None else Some (filter (\<lambda>c. c \<noteq> 13) body))
           else if hd s = 34 then unescape body
           else None)"

definition builtinTypeNames :: "gostr list" where
  "builtinTypeNames = map lit [''bool'', ''string'', ''int'', ''int8'', ''int16'', ''int32'', ''int64'', ''uint'', ''uint8'',
     ''uint16'', ''uint32'', ''uint64'', ''uintptr'', ''byte'', ''rune'', ''float32'', ''float64'', ''complex64'', ''complex128'']"

definition isBuiltinTypeConversionCall :: "expr \<Rightarrow> 'a list \<Rightarrow> bool" where
  "isBuiltinTypeConversionCall f as \<longleftrightarrow> length as = 1 \<and> (case f of Ident n \<Rightarrow> n \<in> set builtinTypeNames | _ \<Rightarrow> False)"

fun isLiteralDefault :: "expr \<Rightarrow> bool" where
  "isLiteralDefault (BasicLit k x) = True"
| "isLiteralDefault (Ident n) = (n = lit ''true'' \<or> n = lit ''false'' \<or> n = lit ''nil'')"
| "isLiteralDefault (CompositeLit ts es) = True"
| "isLiteralDefault (UnaryExpr op x) = isLiteralDefault x"
| "isLiteralDefault (CallExpr p f [a]) = (isBuiltinTypeConversionCall f [a] \<and> isLiteralDefault a)"
| "isLiteralDefault e = False"

fun renderExpr :: "(expr \<Rightarrow> gostr) \<Rightarrow> expr \<Rightarrow> gostr" where
  "renderExpr pr (BasicLit k x) = (if k = StringLit then (case Unquote x of Some s \<Rightarrow> s | None \<Rightarrow> x) else x)"
| "renderExpr pr (Ident n) = n"
| "renderExpr pr (CompositeLit ts es) =
     (if es = [] then lit ''[]'' else lit ''['' @ Join (map (renderExpr pr) es) (lit '', '') @ lit '']'')"
| "renderExpr pr (UnaryExpr op x) = op @ renderExpr pr x"
| "renderExpr pr (CallExpr p f [a]) = (if isBuiltinTypeConversionCall f [a] then renderExpr pr a else pr (CallExpr p f [a]))"
| "renderExpr pr e = pr e"

fun renderStringLit :: "expr \<Rightarrow> gostr" where
  "renderStringLit (BasicLit k x) = (if k = StringLit then (case Unquote x of Some s \<Rightarrow> s | None \<Rightarrow> x) else [])"
| "renderStringLit e = []"

definition durationUnits :: "(gostr \<times> gostr) list" where
  "durationUnits = [(lit ''Nanosecond'', lit ''ns''), (lit ''Microsecond'', [181, 115]), (lit ''Millisecond'', lit ''ms''),
     (lit ''Second'', lit ''s''), (lit ''Minute'', lit ''m''), (lit ''Hour'', lit ''h'')]"

definition unitAbbreviations :: "(gostr \<times> gostr) list" where
  "unitAbbreviations = [(lit ''Nanosecond'', lit ''ns''), (lit ''Microsecond'', [181, 115]), (lit ''Millisecond'', lit ''ms''),
     (lit ''Second'', lit ''sec''), (lit ''Minute'', lit ''min''), (lit ''Hour'', lit ''h''), (lit ''B'', lit ''B''),
     (lit ''KB'', lit ''KB''), (lit ''MB'', lit ''MB''), (lit ''GB'', lit ''GB''), (lit ''TB'', lit ''TB'')]"

definition isNonNegativeInteger :: "gostr \<Rightarrow> bool" where
  "isNonNegativeInteger s \<longleftrightarrow> s \<noteq> [] \<and> list_all (\<lambda>c. 48 \<le> c \<and> c \<le> 57) s"

definition durationUnitAbbrev :: "expr \<Rightarrow> gostr" where
  "durationUnitAbbrev e =
     (case e of SelectorExpr x s \<Rightarrow> (case map_of durationUnits s of Some a \<Rightarrow> a | None \<Rightarrow> []) | _ \<Rightarrow> [])"

definition renderDuration :: "(expr \<Rightarrow> gostr) \<Rightarrow> expr \<Rightarrow> expr \<Rightarrow> gostr" where
  "renderDuration pr quantity unit_e =
     (let qty = renderExpr pr quantity; u = durationUnitAbbrev unit_e in
      if u \<noteq> [] then (if \<not> isNonNegativeInteger qty then qty else if qty = lit ''0'' then lit ''0'' else qty @ u)
      else qty @ [32] @ pr unit_e)"

fun isNumericLiteral :: "expr \<Rightarrow> bool" where
  "isNumericLiteral (BasicLit k x) = (k = IntLit \<or> k = FloatLit)"
| "isNumericLiteral (UnaryExpr op x) = isNumericLiteral x"
| "isNumericLiteral e = False"

definition wrap_expr :: "gostr \<Rightarrow> gostr" where
  "wrap_expr s = lit ''${'' @ s @ lit ''}''"

definition inner_unit :: "expr \<Rightarrow> expr" where
  "inner_unit u = (case u of CallExpr p f [a] \<Rightarrow> if isBuiltinTypeConversionCall f [a] then a else u | _ \<Rightarrow> u)"

definition renderWithUnit :: "(expr \<Rightarrow> gostr) \<Rightarrow> expr \<Rightarrow> expr \<Rightarrow> gostr" where
  "renderWithUnit pr def_e unit_e =
     (let d = renderExpr pr def_e; dw = (if isLiteralDefault def_e then d else wrap_expr d); u = inner_unit unit_e;
          us = renderExpr pr u
      in if u = BasicLit IntLit (lit ''1'') then dw
         else case (case u of SelectorExpr x s \<Rightarrow> map_of unitAbbreviations s | _ \<Rightarrow> None) of
                Some a \<Rightarrow> dw @ a
              | None \<Rightarrow>
                  if isNumericLiteral u \<and> isNumericLiteral def_e then d @ lit '' * '' @ us
                  else dw @ [32] @ (if isLiteralDefault u then us else wrap_expr us))"

subsection \<open>Extraction of an entry\<close>

definition IsEnvVarStyle :: "gostr \<Rightarrow> bool" where
  "IsEnvVarStyle key \<longleftrightarrow> key \<noteq> [] \<and> is_upper (hd key) \<and> list_all (\<lambda>c. is_upper c \<or> is_digit c \<or> c = 95) (tl key)"

definition add_keys :: "gostr list \<Rightarrow> gostr list" where
  "add_keys ks = filter (\<lambda>k. k \<noteq> []) (map TrimSpace ks)"

text \<open>The loop over the key arguments: the keys added, the overrides left, and the warnings. \<open>variadic\<close>: the last argument
  is a slice that is spread, and takes every override that is left.\<close>

fun classify_loop :: "bool \<Rightarrow> gostr \<Rightarrow> int \<Rightarrow> expr list \<Rightarrow> gostr list \<Rightarrow> gostr list \<times> gostr list \<times> Warning list" where
  "classify_loop variadic file line [] vk = ([], vk, [])"
| "classify_loop variadic file line (a # as) vk =
     (let key = renderStringLit a in
      if key = [] then
        (case vk of
           k # vk' \<Rightarrow>
             if variadic \<and> as = [] then (add_keys vk, [], [])
             else (let (ks, r, ws) = classify_loop variadic file line as vk' in (add_keys [k] @ ks, r, ws))
         | [] \<Rightarrow>
             (let (ks, r, ws) = classify_loop variadic file line as vk
              in (ks, r, \<lparr>Code = DynamicKeyMissing, wFile = file, wLine = line,
                          Message = lit ''non-literal config key argument without //cdoc:key directive''\<rparr> # ws)))
      else (let (ks, r, ws) = classify_loop variadic file line as vk in (add_keys [key] @ ks, r, ws)))"

definition classifyKeys :: "Entry \<Rightarrow> expr list \<Rightarrow> gostr list \<Rightarrow> bool \<Rightarrow> gostr \<Rightarrow> int \<Rightarrow> Entry \<times> gostr list \<times> Warning list" where
  "classifyKeys e as vk variadic file line =
     (let (ks, r, ws) = classify_loop variadic file line as vk
      in (e\<lparr>EnvKeys := EnvKeys e @ filter IsEnvVarStyle ks, ConfigKeys := ConfigKeys e @ filter (\<lambda>k. \<not> IsEnvVarStyle k) ks\<rparr>, ks,
          ws @ (if r = [] then [] else
            [\<lparr>Code = UnusedKeyOverride, wFile = file, wLine = line,
              Message = lit ''unused //cdoc:key override(s): '' @ Join r (lit '', '')\<rparr>])))"

definition extractEntry :: "(expr \<Rightarrow> gostr) \<Rightarrow> callInfo \<Rightarrow> gostr \<Rightarrow> int \<Rightarrow> gostr list \<Rightarrow> gostr \<Rightarrow> gostr + Entry \<times> Warning list" where
  "extractEntry pr ci file line vk varDefault =
     (let as = cargs ci; need = (if family ci = Simple then 2 else 3) in
      if length as < need then
        Inl (lit ''expected at least '' @ int_str (int need) @ lit '' args, got '' @ int_str (int (length as)))
      else
        let rendered = (case family ci of
              Simple \<Rightarrow> renderExpr pr (as ! 0)
            | Duration \<Rightarrow> renderDuration pr (as ! 0) (as ! 1)
            | WithMultiplier \<Rightarrow> renderWithUnit pr (as ! 0) (as ! 1));
            d = (if varDefault \<noteq> [] then varDefault
                 else if family ci \<noteq> WithMultiplier \<and> \<not> isLiteralDefault (as ! 0) then wrap_expr rendered
                 else rendered);
            keyArgs = drop (need - 1) as;
            (e, ks, ws) = classifyKeys
              \<lparr>PrimaryKey = [], ConfigKeys = [], EnvKeys = [], Default = d, Description = [], Reloadable = reload ci,
               Group = [], GroupOrder = 0, eFile = file, eLine = line\<rparr>
              keyArgs vk (ellipsis (at ci) \<and> keyArgs \<noteq> []) file line
        in Inr (e\<lparr>PrimaryKey := Join ks [44]\<rparr>, ws))"


subsection \<open>The pass over the events\<close>

type_synonym pendings = "(directive \<times> bool) list"

definition maxLookback :: nat where
  "maxLookback = 10"

definition mark :: "nat \<Rightarrow> pendings \<Rightarrow> pendings" where
  "mark i p = p[i := (fst (p ! i), True)]"

definition live :: "pendings \<Rightarrow> directiveKind \<Rightarrow> int \<Rightarrow> nat \<Rightarrow> bool" where
  "live p k line i \<longleftrightarrow> \<not> snd (p ! i) \<and> dkind (fst (p ! i)) = k \<and> dline (fst (p ! i)) = line"

definition findUnconsumedDirectiveOnLine :: "pendings \<Rightarrow> directiveKind \<Rightarrow> int \<Rightarrow> nat option" where
  "findUnconsumedDirectiveOnLine p k line = find (live p k line) [0..<length p]"

definition consumeIgnoreDirective :: "pendings \<Rightarrow> int \<Rightarrow> bool \<times> pendings" where
  "consumeIgnoreDirective p line =
     (case findUnconsumedDirectiveOnLine p DIgnore line of
        Some i \<Rightarrow> (True, mark i p)
      | None \<Rightarrow>
          (case findUnconsumedDirectiveOnLine p DIgnore (line - 1) of Some i \<Rightarrow> (True, mark i p) | None \<Rightarrow> (False, p)))"

text \<open>The two loops over the lines, going up, and over the directives of a line, the last first.\<close>

fun nearest_loop :: "pendings \<Rightarrow> directiveKind \<Rightarrow> int \<Rightarrow> nat \<Rightarrow> nat option" where
  "nearest_loop p k target 0 = find (live p k target) (rev [0..<length p])"
| "nearest_loop p k target (Suc n) =
     (case find (live p k target) (rev [0..<length p]) of Some i \<Rightarrow> Some i | None \<Rightarrow> nearest_loop p k (target - 1) n)"

definition consumeNearestDirectiveValue :: "pendings \<Rightarrow> directiveKind \<Rightarrow> int \<Rightarrow> nat \<Rightarrow> gostr option \<times> pendings" where
  "consumeNearestDirectiveValue p k line maxDistance =
     (case nearest_loop p k line maxDistance of
        Some i \<Rightarrow> (Some (dvalue (fst (p ! i))), mark i p)
      | None \<Rightarrow> (None, p))"

definition inLineWindow :: "int \<Rightarrow> int \<Rightarrow> int \<Rightarrow> bool" where
  "inLineWindow line start stop \<longleftrightarrow> start \<le> line \<and> line \<le> stop"

definition directiveAppliesToKeyOrDefault :: "int \<Rightarrow> int \<Rightarrow> int \<Rightarrow> nat \<Rightarrow> bool" where
  "directiveAppliesToKeyOrDefault line start stop back \<longleftrightarrow>
     inLineWindow line (start - int back) start \<or> inLineWindow line start stop"

text \<open>Overrides for a call: keys, default (the last one), and the directives with those consumed.\<close>

fun collectKeyAndDefaultOverrides :: "pendings \<Rightarrow> int \<Rightarrow> int \<Rightarrow> gostr list \<times> gostr option \<times> pendings" where
  "collectKeyAndDefaultOverrides [] start stop = ([], None, [])"
| "collectKeyAndDefaultOverrides ((d, c) # p) start stop =
     (let (ks, df, p') = collectKeyAndDefaultOverrides p start stop;
          hit = (\<not> c \<and> directiveAppliesToKeyOrDefault (dline d) start stop maxLookback)
      in if hit \<and> dkind d = DKey then (parseVarKeyDirective (dvalue d) @ ks, df, (d, True) # p')
         else if hit \<and> dkind d = DDefault then (ks, (case df of Some x \<Rightarrow> Some x | None \<Rightarrow> Some (dvalue d)), (d, True) # p')
         else (ks, df, (d, c) # p'))"

record scan_state =
  currentGroup :: gostr
  currentGroupOrder :: int
  pending :: pendings
  entries :: "Entry list"
  warnings :: "Warning list"

fun scan_event :: "(expr \<Rightarrow> gostr) \<Rightarrow> gostr \<Rightarrow> fileEvent \<Rightarrow> scan_state \<Rightarrow> scan_state" where
  "scan_event pr file (EvDirective d) s =
     (if dkind d = DGroup then (let (g, n) = parseGroupDirective (dvalue d) in s\<lparr>currentGroup := g, currentGroupOrder := n\<rparr>)
      else s\<lparr>pending := pending s @ [(d, False)]\<rparr>)"
| "scan_event pr file (EvCall c) s =
     (let start = cstart (at c); (ign, p) = consumeIgnoreDirective (pending s) start in
      if ign then s\<lparr>pending := p\<rparr>
      else let (desc, p1) = consumeNearestDirectiveValue p DDesc start maxLookback;
               (ks, df, p2) = collectKeyAndDefaultOverrides p1 start (cend (at c))
           in case extractEntry pr c file start ks (case df of Some x \<Rightarrow> x | None \<Rightarrow> []) of
                Inl e \<Rightarrow> s\<lparr>pending := p2, warnings := warnings s @ [\<lparr>Code = ArgCount, wFile = file, wLine = start, Message = e\<rparr>]\<rparr>
              | Inr (e, ws) \<Rightarrow>
                  s\<lparr>pending := p2, warnings := warnings s @ ws,
                    entries := entries s @ [(case desc of Some x \<Rightarrow> e\<lparr>Description := x\<rparr> | None \<Rightarrow> e)
                      \<lparr>Group := currentGroup s, GroupOrder := currentGroupOrder s\<rparr>]\<rparr>)"

definition unused_warning :: "gostr \<Rightarrow> directive \<times> bool \<Rightarrow> Warning list" where
  "unused_warning file p =
     (if snd p then []
      else if dkind (fst p) = DDesc
      then [\<lparr>Code = UnusedDescDirective, wFile = file, wLine = dline (fst p), Message = lit ''unused //cdoc:desc directive''\<rparr>]
      else if dkind (fst p) = DDefault
      then [\<lparr>Code = UnusedDefaultDirective, wFile = file, wLine = dline (fst p), Message = lit ''unused //cdoc:default directive''\<rparr>]
      else [])"

definition run_events :: "(expr \<Rightarrow> gostr) \<Rightarrow> gostr \<Rightarrow> fileEvent list \<Rightarrow> scan_state" where
  "run_events pr file evs =
     fold (scan_event pr file) evs \<lparr>currentGroup = [], currentGroupOrder = 0, pending = [], entries = [], warnings = []\<rparr>"

definition extractEntriesWithWarnings ::
  "(expr \<Rightarrow> gostr) \<Rightarrow> expr \<Rightarrow> gostr \<Rightarrow> directive list \<Rightarrow> (expr \<Rightarrow> bool) option \<Rightarrow> Entry list \<times> Warning list" where
  "extractEntriesWithWarnings pr tree file dirs flt =
     (let s = run_events pr file (buildEvents (collectCalls tree flt) dirs)
      in (entries s, warnings s @ concat (map (unused_warning file) (pending s))))"

record FileScanResult =
  Entries :: "Entry list"
  GroupOrderDeclarations :: "GroupOrderDeclaration list"
  Warnings :: "Warning list"

definition ScanFile :: "(expr \<Rightarrow> gostr) \<Rightarrow> (int \<times> gostr) list \<Rightarrow> expr \<Rightarrow> gostr \<Rightarrow> (expr \<Rightarrow> bool) option \<Rightarrow> FileScanResult" where
  "ScanFile pr comments tree file flt =
     (let dirs = flattenDirectives (collectDirectives comments);
          (es, ws) = extractEntriesWithWarnings pr tree file dirs flt
      in \<lparr>Entries = es, GroupOrderDeclarations = extractGroupOrderDeclarations file dirs, Warnings = ws\<rparr>)"


subsection \<open>What becomes of the directives\<close>

lemma length_filter_update:
  "i < length xs \<Longrightarrow> length (filter P (xs[i := y])) + (if P (xs ! i) then 1 else 0) = length (filter P xs) + (if P y then 1 else 0)"
proof -
  assume i: "i < length xs"
  show ?thesis
    using arg_cong[OF id_take_nth_drop[OF i], of "\<lambda>xs. length (filter P xs)"]
    by (simp add: upd_conv_take_nth_drop[OF i])
qed

definition desc_live :: "directive \<times> bool \<Rightarrow> bool" where
  "desc_live p \<longleftrightarrow> dkind (fst p) = DDesc \<and> \<not> snd p"

definition descs :: "pendings \<Rightarrow> directive list" where
  "descs p = filter (\<lambda>d. dkind d = DDesc) (map fst p)"

lemma map_fst_mark [simp]: "map fst (mark i p) = map fst p"
  by (cases "i < length p") (auto simp: mark_def nth_list_update intro!: nth_equalityI)

lemma descs_mark [simp]: "descs (mark i p) = descs p"
  by (simp add: descs_def)

lemma find_live: "find (live p k l) is = Some i \<Longrightarrow> i \<in> set is \<and> live p k l i"
  by (induction "is") (auto split: if_splits)

lemma nearest_live:
  "nearest_loop p k l n = Some i \<Longrightarrow> i < length p \<and> (\<exists>t. l - int n \<le> t \<and> t \<le> l \<and> live p k t i)"
proof (induction p k l n rule: nearest_loop.induct)
  case (1 p k t)
  then show ?case using find_live[of p k t "rev [0..<length p]" i] by auto
next
  case (2 p k t n)
  show ?case
  proof (cases "find (live p k t) (rev [0..<length p])")
    case None
    then obtain u where "i < length p" "t - 1 - int n \<le> u" "u \<le> t - 1" "live p k u i" using 2 by auto
    then show ?thesis by (auto intro!: exI[of _ u])
  next
    case (Some j)
    then show ?thesis using 2 find_live[OF Some] by (auto intro!: exI[of _ t])
  qed
qed

lemma mark_live:
  assumes "i < length p" "live p k t i"
  shows "length (filter desc_live (mark i p)) + (if k = DDesc then 1 else 0) = length (filter desc_live p)"
  using length_filter_update[OF assms(1), of desc_live "(fst (p ! i), True)"] assms(2)
  by (auto simp: mark_def live_def desc_live_def split: if_splits)

lemma consumeIgnore_descs:
  "consumeIgnoreDirective p l = (b, p') \<Longrightarrow> descs p' = descs p \<and> length (filter desc_live p') = length (filter desc_live p)"
  using mark_live[of _ p DIgnore]
  by (auto simp: consumeIgnoreDirective_def findUnconsumedDirectiveOnLine_def dest!: find_live split: option.splits)

lemma collect_descs:
  "collectKeyAndDefaultOverrides p a b = (ks, df, p') \<Longrightarrow>
     map fst p' = map fst p \<and> filter desc_live p' = filter desc_live p"
  by (induction p a b arbitrary: ks df p' rule: collectKeyAndDefaultOverrides.induct)
    (auto simp: desc_live_def Let_def split: prod.splits if_splits)

lemma nearest_descs:
  assumes "consumeNearestDirectiveValue p DDesc l n = (r, p')"
  shows "descs p' = descs p"
    and "length (filter desc_live p') + (if r = None then 0 else 1) = length (filter desc_live p)"
    and "\<And>x. r = Some x \<Longrightarrow> \<exists>d \<in> set (descs p). dvalue d = x \<and> l - int n \<le> dline d \<and> dline d \<le> l"
proof -
  show "descs p' = descs p" using assms by (auto simp: consumeNearestDirectiveValue_def split: option.splits)
  show "length (filter desc_live p') + (if r = None then 0 else 1) = length (filter desc_live p)"
    using assms mark_live[of _ p DDesc] by (auto simp: consumeNearestDirectiveValue_def dest!: nearest_live split: option.splits)
  show "\<exists>d \<in> set (descs p). dvalue d = x \<and> l - int n \<le> dline d \<and> dline d \<le> l" if "r = Some x" for x
  proof -
    have "\<exists>i. nearest_loop p DDesc l n = Some i \<and> x = dvalue (fst (p ! i))"
      using assms that by (auto simp: consumeNearestDirectiveValue_def split: option.splits)
    then obtain i where i: "nearest_loop p DDesc l n = Some i" "x = dvalue (fst (p ! i))" by blast
    obtain t where "i < length p" "l - int n \<le> t" "t \<le> l" "live p DDesc t i" using nearest_live[OF i(1)] by blast
    then show ?thesis using i(2) by (intro bexI[of _ "fst (p ! i)"]) (auto simp: live_def descs_def)
  qed
qed

lemma classify_codes: "classify_loop v file l as vk = (ks, r, ws) \<Longrightarrow> w \<in> set ws \<Longrightarrow> Code w = DynamicKeyMissing"
  by (induction v "file" l "as" vk arbitrary: ks r ws rule: classify_loop.induct)
    (auto simp: Let_def split: if_splits list.splits prod.splits)

lemma extractEntry_new:
  assumes "extractEntry pr c file l ks df = Inr (e, ws)"
  shows "Description e = []" "eLine e = l" "w \<in> set ws \<Longrightarrow> Code w \<in> {DynamicKeyMissing, UnusedKeyOverride}"
  using assms
  by (auto simp: extractEntry_def classifyKeys_def Let_def dest: classify_codes split: if_splits prod.splits)

definition described :: "directive list \<Rightarrow> Entry \<Rightarrow> bool" where
  "described ds e \<longleftrightarrow>
     Description e = [] \<or> list_ex (\<lambda>d. dkind d = DDesc \<and> dvalue d = Description e \<and> eLine e - 10 \<le> dline d \<and> dline d \<le> eLine e) ds"

definition with_code :: "WarningCode \<Rightarrow> Warning list \<Rightarrow> nat" where
  "with_code c ws = length (filter (\<lambda>w. Code w = c) ws)"

definition with_desc :: "Entry list \<Rightarrow> nat" where
  "with_desc es = length (filter (\<lambda>e. Description e \<noteq> []) es)"

definition scan_inv :: "scan_state \<Rightarrow> bool" where
  "scan_inv s \<longleftrightarrow>
     with_desc (entries s) + length (filter desc_live (pending s)) \<le> length (descs (pending s)) \<and>
     length (descs (pending s)) \<le> with_desc (entries s) + length (filter desc_live (pending s)) + with_code ArgCount (warnings s) \<and>
     with_code UnusedDescDirective (warnings s) = 0 \<and>
     list_all (\<lambda>d. dvalue d \<noteq> []) (descs (pending s)) \<and>
     list_all (described (descs (pending s))) (entries s)"

lemma described_mono: "described ds e \<Longrightarrow> described (ds @ ds') e"
  by (auto simp: described_def)


lemma list_all_described_mono: "list_all (described ds) es \<Longrightarrow> list_all (described (ds @ ds')) es"
  by (auto simp: list_all_iff dest: described_mono)

lemma scan_event_inv:
  assumes "scan_inv s" "\<And>d. ev = EvDirective d \<Longrightarrow> dkind d = DDesc \<Longrightarrow> dvalue d \<noteq> []"
  shows "scan_inv (scan_event pr file ev s)"
proof (cases ev)
  case (EvDirective d)
  have "descs (pending s @ [(d, False)]) = descs (pending s) @ (if dkind d = DDesc then [d] else [])"
    by (simp add: descs_def)
  then show ?thesis
    using assms EvDirective list_all_described_mono[of "descs (pending s)" "entries s" "[d]"]
    by (auto simp: scan_inv_def desc_live_def split: prod.splits)
next
  case (EvCall c)
  define start where "start = cstart (at c)"
  obtain b p where ci: "consumeIgnoreDirective (pending s) start = (b, p)" by fastforce
  have p: "descs p = descs (pending s)" "length (filter desc_live p) = length (filter desc_live (pending s))"
    using consumeIgnore_descs[OF ci] by auto
  show ?thesis
  proof (cases b)
    case True
    then show ?thesis using assms(1) EvCall ci p by (simp add: scan_inv_def start_def)
  next
    case False
    obtain desc p1 where cn: "consumeNearestDirectiveValue p DDesc start maxLookback = (desc, p1)" by fastforce
    obtain ks df p2 where ck: "collectKeyAndDefaultOverrides p1 start (cend (at c)) = (ks, df, p2)" by (metis prod_cases3)
    have d2: "descs p2 = descs (pending s)" and l2: "length (filter desc_live p2) = length (filter desc_live p1)"
      using nearest_descs(1)[OF cn] collect_descs[OF ck] p by (simp_all add: descs_def)
    note l1 = nearest_descs(2)[OF cn]
    show ?thesis
    proof (cases "extractEntry pr c file start ks (case df of Some x \<Rightarrow> x | None \<Rightarrow> [])")
      case (Inl e)
      then show ?thesis using assms(1) EvCall ci False cn ck p d2 l2 l1
        by (auto simp: scan_inv_def start_def[symmetric] with_code_def Let_def split: if_splits)
    next
      case (Inr r)
      obtain e ws where r: "r = (e, ws)" by fastforce
      note x = extractEntry_new[OF Inr[unfolded r]]
      have w: "with_code ArgCount ws = 0" "with_code UnusedDescDirective ws = 0"
        using x(3) by (fastforce simp: with_code_def filter_empty_conv)+
      show ?thesis
      proof (cases desc)
        case None
        then show ?thesis using assms(1) EvCall ci False cn ck p d2 l2 l1 Inr r x(1) w
          by (auto simp: scan_inv_def start_def[symmetric] with_code_def with_desc_def described_def Let_def)
      next
        case (Some y)
        obtain d where d: "d \<in> set (descs p)" "dvalue d = y" "start - 10 \<le> dline d" "dline d \<le> start"
          using nearest_descs(3)[OF cn Some] by (auto simp: maxLookback_def)
        then have y: "y \<noteq> []" using assms(1) p by (auto simp: scan_inv_def list_all_iff)
        have "described (descs (pending s)) (e\<lparr>Description := y, Group := g, GroupOrder := n\<rparr>)" for g n
          using d[unfolded p(1)] x(2) by (auto simp: described_def list_ex_iff descs_def)
        then show ?thesis using assms(1) EvCall ci False cn ck p d2 l2 l1 Inr r w y Some
          by (auto simp: scan_inv_def start_def[symmetric] with_code_def with_desc_def Let_def)
      qed
    qed
  qed
qed


fun dir_of :: "fileEvent \<Rightarrow> directive list" where
  "dir_of (EvDirective d) = [d]"
| "dir_of (EvCall c) = []"

lemma scan_event_pending:
  "map fst (pending (scan_event pr file ev s)) = map fst (pending s) @ filter (\<lambda>d. dkind d \<noteq> DGroup) (dir_of ev)"
proof (cases ev)
  case (EvCall c)
  have "map fst p' = map fst p" if "consumeIgnoreDirective p l = (b, p')" for p p' l b
    using that by (auto simp: consumeIgnoreDirective_def split: option.splits)
  moreover have "map fst p' = map fst p" if "consumeNearestDirectiveValue p k l n = (r, p')" for p p' k l n r
    using that by (auto simp: consumeNearestDirectiveValue_def split: option.splits)
  ultimately show ?thesis
    using EvCall by (auto dest!: collect_descs simp: Let_def split: prod.splits sum.splits)
qed (auto split: prod.splits)

lemma run_pending:
  "map fst (pending (fold (scan_event pr file) evs s)) = map fst (pending s) @ filter (\<lambda>d. dkind d \<noteq> DGroup) (concat (map dir_of evs))"
  by (induction evs arbitrary: s) (auto simp: scan_event_pending)

lemma scan_run_inv:
  "scan_inv s \<Longrightarrow> list_all (\<lambda>d. dkind d = DDesc \<longrightarrow> dvalue d \<noteq> []) (concat (map dir_of evs)) \<Longrightarrow>
   scan_inv (fold (scan_event pr file) evs s)"
proof (induction evs arbitrary: s)
  case (Cons ev evs)
  have "scan_inv (scan_event pr file ev s)" using Cons.prems by (intro scan_event_inv) auto
  then show ?case using Cons by auto
qed simp

lemma events_directives: "mset (concat (map dir_of (buildEvents calls dirs))) = mset dirs"
proof -
  have *: "mset (concat (map dir_of evs)) = \<Sum>\<^sub># (image_mset (\<lambda>e. mset (dir_of e)) (mset evs))" for evs
    by (induction evs) auto
  have "concat (map dir_of (map EvCall calls)) = []" by (induction calls) auto
  moreover have "concat (map dir_of (map EvDirective dirs)) = dirs" by (induction dirs) auto
  ultimately have "concat (map dir_of (map EvDirective dirs @ map EvCall calls)) = dirs" by simp
  then show ?thesis
    using *[of "buildEvents calls dirs"] *[of "map EvDirective dirs @ map EvCall calls"]
    by (simp only: buildEvents_def mset_sort)
qed

lemma with_code_append [simp]: "with_code c (ws @ ws') = with_code c ws + with_code c ws'"
  by (simp add: with_code_def)

lemma unused_codes:
  "with_code UnusedDescDirective (concat (map (unused_warning file) p)) = length (filter desc_live p)"
  "with_code ArgCount (concat (map (unused_warning file) p)) = 0"
  by (induction p) (auto simp: unused_warning_def with_code_def desc_live_def)

lemma TrimSpace_last: "TrimSpace s \<noteq> [] \<Longrightarrow> \<not> is_space (last (TrimSpace s))"
  unfolding TrimSpace_def by (metis hd_dropWhile last_rev rev_is_Nil_conv)

lemma parse_comment_value: "parse_comment c = Some (DDesc, x) \<Longrightarrow> x \<noteq> []"
proof
  assume p: "parse_comment c = Some (DDesc, x)" "x = []"
  let ?t = "TrimSpace (TrimPrefix c (lit ''//''))"
  have "CutPrefix ?t (lit ''cdoc:desc '') = Some []"
    using p by (auto simp: parse_comment_def Let_def split: option.splits if_splits)
  then have "?t = lit ''cdoc:desc ''" by (auto simp: CutPrefix_def has_prefix_iff split: if_splits)
  then have "last ?t = 32" "?t \<noteq> []" by (auto simp: lit_def)
  then show False using TrimSpace_last[of "TrimPrefix c (lit ''//'')"] by (simp add: is_space_def)
qed

definition valued :: "directive \<Rightarrow> bool" where
  "valued d \<longleftrightarrow> dkind d \<noteq> DDesc \<or> dvalue d \<noteq> []"

lemma add_line_all:
  "list_all P (concat (map snd (add_line l d m))) = (P d \<and> list_all P (concat (map snd m)))"
  by (induction l d m rule: add_line.induct) auto

lemma collect_valued: "list_all valued (concat (map snd m)) \<Longrightarrow> list_all valued (concat (map snd (collect_loop n cs m)))"
proof (induction n cs m rule: collect_loop.induct)
  case (2 n l c cs m)
  have "valued \<lparr>dkind = k, dvalue = x, dline = l, dorder = n\<rparr>" if "parse_comment c = Some (k, x)" for k x
    using that parse_comment_value[of c x] by (cases k) (auto simp: valued_def)
  then show ?case using 2 by (auto simp: add_line_all split: option.splits)
qed simp

lemma flatten_valued: "list_all valued (flattenDirectives (collectDirectives cs))"
proof -
  have "list_all valued (concat (map snd (collectDirectives cs)))"
    unfolding collectDirectives_def by (rule collect_valued) simp
  then show ?thesis by (auto simp: flattenDirectives_def list_all_iff)
qed



text \<open>The group of an entry is that of the last group directive before its call in the stream of events.\<close>

fun group_of :: "fileEvent list \<Rightarrow> gostr \<times> int \<Rightarrow> gostr \<times> int" where
  "group_of [] g = g"
| "group_of (EvDirective d # evs) g = group_of evs (if dkind d = DGroup then parseGroupDirective (dvalue d) else g)"
| "group_of (EvCall c # evs) g = group_of evs g"

lemma run_group:
  "(currentGroup (fold (scan_event pr file) evs s), currentGroupOrder (fold (scan_event pr file) evs s)) =
   group_of evs (currentGroup s, currentGroupOrder s)"
proof (induction evs arbitrary: s)
  case (Cons ev evs)
  have "(currentGroup (scan_event pr file ev s), currentGroupOrder (scan_event pr file ev s)) =
    group_of [ev] (currentGroup s, currentGroupOrder s)"
    by (cases ev) (auto simp: Let_def split: prod.splits sum.splits)
  moreover have "group_of (ev # evs) g = group_of evs (group_of [ev] g)" for g by (cases ev) auto
  ultimately show ?case using Cons[of "scan_event pr file ev s"] by simp
qed simp

lemma call_group:
  "entries (scan_event pr file (EvCall c) s) = entries s \<or>
   (\<exists>e. entries (scan_event pr file (EvCall c) s) = entries s @ [e] \<and> Group e = currentGroup s \<and> GroupOrder e = currentGroupOrder s)"
  by (auto simp: Let_def split: prod.splits sum.splits)

text \<open>A call that is ignored leaves its description to the next call.\<close>

definition desc_at :: "int \<Rightarrow> directive" where
  "desc_at l = \<lparr>dkind = DDesc, dvalue = lit ''the secret'', dline = l, dorder = 0\<rparr>"

definition ignore_at :: "int \<Rightarrow> directive" where
  "ignore_at l = \<lparr>dkind = DIgnore, dvalue = [], dline = l, dorder = 1\<rparr>"

definition call_at :: "int \<Rightarrow> gostr \<Rightarrow> callInfo" where
  "call_at l key = \<lparr>cargs = [BasicLit IntLit [49], BasicLit StringLit key], at = \<lparr>cpos = nat l, cstart = l, cend = l, ellipsis = False\<rparr>,
     family = Simple, reload = False\<rparr>"

lemma ignored_desc_moves:
  "map Description (entries (run_events pr f [EvDirective (desc_at 1), EvDirective (ignore_at 2), EvCall (call_at 3 [34, 97, 34]),
      EvCall (call_at 5 [34, 98, 34])])) = [lit ''the secret'']"
  by (simp add: run_events_def desc_at_def ignore_at_def call_at_def consumeIgnoreDirective_def findUnconsumedDirectiveOnLine_def
      live_def mark_def consumeNearestDirectiveValue_def maxLookback_def numeral_eq_Suc extractEntry_def classifyKeys_def
      directiveAppliesToKeyOrDefault_def inLineWindow_def Unquote_def lit_def)

text \<open>The overrides: each argument that is no string literal takes the next one, and without one is reported; what is
  left over is reported once.\<close>

definition dynamic :: "expr list \<Rightarrow> nat" where
  "dynamic as = length (filter (\<lambda>a. renderStringLit a = []) as)"

lemma classify_counts:
  "classify_loop False file line as vk = (ks, r, ws) \<Longrightarrow>
   r = drop (dynamic as) vk \<and> length ws = dynamic as - length vk \<and>
   (list_all (\<lambda>a. renderStringLit a = []) as \<longrightarrow> ks = add_keys (take (length as) vk))"
proof (induction "False" "file" line "as" vk arbitrary: ks r ws rule: classify_loop.induct)
  case (2 "file" line a as vk)
  show ?case
  proof (cases "renderStringLit a = []")
    case True
    then show ?thesis using 2
      by (cases vk) (auto simp: dynamic_def add_keys_def Let_def split: prod.splits)
  qed (use 2 in \<open>auto simp: dynamic_def Let_def split: prod.splits\<close>)
qed (simp add: dynamic_def add_keys_def)

text \<open>A key is listed as a variable of the environment or as a key of the configuration, in the order of the arguments.\<close>

lemma extract_partition:
  "extractEntry pr c file l vk df = Inr (e, ws) \<Longrightarrow>
   EnvKeys e = filter IsEnvVarStyle (EnvKeys e) \<and> ConfigKeys e = filter (\<lambda>k. \<not> IsEnvVarStyle k) (ConfigKeys e) \<and>
   (\<exists>ks. PrimaryKey e = Join ks [44] \<and> EnvKeys e = filter IsEnvVarStyle ks \<and> ConfigKeys e = filter (\<lambda>k. \<not> IsEnvVarStyle k) ks)"
  by (auto simp: extractEntry_def classifyKeys_def Let_def split: prod.splits if_splits)

end
