(* ===== verification/Cdoc_Render.thy ===== *)
theory Cdoc_Render
  imports Cdoc_Scan Config_Types Json_Kit "HOL-Library.List_Lexorder"
begin

text \<open>
  What \<open>cmd/cdoc\<close> makes of the scanned entries: warnings and policies, merging of entries with the same keys, orders of
  groups, the markdown document, and the run of the tool over a project. The names of environment variables are those of
  \<open>Config_Types\<close>. Walking the file system gives the files in order; parsing and type checking are arguments.
\<close>

subsection \<open>Warnings\<close>

definition Warning_String :: "Warning \<Rightarrow> gostr" where
  "Warning_String w =
     (if wFile w \<noteq> [] \<and> 0 < wLine w then lit ''warning: '' @ wFile w @ [58] @ int_str (wLine w) @ lit '': '' @ Message w
      else if wFile w \<noteq> [] then lit ''warning: '' @ wFile w @ lit '': '' @ Message w
      else lit ''warning: '' @ Message w)"

datatype WarningSeverity = SeverityIgnore | SeverityWarn | SeverityError

record WarningPolicy =
  DefaultSeverity :: WarningSeverity
  Overrides :: "WarningCode \<rightharpoonup> WarningSeverity"

definition DefaultWarningPolicy :: WarningPolicy where
  "DefaultWarningPolicy = \<lparr>DefaultSeverity = SeverityWarn, Overrides = Map.empty\<rparr>"

definition StrictWarningPolicy :: WarningPolicy where
  "StrictWarningPolicy = \<lparr>DefaultSeverity = SeverityError, Overrides = Map.empty\<rparr>"

definition SeverityFor :: "WarningPolicy \<Rightarrow> WarningCode \<Rightarrow> WarningSeverity" where
  "SeverityFor p c = (case Overrides p c of Some s \<Rightarrow> s | None \<Rightarrow> DefaultSeverity p)"

definition ClassifyWarnings :: "Warning list \<Rightarrow> WarningPolicy \<Rightarrow> (Warning \<times> WarningSeverity) list" where
  "ClassifyWarnings ws p = map (\<lambda>w. (w, SeverityFor p (Code w))) ws"

subsection \<open>Merging entries\<close>

text \<open>\<open>ip\<close> is \<open>strconv.IsPrint\<close>, which \<open>%q\<close> depends on.\<close>

definition entryLocation :: "Entry \<Rightarrow> gostr" where
  "entryLocation e =
     (if eFile e = [] \<and> eLine e \<le> 0 then lit ''unknown''
      else if 0 < eLine e then eFile e @ [58] @ int_str (eLine e)
      else eFile e)"

definition conflict :: "(rune \<Rightarrow> bool) \<Rightarrow> WarningCode \<Rightarrow> string \<Rightarrow> Entry \<Rightarrow> gostr \<Rightarrow> Entry \<Rightarrow> gostr \<Rightarrow> Warning" where
  "conflict ip c what old x e y =
     \<lparr>Code = c, wFile = eFile e, wLine = eLine e,
      Message = lit ''conflicting '' @ lit what @ lit '' for '' @ Quote ip (PrimaryKey e) @ lit '': '' @ Quote ip x @ lit '' ('' @
        entryLocation old @ lit '') vs '' @ Quote ip y @ lit '' ('' @ entryLocation e @ lit '')''\<rparr>"

fun add_new :: "gostr list \<Rightarrow> gostr list \<Rightarrow> gostr list" where
  "add_new ks [] = ks"
| "add_new ks (x # xs) = add_new (if x \<in> set ks then ks else ks @ [x]) xs"

definition skipGroupBackfill :: "Entry \<Rightarrow> Entry \<Rightarrow> bool" where
  "skipGroupBackfill old e \<longleftrightarrow>
     (eFile old \<noteq> [] \<and> eFile e \<noteq> [] \<and> eFile old = eFile e \<and> eLine old < eLine e) \<and> Group old = [] \<and> Group e \<noteq> []"

definition merge_entry :: "(rune \<Rightarrow> bool) \<Rightarrow> Entry \<Rightarrow> Entry \<Rightarrow> Entry \<times> Warning list" where
  "merge_entry ip old e =
     (let skip = skipGroupBackfill old e;
          e1 = (if Description old = [] \<and> Description e \<noteq> [] then old\<lparr>Description := Description e\<rparr> else old);
          fill = (Group e1 = [] \<and> Group e \<noteq> [] \<and> \<not> skip);
          e2 = (if fill then e1\<lparr>Group := Group e\<rparr> else e1);
          w1 = (if \<not> fill \<and> Group e1 \<noteq> [] \<and> Group e \<noteq> [] \<and> Group e1 \<noteq> Group e
                then [conflict ip ConflictingGroup ''groups'' e1 (Group e1) e (Group e)] else []);
          w2 = (if Default e2 \<noteq> Default e then [conflict ip ConflictingDefault ''defaults'' e2 (Default e2) e (Default e)] else []);
          e3 = e2\<lparr>EnvKeys := add_new (EnvKeys e2) (EnvKeys e), ConfigKeys := add_new (ConfigKeys e2) (ConfigKeys e),
                 Reloadable := Reloadable e2 \<or> Reloadable e\<rparr>;
          e4 = (if GroupOrder e3 = 0 \<and> GroupOrder e \<noteq> 0 \<and> \<not> skip then e3\<lparr>GroupOrder := GroupOrder e\<rparr> else e3)
      in (e4, w1 @ w2))"

text \<open>One round of the loop; the index of a key is its place in the result.\<close>

fun dedup_step :: "(rune \<Rightarrow> bool) \<Rightarrow> Entry list \<Rightarrow> Entry \<Rightarrow> Entry list \<times> Warning list" where
  "dedup_step ip [] e = ([e], [])"
| "dedup_step ip (x # xs) e =
     (if PrimaryKey x = PrimaryKey e then (let (x', ws) = merge_entry ip x e in (x' # xs, ws))
      else (let (xs', ws) = dedup_step ip xs e in (x # xs', ws)))"

fun dedup_loop :: "(rune \<Rightarrow> bool) \<Rightarrow> Entry list \<Rightarrow> Entry list \<Rightarrow> Entry list \<times> Warning list" where
  "dedup_loop ip r [] = (r, [])"
| "dedup_loop ip r (e # es) =
     (if PrimaryKey e = [] then dedup_loop ip r es
      else let (r1, ws) = dedup_step ip r e; (r2, ws') = dedup_loop ip r1 es in (r2, ws @ ws'))"

definition DeduplicateEntries :: "(rune \<Rightarrow> bool) \<Rightarrow> Entry list \<Rightarrow> Entry list \<times> Warning list" where
  "DeduplicateEntries ip es = dedup_loop ip [] es"

subsection \<open>Orders of groups\<close>

text \<open>The two maps have the order of the first declaration of a group and where it stands.\<close>

fun declare_loop :: "(rune \<Rightarrow> bool) \<Rightarrow> (gostr \<rightharpoonup> int \<times> gostr) \<Rightarrow> GroupOrderDeclaration list \<Rightarrow> (gostr \<rightharpoonup> int \<times> gostr) \<times> Warning list" where
  "declare_loop ip m [] = (m, [])"
| "declare_loop ip m (d # ds) =
     (case m (gGroup d) of
        Some (n, origin) \<Rightarrow>
          (let (m', ws) = declare_loop ip m ds
           in (m', (if n \<noteq> gOrder d then
                  [\<lparr>Code = ConflictingGroupOrder, wFile = [], wLine = 0,
                    Message = lit ''conflicting group orders for '' @ Quote ip (gGroup d) @ lit '': '' @ int_str n @ lit '' ('' @ origin @
                      lit '') vs '' @ int_str (gOrder d) @ lit '' ('' @ gFile d @ [58] @ int_str (gLine d) @ lit '')''\<rparr>]
                  else []) @ ws))
      | None \<Rightarrow> declare_loop ip (m(gGroup d \<mapsto> (gOrder d, gFile d @ [58] @ int_str (gLine d)))) ds)"

definition ApplyProjectGroupOrders :: "(rune \<Rightarrow> bool) \<Rightarrow> Entry list \<Rightarrow> GroupOrderDeclaration list \<Rightarrow> Entry list \<times> Warning list" where
  "ApplyProjectGroupOrders ip es ds =
     (let (m, ws) = declare_loop ip Map.empty ds
      in (map (\<lambda>e. if Group e = [] then e else case m (Group e) of Some (n, _) \<Rightarrow> e\<lparr>GroupOrder := n\<rparr> | None \<Rightarrow> e) es, ws))"

subsection \<open>Markdown\<close>

fun crlf :: "gostr \<Rightarrow> gostr" where
  "crlf [] = []"
| "crlf (c # s) = (if c = 13 \<and> s \<noteq> [] \<and> hd s = 10 then crlf s else c # crlf s)"

definition normalizeLineEndings :: "gostr \<Rightarrow> gostr" where
  "normalizeLineEndings s = map (\<lambda>c. if c = 13 then 10 else c) (crlf s)"

definition escapeMarkdownTableText :: "gostr \<Rightarrow> gostr" where
  "escapeMarkdownTableText s =
     concat (map (\<lambda>c. if c = 124 then [92, 124] else [c])
       (concat (map (\<lambda>c. if c = 10 then lit ''<br>'' else [c]) (normalizeLineEndings s))))"

fun max_run :: "gostr \<Rightarrow> nat \<Rightarrow> nat \<Rightarrow> nat" where
  "max_run [] cur m = m"
| "max_run (c # s) cur m = (if c = 96 then max_run s (cur + 1) (if m < cur + 1 then cur + 1 else m) else max_run s 0 m)"

definition formatInlineCode :: "gostr \<Rightarrow> gostr" where
  "formatInlineCode s =
     (if s = [] then []
      else let d = replicate (max_run s 0 0 + 1) 96;
               t = (if hd s = 32 \<or> last s = 32 then [32] @ s @ [32] else s)
           in d @ t @ d)"

definition formatCodeCell :: "gostr \<Rightarrow> gostr" where
  "formatCodeCell s = Join (map formatInlineCode (split_on 10 (normalizeLineEndings s))) (lit ''<br>'')"

definition formatDefault :: "gostr \<Rightarrow> gostr" where
  "formatDefault d = formatCodeCell d"

definition formatConfigVarColumn :: "Entry \<Rightarrow> gostr" where
  "formatConfigVarColumn e =
     (if ConfigKeys e = [] then formatCodeCell (PrimaryKey e) else Join (map formatCodeCell (ConfigKeys e)) (lit ''<br>''))"

text \<open>The variables derived from the keys of the configuration, then the explicit ones, each once.\<close>

definition env_variables :: "gostr \<Rightarrow> Entry \<Rightarrow> gostr list" where
  "env_variables pre e = add_new [] (map (ConfigKeyToEnv pre) (ConfigKeys e) @ EnvKeys e)"

definition formatEnvVarColumn :: "Entry \<Rightarrow> gostr \<Rightarrow> gostr" where
  "formatEnvVarColumn e pre = Join (map formatCodeCell (env_variables pre e)) (lit ''<br>'')"

definition group_name :: "Entry \<Rightarrow> gostr" where
  "group_name e = (if Group e = [] then lit ''Ungrouped'' else Group e)"

definition group_order :: "Entry list \<Rightarrow> gostr \<Rightarrow> int" where
  "group_order es g =
     (case filter (\<lambda>e. group_name e = g \<and> GroupOrder e \<noteq> 0) es of [] \<Rightarrow> 0 | e # _ \<Rightarrow> GroupOrder e)"

text \<open>The comparison of groups as a key: ordered groups first, by their order, then the others by their name.\<close>

definition group_key :: "Entry list \<Rightarrow> gostr \<Rightarrow> bool \<times> int \<times> gostr" where
  "group_key es g = (let n = group_order es g in (n = 0, n, if n = 0 then g else []))"

definition sorted_groups :: "Entry list \<Rightarrow> gostr list" where
  "sorted_groups es = sort_key (group_key es) (add_new [] (map group_name es))"

definition group_rows :: "Entry list \<Rightarrow> gostr \<Rightarrow> Entry list" where
  "group_rows es g = sort_key PrimaryKey (filter (\<lambda>e. group_name e = g) es)"

definition row :: "gostr \<Rightarrow> Entry \<Rightarrow> gostr" where
  "row pre e =
     lit ''| '' @ formatConfigVarColumn e @ lit '' | '' @ formatEnvVarColumn e pre @ lit '' | '' @ formatDefault (Default e) @ lit '' | '' @
     escapeMarkdownTableText ((if Reloadable e then [0x1F504, 32] else []) @ Description e) @ lit '' |'' @ [10]"

definition FormatMarkdown :: "Entry list \<Rightarrow> gostr \<Rightarrow> gostr" where
  "FormatMarkdown es pre =
     (let gs = sorted_groups es; single = (gs = [lit ''Ungrouped''])
      in lit ''# Configuration'' @ [10, 10] @
         lit ''All configuration is read via environment variables with the `'' @ pre @
         lit ''_` prefix, or via a configuration file.'' @ [10, 10] @
         lit ''<!-- This file is auto-generated by cdoc. Do not edit manually. -->'' @ [10, 10] @
         concat (map (\<lambda>g.
           (if single then [] else lit ''## '' @ g @ [10, 10]) @
           lit ''| Config variable | Env variable | Default | Description |'' @ [10] @ lit ''|---|---|---|---|'' @ [10] @
           concat (map (row pre) (group_rows es g)) @ [10]) gs))"


subsection \<open>Inline code\<close>

text \<open>How markdown reads inline code: the opening run of backticks is closed by the first run of the same length; one space
  is taken off at both ends, where both have one and there is anything but spaces between.\<close>

fun close_span :: "nat \<Rightarrow> gostr \<Rightarrow> nat \<Rightarrow> gostr \<Rightarrow> gostr option" where
  "close_span k [] n acc = (if n = k then Some (rev acc) else None)"
| "close_span k (c # s) n acc =
     (if c = 96 then close_span k s (n + 1) acc
      else if n = k then Some (rev acc)
      else close_span k s 0 (c # replicate n 96 @ acc))"

definition strip_span :: "gostr \<Rightarrow> gostr" where
  "strip_span c = (if c \<noteq> [] \<and> hd c = 32 \<and> last c = 32 \<and> \<not> list_all (\<lambda>r. r = 32) c then butlast (tl c) else c)"

definition read_span :: "gostr \<Rightarrow> gostr option" where
  "read_span s =
     (let k = length (takeWhile (\<lambda>c. c = 96) s); t = drop k s
      in if k = 0 \<or> t = [] then None else map_option strip_span (close_span k t 0 []))"

lemma max_run_ge: "m \<le> max_run s n m"
  by (induction s n m rule: max_run.induct) auto

lemma close_run: "n + j = k \<Longrightarrow> close_span k (replicate j 96) n acc = Some (rev acc)"
  by (induction j arbitrary: n) auto

lemma close_text:
  "max_run s n m < k \<Longrightarrow> n \<le> m \<Longrightarrow> (if s = [] then n = 0 else last s \<noteq> 96) \<Longrightarrow>
   close_span k (s @ replicate k 96) n acc = Some (rev acc @ replicate n 96 @ s)"
proof (induction s n m arbitrary: acc rule: max_run.induct)
  case (1 n m)
  then show ?case using close_run[of 0 k k acc] by simp
next
  case (2 c s n m)
  show ?case
  proof (cases "c = 96")
    case True
    then have s: "s \<noteq> []" "last s \<noteq> 96" using 2(5) by (auto split: if_splits)
    have "replicate (n + 1) 96 @ s = replicate n 96 @ 96 # s" by (simp add: replicate_app_Cons_same)
    then show ?thesis using 2(1)[of acc] 2(3,4) True s by auto
  next
    case False
    then have "n < k" using 2(3,4) max_run_ge[of m s 0] by simp
    then show ?thesis using 2(2)[of "c # replicate n 96 @ acc"] 2(3,5) False by (auto split: if_splits)
  qed
qed

lemma close_length: "close_span k s n acc = Some c \<Longrightarrow> length c + k \<le> length s + n + length acc"
  by (induction k s n acc rule: close_span.induct) (fastforce split: if_splits)+

lemma close_last: "close_span k s n acc = Some c \<Longrightarrow> acc = [] \<or> hd acc \<noteq> 96 \<Longrightarrow> c = [] \<or> last c \<noteq> 96"
  by (induction k s n acc rule: close_span.induct) (auto simp: last_rev split: if_splits)

lemma close_prefix: "close_span k s n acc = Some c \<Longrightarrow> \<exists>t. rev acc @ replicate n 96 @ s = c @ t"
proof (induction k s n acc rule: close_span.induct)
  case (2 k c' s n acc)
  then show ?case by (auto simp: replicate_app_Cons_same split: if_splits)
qed (auto split: if_splits)

lemma close_hd: "close_span k s 0 [] = Some c \<Longrightarrow> s \<noteq> [] \<Longrightarrow> hd s \<noteq> 96 \<Longrightarrow> c = [] \<or> hd c \<noteq> 96"
  using close_prefix[of k s 0 "[]" c] by (cases c) auto

definition readable :: "gostr \<Rightarrow> bool" where
  "readable s \<longleftrightarrow> s \<noteq> [] \<and>
     (if hd s = 32 \<or> last s = 32 then \<not> list_all (\<lambda>r. r = 32) s else hd s \<noteq> 96 \<and> last s \<noteq> 96)"

lemma takeWhile_ticks: "a \<noteq> 96 \<Longrightarrow> takeWhile (\<lambda>c. c = 96) (replicate k 96 @ a # r) = replicate k (96::nat)"
  by (induction k) auto

lemma read_delimited:
  assumes "t \<noteq> []" "hd t \<noteq> 96" "last t \<noteq> 96" "max_run t 0 0 < k"
  shows "read_span (replicate k 96 @ t @ replicate k 96) = Some (strip_span t)"
proof -
  have "takeWhile (\<lambda>c. c = 96) (replicate k 96 @ t @ replicate k 96) = replicate k (96::nat)"
    using assms(1,2) takeWhile_ticks by (cases t) auto
  then show ?thesis
    using close_text[of t 0 0 k "[]"] assms by (simp add: read_span_def Let_def)
qed

lemma max_run_pad: "max_run ([32] @ s @ [32]) 0 0 = max_run s 0 0"
proof -
  have "max_run (s @ [32]) n m = max_run s n m" for n m
    by (induction s n m rule: max_run.induct) auto
  then show ?thesis by simp
qed


lemma strip_pad: "strip_span ([32] @ s @ [32]) = (if list_all (\<lambda>r. r = 32) s then [32] @ s @ [32] else s)"
  by (simp add: strip_span_def)

text \<open>Text that starts or ends with a backtick and has no space at an end runs into its delimiters.\<close>

lemma unreadable_ticks:
  assumes "s \<noteq> []" "hd s = 96 \<or> last s = 96" "k = max_run s 0 0 + 1"
  shows "read_span (replicate k 96 @ s @ replicate k 96) \<noteq> Some s"
proof
  let ?all = "replicate k 96 @ s @ replicate k 96"
  define j where "j = length (takeWhile (\<lambda>c. c = 96) ?all)"
  assume r: "read_span ?all = Some s"
  then obtain c where c: "close_span j (drop j ?all) 0 [] = Some c" "strip_span c = s" and t: "drop j ?all \<noteq> []"
    by (auto simp: read_span_def j_def Let_def split: if_splits)
  have "takeWhile (\<lambda>c. c = 96) ?all = replicate k 96 @ takeWhile (\<lambda>c. c = 96) (s @ replicate k 96)"
    by (rule takeWhile_append2) auto
  then have kj: "k \<le> j" by (simp add: j_def)
  have len: "length c + 2 * j \<le> length s + 2 * k"
    using close_length[OF c(1)] t by (cases "j \<le> length ?all") auto
  have "drop j ?all = dropWhile (\<lambda>c. c = 96) ?all" by (simp add: j_def dropWhile_eq_drop)
  then have hd: "hd (drop j ?all) \<noteq> 96" using t hd_dropWhile by (metis (full_types))
  have h: "c = [] \<or> hd c \<noteq> 96" by (rule close_hd[OF c(1) t hd])
  have l: "c = [] \<or> last c \<noteq> 96" using close_last[OF c(1)] by simp
  show False
  proof (cases "strip_span c = c")
    case True
    then show False using c(2) h l assms(1,2) by auto
  next
    case False
    then have s: "s = butlast (tl c)" "hd c = 32" "\<not> list_all (\<lambda>r. r = 32) c"
      using c(2) by (simp_all add: strip_span_def split: if_splits)
    then obtain x c' where "c = x # c'" "c' \<noteq> []" by (cases c rule: remdups_adj.cases) auto
    then have "length c = length s + 2" using s(1) by (cases c') auto
    then show False using len kj by linarith
  qed
qed

text \<open>The inline code written for a value that is not empty reads as that value exactly where the value is not all
  spaces and, unless it has a space at one of its ends, has no backtick at them.\<close>

lemma inline_code_exact:
  "s \<noteq> [] \<and> read_span (formatInlineCode s) = Some s \<longleftrightarrow> readable s"
proof (cases "s = []")
  case False
  define k where "k = max_run s 0 0 + 1"
  show ?thesis
  proof (cases "hd s = 32 \<or> last s = 32")
    case True
    have "read_span (replicate k 96 @ ([32] @ s @ [32]) @ replicate k 96) = Some (strip_span ([32] @ s @ [32]))"
      by (rule read_delimited) (simp_all only: max_run_pad k_def, simp_all)
    moreover have "formatInlineCode s = replicate k 96 @ ([32] @ s @ [32]) @ replicate k 96"
      using True False by (simp add: formatInlineCode_def k_def)
    ultimately have "read_span (formatInlineCode s) = Some (if list_all (\<lambda>r. r = 32) s then [32] @ s @ [32] else s)"
      by (simp only: strip_pad)
    then show ?thesis using True False by (auto simp: readable_def)
  next
    case nsp: False
    have f: "formatInlineCode s = replicate k 96 @ s @ replicate k 96"
      using nsp False by (simp add: formatInlineCode_def k_def)
    show ?thesis
    proof (cases "hd s = 96 \<or> last s = 96")
      case True
      then show ?thesis using unreadable_ticks[OF False True k_def] False nsp by (auto simp: f readable_def)
    next
      case no: False
      then show ?thesis
        using read_delimited[of s k] False nsp by (auto simp: f k_def readable_def strip_span_def)
    qed
  qed
qed (simp add: readable_def)

lemma inline_code_backticks: "read_span (formatInlineCode (lit ''`x`'')) = Some (lit ''x'')"
  by (simp add: formatInlineCode_def lit_def read_span_def numeral_eq_Suc strip_span_def)

text \<open>A vertical bar in a value is not escaped, and ends the cell of the table.\<close>

lemma code_cell_bar: "formatCodeCell (lit ''a|b'') = lit ''`a|b`''"
  by (simp add: formatCodeCell_def normalizeLineEndings_def formatInlineCode_def lit_def)

lemma normalize_no_cr: "13 \<notin> set (normalizeLineEndings s)"
  by (auto simp: normalizeLineEndings_def)

text \<open>A description is one line of the table.\<close>

lemma description_in_cell: "10 \<notin> set (escapeMarkdownTableText s) \<and> 13 \<notin> set (escapeMarkdownTableText s)"
proof -
  have "13 \<notin> set (normalizeLineEndings s)" by (rule normalize_no_cr)
  then show ?thesis by (auto simp: escapeMarkdownTableText_def lit_def split: if_splits)
qed


subsection \<open>What merging does\<close>

lemma set_add_new [simp]: "set (add_new ks xs) = set ks \<union> set xs"
  by (induction ks xs rule: add_new.induct) auto

lemma distinct_add_new: "distinct ks \<Longrightarrow> distinct (add_new ks xs)"
  by (induction ks xs rule: add_new.induct) auto

lemma add_new_append: "add_new ks (xs @ ys) = add_new (add_new ks xs) ys"
  by (induction ks xs rule: add_new.induct) auto

definition same :: "gostr \<Rightarrow> Entry list \<Rightarrow> Entry list" where
  "same k es = filter (\<lambda>e. PrimaryKey e = k) es"

definition merged :: "(rune \<Rightarrow> bool) \<Rightarrow> Entry list \<Rightarrow> Entry" where
  "merged ip es = foldl (\<lambda>x e. fst (merge_entry ip x e)) (hd es) (tl es)"

lemma merged_single [simp]: "merged ip [e] = e"
  by (simp add: merged_def)

lemma merged_snoc: "es \<noteq> [] \<Longrightarrow> merged ip (es @ [e]) = fst (merge_entry ip (merged ip es) e)"
  by (cases es) (simp_all add: merged_def)

lemma merge_key [simp]: "PrimaryKey (fst (merge_entry ip x e)) = PrimaryKey x"
  and merge_default [simp]: "Default (fst (merge_entry ip x e)) = Default x"
  and merge_file [simp]: "eFile (fst (merge_entry ip x e)) = eFile x"
  and merge_line [simp]: "eLine (fst (merge_entry ip x e)) = eLine x"
  and merge_desc: "Description (fst (merge_entry ip x e)) = (if Description x = [] then Description e else Description x)"
  and merge_reload: "Reloadable (fst (merge_entry ip x e)) = (Reloadable x \<or> Reloadable e)"
  and merge_envs: "EnvKeys (fst (merge_entry ip x e)) = add_new (EnvKeys x) (EnvKeys e)"
  and merge_configs: "ConfigKeys (fst (merge_entry ip x e)) = add_new (ConfigKeys x) (ConfigKeys e)"
  and merge_group: "Group (fst (merge_entry ip x e)) = (if Group x = [] \<and> \<not> skipGroupBackfill x e then Group e else Group x)"
  by (simp_all add: merge_entry_def Let_def) auto

lemma merge_defaults: "with_code ConflictingDefault (snd (merge_entry ip x e)) = (if Default x \<noteq> Default e then 1 else 0)"
  by (simp add: merge_entry_def Let_def with_code_def conflict_def)

lemma dedup_step_entries:
  "distinct (map PrimaryKey r) \<Longrightarrow>
   fst (dedup_step ip r e) = map (\<lambda>x. if PrimaryKey x = PrimaryKey e then fst (merge_entry ip x e) else x) r @
     (if PrimaryKey e \<in> PrimaryKey ` set r then [] else [e])"
proof (induction ip r e rule: dedup_step.induct)
  case (2 ip x xs e)
  have "map (\<lambda>x. if PrimaryKey x = PrimaryKey e then fst (merge_entry ip x e) else x) xs = xs" if "PrimaryKey x = PrimaryKey e"
    using 2(2) that by (intro map_idI) (auto simp: image_iff)
  then show ?case using 2 by (auto split: prod.splits)
qed simp

lemma dedup_step_warnings:
  "snd (dedup_step ip r e) = (case same (PrimaryKey e) r of [] \<Rightarrow> [] | x # _ \<Rightarrow> snd (merge_entry ip x e))"
  by (induction ip r e rule: dedup_step.induct) (auto simp: same_def split: prod.splits)

lemma dedup_snoc:
  "dedup_loop ip r (es @ [e]) =
     (let (r1, ws) = dedup_loop ip r es in
      if PrimaryKey e = [] then (r1, ws) else let (r2, ws') = dedup_step ip r1 e in (r2, ws @ ws'))"
  by (induction ip r es rule: dedup_loop.induct) (auto split: prod.splits)

definition dedup_inv :: "(rune \<Rightarrow> bool) \<Rightarrow> Entry list \<Rightarrow> Entry list \<times> Warning list \<Rightarrow> bool" where
  "dedup_inv ip es r \<longleftrightarrow>
     map PrimaryKey (fst r) = add_new [] (filter (\<lambda>k. k \<noteq> []) (map PrimaryKey es)) \<and>
     list_all (\<lambda>x. x = merged ip (same (PrimaryKey x) es)) (fst r) \<and>
     with_code ConflictingDefault (snd r) =
       length (filter (\<lambda>e. PrimaryKey e \<noteq> [] \<and> Default e \<noteq> Default (hd (same (PrimaryKey e) es))) es)"

lemma merged_default: "es \<noteq> [] \<Longrightarrow> Default (merged ip es) = Default (hd es)"
proof (induction es rule: rev_induct)
  case (snoc e es)
  then show ?case by (cases "es = []") (auto simp: merged_snoc)
qed simp

lemma merged_key: "es \<noteq> [] \<Longrightarrow> PrimaryKey (merged ip es) = PrimaryKey (hd es)"
proof (induction es rule: rev_induct)
  case (snoc e es)
  then show ?case by (cases "es = []") (auto simp: merged_snoc)
qed simp

lemma same_snoc: "same k (es @ [e]) = same k es @ (if PrimaryKey e = k then [e] else [])"
  by (simp add: same_def)

lemma same_nonempty: "e \<in> set es \<Longrightarrow> same (PrimaryKey e) es \<noteq> []"
  by (auto simp: same_def filter_empty_conv)

lemma dedup_snoc_inv:
  assumes "dedup_inv ip es (dedup_loop ip [] es)"
  shows "dedup_inv ip (es @ [e]) (dedup_loop ip [] (es @ [e]))"
proof -
  obtain r ws where r: "dedup_loop ip [] es = (r, ws)" by fastforce
  have k: "map PrimaryKey r = add_new [] (filter (\<lambda>k. k \<noteq> []) (map PrimaryKey es))"
    and m: "\<And>x. x \<in> set r \<Longrightarrow> x = merged ip (same (PrimaryKey x) es)"
    and c: "with_code ConflictingDefault ws =
      length (filter (\<lambda>e. PrimaryKey e \<noteq> [] \<and> Default e \<noteq> Default (hd (same (PrimaryKey e) es))) es)"
    using assms by (auto simp: dedup_inv_def r list_all_iff)
  have d: "distinct (map PrimaryKey r)" unfolding k by (rule distinct_add_new) simp
  have ks: "PrimaryKey ` set r = {k \<in> PrimaryKey ` set es. k \<noteq> []}"
    using arg_cong[OF k, of set] by auto
  have known: "same (PrimaryKey x) es \<noteq> []" if x: "x \<in> set r" for x
  proof -
    have "PrimaryKey x \<in> PrimaryKey ` set es" using image_eqI[OF refl x, of PrimaryKey] ks by auto
    then show ?thesis by (auto simp: same_def filter_empty_conv)
  qed
  have old: "filter (\<lambda>x. PrimaryKey x \<noteq> [] \<and> Default x \<noteq> Default (hd (same (PrimaryKey x) (es @ [e])))) es =
    filter (\<lambda>x. PrimaryKey x \<noteq> [] \<and> Default x \<noteq> Default (hd (same (PrimaryKey x) es))) es"
    using same_nonempty by (intro filter_cong) (auto simp: same_snoc)
  show ?thesis
  proof (cases "PrimaryKey e = []")
    case True
    have "same (PrimaryKey x) (es @ [e]) = same (PrimaryKey x) es" if "x \<in> set r" for x
      using that ks True by (auto simp: same_snoc)
    then show ?thesis using True k m c old by (auto simp: dedup_inv_def dedup_snoc r list_all_iff)
  next
    case False
    obtain r2 ws2 where s: "dedup_step ip r e = (r2, ws2)" by fastforce
    have r2: "r2 = map (\<lambda>x. if PrimaryKey x = PrimaryKey e then fst (merge_entry ip x e) else x) r @
        (if PrimaryKey e \<in> PrimaryKey ` set r then [] else [e])"
      using dedup_step_entries[OF d, of ip e] s by simp
    have "map PrimaryKey r2 = map PrimaryKey r @ (if PrimaryKey e \<in> PrimaryKey ` set r then [] else [PrimaryKey e])"
      by (auto simp: r2)
    then have k2: "map PrimaryKey r2 = add_new [] (filter (\<lambda>k. k \<noteq> []) (map PrimaryKey (es @ [e])))"
      using k False by (auto simp: add_new_append ks)
    have m2: "y = merged ip (same (PrimaryKey y) (es @ [e]))" if y: "y \<in> set r2" for y
    proof -
      consider x where "x \<in> set r" "PrimaryKey x = PrimaryKey e" "y = fst (merge_entry ip x e)"
        | "y \<in> set r" "PrimaryKey y \<noteq> PrimaryKey e" | "y = e" "PrimaryKey e \<notin> PrimaryKey ` set r"
        using y unfolding r2 by (cases "PrimaryKey e \<in> PrimaryKey ` set r") (fastforce split: if_splits)+
      then show ?thesis
      proof cases
        case 1
        then have "same (PrimaryKey e) es \<noteq> []" using known by metis
        then show ?thesis using 1 m[OF 1(1)] by (simp add: same_snoc merged_snoc)
      next
        case 2
        then show ?thesis using m[of y] by (simp add: same_snoc)
      next
        case 3
        then have "same (PrimaryKey e) es = []" using ks False by (auto simp: same_def filter_empty_conv image_iff)
        then show ?thesis using 3 by (simp add: same_snoc)
      qed
    qed
    have "with_code ConflictingDefault ws2 = (if Default e \<noteq> Default (hd (same (PrimaryKey e) (es @ [e]))) then 1 else 0)"
    proof (cases "same (PrimaryKey e) r")
      case Nil
      then have "PrimaryKey e \<notin> PrimaryKey ` set r" by (auto simp: same_def filter_empty_conv)
      then have "same (PrimaryKey e) es = []" using ks False by (auto simp: same_def filter_empty_conv image_iff)
      then show ?thesis using Nil s dedup_step_warnings[of ip r e] by (simp add: same_snoc with_code_def)
    next
      case (Cons x xs)
      then have x: "x \<in> set r" "PrimaryKey x = PrimaryKey e" by (auto simp: same_def filter_eq_Cons_iff)
      then have n: "same (PrimaryKey e) es \<noteq> []" using known by metis
      have "Default x = Default (hd (same (PrimaryKey e) es))" using m[OF x(1)] merged_default[OF n] x(2) by metis
      then show ?thesis using Cons s dedup_step_warnings[of ip r e] n by (auto simp: same_snoc merge_defaults)
    qed
    then show ?thesis
      using False k2 m2 c old s by (auto simp: dedup_inv_def dedup_snoc r list_all_iff)
  qed
qed

lemma dedup_exact_inv: "dedup_inv ip es (DeduplicateEntries ip es)"
  unfolding DeduplicateEntries_def
proof (induction es rule: rev_induct)
  case Nil
  show ?case by (simp add: dedup_inv_def with_code_def)
next
  case (snoc e es)
  then show ?case by (rule dedup_snoc_inv)
qed


text \<open>The fields of a merged entry, from the entries with its key in their order: the first that is not empty, all keys,
  and the group of the first entry that has one and is not a later one of the same file.\<close>

definition first_nonempty :: "gostr list \<Rightarrow> gostr" where
  "first_nonempty xs = (case filter (\<lambda>x. x \<noteq> []) xs of [] \<Rightarrow> [] | x # _ \<Rightarrow> x)"

definition later_in_file :: "Entry \<Rightarrow> Entry \<Rightarrow> bool" where
  "later_in_file x e \<longleftrightarrow> eFile x \<noteq> [] \<and> eFile e = eFile x \<and> eLine x < eLine e"

definition merge_of :: "Entry list \<Rightarrow> Entry \<Rightarrow> bool" where
  "merge_of g x \<longleftrightarrow>
     Default x = Default (hd g) \<and> eFile x = eFile (hd g) \<and> eLine x = eLine (hd g) \<and>
     Description x = first_nonempty (map Description g) \<and>
     (Reloadable x \<longleftrightarrow> list_ex Reloadable g) \<and>
     set (EnvKeys x) = set (concat (map EnvKeys g)) \<and> set (ConfigKeys x) = set (concat (map ConfigKeys g)) \<and>
     Group x = first_nonempty (map Group (filter (\<lambda>e. \<not> later_in_file (hd g) e) g))"

lemma first_nonempty_simps [simp]:
  "first_nonempty [] = []"
  "first_nonempty (x # xs) = (if x \<noteq> [] then x else first_nonempty xs)"
  by (simp_all add: first_nonempty_def)

lemma first_nonempty_snoc: "first_nonempty (xs @ [x]) = (if first_nonempty xs = [] then x else first_nonempty xs)"
  by (induction xs) auto

lemma skip_later: "skipGroupBackfill x e \<longleftrightarrow> later_in_file x e \<and> Group x = [] \<and> Group e \<noteq> []"
  by (auto simp: skipGroupBackfill_def later_in_file_def)

lemma merge_of_snoc:
  assumes "g \<noteq> []" "merge_of g x"
  shows "merge_of (g @ [e]) (fst (merge_entry ip x e))"
proof -
  have h: "hd (g @ [e]) = hd g" using assms(1) by simp
  have l: "later_in_file x e = later_in_file (hd g) e" using assms(2) by (simp add: later_in_file_def merge_of_def)
  have x: "Default x = Default (hd g)" "eFile x = eFile (hd g)" "eLine x = eLine (hd g)"
    "Description x = first_nonempty (map Description g)" "Reloadable x = list_ex Reloadable g"
    "set (EnvKeys x) = set (concat (map EnvKeys g))" "set (ConfigKeys x) = set (concat (map ConfigKeys g))"
    "Group x = first_nonempty (map Group (filter (\<lambda>e. \<not> later_in_file (hd g) e) g))"
    using assms(2) by (simp_all add: merge_of_def)
  have g: "Group (fst (merge_entry ip x e)) = first_nonempty (map Group (filter (\<lambda>e. \<not> later_in_file (hd g) e) (g @ [e])))"
    unfolding merge_group skip_later l x(8) by (simp add: first_nonempty_snoc)
  have d: "Description (fst (merge_entry ip x e)) = first_nonempty (map Description (g @ [e]))"
    unfolding merge_desc x(4) by (simp add: first_nonempty_snoc)
  have k: "set (EnvKeys (fst (merge_entry ip x e))) = set (concat (map EnvKeys (g @ [e])))"
    "set (ConfigKeys (fst (merge_entry ip x e))) = set (concat (map ConfigKeys (g @ [e])))"
    unfolding merge_envs merge_configs set_add_new x(6,7) by simp_all
  have r: "Reloadable (fst (merge_entry ip x e)) = list_ex Reloadable (g @ [e])"
    unfolding merge_reload x(5) by simp
  show ?thesis unfolding merge_of_def h using g d k r x(1-3) by simp
qed

lemma merged_fields: "g \<noteq> [] \<Longrightarrow> merge_of g (merged ip g)"
proof (induction g rule: rev_induct)
  case (snoc e g)
  show ?case
  proof (cases "g = []")
    case True
    then show ?thesis by (simp add: merge_of_def first_nonempty_def later_in_file_def)
  next
    case False
    then show ?thesis using snoc merge_of_snoc by (simp add: merged_snoc)
  qed
qed simp

text \<open>C33. Merging gives one entry for each key that is not empty, in the order of their first occurrence, whose fields are
  those of \<open>merge_of\<close>, and one warning for each default that differs from the first one of its key.\<close>

theorem DeduplicateEntries_exact:
  "let (r, ws) = DeduplicateEntries ip es
   in distinct (map PrimaryKey r)
      \<and> map PrimaryKey r = add_new [] (filter (\<lambda>k. k \<noteq> []) (map PrimaryKey es))
      \<and> list_all (\<lambda>x. merge_of (same (PrimaryKey x) es) x) r
      \<and> with_code ConflictingDefault ws =
          length (filter (\<lambda>e. PrimaryKey e \<noteq> [] \<and> Default e \<noteq> Default (hd (same (PrimaryKey e) es))) es)"
proof -
  obtain r ws where r: "DeduplicateEntries ip es = (r, ws)" by fastforce
  have i: "dedup_inv ip es (r, ws)" using dedup_exact_inv[of ip es] r by simp
  have k: "map PrimaryKey r = add_new [] (filter (\<lambda>k. k \<noteq> []) (map PrimaryKey es))" using i by (simp add: dedup_inv_def)
  then have "distinct (map PrimaryKey r)" by (simp add: distinct_add_new)
  moreover have "merge_of (same (PrimaryKey x) es) x" if "x \<in> set r" for x
  proof -
    have "PrimaryKey x \<in> PrimaryKey ` set es" using arg_cong[OF k, of set] that by auto
    then have "same (PrimaryKey x) es \<noteq> []" by (auto simp: same_def filter_empty_conv)
    moreover have "x = merged ip (same (PrimaryKey x) es)" using i that by (auto simp: dedup_inv_def list_all_iff)
    ultimately show ?thesis using merged_fields by metis
  qed
  ultimately show ?thesis using i k by (simp add: r dedup_inv_def list_all_iff)
qed

lemma dedup_step_fresh: "PrimaryKey e \<notin> PrimaryKey ` set r \<Longrightarrow> dedup_step ip r e = (r @ [e], [])"
  by (induction r) auto

text \<open>Merging again changes nothing and warns of nothing.\<close>

lemma dedup_idem: "DeduplicateEntries ip (fst (DeduplicateEntries ip es)) = (fst (DeduplicateEntries ip es), [])"
proof -
  have "dedup_loop ip r xs = (r @ xs, [])" if "distinct (map PrimaryKey (r @ xs))" "[] \<notin> PrimaryKey ` set xs" for r xs
    using that by (induction xs arbitrary: r) (auto simp: dedup_step_fresh)
  moreover have k: "map PrimaryKey (fst (DeduplicateEntries ip es)) = add_new [] (filter (\<lambda>k. k \<noteq> []) (map PrimaryKey es))"
    using dedup_exact_inv[of ip es] by (simp add: dedup_inv_def)
  moreover have "[] \<notin> PrimaryKey ` set (fst (DeduplicateEntries ip es))" using arg_cong[OF k, of set] by auto
  ultimately show ?thesis unfolding DeduplicateEntries_def[of ip "fst _"] using distinct_add_new[of "[]"] by simp
qed


subsection \<open>What the document holds\<close>

lemma concat_groups:
  "distinct gs \<Longrightarrow> f ` set es \<subseteq> set gs \<Longrightarrow> mset (concat (map (\<lambda>g. filter (\<lambda>e. f e = g) es) gs)) = mset es"
proof (induction es)
  case Nil
  show ?case by (induction gs) auto
next
  case (Cons e es)
  have "mset (concat (map (\<lambda>g. filter (\<lambda>e. f e = g) (e # es)) gs)) =
    (if f e \<in> set gs then {#e#} else {#}) + mset (concat (map (\<lambda>g. filter (\<lambda>e. f e = g) es) gs))"
    using Cons.prems(1) by (induction gs) auto
  then show ?case using Cons by simp
qed

lemma sorted_groups_set: "set (sorted_groups es) = group_name ` set es" "distinct (sorted_groups es)"
  by (simp_all add: sorted_groups_def distinct_add_new)

text \<open>The tables of the document hold every entry once; the groups are in the order of their numbers, those without a
  number after them by name, and the rows of a group in the order of their keys.\<close>

lemma document_rows:
  "mset (concat (map (group_rows es) (sorted_groups es))) = mset es
   \<and> distinct (sorted_groups es) \<and> sorted (map (group_key es) (sorted_groups es))
   \<and> list_all (\<lambda>g. sorted (map PrimaryKey (group_rows es g)) \<and> group_rows es g \<noteq> []) (sorted_groups es)"
proof -
  have "mset (concat (map (group_rows es) gs)) = mset (concat (map (\<lambda>g. filter (\<lambda>e. group_name e = g) es) gs))" for gs
    by (induction gs) (auto simp: group_rows_def)
  then have "mset (concat (map (group_rows es) (sorted_groups es))) = mset es"
    using concat_groups[of "sorted_groups es" group_name es] sorted_groups_set by simp
  moreover have "group_rows es g \<noteq> []" if "g \<in> set (sorted_groups es)" for g
  proof -
    obtain e where "e \<in> set es" "group_name e = g" using \<open>g \<in> set (sorted_groups es)\<close> sorted_groups_set by auto
    then have "e \<in> set (group_rows es g)" by (simp add: group_rows_def)
    then show ?thesis by auto
  qed
  ultimately show ?thesis
    by (simp add: sorted_groups_set list_all_iff group_rows_def) (simp add: sorted_groups_def)
qed

text \<open>The order of a group is that of its first declaration, and where there is none what the entries say.\<close>

fun declared :: "GroupOrderDeclaration list \<Rightarrow> gostr \<Rightarrow> int option" where
  "declared [] g = None"
| "declared (d # ds) g = (if gGroup d = g then Some (gOrder d) else declared ds g)"

lemma declare_loop_map:
  "declare_loop ip m ds = (m', ws) \<Longrightarrow>
   map_option fst (m' g) = (case m g of Some x \<Rightarrow> Some (fst x) | None \<Rightarrow> declared ds g)"
  by (induction ip m ds arbitrary: m' ws rule: declare_loop.induct) (auto split: option.splits prod.splits if_splits)

lemma ApplyProjectGroupOrders_exact:
  "fst (ApplyProjectGroupOrders ip es ds) =
     map (\<lambda>e. if Group e = [] then e else case declared ds (Group e) of Some n \<Rightarrow> e\<lparr>GroupOrder := n\<rparr> | None \<Rightarrow> e) es"
proof -
  obtain m ws where m: "declare_loop ip Map.empty ds = (m, ws)" by fastforce
  have "declared ds g = map_option fst (m g)" for g using declare_loop_map[OF m, of g] by simp
  then show ?thesis by (auto simp: ApplyProjectGroupOrders_def m split: option.splits)
qed

end
