(* ===== verification/Cdoc_Engine.thy ===== *)
theory Cdoc_Engine
  imports Cdoc_Render
begin

text \<open>
  A run of \<open>cmd/cdoc\<close>: the walk over the project, the choice of the calls by their types, the scan of the files, merging,
  warnings under a policy and the output. The parser (\<open>parse\<close>), the type checker (\<open>check\<close>) and the writing of files
  (\<open>write\<close>) are arguments.
\<close>

subsection \<open>The files of a project\<close>

record parsedFile =
  path :: gostr
  dir :: gostr
  pkgName :: gostr
  tree :: expr
  comments :: "(int \<times> gostr) list"

text \<open>A directory with its children in lexical order, a file with its content, or an entry that cannot be read.\<close>

datatype 'c node = Dir gostr "'c node list" | File gostr 'c | Unreadable gostr gostr

type_synonym 'c parser = "gostr \<Rightarrow> 'c \<Rightarrow> gostr + gostr \<times> expr \<times> (int \<times> gostr) list"

definition go_source :: "gostr \<Rightarrow> bool" where
  "go_source p \<longleftrightarrow> HasSuffix p (lit ''.go'') \<and> \<not> HasSuffix p (lit ''_test.go'')"

text \<open>\<open>rel\<close>: the names from the root to a node. Results: the files, the warnings, and the error that ended the walk.\<close>

fun walk :: "'c parser \<Rightarrow> gostr \<Rightarrow> gostr list \<Rightarrow> 'c node \<Rightarrow> parsedFile list \<times> Warning list \<times> gostr option"
  and walk_list :: "'c parser \<Rightarrow> gostr \<Rightarrow> gostr list \<Rightarrow> 'c node list \<Rightarrow> parsedFile list \<times> Warning list \<times> gostr option"
where
  "walk parse p rel (Dir name ch) =
     (if name = lit ''vendor'' \<or> name = lit ''.git'' \<or> name = lit ''node_modules'' then ([], [], None)
      else if rel = [lit ''cmd'', lit ''cdoc''] then ([], [], None)
      else walk_list parse p rel ch)"
| "walk parse p rel (File name c) =
     (if \<not> go_source p then ([], [], None)
      else case parse p c of
             Inl e \<Rightarrow> ([], [\<lparr>Code = ParseFailed, wFile = [], wLine = 0, Message = lit ''failed to parse '' @ p @ lit '': '' @ e\<rparr>], None)
           | Inr (pkg, t, cs) \<Rightarrow> ([\<lparr>path = p, dir = path_Dir p, pkgName = pkg, tree = t, comments = cs\<rparr>], [], None))"
| "walk parse p rel (Unreadable name e) = ([], [], Some e)"
| "walk_list parse p rel [] = ([], [], None)"
| "walk_list parse p rel (n # ns) =
     (let name = (case n of Dir m _ \<Rightarrow> m | File m _ \<Rightarrow> m | Unreadable m _ \<Rightarrow> m);
          (fs, ws, e) = walk parse (path_Join [p, name]) (rel @ [name]) n
      in case e of
           Some e \<Rightarrow> (fs, ws, Some e)
         | None \<Rightarrow> (let (fs', ws', e') = walk_list parse p rel ns in (fs @ fs', ws @ ws', e')))"

definition parseProjectFiles :: "'c parser \<Rightarrow> gostr \<Rightarrow> 'c node \<Rightarrow> parsedFile list \<times> Warning list \<times> gostr option" where
  "parseProjectFiles parse rootDir root =
     (case walk parse rootDir [] root of
        (fs, ws, None) \<Rightarrow> (fs, ws, None)
      | (fs, ws, Some e) \<Rightarrow> ([], ws, Some (lit ''walking directory: '' @ e)))"

subsection \<open>Calls that resolve to the configuration\<close>

definition configPackagePath :: gostr where
  "configPackagePath = lit ''github.com/rudderlabs/rudder-go-kit/config''"

datatype gotype = Pointer gotype | Alias gotype | Named gostr "gostr option" | OtherType

record object =
  is_func :: bool
  obj_pkg :: "gostr option"
  obj_name :: gostr
  is_method :: bool

text \<open>What the type checker reports of a package, for a call: the type of the receiver, where its selector is a method
  selection, and the object its name refers to.\<close>

record info =
  Selections :: "expr \<Rightarrow> gotype option"
  Uses :: "expr \<Rightarrow> object option"

text \<open>The loop through the pointers, each time without its aliases.\<close>

fun deref :: "gotype \<Rightarrow> gotype" where
  "deref (Pointer t) = deref t"
| "deref (Alias t) = deref t"
| "deref t = t"

definition isConfigMethodSelection :: "info \<Rightarrow> expr \<Rightarrow> bool" where
  "isConfigMethodSelection i call \<longleftrightarrow>
     (case Selections i call of None \<Rightarrow> False
      | Some recv \<Rightarrow> (case deref recv of Named n p \<Rightarrow> n = lit ''Config'' \<and> p = Some configPackagePath | _ \<Rightarrow> False))"

definition isConfigPackageFunction :: "info \<Rightarrow> expr \<Rightarrow> gostr \<Rightarrow> bool" where
  "isConfigPackageFunction i call name \<longleftrightarrow>
     Selections i call = None \<and>
     (case Uses i call of None \<Rightarrow> False
      | Some ob \<Rightarrow> is_func ob \<and> obj_pkg ob = Some configPackagePath \<and> obj_name ob = name \<and> \<not> is_method ob)"

definition looksLikeGetterMethod :: "gostr \<Rightarrow> bool" where
  "looksLikeGetterMethod n \<longleftrightarrow> has_prefix (lit ''Get'') n \<and> HasSuffix n (lit ''Var'')"

definition getter_call :: "expr \<Rightarrow> (callpos \<times> gostr) option" where
  "getter_call e =
     (case e of
        CallExpr p (SelectorExpr x n) as \<Rightarrow> if looksLikeGetterMethod n then Some (p, n) else None
      | _ \<Rightarrow> None)"

definition hasPotentialGetterCalls :: "expr \<Rightarrow> bool" where
  "hasPotentialGetterCalls t \<longleftrightarrow> inspect (\<lambda>e. if getter_call e = None then [] else [()]) t \<noteq> []"

definition allowed_positions :: "info \<Rightarrow> expr \<Rightarrow> nat list" where
  "allowed_positions i t =
     inspect (\<lambda>e. case getter_call e of
                    Some (p, n) \<Rightarrow> if isConfigMethodSelection i e \<or> isConfigPackageFunction i e n then [cpos p] else []
                  | None \<Rightarrow> []) t"

definition package_of :: "parsedFile list \<Rightarrow> parsedFile \<Rightarrow> parsedFile list" where
  "package_of fs f = filter (\<lambda>g. dir g = dir f \<and> pkgName g = pkgName f) fs"

definition buildTypeCheckedAllowlist :: "(parsedFile list \<Rightarrow> info) \<Rightarrow> parsedFile list \<Rightarrow> gostr \<Rightarrow> nat list" where
  "buildTypeCheckedAllowlist check fs p =
     concat (map (\<lambda>f. if path f = p \<and> list_ex (hasPotentialGetterCalls \<circ> tree) (package_of fs f)
                      then allowed_positions (check (package_of fs f)) (tree f) else []) fs)"

text \<open>The methods and functions of the package that stands in for \<open>config\<close>, and their results.\<close>

definition getterNames :: "gostr list" where
  "getterNames = map lit [''GetStringVar'', ''GetBoolVar'', ''GetStringSliceVar'', ''GetFloat64Var'', ''GetDurationVar'', ''GetIntVar'',
     ''GetInt64Var'', ''GetReloadableStringVar'', ''GetReloadableBoolVar'', ''GetReloadableStringSliceVar'',
     ''GetReloadableFloat64Var'', ''GetReloadableDurationVar'', ''GetReloadableIntVar'', ''GetReloadableInt64Var'']"

datatype result_type = RSlice | RString | RBool | RFloat64 | RInt64 | RInt | RAny

definition configMethodResultType :: "gostr \<Rightarrow> result_type" where
  "configMethodResultType n =
     (if Contains n (lit ''StringSlice'') then RSlice
      else if Contains n (lit ''String'') then RString
      else if Contains n (lit ''Bool'') then RBool
      else if Contains n (lit ''Float64'') then RFloat64
      else if Contains n (lit ''Int64'') \<or> Contains n (lit ''Duration'') then RInt64
      else if Contains n (lit ''Int'') then RInt
      else RAny)"

subsection \<open>A run\<close>

datatype ParseMode = ModeAST | ModeTypes | ModeOther gostr

definition scanParsedFileWithMode :: "(expr \<Rightarrow> gostr) \<Rightarrow> ParseMode \<Rightarrow> (gostr \<Rightarrow> nat list) \<Rightarrow> parsedFile \<Rightarrow> FileScanResult" where
  "scanParsedFileWithMode pr mode allow f =
     ScanFile pr (comments f) (tree f) (path f)
       (if mode = ModeTypes
        then Some (\<lambda>e. case e of CallExpr p g as \<Rightarrow> cpos p \<in> set (allow (path f)) | _ \<Rightarrow> False)
        else None)"

definition invalid_mode :: "(rune \<Rightarrow> bool) \<Rightarrow> gostr \<Rightarrow> gostr" where
  "invalid_mode ip m =
     lit ''invalid parse mode '' @ Quote ip m @ lit '' (expected '' @ Quote ip (lit ''ast'') @ lit '' or '' @ Quote ip (lit ''types'') @ [41]"

definition parseProjectWithMode ::
  "(rune \<Rightarrow> bool) \<Rightarrow> (expr \<Rightarrow> gostr) \<Rightarrow> 'c parser \<Rightarrow> (parsedFile list \<Rightarrow> info) \<Rightarrow> gostr \<Rightarrow> 'c node \<Rightarrow> ParseMode \<Rightarrow>
   gostr + Entry list \<times> Warning list" where
  "parseProjectWithMode ip pr parse check rootDir root mode =
     (case mode of
        ModeOther m \<Rightarrow> Inl (invalid_mode ip m)
      | _ \<Rightarrow>
        (case parseProjectFiles parse rootDir root of
           (fs, ws, Some e) \<Rightarrow> Inl e
         | (fs, ws, None) \<Rightarrow>
             (let allow = (if mode = ModeTypes then buildTypeCheckedAllowlist check fs else (\<lambda>_. []));
                  scans = map (scanParsedFileWithMode pr mode allow) fs;
                  (merged, ws1) = DeduplicateEntries ip (concat (map Entries scans));
                  (es, ws2) = ApplyProjectGroupOrders ip merged (concat (map GroupOrderDeclarations scans))
              in Inr (es, ws @ concat (map Warnings scans) @ ws1 @ ws2))))"

definition generateExtraWarnings :: "(rune \<Rightarrow> bool) \<Rightarrow> Entry list \<Rightarrow> Warning list" where
  "generateExtraWarnings ip es =
     concat (map (\<lambda>e.
       (if Description e = [] then
          [\<lparr>Code = MissingDescription, wFile = eFile e, wLine = eLine e,
            Message = lit ''config key '' @ Quote ip (PrimaryKey e) @ lit '' has no //cdoc:desc''\<rparr>] else []) @
       (if Group e = [] then
          [\<lparr>Code = MissingGroup, wFile = eFile e, wLine = eLine e,
            Message = lit ''config key '' @ Quote ip (PrimaryKey e) @ lit '' has no //cdoc:group''\<rparr>] else [])) es)"

text \<open>What a run leaves: the lines on the error stream, the document where it went (standard output, or a file), its error.\<close>

record outcome =
  stderr_lines :: "gostr list"
  stdout_text :: gostr
  file_text :: "gostr option"
  run_err :: "gostr option"

definition print_warnings :: "(Warning \<times> WarningSeverity) list \<Rightarrow> gostr list \<times> nat" where
  "print_warnings cs =
     (map (Warning_String \<circ> fst) (filter (\<lambda>c. snd c \<noteq> SeverityIgnore) cs), length (filter (\<lambda>c. snd c = SeverityError) cs))"

definition Run ::
  "(rune \<Rightarrow> bool) \<Rightarrow> (expr \<Rightarrow> gostr) \<Rightarrow> 'c parser \<Rightarrow> (parsedFile list \<Rightarrow> info) \<Rightarrow> (gostr \<Rightarrow> gostr \<Rightarrow> gostr option) \<Rightarrow>
   gostr \<Rightarrow> 'c node \<Rightarrow> gostr \<Rightarrow> gostr \<Rightarrow> bool \<Rightarrow> ParseMode \<Rightarrow> WarningPolicy option \<Rightarrow> outcome" where
  "Run ip pr parse check write rootDir root output envPrefix extra mode pol =
     (let policy = (case pol of Some p \<Rightarrow> p | None \<Rightarrow> DefaultWarningPolicy) in
      case parseProjectWithMode ip pr parse check rootDir root mode of
        Inl e \<Rightarrow> \<lparr>stderr_lines = [], stdout_text = [], file_text = None, run_err = Some e\<rparr>
      | Inr (es, ws) \<Rightarrow>
          (let (lines, errorCount) = print_warnings (ClassifyWarnings (ws @ (if extra then generateExtraWarnings ip es else [])) policy);
               markdown = FormatMarkdown es envPrefix;
               failed = (if 0 < errorCount then Some (lit ''found '' @ int_str (int errorCount) @ lit '' warning(s)'') else None)
           in if output = [] then \<lparr>stderr_lines = lines, stdout_text = markdown, file_text = None, run_err = failed\<rparr>
              else case write output markdown of
                     Some e \<Rightarrow> \<lparr>stderr_lines = lines, stdout_text = [], file_text = None, run_err = Some e\<rparr>
                   | None \<Rightarrow> \<lparr>stderr_lines = lines, stdout_text = [], file_text = Some markdown, run_err = failed\<rparr>))"

definition run ::
  "(rune \<Rightarrow> bool) \<Rightarrow> (expr \<Rightarrow> gostr) \<Rightarrow> 'c parser \<Rightarrow> (parsedFile list \<Rightarrow> info) \<Rightarrow> (gostr \<Rightarrow> gostr \<Rightarrow> gostr option) \<Rightarrow>
   gostr \<Rightarrow> 'c node \<Rightarrow> gostr \<Rightarrow> gostr \<Rightarrow> bool \<Rightarrow> bool \<Rightarrow> ParseMode \<Rightarrow> outcome" where
  "run ip pr parse check write rootDir root output envPrefix extraWarn failOnWarning mode =
     Run ip pr parse check write rootDir root output envPrefix extraWarn mode
       (Some (if failOnWarning then StrictWarningPolicy else DefaultWarningPolicy))"

subsection \<open>Facts about a run\<close>

text \<open>In the mode of types the getters of string maps are missed: the scanner knows them, but the package that stands in
  for \<open>config\<close> does not declare them.\<close>

lemma string_maps_missed:
  "classifyMethod (lit ''GetStringMapVar'') = Some (Simple, False) \<and> classifyMethod (lit ''GetReloadableStringMapVar'') = Some (Simple, True)
   \<and> lit ''GetStringMapVar'' \<notin> set getterNames \<and> lit ''GetReloadableStringMapVar'' \<notin> set getterNames"
  by (auto simp: classifyMethod_def getterNames_def lit_def TrimPrefix_def HasSuffix_def TrimSuffix_def)

lemma getters_known: "list_all (\<lambda>n. classifyMethod n \<noteq> None \<and> looksLikeGetterMethod n) getterNames"
  by (simp add: classifyMethod_def getterNames_def lit_def TrimPrefix_def HasSuffix_def TrimSuffix_def looksLikeGetterMethod_def) blast

lemma printed: "fst (print_warnings (ClassifyWarnings ws p)) = map Warning_String (filter (\<lambda>w. SeverityFor p (Code w) \<noteq> SeverityIgnore) ws)"
  by (induction ws) (auto simp: print_warnings_def ClassifyWarnings_def)

lemma severities [simp]: "SeverityFor DefaultWarningPolicy c = SeverityWarn" "SeverityFor StrictWarningPolicy c = SeverityError"
  by (simp_all add: SeverityFor_def DefaultWarningPolicy_def StrictWarningPolicy_def)

lemma error_count:
  "snd (print_warnings (ClassifyWarnings ws DefaultWarningPolicy)) = 0"
  "snd (print_warnings (ClassifyWarnings ws StrictWarningPolicy)) = length ws"
  by (induction ws) (auto simp: print_warnings_def ClassifyWarnings_def)


text \<open>C34. A run that is told to fail on warnings returns an error exactly where the project cannot be parsed, there is any
  warning, or the document cannot be written; told otherwise, warnings are no error. Either way the same document goes
  where it is meant to, and every warning is a line of the error stream.\<close>

theorem run_exact:
  "(case parseProjectWithMode ip pr parse check rootDir root mode of
      Inl e \<Rightarrow> run ip pr parse check write rootDir root output pre extra strict mode =
        \<lparr>stderr_lines = [], stdout_text = [], file_text = None, run_err = Some e\<rparr>
    | Inr (es, ws) \<Rightarrow>
        let all = ws @ (if extra then generateExtraWarnings ip es else []); md = FormatMarkdown es pre;
            r = run ip pr parse check write rootDir root output pre extra strict mode
        in stderr_lines r = map Warning_String all
           \<and> stdout_text r = (if output = [] then md else [])
           \<and> file_text r = (if output \<noteq> [] \<and> write output md = None then Some md else None)
           \<and> (run_err r \<noteq> None) = (strict \<and> all \<noteq> [] \<or> output \<noteq> [] \<and> write output md \<noteq> None))"
proof -
  have p: "print_warnings (ClassifyWarnings ws StrictWarningPolicy) = (map Warning_String ws, length ws)"
    "print_warnings (ClassifyWarnings ws DefaultWarningPolicy) = (map Warning_String ws, 0)" for ws
    using printed[of ws] error_count[of ws] by (auto intro: prod_eqI)
  show ?thesis
    unfolding run_def Run_def by (auto simp: p Let_def split: sum.splits option.splits)
qed

text \<open>A walk reads Go files that are no tests, and none below a directory that is left out.\<close>

lemma walk_go_source:
  "walk parse p rel n = (fs, ws, e) \<Longrightarrow> f \<in> set fs \<Longrightarrow> go_source (path f)"
  "walk_list parse p rel ns = (fs, ws, e) \<Longrightarrow> f \<in> set fs \<Longrightarrow> go_source (path f)"
  by (induction parse p rel n and parse p rel ns arbitrary: fs ws e and fs ws e rule: walk_walk_list.induct)
    (auto simp: Let_def split: if_splits sum.splits prod.splits option.splits)

lemma walk_skips: "walk parse p rel (Dir (lit ''vendor'') ch) = ([], [], None)"
  "walk parse p [lit ''cmd'', lit ''cdoc''] (Dir name ch) = ([], [], None)"
  by simp_all

text \<open>The root itself is no exception: a project in a directory of that name has no entries.\<close>

lemma root_skipped: "parseProjectFiles parse r (Dir (lit ''vendor'') ch) = ([], [], None)"
  by (simp add: parseProjectFiles_def)

end
