(* ===== verification/Cdoc_Importer.thy ===== *)
theory Cdoc_Importer
  imports Cdoc_Engine
begin

text \<open>
  The importer of the type checker of \<open>cmd/cdoc\<close> (\<open>types_importer.go\<close>): its cache, the package that stands in for
  \<open>config\<close> with every object it declares, and the command line (\<open>main.go\<close>). The importers of the Go library
  (\<open>Base\<close>, \<open>BaseFrom\<close>) are part of the state, with the packages they deliver opaque.
\<close>

subsection \<open>Packages and their objects\<close>

text \<open>The types that the stand-in mentions; a named type is one of its own package.\<close>

datatype stype = SBasic gostr | SSlice stype | SPointer stype | SEmptyInterface | SNamed gostr

record signature =
  s_recv :: "stype option"
  s_params :: "(gostr \<times> stype) list"
  s_results :: "(gostr \<times> stype) list"
  s_variadic :: bool

datatype sobject = StructName gostr | FuncTypeName gostr signature | FuncObj gostr signature

fun sobj_name :: "sobject \<Rightarrow> gostr" where
  "sobj_name (StructName n) = n"
| "sobj_name (FuncTypeName n s) = n"
| "sobj_name (FuncObj n s) = n"

record spackage =
  sp_path :: gostr
  sp_name :: gostr
  sp_scope :: "sobject list"
  sp_methods :: "(gostr \<times> gostr \<times> signature) list"
  sp_complete :: bool

definition NewPackage :: "gostr \<Rightarrow> gostr \<Rightarrow> spackage" where
  "NewPackage p n = \<lparr>sp_path = p, sp_name = n, sp_scope = [], sp_methods = [], sp_complete = False\<rparr>"

definition MarkComplete :: "spackage \<Rightarrow> spackage" where
  "MarkComplete q = q\<lparr>sp_complete := True\<rparr>"

definition scope_lookup :: "spackage \<Rightarrow> gostr \<Rightarrow> sobject option" where
  "scope_lookup q n = find (\<lambda>ob. sobj_name ob = n) (sp_scope q)"

text \<open>A scope keeps the first object of a name.\<close>

definition scope_insert :: "sobject \<Rightarrow> spackage \<Rightarrow> spackage" where
  "scope_insert ob q = (if scope_lookup q (sobj_name ob) = None then q\<lparr>sp_scope := sp_scope q @ [ob]\<rparr> else q)"

text \<open>A named type keeps the first method of a name.\<close>

definition add_method :: "gostr \<Rightarrow> gostr \<Rightarrow> signature \<Rightarrow> spackage \<Rightarrow> spackage" where
  "add_method t n s q =
     (if list_ex (\<lambda>m. fst m = t \<and> fst (snd m) = n) (sp_methods q) then q
      else q\<lparr>sp_methods := sp_methods q @ [(t, n, s)]\<rparr>)"

subsection \<open>The package that stands in for \<open>config\<close>\<close>

fun result_stype :: "result_type \<Rightarrow> stype" where
  "result_stype RSlice = SSlice (SBasic (lit ''string''))"
| "result_stype RString = SBasic (lit ''string'')"
| "result_stype RBool = SBasic (lit ''bool'')"
| "result_stype RFloat64 = SBasic (lit ''float64'')"
| "result_stype RInt64 = SBasic (lit ''int64'')"
| "result_stype RInt = SBasic (lit ''int'')"
| "result_stype RAny = SEmptyInterface"

definition newStubConfigOptType :: "spackage \<Rightarrow> spackage" where
  "newStubConfigOptType q =
     scope_insert (FuncTypeName (lit ''Opt'')
       \<lparr>s_recv = None, s_params = [(lit ''cfg'', SPointer (SNamed (lit ''Config'')))], s_results = [], s_variadic = False\<rparr>) q"

definition newStubConfigMethod :: "gostr \<Rightarrow> signature" where
  "newStubConfigMethod n =
     \<lparr>s_recv = Some (SPointer (SNamed (lit ''Config''))), s_params = [(lit ''args'', SSlice SEmptyInterface)],
      s_results = [(lit ''value'', result_stype (configMethodResultType n))], s_variadic = True\<rparr>"

definition newStubConfigFunction :: "gostr \<Rightarrow> sobject" where
  "newStubConfigFunction n =
     FuncObj n \<lparr>s_recv = None, s_params = [(lit ''args'', SSlice SEmptyInterface)],
       s_results = [(lit ''value'', result_stype (configMethodResultType n))], s_variadic = True\<rparr>"

definition newStubConfigNewFunction :: sobject where
  "newStubConfigNewFunction =
     FuncObj (lit ''New'') \<lparr>s_recv = None, s_params = [(lit ''opts'', SSlice (SNamed (lit ''Opt'')))],
       s_results = [(lit ''cfg'', SPointer (SNamed (lit ''Config'')))], s_variadic = True\<rparr>"

definition newStubWithEnvPrefixFunction :: sobject where
  "newStubWithEnvPrefixFunction =
     FuncObj (lit ''WithEnvPrefix'') \<lparr>s_recv = None, s_params = [(lit ''prefix'', SBasic (lit ''string''))],
       s_results = [(lit ''opt'', SNamed (lit ''Opt''))], s_variadic = False\<rparr>"

definition newStubConfigPackage :: "gostr \<Rightarrow> spackage" where
  "newStubConfigPackage p =
     (let q0 = NewPackage p (lit ''config'');
          q1 = newStubConfigOptType (scope_insert (StructName (lit ''Config'')) q0);
          q2 = fold (\<lambda>n. add_method (lit ''Config'') n (newStubConfigMethod n)) getterNames q1;
          q3 = fold (\<lambda>n. scope_insert (newStubConfigFunction n)) getterNames q2
      in MarkComplete (scope_insert newStubWithEnvPrefixFunction (scope_insert newStubConfigNewFunction q3)))"

subsection \<open>Importing\<close>

text \<open>A package of the library's importers, or one made here.\<close>

datatype 'p tpackage = Loaded 'p | Made spackage

record ('p, 'e) fastTypesImporter =
  Base :: "(gostr \<Rightarrow> 'e + 'p) option"
  BaseFrom :: "(gostr \<Rightarrow> gostr \<Rightarrow> nat \<Rightarrow> 'e + 'p) option"
  Icache :: "gostr \<Rightarrow> 'p tpackage option"

definition newFastTypesImporter ::
  "(gostr \<Rightarrow> 'e + 'p) \<Rightarrow> (gostr \<Rightarrow> gostr \<Rightarrow> nat \<Rightarrow> 'e + 'p) option \<Rightarrow> ('p, 'e) fastTypesImporter" where
  "newFastTypesImporter base from = \<lparr>Base = Some base, BaseFrom = from, Icache = Map.empty\<rparr>"

definition try_import :: "('e + 'p) option \<Rightarrow> 'p option" where
  "try_import r = (case r of Some (Inr p) \<Rightarrow> Some p | _ \<Rightarrow> None)"

text \<open>The package that is found or made for a path that is not in the cache.\<close>

definition fresh_package :: "('p, 'e) fastTypesImporter \<Rightarrow> gostr \<Rightarrow> gostr \<Rightarrow> nat \<Rightarrow> 'p tpackage" where
  "fresh_package i p d mode =
     (if p = configPackagePath then Made (newStubConfigPackage p)
      else case try_import (map_option (\<lambda>f. f p d mode) (BaseFrom i)) of
             Some q \<Rightarrow> Loaded q
           | None \<Rightarrow> (case try_import (map_option (\<lambda>f. f p) (Base i)) of
                         Some q \<Rightarrow> Loaded q
                       | None \<Rightarrow> Made (MarkComplete (NewPackage p (path_Base p)))))"

definition ImportFrom ::
  "gostr \<Rightarrow> gostr \<Rightarrow> nat \<Rightarrow> ('p, 'e) fastTypesImporter \<Rightarrow> ('e + 'p tpackage) \<times> ('p, 'e) fastTypesImporter" where
  "ImportFrom p d mode i =
     (case Icache i p of
        Some q \<Rightarrow> (Inr q, i)
      | None \<Rightarrow> (let q = fresh_package i p d mode in (Inr q, i\<lparr>Icache := (Icache i)(p \<mapsto> q)\<rparr>)))"

definition Import :: "gostr \<Rightarrow> ('p, 'e) fastTypesImporter \<Rightarrow> ('e + 'p tpackage) \<times> ('p, 'e) fastTypesImporter" where
  "Import p i = ImportFrom p [] 0 i"


subsection \<open>What the stand-in declares\<close>

lemma lit_inject [simp]: "lit a = lit b \<longleftrightarrow> a = b"
  unfolding lit_def by (rule inj_map_eq_map) (simp add: inj_def)

lemma add_methods:
  "distinct ns \<Longrightarrow> list_all (\<lambda>n. \<not> list_ex (\<lambda>m. fst m = t \<and> fst (snd m) = n) (sp_methods q)) ns \<Longrightarrow>
   fold (\<lambda>n. add_method t n (f n)) ns q = q\<lparr>sp_methods := sp_methods q @ map (\<lambda>n. (t, n, f n)) ns\<rparr>"
proof (induction ns arbitrary: q)
  case (Cons n ns)
  have a: "add_method t n (f n) q = q\<lparr>sp_methods := sp_methods q @ [(t, n, f n)]\<rparr>"
    using Cons.prems by (simp add: add_method_def)
  have "list_all (\<lambda>k. \<not> list_ex (\<lambda>m. fst m = t \<and> fst (snd m) = k) (sp_methods (q\<lparr>sp_methods := sp_methods q @ [(t, n, f n)]\<rparr>))) ns"
    using Cons.prems by (auto simp: list_all_iff)
  then show ?case using Cons.IH[of "q\<lparr>sp_methods := sp_methods q @ [(t, n, f n)]\<rparr>"] Cons.prems by (simp add: a)
qed simp

lemma insert_objects:
  "distinct (map sobj_name obs) \<Longrightarrow> list_all (\<lambda>ob. scope_lookup q (sobj_name ob) = None) obs \<Longrightarrow>
   fold scope_insert obs q = q\<lparr>sp_scope := sp_scope q @ obs\<rparr>"
proof (induction obs arbitrary: q)
  case (Cons ob obs)
  let ?q = "q\<lparr>sp_scope := sp_scope q @ [ob]\<rparr>"
  have a: "scope_insert ob q = ?q" using Cons.prems by (simp add: scope_insert_def)
  have "list_all (\<lambda>ob'. scope_lookup ?q (sobj_name ob') = None) obs"
    using Cons.prems by (auto simp: list_all_iff scope_lookup_def find_None_iff)
  then show ?case using Cons.IH[of ?q] Cons.prems by (simp add: a)
qed simp

lemma getterNames_distinct: "distinct getterNames"
  by (simp add: getterNames_def)

lemma fold_map': "fold (\<lambda>n. g (h n)) ns = fold g (map h ns)"
  by (simp add: fold_map comp_def)

lemma function_names [simp]: "sobj_name (newStubConfigFunction n) = n"
  by (simp add: newStubConfigFunction_def)

lemma stub_package_exact:
  "newStubConfigPackage p =
     \<lparr>sp_path = p, sp_name = lit ''config'',
      sp_scope = [StructName (lit ''Config''),
        FuncTypeName (lit ''Opt'') \<lparr>s_recv = None, s_params = [(lit ''cfg'', SPointer (SNamed (lit ''Config'')))], s_results = [], s_variadic = False\<rparr>]
        @ map newStubConfigFunction getterNames @ [newStubConfigNewFunction, newStubWithEnvPrefixFunction],
      sp_methods = map (\<lambda>n. (lit ''Config'', n, newStubConfigMethod n)) getterNames, sp_complete = True\<rparr>"
proof -
  define opt where "opt = FuncTypeName (lit ''Opt'') \<lparr>s_recv = None, s_params = [(lit ''cfg'', SPointer (SNamed (lit ''Config'')))],
    s_results = [], s_variadic = False\<rparr>"
  define q1 where "q1 = newStubConfigOptType (scope_insert (StructName (lit ''Config'')) (NewPackage p (lit ''config'')))"
  have q1: "q1 = \<lparr>sp_path = p, sp_name = lit ''config'', sp_scope = [StructName (lit ''Config''), opt], sp_methods = [], sp_complete = False\<rparr>"
    by (simp add: q1_def newStubConfigOptType_def scope_insert_def scope_lookup_def NewPackage_def opt_def)
  have m: "fold (\<lambda>n. add_method (lit ''Config'') n (newStubConfigMethod n)) getterNames q1 =
      q1\<lparr>sp_methods := map (\<lambda>n. (lit ''Config'', n, newStubConfigMethod n)) getterNames\<rparr>"
    by (subst add_methods) (simp_all add: getterNames_distinct q1 list_all_iff)
  have w: "fold (\<lambda>n. scope_insert (newStubConfigFunction n)) getterNames q = q\<lparr>sp_scope := sp_scope q @ map newStubConfigFunction getterNames\<rparr>"
    if "sp_scope q = [StructName (lit ''Config''), opt]" for q
    unfolding fold_map'[of scope_insert newStubConfigFunction]
    by (rule insert_objects) (simp_all add: comp_def getterNames_distinct that scope_lookup_def list_all_iff opt_def getterNames_def)
  have n: "scope_insert newStubWithEnvPrefixFunction (scope_insert newStubConfigNewFunction q) =
      q\<lparr>sp_scope := sp_scope q @ [newStubConfigNewFunction, newStubWithEnvPrefixFunction]\<rparr>"
    if "sp_scope q = [StructName (lit ''Config''), opt] @ map newStubConfigFunction getterNames" for q
    by (simp add: scope_insert_def scope_lookup_def that newStubConfigNewFunction_def newStubWithEnvPrefixFunction_def opt_def getterNames_def)
  show ?thesis unfolding newStubConfigPackage_def Let_def q1_def[symmetric] m
    by (subst w, simp add: q1, subst n) (simp_all add: q1 MarkComplete_def opt_def)
qed

text \<open>Every getter that is declared has the type of its value as the type of its result.\<close>

lemma stub_results:
  "map (\<lambda>n. result_stype (configMethodResultType n)) getterNames =
     (let ts = [SBasic (lit ''string''), SBasic (lit ''bool''), SSlice (SBasic (lit ''string'')), SBasic (lit ''float64''), SBasic (lit ''int64''),
                SBasic (lit ''int''), SBasic (lit ''int64'')]
      in ts @ [SBasic (lit ''string''), SBasic (lit ''bool''), SSlice (SBasic (lit ''string'')), SBasic (lit ''float64''), SBasic (lit ''int64''),
                SBasic (lit ''int''), SBasic (lit ''int64'')])"
  by (simp add: getterNames_def configMethodResultType_def lit_def)

text \<open>The singleton \<open>config.Default\<close> is not declared, so that its getters are not found by their types.\<close>

lemma stub_without_default:
  "scope_lookup (newStubConfigPackage p) (lit ''Default'') = None"
  by (simp add: stub_package_exact scope_lookup_def newStubConfigNewFunction_def newStubWithEnvPrefixFunction_def getterNames_def)

subsection \<open>A sequence of imports\<close>

fun imports_seq ::
  "(gostr \<times> gostr \<times> nat) list \<Rightarrow> ('p, 'e) fastTypesImporter \<Rightarrow> ('e + 'p tpackage) list \<times> ('p, 'e) fastTypesImporter" where
  "imports_seq [] i = ([], i)"
| "imports_seq ((p, d, mode) # rs) i =
     (let (a, i1) = ImportFrom p d mode i; (as, i2) = imports_seq rs i1 in (a # as, i2))"

text \<open>The answer for a path: what the cache holds, or what the first request for the path finds or makes.\<close>

definition answer_for :: "(gostr \<times> gostr \<times> nat) list \<Rightarrow> ('p, 'e) fastTypesImporter \<Rightarrow> gostr \<Rightarrow> 'p tpackage option" where
  "answer_for rs i p =
     (case Icache i p of
        Some q \<Rightarrow> Some q
      | None \<Rightarrow> map_option (\<lambda>(p, d, mode). fresh_package i p d mode) (find (\<lambda>r. fst r = p) rs))"

lemma fresh_package_cache [simp]: "fresh_package (i\<lparr>Icache := c\<rparr>) p d mode = fresh_package i p d mode"
  by (simp add: fresh_package_def split: option.split)

lemma answer_step:
  "answer_for rs (snd (ImportFrom p d mode i)) k = answer_for ((p, d, mode) # rs) i k"
  by (auto simp: ImportFrom_def answer_for_def Let_def split_def split: option.splits)

lemma imports_cached:
  "map (map_option (\<lambda>q. Inr q)) (map (\<lambda>r. answer_for rs i (fst r)) rs) = map Some (fst (imports_seq rs i))
   \<and> Icache (snd (imports_seq rs i)) = answer_for rs i"
proof (induction rs i rule: imports_seq.induct)
  case (1 i)
  show ?case by (auto simp: answer_for_def fun_eq_iff split: option.splits)
next
  case (2 p d mode rs i)
  obtain a i1 where s: "ImportFrom p d mode i = (a, i1)" by fastforce
  obtain as i2 where t: "imports_seq rs i1 = (as, i2)" by fastforce
  have ih: "map (map_option (\<lambda>q. Inr q)) (map (\<lambda>r. answer_for rs i1 (fst r)) rs) = map Some as" "Icache i2 = answer_for rs i1"
    using 2[OF s[symmetric] refl] t by simp_all
  have st: "answer_for rs i1 = answer_for ((p, d, mode) # rs) i"
    using answer_step[of rs p d mode i] s by (auto simp: fun_eq_iff)
  have "map_option (\<lambda>q. Inr q) (answer_for ((p, d, mode) # rs) i p) = Some a"
    using s by (auto simp: ImportFrom_def answer_for_def Let_def split: option.splits)
  then show ?case using ih by (simp add: s t st)
qed


text \<open>Nothing that is imported fails, and \<open>config\<close> is the stand-in whatever the importers of the library hold.\<close>

lemma imports_never_fail: "list_all (\<lambda>r. case r of Inr q \<Rightarrow> True | Inl e \<Rightarrow> False) (fst (imports_seq rs i))"
proof (induction rs i rule: imports_seq.induct)
  case (2 p d mode rs i)
  then show ?case by (auto simp: ImportFrom_def Let_def split: prod.splits option.splits)
qed simp

lemma config_is_stub:
  "fst (ImportFrom configPackagePath d mode (snd (imports_seq rs (newFastTypesImporter base from)))) =
     Inr (Made (newStubConfigPackage configPackagePath))"
proof -
  have "find (\<lambda>r. fst r = configPackagePath) rs = Some (p, d, m) \<Longrightarrow> p = configPackagePath" for p d m
    by (metis (mono_tags, lifting) find_Some_iff fst_conv)
  then have "answer_for rs (newFastTypesImporter base from) configPackagePath \<in> {None, Some (Made (newStubConfigPackage configPackagePath))}"
    by (cases "find (\<lambda>r. fst r = configPackagePath) rs")
      (auto simp: answer_for_def newFastTypesImporter_def fresh_package_def)
  then show ?thesis using imports_cached[of rs "newFastTypesImporter base from"]
    by (auto simp: ImportFrom_def fresh_package_def Let_def)
qed

subsection \<open>The command line\<close>

definition parse_mode :: "gostr \<Rightarrow> ParseMode" where
  "parse_mode s = (if s = lit ''ast'' then ModeAST else if s = lit ''types'' then ModeTypes else ModeOther s)"

text \<open>The values of the flags: \<open>None\<close> where a flag is not given.\<close>

record flags =
  f_root :: "gostr option"
  f_output :: "gostr option"
  f_prefix :: "gostr option"
  f_extrawarn :: "bool option"
  f_fail :: "bool option"
  f_mode :: "gostr option"

definition flag_value :: "'a \<Rightarrow> 'a option \<Rightarrow> 'a" where
  "flag_value d x = (case x of None \<Rightarrow> d | Some y \<Rightarrow> y)"

text \<open>\<open>root\<close>: the directory that a path names. Results: what the run leaves, the lines of the error stream, the exit code.\<close>

definition main ::
  "(rune \<Rightarrow> bool) \<Rightarrow> (expr \<Rightarrow> gostr) \<Rightarrow> 'c parser \<Rightarrow> (parsedFile list \<Rightarrow> info) \<Rightarrow> (gostr \<Rightarrow> gostr \<Rightarrow> gostr option) \<Rightarrow>
   (gostr \<Rightarrow> 'c node) \<Rightarrow> flags \<Rightarrow> outcome \<times> gostr list \<times> nat" where
  "main ip pr parse check write root f =
     (let dirname = flag_value (lit ''.'') (f_root f);
          r = run ip pr parse check write dirname (root dirname) (flag_value [] (f_output f)) (flag_value (lit ''RSERVER'') (f_prefix f))
                (flag_value False (f_extrawarn f)) (flag_value False (f_fail f)) (parse_mode (flag_value (lit ''types'') (f_mode f)))
      in case run_err r of
           Some e \<Rightarrow> (r, stderr_lines r @ [lit ''error: '' @ e], 1)
         | None \<Rightarrow> (r, stderr_lines r, 0))"

lemma main_mode_checked_first:
  "f_mode f = Some m \<Longrightarrow> m \<noteq> lit ''ast'' \<Longrightarrow> m \<noteq> lit ''types'' \<Longrightarrow>
   snd (main ip pr parse check write root f) = ([lit ''error: '' @ invalid_mode ip m], 1)"
  by (simp add: main_def flag_value_def parse_mode_def run_def Run_def parseProjectWithMode_def Let_def)

lemma main_exit_code:
  "snd (snd (main ip pr parse check write root f)) = (if run_err (fst (main ip pr parse check write root f)) = None then 0 else 1)"
  by (simp add: main_def Let_def split: option.splits)

end
