(* ===== verification/Http_Kit.thy ===== *)
theory Http_Kit
  imports Config
begin

text \<open>
  The packages \<open>retryablehttp\<close>, \<open>httputil\<close>, \<open>chiware\<close>, \<open>requesttojson\<close> and \<open>googleutil\<close>. The server is a function from
  the number of a request and its body to the response or error; what the package \<open>backoff\<close> decides after a failed
  attempt is an argument.
\<close>

subsection \<open>Retries\<close>

record response =
  StatusCode :: int
  Status :: gostr

type_synonym attempt = "response option \<times> gostr option"

text \<open>Whether to retry, and the reason.\<close>

type_synonym retryStrategy = "nat \<Rightarrow> attempt \<Rightarrow> bool \<times> gostr option"

definition BaseRetryStrategy :: retryStrategy where
  "BaseRetryStrategy n a =
     (case a of
        (r, Some e) \<Rightarrow> (True, Some e)
      | (Some r, None) \<Rightarrow>
          if StatusCode r = 429 then (True, Some (lit ''too many requests''))
          else if StatusCode r = 0 \<or> (500 \<le> StatusCode r \<and> StatusCode r \<noteq> 501)
          then (True, Some (lit ''unexpected HTTP status '' @ Status r))
          else (False, None)
      | (None, None) \<Rightarrow> (False, None))"

record retryConfig =
  MaxRetry :: int
  InitialInterval :: "64 word"
  MaxInterval :: "64 word"
  MaxElapsedTime :: "64 word"
  Multiplier :: u64

definition retry_key :: "string \<Rightarrow> gostr list" where
  "retry_key k = [lit ''retryablehttp.'' @ lit k]"

definition NewDefaultConfig :: "golib \<Rightarrow> config \<Rightarrow> retryConfig \<times> config" where
  "NewDefaultConfig L c =
     (let ms = 1000000; s = 1000000000;
          (n, c1) = GetIntVar L 5 1 (retry_key ''maxRetry'') c;
          (i, c2) = GetDurationVar L 100 ms (retry_key ''initialInterval'') c1;
          (m, c3) = GetDurationVar L 1000 ms (retry_key ''maxInterval'') c2;
          (e, c4) = GetDurationVar L 10 s (retry_key ''maxElapsedTime'') c3;
          (x, c5) = GetFloat64Var L 0x3FF8000000000000 (retry_key ''multiplier'') c4
      in (\<lparr>MaxRetry = sint n, InitialInterval = i, MaxInterval = m, MaxElapsedTime = e, Multiplier = x\<rparr>, c5))"

text \<open>\<open>maxTries\<close> as it is given to \<open>backoff\<close>; 0 is no limit.\<close>

definition max_tries :: "int \<Rightarrow> nat" where
  "max_tries n = (if 0 \<le> n then nat n + 1 else 0)"

text \<open>What \<open>backoff\<close> does after attempt \<open>n\<close> failed: it gives up, waits (after the notification), or is notified and then
  gives up while it waits because the context is done.\<close>

datatype decision = GiveUp | Wait duration | WaitCancelled duration

text \<open>What a call leaves: the bodies sent, the responses closed (by the number of their attempt), the failures reported.\<close>

record retry_log =
  sent :: "byte list option list"
  closed :: "nat list"
  failures :: "(gostr \<times> duration) list"

definition notify_failure :: "nat \<Rightarrow> attempt \<Rightarrow> gostr \<Rightarrow> duration \<Rightarrow> retry_log \<Rightarrow> retry_log" where
  "notify_failure n a e d l =
     l\<lparr>closed := closed l @ (if fst a = None then [] else [n]), failures := failures l @ [(e, d)]\<rparr>"

definition retryable_error :: "gostr option \<Rightarrow> gostr" where
  "retryable_error e = lit ''retryable error: '' @ (case e of Some m \<Rightarrow> m | None \<Rightarrow> lit ''%!w(<nil>)'')"

text \<open>The loop of attempts; it may not end where nothing limits it.\<close>

partial_function (option) retry_loop ::
  "(nat \<Rightarrow> byte list option \<Rightarrow> attempt) \<Rightarrow> retryStrategy \<Rightarrow> (nat \<Rightarrow> gostr \<Rightarrow> decision) \<Rightarrow> byte list option \<Rightarrow> nat \<Rightarrow> retry_log \<Rightarrow>
   (attempt \<times> retry_log) option" where
  "retry_loop srv strategy decide body n l =
     (let a = srv n body; l1 = l\<lparr>sent := sent l @ [body]\<rparr>; (again, e) = strategy n a
      in if \<not> again then Some (a, l1)
         else case decide n (retryable_error e) of
                GiveUp \<Rightarrow> Some (a, l1)
              | WaitCancelled d \<Rightarrow> Some (a, notify_failure n a (retryable_error e) d l1)
              | Wait d \<Rightarrow> retry_loop srv strategy decide body (n + 1) (notify_failure n a (retryable_error e) d l1))"

text \<open>\<open>Do\<close>: the body is \<open>None\<close> where the request has none, and an error where it cannot be read. \<open>decide\<close> gets the limit.\<close>

definition retry_Do ::
  "(nat \<Rightarrow> byte list option \<Rightarrow> attempt) \<Rightarrow> retryStrategy \<Rightarrow> (nat \<Rightarrow> nat \<Rightarrow> gostr \<Rightarrow> decision) \<Rightarrow> int \<Rightarrow> (gostr + byte list) option \<Rightarrow>
   (attempt \<times> retry_log) option" where
  "retry_Do srv strategy decide maxRetry body =
     (let l = \<lparr>sent = [], closed = [], failures = []\<rparr> in
      case body of
        Some (Inl e) \<Rightarrow> Some ((None, Some e), l)
      | Some (Inr b) \<Rightarrow> retry_loop srv strategy (decide (max_tries maxRetry)) (Some b) 1 l
      | None \<Rightarrow> retry_loop srv strategy (decide (max_tries maxRetry)) None 1 l)"

text \<open>Every status and error that is retried.\<close>

lemma BaseRetryStrategy_exact:
  "fst (BaseRetryStrategy n (r, e)) \<longleftrightarrow>
     e \<noteq> None \<or> (case r of Some x \<Rightarrow> StatusCode x \<in> {0, 429} \<or> 500 \<le> StatusCode x \<and> StatusCode x \<noteq> 501 | None \<Rightarrow> False)"
  by (auto simp: BaseRetryStrategy_def split: option.splits)

text \<open>501 is a server error that is not retried.\<close>

lemma not_implemented: "\<not> fst (BaseRetryStrategy n (Some \<lparr>StatusCode = 501, Status = s\<rparr>, None))"
  by (simp add: BaseRetryStrategy_def)

definition answered :: "(nat \<Rightarrow> byte list option \<Rightarrow> attempt) \<Rightarrow> byte list option \<Rightarrow> nat list \<Rightarrow> nat list" where
  "answered srv body is = filter (\<lambda>i. fst (srv i body) \<noteq> None) is"

lemma retry_loop_bounded:
  assumes "\<And>k e. limit \<le> k \<Longrightarrow> decide k e = GiveUp" "n \<le> limit"
  shows "\<exists>l' k. retry_loop srv strategy decide body n l = Some (srv (n + k) body, l') \<and> n + k \<le> limit \<and>
     sent l' = sent l @ replicate (k + 1) body \<and>
     (closed l' = closed l @ answered srv body [n..<n + k] \<or>
      closed l' = closed l @ answered srv body [n..<n + k + 1] \<and> (\<exists>e d. decide (n + k) e = WaitCancelled d))"
  using assms(2)
proof (induction "limit - n" arbitrary: n l)
  case 0
  then have n: "limit \<le> n" by simp
  define l1 where "l1 = l\<lparr>sent := sent l @ [body]\<rparr>"
  have "retry_loop srv strategy decide body n l = Some (srv (n + 0) body, l1)"
    using assms(1)[OF n] by (simp add: retry_loop.simps[of _ _ _ _ n] Let_def l1_def split: prod.splits)
  moreover have "sent l1 = sent l @ replicate (0 + 1) body" "closed l1 = closed l @ answered srv body [n..<n + 0]"
    by (simp_all add: l1_def answered_def)
  ultimately show ?case using 0(2) by (intro exI[of _ l1] exI[of _ "0::nat"]) simp
next
  case (Suc m)
  define a where "a = srv n body"
  define l1 where "l1 = l\<lparr>sent := sent l @ [body]\<rparr>"
  obtain again e where st: "strategy n a = (again, e)" by fastforce
  have up: "[n..<n + k + 1] = n # [n + 1..<n + k + 1]" for k by (simp add: upt_conv_Cons)
  show ?case
  proof (cases "again")
    case False
    then have "retry_loop srv strategy decide body n l = Some (srv (n + 0) body, l1)"
      using st by (simp add: retry_loop.simps[of _ _ _ _ n] Let_def l1_def a_def)
    then show ?thesis using Suc.prems by (intro exI[of _ l1] exI[of _ "0::nat"]) (simp add: l1_def answered_def)
  next
    case True
    show ?thesis
    proof (cases "decide n (retryable_error e)")
      case GiveUp
      then have "retry_loop srv strategy decide body n l = Some (srv (n + 0) body, l1)"
        using True st by (simp add: retry_loop.simps[of _ _ _ _ n] Let_def l1_def a_def)
      then show ?thesis using Suc.prems by (intro exI[of _ l1] exI[of _ "0::nat"]) (simp add: l1_def answered_def)
    next
      case (WaitCancelled d)
      define l2 where "l2 = notify_failure n a (retryable_error e) d l1"
      have "retry_loop srv strategy decide body n l = Some (srv (n + 0) body, l2)"
        using WaitCancelled True st by (simp add: retry_loop.simps[of _ _ _ _ n] Let_def l1_def l2_def a_def)
      then show ?thesis using Suc.prems WaitCancelled
        by (intro exI[of _ l2] exI[of _ "0::nat"]) (auto simp: l2_def l1_def notify_failure_def answered_def a_def)
    next
      case (Wait d)
      define l2 where "l2 = notify_failure n a (retryable_error e) d l1"
      have eq: "retry_loop srv strategy decide body n l = retry_loop srv strategy decide body (n + 1) l2"
        using Wait True st by (simp add: retry_loop.simps[of _ _ _ _ n] Let_def l1_def l2_def a_def)
      have m: "m = limit - (n + 1)" "n + 1 \<le> limit" using Suc(2,3) by auto
      obtain l' k where k: "retry_loop srv strategy decide body (n + 1) l2 = Some (srv (n + 1 + k) body, l')" "n + 1 + k \<le> limit"
        "sent l' = sent l2 @ replicate (k + 1) body"
        "closed l' = closed l2 @ answered srv body [n + 1..<n + 1 + k] \<or>
         closed l' = closed l2 @ answered srv body [n + 1..<n + 1 + k + 1] \<and> (\<exists>e d. decide (n + 1 + k) e = WaitCancelled d)"
        using Suc(1)[OF m(1) m(2), of l2] by blast
      have c: "closed l2 @ answered srv body [n + 1..<j] = closed l @ answered srv body [n..<j]" if "n < j" for j
        using that by (auto simp: l2_def l1_def notify_failure_def answered_def a_def upt_conv_Cons)
      have "closed l' = closed l @ answered srv body [n..<n + (k + 1)] \<or>
        closed l' = closed l @ answered srv body [n..<n + (k + 1) + 1] \<and> (\<exists>e d. decide (n + (k + 1)) e = WaitCancelled d)"
        using k(4) c[of "n + 1 + k"] c[of "n + 1 + k + 1"] by (auto simp: add.commute add.left_commute)
      moreover have "sent l' = sent l @ replicate (k + 1 + 1) body"
        using k(3) by (simp add: l2_def l1_def notify_failure_def)
      ultimately show ?thesis using k(1,2) eq by (intro exI[of _ l'] exI[of _ "k + 1"]) (simp add: add.commute add.left_commute)
    qed
  qed
qed

text \<open>C35. With a limit that is not negative a call returns, where \<open>backoff\<close> gives up at the limit it is told (\<open>WithMaxTries\<close>):
  at most \<open>maxRetry + 1\<close> requests are sent, all with the same body; the result is that of the last one; every response
  before it was closed, and the last one only where the context was done during the wait after it.\<close>

theorem retry_Do_returns:
  assumes "0 \<le> maxRetry" "\<And>t k e. 0 < t \<Longrightarrow> t \<le> k \<Longrightarrow> decide t k e = GiveUp"
  shows "\<exists>l n. retry_Do srv strategy decide maxRetry (map_option Inr body) = Some (srv n body, l)
    \<and> 1 \<le> n \<and> int n \<le> maxRetry + 1 \<and> sent l = replicate n body
    \<and> (closed l = answered srv body [1..<n] \<or>
       closed l = answered srv body [1..<n + 1] \<and> (\<exists>e d. decide (max_tries maxRetry) n e = WaitCancelled d))"
proof -
  let ?l = "\<lparr>sent = [], closed = [], failures = []\<rparr>"
  have t: "0 < max_tries maxRetry" "int (max_tries maxRetry) = maxRetry + 1" using assms(1) by (simp_all add: max_tries_def)
  obtain l k where l: "retry_loop srv strategy (decide (max_tries maxRetry)) body 1 ?l = Some (srv (1 + k) body, l)"
    "1 + k \<le> max_tries maxRetry" "sent l = sent ?l @ replicate (k + 1) body"
    "closed l = closed ?l @ answered srv body [1..<1 + k] \<or>
     closed l = closed ?l @ answered srv body [1..<1 + k + 1] \<and> (\<exists>e d. decide (max_tries maxRetry) (1 + k) e = WaitCancelled d)"
    using retry_loop_bounded[of "max_tries maxRetry" "decide (max_tries maxRetry)" 1 srv strategy body ?l] assms(2) t by auto
  have "retry_Do srv strategy decide maxRetry (map_option Inr body) = Some (srv (1 + k) body, l)"
    using l(1) by (cases body) (simp_all add: retry_Do_def Let_def)
  then show ?thesis using l(2-4) t by (intro exI[of _ l] exI[of _ "1 + k"]) auto
qed

definition flaky :: "nat \<Rightarrow> byte list option \<Rightarrow> attempt" where
  "flaky n b = (if n < 3 then (Some \<lparr>StatusCode = 503, Status = []\<rparr>, None) else (Some \<lparr>StatusCode = 200, Status = []\<rparr>, None))"

definition limited :: "nat \<Rightarrow> nat \<Rightarrow> gostr \<Rightarrow> decision" where
  "limited t n e = (if 0 < t \<and> t \<le> n then GiveUp else Wait 100)"

theorem retry_Do_returns_witness:
  "\<exists>l n. retry_Do flaky BaseRetryStrategy limited 5 (Some (Inr [1, 2])) = Some (flaky n (Some [1, 2]), l) \<and> n \<le> 6"
  using retry_Do_returns[of 5 limited flaky BaseRetryStrategy "Some [1, 2]"] by (fastforce simp: limited_def)

lemma flaky_run:
  "retry_Do flaky BaseRetryStrategy limited 5 None =
     Some ((Some \<lparr>StatusCode = 200, Status = []\<rparr>, None),
       \<lparr>sent = [None, None, None], closed = [1, 2],
        failures = replicate 2 (retryable_error (Some (lit ''unexpected HTTP status '')), 100)\<rparr>)"
  by (simp add: retry_Do_def retry_loop.simps flaky_def limited_def BaseRetryStrategy_def notify_failure_def max_tries_def numeral_eq_Suc)

text \<open>Where the context ends during a wait, the caller gets a response whose body is closed, and no error.\<close>

lemma closed_response:
  "retry_Do flaky BaseRetryStrategy (\<lambda>t n e. WaitCancelled 100) 5 None =
     Some ((Some \<lparr>StatusCode = 503, Status = []\<rparr>, None),
       \<lparr>sent = [None], closed = [1], failures = [(retryable_error (Some (lit ''unexpected HTTP status '')), 100)]\<rparr>)"
  by (simp add: retry_Do_def retry_loop.simps flaky_def BaseRetryStrategy_def notify_failure_def)


subsection \<open>Requests, clients and servers\<close>

text \<open>Up to 2048 bytes of the body are read before it is closed: what is read, and what is left.\<close>

definition CloseResponse :: "byte list option \<Rightarrow> (byte list \<times> byte list) option" where
  "CloseResponse body = map_option (\<lambda>b. (take 2048 b, drop 2048 b)) body"

definition GetRequestIP :: "gostr \<Rightarrow> gostr \<Rightarrow> gostr" where
  "GetRequestIP forwardedFor remoteAddr =
     (let a = hd (split_on 44 forwardedFor) in
      if a = [] then Join (butlast (split_on 58 remoteAddr)) [58] else filter (\<lambda>c. c \<noteq> 32) a)"

text \<open>Without a proxy it is the address before the port; behind one, the first address of the header.\<close>

lemma split_on_snoc: "c \<notin> set p \<Longrightarrow> split_on c (s @ c # p) = split_on c s @ [p]"
  by (induction s) (auto simp: split_on_none)

lemma Join_split_on: "Join (split_on c s) [c] = s"
proof (induction s)
  case (Cons r s)
  obtain w ws where "split_on c s = w # ws" by (cases "split_on c s") auto
  then show ?case using Cons by (cases ws) auto
qed simp

lemma GetRequestIP_direct: "58 \<notin> set port \<Longrightarrow> GetRequestIP [] (host @ 58 # port) = host"
  by (simp add: GetRequestIP_def split_on_snoc Join_split_on)

lemma GetRequestIP_proxy: "44 \<notin> set a \<Longrightarrow> 32 \<notin> set a \<Longrightarrow> a \<noteq> [] \<Longrightarrow> GetRequestIP (a @ 44 # later) remote = a \<and> GetRequestIP a remote = a"
  by (auto simp: GetRequestIP_def split_on_append split_on_none filter_id_conv)

lemma GetRequestIP_leading_space: "GetRequestIP (lit '' ,9.9.9.9'') remote = []"
  by (simp add: GetRequestIP_def lit_def)

definition getConfigKeys :: "gostr \<Rightarrow> gostr list \<Rightarrow> gostr list" where
  "getConfigKeys key prefix = map (\<lambda>p. p @ [46] @ key) prefix @ [lit ''DefaultHttpClient.'' @ key]"

record transport =
  ForceAttemptHTTP2 :: bool
  MaxIdleConns :: "64 word"
  IdleConnTimeout :: "64 word"
  TLSHandshakeTimeout :: "64 word"
  ExpectContinueTimeout :: "64 word"
  DisableKeepAlives :: bool
  MaxConnsPerHost :: "64 word"
  MaxIdleConnsPerHost :: "64 word"

definition go_second :: "64 word" where
  "go_second = 1000000000"

definition DefaultTransport :: transport where
  "DefaultTransport =
     \<lparr>ForceAttemptHTTP2 = True, MaxIdleConns = 100, IdleConnTimeout = 90 * go_second, TLSHandshakeTimeout = 10 * go_second,
      ExpectContinueTimeout = 1 * go_second, DisableKeepAlives = False, MaxConnsPerHost = 100, MaxIdleConnsPerHost = 10\<rparr>"

record http_client =
  Transport :: transport
  Timeout :: "64 word"

definition DefaultHttpClient :: http_client where
  "DefaultHttpClient = \<lparr>Transport = DefaultTransport, Timeout = 30 * go_second\<rparr>"

text \<open>Options change a client; an option on \<open>nil\<close> changes a client that nobody sees.\<close>

definition WithTimeout :: "64 word \<Rightarrow> http_client option \<Rightarrow> http_client option" where
  "WithTimeout t = map_option (\<lambda>c. c\<lparr>Timeout := t\<rparr>)"

definition WithTransport :: "transport \<Rightarrow> http_client option \<Rightarrow> http_client option" where
  "WithTransport tr = map_option (\<lambda>c. c\<lparr>Transport := tr\<rparr>)"

definition transport_of :: "golib \<Rightarrow> gostr list \<Rightarrow> config \<Rightarrow> transport \<times> config" where
  "transport_of L prefix c =
     (let k = (\<lambda>s. getConfigKeys (lit s) prefix);
          (h2, c1) = GetBoolVar L True (k ''ForceHTTP2'') c;
          (mi, c2) = GetIntVar L 100 1 (k ''MaxIdleConns'') c1;
          (it, c3) = GetDurationVar L 90 go_second (k ''IdleConnTimeout'') c2;
          (th, c4) = GetDurationVar L 10 go_second (k ''TLSHandshakeTimeout'') c3;
          (ec, c5) = GetDurationVar L 1 go_second (k ''ExpectContinueTimeout'') c4;
          (dk, c6) = GetBoolVar L False (k ''DisableKeepAlives'') c5;
          (mc, c7) = GetIntVar L 100 1 (k ''MaxConnsPerHost'') c6;
          (mh, c8) = GetIntVar L 10 1 (k ''MaxIdleConnsPerHost'') c7
      in (\<lparr>ForceAttemptHTTP2 = h2, MaxIdleConns = mi, IdleConnTimeout = it, TLSHandshakeTimeout = th, ExpectContinueTimeout = ec,
           DisableKeepAlives = dk, MaxConnsPerHost = mc, MaxIdleConnsPerHost = mh\<rparr>, c8))"

definition WithConfig :: "golib \<Rightarrow> gostr list \<Rightarrow> http_client option \<times> config \<Rightarrow> http_client option \<times> config" where
  "WithConfig L prefix s =
     (case transport_of L prefix (snd s) of (tr, c) \<Rightarrow> (map_option (\<lambda>cl. cl\<lparr>Transport := tr\<rparr>) (fst s), c))"

definition NewHttpClient :: "(http_client option \<Rightarrow> http_client option) list \<Rightarrow> http_client option" where
  "NewHttpClient opts = fold (\<lambda>opt cl. opt cl) opts (Some DefaultHttpClient)"

lemma NewHttpClient_last: "NewHttpClient (opts @ [WithTimeout t]) = map_option (\<lambda>c. c\<lparr>Timeout := t\<rparr>) (NewHttpClient opts)"
  by (simp add: NewHttpClient_def WithTimeout_def)

text \<open>A server under a context: the first of its own end and the end of the context. \<open>served\<close> is the result of serving,
  \<open>ctx_first\<close> which came first; the calls made to the server.\<close>

datatype server_call = Shutdown "duration option" | CloseServer

definition gracefulFunc :: "bool \<Rightarrow> gostr option \<Rightarrow> (server_call \<Rightarrow> gostr option) \<Rightarrow> duration list \<Rightarrow> server_call list \<times> gostr option" where
  "gracefulFunc ctx_first served call timeouts =
     (if \<not> ctx_first then ([], served)
      else let c = (case timeouts of [] \<Rightarrow> Shutdown None | t # _ \<Rightarrow> if t = 0 then CloseServer else Shutdown (Some t))
           in ([c], call c))"

definition profiler_error :: "gostr option \<Rightarrow> bool \<Rightarrow> gostr option" where
  "profiler_error err ctx_done =
     (case err of Some e \<Rightarrow> if ctx_done then Some (lit ''profiler server: '' @ e) else None | None \<Rightarrow> None)"

text \<open>The profiler reports an error only where its context is done: that its port is taken is not reported.\<close>

lemma profiler_hides: "profiler_error (snd (gracefulFunc False (Some e) call [3])) False = None"
  by (simp add: profiler_error_def gracefulFunc_def)

subsection \<open>The middleware of statistics\<close>

text \<open>The status a handler sets: the calls of \<open>WriteHeader\<close>, of which \<open>net/http\<close> takes the first to the client.\<close>

definition captured_status :: "int list \<Rightarrow> int" where
  "captured_status ss = fold (\<lambda>s _. s) ss 200"

definition sent_status :: "int list \<Rightarrow> int" where
  "sent_status ss = (case ss of [] \<Rightarrow> 200 | s # _ \<Rightarrow> s)"

lemma captured_last: "captured_status ss = (if ss = [] then 200 else last ss)"
  by (induction ss rule: rev_induct) (auto simp: captured_status_def)

definition statPath :: "bool \<Rightarrow> gostr \<Rightarrow> gostr \<Rightarrow> gostr" where
  "statPath redactUnknownPaths pattern url = (if pattern \<noteq> [] then pattern else if redactUnknownPaths then lit ''/redacted'' else url)"

record stat_req =
  pattern :: gostr
  url_path :: gostr
  meth :: gostr

text \<open>A request that is served: the number of concurrent requests before, during and after it, and the tags of its
  timer; a handler that panics (\<open>None\<close>) has none.\<close>

definition StatMiddleware :: "bool \<Rightarrow> stat_req \<Rightarrow> int list option \<Rightarrow> int \<Rightarrow> (int \<times> int) \<times> (gostr \<times> gostr) list option" where
  "StatMiddleware redact r handler n =
     ((n + 1, n),
      map_option (\<lambda>ss. [(lit ''reqType'', statPath redact (pattern r) (url_path r)), (lit ''method'', meth r),
        (lit ''code'', int_str (captured_status ss))]) handler)"

text \<open>The recorded code is that of the last call, not the one sent.\<close>

lemma second_status_recorded: "captured_status [200, 500] = 500 \<and> sent_status [200, 500] = 200"
  by (simp add: captured_status_def sent_status_def)

subsection \<open>A request as JSON\<close>

record request =
  Method :: gostr
  RequestURI :: gostr
  Proto :: gostr
  Header :: "(gostr \<times> gostr list) list"
  Query :: "(gostr \<times> gostr list) list"
  Body :: "(gostr + byte list) option"

record RequestJSON =
  jMethod :: gostr
  jURL :: gostr
  jProto :: gostr
  jHeaders :: "(gostr \<times> gostr list) list"
  jBody :: "byte list"
  jQuery :: "(gostr \<times> gostr list) list"

definition RequestToJSON :: "request \<Rightarrow> byte list \<Rightarrow> gostr + RequestJSON \<times> request" where
  "RequestToJSON r dflt =
     (case (case Body r of None \<Rightarrow> Inr [] | Some b \<Rightarrow> b) of
        Inl e \<Rightarrow> Inl (lit ''reading request body: '' @ e)
      | Inr b0 \<Rightarrow>
          (let b = (if b0 = [] then dflt else b0)
           in Inr (\<lparr>jMethod = Method r, jURL = RequestURI r, jProto = Proto r, jHeaders = Header r, jBody = b, jQuery = Query r\<rparr>,
                   r\<lparr>Body := Some (Inr b)\<rparr>)))"

text \<open>The request keeps a body that can be read again: a second conversion gives the same, whatever its default.\<close>

lemma RequestToJSON_again: "RequestToJSON r d = Inr (j, r') \<Longrightarrow> d \<noteq> [] \<Longrightarrow> RequestToJSON r' d' = Inr (j, r')"
  by (auto simp: RequestToJSON_def Let_def split: sum.splits option.splits if_splits)

subsection \<open>Google credentials\<close>

definition isCredentialsStringEmpty :: "gostr \<Rightarrow> bool" where
  "isCredentialsStringEmpty s \<longleftrightarrow> s = [] \<or> s = lit ''{}''"

definition isGKEEnabledWorkload :: "golib \<Rightarrow> config \<Rightarrow> bool \<times> config" where
  "isGKEEnabledWorkload L c = (case GetStringVar L [] [lit ''workloadIdentity.type''] c of (t, c1) \<Rightarrow> (t = lit ''GKE'', c1))"

definition ShouldSkipCredentialsInit :: "golib \<Rightarrow> gostr \<Rightarrow> config \<Rightarrow> bool \<times> config" where
  "ShouldSkipCredentialsInit L creds c = (case isGKEEnabledWorkload L c of (b, c1) \<Rightarrow> (b \<and> isCredentialsStringEmpty creds, c1))"

text \<open>\<open>client_json\<close> says whether the Google library takes the JSON for a client's; \<open>type_of\<close> reads its type.\<close>

definition CompatibleGoogleCredentialsJSON :: "(gostr \<Rightarrow> bool) \<Rightarrow> gostr \<Rightarrow> gostr option" where
  "CompatibleGoogleCredentialsJSON client_json k =
     (if client_json k then Some (lit ''google developers console client_credentials.json file is not supported'') else None)"

definition CompatibleServiceAccountJSON :: "(gostr \<Rightarrow> bool) \<Rightarrow> (gostr \<Rightarrow> gostr + gostr) \<Rightarrow> (gostr \<Rightarrow> gostr) \<Rightarrow> gostr \<Rightarrow> gostr option" where
  "CompatibleServiceAccountJSON client_json type_of q k =
     (case CompatibleGoogleCredentialsJSON client_json k of
        Some e \<Rightarrow> Some e
      | None \<Rightarrow>
          (case type_of k of
             Inl e \<Rightarrow> Some (lit ''invalid credentials JSON: '' @ e)
           | Inr t \<Rightarrow>
               if t \<noteq> lit ''service_account''
               then Some (lit ''unsupported credential type '' @ q t @ lit '': only service account credentials are supported'')
               else None))"

lemma CompatibleServiceAccountJSON_ok:
  "CompatibleServiceAccountJSON cj ty q k = None \<longleftrightarrow> \<not> cj k \<and> ty k = Inr (lit ''service_account'')"
  by (auto simp: CompatibleServiceAccountJSON_def CompatibleGoogleCredentialsJSON_def split: sum.splits)

end
