(* ===== verification/Service_Kit.thy ===== *)
theory Service_Kit
  imports Http_Kit
begin

text \<open>
  What surrounds the HTTP packages: the construction of a retrying client and a request through it, the options and the
  periodic gauge of the middleware of statistics, the monitor of a database (\<open>sqlutil\<close>), and the TCP proxy of tests
  (\<open>tcpproxy\<close>). Clocks, sockets and the database are sequences of events.
\<close>

subsection \<open>Retrying clients\<close>

text \<open>A client: what sends a request (the number of the attempt and the body), the settings, the strategy, and whether failures
  are reported.\<close>

type_synonym sender = "nat \<Rightarrow> byte list option \<Rightarrow> attempt"

record retryableHTTPClient =
  HttpClient :: sender
  rc_config :: retryConfig
  shouldRetry :: retryStrategy
  onFailure :: bool

datatype retry_option = WithHttpClient sender | WithOnFailure bool | WithCustomRetryStrategy retryStrategy

fun apply_retry_option :: "retry_option \<Rightarrow> retryableHTTPClient \<Rightarrow> retryableHTTPClient" where
  "apply_retry_option (WithHttpClient s) cl = cl\<lparr>HttpClient := s\<rparr>"
| "apply_retry_option (WithOnFailure b) cl = cl\<lparr>onFailure := b\<rparr>"
| "apply_retry_option (WithCustomRetryStrategy r) cl = cl\<lparr>shouldRetry := r\<rparr>"

text \<open>The transport of the client it makes itself: no keep-alives, connections per host, idle ones per host, idle time.\<close>

record retry_transport =
  DisableKeepAlives :: bool
  rt_MaxConnsPerHost :: nat
  rt_MaxIdleConnsPerHost :: nat
  rt_IdleConnTimeout :: duration

definition retry_transport_default :: retry_transport where
  "retry_transport_default =
     \<lparr>DisableKeepAlives = True, rt_MaxConnsPerHost = 100, rt_MaxIdleConnsPerHost = 10, rt_IdleConnTimeout = 30 * 1000000000\<rparr>"

definition NewRetryableHTTPClient ::
  "golib \<Rightarrow> (retry_transport \<Rightarrow> sender) \<Rightarrow> retryConfig option \<Rightarrow> retry_option list \<Rightarrow> config \<Rightarrow> retryableHTTPClient \<times> config" where
  "NewRetryableHTTPClient L dial conf opts c =
     (let (cfg, c1) = (case conf of Some k \<Rightarrow> (k, c) | None \<Rightarrow> NewDefaultConfig L c)
      in (fold apply_retry_option opts
            \<lparr>HttpClient = dial retry_transport_default, rc_config = cfg, shouldRetry = BaseRetryStrategy, onFailure = False\<rparr>, c1))"

text \<open>\<open>Do\<close> of a client; failures are reported to the caller where it asked for them.\<close>

definition client_Do ::
  "(nat \<Rightarrow> nat \<Rightarrow> gostr \<Rightarrow> decision) \<Rightarrow> retryableHTTPClient \<Rightarrow> (gostr + byte list) option \<Rightarrow> (attempt \<times> retry_log) option" where
  "client_Do decide cl body =
     map_option (\<lambda>(a, l). (a, if onFailure cl then l else l\<lparr>failures := []\<rparr>))
       (retry_Do (HttpClient cl) (shouldRetry cl) decide (MaxRetry (rc_config cl)) body)"

text \<open>The last option of a kind wins, and options of different kinds do not meet.\<close>

lemma options_strategy:
  "shouldRetry (fold apply_retry_option opts cl) =
     (case find (\<lambda>op. case op of WithCustomRetryStrategy r \<Rightarrow> True | _ \<Rightarrow> False) (rev opts) of
        Some (WithCustomRetryStrategy r) \<Rightarrow> r | _ \<Rightarrow> shouldRetry cl)"
  by (induction opts rule: rev_induct) (auto split: retry_option.splits)

lemma options_client:
  "HttpClient (fold apply_retry_option opts cl) =
     (case find (\<lambda>op. case op of WithHttpClient s \<Rightarrow> True | _ \<Rightarrow> False) (rev opts) of
        Some (WithHttpClient s) \<Rightarrow> s | _ \<Rightarrow> HttpClient cl)"
  by (induction opts rule: rev_induct) (auto split: retry_option.splits)

lemma options_keep_config: "rc_config (fold apply_retry_option opts cl) = rc_config cl"
proof (induction opts arbitrary: cl)
  case (Cons op opts)
  then show ?case by (cases op) auto
qed simp

text \<open>A client whose strategy never retries sends a request once and returns what came back.\<close>

lemma never_retry_once:
  assumes "\<And>n a. shouldRetry cl n a = (False, None)"
  shows "client_Do decide cl (Some (Inr b)) =
    Some (HttpClient cl 1 (Some b), \<lparr>sent = [Some b], closed = [], failures = []\<rparr>)"
proof -
  have "retry_loop (HttpClient cl) (shouldRetry cl) dec (Some b) 1 l = Some (HttpClient cl 1 (Some b), l\<lparr>sent := sent l @ [Some b]\<rparr>)" for dec l
    by (subst retry_loop.simps) (simp add: assms Let_def)
  then show ?thesis by (cases "HttpClient cl 1 (Some b)") (simp add: client_Do_def retry_Do_def Let_def)
qed

subsection \<open>The middleware of statistics\<close>

record chi_config =
  redactUnknownPaths :: bool

definition RedactUnknownPaths :: "bool \<Rightarrow> chi_config \<Rightarrow> chi_config" where
  "RedactUnknownPaths b c = c\<lparr>redactUnknownPaths := b\<rparr>"

definition chi_config_of :: "(chi_config \<Rightarrow> chi_config) list \<Rightarrow> chi_config" where
  "chi_config_of opts = fold (\<lambda>f c. f c) opts \<lparr>redactUnknownPaths = True\<rparr>"

lemma redact_last: "redactUnknownPaths (chi_config_of (map RedactUnknownPaths bs)) = (if bs = [] then True else last bs)"
  by (induction bs rule: rev_induct) (auto simp: chi_config_of_def RedactUnknownPaths_def)

text \<open>What the goroutine of the gauge and the handlers do: a request begins or ends, ten seconds pass, the context is done.\<close>

datatype chi_event = Begin | Finish | Tick | Done

text \<open>\<open>n\<close>: the counter, a 32-bit integer. The values that the gauge is set to, and the counter at the end.\<close>

fun chi_gauge :: "chi_event list \<Rightarrow> bool \<Rightarrow> 32 word \<Rightarrow> 32 word list \<times> 32 word" where
  "chi_gauge [] running n = ([], n)"
| "chi_gauge (Begin # es) running n = chi_gauge es running (n + 1)"
| "chi_gauge (Finish # es) running n = chi_gauge es running (n - 1)"
| "chi_gauge (Tick # es) running n =
     (let (gs, k) = chi_gauge es running n in (if running then n # gs else gs, k))"
| "chi_gauge (Done # es) running n = chi_gauge es False n"

definition open_requests :: "chi_event list \<Rightarrow> 32 word" where
  "open_requests es = of_nat (length (filter (\<lambda>e. e = Begin) es)) - of_nat (length (filter (\<lambda>e. e = Finish) es))"

lemma open_requests_simps [simp]:
  "open_requests [] = 0" "open_requests (Begin # es) = open_requests es + 1" "open_requests (Finish # es) = open_requests es - 1"
  "open_requests (Tick # es) = open_requests es" "open_requests (Done # es) = open_requests es"
  by (simp_all add: open_requests_def)

lemma chi_counter: "snd (chi_gauge es running n) = n + open_requests es"
  by (induction es running n rule: chi_gauge.induct) (auto simp: Let_def split: prod.splits)

text \<open>Every value is the number of requests open at a tick before the context is done.\<close>

lemma chi_gauge_exact:
  "fst (chi_gauge es True n) =
     map (\<lambda>i. n + open_requests (take i es)) (filter (\<lambda>i. es ! i = Tick \<and> Done \<notin> set (take i es)) [0..<length es])"
proof -
  have off: "fst (chi_gauge es False n) = []" for es n
    by (induction es False n rule: chi_gauge.induct) (auto simp: Let_def split: prod.splits)
  have up: "[0..<Suc k] = 0 # map Suc [0..<k]" for k by (simp add: map_Suc_upt upt_conv_Cons del: upt_Suc)
  show ?thesis
  proof (induction es arbitrary: n)
    case (Cons e es)
    show ?case
      by (cases e) (simp_all add: up Cons.IH off filter_map o_def Let_def split_def algebra_simps del: upt_Suc)
  qed simp
qed


subsection \<open>The monitor of a database\<close>

record DBStats =
  MaxOpenConnections :: int
  OpenConnections :: int
  InUse :: int
  Idle :: int
  WaitCount :: int
  WaitDuration :: duration
  MaxIdleClosed :: int
  MaxIdleTimeClosed :: int
  MaxLifetimeClosed :: int

text \<open>The interval has passed and the database has been read, or the context is done.\<close>

datatype monitor_event = Report DBStats | ContextDone

text \<open>What is recorded: the measurement, whether it is the timer, the value.\<close>

definition db_readings :: "DBStats \<Rightarrow> (gostr \<times> bool \<times> int) list" where
  "db_readings d =
     [(lit ''db_max_open_connections'', False, MaxOpenConnections d), (lit ''db_open_connections'', False, OpenConnections d),
      (lit ''db_in_use'', False, InUse d), (lit ''db_idle'', False, Idle d), (lit ''db_wait_count'', False, WaitCount d),
      (lit ''db_wait_duration'', True, WaitDuration d), (lit ''db_max_idle_closed'', False, MaxIdleClosed d),
      (lit ''db_max_idle_time_closed'', False, MaxIdleTimeClosed d), (lit ''db_max_lifetime_closed'', False, MaxLifetimeClosed d)]"

fun monitor_loop :: "monitor_event list \<Rightarrow> (gostr \<times> bool \<times> int) list" where
  "monitor_loop [] = []"
| "monitor_loop (ContextDone # es) = []"
| "monitor_loop (Report d # es) = db_readings d @ monitor_loop es"

text \<open>The interval between reports, and what is recorded under the tag of the identifier.\<close>

definition MonitorDatabase ::
  "golib \<Rightarrow> gostr \<Rightarrow> monitor_event list \<Rightarrow> config \<Rightarrow> (64 word \<times> (gostr \<times> gostr) list \<times> (gostr \<times> bool \<times> int) list) \<times> config" where
  "MonitorDatabase L identifier es c =
     (let (interval, c1) = GetDurationVar L 10 1000000000 [lit ''Database.statsReportInterval''] c
      in ((interval, [(lit ''identifier'', identifier)], monitor_loop es), c1))"

lemma monitor_until_done: "monitor_loop (map Report ds @ ContextDone # es) = concat (map db_readings ds)"
  by (induction ds) auto

lemma monitor_names_distinct: "distinct (map fst (db_readings d))"
  by (simp add: db_readings_def lit_def)

subsection \<open>Copying between two sockets\<close>

text \<open>\<open>io.Copy\<close>: the pieces that are read, and how many bytes the \<open>i\<close>-th write takes; a write that takes less than the piece
  ends the copy. What arrived, and how many bytes were counted.\<close>

fun io_Copy :: "(nat \<Rightarrow> nat) \<Rightarrow> nat \<Rightarrow> byte list list \<Rightarrow> byte list \<times> nat" where
  "io_Copy w i [] = ([], 0)"
| "io_Copy w i (p # ps) =
     (if length p \<le> w i then (let (d, n) = io_Copy w (i + 1) ps in (p @ d, length p + n)) else (take (w i) p, w i))"

text \<open>The pieces that a reader gives which writes what it reads to another side first.\<close>

fun tee_pieces :: "(nat \<Rightarrow> nat) \<Rightarrow> nat \<Rightarrow> byte list list \<Rightarrow> byte list list" where
  "tee_pieces w i [] = []"
| "tee_pieces w i (p # ps) = (if length p \<le> w i then p # tee_pieces w (i + 1) ps else [take (w i) p])"

text \<open>A pipe: what the destination gets, what is printed, what is added to the counter. Standard output takes everything.\<close>

definition proxy_pipe :: "bool \<Rightarrow> (nat \<Rightarrow> nat) \<Rightarrow> byte list list \<Rightarrow> byte list \<times> byte list \<times> nat" where
  "proxy_pipe verbose w ps =
     (if verbose then (concat (tee_pieces w 0 ps), concat (tee_pieces w 0 ps), length (concat (tee_pieces w 0 ps)))
      else (let (d, n) = io_Copy w 0 ps in (d, [], n)))"

lemma io_Copy_tee: "io_Copy w i ps = (concat (tee_pieces w i ps), length (concat (tee_pieces w i ps)))"
  by (induction w i ps rule: io_Copy.induct) (auto simp: Let_def split: prod.splits)

lemma io_Copy_all: "list_all (\<lambda>p. \<forall>j. length p \<le> w j) ps \<Longrightarrow> io_Copy w i ps = (concat ps, length (concat ps))"
  by (induction w i ps rule: io_Copy.induct) (auto simp: Let_def)

text \<open>Printing changes neither what arrives nor what is counted, and the counter is the number of bytes that arrived.\<close>

lemma pipe_counts_delivered:
  "fst (proxy_pipe True w ps) = fst (proxy_pipe False w ps) \<and> snd (snd (proxy_pipe verbose w ps)) = length (fst (proxy_pipe verbose w ps))"
  by (simp add: proxy_pipe_def io_Copy_tee Let_def)


subsection \<open>The proxy\<close>

text \<open>A connection: where its handler is, whether the other side was dialled, and what its two pipes counted once they ended.\<close>

datatype phase = Dialing | Piping | Closed

record pconn =
  handler :: phase
  dialled :: bool
  up :: "nat option"
  down :: "nat option"

record proxy =
  pconns :: "pconn list"
  BytesReceived :: nat
  BytesSent :: nat
  stopping :: bool
  accepting :: bool
  closer :: bool
  pwg :: int

definition proxy_Start :: proxy where
  "proxy_Start = \<lparr>pconns = [], BytesReceived = 0, BytesSent = 0, stopping = False, accepting = True, closer = True, pwg = 2\<rparr>"

text \<open>The steps: a connection is accepted (also after the stop, in the round of the loop that had begun before it), the loop and the
  closing of the listener end, the other side cannot be dialled or is, a pipe ends and counts, the handler ends and closes both
  sides.\<close>

inductive proxy_step :: "proxy \<Rightarrow> proxy \<Rightarrow> bool" where
  accept: "accepting p \<Longrightarrow>
    proxy_step p (p\<lparr>pconns := pconns p @ [\<lparr>handler = Dialing, dialled = False, up = None, down = None\<rparr>], pwg := pwg p + 1\<rparr>)"
| loop_end: "accepting p \<Longrightarrow> stopping p \<Longrightarrow> proxy_step p (p\<lparr>accepting := False, pwg := pwg p - 1\<rparr>)"
| closer_end: "closer p \<Longrightarrow> stopping p \<Longrightarrow> proxy_step p (p\<lparr>closer := False, pwg := pwg p - 1\<rparr>)"
| dial_failed: "i < length (pconns p) \<Longrightarrow> handler (pconns p ! i) = Dialing \<Longrightarrow>
    proxy_step p (p\<lparr>pconns := (pconns p)[i := (pconns p ! i)\<lparr>handler := Closed\<rparr>], pwg := pwg p - 1\<rparr>)"
| dial_ok: "i < length (pconns p) \<Longrightarrow> handler (pconns p ! i) = Dialing \<Longrightarrow>
    proxy_step p (p\<lparr>pconns := (pconns p)[i := (pconns p ! i)\<lparr>handler := Piping, dialled := True\<rparr>], pwg := pwg p + 2\<rparr>)"
| pipe_up: "i < length (pconns p) \<Longrightarrow> dialled (pconns p ! i) \<Longrightarrow> up (pconns p ! i) = None \<Longrightarrow>
    proxy_step p (p\<lparr>pconns := (pconns p)[i := (pconns p ! i)\<lparr>up := Some n\<rparr>], BytesReceived := BytesReceived p + n, pwg := pwg p - 1\<rparr>)"
| pipe_down: "i < length (pconns p) \<Longrightarrow> dialled (pconns p ! i) \<Longrightarrow> down (pconns p ! i) = None \<Longrightarrow>
    proxy_step p (p\<lparr>pconns := (pconns p)[i := (pconns p ! i)\<lparr>down := Some n\<rparr>], BytesSent := BytesSent p + n, pwg := pwg p - 1\<rparr>)"
| handler_end: "i < length (pconns p) \<Longrightarrow> handler (pconns p ! i) = Piping \<Longrightarrow>
    up (pconns p ! i) \<noteq> None \<or> down (pconns p ! i) \<noteq> None \<or> stopping p \<Longrightarrow>
    proxy_step p (p\<lparr>pconns := (pconns p)[i := (pconns p ! i)\<lparr>handler := Closed\<rparr>], pwg := pwg p - 1\<rparr>)"
| stop: "\<not> stopping p \<Longrightarrow> proxy_step p (p\<lparr>stopping := True\<rparr>)"

inductive proxy_reach :: "proxy \<Rightarrow> bool" where
  start: "proxy_reach proxy_Start"
| step: "proxy_reach p \<Longrightarrow> proxy_step p q \<Longrightarrow> proxy_reach q"

definition tasks :: "pconn \<Rightarrow> int" where
  "tasks c = (if handler c = Closed then 0 else 1) + (if dialled c \<and> up c = None then 1 else 0) + (if dialled c \<and> down c = None then 1 else 0)"

definition counted :: "nat option \<Rightarrow> nat" where
  "counted x = (case x of None \<Rightarrow> 0 | Some n \<Rightarrow> n)"

definition conn_ok :: "pconn \<Rightarrow> bool" where
  "conn_ok c \<longleftrightarrow> (if dialled c then handler c \<noteq> Dialing else handler c \<noteq> Piping \<and> up c = None \<and> down c = None)"

definition proxy_inv :: "proxy \<Rightarrow> bool" where
  "proxy_inv p \<longleftrightarrow>
     list_all conn_ok (pconns p) \<and>
     pwg p = (if accepting p then 1 else 0) + (if closer p then 1 else 0) + sum_list (map tasks (pconns p)) \<and>
     BytesReceived p = sum_list (map (counted \<circ> up) (pconns p)) \<and>
     BytesSent p = sum_list (map (counted \<circ> down) (pconns p)) \<and>
     (\<not> accepting p \<or> \<not> closer p \<longrightarrow> stopping p)"

lemma conn_at: "list_all conn_ok cs \<Longrightarrow> i < length cs \<Longrightarrow> conn_ok (cs ! i)"
  by (simp add: list_all_length)

lemma conn_put: "list_all conn_ok cs \<Longrightarrow> conn_ok c \<Longrightarrow> list_all conn_ok (cs[i := c])"
  by (auto simp: list_all_iff dest!: set_update_subset_insert[THEN subsetD])

lemma sum_put_int: "i < length cs \<Longrightarrow> sum_list (map f (cs[i := c])) = sum_list (map f cs) + f c - (f (cs ! i) :: int)"
  by (induction cs arbitrary: i) (auto simp: nth_Cons split: nat.splits)

lemma sum_put_nat: "i < length cs \<Longrightarrow> (f (cs ! i) :: nat) \<le> f c \<Longrightarrow> sum_list (map f (cs[i := c])) = sum_list (map f cs) + (f c - f (cs ! i))"
  by (induction cs arbitrary: i) (auto simp: nth_Cons split: nat.splits)

lemma proxy_step_inv: "proxy_step p q \<Longrightarrow> proxy_inv p \<Longrightarrow> proxy_inv q"
proof (induction rule: proxy_step.induct)
  case (accept p)
  then show ?case by (simp add: proxy_inv_def conn_ok_def tasks_def counted_def)
next
  case (loop_end p)
  then show ?case by (simp add: proxy_inv_def)
next
  case (closer_end p)
  then show ?case by (simp add: proxy_inv_def)
next
  case (dial_failed i p)
  then have c: "conn_ok (pconns p ! i)" by (simp add: proxy_inv_def conn_at)
  show ?case using dial_failed c by (auto simp: proxy_inv_def sum_put_int sum_put_nat conn_put tasks_def conn_ok_def)
next
  case (dial_ok i p)
  then have c: "conn_ok (pconns p ! i)" by (simp add: proxy_inv_def conn_at)
  show ?case using dial_ok c by (auto simp: proxy_inv_def sum_put_int sum_put_nat conn_put tasks_def conn_ok_def)
next
  case (pipe_up i p n)
  then have c: "conn_ok (pconns p ! i)" by (simp add: proxy_inv_def conn_at)
  show ?case using pipe_up c by (auto simp: proxy_inv_def sum_put_int sum_put_nat conn_put tasks_def conn_ok_def counted_def)
next
  case (pipe_down i p n)
  then have c: "conn_ok (pconns p ! i)" by (simp add: proxy_inv_def conn_at)
  show ?case using pipe_down c by (auto simp: proxy_inv_def sum_put_int sum_put_nat conn_put tasks_def conn_ok_def counted_def)
next
  case (handler_end i p)
  then have c: "conn_ok (pconns p ! i)" by (simp add: proxy_inv_def conn_at)
  show ?case using handler_end c by (auto simp: proxy_inv_def sum_put_int sum_put_nat conn_put tasks_def conn_ok_def)
next
  case (stop p)
  then show ?case by (simp add: proxy_inv_def)
qed

lemma proxy_reach_inv: "proxy_reach p \<Longrightarrow> proxy_inv p"
proof (induction rule: proxy_reach.induct)
  case start
  show ?case by (simp add: proxy_inv_def proxy_Start_def)
next
  case (step p q)
  then show ?case by (blast intro: proxy_step_inv)
qed

text \<open>Once \<open>Stop\<close> returns (the wait group is at 0), the proxy accepts nothing, both sides of every connection are closed, every pipe
  has ended, and the counters are the bytes of all pipes.\<close>

lemma stopped_proxy:
  assumes "proxy_reach p" "pwg p = 0"
  shows "stopping p \<and> \<not> accepting p \<and> list_all (\<lambda>c. handler c = Closed \<and> (dialled c \<longleftrightarrow> up c \<noteq> None) \<and> (dialled c \<longleftrightarrow> down c \<noteq> None)) (pconns p)
    \<and> BytesReceived p = sum_list (map (counted \<circ> up) (pconns p)) \<and> BytesSent p = sum_list (map (counted \<circ> down) (pconns p))"
proof -
  have i: "proxy_inv p" using assms proxy_reach_inv by blast
  have nn: "0 \<le> tasks c" for c by (simp add: tasks_def)
  then have s: "0 \<le> sum_list (map tasks (pconns p))" by (intro sum_list_nonneg) auto
  then have a: "\<not> accepting p" "\<not> closer p" "sum_list (map tasks (pconns p)) = 0"
    using i assms(2) by (auto simp: proxy_inv_def split: if_splits)
  have d: "handler c = Closed \<and> (dialled c \<longleftrightarrow> up c \<noteq> None) \<and> (dialled c \<longleftrightarrow> down c \<noteq> None)" if c: "c \<in> set (pconns p)" for c
  proof -
    have "tasks c \<in> set (map tasks (pconns p))" using c by simp
    then have "tasks c \<le> sum_list (map tasks (pconns p))" using nn by (intro member_le_sum_list) auto
    then have z: "tasks c = 0" using a nn[of c] by simp
    have "conn_ok c" using i c by (simp add: proxy_inv_def list_all_iff)
    with z show ?thesis unfolding tasks_def conn_ok_def by (simp split: if_split_asm)
  qed
  have st: "stopping p" using i a by (simp add: proxy_inv_def)
  have n: "BytesReceived p = sum_list (map (counted \<circ> up) (pconns p))" "BytesSent p = sum_list (map (counted \<circ> down) (pconns p))"
    using i by (simp_all add: proxy_inv_def)
  have l: "list_all (\<lambda>c. handler c = Closed \<and> (dialled c \<longleftrightarrow> up c \<noteq> None) \<and> (dialled c \<longleftrightarrow> down c \<noteq> None)) (pconns p)"
    using d by (simp only: list_all_iff) blast
  show ?thesis by (intro conjI st a(1) l n)
qed

end
