(* ===== verification/Runtime_Stats.thy ===== *)
theory Runtime_Stats
  imports Metric Stats_Kit
begin

text \<open>
  Collection in the background: the statistics of the Go runtime and of the metric registry (\<open>stats/periodic.go\<close>), and the
  aggregated collectors (\<open>stats/collectors.go\<close>, \<open>stats/collectors\<close>). What a
  collector gives to its gauge function is the list of the calls. Floats are reals.
\<close>

subsection \<open>Gauges\<close>

type_synonym series = "gostr \<times> tags"
type_synonym gauge_call = "series \<times> u64"

text \<open>The value a series keeps after the calls.\<close>

definition last_value :: "gauge_call list \<Rightarrow> series \<Rightarrow> u64 option" where
  "last_value cs = map_of (rev cs)"

lemma last_value_zeros:
  assumes "k \<in> fst ` set z" "\<And>k v. (k, v) \<in> set z \<Longrightarrow> v = 0"
  shows "last_value (cs @ z) k = Some 0"
proof -
  have "map_of (rev z) k \<noteq> None" using assms(1) by (simp add: map_of_eq_None_iff)
  then obtain v where v: "map_of (rev z) k = Some v" by blast
  then have "(k, v) \<in> set z" by (auto dest: map_of_SomeD)
  then show ?thesis using v assms(2) by (auto simp: last_value_def map_add_def)
qed

lemma last_value_covered:
  assumes "fst ` set cs \<subseteq> fst ` set z" "\<And>k v. (k, v) \<in> set z \<Longrightarrow> v = 0"
  shows "list_all (\<lambda>(k, v). last_value (cs @ z) k = Some 0) (cs @ z)"
proof -
  have "last_value (cs @ z) k = Some 0" if "k \<in> fst ` set (cs @ z)" for k
    using that assms(1) by (intro last_value_zeros[OF _ assms(2)]) auto
  then show ?thesis by (force simp: list_all_iff)
qed

subsection \<open>The Go runtime\<close>

record cpuStats =
  NumGoroutine :: u64
  NumCgoCall :: u64

record MemStats =
  Alloc :: u64
  TotalAlloc :: u64
  Sys :: u64
  Lookups :: u64
  Mallocs :: u64
  Frees :: u64
  HeapAlloc :: u64
  HeapSys :: u64
  HeapIdle :: u64
  HeapInuse :: u64
  HeapReleased :: u64
  HeapObjects :: u64
  StackInuse :: u64
  StackSys :: u64
  MSpanInuse :: u64
  MSpanSys :: u64
  MCacheInuse :: u64
  MCacheSys :: u64
  OtherSys :: u64
  GCSys :: u64
  NextGC :: u64
  LastGC :: u64
  PauseTotalNs :: u64
  PauseNs :: "nat \<Rightarrow> u64"
  NumGC :: u32
  GCCPUFraction :: real

definition no_MemStats :: MemStats where
  "no_MemStats =
     \<lparr>Alloc = 0, TotalAlloc = 0, Sys = 0, Lookups = 0, Mallocs = 0, Frees = 0, HeapAlloc = 0, HeapSys = 0, HeapIdle = 0,
      HeapInuse = 0, HeapReleased = 0, HeapObjects = 0, StackInuse = 0, StackSys = 0, MSpanInuse = 0, MSpanSys = 0,
      MCacheInuse = 0, MCacheSys = 0, OtherSys = 0, GCSys = 0, NextGC = 0, LastGC = 0, PauseTotalNs = 0, PauseNs = (\<lambda>_. 0),
      NumGC = 0, GCCPUFraction = 0\<rparr>"

record runtimeStatsCollector =
  PauseDur :: duration
  EnableCPU :: bool
  EnableMem :: bool
  EnableGC :: bool

definition newRuntimeStatsCollector :: runtimeStatsCollector where
  "newRuntimeStatsCollector = \<lparr>PauseDur = 10 * 1000000000, EnableCPU = True, EnableMem = True, EnableGC = True\<rparr>"

definition gauge :: "string \<Rightarrow> u64 \<Rightarrow> gauge_call" where
  "gauge k v = ((lit k, []), v)"

definition outputCPUStats :: "cpuStats \<Rightarrow> gauge_call list" where
  "outputCPUStats s = [gauge ''cpu.goroutines'' (NumGoroutine s), gauge ''cpu.cgo_calls'' (NumCgoCall s)]"

definition outputMemStats :: "MemStats \<Rightarrow> gauge_call list" where
  "outputMemStats m =
     [gauge ''mem.alloc'' (Alloc m), gauge ''mem.total'' (TotalAlloc m), gauge ''mem.sys'' (Sys m),
      gauge ''mem.lookups'' (Lookups m), gauge ''mem.malloc'' (Mallocs m), gauge ''mem.frees'' (Frees m),
      gauge ''mem.heap.alloc'' (HeapAlloc m), gauge ''mem.heap.sys'' (HeapSys m), gauge ''mem.heap.idle'' (HeapIdle m),
      gauge ''mem.heap.inuse'' (HeapInuse m), gauge ''mem.heap.released'' (HeapReleased m),
      gauge ''mem.heap.objects'' (HeapObjects m),
      gauge ''mem.stack.inuse'' (StackInuse m), gauge ''mem.stack.sys'' (StackSys m),
      gauge ''mem.stack.mspan_inuse'' (MSpanInuse m), gauge ''mem.stack.mspan_sys'' (MSpanSys m),
      gauge ''mem.stack.mcache_inuse'' (MCacheInuse m), gauge ''mem.stack.mcache_sys'' (MCacheSys m),
      gauge ''mem.othersys'' (OtherSys m)]"

text \<open>The index of the last pause is computed on 32 bits.\<close>

definition outputGCStats :: "MemStats \<Rightarrow> gauge_call list" where
  "outputGCStats m =
     [gauge ''mem.gc.sys'' (GCSys m), gauge ''mem.gc.next'' (NextGC m), gauge ''mem.gc.last'' (LastGC m),
      gauge ''mem.gc.pause_total'' (PauseTotalNs m), gauge ''mem.gc.pause'' (PauseNs m (unat ((NumGC m + 255) mod 256))),
      gauge ''mem.gc.count'' (ucast (NumGC m)), gauge ''mem.gc.cpu_percent'' (word_of_int (go_trunc (100 * GCCPUFraction m)))]"

definition output_with :: "cpuStats \<Rightarrow> MemStats \<Rightarrow> runtimeStatsCollector \<Rightarrow> gauge_call list" where
  "output_with s m c =
     (if EnableCPU c then outputCPUStats s else []) @
     (if EnableMem c then outputMemStats m @ (if EnableGC c then outputGCStats m else []) else [])"

definition zeroStats :: "runtimeStatsCollector \<Rightarrow> gauge_call list" where
  "zeroStats c = output_with \<lparr>NumGoroutine = 0, NumCgoCall = 0\<rparr> no_MemStats c"

definition outputStats :: "cpuStats \<times> MemStats \<Rightarrow> runtimeStatsCollector \<Rightarrow> gauge_call list" where
  "outputStats r c = output_with (fst r) (snd r) c"

text \<open>A run with what it reads first and at each tick, until the context is done. A pause that is not positive makes
  \<open>NewTicker\<close> panic after the first output; the deferred zeroes are written then too.\<close>

definition runtime_run :: "runtimeStatsCollector \<Rightarrow> cpuStats \<times> MemStats \<Rightarrow> (cpuStats \<times> MemStats) list \<Rightarrow> gauge_call list \<times> bool" where
  "runtime_run c r rs =
     (if PauseDur c \<le> 0 then (outputStats r c @ zeroStats c, False)
      else (outputStats r c @ concat (map (\<lambda>r. outputStats r c) rs) @ zeroStats c, True))"

lemma outputStats_series: "map fst (outputStats r c) = map fst (zeroStats c)"
  by (simp add: outputStats_def zeroStats_def output_with_def outputCPUStats_def outputMemStats_def outputGCStats_def gauge_def)

lemma zeroStats_zero: "(k, v) \<in> set (zeroStats c) \<Longrightarrow> v = 0"
  by (auto simp: zeroStats_def output_with_def outputCPUStats_def outputMemStats_def outputGCStats_def gauge_def
      no_MemStats_def go_trunc_def split: if_splits)

text \<open>When a run has ended, also by a panic, every gauge it ever set is zero.\<close>

lemma runtime_run_zero: "list_all (\<lambda>(k, v). last_value (fst (runtime_run c r rs)) k = Some 0) (fst (runtime_run c r rs))"
proof -
  have s: "fst ` set (outputStats r c) = fst ` set (zeroStats c)" for r
    using outputStats_series by (metis list.set_map)
  have "\<exists>cs. fst (runtime_run c r rs) = cs @ zeroStats c \<and> fst ` set cs \<subseteq> fst ` set (zeroStats c)"
  proof (cases "PauseDur c \<le> 0")
    case True
    then show ?thesis using s by (intro exI[of _ "outputStats r c"]) (simp add: runtime_run_def)
  next
    case False
    have "fst ` set (concat (map (\<lambda>r. outputStats r c) rs)) \<subseteq> fst ` set (zeroStats c)"
      using s by (induction rs) (simp_all add: image_Un)
    then show ?thesis using s False
      by (intro exI[of _ "outputStats r c @ concat (map (\<lambda>r. outputStats r c) rs)"]) (simp add: runtime_run_def image_Un)
  qed
  then show ?thesis using last_value_covered zeroStats_zero by metis
qed

text \<open>The pause that is reported is the last one, also after the count of collections has wrapped.\<close>

lemma last_pause: "0 < NumGC m \<Longrightarrow> unat ((NumGC m + 255) mod 256) = (unat (NumGC m) - 1) mod 256"
proof -
  assume a: "0 < NumGC m"
  have "unat (NumGC m + 255) mod 256 = (unat (NumGC m) + 255) mod 256"
    by (simp add: unat_word_ariths mod_mod_cancel)
  also have "\<dots> = (unat (NumGC m) - 1) mod 256"
  proof -
    have "unat (NumGC m) + 255 = (unat (NumGC m) - 1) + 256" using a by (simp add: word_less_nat_alt)
    then show ?thesis by (metis mod_add_self2)
  qed
  finally show ?thesis by (simp add: unat_mod)
qed

subsection \<open>Collectors\<close>

text \<open>The interface \<open>Collector\<close>, over a state: \<open>collect\<close> may ask the environment \<open>e\<close>, and other goroutines may \<open>touch\<close> the
  state. A collector keeps its identity and the series it sets, and zeroes all of them.\<close>

locale collector_kind =
  fixes ID :: "'s \<Rightarrow> gostr"
    and collect :: "'e \<Rightarrow> 's \<Rightarrow> gauge_call list \<times> 's"
    and Zero :: "'s \<Rightarrow> gauge_call list \<times> 's"
    and touch :: "'u \<Rightarrow> 's \<Rightarrow> 's"
  assumes same_ID: "ID (snd (collect e s)) = ID s" "ID (touch u s) = ID s"
    and same_series: "map fst (fst (Zero (snd (collect e s)))) = map fst (fst (Zero s))"
      "map fst (fst (Zero (touch u s))) = map fst (fst (Zero s))"
    and covered: "map fst (fst (collect e s)) = map fst (fst (Zero s))"
    and zero: "list_all (\<lambda>c. snd c = 0) (fst (Zero s))"

text \<open>The collectors of the package: a gauge that does not change, the statistics of a database, the lag of the
  scheduler.\<close>

record DBStats =
  MaxOpenConnections :: int
  OpenConnections :: int
  InUse :: int
  Idle :: int
  WaitCount :: int
  WaitDuration :: duration
  MaxIdleClosed :: int
  MaxIdleTimeClosed :: int
  MaxLifetimeClosed :: int

datatype collector_state = Static gostr tags u64 | SQLDB gostr nat | SchedulerLag duration int

fun collector_ID :: "collector_state \<Rightarrow> gostr" where
  "collector_ID (Static k t _) = lit ''static_'' @ k @ [95] @ tags_String t"
| "collector_ID (SQLDB n _) = lit ''database_sql_'' @ n"
| "collector_ID (SchedulerLag _ _) = lit ''scheduler_lag''"

definition db_gauges :: "gostr \<Rightarrow> (string \<times> int) list \<Rightarrow> gauge_call list" where
  "db_gauges n = map (\<lambda>(k, v). ((lit k, [(lit ''name'', n)]), word_of_int v))"

text \<open>The environment gives the statistics of each database.\<close>

fun collector_collect :: "(nat \<Rightarrow> DBStats) \<Rightarrow> collector_state \<Rightarrow> gauge_call list \<times> collector_state" where
  "collector_collect e (Static k t x) = ([((k, t), x)], Static k t x)"
| "collector_collect e (SQLDB n db) =
     (let s = e db in
      (db_gauges n
         [(''sql_db_max_open_connections'', MaxOpenConnections s), (''sql_db_open_connections'', OpenConnections s),
          (''sql_db_in_use_connections'', InUse s), (''sql_db_idle_connections'', Idle s),
          (''sql_db_wait_count_total'', WaitCount s), (''sql_db_wait_duration_seconds_total'', go_div (WaitDuration s) 1000000000),
          (''sql_db_max_idle_closed_total'', MaxIdleClosed s), (''sql_db_max_idle_time_closed_total'', MaxIdleTimeClosed s),
          (''sql_db_max_lifetime_closed_total'', MaxLifetimeClosed s)],
       SQLDB n db))"
| "collector_collect e (SchedulerLag i m) = ([gauge ''cpu.scheduler_lag_ms'' (word_of_int m)], SchedulerLag i 0)"

fun collector_Zero :: "collector_state \<Rightarrow> gauge_call list \<times> collector_state" where
  "collector_Zero (Static k t x) = ([((k, t), 0)], Static k t x)"
| "collector_Zero (SQLDB n db) =
     (db_gauges n
        [(''sql_db_max_open_connections'', 0), (''sql_db_open_connections'', 0), (''sql_db_in_use_connections'', 0),
         (''sql_db_idle_connections'', 0), (''sql_db_wait_count_total'', 0), (''sql_db_wait_duration_seconds_total'', 0),
         (''sql_db_max_idle_closed_total'', 0), (''sql_db_max_idle_time_closed_total'', 0),
         (''sql_db_max_lifetime_closed_total'', 0)],
      SQLDB n db)"
| "collector_Zero (SchedulerLag i m) = ([gauge ''cpu.scheduler_lag_ms'' 0], SchedulerLag i 0)"

text \<open>A timer of the lag collector that fired \<open>elapsed\<close> after it was set.\<close>

definition lag_ms :: "duration \<Rightarrow> duration \<Rightarrow> int" where
  "lag_ms interval elapsed = go_div (max (elapsed - interval) 0) 1000000"

fun lag_fired :: "duration \<Rightarrow> collector_state \<Rightarrow> collector_state" where
  "lag_fired elapsed (SchedulerLag i m) =
     (let l = lag_ms i elapsed in SchedulerLag i (if 0 < l \<and> m < l then l else m))"
| "lag_fired elapsed c = c"

interpretation kit_collector: collector_kind collector_ID collector_collect collector_Zero lag_fired
proof
  fix e :: "nat \<Rightarrow> DBStats" and s u
  show "collector_ID (snd (collector_collect e s)) = collector_ID s" by (cases s) (simp_all add: Let_def)
  show "collector_ID (lag_fired u s) = collector_ID s" by (cases s) (simp_all add: Let_def)
  show "map fst (fst (collector_Zero (snd (collector_collect e s)))) = map fst (fst (collector_Zero s))"
    by (cases s) (simp_all add: Let_def)
  show "map fst (fst (collector_Zero (lag_fired u s))) = map fst (fst (collector_Zero s))" by (cases s) (simp_all add: Let_def)
  show "map fst (fst (collector_collect e s)) = map fst (fst (collector_Zero s))"
    by (cases s) (simp_all add: Let_def db_gauges_def gauge_def)
  show "list_all (\<lambda>c. snd c = 0) (fst (collector_Zero s))" by (cases s) (simp_all add: db_gauges_def gauge_def)
qed

text \<open>What is collected is the greatest lag since the last collection.\<close>

lemma lag_collected:
  assumes "0 \<le> m"
  shows "fold lag_fired es (SchedulerLag i m) = SchedulerLag i (Max (insert m (lag_ms i ` set es)))"
  using assms
proof (induction es arbitrary: m)
  case (Cons e es)
  let ?m = "if 0 < lag_ms i e \<and> m < lag_ms i e then lag_ms i e else m"
  have m: "?m = max (lag_ms i e) m" "0 \<le> ?m" using Cons.prems by auto
  have "fold lag_fired es (SchedulerLag i ?m) = SchedulerLag i (Max (insert ?m (lag_ms i ` set es)))"
    using Cons.IH[OF m(2)] by simp
  also have "Max (insert ?m (lag_ms i ` set es)) = Max (insert m (lag_ms i ` set (e # es)))"
    unfolding m(1) by (cases "es = []") (simp_all add: insert_commute max.left_commute max.commute)
  finally show ?case by (simp add: Let_def)
qed simp

subsection \<open>The aggregation of collectors\<close>

definition agg_Add :: "('s \<Rightarrow> gostr) \<Rightarrow> 's \<Rightarrow> (gostr \<rightharpoonup> 's) \<Rightarrow> gostr option \<times> (gostr \<rightharpoonup> 's)" where
  "agg_Add ID s m =
     (if m (ID s) \<noteq> None then (Some (lit ''collector with ID '' @ ID s @ lit '' already register''), m)
      else (None, m(ID s \<mapsto> s)))"

text \<open>\<open>allCollect\<close> and \<open>allZero\<close> call every collector, in the order in which \<open>range\<close> visits the map.\<close>

fun visit_all :: "('s \<Rightarrow> gauge_call list \<times> 's) \<Rightarrow> gostr list \<Rightarrow> (gostr \<rightharpoonup> 's) \<Rightarrow> gauge_call list \<times> (gostr \<rightharpoonup> 's)" where
  "visit_all f [] m = ([], m)"
| "visit_all f (i # is) m =
     (case m i of
        None \<Rightarrow> visit_all f is m
      | Some s \<Rightarrow> (case f s of (g, s') \<Rightarrow> case visit_all f is (m(i \<mapsto> s')) of (gs, m') \<Rightarrow> (g @ gs, m')))"

text \<open>What happens while \<open>Run\<close> waits for its context: ticks, registrations, and the collectors' own goroutines.\<close>

datatype ('s, 'e, 'u) agg_event = Tick 'e "gostr list" | Registered 's | Touched gostr 'u

fun handle_event :: "('s \<Rightarrow> gostr) \<Rightarrow> ('e \<Rightarrow> 's \<Rightarrow> gauge_call list \<times> 's) \<Rightarrow> ('u \<Rightarrow> 's \<Rightarrow> 's) \<Rightarrow> ('s, 'e, 'u) agg_event \<Rightarrow> (gostr \<rightharpoonup> 's) \<Rightarrow>
  gauge_call list \<times> (gostr \<rightharpoonup> 's)" where
  "handle_event ID collect touch (Tick e is) m = visit_all (collect e) is m"
| "handle_event ID collect touch (Registered s) m = ([], snd (agg_Add ID s m))"
| "handle_event ID collect touch (Touched i u) m = ([], case m i of None \<Rightarrow> m | Some s \<Rightarrow> m(i \<mapsto> touch u s))"

fun agg_events :: "('s \<Rightarrow> gostr) \<Rightarrow> ('e \<Rightarrow> 's \<Rightarrow> gauge_call list \<times> 's) \<Rightarrow> ('u \<Rightarrow> 's \<Rightarrow> 's) \<Rightarrow> ('s, 'e, 'u) agg_event list \<Rightarrow>
  (gostr \<rightharpoonup> 's) \<Rightarrow> gauge_call list \<times> (gostr \<rightharpoonup> 's)" where
  "agg_events ID collect touch [] m = ([], m)"
| "agg_events ID collect touch (ev # evs) m =
     (case handle_event ID collect touch ev m of (g, m1) \<Rightarrow>
        case agg_events ID collect touch evs m1 of (gs, m2) \<Rightarrow> (g @ gs, m2))"

definition agg_pause :: "duration \<Rightarrow> duration" where
  "agg_pause d = (if d \<le> 0 then 10 * 1000000000 else d)"

text \<open>\<open>Run\<close>: the first collection, the events, and the zeroes, whose order is given by \<open>ord\<close>.\<close>

definition agg_Run :: "('s \<Rightarrow> gostr) \<Rightarrow> ('e \<Rightarrow> 's \<Rightarrow> gauge_call list \<times> 's) \<Rightarrow> ('s \<Rightarrow> gauge_call list \<times> 's) \<Rightarrow> ('u \<Rightarrow> 's \<Rightarrow> 's) \<Rightarrow>
  (gostr set \<Rightarrow> gostr list) \<Rightarrow> 'e \<Rightarrow> ('s, 'e, 'u) agg_event list \<Rightarrow> (gostr \<rightharpoonup> 's) \<Rightarrow> gauge_call list \<times> (gostr \<rightharpoonup> 's)" where
  "agg_Run ID collect Zero touch ord e evs m =
     (case agg_events ID collect touch (Tick e (ord (dom m)) # evs) m of (g, m1) \<Rightarrow>
        case visit_all Zero (ord (dom m1)) m1 of (z, m2) \<Rightarrow> (g @ z, m2))"

context collector_kind begin

definition covers :: "(gostr \<rightharpoonup> 's) \<Rightarrow> gauge_call list \<Rightarrow> bool" where
  "covers m g \<longleftrightarrow> (\<forall>k \<in> fst ` set g. \<exists>i s. m i = Some s \<and> k \<in> fst ` set (fst (Zero s)))"

definition kept_series :: "(gostr \<rightharpoonup> 's) \<Rightarrow> (gostr \<rightharpoonup> 's) \<Rightarrow> bool" where
  "kept_series m m' \<longleftrightarrow> (\<forall>i s. m i = Some s \<longrightarrow> (\<exists>s'. m' i = Some s' \<and> map fst (fst (Zero s')) = map fst (fst (Zero s))))"

lemma kept_refl: "kept_series m m"
  by (auto simp: kept_series_def)

lemma kept_trans: "kept_series m m1 \<Longrightarrow> kept_series m1 m2 \<Longrightarrow> kept_series m m2"
  unfolding kept_series_def by metis

lemma kept_upd: "m i = Some s \<Longrightarrow> map fst (fst (Zero s')) = map fst (fst (Zero s)) \<Longrightarrow> kept_series m (m(i \<mapsto> s'))"
  by (auto simp: kept_series_def)

lemma covers_kept: "covers m g \<Longrightarrow> kept_series m m' \<Longrightarrow> covers m' g"
  unfolding covers_def kept_series_def by (metis list.set_map)

lemma covers_append: "covers m (g @ h) \<longleftrightarrow> covers m g \<and> covers m h"
  by (auto simp: covers_def)

lemma visit_collect:
  "visit_all (collect e) is m = (g, m') \<Longrightarrow> kept_series m m' \<and> covers m' g \<and> finite (dom m') = finite (dom m)"
proof (induction "is" arbitrary: m g m')
  case Nil
  then show ?case by (simp add: kept_refl covers_def)
next
  case (Cons i "is")
  show ?case
  proof (cases "m i")
    case None
    then show ?thesis using Cons by simp
  next
    case (Some s)
    obtain g1 s' where c: "collect e s = (g1, s')" by fastforce
    obtain gs m2 where v: "visit_all (collect e) is (m(i \<mapsto> s')) = (gs, m2)" by fastforce
    have k1: "kept_series m (m(i \<mapsto> s'))" using same_series(1)[of e s] c Some by (auto intro: kept_upd)
    have "finite (dom (m(i \<mapsto> s'))) = finite (dom m)" by (simp only: dom_fun_upd option.distinct if_False finite_insert)
    then have ih: "kept_series (m(i \<mapsto> s')) m2" "covers m2 gs" "finite (dom m2) = finite (dom m)"
      using Cons.IH[OF v] by (simp_all only: simp_thms)
    have "fst ` set g1 = fst ` set (fst (Zero s))" using covered[of e s] c by (metis fst_conv list.set_map)
    then have "covers m g1" using Some by (auto simp: covers_def)
    then have "covers m2 g1" using k1 ih(1) covers_kept kept_trans by blast
    then show ?thesis using Cons.prems Some c v ih k1 kept_trans by (auto simp: covers_append)
  qed
qed

lemma event_kept: "handle_event ID collect touch ev m = (g, m') \<Longrightarrow> kept_series m m' \<and> covers m' g \<and> finite (dom m') = finite (dom m)"
proof (cases ev)
  case (Tick e "is")
  then show "handle_event ID collect touch ev m = (g, m') \<Longrightarrow> ?thesis" using visit_collect by simp
next
  case (Registered s)
  then show "handle_event ID collect touch ev m = (g, m') \<Longrightarrow> ?thesis"
    by (auto simp: agg_Add_def kept_series_def covers_def split: if_splits)
next
  case (Touched i u)
  then show "handle_event ID collect touch ev m = (g, m') \<Longrightarrow> ?thesis"
    by (auto simp: covers_def same_series intro: kept_refl kept_upd split: option.splits)
qed

lemma events_kept: "agg_events ID collect touch evs m = (g, m') \<Longrightarrow> kept_series m m' \<and> covers m' g \<and> finite (dom m') = finite (dom m)"
proof (induction evs arbitrary: m g m')
  case Nil
  then show ?case by (simp add: kept_refl covers_def)
next
  case (Cons ev evs)
  obtain g1 m1 where e: "handle_event ID collect touch ev m = (g1, m1)" by fastforce
  obtain g2 m2 where es: "agg_events ID collect touch evs m1 = (g2, m2)" by fastforce
  show ?case using Cons.prems e es event_kept[OF e] Cons.IH[OF es] kept_trans covers_kept
    by (auto simp: covers_append)
qed

lemma visit_zero:
  "distinct is \<Longrightarrow> (\<forall>k v. (k, v) \<in> set (fst (visit_all Zero is m)) \<longrightarrow> v = 0) \<and>
     (\<forall>i s. i \<in> set is \<longrightarrow> m i = Some s \<longrightarrow> fst ` set (fst (Zero s)) \<subseteq> fst ` set (fst (visit_all Zero is m)))"
proof (induction "is" arbitrary: m)
  case (Cons i "is")
  obtain g s' where z: "m i = Some s \<Longrightarrow> Zero s = (g, s')" for s by (cases "m i") fastforce+
  have d: "distinct is" "i \<notin> set is" using Cons.prems by simp_all
  let ?m = "case m i of None \<Rightarrow> m | Some s \<Rightarrow> m(i \<mapsto> s')"
  let ?z = "fst (visit_all Zero is ?m)"
  have v: "fst (visit_all Zero (i # is) m) = (case m i of None \<Rightarrow> [] | Some s \<Rightarrow> g) @ ?z"
    using z by (auto split: option.split prod.split)
  have g: "v = 0" if "m i = Some s" "(k, v) \<in> set g" for k v s
    using zero[of s] z that by (auto simp: list_all_iff)
  note ih = Cons.IH[OF d(1), of ?m]
  have "v = 0" if "(k, v) \<in> set (fst (visit_all Zero (i # is) m))" for k v
    using that ih g unfolding v by (cases k) (auto split: option.splits)
  moreover have "fst ` set (fst (Zero t)) \<subseteq> fst ` set (fst (visit_all Zero (i # is) m))" if "j \<in> set (i # is)" "m j = Some t" for j t
  proof (cases "j = i")
    case True
    then show ?thesis using that z v by auto
  next
    case False
    then have "?m j = Some t" "j \<in> set is" using that by (auto split: option.split)
    then have "fst ` set (fst (Zero t)) \<subseteq> fst ` set ?z" using ih by blast
    then show ?thesis unfolding v set_append image_Un by blast
  qed
  ultimately show ?case by blast
qed simp

lemma run_zeroes:
  assumes "finite (dom m)" "\<And>A. finite A \<Longrightarrow> distinct (ord A) \<and> set (ord A) = A"
  shows "list_all (\<lambda>(k, v). last_value (fst (agg_Run ID collect Zero touch ord e evs m)) k = Some 0)
    (fst (agg_Run ID collect Zero touch ord e evs m))"
proof -
  obtain g m1 where g: "agg_events ID collect touch (Tick e (ord (dom m)) # evs) m = (g, m1)" by fastforce
  have k: "covers m1 g" "finite (dom m1)" using events_kept[OF g] assms(1) by simp_all
  let ?z = "fst (visit_all Zero (ord (dom m1)) m1)"
  have o: "distinct (ord (dom m1))" "set (ord (dom m1)) = dom m1" using assms(2) k(2) by simp_all
  have z: "\<And>k v. (k, v) \<in> set ?z \<Longrightarrow> v = 0" "\<And>i s. m1 i = Some s \<Longrightarrow> fst ` set (fst (Zero s)) \<subseteq> fst ` set ?z"
    using visit_zero[OF o(1), of m1] o(2) by blast+
  have "fst ` set g \<subseteq> fst ` set ?z" using k(1) z(2) unfolding covers_def by blast
  then have "list_all (\<lambda>(k, v). last_value (g @ ?z) k = Some 0) (g @ ?z)" using last_value_covered z(1) by blast
  moreover have "fst (agg_Run ID collect Zero touch ord e evs m) = g @ ?z"
    using g by (simp add: agg_Run_def split: prod.split)
  ultimately show ?thesis by simp
qed

end

text \<open>C36. When \<open>Run\<close> has returned, every gauge that any of the collectors set, at any tick, whatever was registered in
  between and in whatever order the maps were visited, has been set back to zero.\<close>

theorem collectors_end_zero:
  assumes "finite (dom m)" "\<And>A. finite A \<Longrightarrow> distinct (ord A) \<and> set (ord A) = A"
  shows "list_all (\<lambda>(k, v). last_value (fst (agg_Run collector_ID collector_collect collector_Zero lag_fired ord e evs m)) k = Some 0)
    (fst (agg_Run collector_ID collector_collect collector_Zero lag_fired ord e evs m))"
  by (rule kit_collector.run_zeroes) (use assms in auto)

definition idle_db :: DBStats where
  "idle_db =
     \<lparr>MaxOpenConnections = 0, OpenConnections = 0, InUse = 0, Idle = 0, WaitCount = 0, WaitDuration = 0, MaxIdleClosed = 0,
      MaxIdleTimeClosed = 0, MaxLifetimeClosed = 0\<rparr>"

theorem collectors_end_zero_witness:
  "list_all (\<lambda>(k, v). last_value (fst (agg_Run collector_ID collector_collect collector_Zero lag_fired sorted_list_of_set
       (\<lambda>_. idle_db) [Registered (Static [97] [] 7), Touched (lit ''scheduler_lag'') 5, Tick (\<lambda>_. idle_db) [lit ''scheduler_lag'']]
       [lit ''scheduler_lag'' \<mapsto> SchedulerLag 1 4])) k = Some 0)
    (fst (agg_Run collector_ID collector_collect collector_Zero lag_fired sorted_list_of_set
       (\<lambda>_. idle_db) [Registered (Static [97] [] 7), Touched (lit ''scheduler_lag'') 5, Tick (\<lambda>_. idle_db) [lit ''scheduler_lag'']]
       [lit ''scheduler_lag'' \<mapsto> SchedulerLag 1 4]))"
  by (rule collectors_end_zero) simp_all

subsection \<open>The metric registry\<close>

text \<open>What is published for a metric; \<open>ms\<close> are the keys in the order in which \<open>Range\<close> visits them.\<close>

fun published :: "metric \<Rightarrow> stat_type \<times> real op" where
  "published (Metric.MGauge x) = (GaugeType, Gauge x)"
| "published (MCounter c) = (CountType, Count (word_of_int (go_trunc (counter_Value c))))"
| "published (MSimpleEWMA x) = (GaugeType, Gauge x)"
| "published (MVariableEWMA e) = (GaugeType, Gauge (VariableEWMA_Value e))"

definition metric_outputStats :: "('m \<Rightarrow> gostr) \<Rightarrow> ('m \<Rightarrow> tags) \<Rightarrow> 'm list \<Rightarrow> (gostr \<rightharpoonup> ('m, tags) registry) option \<Rightarrow>
  (gostr \<times> tags \<times> stat_type \<times> real op) list" where
  "metric_outputStats gname gtags ms manager =
     (case manager of
        None \<Rightarrow> []
      | Some mgr \<Rightarrow>
          (case GetRegistry PublishedMetrics mgr of
             None \<Rightarrow> []
           | Some r \<Rightarrow>
               concat (map (\<lambda>m. case reg_store r m of None \<Rightarrow> [] | Some a \<Rightarrow> [(gname m, gtags m, published (heap r a))]) ms)))"

text \<open>The first output, and one for each tick; the manager is given as it is then.\<close>

definition metric_run :: "('m \<Rightarrow> gostr) \<Rightarrow> ('m \<Rightarrow> tags) \<Rightarrow> 'm list \<Rightarrow> (gostr \<rightharpoonup> ('m, tags) registry) option list \<Rightarrow>
  (gostr \<times> tags \<times> stat_type \<times> real op) list" where
  "metric_run gname gtags ms managers = concat (map (metric_outputStats gname gtags ms) managers)"

text \<open>Every tick counts the whole value of a counter again: one increment is counted as often as it is published.\<close>

definition one_count :: "gostr \<rightharpoonup> (unit, tags) registry" where
  "one_count =
     [PublishedMetrics \<mapsto> (snd (GetCounter (\<lambda>_. [99]) (\<lambda>_. []) () NewRegistry))\<lparr>heap := \<lambda>_. MCounter (counter_Inc NewCounter)\<rparr>]"

lemma counter_counted_again:
  "metric_run (\<lambda>_. [99]) (\<lambda>_. []) [()] (replicate n (Some one_count)) = replicate n ([99], [], CountType, Count 1)"
proof -
  have "metric_outputStats (\<lambda>_. [99]) (\<lambda>_. []) [()] (Some one_count) = [([99], [], CountType, Count 1)]"
    by (simp add: metric_outputStats_def one_count_def GetRegistry_def GetCounter_def typed_get_def get_def updateIndex_def
        NewRegistry_def NewCounter_def counter_Inc_def counter_Value_def go_trunc_def Let_def)
  then show ?thesis by (induction n) (simp_all add: metric_run_def)
qed

end
