(* ===== verification/Otel_Kit.thy ===== *)
theory Otel_Kit
  imports Config Runtime_Stats
begin

text \<open>
  The set-up of measurements: the options and the settings (\<open>stats/options.go\<close>, \<open>NewStats\<close>), the manager of the
  OpenTelemetry providers (\<open>stats/internal/otel\<close>), the start, stop, instruments and tracers of the OpenTelemetry
  implementation (\<open>stats/otel.go\<close>, \<open>stats/otel_measurement.go\<close>, \<open>stats/traces.go\<close>), and the collection in the background of
  the statsd implementation. Providers, exporters and instruments of the OpenTelemetry library are described by what they
  are created from; whether their creation fails is a parameter. Map options are lists with distinct keys in the order in
  which \<open>range\<close> visits them.
\<close>

subsection \<open>Options of the manager\<close>

record RetryConfig =
  Enabled :: bool
  InitialInterval :: duration
  MaxInterval :: duration
  MaxElapsedTime :: duration

definition DefaultRetryConfig :: RetryConfig where
  "DefaultRetryConfig =
     \<lparr>Enabled = True, InitialInterval = 5 * 1000000000, MaxInterval = 30 * 1000000000, MaxElapsedTime = 60 * 1000000000\<rparr>"

datatype aggregation = ExplicitBuckets "u64 list" | Base2Exponential int int

text \<open>A view: the name and the meter it asks for (empty for any), always of a histogram, and what it makes of it.\<close>

record view =
  criteria_name :: gostr
  criteria_scope :: gostr
  aggregation :: aggregation

record tracerProviderConfig =
  traces_enabled :: bool
  traces_global :: bool
  samplingRate :: u64
  textMapPropagator :: "gostr option"
  customSpanExporter :: "nat option"
  withSyncer :: bool
  withOTLPHTTP :: bool

record meterProviderConfig =
  meters_enabled :: bool
  meters_global :: bool
  exportsInterval :: "64 word"
  views :: "view list"
  defaultHistogramBuckets :: "view option"
  grpcEndpoint :: "gostr option"
  prometheusRegisterer :: "nat option"

record manager_config =
  retryConfig :: "RetryConfig option"
  withInsecure :: bool
  tracesEndpoint :: gostr
  tracerProvider_config :: tracerProviderConfig
  meterProvider_config :: meterProviderConfig

definition no_config :: manager_config where
  "no_config =
     \<lparr>retryConfig = None, withInsecure = False, tracesEndpoint = [],
      tracerProvider_config = \<lparr>traces_enabled = False, traces_global = False, samplingRate = 0, textMapPropagator = None,
        customSpanExporter = None, withSyncer = False, withOTLPHTTP = False\<rparr>,
      meterProvider_config = \<lparr>meters_enabled = False, meters_global = False, exportsInterval = 0, views = [],
        defaultHistogramBuckets = None, grpcEndpoint = None, prometheusRegisterer = None\<rparr>\<rparr>"

type_synonym tracer_option = "tracerProviderConfig \<Rightarrow> tracerProviderConfig"
type_synonym meter_option = "meterProviderConfig \<Rightarrow> meterProviderConfig"
type_synonym manager_option = "manager_config \<Rightarrow> manager_config"

definition apply_options :: "('a \<Rightarrow> 'a) list \<Rightarrow> 'a \<Rightarrow> 'a" where
  "apply_options opts a = fold (\<lambda>opt a. opt a) opts a"

definition WithRetryConfig :: "RetryConfig \<Rightarrow> manager_option" where
  "WithRetryConfig rc cf = cf\<lparr>retryConfig := Some rc\<rparr>"

definition WithInsecure :: manager_option where
  "WithInsecure cf = cf\<lparr>withInsecure := True\<rparr>"

definition WithTextMapPropagator :: "gostr \<Rightarrow> manager_option" where
  "WithTextMapPropagator tmp cf = cf\<lparr>tracerProvider_config := (tracerProvider_config cf)\<lparr>textMapPropagator := Some tmp\<rparr>\<rparr>"

definition WithCustomTracerProvider :: "nat \<Rightarrow> tracer_option list \<Rightarrow> manager_option" where
  "WithCustomTracerProvider se opts cf =
     cf\<lparr>tracerProvider_config :=
       apply_options opts ((tracerProvider_config cf)\<lparr>traces_enabled := True, customSpanExporter := Some se\<rparr>)\<rparr>"

definition WithTracerProvider :: "gostr \<Rightarrow> tracer_option list \<Rightarrow> manager_option" where
  "WithTracerProvider endpoint opts cf =
     cf\<lparr>tracesEndpoint := endpoint,
        tracerProvider_config := apply_options opts ((tracerProvider_config cf)\<lparr>traces_enabled := True\<rparr>)\<rparr>"

definition WithTracingSamplingRate :: "u64 \<Rightarrow> tracer_option" where
  "WithTracingSamplingRate rate t = t\<lparr>samplingRate := rate\<rparr>"

definition WithTracingSyncer :: tracer_option where
  "WithTracingSyncer t = t\<lparr>withSyncer := True\<rparr>"

definition WithOTLPHTTP :: tracer_option where
  "WithOTLPHTTP t = t\<lparr>withOTLPHTTP := True\<rparr>"

definition WithGlobalTracerProvider :: tracer_option where
  "WithGlobalTracerProvider t = t\<lparr>traces_global := True\<rparr>"

definition WithMeterProvider :: "meter_option list \<Rightarrow> manager_option" where
  "WithMeterProvider opts cf =
     cf\<lparr>meterProvider_config := apply_options opts ((meterProvider_config cf)\<lparr>meters_enabled := True\<rparr>)\<rparr>"

definition WithGlobalMeterProvider :: meter_option where
  "WithGlobalMeterProvider m = m\<lparr>meters_global := True\<rparr>"

definition WithGRPCMeterProvider :: "gostr \<Rightarrow> meter_option" where
  "WithGRPCMeterProvider endpoint m = m\<lparr>grpcEndpoint := Some endpoint\<rparr>"

definition WithMeterProviderExportsInterval :: "64 word \<Rightarrow> meter_option" where
  "WithMeterProviderExportsInterval interval m = m\<lparr>exportsInterval := interval\<rparr>"

definition WithPrometheusExporter :: "nat option \<Rightarrow> meter_option" where
  "WithPrometheusExporter registerer m = m\<lparr>prometheusRegisterer := registerer\<rparr>"

definition WithDefaultHistogramBucketBoundaries :: "u64 list \<Rightarrow> meter_option" where
  "WithDefaultHistogramBucketBoundaries boundaries m =
     m\<lparr>defaultHistogramBuckets := Some \<lparr>criteria_name = [], criteria_scope = [], aggregation = ExplicitBuckets boundaries\<rparr>\<rparr>"

definition WithHistogramBucketBoundaries :: "gostr \<Rightarrow> gostr \<Rightarrow> u64 list \<Rightarrow> meter_option" where
  "WithHistogramBucketBoundaries instrumentName meterName boundaries m =
     m\<lparr>views := views m @
       [\<lparr>criteria_name = instrumentName, criteria_scope = meterName, aggregation = ExplicitBuckets boundaries\<rparr>]\<rparr>"

definition WithDefaultExponentialHistogram :: "int \<Rightarrow> int \<Rightarrow> meter_option" where
  "WithDefaultExponentialHistogram maxSize maxScale m =
     m\<lparr>defaultHistogramBuckets :=
       Some \<lparr>criteria_name = [], criteria_scope = [], aggregation = Base2Exponential maxSize maxScale\<rparr>\<rparr>"

definition WithExponentialHistogram :: "gostr \<Rightarrow> gostr \<Rightarrow> int \<Rightarrow> int \<Rightarrow> meter_option" where
  "WithExponentialHistogram instrumentName meterName maxSize maxScale m =
     m\<lparr>views := views m @
       [\<lparr>criteria_name = instrumentName, criteria_scope = meterName, aggregation = Base2Exponential maxSize maxScale\<rparr>]\<rparr>"

subsection \<open>The manager\<close>

datatype trace_exporter = CustomExporter nat | HTTPExporter gostr bool | GRPCExporter gostr RetryConfig bool

record tracer_provider =
  exporter :: trace_exporter
  tracer_resource :: tags
  sampling :: u64
  batched :: bool

datatype metric_exporter = PrometheusExporter nat | OTLPExporter gostr RetryConfig bool "64 word"

record meter_provider =
  meter_exporter :: metric_exporter
  meter_resource :: tags
  meter_views :: "view list"

record otel_manager =
  man_tp :: "tracer_provider option"
  man_mp :: "meter_provider option"
  global_tp :: "tracer_provider option"
  global_mp :: "meter_provider option"
  global_propagator :: "gostr option"

definition buildTracerProvider :: "manager_config \<Rightarrow> tags \<Rightarrow> trace_exporter \<Rightarrow> tracer_provider" where
  "buildTracerProvider cf res e =
     \<lparr>exporter = e, tracer_resource = res, sampling = samplingRate (tracerProvider_config cf),
      batched = (\<not> withSyncer (tracerProvider_config cf))\<rparr>"

definition getMeterProviderOptions :: "manager_config \<Rightarrow> view list" where
  "getMeterProviderOptions cf =
     views (meterProvider_config cf) @
       (case defaultHistogramBuckets (meterProvider_config cf) of None \<Rightarrow> [] | Some w \<Rightarrow> [w])"

text \<open>\<open>metric_err\<close> and \<open>trace_err\<close> say whether the library can create an exporter.\<close>

definition buildMeterProvider :: "(metric_exporter \<Rightarrow> gostr option) \<Rightarrow> RetryConfig \<Rightarrow> manager_config \<Rightarrow> tags \<Rightarrow> gostr + meter_provider" where
  "buildMeterProvider metric_err rc cf res =
     (case (grpcEndpoint (meterProvider_config cf), prometheusRegisterer (meterProvider_config cf)) of
        (None, None) \<Rightarrow> Inl (lit ''no grpc endpoint or prometheus registerer to initialize meter provider'')
      | (Some _, Some _) \<Rightarrow> Inl (lit ''cannot initialize meter provider with both grpc endpoint and prometheus registerer'')
      | (None, Some r) \<Rightarrow>
          (case metric_err (PrometheusExporter r) of
             Some e \<Rightarrow> Inl (lit ''prometheus: failed to create metric exporter: '' @ e)
           | None \<Rightarrow>
               Inr \<lparr>meter_exporter = PrometheusExporter r, meter_resource = res, meter_views = getMeterProviderOptions cf\<rparr>)
      | (Some ep, None) \<Rightarrow>
          (let ex = OTLPExporter ep rc (withInsecure cf) (exportsInterval (meterProvider_config cf)) in
           case metric_err ex of
             Some e \<Rightarrow> Inl (lit ''otlp: failed to create metric exporter: '' @ e)
           | None \<Rightarrow> Inr \<lparr>meter_exporter = ex, meter_resource = res, meter_views = getMeterProviderOptions cf\<rparr>))"

definition trace_exporter_of :: "RetryConfig \<Rightarrow> manager_config \<Rightarrow> trace_exporter" where
  "trace_exporter_of rc cf =
     (case customSpanExporter (tracerProvider_config cf) of
        Some se \<Rightarrow> CustomExporter se
      | None \<Rightarrow>
          if withOTLPHTTP (tracerProvider_config cf) then HTTPExporter (tracesEndpoint cf) (withInsecure cf)
          else GRPCExporter (tracesEndpoint cf) rc (withInsecure cf))"

definition trace_failure :: "trace_exporter \<Rightarrow> gostr \<Rightarrow> gostr" where
  "trace_failure ex e =
     (case ex of HTTPExporter _ _ \<Rightarrow> lit ''creating otlp http trace exporter: '' @ e
      | _ \<Rightarrow> lit ''failed to create trace exporter: '' @ e)"

definition Setup_tracer :: "(trace_exporter \<Rightarrow> gostr option) \<Rightarrow> RetryConfig \<Rightarrow> manager_config \<Rightarrow> tags \<Rightarrow> otel_manager \<Rightarrow>
  gostr + otel_manager" where
  "Setup_tracer trace_err rc cf res m =
     (let t = tracerProvider_config cf; ex = trace_exporter_of rc cf; tp = buildTracerProvider cf res ex in
      if \<not> traces_enabled t then Inr m
      else if customSpanExporter t = None \<and> trace_err ex \<noteq> None then Inl (trace_failure ex (the (trace_err ex)))
      else Inr (m\<lparr>man_tp := Some tp,
                  global_propagator := (if textMapPropagator t = None then global_propagator m else textMapPropagator t),
                  global_tp := (if traces_global t then Some tp else global_tp m)\<rparr>))"

definition Setup :: "(trace_exporter \<Rightarrow> gostr option) \<Rightarrow> (metric_exporter \<Rightarrow> gostr option) \<Rightarrow> tags \<Rightarrow> manager_option list \<Rightarrow>
  otel_manager \<Rightarrow> (gostr + tracer_provider option \<times> meter_provider option) \<times> otel_manager" where
  "Setup trace_err metric_err res opts m =
     (let cf = apply_options opts no_config;
          rc = (case retryConfig cf of None \<Rightarrow> DefaultRetryConfig | Some r \<Rightarrow> r);
          mc = meterProvider_config cf
      in if \<not> traces_enabled (tracerProvider_config cf) \<and> \<not> meters_enabled mc
         then (Inl (lit ''no trace provider or meter provider to initialize''), m)
         else
           (case Setup_tracer trace_err rc cf res m of
              Inl e \<Rightarrow> (Inl e, m)
            | Inr m1 \<Rightarrow>
                if \<not> meters_enabled mc then (Inr (man_tp m1, man_mp m1), m1)
                else (case buildMeterProvider metric_err rc cf res of
                        Inl e \<Rightarrow> (Inl e, m1\<lparr>man_mp := None\<rparr>)
                      | Inr mp \<Rightarrow>
                          (let m2 = m1\<lparr>man_mp := Some mp, global_mp := (if meters_global mc then Some mp else global_mp m1)\<rparr>
                           in (Inr (man_tp m2, man_mp m2), m2)))))"

text \<open>\<open>Shutdown\<close>: the results of the providers in the order in which they end, unless the context is done before;
  also whether the goroutine that waits for them stays blocked on its channel for ever.\<close>

definition man_Shutdown :: "gostr option \<Rightarrow> gostr option list \<Rightarrow> gostr option \<times> bool" where
  "man_Shutdown ctx_err results =
     (case ctx_err of
        Some e \<Rightarrow> (Some e, True)
      | None \<Rightarrow> (case filter (\<lambda>r. r \<noteq> None) results of [] \<Rightarrow> None | r # _ \<Rightarrow> r, False))"

text \<open>Where the context is done first, the waiting goroutine is never released: nobody receives from the channel.\<close>

lemma man_Shutdown_leaks: "snd (man_Shutdown (Some e) results)"
  by (simp add: man_Shutdown_def)

text \<open>Exactly when the set-up succeeds.\<close>

lemma Setup_ok:
  fixes opts :: "manager_option list"
  defines "cf \<equiv> apply_options opts no_config"
  defines "rc \<equiv> (case retryConfig cf of None \<Rightarrow> DefaultRetryConfig | Some r \<Rightarrow> r)"
  shows "(\<exists>p. fst (Setup trace_err metric_err res opts m) = Inr p) \<longleftrightarrow>
     (traces_enabled (tracerProvider_config cf) \<or> meters_enabled (meterProvider_config cf)) \<and>
     (traces_enabled (tracerProvider_config cf) \<longrightarrow>
        customSpanExporter (tracerProvider_config cf) \<noteq> None \<or> trace_err (trace_exporter_of rc cf) = None) \<and>
     (meters_enabled (meterProvider_config cf) \<longrightarrow> (\<exists>mp. buildMeterProvider metric_err rc cf res = Inr mp))"
  unfolding Setup_def Setup_tracer_def Let_def cf_def[symmetric] rc_def[symmetric]
  by (auto split: sum.splits)

subsection \<open>Settings\<close>

record periodicStatsConfig =
  periodic_enabled :: bool
  statsCollectionInterval :: "64 word"
  enableCPUStats :: bool
  enableMemStats :: bool
  enableGCStats :: bool

record statsConfig =
  stats_enabled :: bool
  serviceName :: gostr
  serviceVersion :: gostr
  instanceName :: gostr
  namespaceIdentifier :: gostr
  excludedTags :: "gostr list"
  periodic_config :: periodicStatsConfig
  default_buckets :: "u64 list"
  histogramBuckets :: "(gostr \<times> u64 list) list"
  stats_registerer :: "nat option"
  stats_gatherer :: "nat option"
  useExponentialHistogram :: bool
  exponentialHistogramMaxSize :: int
  exponentialHistogramMaxScale :: int
  exponentialHistograms :: "(gostr \<times> int) list"

type_synonym stats_option = "statsConfig \<Rightarrow> statsConfig"

definition WithServiceName :: "gostr \<Rightarrow> stats_option" where
  "WithServiceName nm cf = cf\<lparr>serviceName := nm\<rparr>"

definition WithServiceVersion :: "gostr \<Rightarrow> stats_option" where
  "WithServiceVersion ver cf = cf\<lparr>serviceVersion := ver\<rparr>"

definition WithDefaultHistogramBuckets :: "u64 list \<Rightarrow> stats_option" where
  "WithDefaultHistogramBuckets buckets cf = cf\<lparr>default_buckets := buckets\<rparr>"

definition WithHistogramBuckets :: "gostr \<Rightarrow> u64 list \<Rightarrow> stats_option" where
  "WithHistogramBuckets nm buckets cf = cf\<lparr>histogramBuckets := AList.update nm buckets (histogramBuckets cf)\<rparr>"

definition StatsWithDefaultExponentialHistogram :: "int \<Rightarrow> stats_option" where
  "StatsWithDefaultExponentialHistogram maxSize cf =
     cf\<lparr>useExponentialHistogram := True, exponentialHistogramMaxSize := maxSize\<rparr>"

definition StatsWithExponentialHistogram :: "gostr \<Rightarrow> int \<Rightarrow> stats_option" where
  "StatsWithExponentialHistogram nm maxSize cf =
     cf\<lparr>exponentialHistograms := AList.update nm maxSize (exponentialHistograms cf)\<rparr>"

definition WithExponentialHistogramMaxScale :: "int \<Rightarrow> stats_option" where
  "WithExponentialHistogramMaxScale maxScale cf = cf\<lparr>exponentialHistogramMaxScale := maxScale\<rparr>"

definition WithPrometheusRegistry :: "nat option \<Rightarrow> nat option \<Rightarrow> stats_option" where
  "WithPrometheusRegistry registerer gatherer cf = cf\<lparr>stats_registerer := registerer, stats_gatherer := gatherer\<rparr>"

record otelStatsConfig =
  oc_tracesEndpoint :: gostr
  tracingSamplingRate :: u64
  withTracingSyncer :: bool
  oc_withOTLPHTTP :: bool
  metricsEndpoint :: gostr
  metricsExportInterval :: "64 word"
  enablePrometheusExporter :: bool
  prometheusMetricsPort :: "64 word"

record statsdConfig =
  tagsFormat :: gostr
  statsdServerURL :: gostr
  statsd_samplingRate :: u32
  statsd_instanceName :: gostr
  statsd_namespace :: gostr
  statsd_serviceName :: gostr
  statsd_serviceVersion :: gostr

datatype new_stats = OtelStats statsConfig otelStatsConfig nat nat | StatsdStats statsConfig statsdConfig

text \<open>The registry \<open>0\<close> is the default one. \<open>f32\<close> rounds a float, \<open>KUBE_NAMESPACE\<close> is read from the environment.\<close>

definition stats_config_of :: "golib \<Rightarrow> gostr \<Rightarrow> stats_option list \<Rightarrow> config \<Rightarrow> statsConfig \<times> config" where
  "stats_config_of L namespace opts c0 =
     (let (ex, c1) = GetStringSliceVar L [] [lit ''statsExcludedTags''] c0;
          (en, c2) = GetBoolVar L True [lit ''enableStats''] c1;
          (inst, c3) = GetStringVar L [] [lit ''INSTANCE_ID''] c2;
          (pe, c4) = GetBoolVar L True [lit ''RuntimeStats.enabled''] c3;
          (ci, c5) = GetInt64Var L 10 1 [lit ''RuntimeStats.statsCollectionInterval''] c4;
          (cpu, c6) = GetBoolVar L True [lit ''RuntimeStats.enableCPUStats''] c5;
          (mem, c7) = GetBoolVar L True [lit ''RuntimeStats.enabledMemStats''] c6;
          (gc, c8) = GetBoolVar L True [lit ''RuntimeStats.enableGCStats''] c7
      in (apply_options opts
            \<lparr>stats_enabled = en, serviceName = [], serviceVersion = [], instanceName = inst, namespaceIdentifier = namespace,
             excludedTags = ex,
             periodic_config = \<lparr>periodic_enabled = pe, statsCollectionInterval = ci, enableCPUStats = cpu, enableMemStats = mem,
               enableGCStats = gc\<rparr>,
             default_buckets = [], histogramBuckets = [], stats_registerer = None, stats_gatherer = None,
             useExponentialHistogram = False, exponentialHistogramMaxSize = 0, exponentialHistogramMaxScale = 0,
             exponentialHistograms = []\<rparr>, c8))"

definition otel_config_of :: "golib \<Rightarrow> config \<Rightarrow> otelStatsConfig \<times> config" where
  "otel_config_of L c0 =
     (let (te, c1) = GetStringVar L [] [lit ''OpenTelemetry.traces.endpoint''] c0;
          (sr, c2) = GetFloat64Var L 0x3FB999999999999A [lit ''OpenTelemetry.traces.samplingRate''] c1;
          (sy, c3) = GetBoolVar L False [lit ''OpenTelemetry.traces.withSyncer''] c2;
          (ht, c4) = GetBoolVar L False [lit ''OpenTelemetry.traces.withOTLPHTTP''] c3;
          (me, c5) = GetStringVar L [] [lit ''OpenTelemetry.metrics.endpoint''] c4;
          (ei, c6) = GetDurationVar L 5 1000000000 [lit ''OpenTelemetry.metrics.exportInterval''] c5;
          (pr, c7) = GetBoolVar L False [lit ''OpenTelemetry.metrics.prometheus.enabled''] c6;
          (po, c8) = GetIntVar L 0 1 [lit ''OpenTelemetry.metrics.prometheus.port''] c7
      in (\<lparr>oc_tracesEndpoint = te, tracingSamplingRate = sr, withTracingSyncer = sy, oc_withOTLPHTTP = ht, metricsEndpoint = me,
           metricsExportInterval = ei, enablePrometheusExporter = pr, prometheusMetricsPort = po\<rparr>, c8))"

definition NewStats :: "golib \<Rightarrow> (u64 \<Rightarrow> u32) \<Rightarrow> gostr \<Rightarrow> stats_option list \<Rightarrow> config \<Rightarrow> new_stats \<times> config" where
  "NewStats L f32 namespace opts c0 =
     (let (sc, c1) = stats_config_of L namespace opts c0;
          (otel, c2) = GetBoolVar L False [lit ''OpenTelemetry.enabled''] c1
      in if otel
         then (case otel_config_of L c2 of (oc, c3) \<Rightarrow>
                 (OtelStats sc oc (case stats_registerer sc of None \<Rightarrow> 0 | Some r \<Rightarrow> r) (case stats_gatherer sc of None \<Rightarrow> 0 | Some g \<Rightarrow> g), c3))
         else
           (let (tf, c3) = GetStringVar L (lit ''influxdb'') [lit ''statsTagsFormat''] c2;
                (url, c4) = GetStringVar L (lit ''localhost:8125'') [lit ''STATSD_SERVER_URL''] c3;
                (sr, c5) = GetFloat64Var L float_one [lit ''statsSamplingRate''] c4
            in (StatsdStats sc
                  \<lparr>tagsFormat = tf, statsdServerURL = url, statsd_samplingRate = f32 sr, statsd_instanceName = instanceName sc,
                   statsd_namespace = namespaceIdentifier sc, statsd_serviceName = serviceName sc,
                   statsd_serviceVersion = serviceVersion sc\<rparr>, c5)))"

definition statsdDefaultTags :: "statsdConfig \<Rightarrow> gostr list" where
  "statsdDefaultTags sc =
     concat (map (\<lambda>(k, x). if x = [] then [] else [lit k, x])
       [(''instanceName'', statsd_instanceName sc), (''namespace'', statsd_namespace sc),
        (''service_name'', statsd_serviceName sc), (''service_version'', statsd_serviceVersion sc)])"

datatype tags_format = Datadog | InfluxDB

definition statsdTagsFormat :: "statsdConfig \<Rightarrow> tags_format" where
  "statsdTagsFormat sc = (if tagsFormat sc = lit ''datadog'' then Datadog else InfluxDB)"

text \<open>The collector of the runtime in both implementations; its pause wraps like the multiplication does.\<close>

definition runtime_collector :: "periodicStatsConfig \<Rightarrow> runtimeStatsCollector" where
  "runtime_collector p =
     \<lparr>PauseDur = sint (statsCollectionInterval p * 1000000000), EnableCPU = enableCPUStats p, EnableMem = enableMemStats p,
      EnableGC = enableGCStats p\<rparr>"

text \<open>An interval of 0 makes the goroutine panic, and with it the program.\<close>

lemma zero_interval_panics: "\<not> snd (runtime_run (runtime_collector (p\<lparr>statsCollectionInterval := 0\<rparr>)) r rs)"
  by (simp add: runtime_run_def runtime_collector_def)

subsection \<open>The start with OpenTelemetry\<close>

definition histogram_options :: "statsConfig \<Rightarrow> meter_option list" where
  "histogram_options sc =
     (if useExponentialHistogram sc
      then [WithDefaultExponentialHistogram (exponentialHistogramMaxSize sc) (exponentialHistogramMaxScale sc)]
      else if default_buckets sc \<noteq> [] then [WithDefaultHistogramBucketBoundaries (default_buckets sc)] else []) @
     map (\<lambda>(nm, maxSize). WithExponentialHistogram nm [] maxSize (exponentialHistogramMaxScale sc)) (exponentialHistograms sc) @
     map (\<lambda>(nm, buckets). WithHistogramBucketBoundaries nm [] buckets)
       (filter (\<lambda>(nm, buckets). map_of (exponentialHistograms sc) nm = None) (histogramBuckets sc))"

definition start_meter_options :: "statsConfig \<Rightarrow> otelStatsConfig \<Rightarrow> meter_option list" where
  "start_meter_options sc oc = WithMeterProviderExportsInterval (metricsExportInterval oc) # histogram_options sc"

definition start_attrs :: "(rune \<Rightarrow> bool) \<Rightarrow> statsConfig \<Rightarrow> tags" where
  "start_attrs word_rune sc =
     (if instanceName sc = [] then [] else [(sanitizeTagKey word_rune (lit ''instanceName''), instanceName sc)]) @
     (if namespaceIdentifier sc = [] then [] else [(sanitizeTagKey word_rune (lit ''namespace''), namespaceIdentifier sc)])"

definition start_options :: "statsConfig \<Rightarrow> otelStatsConfig \<Rightarrow> nat \<Rightarrow> manager_option list" where
  "start_options sc oc registerer =
     [WithInsecure] @
     (if oc_tracesEndpoint oc = [] then []
      else [WithTracerProvider (oc_tracesEndpoint oc)
              (WithTracingSamplingRate (tracingSamplingRate oc) #
               (if withTracingSyncer oc then [WithTracingSyncer] else []) @ (if oc_withOTLPHTTP oc then [WithOTLPHTTP] else [])),
            WithTextMapPropagator (lit ''tracecontext,baggage'')]) @
     (if metricsEndpoint oc \<noteq> [] then [WithMeterProvider (start_meter_options sc oc @ [WithGRPCMeterProvider (metricsEndpoint oc)])]
      else if enablePrometheusExporter oc
      then [WithMeterProvider (start_meter_options sc oc @ [WithPrometheusExporter (Some registerer)])]
      else [])"

definition start_config :: "statsConfig \<Rightarrow> otelStatsConfig \<Rightarrow> nat \<Rightarrow> manager_config" where
  "start_config sc oc registerer = apply_options (start_options sc oc registerer) no_config"

text \<open>Which view a histogram gets: the first that matches. The library takes a name without wildcards literally, an empty
  one for any; \<open>glob\<close> is its treatment of wildcards.\<close>

definition view_matches :: "(gostr \<Rightarrow> gostr \<Rightarrow> bool) \<Rightarrow> gostr \<Rightarrow> view \<Rightarrow> bool" where
  "view_matches glob nm w \<longleftrightarrow> criteria_name w = [] \<or>
     (if 42 \<in> set (criteria_name w) \<or> 63 \<in> set (criteria_name w) then glob (criteria_name w) nm else criteria_name w = nm)"

definition effective_aggregation :: "(gostr \<Rightarrow> gostr \<Rightarrow> bool) \<Rightarrow> gostr \<Rightarrow> view list \<Rightarrow> aggregation option" where
  "effective_aggregation glob nm ws = map_option aggregation (find (view_matches glob nm) ws)"

definition plain_name :: "gostr \<Rightarrow> bool" where
  "plain_name nm \<longleftrightarrow> nm \<noteq> [] \<and> 42 \<notin> set nm \<and> 63 \<notin> set nm"

lemma apply_options_append [simp]: "apply_options (xs @ ys) a = apply_options ys (apply_options xs a)"
  by (simp add: apply_options_def)

lemma apply_options_Cons [simp]: "apply_options (x # xs) a = apply_options xs (x a)"
  by (simp add: apply_options_def)

lemma apply_options_Nil [simp]: "apply_options [] a = a"
  by (simp add: apply_options_def)

definition name_views :: "statsConfig \<Rightarrow> view list" where
  "name_views sc =
     map (\<lambda>(nm, maxSize). \<lparr>criteria_name = nm, criteria_scope = [], aggregation = Base2Exponential maxSize (exponentialHistogramMaxScale sc)\<rparr>)
       (exponentialHistograms sc) @
     map (\<lambda>(nm, buckets). \<lparr>criteria_name = nm, criteria_scope = [], aggregation = ExplicitBuckets buckets\<rparr>)
       (filter (\<lambda>(nm, buckets). map_of (exponentialHistograms sc) nm = None) (histogramBuckets sc))"

definition default_view :: "statsConfig \<Rightarrow> view option" where
  "default_view sc =
     (if useExponentialHistogram sc
      then Some \<lparr>criteria_name = [], criteria_scope = [],
        aggregation = Base2Exponential (exponentialHistogramMaxSize sc) (exponentialHistogramMaxScale sc)\<rparr>
      else if default_buckets sc = [] then None
      else Some \<lparr>criteria_name = [], criteria_scope = [], aggregation = ExplicitBuckets (default_buckets sc)\<rparr>)"

lemma exponential_options:
  "apply_options (map (\<lambda>(nm, s). WithExponentialHistogram nm [] s sca) xs) m =
     m\<lparr>views := views m @ map (\<lambda>(nm, s). \<lparr>criteria_name = nm, criteria_scope = [], aggregation = Base2Exponential s sca\<rparr>) xs\<rparr>"
  by (induction xs arbitrary: m) (auto simp: WithExponentialHistogram_def)

lemma bucket_options:
  "apply_options (map (\<lambda>(nm, b). WithHistogramBucketBoundaries nm [] b) xs) m =
     m\<lparr>views := views m @ map (\<lambda>(nm, b). \<lparr>criteria_name = nm, criteria_scope = [], aggregation = ExplicitBuckets b\<rparr>) xs\<rparr>"
  by (induction xs arbitrary: m) (auto simp: WithHistogramBucketBoundaries_def)

lemma start_meter_config:
  "views (apply_options (start_meter_options sc oc) m) = views m @ name_views sc"
  "defaultHistogramBuckets (apply_options (start_meter_options sc oc) m) =
     (case default_view sc of None \<Rightarrow> defaultHistogramBuckets m | Some w \<Rightarrow> Some w)"
  "grpcEndpoint (apply_options (start_meter_options sc oc) m) = grpcEndpoint m"
  "prometheusRegisterer (apply_options (start_meter_options sc oc) m) = prometheusRegisterer m"
  "meters_enabled (apply_options (start_meter_options sc oc) m) = meters_enabled m"
  by (simp_all add: start_meter_options_def histogram_options_def name_views_def default_view_def exponential_options
      bucket_options WithMeterProviderExportsInterval_def WithDefaultExponentialHistogram_def
      WithDefaultHistogramBucketBoundaries_def)

definition measured :: "otelStatsConfig \<Rightarrow> bool" where
  "measured oc \<longleftrightarrow> metricsEndpoint oc \<noteq> [] \<or> enablePrometheusExporter oc"

lemma start_meter:
  "meters_enabled (meterProvider_config (start_config sc oc r)) = measured oc"
  "getMeterProviderOptions (start_config sc oc r) =
     (if measured oc then name_views sc @ (case default_view sc of None \<Rightarrow> [] | Some w \<Rightarrow> [w]) else [])"
  "grpcEndpoint (meterProvider_config (start_config sc oc r)) = (if metricsEndpoint oc = [] then None else Some (metricsEndpoint oc))"
  "prometheusRegisterer (meterProvider_config (start_config sc oc r)) =
     (if metricsEndpoint oc = [] \<and> enablePrometheusExporter oc then Some r else None)"
  by (auto simp: start_config_def start_options_def measured_def WithMeterProvider_def WithInsecure_def WithTracerProvider_def
      WithTextMapPropagator_def no_config_def start_meter_config getMeterProviderOptions_def WithGRPCMeterProvider_def
      WithPrometheusExporter_def split: option.splits)

lemma find_view:
  assumes "list_all (\<lambda>(k, x). plain_name k) xs" "\<And>k x. criteria_name (f k x) = k"
  shows "find (view_matches glob nm) (map (\<lambda>(k, x). f k x) xs) = map_option (f nm) (map_of xs nm)"
  using assms(1)
proof (induction xs)
  case (Cons kx xs)
  obtain k x where kx: "kx = (k, x)" by (cases kx)
  have p: "plain_name k" using Cons.prems by (simp add: kx)
  have "view_matches glob nm (f k x) \<longleftrightarrow> k = nm"
    using p assms(2)[of k x] by (auto simp: view_matches_def plain_name_def)
  then show ?case using Cons by (simp add: kx)
qed simp

lemma find_append: "find P (xs @ ys) = (case find P xs of None \<Rightarrow> find P ys | Some x \<Rightarrow> Some x)"
  by (induction xs) auto

lemma map_of_filter_key: "map_of (filter (\<lambda>(k, b). P k) xs) k = (if P k then map_of xs k else None)"
  by (induction xs) auto

text \<open>Every histogram is aggregated as the settings say, in whatever order the maps are visited: exponentially with its
  own size if it is configured so, else with its own buckets, else with the exponential default, else with the default
  buckets, else as the library does.\<close>

lemma histogram_precedence:
  assumes "measured oc" "list_all (\<lambda>(k, x). plain_name k) (exponentialHistograms sc)"
    "list_all (\<lambda>(k, x). plain_name k) (histogramBuckets sc)"
  shows "effective_aggregation glob nm (getMeterProviderOptions (start_config sc oc r)) =
     (case map_of (exponentialHistograms sc) nm of
        Some s \<Rightarrow> Some (Base2Exponential s (exponentialHistogramMaxScale sc))
      | None \<Rightarrow>
          (case map_of (histogramBuckets sc) nm of
             Some b \<Rightarrow> Some (ExplicitBuckets b)
           | None \<Rightarrow>
               if useExponentialHistogram sc
               then Some (Base2Exponential (exponentialHistogramMaxSize sc) (exponentialHistogramMaxScale sc))
               else if default_buckets sc = [] then None else Some (ExplicitBuckets (default_buckets sc))))"
proof -
  let ?E = "\<lambda>k s. \<lparr>criteria_name = k, criteria_scope = [], aggregation = Base2Exponential s (exponentialHistogramMaxScale sc)\<rparr>"
  let ?B = "\<lambda>k b. \<lparr>criteria_name = k, criteria_scope = [], aggregation = ExplicitBuckets b\<rparr>"
  let ?fs = "filter (\<lambda>(k, b). map_of (exponentialHistograms sc) k = None) (histogramBuckets sc)"
  have e: "find (view_matches glob nm) (map (\<lambda>(k, s). ?E k s) (exponentialHistograms sc)) =
      map_option (?E nm) (map_of (exponentialHistograms sc) nm)"
    by (rule find_view[OF assms(2)]) simp
  have "list_all (\<lambda>(k, x). plain_name k) ?fs" using assms(3) by (auto simp: list_all_iff)
  then have b: "find (view_matches glob nm) (map (\<lambda>(k, b). ?B k b) ?fs) = map_option (?B nm) (map_of ?fs nm)"
    by (rule find_view) simp
  have d: "find (view_matches glob nm) (case default_view sc of None \<Rightarrow> [] | Some w \<Rightarrow> [w]) = default_view sc"
    by (auto simp: default_view_def view_matches_def)
  have "find (view_matches glob nm) (getMeterProviderOptions (start_config sc oc r)) =
      (case map_of (exponentialHistograms sc) nm of
         Some s \<Rightarrow> Some (?E nm s)
       | None \<Rightarrow> (case map_of (histogramBuckets sc) nm of Some b \<Rightarrow> Some (?B nm b) | None \<Rightarrow> default_view sc))"
    using assms(1) e b d map_of_filter_key[of "\<lambda>k. map_of (exponentialHistograms sc) k = None" "histogramBuckets sc" nm]
    by (auto simp: start_meter name_views_def find_append split: option.split)
  then show ?thesis by (auto simp: effective_aggregation_def default_view_def split: option.split)
qed

definition demo_stats_config :: statsConfig where
  "demo_stats_config =
     \<lparr>stats_enabled = True, serviceName = [], serviceVersion = [], instanceName = [], namespaceIdentifier = [], excludedTags = [],
      periodic_config = \<lparr>periodic_enabled = True, statsCollectionInterval = 10, enableCPUStats = True, enableMemStats = True,
        enableGCStats = True\<rparr>,
      default_buckets = [1, 2], histogramBuckets = [([97], [3]), ([98], [4])], stats_registerer = None, stats_gatherer = None,
      useExponentialHistogram = False, exponentialHistogramMaxSize = 0, exponentialHistogramMaxScale = 8,
      exponentialHistograms = [([97], 160)]\<rparr>"

definition demo_otel_config :: otelStatsConfig where
  "demo_otel_config =
     \<lparr>oc_tracesEndpoint = [], tracingSamplingRate = 0, withTracingSyncer = False, oc_withOTLPHTTP = False, metricsEndpoint = [],
      metricsExportInterval = 5000000000, enablePrometheusExporter = True, prometheusMetricsPort = 80\<rparr>"

lemma histogram_precedence_example:
  "map (\<lambda>nm. effective_aggregation (\<lambda>_ _. False) nm (getMeterProviderOptions (start_config demo_stats_config demo_otel_config 0)))
     [[97], [98], [99]] = [Some (Base2Exponential 160 8), Some (ExplicitBuckets [4]), Some (ExplicitBuckets [1, 2])]"
proof -
  have "measured demo_otel_config" by (simp add: measured_def demo_otel_config_def)
  moreover have "list_all (\<lambda>(k, x). plain_name k) (exponentialHistograms demo_stats_config)"
    "list_all (\<lambda>(k, x). plain_name k) (histogramBuckets demo_stats_config)"
    by (simp_all add: demo_stats_config_def plain_name_def)
  ultimately show ?thesis
    using histogram_precedence[of demo_otel_config demo_stats_config "\<lambda>_ _. False"] by (simp add: demo_stats_config_def)
qed

text \<open>The default that is exponential wins in either order of the two options, where the comment says the last one does.\<close>

lemma exponential_default_wins:
  "histogram_options (WithDefaultHistogramBuckets bs (StatsWithDefaultExponentialHistogram n sc)) =
   histogram_options (StatsWithDefaultExponentialHistogram n (WithDefaultHistogramBuckets bs sc))"
  "hd (histogram_options (WithDefaultHistogramBuckets bs (StatsWithDefaultExponentialHistogram n sc))) =
     WithDefaultExponentialHistogram n (exponentialHistogramMaxScale sc)"
  by (simp_all add: histogram_options_def WithDefaultHistogramBuckets_def StatsWithDefaultExponentialHistogram_def)

subsection \<open>Instruments and measurements\<close>

datatype meter = GlobalMeter | ProviderMeter meter_provider | NoopMeter

datatype instrument_kind = Int64Counter | Float64Histogram | Float64ObservableGauge

record instrument =
  instr_meter :: meter
  instr_kind :: instrument_kind
  instr_name :: gostr

datatype 'a otel_measurement =
    NoOp stat_type
  | OtelCounter instrument 'a
  | OtelGauge nat
  | OtelTimer instrument 'a
  | OtelHistogram instrument 'a

record tracer =
  tracer_of :: "tracer_provider option"
  tracer_name :: gostr
  tracer_attrs :: tags

record ('a, 'd) otel_stats =
  os_config :: statsConfig
  os_otel :: otelStatsConfig
  os_registerer :: nat
  resourceAttrs :: "gostr list"
  traceBaseAttributes :: tags
  tracerProvider :: "tracer_provider option"
  os_meter :: meter
  counters :: "gostr \<rightharpoonup> instrument"
  timers :: "gostr \<rightharpoonup> instrument"
  histograms :: "gostr \<rightharpoonup> instrument"
  gauges :: "(gostr \<times> 'd \<Rightarrow> nat option) \<times> nat"
  gauge_objects :: "nat \<Rightarrow> (instrument \<times> 'a) option"
  tracerMap :: "gostr \<rightharpoonup> tracer"
  otelManager :: otel_manager
  httpServer :: "64 word option"
  collecting :: bool

definition new_otel :: "statsConfig \<Rightarrow> otelStatsConfig \<Rightarrow> nat \<Rightarrow> ('a, 'd) otel_stats" where
  "new_otel sc oc r =
     \<lparr>os_config = sc, os_otel = oc, os_registerer = r, resourceAttrs = [], traceBaseAttributes = [], tracerProvider = None,
      os_meter = GlobalMeter, counters = Map.empty, timers = Map.empty, histograms = Map.empty, gauges = (Map.empty, 0),
      gauge_objects = Map.empty, tracerMap = Map.empty,
      otelManager = \<lparr>man_tp = None, man_mp = None, global_tp = None, global_mp = None, global_propagator = None\<rparr>,
      httpServer = None, collecting = False\<rparr>"

text \<open>\<open>inst_ok\<close> says whether a meter can create an instrument; else the no-op meter does.\<close>

definition make_instrument :: "(meter \<Rightarrow> instrument_kind \<Rightarrow> gostr \<Rightarrow> bool) \<Rightarrow> meter \<Rightarrow> instrument_kind \<Rightarrow> gostr \<Rightarrow> instrument" where
  "make_instrument inst_ok mtr k nm = \<lparr>instr_meter = (if inst_ok mtr k nm then mtr else NoopMeter), instr_kind = k, instr_name = nm\<rparr>"

definition buildOTelInstrument :: "(meter \<Rightarrow> instrument_kind \<Rightarrow> gostr \<Rightarrow> bool) \<Rightarrow> meter \<Rightarrow> instrument_kind \<Rightarrow> gostr \<Rightarrow>
  (gostr \<rightharpoonup> instrument) \<Rightarrow> instrument \<times> (gostr \<rightharpoonup> instrument)" where
  "buildOTelInstrument inst_ok mtr k nm m =
     (case m nm of
        Some i \<Rightarrow> (i, m)
      | None \<Rightarrow> (let i = make_instrument inst_ok mtr k nm in (i, m(nm \<mapsto> i))))"

text \<open>A gauge gets its number from the cache of gauges; a new one also its instrument, with the callback.\<close>

definition os_getGauge :: "(meter \<Rightarrow> instrument_kind \<Rightarrow> gostr \<Rightarrow> bool) \<Rightarrow> ('a \<Rightarrow> 'd) \<Rightarrow> gostr \<Rightarrow> 'a \<Rightarrow> ('a, 'd) otel_stats \<Rightarrow>
  nat \<times> ('a, 'd) otel_stats" where
  "os_getGauge inst_ok Equivalent nm attrs st =
     (case getGauge Equivalent (nm, attrs) (gauges st) of
        (g, gs) \<Rightarrow>
          (g, if fst (gauges st) (nm, Equivalent attrs) \<noteq> None then st
              else st\<lparr>gauges := gs,
                gauge_objects := (gauge_objects st)(g \<mapsto> (make_instrument inst_ok (os_meter st) Float64ObservableGauge nm, attrs))\<rparr>))"

text \<open>\<open>None\<close> is the panic for an unknown type. The parameters of the tags are those of \<open>canonicalMeasurementIdentity\<close>.\<close>

definition getMeasurement :: "(rune \<Rightarrow> bool) \<Rightarrow> (tags \<Rightarrow> 'a) \<Rightarrow> ('a \<Rightarrow> 'd) \<Rightarrow> (meter \<Rightarrow> instrument_kind \<Rightarrow> gostr \<Rightarrow> bool) \<Rightarrow> gostr \<Rightarrow>
  stat_type \<Rightarrow> tags \<Rightarrow> ('a, 'd) otel_stats \<Rightarrow> ('a otel_measurement \<times> ('a, 'd) otel_stats) option" where
  "getMeasurement word_rune NewSet Equivalent inst_ok nm0 ty ts st =
     (if \<not> stats_enabled (os_config st) then
        (case ty of OtherType _ \<Rightarrow> None | _ \<Rightarrow> Some (NoOp ty, st))
      else
        (case canonicalMeasurementIdentity word_rune NewSet (excludedTags (os_config st)) (resourceAttrs st) nm0 ts of
           (nm, attrs) \<Rightarrow>
             (case ty of
                CountType \<Rightarrow>
                  (case buildOTelInstrument inst_ok (os_meter st) Int64Counter nm (counters st) of
                     (i, m) \<Rightarrow> Some (OtelCounter i attrs, st\<lparr>counters := m\<rparr>))
              | GaugeType \<Rightarrow> (case os_getGauge inst_ok Equivalent nm attrs st of (g, st1) \<Rightarrow> Some (OtelGauge g, st1))
              | TimerType \<Rightarrow>
                  (case buildOTelInstrument inst_ok (os_meter st) Float64Histogram nm (timers st) of
                     (i, m) \<Rightarrow> Some (OtelTimer i attrs, st\<lparr>timers := m\<rparr>))
              | HistogramType \<Rightarrow>
                  (case buildOTelInstrument inst_ok (os_meter st) Float64Histogram nm (histograms st) of
                     (i, m) \<Rightarrow> Some (OtelHistogram i attrs, st\<lparr>histograms := m\<rparr>))
              | OtherType _ \<Rightarrow> None)))"

text \<open>A call of a measurement: what it records, nothing for one that is disabled, or a panic for one of another type.\<close>

datatype ('a, 'v) recorded = Added instrument "64 word" 'a | RecordedFloat instrument u64 'a | RecordedTime instrument duration 'a | Stored nat 'v

fun measurement_type :: "'a otel_measurement \<Rightarrow> stat_type" where
  "measurement_type (NoOp ty) = ty"
| "measurement_type (OtelCounter _ _) = CountType"
| "measurement_type (OtelGauge _) = GaugeType"
| "measurement_type (OtelTimer _ _) = TimerType"
| "measurement_type (OtelHistogram _ _) = HistogramType"

fun record_op :: "'a otel_measurement \<Rightarrow> 'v op \<Rightarrow> ('a, 'v) recorded option" where
  "record_op (OtelCounter i a) (Count n) = Some (Added i n a)"
| "record_op (OtelCounter i a) Increment = Some (Added i 1 a)"
| "record_op (OtelGauge g) (Gauge x) = Some (Stored g x)"
| "record_op (OtelTimer i a) (SendTiming d) = Some (RecordedTime i d a)"
| "record_op (OtelHistogram i a) (Observe x) = Some (RecordedFloat i x a)"
| "record_op _ _ = None"

definition otel_call :: "'a otel_measurement \<Rightarrow> 'v op \<Rightarrow> ('a, 'v) recorded option option" where
  "otel_call m op = (if op_type op \<noteq> measurement_type m then None else Some (record_op m op))"

lemma otel_call_records: "op_type op = measurement_type m \<Longrightarrow> (\<exists>r. otel_call m op = Some (Some r)) \<longleftrightarrow> (\<forall>ty. m \<noteq> NoOp ty)"
  by (cases m; cases op) (auto simp: otel_call_def)

subsection \<open>Start, stop and tracers\<close>

text \<open>\<open>res_err\<close> says whether the library can create the resource.\<close>

definition otel_Start :: "(rune \<Rightarrow> bool) \<Rightarrow> (tags \<Rightarrow> gostr option) \<Rightarrow> (trace_exporter \<Rightarrow> gostr option) \<Rightarrow>
  (metric_exporter \<Rightarrow> gostr option) \<Rightarrow> ('a, 'd) otel_stats \<Rightarrow> gostr option \<times> ('a, 'd) otel_stats" where
  "otel_Start word_rune res_err trace_err metric_err st =
     (let sc = os_config st; oc = os_otel st; attrs = start_attrs word_rune sc;
          res = [(lit ''service.name'', serviceName sc), (lit ''service.version'', serviceVersion sc)] @ attrs;
          st1 = st\<lparr>resourceAttrs := map fst attrs\<rparr>
      in if \<not> stats_enabled sc then (None, st)
         else case res_err res of
           Some e \<Rightarrow> (Some (lit ''failed to create open telemetry resource: '' @ e), st1)
         | None \<Rightarrow>
             (let st2 = (if oc_tracesEndpoint oc = [] then st1 else st1\<lparr>traceBaseAttributes := attrs\<rparr>) in
              case Setup trace_err metric_err res (start_options sc oc (os_registerer st)) (otelManager st) of
                (Inl e, m) \<Rightarrow> (Some (lit ''failed to setup open telemetry: '' @ e), st2\<lparr>otelManager := m\<rparr>)
              | (Inr (tp, mp), m) \<Rightarrow>
                  (None, st2\<lparr>otelManager := m,
                     tracerProvider := (if tp = None then tracerProvider st else tp),
                     os_meter := (case mp of None \<Rightarrow> NoopMeter | Some p \<Rightarrow> ProviderMeter p),
                     httpServer := (if enablePrometheusExporter oc \<and> 0 < sint (prometheusMetricsPort oc)
                                    then Some (prometheusMetricsPort oc) else httpServer st),
                     collecting := True\<rparr>)))"

text \<open>The steps of a stop, in their order.\<close>

datatype stop_step = ShutdownProviders | StopCollection | WaitMetrics | WaitRuntime | ShutdownServer | WaitServer

definition otel_Stop :: "('a, 'd) otel_stats \<Rightarrow> stop_step list" where
  "otel_Stop st =
     (if \<not> stats_enabled (os_config st) then []
      else [ShutdownProviders, StopCollection] @ (if collecting st then [WaitMetrics] else []) @
        (if collecting st \<and> periodic_enabled (periodic_config (os_config st)) then [WaitRuntime] else []) @
        (if httpServer st = None then [] else [ShutdownServer, WaitServer]))"

definition NewTracer :: "gostr \<Rightarrow> ('a, 'd) otel_stats \<Rightarrow> tracer \<times> ('a, 'd) otel_stats" where
  "NewTracer nm st =
     (case tracerMap st nm of
        Some t \<Rightarrow> (t, st)
      | None \<Rightarrow>
          (let t = \<lparr>tracer_of = tracerProvider st, tracer_name = nm,
                    tracer_attrs = traceBaseAttributes st @
                      (if serviceName (os_config st) = [] then [] else [(lit ''service.name'', serviceName (os_config st))])\<rparr>
           in (t, st\<lparr>tracerMap := (tracerMap st)(nm \<mapsto> t)\<rparr>)))"

subsection \<open>Which provider a measurement reaches\<close>

text \<open>Requests of measurements; one of an unknown type panics and is left out.\<close>

definition request :: "(rune \<Rightarrow> bool) \<Rightarrow> (tags \<Rightarrow> 'a) \<Rightarrow> ('a \<Rightarrow> 'd) \<Rightarrow> (meter \<Rightarrow> instrument_kind \<Rightarrow> gostr \<Rightarrow> bool) \<Rightarrow>
  gostr \<times> stat_type \<times> tags \<Rightarrow> ('a, 'd) otel_stats \<Rightarrow> ('a, 'd) otel_stats" where
  "request word_rune NewSet Equivalent inst_ok r st =
     (case getMeasurement word_rune NewSet Equivalent inst_ok (fst r) (fst (snd r)) (snd (snd r)) st of
        None \<Rightarrow> st | Some (m, st1) \<Rightarrow> st1)"

definition canonical_name :: "gostr \<Rightarrow> gostr" where
  "canonical_name nm = (if blank nm then lit ''novalue'' else nm)"

definition asked :: "stat_type \<Rightarrow> gostr \<Rightarrow> (gostr \<times> stat_type \<times> tags) list \<Rightarrow> bool" where
  "asked ty nm rs \<longleftrightarrow> list_ex (\<lambda>r. fst (snd r) = ty \<and> canonical_name (fst r) = nm) rs"

fun cache_of :: "stat_type \<Rightarrow> ('a, 'd) otel_stats \<Rightarrow> gostr \<rightharpoonup> instrument" where
  "cache_of CountType st = counters st"
| "cache_of TimerType st = timers st"
| "cache_of HistogramType st = histograms st"
| "cache_of _ st = Map.empty"

fun kind_of :: "stat_type \<Rightarrow> instrument_kind" where
  "kind_of CountType = Int64Counter"
| "kind_of GaugeType = Float64ObservableGauge"
| "kind_of _ = Float64Histogram"

definition cached_type :: "stat_type \<Rightarrow> bool" where
  "cached_type ty \<longleftrightarrow> ty \<in> {CountType, TimerType, HistogramType}"

lemma os_getGauge_keeps:
  "os_meter (snd (os_getGauge inst_ok Equivalent nm a st)) = os_meter st"
  "os_config (snd (os_getGauge inst_ok Equivalent nm a st)) = os_config st"
  "counters (snd (os_getGauge inst_ok Equivalent nm a st)) = counters st"
  "timers (snd (os_getGauge inst_ok Equivalent nm a st)) = timers st"
  "histograms (snd (os_getGauge inst_ok Equivalent nm a st)) = histograms st"
  by (simp_all add: os_getGauge_def split: prod.split)

lemma canonicalMeasurementIdentity_name:
  "canonicalMeasurementIdentity w NewSet ex ra nm ts = (canonical_name nm, NewSet (otel_attrs w ex ra ts))"
  by (simp add: canonicalMeasurementIdentity_def canonical_name_def)

text \<open>A request, by its type.\<close>

lemma request_types:
  assumes "stats_enabled (os_config st)"
  shows "request w NewSet Equivalent inst_ok (nm, CountType, ts) st =
      st\<lparr>counters := snd (buildOTelInstrument inst_ok (os_meter st) Int64Counter (canonical_name nm) (counters st))\<rparr>"
    "request w NewSet Equivalent inst_ok (nm, TimerType, ts) st =
      st\<lparr>timers := snd (buildOTelInstrument inst_ok (os_meter st) Float64Histogram (canonical_name nm) (timers st))\<rparr>"
    "request w NewSet Equivalent inst_ok (nm, HistogramType, ts) st =
      st\<lparr>histograms := snd (buildOTelInstrument inst_ok (os_meter st) Float64Histogram (canonical_name nm) (histograms st))\<rparr>"
    "request w NewSet Equivalent inst_ok (nm, GaugeType, ts) st =
      snd (os_getGauge inst_ok Equivalent (canonical_name nm)
        (NewSet (otel_attrs w (excludedTags (os_config st)) (resourceAttrs st) ts)) st)"
    "request w NewSet Equivalent inst_ok (nm, OtherType t, ts) st = st"
  using assms by (simp_all add: request_def getMeasurement_def canonicalMeasurementIdentity_name split: prod.split)

lemma request_keeps:
  assumes "stats_enabled (os_config st)"
  shows "os_meter (request w NewSet Equivalent inst_ok r st) = os_meter st"
    "os_config (request w NewSet Equivalent inst_ok r st) = os_config st"
proof -
  obtain nm t ts where r: "r = (nm, t, ts)" by (cases r) auto
  show "os_meter (request w NewSet Equivalent inst_ok r st) = os_meter st"
    "os_config (request w NewSet Equivalent inst_ok r st) = os_config st"
    unfolding r by (cases t; simp add: request_types[OF assms] os_getGauge_keeps)+
qed

lemma buildOTelInstrument_cache:
  "snd (buildOTelInstrument inst_ok mtr k nm m) n =
     (case m n of Some i \<Rightarrow> Some i | None \<Rightarrow> if n = nm then Some (make_instrument inst_ok mtr k nm) else None)"
  by (simp add: buildOTelInstrument_def Let_def split: option.split)

lemma request_cache:
  assumes "stats_enabled (os_config st)" "cached_type ty"
  shows "cache_of ty (request w NewSet Equivalent inst_ok r st) nm =
    (case cache_of ty st nm of
       Some i \<Rightarrow> Some i
     | None \<Rightarrow> if asked ty nm [r] then Some (make_instrument inst_ok (os_meter st) (kind_of ty) nm) else None)"
proof -
  obtain n t ts where r: "r = (n, t, ts)" by (cases r) auto
  have ty: "ty = CountType \<or> ty = TimerType \<or> ty = HistogramType" using assms(2) by (auto simp: cached_type_def)
  show ?thesis unfolding r
    by (cases t; rule disjE[OF ty]; (elim disjE)?)
      (simp_all add: request_types[OF assms(1)] os_getGauge_keeps buildOTelInstrument_cache asked_def split: option.split)
qed

definition requests :: "(rune \<Rightarrow> bool) \<Rightarrow> (tags \<Rightarrow> 'a) \<Rightarrow> ('a \<Rightarrow> 'd) \<Rightarrow> (meter \<Rightarrow> instrument_kind \<Rightarrow> gostr \<Rightarrow> bool) \<Rightarrow>
  (gostr \<times> stat_type \<times> tags) list \<Rightarrow> ('a, 'd) otel_stats \<Rightarrow> ('a, 'd) otel_stats" where
  "requests word_rune NewSet Equivalent inst_ok rs st = fold (request word_rune NewSet Equivalent inst_ok) rs st"

lemma requests_cache:
  assumes "stats_enabled (os_config st)" "cached_type ty"
  shows "cache_of ty (requests w NewSet Equivalent inst_ok rs st) nm =
    (case cache_of ty st nm of
       Some i \<Rightarrow> Some i
     | None \<Rightarrow> if asked ty nm rs then Some (make_instrument inst_ok (os_meter st) (kind_of ty) nm) else None)
    \<and> os_meter (requests w NewSet Equivalent inst_ok rs st) = os_meter st
    \<and> os_config (requests w NewSet Equivalent inst_ok rs st) = os_config st"
  using assms(1)
proof (induction rs arbitrary: st)
  case (Cons r rs)
  let ?st = "request w NewSet Equivalent inst_ok r st"
  have s: "stats_enabled (os_config ?st)" using Cons.prems by (simp add: request_keeps[OF Cons.prems])
  have a: "asked ty nm (r # rs) = (asked ty nm [r] \<or> asked ty nm rs)" by (simp add: asked_def)
  show ?case using Cons.IH[OF s] request_cache[OF Cons.prems assms(2), of w NewSet Equivalent inst_ok r nm]
    by (simp add: requests_def request_keeps[OF Cons.prems] a split: option.splits)
qed (simp add: requests_def asked_def split: option.split)

text \<open>The instrument of a measurement.\<close>

fun instrument_of :: "'a otel_measurement \<Rightarrow> instrument option" where
  "instrument_of (OtelCounter i _) = Some i"
| "instrument_of (OtelTimer i _) = Some i"
| "instrument_of (OtelHistogram i _) = Some i"
| "instrument_of _ = None"

definition asked_instrument where
  "asked_instrument word_rune NewSet Equivalent inst_ok nm ty ts st =
     Option.bind (getMeasurement word_rune NewSet Equivalent inst_ok nm ty ts st) (\<lambda>(m, st1). instrument_of m)"

lemma asked_instrument_cache:
  assumes "stats_enabled (os_config st)" "cached_type ty"
  shows "asked_instrument w NewSet Equivalent inst_ok nm ty ts st =
    (case cache_of ty st (canonical_name nm) of
       Some i \<Rightarrow> Some i | None \<Rightarrow> Some (make_instrument inst_ok (os_meter st) (kind_of ty) (canonical_name nm)))"
proof -
  have "ty = CountType \<or> ty = TimerType \<or> ty = HistogramType" using assms(2) by (auto simp: cached_type_def)
  then show ?thesis using assms(1)
    by (elim disjE) (simp_all add: asked_instrument_def getMeasurement_def buildOTelInstrument_def
        canonicalMeasurementIdentity_name Let_def split: option.split)
qed

lemma otel_Start_ok:
  assumes "otel_Start w res_err trace_err metric_err st = (None, st')" "stats_enabled (os_config st)"
  shows "os_config st' = os_config st" "counters st' = counters st" "timers st' = timers st" "histograms st' = histograms st"
    and "os_meter st' = (case man_mp (otelManager st') of None \<Rightarrow> NoopMeter | Some p \<Rightarrow> ProviderMeter p)"
proof -
  obtain tp mp m where s: "Setup trace_err metric_err
      ([(lit ''service.name'', serviceName (os_config st)), (lit ''service.version'', serviceVersion (os_config st))] @
        start_attrs w (os_config st)) (start_options (os_config st) (os_otel st) (os_registerer st)) (otelManager st) = (Inr (tp, mp), m)"
    using assms by (auto simp: otel_Start_def Let_def split: option.splits sum.splits prod.splits if_splits)
  then have "mp = man_mp m" by (auto simp: Setup_def Let_def split: if_splits sum.splits)
  then show "os_config st' = os_config st" "counters st' = counters st" "timers st' = timers st" "histograms st' = histograms st"
    "os_meter st' = (case man_mp (otelManager st') of None \<Rightarrow> NoopMeter | Some p \<Rightarrow> ProviderMeter p)"
    using assms s by (auto simp: otel_Start_def Let_def split: option.splits if_splits)
qed


definition demo_meter_provider :: meter_provider where
  "demo_meter_provider =
     \<lparr>meter_exporter = PrometheusExporter 0, meter_resource = [(lit ''service.name'', []), (lit ''service.version'', [])],
      meter_views = getMeterProviderOptions (start_config demo_stats_config demo_otel_config 0)\<rparr>"

lemma demo_start:
  "\<exists>st. otel_Start (\<lambda>_. True) (\<lambda>_. None) (\<lambda>_. None) (\<lambda>_. None)
      (requests (\<lambda>_. True) id id (\<lambda>_ _ _. True) [([97], CountType, [])] (new_otel demo_stats_config demo_otel_config 0)) = (None, st)
     \<and> man_mp (otelManager st) = Some demo_meter_provider"
proof -
  let ?cf = "start_config demo_stats_config demo_otel_config 0"
  have m: "measured demo_otel_config" by (simp add: measured_def demo_otel_config_def)
  have t: "\<not> traces_enabled (tracerProvider_config ?cf)"
    by (simp add: start_config_def start_options_def demo_otel_config_def WithMeterProvider_def WithInsecure_def no_config_def)
  have b: "buildMeterProvider (\<lambda>_. None) rc ?cf [(lit ''service.name'', []), (lit ''service.version'', [])] = Inr demo_meter_provider" for rc
    using m by (simp add: buildMeterProvider_def start_meter demo_otel_config_def demo_meter_provider_def)
  have e: "stats_enabled (os_config (new_otel demo_stats_config demo_otel_config 0))" by (simp add: new_otel_def demo_stats_config_def)
  let ?st = "requests (\<lambda>_. True) id id (\<lambda>_ _ _. True) [([97], CountType, [])] (new_otel demo_stats_config demo_otel_config 0)"
  have c: "os_config ?st = demo_stats_config" "os_otel ?st = demo_otel_config" "os_registerer ?st = 0"
    unfolding requests_def fold.simps comp_def id_apply request_types[OF e] by (simp_all add: new_otel_def)
  have "start_attrs (\<lambda>_. True) demo_stats_config = []" by (simp add: start_attrs_def demo_stats_config_def)
  then show ?thesis using t b m
    by (simp add: otel_Start_def c Setup_def Setup_tracer_def start_config_def[symmetric] start_meter Let_def)
       (simp add: demo_stats_config_def)
qed


text \<open>A stop shuts the providers down before the collection ends: the zeroes that end it are not exported any more.\<close>

lemma zeroes_after_shutdown:
  "stats_enabled (os_config st) \<Longrightarrow> take 2 (otel_Stop st) = [ShutdownProviders, StopCollection]"
  by (simp add: otel_Stop_def)

text \<open>A tracer that was made before the start stays one of the no-op provider.\<close>

lemma NewTracer_cached: "fst (NewTracer nm (snd (NewTracer nm st))) = fst (NewTracer nm st)"
  by (simp add: NewTracer_def Let_def split: option.split)

lemma early_tracer:
  "otel_Start w re te me (snd (NewTracer nm (new_otel sc oc r))) = (err, st) \<Longrightarrow> tracer_of (fst (NewTracer nm st)) = None"
  by (auto simp: NewTracer_def otel_Start_def new_otel_def Let_def split: option.splits sum.splits prod.splits if_splits)

text \<open>With both an endpoint and the Prometheus exporter the port is served, but nothing is exported to its registry.\<close>

lemma both_exporters:
  assumes "metricsEndpoint oc \<noteq> []" "enablePrometheusExporter oc"
  shows "prometheusRegisterer (meterProvider_config (start_config sc oc r)) = None"
  using assms by (simp add: start_meter)

subsection \<open>Spans\<close>

record spanConfig =
  span_tags :: tags
  span_timestamp :: gotime

datatype span_option = SpanWithTags tags | SpanWithTimestamp gotime

definition span_config :: "span_option list \<Rightarrow> spanConfig" where
  "span_config opts =
     fold (\<lambda>opt sc. case opt of SpanWithTags ts \<Rightarrow> sc\<lparr>span_tags := ts\<rparr> | SpanWithTimestamp t \<Rightarrow> sc\<lparr>span_timestamp := t\<rparr>) opts
       \<lparr>span_tags = [], span_timestamp = zero_time\<rparr>"

datatype library_option = WithAttributes tags | WithTimestamp gotime | WithSpanKind nat

text \<open>Kind 0 is the unspecified one.\<close>

definition event_options :: "span_option list \<Rightarrow> library_option list" where
  "event_options opts =
     (let sc = span_config opts in
      (if span_tags sc = [] then [] else [WithAttributes (span_tags sc)]) @
      (if span_timestamp sc = zero_time then [] else [WithTimestamp (span_timestamp sc)]))"

definition start_span_options :: "nat \<Rightarrow> span_option list \<Rightarrow> library_option list" where
  "start_span_options kind opts = event_options opts @ (if kind = 0 then [] else [WithSpanKind kind])"

end
