(* ===== verification/Remote_Clients.thy ===== *)
theory Remote_Clients
  imports Kit_Prelude
begin

text \<open>
  The packages \<open>kafkaclient\<close> and \<open>sftp\<close>: how they set their libraries up, what they send, receive and acknowledge, when they
  retry. What the libraries answer is given by arguments.
\<close>

subsection \<open>Kafka: settings\<close>

definition ScramPlainText :: byte where "ScramPlainText = 0"

definition ScramSHA256 :: byte where "ScramSHA256 = 1"

definition ScramSHA512 :: byte where "ScramSHA512 = 2"

text \<open>\<open>None\<close> is the panic.\<close>

definition scram_String :: "byte \<Rightarrow> gostr option" where
  "scram_String s =
     (if s = ScramPlainText then Some (lit ''plain'')
      else if s = ScramSHA256 then Some (lit ''sha256'')
      else if s = ScramSHA512 then Some (lit ''sha512'') else None)"

definition ScramHashGeneratorFromString :: "gostr \<Rightarrow> gostr + byte" where
  "ScramHashGeneratorFromString s =
     (if s = lit ''plain'' then Inr ScramPlainText
      else if s = lit ''sha256'' then Inr ScramSHA256
      else if s = lit ''sha512'' then Inr ScramSHA512
      else Inl (lit ''scram hash generator out of the known domain: '' @ s))"

lemma scram_roundtrip: "ScramHashGeneratorFromString s = Inr g \<longleftrightarrow> scram_String g = Some s"
  by (auto simp: ScramHashGeneratorFromString_def scram_String_def ScramPlainText_def ScramSHA256_def ScramSHA512_def lit_def)

record kafka_SSH =
  ssh_User :: gostr
  ssh_Host :: gostr
  ssh_PrivateKey :: gostr

record kafka_TLS =
  Cert :: "byte list"
  Key :: "byte list"
  CACertificate :: "byte list"
  WithSystemCertPool :: bool
  InsecureSkipVerify :: bool

record kafka_SASL =
  ScramHashGen :: byte
  Username :: gostr
  Password :: gostr

record kafka_config =
  ClientID :: gostr
  DialTimeout :: duration
  conf_TLS :: "kafka_TLS option"
  conf_SASL :: "kafka_SASL option"
  SSHConfig :: "kafka_SSH option"

definition config_defaults :: "kafka_config \<Rightarrow> kafka_config" where
  "config_defaults c = (if DialTimeout c < 1 then c\<lparr>DialTimeout := 10 * 1000000000\<rparr> else c)"

text \<open>What \<open>crypto/tls\<close> and \<open>crypto/x509\<close> answer.\<close>

record tls_library =
  system_pool_error :: "gostr option"
  append_ok :: "byte list \<Rightarrow> bool"
  key_pair_error :: "byte list \<Rightarrow> byte list \<Rightarrow> gostr option"

record tls_config =
  skip_verify :: bool
  system_roots :: bool
  added_roots :: "byte list option"
  key_pair :: "(byte list \<times> byte list) option"

definition TLS_build :: "tls_library \<Rightarrow> kafka_TLS \<Rightarrow> gostr + tls_config" where
  "TLS_build X c =
     (if CACertificate c = [] \<and> \<not> InsecureSkipVerify c \<and> \<not> WithSystemCertPool c
      then Inl (lit ''invalid TLS configuration, either provide certificates or skip validation'')
      else if WithSystemCertPool c \<and> system_pool_error X \<noteq> None
      then Inl (lit ''could not copy of the system cert pool: '' @ the (system_pool_error X))
      else if CACertificate c \<noteq> [] \<and> \<not> append_ok X (CACertificate c) then Inl (lit ''could not append certs from PEM'')
      else if Cert c \<noteq> [] \<and> Key c \<noteq> [] \<and> key_pair_error X (Cert c) (Key c) \<noteq> None
      then Inl (lit ''could not get TLS certificate: '' @ the (key_pair_error X (Cert c) (Key c)))
      else Inr \<lparr>skip_verify = InsecureSkipVerify c, system_roots = WithSystemCertPool c,
                added_roots = (if CACertificate c = [] then None else Some (CACertificate c)),
                key_pair = (if Cert c \<noteq> [] \<and> Key c \<noteq> [] then Some (Cert c, Key c) else None)\<rparr>)"

text \<open>A certificate without its key is dropped silently.\<close>

lemma certificate_without_key: "TLS_build X c = Inr t \<Longrightarrow> Key c = [] \<Longrightarrow> key_pair t = None"
  by (auto simp: TLS_build_def split: if_splits)

text \<open>A configuration that verifies nothing says so.\<close>

lemma TLS_build_verifies: "TLS_build X c = Inr t \<Longrightarrow> \<not> skip_verify t \<Longrightarrow> system_roots t \<or> added_roots t \<noteq> None"
  by (auto simp: TLS_build_def split: if_splits)

datatype sasl_mechanism = Plain gostr gostr | Scram byte gostr gostr

definition SASL_build :: "(byte \<Rightarrow> gostr \<Rightarrow> gostr \<Rightarrow> gostr option) \<Rightarrow> kafka_SASL \<Rightarrow> gostr + sasl_mechanism" where
  "SASL_build scram_err c =
     (if ScramHashGen c = ScramPlainText then Inr (Plain (Username c) (Password c))
      else if ScramHashGen c = ScramSHA256 \<or> ScramHashGen c = ScramSHA512
      then (case scram_err (ScramHashGen c) (Username c) (Password c) of
              Some e \<Rightarrow> Inl e | None \<Rightarrow> Inr (Scram (ScramHashGen c) (Username c) (Password c)))
      else Inl (lit ''scram hash generator out of the known domain: %!v(PANIC=String method: scram hash generator out of the known domain '' @
        nat_str (unat (ScramHashGen c)) @ lit '')''))"

record dialer =
  dialer_ClientID :: gostr
  dialer_Timeout :: duration
  dialer_TLS :: "tls_config option"
  dialer_SASL :: "sasl_mechanism option"
  over_SSH :: "kafka_SSH option"

record kafka_client =
  network :: gostr
  addresses :: "gostr list"
  kdialer :: dialer
  kconfig :: kafka_config

record kafka_library =
  tls :: tls_library
  scram_error :: "byte \<Rightarrow> gostr \<Rightarrow> gostr \<Rightarrow> gostr option"
  private_key_error :: "gostr \<Rightarrow> gostr option"

definition optional :: "('a \<Rightarrow> gostr + 'b) \<Rightarrow> 'a option \<Rightarrow> gostr + 'b option" where
  "optional f x = (case x of None \<Rightarrow> Inr None | Some a \<Rightarrow> map_sum id Some (f a))"

definition kafka_New :: "kafka_library \<Rightarrow> gostr \<Rightarrow> gostr list \<Rightarrow> kafka_config \<Rightarrow> gostr + kafka_client" where
  "kafka_New K net addrs conf0 =
     (let conf = config_defaults conf0 in
      case optional (TLS_build (tls K)) (conf_TLS conf) of
        Inl e \<Rightarrow> Inl e
      | Inr t \<Rightarrow>
          (case optional (SASL_build (scram_error K)) (conf_SASL conf) of
             Inl e \<Rightarrow> Inl e
           | Inr s \<Rightarrow>
               (case Option.bind (SSHConfig conf) (\<lambda>c. private_key_error K (ssh_PrivateKey c)) of
                  Some e \<Rightarrow> Inl (lit ''cannot parse SSH private key: '' @ e)
                | None \<Rightarrow>
                    Inr \<lparr>network = net, addresses = addrs,
                         kdialer = \<lparr>dialer_ClientID = ClientID conf, dialer_Timeout = DialTimeout conf, dialer_TLS = t,
                           dialer_SASL = s, over_SSH = SSHConfig conf\<rparr>,
                         kconfig = conf\<rparr>)))"

definition cloud_TLS :: kafka_TLS where
  "cloud_TLS = \<lparr>Cert = [], Key = [], CACertificate = [], WithSystemCertPool = True, InsecureSkipVerify = False\<rparr>"

definition NewConfluentCloud :: "kafka_library \<Rightarrow> gostr list \<Rightarrow> gostr \<Rightarrow> gostr \<Rightarrow> kafka_config \<Rightarrow> gostr + kafka_client" where
  "NewConfluentCloud K addrs key secret conf =
     kafka_New K (lit ''tcp'') addrs
       (conf\<lparr>conf_SASL := Some \<lparr>ScramHashGen = ScramPlainText, Username = key, Password = secret\<rparr>, conf_TLS := Some cloud_TLS\<rparr>)"

definition NewAzureEventHubs :: "kafka_library \<Rightarrow> gostr list \<Rightarrow> gostr \<Rightarrow> kafka_config \<Rightarrow> gostr + kafka_client" where
  "NewAzureEventHubs K addrs connectionString conf =
     kafka_New K (lit ''tcp'') addrs
       (conf\<lparr>conf_SASL := Some \<lparr>ScramHashGen = ScramPlainText, Username = lit ''$ConnectionString'', Password = connectionString\<rparr>,
             conf_TLS := Some cloud_TLS\<rparr>)"

text \<open>\<open>dial\<close> gives the error of an address. The closing of the connection is not visible.\<close>

fun Ping_loop :: "(gostr \<Rightarrow> gostr option) \<Rightarrow> gostr option \<Rightarrow> gostr list \<Rightarrow> gostr option option" where
  "Ping_loop dial lastErr [] = Some lastErr"
| "Ping_loop dial lastErr (a # as) = (case dial a of None \<Rightarrow> None | Some e \<Rightarrow> Ping_loop dial (Some e) as)"

definition Ping :: "(gostr \<Rightarrow> gostr option) \<Rightarrow> kafka_client \<Rightarrow> gostr option" where
  "Ping dial c =
     (case Ping_loop dial None (addresses c) of
        None \<Rightarrow> None
      | Some e \<Rightarrow>
          Some (lit ''could not dial any of the addresses '' @ network c @ [47] @ Join (addresses c) [44] @ lit '': '' @
            (case e of None \<Rightarrow> lit ''%!w(<nil>)'' | Some m \<Rightarrow> m)))"

lemma Ping_loop_exact: "Ping_loop dial e as = None \<longleftrightarrow> (\<exists>a \<in> set as. dial a = None)"
  by (induction "as" arbitrary: e) (auto split: option.split)

lemma Ping_exact: "Ping dial c = None \<longleftrightarrow> (\<exists>a \<in> set (addresses c). dial a = None)"
  using Ping_loop_exact[of dial None "addresses c"] by (auto simp: Ping_def split: option.split)

subsection \<open>Kafka: messages\<close>

record message =
  msg_key :: "byte list"
  msg_value :: "byte list"
  Topic :: gostr
  Partition :: u32
  Offset :: int
  Headers :: "(gostr \<times> byte list) list"
  Timestamp :: gotime

record kafka_message =
  km_topic :: gostr
  km_partition :: "64 word"
  km_offset :: int
  km_key :: "byte list"
  km_value :: "byte list"
  km_headers :: "(gostr \<times> byte list) list"
  km_time :: gotime

definition to_kafka :: "message \<Rightarrow> kafka_message" where
  "to_kafka m =
     \<lparr>km_topic = Topic m, km_partition = 0, km_offset = 0, km_key = msg_key m, km_value = msg_value m, km_headers = Headers m,
      km_time = Timestamp m\<rparr>"

text \<open>\<open>Publish\<close>: the messages handed to the writer, or the error for the first one without a topic; none is written then.\<close>

fun publish_loop :: "nat \<Rightarrow> message list \<Rightarrow> gostr + kafka_message list" where
  "publish_loop i [] = Inr []"
| "publish_loop i (m # ms) =
     (if Topic m = [] then Inl (lit ''no topic provided for message '' @ nat_str i)
      else map_sum id ((#) (to_kafka m)) (publish_loop (i + 1) ms))"

definition Publish :: "(kafka_message list \<Rightarrow> gostr option) \<Rightarrow> message list \<Rightarrow> gostr option \<times> kafka_message list" where
  "Publish write ms = (case publish_loop 0 ms of Inl e \<Rightarrow> (Some e, []) | Inr ks \<Rightarrow> (write ks, ks))"

definition Receive :: "gostr + kafka_message \<Rightarrow> gostr + message" where
  "Receive r =
     map_sum id (\<lambda>k. \<lparr>msg_key = km_key k, msg_value = km_value k, Topic = km_topic k, Partition = ucast (km_partition k),
       Offset = km_offset k, Headers = km_headers k, Timestamp = km_time k\<rparr>) r"

definition Ack :: "message list \<Rightarrow> kafka_message list" where
  "Ack ms =
     map (\<lambda>m. \<lparr>km_topic = Topic m, km_partition = scast (Partition m), km_offset = Offset m, km_key = [], km_value = [],
       km_headers = [], km_time = zero_time\<rparr>) ms"

lemma publish_loop_exact:
  "publish_loop i ms =
     (if list_all (\<lambda>m. Topic m \<noteq> []) ms then Inr (map to_kafka ms)
      else Inl (lit ''no topic provided for message '' @ nat_str (i + length (takeWhile (\<lambda>m. Topic m \<noteq> []) ms))))"
  by (induction ms arbitrary: i) auto

text \<open>What the broker stores at some partition and offset is received with everything that was published, and acknowledged
  at that partition and offset where the partition fits in 31 bits.\<close>

definition stored :: "64 word \<Rightarrow> int \<Rightarrow> kafka_message \<Rightarrow> kafka_message" where
  "stored p off k = k\<lparr>km_partition := p, km_offset := off\<rparr>"

lemma Receive_published:
  "Receive (Inr (stored p off (to_kafka m))) = Inr (m\<lparr>Partition := ucast p, Offset := off\<rparr>)"
  by (simp add: Receive_def stored_def to_kafka_def)

lemma scast_ucast_small:
  assumes "unat (p :: 64 word) < 2 ^ 31"
  shows "(scast (ucast p :: u32) :: 64 word) = p"
proof -
  have "int (unat p) < int (2 ^ 31)" using assms by (simp only: of_nat_less_iff)
  then have u: "uint p < 2 ^ 31" by (simp only: of_nat_power of_nat_numeral uint_nat)
  have "uint p mod 2 ^ 32 = uint p" by (rule mod_pos_pos_trivial) (use u uint_ge_0[of p] in simp_all)
  then have u32: "uint (ucast p :: u32) = uint p" by (simp add: unsigned_ucast_eq take_bit_eq_mod)
  have "- (2 ^ 31) \<le> (0::int)" by simp
  then have "- (2 ^ 31) \<le> uint p" using uint_ge_0 by (rule order_trans)
  then have "sint (ucast p :: u32) = uint p"
    unfolding sint_uint u32 by (subst signed_take_bit_int_eq_self) (use u in simp_all)
  then show ?thesis unfolding scast_eq by simp
qed

lemma Ack_received:
  assumes "Receive (Inr k) = Inr m" "unat (km_partition k) < 2 ^ 31"
  shows "map (\<lambda>k. (km_topic k, km_partition k, km_offset k)) (Ack [m]) = [(km_topic k, km_partition k, km_offset k)]"
  using assms scast_ucast_small[OF assms(2)] by (auto simp: Receive_def Ack_def)

subsection \<open>Kafka: producers and consumers\<close>

record ProducerConfig =
  pc_ClientID :: gostr
  WriteTimeout :: duration
  ReadTimeout :: duration
  BatchTimeout :: duration
  BatchSize :: int
  BatchBytes :: int
  Compression :: nat

definition producer_defaults :: "ProducerConfig \<Rightarrow> ProducerConfig" where
  "producer_defaults c =
     c\<lparr>WriteTimeout := (if WriteTimeout c < 1 then 10 * 1000000000 else WriteTimeout c),
       ReadTimeout := (if ReadTimeout c < 1 then 10 * 1000000000 else ReadTimeout c),
       BatchTimeout := (if BatchTimeout c < 1 then 1 else BatchTimeout c),
       BatchSize := (if BatchSize c < 1 then 1 else BatchSize c)\<rparr>"

record producer =
  prod_config :: ProducerConfig
  transport_ClientID :: gostr
  transport_TLS :: "tls_config option"
  transport_SASL :: "sasl_mechanism option"
  transport_timeout :: duration
  transport_over_SSH :: "kafka_SSH option"
  writer_addrs :: "gostr list"
  MaxAttempts :: nat

definition NewProducer :: "kafka_library \<Rightarrow> ProducerConfig \<Rightarrow> kafka_client \<Rightarrow> gostr + producer" where
  "NewProducer K pc0 c =
     (let pc = producer_defaults pc0 in
      case optional (TLS_build (tls K)) (conf_TLS (kconfig c)) of
        Inl e \<Rightarrow> Inl (lit ''could not build TLS configuration: '' @ e)
      | Inr t \<Rightarrow>
          (case optional (SASL_build (scram_error K)) (conf_SASL (kconfig c)) of
             Inl e \<Rightarrow> Inl (lit ''could not build SASL configuration: '' @ e)
           | Inr s \<Rightarrow>
               Inr \<lparr>prod_config = pc,
                    transport_ClientID = (if pc_ClientID pc \<noteq> [] then pc_ClientID pc else ClientID (kconfig c)),
                    transport_TLS = t, transport_SASL = s, transport_timeout = DialTimeout (kconfig c),
                    transport_over_SSH = over_SSH (kdialer c), writer_addrs = addresses c, MaxAttempts = 3\<rparr>))"

text \<open>A client that could be made always gives a producer.\<close>

lemma NewProducer_ok: "kafka_New K net addrs conf = Inr c \<Longrightarrow> \<exists>p. NewProducer K pc c = Inr p \<and> writer_addrs p = addrs"
  by (auto simp: kafka_New_def NewProducer_def Let_def split: sum.splits option.splits)

text \<open>The result of a close: that of the library, unless the context is done first.\<close>

definition close_with :: "gostr option \<Rightarrow> gostr option \<Rightarrow> gostr option" where
  "close_with ctx_err closed = (case ctx_err of Some e \<Rightarrow> Some e | None \<Rightarrow> closed)"

text \<open>What \<open>errors.Is\<close>, \<open>errors.As\<close> and \<open>os.IsTimeout\<close> find in an error; the errors of a batch may be \<open>nil\<close>.\<close>

record error_info =
  transient_network :: bool
  Temporary :: "bool option"
  timed_out :: bool

definition isErrTemporary :: "error_info option \<Rightarrow> bool" where
  "isErrTemporary e =
     (case e of
        None \<Rightarrow> False
      | Some i \<Rightarrow> transient_network i \<or> (case Temporary i of Some b \<Rightarrow> b | None \<Rightarrow> timed_out i))"

datatype producer_error = WriteErrors "error_info option list" | SingleError "error_info option"

definition IsProducerErrTemporary :: "producer_error \<Rightarrow> bool" where
  "IsProducerErrTemporary e = (case e of WriteErrors es \<Rightarrow> list_ex isErrTemporary es | SingleError i \<Rightarrow> isErrTemporary i)"

text \<open>A timeout that says it is not temporary is not retried.\<close>

lemma timeout_not_temporary:
  "\<not> IsProducerErrTemporary (SingleError (Some \<lparr>transient_network = False, Temporary = Some False, timed_out = True\<rparr>))"
  by (simp add: IsProducerErrTemporary_def isErrTemporary_def)

record ConsumerConfig =
  GroupID :: gostr
  cons_Partition :: int
  StartOffset :: int
  CommitInterval :: duration
  FetchBatchesMaxWait :: duration

record reader_config =
  Brokers :: "gostr list"
  reader_Topic :: gostr
  reader_GroupID :: gostr
  reader_Partition :: int
  reader_CommitInterval :: duration
  MaxWait :: duration
  reader_StartOffset :: int

text \<open>The offsets of the library: \<open>-1\<close> is the last, \<open>-2\<close> the first; those of the kit are 0 and 1.\<close>

definition NewConsumer :: "gostr \<Rightarrow> ConsumerConfig \<Rightarrow> kafka_client \<Rightarrow> reader_config" where
  "NewConsumer topic conf c =
     \<lparr>Brokers = addresses c, reader_Topic = topic, reader_GroupID = GroupID conf, reader_Partition = cons_Partition conf,
      reader_CommitInterval = CommitInterval conf, MaxWait = FetchBatchesMaxWait conf,
      reader_StartOffset = (if StartOffset conf = 0 then - 1 else - 2)\<rparr>"

subsection \<open>SFTP\<close>

text \<open>An error, and whether a lost connection is among what it wraps.\<close>

record sftp_error =
  err_text :: gostr
  connection_lost :: bool

definition wrap :: "string \<Rightarrow> sftp_error \<Rightarrow> sftp_error" where
  "wrap s e = e\<lparr>err_text := lit s @ err_text e\<rparr>"

record sftp_config =
  HostName :: gostr
  Port :: int
  sftp_User :: gostr
  AuthMethod :: gostr
  sftp_PrivateKey :: gostr
  sftp_Password :: gostr

datatype auth_method = PasswordAuth gostr | KeyAuth gostr

definition sshClientConfig :: "(gostr \<Rightarrow> gostr option) \<Rightarrow> sftp_config option \<Rightarrow> gostr + (gostr \<times> auth_method)" where
  "sshClientConfig key_error config =
     (case config of
        None \<Rightarrow> Inl (lit ''config should not be nil'')
      | Some c \<Rightarrow>
          if HostName c = [] then Inl (lit ''hostname should not be empty'')
          else if Port c = 0 then Inl (lit ''port should not be empty'')
          else if sftp_User c = [] then Inl (lit ''user should not be empty'')
          else if AuthMethod c = lit ''passwordAuth'' then Inr (sftp_User c, PasswordAuth (sftp_Password c))
          else if AuthMethod c = lit ''keyAuth''
          then (case key_error (sftp_PrivateKey c) of
                  Some e \<Rightarrow> Inl (lit ''cannot parse private key: '' @ e) | None \<Rightarrow> Inr (sftp_User c, KeyAuth (sftp_PrivateKey c)))
          else Inl (lit ''unsupported authentication method''))"

text \<open>The operations of the remote side, over its state \<open>'s\<close>: a write opens the file, truncates it and copies the bytes; a
  read copies what it can before an error.\<close>

record 's sftp_client =
  MkdirAll :: "gostr \<Rightarrow> 's \<Rightarrow> sftp_error option \<times> 's"
  OpenWrite :: "gostr \<Rightarrow> 's \<Rightarrow> sftp_error option \<times> 's"
  CopyTo :: "gostr \<Rightarrow> byte list \<Rightarrow> 's \<Rightarrow> sftp_error option \<times> 's"
  OpenRead :: "gostr \<Rightarrow> 's \<Rightarrow> sftp_error option \<times> 's"
  CopyFrom :: "gostr \<Rightarrow> 's \<Rightarrow> (byte list \<times> sftp_error option) \<times> 's"
  Remove :: "gostr \<Rightarrow> 's \<Rightarrow> sftp_error option \<times> 's"
  ClientReset :: "'s \<Rightarrow> sftp_error option \<times> 's"

type_synonym 's world = "(gostr \<rightharpoonup> byte list) \<times> 's"

definition upload :: "'s sftp_client \<Rightarrow> gostr \<Rightarrow> gostr \<Rightarrow> 's world \<Rightarrow> sftp_error option \<times> 's world" where
  "upload C localFilePath remoteFilePath w =
     (case fst w localFilePath of
        None \<Rightarrow> (Some \<lparr>err_text = lit ''cannot open local file: open '' @ localFilePath @ lit '': no such file or directory'',
           connection_lost = False\<rparr>, w)
      | Some data \<Rightarrow>
          (case MkdirAll C (path_Dir remoteFilePath) (snd w) of
             (Some e, s) \<Rightarrow> (Some (wrap ''cannot create remote directory: '' e), fst w, s)
           | (None, s) \<Rightarrow>
               (case OpenWrite C remoteFilePath s of
                  (Some e, s) \<Rightarrow> (Some (wrap ''cannot create remote file: '' e), fst w, s)
                | (None, s) \<Rightarrow>
                    (case CopyTo C remoteFilePath data s of
                       (Some e, s) \<Rightarrow> (Some (wrap ''error copying file: '' e), fst w, s)
                     | (None, s) \<Rightarrow> (None, fst w, s)))))"

text \<open>\<open>create_error\<close> says whether a local file can be created.\<close>

definition download :: "'s sftp_client \<Rightarrow> (gostr \<Rightarrow> gostr option) \<Rightarrow> gostr \<Rightarrow> gostr \<Rightarrow> 's world \<Rightarrow> sftp_error option \<times> 's world" where
  "download C create_error remoteFilePath localDir w =
     (case OpenRead C remoteFilePath (snd w) of
        (Some e, s) \<Rightarrow> (Some (wrap ''cannot open remote file: '' e), fst w, s)
      | (None, s) \<Rightarrow>
          (let nm = path_Join [localDir, path_Base remoteFilePath] in
           case create_error nm of
             Some e \<Rightarrow> (Some \<lparr>err_text = lit ''cannot create local file: '' @ e, connection_lost = False\<rparr>, fst w, s)
           | None \<Rightarrow>
               (case CopyFrom C remoteFilePath s of
                  ((data, r), s) \<Rightarrow>
                    (map_option (wrap ''cannot copy remote file content to local file: '') r, (fst w)(nm \<mapsto> data), s))))"

definition sftp_delete :: "'s sftp_client \<Rightarrow> gostr \<Rightarrow> 's world \<Rightarrow> sftp_error option \<times> 's world" where
  "sftp_delete C remoteFilePath w =
     (case Remove C remoteFilePath (snd w) of (e, s) \<Rightarrow> (map_option (wrap ''cannot delete file: '') e, fst w, s))"

definition isConnectionLostError :: "sftp_error \<Rightarrow> bool" where
  "isConnectionLostError e = connection_lost e"

definition retryOnConnectionLost :: "'s sftp_client \<Rightarrow> ('s world \<Rightarrow> sftp_error option \<times> 's world) \<Rightarrow> 's world \<Rightarrow> sftp_error option \<times> 's world" where
  "retryOnConnectionLost C op w =
     (case op w of
        (None, w1) \<Rightarrow> (None, w1)
      | (Some e, w1) \<Rightarrow>
          if \<not> isConnectionLostError e then (Some e, w1)
          else (case ClientReset C (snd w1) of
                  (Some e1, s) \<Rightarrow> (Some e1, fst w1, s)
                | (None, s) \<Rightarrow> op (fst w1, s)))"

definition file_operation :: "'s sftp_client \<Rightarrow> bool \<Rightarrow> ('s world \<Rightarrow> sftp_error option \<times> 's world) \<Rightarrow> 's world \<Rightarrow> sftp_error option \<times> 's world" where
  "file_operation C retryOnIdleConnection op w = (if retryOnIdleConnection then retryOnConnectionLost C op w else op w)"

definition Upload where
  "Upload C retry localFilePath remoteFilePath = file_operation C retry (upload C localFilePath remoteFilePath)"

definition Download where
  "Download C retry create_error remoteFilePath localDir = file_operation C retry (download C create_error remoteFilePath localDir)"

definition sftp_Delete where
  "sftp_Delete C retry remoteFilePath = file_operation C retry (sftp_delete C remoteFilePath)"

text \<open>With the retry off, or where the first attempt neither fails nor loses the connection, an operation runs once.\<close>

lemma file_operation_once:
  "\<not> retry \<or> fst (op w) = None \<or> \<not> connection_lost (the (fst (op w))) \<Longrightarrow> file_operation C retry op w = op w"
  by (auto simp: file_operation_def retryOnConnectionLost_def isConnectionLostError_def split: prod.splits option.splits)

text \<open>Uploads and deletions never change a local file, downloads only the one they name.\<close>

lemma upload_local: "fst (snd (upload C l r w)) = fst w"
  by (auto simp: upload_def split: option.splits prod.splits)

lemma Upload_local: "fst (snd (Upload C retry l r w)) = fst w"
proof -
  obtain e fs s where u: "upload C l r w = (e, fs, s)" by (cases "upload C l r w") auto
  then have "fs = fst w" using upload_local[of C l r w] by simp
  then show ?thesis using u upload_local[of C l r]
    by (simp add: Upload_def file_operation_def retryOnConnectionLost_def split: option.split prod.split)
qed

lemma download_local:
  "f \<noteq> path_Join [d, path_Base r] \<Longrightarrow> fst (snd (download C ce r d w)) f = fst w f"
  by (auto simp: download_def Let_def split: option.splits prod.splits)

text \<open>A download that fails while it copies leaves what was read in the local file.\<close>

lemma partial_download:
  assumes "OpenRead C r (snd w) = (None, s)" "create_error (path_Join [d, path_Base r]) = None" "CopyFrom C r s = ((data, Some e), s')"
  shows "fst (snd (download C create_error r d w)) (path_Join [d, path_Base r]) = Some data"
    "fst (download C create_error r d w) \<noteq> None"
  using assms by (simp_all add: download_def Let_def)

end
