(* ===== verification/Net_Kit.thy ===== *)
theory Net_Kit
  imports Kit_Prelude
begin

text \<open>
  Lists of networks (\<open>netutil\<close>), with what they use of the package \<open>net\<close>: the parser of addresses and networks, masks, and
  the test whether a network contains an address. An address is its bytes; \<open>None\<close> is a string that does not parse.
\<close>

unbundle bit_operations_syntax

subsection \<open>Addresses\<close>

text \<open>The fields of an IPv4 address: no sign, no leading zero, at most 255.\<close>

definition parse_octet :: "gostr \<Rightarrow> byte option" where
  "parse_octet f =
     (if f = [] \<or> \<not> list_all is_digit f \<or> (1 < length f \<and> hd f = 48) \<or> 255 < digits_val 0 f then None
      else Some (of_nat (digits_val 0 f)))"

fun all_some :: "'a option list \<Rightarrow> 'a list option" where
  "all_some [] = Some []"
| "all_some (None # xs) = None"
| "all_some (Some x # xs) = map_option ((#) x) (all_some xs)"

definition parse_ipv4 :: "gostr \<Rightarrow> byte list option" where
  "parse_ipv4 s = (let fs = split_on 46 s in if length fs \<noteq> 4 then None else all_some (map parse_octet fs))"

definition hex_digit :: "rune \<Rightarrow> nat option" where
  "hex_digit c =
     (if 48 \<le> c \<and> c \<le> 57 then Some (c - 48)
      else if 97 \<le> c \<and> c \<le> 102 then Some (c - 97 + 10)
      else if 65 \<le> c \<and> c \<le> 70 then Some (c - 65 + 10) else None)"

text \<open>The hexadecimal digits at the front, with their value.\<close>

definition hex_prefix :: "gostr \<Rightarrow> gostr" where
  "hex_prefix s = takeWhile (\<lambda>c. hex_digit c \<noteq> None) s"

definition hex_value :: "gostr \<Rightarrow> nat" where
  "hex_value ds = fold (\<lambda>c acc. 16 * acc + the (hex_digit c)) ds 0"

text \<open>The groups of an IPv6 address: the rest of the string, the bytes so far, where the ellipsis was. The result has the
  bytes and the ellipsis.\<close>

function ipv6_groups :: "gostr \<Rightarrow> byte list \<Rightarrow> nat option \<Rightarrow> (byte list \<times> nat option) option" where
  "ipv6_groups s ip el =
     (if 16 \<le> length ip then (if s = [] then Some (ip, el) else None)
      else
        (let ds = hex_prefix s; r = drop (length ds) s; acc = hex_value ds in
         if ds = [] \<or> 4 < length ds then None
         else if r \<noteq> [] \<and> hd r = 46 then
           (if (el = None \<and> length ip \<noteq> 12) \<or> 16 < length ip + 4 then None
            else map_option (\<lambda>b. (ip @ b, el)) (parse_ipv4 s))
         else
           (let ip' = ip @ [of_nat (acc div 256), of_nat acc] in
            if r = [] then Some (ip', el)
            else if hd r \<noteq> 58 \<or> tl r = [] then None
            else if hd (tl r) = 58 then
              (if el \<noteq> None then None
               else if tl (tl r) = [] then Some (ip', Some (length ip'))
               else ipv6_groups (tl (tl r)) ip' (Some (length ip')))
            else ipv6_groups (tl r) ip' el)))"
  by pat_completeness auto
termination by (relation "measure (\<lambda>(s, ip, el). 16 - length ip)") auto

definition parse_ipv6 :: "gostr \<Rightarrow> byte list option" where
  "parse_ipv6 s =
     (if has_prefix (lit ''::'') s \<and> length s = 2 then Some (replicate 16 0)
      else
        (case (if has_prefix (lit ''::'') s then ipv6_groups (drop 2 s) [] (Some 0) else ipv6_groups s [] None) of
           None \<Rightarrow> None
         | Some (ip, el) \<Rightarrow>
             (case el of
                None \<Rightarrow> if length ip < 16 then None else Some ip
              | Some e \<Rightarrow> if length ip < 16 then Some (take e ip @ replicate (16 - length ip) 0 @ drop e ip) else None)))"

text \<open>\<open>netip.ParseAddr\<close>, for addresses without a zone: which of the two it is shows the first dot or colon.\<close>

definition parse_addr :: "gostr \<Rightarrow> byte list option" where
  "parse_addr s =
     (case dropWhile (\<lambda>c. c \<noteq> 46 \<and> c \<noteq> 58 \<and> c \<noteq> 37) s of
        [] \<Rightarrow> None
      | c # _ \<Rightarrow> if c = 46 then parse_ipv4 s else if c = 58 \<and> 37 \<notin> set s then parse_ipv6 s else None)"

definition v4InV6Prefix :: "byte list" where
  "v4InV6Prefix = replicate 10 0 @ [0xFF, 0xFF]"

definition To4 :: "byte list \<Rightarrow> byte list option" where
  "To4 ip =
     (if length ip = 4 then Some ip
      else if length ip = 16 \<and> take 12 ip = v4InV6Prefix then Some (drop 12 ip) else None)"

subsection \<open>Networks\<close>

record IPNet =
  net_IP :: "byte list"
  net_Mask :: "byte list"

text \<open>\<open>CIDRMask\<close>: \<open>n\<close> ones, in so many bytes.\<close>

fun CIDRMask :: "nat \<Rightarrow> nat \<Rightarrow> byte list" where
  "CIDRMask n 0 = []"
| "CIDRMask n (Suc l) = (if 8 \<le> n then 0xFF # CIDRMask (n - 8) l else not (drop_bit n 0xFF) # CIDRMask 0 l)"

definition and_bytes :: "byte list \<Rightarrow> byte list \<Rightarrow> byte list" where
  "and_bytes xs ys = map2 and xs ys"

text \<open>The length after the slash: digits only, and below a limit that no length reaches.\<close>

definition parse_length :: "gostr \<Rightarrow> nat option" where
  "parse_length s = (if s = [] \<or> \<not> list_all is_digit s then None else Some (digits_val 0 s))"

definition ParseCIDR :: "gostr \<Rightarrow> IPNet option" where
  "ParseCIDR s =
     (case split2 47 s of
        None \<Rightarrow> None
      | Some (addr, ones) \<Rightarrow>
          (case (parse_addr addr, parse_length ones) of
             (Some ip, Some n) \<Rightarrow>
               if 8 * length ip < n then None
               else Some \<lparr>net_IP = and_bytes ip (CIDRMask n (length ip)), net_Mask = CIDRMask n (length ip)\<rparr>
           | _ \<Rightarrow> None))"

definition networkNumberAndMask :: "IPNet \<Rightarrow> (byte list \<times> byte list) option" where
  "networkNumberAndMask n =
     (let ip = (case To4 (net_IP n) of Some i \<Rightarrow> i | None \<Rightarrow> net_IP n); m = net_Mask n in
      if To4 (net_IP n) = None \<and> length ip \<noteq> 16 then None
      else if length m = 4 then (if length ip = 4 then Some (ip, m) else None)
      else if length m = 16 then Some (ip, if length ip = 4 then drop 12 m else m)
      else None)"

definition IPNet_Contains :: "IPNet \<Rightarrow> byte list \<Rightarrow> bool" where
  "IPNet_Contains n ip0 =
     (let (nn, m) = (case networkNumberAndMask n of Some p \<Rightarrow> p | None \<Rightarrow> ([], []));
          ip = (case To4 ip0 of Some i \<Rightarrow> i | None \<Rightarrow> ip0)
      in length ip = length nn \<and> and_bytes nn m = and_bytes ip m)"

subsection \<open>Lists of networks\<close>

text \<open>\<open>q\<close> quotes a string; the error names the first that does not parse.\<close>

fun NewCidrRanges :: "(gostr \<Rightarrow> gostr) \<Rightarrow> gostr list \<Rightarrow> gostr + IPNet list" where
  "NewCidrRanges q [] = Inr []"
| "NewCidrRanges q (cidr # cidrs) =
     (case ParseCIDR cidr of
        None \<Rightarrow> Inl (lit ''invalid CIDR '' @ q cidr @ lit '': invalid CIDR address: '' @ cidr)
      | Some n \<Rightarrow> map_sum id ((#) n) (NewCidrRanges q cidrs))"

definition cidrs_Contains :: "IPNet list \<Rightarrow> byte list \<Rightarrow> bool" where
  "cidrs_Contains c ip = list_ex (\<lambda>n. IPNet_Contains n ip) c"

definition DefaultPrivateIPRanges :: gostr where
  "DefaultPrivateIPRanges =
     lit ''10.0.0.0/8,172.16.0.0/12,192.168.0.0/16,127.0.0.0/8,169.254.0.0/16,fc00::/7,fe80::/10''"

text \<open>\<open>None\<close> is the panic of the initialisation.\<close>

definition DefaultPrivateCidrRanges :: "IPNet list option" where
  "DefaultPrivateCidrRanges =
     (case NewCidrRanges id (split_on 44 DefaultPrivateIPRanges) of Inl _ \<Rightarrow> None | Inr c \<Rightarrow> Some c)"

text \<open>Splitting with an accumulator, for evaluation.\<close>

fun split_acc :: "rune \<Rightarrow> gostr \<Rightarrow> gostr \<Rightarrow> gostr list" where
  "split_acc c acc [] = [rev acc]"
| "split_acc c acc (r # s) = (if r = c then rev acc # split_acc c [] s else split_acc c (r # acc) s)"

lemma split_acc_split_on: "split_acc c acc s = (rev acc @ hd (split_on c s)) # tl (split_on c s)"
  by (induction c acc s rule: split_acc.induct) auto

lemma split_on_code [code]: "split_on c s = split_acc c [] s"
  by (simp add: split_acc_split_on)

lemma CIDRMask_numeral:
  "CIDRMask n (numeral k) =
     (if 8 \<le> n then 0xFF # CIDRMask (n - 8) (pred_numeral k) else not (drop_bit n 0xFF) # CIDRMask 0 (pred_numeral k))"
  by (simp add: numeral_eq_Suc)

lemma replicate_numeral: "replicate (numeral k) x = x # replicate (pred_numeral k) x"
  by (simp add: numeral_eq_Suc)

lemma zero_byte: "(- 256 :: byte) = 0"
  by simp

lemmas parse_defs = ParseCIDR_def split2_def parse_length_def parse_addr_def lit_def parse_ipv4_def split_on_code parse_octet_def
  is_digit_def parse_ipv6_def ipv6_groups.simps hex_prefix_def hex_digit_def hex_value_def and_bytes_def CIDRMask_numeral
  replicate_numeral zero_byte

lemma default_strings:
  "split_on 44 DefaultPrivateIPRanges =
     map lit [''10.0.0.0/8'', ''172.16.0.0/12'', ''192.168.0.0/16'', ''127.0.0.0/8'', ''169.254.0.0/16'', ''fc00::/7'', ''fe80::/10'']"
  by code_simp

lemma parse_defaults:
  "ParseCIDR (lit ''10.0.0.0/8'') = Some \<lparr>net_IP = [10, 0, 0, 0], net_Mask = [255, 0, 0, 0]\<rparr>"
  "ParseCIDR (lit ''172.16.0.0/12'') = Some \<lparr>net_IP = [172, 16, 0, 0], net_Mask = [255, 240, 0, 0]\<rparr>"
  "ParseCIDR (lit ''192.168.0.0/16'') = Some \<lparr>net_IP = [192, 168, 0, 0], net_Mask = [255, 255, 0, 0]\<rparr>"
  "ParseCIDR (lit ''127.0.0.0/8'') = Some \<lparr>net_IP = [127, 0, 0, 0], net_Mask = [255, 0, 0, 0]\<rparr>"
  "ParseCIDR (lit ''169.254.0.0/16'') = Some \<lparr>net_IP = [169, 254, 0, 0], net_Mask = [255, 255, 0, 0]\<rparr>"
  "ParseCIDR (lit ''fc00::/7'') = Some \<lparr>net_IP = 0xFC # replicate 15 0, net_Mask = 0xFE # replicate 15 0\<rparr>"
  "ParseCIDR (lit ''fe80::/10'') = Some \<lparr>net_IP = 0xFE # 0x80 # replicate 14 0, net_Mask = 0xFF # 0xC0 # replicate 14 0\<rparr>"
  by (simp_all add: parse_defs)

lemma default_networks:
  "DefaultPrivateCidrRanges =
     Some
       [\<lparr>net_IP = [10, 0, 0, 0], net_Mask = [255, 0, 0, 0]\<rparr>,
        \<lparr>net_IP = [172, 16, 0, 0], net_Mask = [255, 240, 0, 0]\<rparr>,
        \<lparr>net_IP = [192, 168, 0, 0], net_Mask = [255, 255, 0, 0]\<rparr>,
        \<lparr>net_IP = [127, 0, 0, 0], net_Mask = [255, 0, 0, 0]\<rparr>,
        \<lparr>net_IP = [169, 254, 0, 0], net_Mask = [255, 255, 0, 0]\<rparr>,
        \<lparr>net_IP = 0xFC # replicate 15 0, net_Mask = 0xFE # replicate 15 0\<rparr>,
        \<lparr>net_IP = 0xFE # 0x80 # replicate 14 0, net_Mask = 0xFF # 0xC0 # replicate 14 0\<rparr>]"
  by (simp add: DefaultPrivateCidrRanges_def default_strings parse_defaults)

text \<open>Containment, for the two kinds of networks.\<close>

lemma bytes4: "length xs = 4 \<Longrightarrow> \<exists>a b c d. xs = [a, b, c, d]"
  by (auto simp: numeral_eq_Suc length_Suc_conv)

lemma contains4:
  "IPNet_Contains \<lparr>net_IP = [n0, n1, n2, n3], net_Mask = [m0, m1, m2, m3]\<rparr> ip \<longleftrightarrow>
     (case To4 ip of
        Some [a, b, c, d] \<Rightarrow> n0 AND m0 = a AND m0 \<and> n1 AND m1 = b AND m1 \<and> n2 AND m2 = c AND m2 \<and> n3 AND m3 = d AND m3
      | _ \<Rightarrow> False)"
proof (cases "To4 ip")
  case None
  then have "length ip \<noteq> 4" by (auto simp: To4_def)
  then show ?thesis using None by (simp add: IPNet_Contains_def networkNumberAndMask_def To4_def and_bytes_def)
next
  case (Some i)
  then have "length i = 4" by (auto simp: To4_def split: if_splits)
  then obtain a b c d where "i = [a, b, c, d]" using bytes4 by blast
  then show ?thesis using Some by (simp add: IPNet_Contains_def networkNumberAndMask_def To4_def and_bytes_def)
qed

lemma map2_and_cong: "length xs = length ys \<Longrightarrow> map2 (AND) (replicate (length ys) 0) xs = replicate (length ys) (0 :: byte)"
  by (induction xs ys rule: list_induct2) simp_all

lemma contains16:
  assumes "length n = 16" "length m = 16" "take 12 n \<noteq> v4InV6Prefix"
  shows "IPNet_Contains \<lparr>net_IP = n, net_Mask = m\<rparr> ip \<longleftrightarrow> To4 ip = None \<and> length ip = 16 \<and> and_bytes n m = and_bytes ip m"
proof (cases "To4 ip")
  case (Some i)
  then have "length i = 4" by (auto simp: To4_def split: if_splits)
  then show ?thesis using assms Some by (simp add: IPNet_Contains_def networkNumberAndMask_def To4_def Let_def)
next
  case None
  then show ?thesis using assms by (simp add: IPNet_Contains_def networkNumberAndMask_def To4_def Let_def)
qed

lemma and_zeros: "length xs = k \<Longrightarrow> and_bytes xs (replicate k 0) = replicate k 0"
  by (induction xs arbitrary: k) (auto simp: and_bytes_def)

lemma and_cons: "and_bytes (x # xs) (y # ys) = (x AND y) # and_bytes xs ys"
  by (simp add: and_bytes_def)

text \<open>A statement about a byte holds where it holds for all 256.\<close>

lemma all_bytes:
  assumes "list_all (\<lambda>i. P (word_of_int i)) [0..255]"
  shows "P (b :: byte)"
proof -
  have "uint b < 2 ^ LENGTH(8)" by (rule uint_lt2p)
  then have "uint b \<in> set [0..255]" using uint_ge_0[of b] by auto
  then have "P (word_of_int (uint b))" using assms unfolding list_all_iff by (rule bspec[rotated])
  then show ?thesis by (simp only: word_of_int_uint)
qed

lemma mask_240: "(b AND 240 = 16) = (16 \<le> b \<and> b \<le> (31 :: byte))"
  by (rule all_bytes[of "\<lambda>b. (b AND 240 = 16) = (16 \<le> b \<and> b \<le> 31)"]) code_simp

lemma mask_192: "(b AND 192 = 128) = (128 \<le> b \<and> b \<le> (191 :: byte))"
  by (rule all_bytes[of "\<lambda>b. (b AND 192 = 128) = (128 \<le> b \<and> b \<le> 191)"]) code_simp

lemma mask_254: "(b AND 254 = 252) = (252 \<le> b \<and> b \<le> (253 :: byte))"
  by (rule all_bytes[of "\<lambda>b. (b AND 254 = 252) = (252 \<le> b \<and> b \<le> 253)"]) code_simp

lemma mask_255: "b AND 255 = (b :: byte)"
proof -
  have "(255 :: byte) = - 1" by simp
  then show ?thesis by (simp only: and.right_neutral)
qed

lemma private_contains:
  "cidrs_Contains (the DefaultPrivateCidrRanges) ip \<longleftrightarrow>
     (case To4 ip of
        Some a \<Rightarrow>
          a ! 0 = 10 \<or> a ! 0 = 127 \<or> (a ! 0 = 172 \<and> 16 \<le> a ! 1 \<and> a ! 1 \<le> 31) \<or> (a ! 0 = 192 \<and> a ! 1 = 168) \<or>
          (a ! 0 = 169 \<and> a ! 1 = 254)
      | None \<Rightarrow> length ip = 16 \<and> ((252 \<le> ip ! 0 \<and> ip ! 0 \<le> 253) \<or> (ip ! 0 = 254 \<and> 128 \<le> ip ! 1 \<and> ip ! 1 \<le> 191)))"
proof -
  let ?u = "\<lparr>net_IP = 0xFC # replicate 15 0, net_Mask = 0xFE # replicate 15 0\<rparr>"
  let ?l = "\<lparr>net_IP = 0xFE # 0x80 # replicate 14 0, net_Mask = 0xFF # 0xC0 # replicate 14 0\<rparr>"
  have p: "take 12 (x # ys) \<noteq> v4InV6Prefix" if "x \<noteq> 0" for x :: byte and ys
    using that by (simp add: v4InV6Prefix_def take_Cons' replicate_numeral)
  have cons: "\<exists>x y zs. ip = x # y # zs \<and> length zs = 14" if "length ip = 16" for ip :: "byte list"
    using that by (cases ip; cases "tl ip") auto
  have u: "IPNet_Contains ?u ip \<longleftrightarrow> To4 ip = None \<and> length ip = 16 \<and> 252 \<le> ip ! 0 \<and> ip ! 0 \<le> 253" for ip
  proof -
    have "length ip = 16 \<Longrightarrow> and_bytes (0xFC # replicate 15 0) (0xFE # replicate 15 0) = and_bytes ip (0xFE # replicate 15 0) \<longleftrightarrow>
        ip ! 0 AND 254 = 252"
      by (cases ip) (auto simp: and_cons and_zeros)
    then show ?thesis using p[of "0xFC" "replicate 15 0"] by (subst contains16) (auto simp: mask_254)
  qed
  have l: "IPNet_Contains ?l ip \<longleftrightarrow> To4 ip = None \<and> length ip = 16 \<and> ip ! 0 = 254 \<and> 128 \<le> ip ! 1 \<and> ip ! 1 \<le> 191" for ip
  proof -
    have "and_bytes (0xFE # 0x80 # replicate 14 0) (0xFF # 0xC0 # replicate 14 0) = and_bytes ip (0xFF # 0xC0 # replicate 14 0) \<longleftrightarrow>
        ip ! 0 = 254 \<and> ip ! 1 AND 192 = 128" if ip: "length ip = 16"
      using cons[OF ip] by (auto simp: and_cons and_zeros mask_255)
    then show ?thesis using p[of "0xFE" "0x80 # replicate 14 0"] by (subst contains16) (auto simp: mask_192)
  qed
  show ?thesis
  proof (cases "To4 ip")
    case None
    then show ?thesis by (auto simp: cidrs_Contains_def default_networks contains4 u l)
  next
    case (Some i)
    then have "length i = 4" by (auto simp: To4_def split: if_splits)
    then obtain a b c d where i: "i = [a, b, c, d]" using bytes4 by blast
    show ?thesis by (auto simp: cidrs_Contains_def default_networks contains4 u l Some i mask_255 mask_240)
  qed
qed

text \<open>The default networks are parsed, and contain exactly the private, loopback and link-local addresses of IPv4, also
  written as IPv6 addresses, and the unique local and link-local addresses of IPv6.\<close>

lemma default_private_exact:
  "\<exists>c. DefaultPrivateCidrRanges = Some c \<and>
     (\<forall>ip. cidrs_Contains c ip \<longleftrightarrow>
        (case To4 ip of
           Some a \<Rightarrow>
             a ! 0 = 10 \<or> a ! 0 = 127 \<or> (a ! 0 = 172 \<and> 16 \<le> a ! 1 \<and> a ! 1 \<le> 31) \<or> (a ! 0 = 192 \<and> a ! 1 = 168) \<or>
             (a ! 0 = 169 \<and> a ! 1 = 254)
         | None \<Rightarrow>
             length ip = 16 \<and> ((252 \<le> ip ! 0 \<and> ip ! 0 \<le> 253) \<or> (ip ! 0 = 254 \<and> 128 \<le> ip ! 1 \<and> ip ! 1 \<le> 191))))"
  using private_contains by (intro exI[of _ "the DefaultPrivateCidrRanges"]) (simp add: default_networks)

text \<open>The loopback address of IPv6 is not among them, that of IPv4 is.\<close>

lemma loopback6_not_private:
  "\<not> cidrs_Contains (the DefaultPrivateCidrRanges) (replicate 15 0 @ [1])"
  "cidrs_Contains (the DefaultPrivateCidrRanges) [127, 0, 0, 1]"
  by (simp_all add: private_contains To4_def v4InV6Prefix_def replicate_numeral)

end
