(* ===== verification/Small_Kit.thy ===== *)
theory Small_Kit
  imports Text_Utils
begin

text \<open>
  Small packages: the removal of invisible characters (\<open>sanitize\<close>), contexts that end with another one or with a signal
  (\<open>context\<close>), identifiers from a hash (\<open>uuid\<close>), tables of rows (\<open>sqlutil\<close>), strings of any value (\<open>stringify\<close>), sizes
  (\<open>bytesize\<close>). Strings that need not be valid UTF-8 are lists of bytes below 256.
\<close>

unbundle bit_operations_syntax

subsection \<open>Runes of a string\<close>

text \<open>The code point of a valid encoding of \<open>k\<close> bytes.\<close>

definition rune_value :: "nat \<Rightarrow> nat list \<Rightarrow> rune" where
  "rune_value k p =
     (if k = 1 then p ! 0
      else if k = 2 then (p ! 0 - 0xC0) * 64 + (p ! 1 - 0x80)
      else if k = 3 then (p ! 0 - 0xE0) * 4096 + (p ! 1 - 0x80) * 64 + (p ! 2 - 0x80)
      else (p ! 0 - 0xF0) * 262144 + (p ! 1 - 0x80) * 4096 + (p ! 2 - 0x80) * 64 + (p ! 3 - 0x80))"

text \<open>What \<open>range\<close> reads: an invalid byte is the error rune.\<close>

definition rune_at :: "nat list \<Rightarrow> rune" where
  "rune_at p = (if fst (DecodeRune p) then 0xFFFD else rune_value (snd (DecodeRune p)) p)"

function runes :: "nat list \<Rightarrow> rune list" where
  "runes p = (if p = [] then [] else rune_at p # runes (drop (snd (DecodeRune p)) p))"
  by pat_completeness auto
termination
  by (relation "measure length") (use DecodeRune_size in auto)

declare runes.simps [simp del]

lemma rune_value_encode: "scalar cp \<Longrightarrow> rune_value (length (encode cp)) (encode cp @ q) = cp"
proof -
  assume "scalar cp"
  have d: "cp = cp div 64 * 64 + cp mod 64" by simp
  have e: "cp div 64 = cp div 4096 * 64 + cp div 64 mod 64"
    using div_mult_mod_eq[of "cp div 64" 64] by (simp add: div_mult2_eq[symmetric])
  have f: "cp div 4096 = cp div 262144 * 64 + cp div 4096 mod 64"
    using div_mult_mod_eq[of "cp div 4096" 64] by (simp add: div_mult2_eq[symmetric])
  show ?thesis
  proof (cases "cp < 0x800")
    case True
    then show ?thesis using d by (auto simp: encode_def rune_value_def)
  next
    case False
    show ?thesis
    proof (cases "cp < 0x10000")
      case True
      have "cp = cp div 4096 * 4096 + cp div 64 mod 64 * 64 + cp mod 64" using d e by linarith
      then show ?thesis using False True by (simp add: encode_def rune_value_def)
    next
      case F: False
      have "cp = cp div 262144 * 262144 + cp div 4096 mod 64 * 4096 + cp div 64 mod 64 * 64 + cp mod 64"
        using d e f by linarith
      then show ?thesis using False F by (simp add: encode_def rune_value_def)
    qed
  qed
qed

lemma runes_encode_cons: "scalar cp \<Longrightarrow> runes (encode cp @ p) = cp # runes p"
  by (subst runes.simps) (simp add: encode_nonempty rune_at_def DecodeRune_encode rune_value_encode)

lemma runes_encode: "list_all scalar cps \<Longrightarrow> runes (concat (map encode cps)) = cps"
  by (induction cps) (simp_all add: runes_encode_cons runes.simps[of "[]"])

lemma rune_at_scalar:
  assumes "p \<noteq> []"
  shows "scalar (rune_at p)"
proof (cases "fst (DecodeRune p)")
  case True
  then show ?thesis by (simp add: rune_at_def scalar_def)
next
  case False
  obtain cp where cp: "scalar cp" "take (snd (DecodeRune p)) p = encode cp" using DecodeRune_good[OF assms False] by blast
  have p: "p = encode cp @ drop (snd (DecodeRune p)) p" using cp(2) by (metis append_take_drop_id)
  then have "snd (DecodeRune p) = length (encode cp)" using DecodeRune_encode[OF cp(1)] by (metis snd_conv)
  then have "rune_at p = cp" using False rune_value_encode[OF cp(1)] p by (metis rune_at_def)
  then show ?thesis using cp(1) by simp
qed

lemma runes_scalar: "list_all scalar (runes p)"
proof (induction p rule: runes.induct)
  case (1 p)
  show ?case
  proof (cases "p = []")
    case False
    then show ?thesis using 1 by (subst runes.simps) (simp add: rune_at_scalar)
  qed (subst runes.simps, simp)
qed

subsection \<open>Invisible characters\<close>

definition invisibleRunes :: "rune list" where
  "invisibleRunes =
     [0x0000, 0x0009, 0x00A0, 0x00AD, 0x034F, 0x061C, 0x115F, 0x1160, 0x17B4, 0x17B5, 0x180E, 0x2000, 0x2001, 0x2002, 0x2003,
      0x2004, 0x2005, 0x2006, 0x2007, 0x2008, 0x2009, 0x200A, 0x200B, 0x200C, 0x200D, 0x200E, 0x200F, 0x202F, 0x205F, 0x2060,
      0x2061, 0x2062, 0x2063, 0x2064, 0x206A, 0x206B, 0x206C, 0x206D, 0x206E, 0x206F, 0x3000, 0x2800, 0x3164, 0xFEFF, 0xFFA0]"

text \<open>\<open>strings.Map\<close>: every rune is mapped and encoded, or dropped.\<close>

definition strings_Map :: "(rune \<Rightarrow> rune option) \<Rightarrow> nat list \<Rightarrow> nat list" where
  "strings_Map f s = concat (map (\<lambda>r. case f r of None \<Rightarrow> [] | Some r' \<Rightarrow> encode r') (runes s))"

definition Unicode :: "(rune \<Rightarrow> bool) \<Rightarrow> nat list \<Rightarrow> nat list" where
  "Unicode IsPrint s = strings_Map (\<lambda>r. if r \<in> set invisibleRunes \<or> \<not> IsPrint r then None else Some r) s"

definition visible :: "(rune \<Rightarrow> bool) \<Rightarrow> rune \<Rightarrow> bool" where
  "visible IsPrint r \<longleftrightarrow> IsPrint r \<and> r \<notin> set invisibleRunes"

lemma Unicode_filter: "Unicode IsPrint s = concat (map encode (filter (visible IsPrint) (runes s)))"
proof -
  have "concat (map (\<lambda>r. case if r \<in> set invisibleRunes \<or> \<not> IsPrint r then None else Some r of None \<Rightarrow> [] | Some r' \<Rightarrow> encode r') rs)
      = concat (map encode (filter (visible IsPrint) rs))" for rs
    by (induction rs) (auto simp: visible_def)
  then show ?thesis by (simp add: Unicode_def strings_Map_def)
qed

text \<open>What is left are exactly the visible runes of the string, in their order, as valid UTF-8, whatever the bytes were;
  doing it twice is doing it once.\<close>

lemma Unicode_exact:
  "runes (Unicode IsPrint s) = filter (visible IsPrint) (runes s)
   \<and> Sanitize (Unicode IsPrint s) = Unicode IsPrint s
   \<and> Unicode IsPrint (Unicode IsPrint s) = Unicode IsPrint s"
proof -
  have a: "list_all scalar (filter (visible IsPrint) (runes s))" using runes_scalar[of s] by (auto simp: list_all_iff)
  then have r: "runes (Unicode IsPrint s) = filter (visible IsPrint) (runes s)"
    unfolding Unicode_filter by (rule runes_encode)
  moreover have "Sanitize (Unicode IsPrint s) = Unicode IsPrint s"
    unfolding Sanitize_san Unicode_filter by (rule san_valid[OF a])
  moreover have "Unicode IsPrint (Unicode IsPrint s) = Unicode IsPrint s"
    unfolding Unicode_filter[of IsPrint "Unicode IsPrint s"] r by (simp add: Unicode_filter)
  ultimately show ?thesis by blast
qed

subsection \<open>Contexts\<close>

text \<open>\<open>MergedContext\<close>: the parents, the cancellation of the merged context, the goroutine that waits, and whether the
  function that is returned was called. The merged context is done with its parent \<open>A\<close>.\<close>

datatype waiter = NoWaiter | Waiting | WaiterEnded

record merged =
  a_done :: bool
  b_done :: bool
  cancelled :: bool
  waiter :: waiter
  stop_called :: bool

definition merged_done :: "merged \<Rightarrow> bool" where
  "merged_done m \<longleftrightarrow> a_done m \<or> cancelled m"

definition MergedContext :: "bool \<Rightarrow> bool \<Rightarrow> merged" where
  "MergedContext a b =
     \<lparr>a_done = a, b_done = b, cancelled = b, waiter = (if b then NoWaiter else Waiting), stop_called = False\<rparr>"

text \<open>The function that is returned where \<open>B\<close> is done already does nothing; else it cancels and waits for the goroutine,
  so that it returns once \<open>waiter\<close> has ended.\<close>

inductive merged_step :: "merged \<Rightarrow> merged \<Rightarrow> bool" where
  a_ends: "merged_step m (m\<lparr>a_done := True\<rparr>)"
| b_ends: "merged_step m (m\<lparr>b_done := True\<rparr>)"
| stop: "merged_step m (m\<lparr>stop_called := True, cancelled := (waiter m \<noteq> NoWaiter \<or> cancelled m)\<rparr>)"
| on_b: "waiter m = Waiting \<Longrightarrow> b_done m \<Longrightarrow> merged_step m (m\<lparr>cancelled := True, waiter := WaiterEnded\<rparr>)"
| on_merged: "waiter m = Waiting \<Longrightarrow> merged_done m \<Longrightarrow> merged_step m (m\<lparr>waiter := WaiterEnded\<rparr>)"

definition merged_ok :: "merged \<Rightarrow> bool" where
  "merged_ok m \<longleftrightarrow> (cancelled m \<longrightarrow> b_done m \<or> stop_called m) \<and> (waiter m = NoWaiter \<longrightarrow> b_done m \<and> cancelled m)
     \<and> (waiter m = WaiterEnded \<longrightarrow> merged_done m) \<and> (stop_called m \<longrightarrow> cancelled m)"

interpretation merged_ctx: transition_system "\<lambda>m. \<exists>a b. m = MergedContext a b" merged_step merged_ok
proof
  show "\<exists>a b. m = MergedContext a b \<Longrightarrow> merged_ok m" for m
    by (auto simp: MergedContext_def merged_ok_def split: if_splits)
  show "merged_ok m \<Longrightarrow> merged_step m m' \<Longrightarrow> merged_ok m'" for m m'
    by (erule merged_step.cases) (auto simp: merged_ok_def merged_done_def)
qed

text \<open>In every reachable state a merged context is done only where one of its parents is or it was stopped; it is done as
  soon as its goroutine has nothing more to do and one of these holds; a stop leaves the goroutine able to end.\<close>

lemma merged_context_exact:
  assumes "merged_step\<^sup>*\<^sup>* (MergedContext a b) m"
  shows "merged_done m \<Longrightarrow> a_done m \<or> b_done m \<or> stop_called m"
    and "\<not> (waiter m = Waiting \<and> (b_done m \<or> merged_done m)) \<Longrightarrow> a_done m \<or> b_done m \<or> stop_called m \<Longrightarrow> merged_done m"
    and "stop_called m \<Longrightarrow> waiter m = Waiting \<Longrightarrow> merged_step m (m\<lparr>waiter := WaiterEnded\<rparr>)"
proof -
  have "merged_ok m" using merged_ctx.reach_inv[OF _ assms] by blast
  then show "merged_done m \<Longrightarrow> a_done m \<or> b_done m \<or> stop_called m"
    "\<not> (waiter m = Waiting \<and> (b_done m \<or> merged_done m)) \<Longrightarrow> a_done m \<or> b_done m \<or> stop_called m \<Longrightarrow> merged_done m"
    "stop_called m \<Longrightarrow> waiter m = Waiting \<Longrightarrow> merged_step m (m\<lparr>waiter := WaiterEnded\<rparr>)"
    by (cases "waiter m"; auto simp: merged_ok_def merged_done_def intro: merged_step.intros)+
qed

text \<open>\<open>NotifyContextWithCallback\<close>: whether a signal came, the context is done, the function was stopped, how often the
  callback ran, what the goroutine does, and whether the signals were given back.\<close>

datatype notifier = Listening | InCallback | NotifierEnded

record notified =
  signalled :: bool
  ctx_done :: bool
  stopped :: bool
  callback_runs :: nat
  notifier :: notifier
  released :: bool

definition NotifyContextWithCallback :: notified where
  "NotifyContextWithCallback =
     \<lparr>signalled = False, ctx_done = False, stopped = False, callback_runs = 0, notifier = Listening, released = False\<rparr>"

inductive notify_step :: "notified \<Rightarrow> notified \<Rightarrow> bool" where
  signal: "\<not> released n \<Longrightarrow> notify_step n (n\<lparr>signalled := True\<rparr>)"
| stop_notify: "notify_step n (n\<lparr>stopped := True, ctx_done := True\<rparr>)"
| takes_signal: "notifier n = Listening \<Longrightarrow> signalled n \<Longrightarrow> notify_step n (n\<lparr>callback_runs := callback_runs n + 1, notifier := InCallback\<rparr>)"
| callback_returns: "notifier n = InCallback \<Longrightarrow> notify_step n (n\<lparr>ctx_done := True, notifier := NotifierEnded\<rparr>)"
| takes_stop: "notifier n = Listening \<Longrightarrow> ctx_done n \<Longrightarrow> notify_step n (n\<lparr>released := True, notifier := NotifierEnded\<rparr>)"

definition notify_ok :: "notified \<Rightarrow> bool" where
  "notify_ok n \<longleftrightarrow> callback_runs n \<le> 1 \<and> (notifier n = Listening \<longrightarrow> callback_runs n = 0 \<and> \<not> released n)
     \<and> (notifier n = InCallback \<longrightarrow> callback_runs n = 1 \<and> \<not> released n) \<and> (0 < callback_runs n \<longrightarrow> signalled n \<and> \<not> released n)
     \<and> (ctx_done n \<longrightarrow> stopped n \<or> (callback_runs n = 1 \<and> notifier n = NotifierEnded))
     \<and> (released n \<longrightarrow> stopped n)"

interpretation notify_ctx: transition_system "\<lambda>n. n = NotifyContextWithCallback" notify_step notify_ok
proof
  show "n = NotifyContextWithCallback \<Longrightarrow> notify_ok n" for n by (auto simp: NotifyContextWithCallback_def notify_ok_def)
  show "notify_ok n \<Longrightarrow> notify_step n n' \<Longrightarrow> notify_ok n'" for n n'
    by (erule notify_step.cases) (auto simp: notify_ok_def)
qed

text \<open>The callback runs at most once, only after a signal, and has returned before the context is done, unless it was
  stopped. After a callback the signals are never given back: another one does not end the process.\<close>

lemma notify_context_exact:
  assumes "notify_step\<^sup>*\<^sup>* NotifyContextWithCallback n"
  shows "callback_runs n \<le> 1" "0 < callback_runs n \<Longrightarrow> signalled n"
    "ctx_done n \<Longrightarrow> \<not> stopped n \<Longrightarrow> callback_runs n = 1 \<and> notifier n = NotifierEnded"
    "0 < callback_runs n \<Longrightarrow> \<not> released n"
  using notify_ctx.reach_inv[OF refl assms] by (auto simp: notify_ok_def)

subsection \<open>Identifiers, sizes, strings and tables\<close>

text \<open>\<open>md5\<close> is the hash, of 16 bytes.\<close>

definition GetMD5UUID :: "(gostr \<Rightarrow> byte list) \<Rightarrow> gostr \<Rightarrow> byte list" where
  "GetMD5UUID md5 str =
     (let h = md5 str; h = h[8 := (h ! 8 AND drop_bit 2 0xFF) OR push_bit 6 2]
      in h[6 := (h ! 6 AND 0x0F) OR push_bit 4 4])"

text \<open>The version is 4, the variant that of the standard, everything else is the hash.\<close>

lemma uuid_fields:
  assumes "length (md5 str) = 16"
  shows "drop_bit 4 (GetMD5UUID md5 str ! 6) = 4" "drop_bit 6 (GetMD5UUID md5 str ! 8) = 2"
    "take_bit 4 (GetMD5UUID md5 str ! 6) = take_bit 4 (md5 str ! 6)" "take_bit 6 (GetMD5UUID md5 str ! 8) = take_bit 6 (md5 str ! 8)"
    "length (GetMD5UUID md5 str) = 16" "\<And>i. i \<noteq> 6 \<Longrightarrow> i \<noteq> 8 \<Longrightarrow> GetMD5UUID md5 str ! i = md5 str ! i"
proof -
  have b: "drop_bit 4 ((x AND 0x0F) OR push_bit 4 4) = 4 \<and> drop_bit 6 ((x AND drop_bit 2 0xFF) OR push_bit 6 2) = 2 \<and>
      take_bit 4 ((x AND 0x0F) OR push_bit 4 4) = take_bit 4 x \<and>
      take_bit 6 ((x AND drop_bit 2 0xFF) OR push_bit 6 2) = take_bit 6 x" for x :: byte
  proof -
    have m: "(0x0F :: byte) = mask 4" "drop_bit 2 (0xFF :: byte) = mask 6" "push_bit 4 (4 :: byte) = 64" "push_bit 6 (2 :: byte) = 128"
      by (simp_all add: mask_eq_exp_minus_1)
    have t: "x AND mask 4 = take_bit 4 x" "x AND mask 6 = take_bit 6 x" by (simp_all add: take_bit_eq_mask)
    show ?thesis unfolding m t
      by (simp add: drop_bit_or take_bit_or drop_bit_take_bit)
  qed
  show "drop_bit 4 (GetMD5UUID md5 str ! 6) = 4" "drop_bit 6 (GetMD5UUID md5 str ! 8) = 2"
    "take_bit 4 (GetMD5UUID md5 str ! 6) = take_bit 4 (md5 str ! 6)" "take_bit 6 (GetMD5UUID md5 str ! 8) = take_bit 6 (md5 str ! 8)"
    "length (GetMD5UUID md5 str) = 16" "\<And>i. i \<noteq> 6 \<Longrightarrow> i \<noteq> 8 \<Longrightarrow> GetMD5UUID md5 str ! i = md5 str ! i"
    using assms b by (simp_all add: GetMD5UUID_def Let_def)
qed

definition sizes :: "int list" where
  "sizes = 1 # map (\<lambda>i. push_bit (10 * i) 1) [1..<7]"

lemma sizes_powers: "sizes = map (\<lambda>i. 1024 ^ i) [0..<7]"
  by (simp add: sizes_def push_bit_eq_mult upt_rec power_mult)

text \<open>\<open>stringify.Any\<close>: \<open>marshal\<close> and \<open>sprint\<close> are of the library.\<close>

datatype 'v any_value = Nil | Str gostr | Other 'v

definition stringify_Any :: "('v \<Rightarrow> gostr option) \<Rightarrow> ('v \<Rightarrow> gostr) \<Rightarrow> 'v any_value \<Rightarrow> gostr" where
  "stringify_Any marshal sprint x =
     (case x of Nil \<Rightarrow> [] | Str s \<Rightarrow> s | Other v \<Rightarrow> (case marshal v of Some s \<Rightarrow> s | None \<Rightarrow> sprint v))"

text \<open>What is written to the table writer: the rows that could be read, the flush, and the error.\<close>

datatype 'v cell = Null | Bytes gostr | Value 'v

definition cell_text :: "('v \<Rightarrow> gostr) \<Rightarrow> 'v cell \<Rightarrow> gostr" where
  "cell_text sprint x = 9 # (case x of Null \<Rightarrow> lit ''NULL'' | Bytes b \<Rightarrow> b | Value v \<Rightarrow> sprint v)"

definition line_end :: gostr where
  "line_end = [9, 10]"

fun print_rows :: "('v \<Rightarrow> gostr) \<Rightarrow> (gostr + 'v cell list) list \<Rightarrow> gostr \<times> gostr option" where
  "print_rows sprint [] = ([], None)"
| "print_rows sprint (Inl e # rows) = ([], Some (lit ''scanning row: '' @ e))"
| "print_rows sprint (Inr cells # rows) =
     (case print_rows sprint rows of (t, r) \<Rightarrow> (concat (map (cell_text sprint) cells) @ line_end @ t, r))"

text \<open>The text, whether it was flushed, and the error; \<open>rows_err\<close> is what ended the rows.\<close>

definition PrintRowsToTable :: "('v \<Rightarrow> gostr) \<Rightarrow> gostr + gostr list \<Rightarrow> (gostr + 'v cell list) list \<Rightarrow> gostr option \<Rightarrow>
  gostr \<times> bool \<times> gostr option" where
  "PrintRowsToTable sprint columns rows rows_err =
     (case columns of
        Inl e \<Rightarrow> ([], False, Some (lit ''getting column names: '' @ e))
      | Inr cs \<Rightarrow>
          (let hdr = concat (map (\<lambda>c. 9 # c) cs) @ line_end @ concat (map (\<lambda>_. 9 # lit ''---'') cs) @ line_end in
           case print_rows sprint rows of
             (t, Some e) \<Rightarrow> (hdr @ t, False, Some e)
           | (t, None) \<Rightarrow> (hdr @ t, True, rows_err)))"

text \<open>Where a row cannot be scanned nothing is flushed: the rows before it are lost too.\<close>

lemma scan_error_not_flushed:
  "fst (snd (PrintRowsToTable sprint (Inr cs) (map Inr rows @ Inl e # rest) re)) = False"
proof -
  have "snd (print_rows sprint (map Inr rows @ Inl e # rest)) = Some (lit ''scanning row: '' @ e)"
    by (induction rows) (auto split: prod.split)
  then show ?thesis by (auto simp: PrintRowsToTable_def Let_def split: prod.split)
qed

end
