(* ===== verification/Proc_Kit.thy ===== *)
theory Proc_Kit
  imports Config Complex_Main
begin

text \<open>
  Packages that follow the configuration: the number of processors (\<open>maxprocs\<close>) and the choice of the JSON library
  (\<open>jsonrs\<close>). Floats of the computation are reals; \<open>float_value\<close> reads the bits of a setting, \<open>ParseFloat\<close> a string.
\<close>

subsection \<open>The number of processors\<close>

record maxprocs_conf =
  minProcs :: int
  maxProcs :: int
  cpuRequestsMultiplier :: real

definition roundQuotaCeil :: "real \<Rightarrow> int" where
  "roundQuotaCeil x = \<lceil>x\<rceil>"

definition cpu_requests :: "(gostr \<Rightarrow> real option) \<Rightarrow> gostr \<Rightarrow> real" where
  "cpu_requests ParseFloat raw =
     (if HasSuffix raw [109]
      then (case ParseInt (TrimSuffix raw [109]) of Some n \<Rightarrow> real_of_int n / 1000 | None \<Rightarrow> 0)
      else (case ParseFloat raw of Some x \<Rightarrow> x | None \<Rightarrow> 0))"

text \<open>\<open>runtime.GOMAXPROCS\<close> takes positive numbers only.\<close>

definition GOMAXPROCS :: "int \<Rightarrow> int \<Rightarrow> int" where
  "GOMAXPROCS n procs = (if 0 < n then n else procs)"

definition maxprocs_set :: "(gostr \<Rightarrow> real option) \<Rightarrow> gostr \<Rightarrow> maxprocs_conf \<Rightarrow> int \<Rightarrow> int" where
  "maxprocs_set ParseFloat raw conf procs =
     (let cpuRequests = cpu_requests ParseFloat raw in
      if cpuRequests \<le> 0 then procs
      else
        (let g = max (roundQuotaCeil (cpuRequests * cpuRequestsMultiplier conf)) (minProcs conf);
             g = (if 0 < maxProcs conf \<and> maxProcs conf < g then maxProcs conf else g)
         in GOMAXPROCS g procs))"

definition requests_from_file :: "gostr \<Rightarrow> gostr" where
  "requests_from_file content = TrimSpace content @ [109]"

text \<open>The start: what is read from the file is given, empty where it cannot be read; the new number of processors and
  whether the file is watched.\<close>

definition setWithConfig :: "golib \<Rightarrow> (u64 \<Rightarrow> real) \<Rightarrow> (gostr \<Rightarrow> real option) \<Rightarrow> int \<Rightarrow> (gostr \<Rightarrow> gostr) \<Rightarrow> config \<Rightarrow> int \<Rightarrow>
  ((maxprocs_conf \<times> int) \<times> bool) \<times> config" where
  "setWithConfig L float_value ParseFloat numCPU read_file c0 procs =
     (let (mn, c1) = GetIntVar L 1 1 [lit ''MinProcs''] c0;
          (mx, c2) = GetIntVar L (word_of_int numCPU) 1 [lit ''MaxProcs''] c1;
          (mu, c3) = GetFloat64Var L 0x3FF8000000000000 [lit ''RequestsMultiplier''] c2;
          conf = \<lparr>minProcs = sint mn, maxProcs = sint mx, cpuRequestsMultiplier = float_value mu\<rparr>;
          (requests, c4) = GetStringVar L (lit ''0'') [lit ''Requests''] c3;
          (requestsFile, c5) = GetStringVar L (lit ''/etc/podinfo/cpu_requests'') [lit ''RequestsFile''] c4;
          data = read_file requestsFile;
          fileMode = (data \<noteq> []);
          requests = (if fileMode then requests_from_file data else requests);
          procs = maxprocs_set ParseFloat requests conf procs
      in if fileMode then (case GetBoolVar L True [lit ''Watch''] c5 of (w, c6) \<Rightarrow> (((conf, procs), w), c6))
         else (((conf, procs), False), c5))"

text \<open>What the watcher of the file gets until it stops.\<close>

datatype watch_event = Written gostr | OtherOperation | WatchError | Stopped

fun watch_loop :: "(gostr \<Rightarrow> real option) \<Rightarrow> maxprocs_conf \<Rightarrow> watch_event list \<Rightarrow> int \<Rightarrow> int" where
  "watch_loop ParseFloat conf [] procs = procs"
| "watch_loop ParseFloat conf (Stopped # es) procs = procs"
| "watch_loop ParseFloat conf (Written data # es) procs =
     watch_loop ParseFloat conf es (if data = [] then procs else maxprocs_set ParseFloat (requests_from_file data) conf procs)"
| "watch_loop ParseFloat conf (_ # es) procs = watch_loop ParseFloat conf es procs"

text \<open>The number stays as it was or lies between the bounds, of which the upper one wins.\<close>

definition within_bounds :: "maxprocs_conf \<Rightarrow> int \<Rightarrow> bool" where
  "within_bounds conf n \<longleftrightarrow> 1 \<le> n \<and> (0 < maxProcs conf \<longrightarrow> n \<le> maxProcs conf \<and> min (minProcs conf) (maxProcs conf) \<le> n)
     \<and> (maxProcs conf \<le> 0 \<longrightarrow> minProcs conf \<le> n)"

lemma maxprocs_set_bounds: "maxprocs_set ParseFloat raw conf procs = procs \<or> within_bounds conf (maxprocs_set ParseFloat raw conf procs)"
  by (auto simp: maxprocs_set_def GOMAXPROCS_def within_bounds_def Let_def)

lemma watch_loop_bounds: "watch_loop ParseFloat conf es procs = procs \<or> within_bounds conf (watch_loop ParseFloat conf es procs)"
proof (induction es arbitrary: procs)
  case (Cons e es)
  show ?case
  proof (cases e)
    case (Written data)
    let ?p = "if data = [] then procs else maxprocs_set ParseFloat (requests_from_file data) conf procs"
    have "?p = procs \<or> within_bounds conf ?p" using maxprocs_set_bounds by auto
    then show ?thesis using Cons[of ?p] Written by auto
  qed (use Cons in auto)
qed simp

text \<open>The number of millicpus of the file, times the factor, rounded up.\<close>

lemma maxprocs_milli:
  "maxprocs_set PF (requests_from_file (lit ''2500'')) \<lparr>minProcs = 1, maxProcs = 8, cpuRequestsMultiplier = 3 / 2\<rparr> 16 = 4"
  by (simp add: maxprocs_set_def requests_from_file_def lit_def TrimSpace_def is_space_def cpu_requests_def HasSuffix_def
      TrimSuffix_def ParseInt_def is_digit_def roundQuotaCeil_def GOMAXPROCS_def Let_def)

subsection \<open>The JSON library\<close>

datatype json_engine = Std | Sonnet | Jsoniter | Gjson

definition marshaller_impls :: "gostr \<Rightarrow> json_engine option" where
  "marshaller_impls = [lit ''std'' \<mapsto> Std, lit ''sonnet'' \<mapsto> Sonnet, lit ''jsoniter'' \<mapsto> Jsoniter]"

definition validator_impls :: "gostr \<Rightarrow> json_engine option" where
  "validator_impls = marshaller_impls(lit ''tidwall'' \<mapsto> Gjson)"

text \<open>The engines by the names of the settings; an unknown name is the default library.\<close>

definition choose_engine :: "(gostr \<Rightarrow> json_engine option) \<Rightarrow> gostr \<Rightarrow> json_engine" where
  "choose_engine impls nm = (case impls nm of Some i \<Rightarrow> i | None \<Rightarrow> the (impls (lit ''sonnet'')))"

text \<open>Streaming decoders are those of jsoniter also with sonnet.\<close>

definition decoder_engine :: "json_engine \<Rightarrow> json_engine" where
  "decoder_engine e = (if e = Sonnet then Jsoniter else e)"

record switcher =
  marshallerFn :: "nat option"
  unmarshallerFn :: "nat option"
  validatorFn :: "nat option"

definition jsonrs_New :: "golib \<Rightarrow> config \<Rightarrow> switcher \<times> config" where
  "jsonrs_New L c0 =
     (let (m, c1) = GetReloadableStringVar L (lit ''sonnet'') [lit ''Json.Library.Marshaller'', lit ''Json.Library''] c0;
          (u, c2) = GetReloadableStringVar L (lit ''sonnet'') [lit ''Json.Library.Unmarshaller'', lit ''Json.Library''] c1;
          (va, c3) = GetReloadableStringVar L (lit ''sonnet'') [lit ''Json.Library.Validator'', lit ''Json.Library''] c2
      in (\<lparr>marshallerFn = m, unmarshallerFn = u, validatorFn = va\<rparr>, c3))"

definition marshaller :: "switcher \<Rightarrow> config \<Rightarrow> json_engine" where
  "marshaller s c = choose_engine marshaller_impls (load_string (marshallerFn s) c)"

definition unmarshaller :: "switcher \<Rightarrow> config \<Rightarrow> json_engine" where
  "unmarshaller s c = choose_engine marshaller_impls (load_string (unmarshallerFn s) c)"

definition validator :: "switcher \<Rightarrow> config \<Rightarrow> json_engine" where
  "validator s c = choose_engine validator_impls (load_string (validatorFn s) c)"

definition NewWithLibrary :: "gostr \<Rightarrow> json_engine" where
  "NewWithLibrary library =
     (if library = lit ''std'' then Std else if library = lit ''sonnet'' then Sonnet
      else if library = lit ''jsoniter'' then Jsoniter else Sonnet)"

definition NewValidatorWithLibrary :: "gostr \<Rightarrow> json_engine" where
  "NewValidatorWithLibrary library = (if library = lit ''tidwall'' then Gjson else NewWithLibrary library)"

text \<open>A library chosen by its name is the one the switcher chooses for the same setting.\<close>

lemma lib_names: "lit ''std'' \<noteq> lit ''sonnet''" "lit ''std'' \<noteq> lit ''jsoniter''" "lit ''sonnet'' \<noteq> lit ''jsoniter''"
  "lit ''tidwall'' \<noteq> lit ''sonnet''" "lit ''tidwall'' \<noteq> lit ''std''" "lit ''tidwall'' \<noteq> lit ''jsoniter''"
  by (simp_all add: lit_def)

lemma NewWithLibrary_switcher: "NewWithLibrary nm = choose_engine marshaller_impls nm"
  using lib_names by (auto simp: NewWithLibrary_def choose_engine_def marshaller_impls_def)

lemma validator_other: "nm \<noteq> lit ''tidwall'' \<Longrightarrow> choose_engine validator_impls nm = choose_engine marshaller_impls nm"
  by (simp add: choose_engine_def validator_impls_def lib_names(4)[symmetric] split: option.split)

lemma NewValidatorWithLibrary_switcher: "NewValidatorWithLibrary nm = choose_engine validator_impls nm"
proof (cases "nm = lit ''tidwall''")
  case True
  then show ?thesis by (simp add: NewValidatorWithLibrary_def choose_engine_def validator_impls_def)
next
  case False
  then show ?thesis using NewWithLibrary_switcher validator_other by (simp add: NewValidatorWithLibrary_def)
qed

text \<open>The validator of tidwall does not marshal: that setting gives the default library.\<close>

lemma tidwall_marshals_with_default: "choose_engine marshaller_impls (lit ''tidwall'') = Sonnet"
  using lib_names by (simp add: choose_engine_def marshaller_impls_def)

end
