(* ===== verification/Httptest.thy ===== *)
theory Httptest
  imports Kit_Prelude
begin

text \<open>
  The test server of \<open>testhelper/httptest\<close>: its life cycle, and the connections it tracks through the hook that \<open>net/http\<close>
  calls. A connection is a number; closing one is recorded, the library then reports its end through the hook. Certificates
  and transports are the library.
\<close>

datatype conn_state = StateNew | StateActive | StateIdle | StateHijacked | StateClosed

record server =
  URL :: gostr
  conns :: "nat \<rightharpoonup> conn_state"
  server_closed :: bool
  wg :: int
  closing :: "nat set"

definition NewUnstartedServer :: server where
  "NewUnstartedServer = \<lparr>URL = [], conns = Map.empty, server_closed = False, wg = 0, closing = {}\<rparr>"

text \<open>A second start panics: \<open>None\<close>. The goroutine that serves counts as one.\<close>

definition Start :: "gostr \<Rightarrow> server \<Rightarrow> server option" where
  "Start port s = (if URL s \<noteq> [] then None else Some (s\<lparr>URL := lit ''http://127.0.0.1:'' @ port, wg := wg s + 1\<rparr>))"

definition StartTLS :: "gostr \<Rightarrow> gostr \<Rightarrow> server \<Rightarrow> server option" where
  "StartTLS host port s =
     (if URL s \<noteq> [] then None
      else Some (s\<lparr>URL := lit ''https://'' @ (if host = [] then lit ''127.0.0.1'' else host) @ [58] @ port, wg := wg s + 1\<rparr>))"

definition tls_hosts :: "gostr \<Rightarrow> gostr list" where
  "tls_hosts host = [lit ''127.0.0.1'', lit ''::1'', lit ''example.com''] @ (if host = [] then [] else [host])"

text \<open>The protocols that are offered, where the configuration of the caller names none.\<close>

definition next_protos :: "bool \<Rightarrow> gostr list option \<Rightarrow> gostr list" where
  "next_protos EnableHTTP2 existing =
     (case existing of Some ps \<Rightarrow> ps | None \<Rightarrow> if EnableHTTP2 then [lit ''h2''] else [lit ''http/1.1''])"

text \<open>The names in the certificate: what parses as an address, and the rest.\<close>

definition cert_names :: "(gostr \<Rightarrow> bool) \<Rightarrow> gostr list \<Rightarrow> gostr list \<times> gostr list" where
  "cert_names is_ip hosts = (filter is_ip hosts, filter (\<lambda>h. \<not> is_ip h) hosts)"

text \<open>\<open>NewServer\<close> and \<open>NewTLSServer\<close>, with the port of the listener.\<close>

definition NewServer :: "gostr \<Rightarrow> server option" where
  "NewServer port = Start port NewUnstartedServer"

definition NewTLSServer :: "gostr \<Rightarrow> gostr \<Rightarrow> server option" where
  "NewTLSServer host port = StartTLS host port NewUnstartedServer"

definition closeConn :: "nat \<Rightarrow> server \<Rightarrow> server" where
  "closeConn c s = s\<lparr>closing := insert c (closing s)\<rparr>"

text \<open>The hook; \<open>None\<close> is the panic of an invalid transition.\<close>

definition conn_hook :: "nat \<Rightarrow> conn_state \<Rightarrow> server \<Rightarrow> server option" where
  "conn_hook c cs s =
     (case cs of
        StateNew \<Rightarrow>
          if conns s c \<noteq> None then None
          else (let s1 = s\<lparr>wg := wg s + 1, conns := (conns s)(c \<mapsto> cs)\<rparr>
                in Some (if server_closed s then closeConn c s1 else s1))
      | StateActive \<Rightarrow>
          (case conns s c of
             None \<Rightarrow> Some s
           | Some old \<Rightarrow> if old \<noteq> StateNew \<and> old \<noteq> StateIdle then None else Some (s\<lparr>conns := (conns s)(c \<mapsto> cs)\<rparr>))
      | StateIdle \<Rightarrow>
          (case conns s c of
             Some old \<Rightarrow>
               if old \<noteq> StateActive then None
               else (let s1 = s\<lparr>conns := (conns s)(c \<mapsto> cs)\<rparr> in Some (if server_closed s then closeConn c s1 else s1))
           | None \<Rightarrow> Some (if server_closed s then closeConn c s else s))
      | _ \<Rightarrow>
          if conns s c \<noteq> None then Some (s\<lparr>conns := (conns s)(c := None), wg := wg s - 1\<rparr>) else Some s)"

text \<open>\<open>Close\<close> up to its wait: new and idle connections are closed once.\<close>

definition Close_begin :: "server \<Rightarrow> server" where
  "Close_begin s =
     (if server_closed s then s
      else s\<lparr>server_closed := True, closing := closing s \<union> {c. conns s c = Some StateIdle \<or> conns s c = Some StateNew}\<rparr>)"

text \<open>The wait ends when nothing is counted any more.\<close>

definition Close_returns :: "server \<Rightarrow> bool" where
  "Close_returns s \<longleftrightarrow> wg s = 0"

definition CloseClientConnections :: "server \<Rightarrow> server" where
  "CloseClientConnections s = s\<lparr>closing := closing s \<union> dom (conns s)\<rparr>"

text \<open>The calls, the hook, and the end of the goroutine that serves, once the listener is closed.\<close>

inductive server_step :: "server \<Rightarrow> server \<Rightarrow> bool" where
  hook: "conn_hook c cs s = Some s' \<Longrightarrow> server_step s s'"
| close: "server_step s (Close_begin s)"
| close_clients: "server_step s (CloseClientConnections s)"

definition server_ok :: "server \<Rightarrow> bool" where
  "server_ok s \<longleftrightarrow> finite (dom (conns s)) \<and> wg s = 1 + int (card (dom (conns s)))
     \<and> (\<forall>c. conns s c \<noteq> Some StateHijacked \<and> conns s c \<noteq> Some StateClosed)
     \<and> (server_closed s \<longrightarrow> (\<forall>c. conns s c = Some StateNew \<or> conns s c = Some StateIdle \<longrightarrow> c \<in> closing s))"

lemma card_without: "finite (dom m) \<Longrightarrow> m c = Some y \<Longrightarrow> int (card (dom m)) = 1 + int (card (dom m - {c}))"
proof -
  assume a: "finite (dom m)" "m c = Some y"
  then have "card (dom m) = Suc (card (dom m - {c}))" by (intro card.remove) auto
  then show ?thesis by simp
qed

lemma server_ok_hook: "server_ok s \<Longrightarrow> conn_hook c cs s = Some s' \<Longrightarrow> server_ok s'"
proof (cases cs)
  case StateNew
  then show "server_ok s \<Longrightarrow> conn_hook c cs s = Some s' \<Longrightarrow> ?thesis"
    by (auto simp: conn_hook_def server_ok_def closeConn_def Let_def domIff split: if_splits)
next
  case StateActive
  then show "server_ok s \<Longrightarrow> conn_hook c cs s = Some s' \<Longrightarrow> ?thesis"
    by (auto simp: conn_hook_def server_ok_def insert_dom split: if_splits option.splits)
next
  case StateIdle
  then show "server_ok s \<Longrightarrow> conn_hook c cs s = Some s' \<Longrightarrow> ?thesis"
    by (auto simp: conn_hook_def server_ok_def closeConn_def insert_dom Let_def split: if_splits option.splits)
next
  case StateHijacked
  then show "server_ok s \<Longrightarrow> conn_hook c cs s = Some s' \<Longrightarrow> ?thesis"
    using card_without[of "conns s" c] by (auto simp: conn_hook_def server_ok_def split: if_splits)
next
  case StateClosed
  then show "server_ok s \<Longrightarrow> conn_hook c cs s = Some s' \<Longrightarrow> ?thesis"
    using card_without[of "conns s" c] by (auto simp: conn_hook_def server_ok_def split: if_splits)
qed

lemma server_ok_step: "server_ok s \<Longrightarrow> server_step s s' \<Longrightarrow> server_ok s'"
  by (erule server_step.cases)
    (auto simp: server_ok_hook, auto simp: server_ok_def Close_begin_def CloseClientConnections_def)

definition started :: "server \<Rightarrow> bool" where
  "started s \<longleftrightarrow> (\<exists>port. NewServer port = Some s) \<or> (\<exists>host port. NewTLSServer host port = Some s)"

interpretation server: transition_system started server_step server_ok
proof
  show "started s \<Longrightarrow> server_ok s" for s
    by (auto simp: started_def NewServer_def NewTLSServer_def Start_def StartTLS_def NewUnstartedServer_def server_ok_def)
qed (rule server_ok_step)

text \<open>In every reachable state the wait of \<open>Close\<close> counts the goroutine that serves and the tracked connections, and once
  \<open>Close\<close> was called every tracked connection but those with a request in progress is being closed.\<close>

lemma close_waits_for_active:
  assumes "started s0" "server_step\<^sup>*\<^sup>* s0 s" "server_closed s"
  shows "wg s = 1 + int (card (dom (conns s))) \<and> {c \<in> dom (conns s). c \<notin> closing s} \<subseteq> {c. conns s c = Some StateActive}"
proof -
  have ok: "server_ok s" using server.reach_inv[OF assms(1,2)] .
  have "conns s c = Some StateActive" if d: "c \<in> dom (conns s)" "c \<notin> closing s" for c
  proof -
    obtain x where "conns s c = Some x" using d(1) by auto
    then show ?thesis using ok d(2) assms(3) by (cases x) (auto simp: server_ok_def)
  qed
  then show ?thesis using ok by (auto simp: server_ok_def)
qed

end
