(* ===== verification/Limiter_Exec.thy ===== *)
theory Limiter_Exec
  imports Stats_Kit Limiter
begin

text \<open>
  What surrounds the slots of \<open>sync/limiter.go\<close>: the options, the three gauges of a limiter, and an execution with its
  working, waiting and sleeping time and the timings it sends when it ends. Every reading of the clock is an argument, in
  the order of the code. Floats are reals.
\<close>

subsection \<open>Options and gauges\<close>

record limiter_conf =
  lc_name :: gostr
  lc_tags :: tags
  lc_dynamicPeriod :: duration
  lc_triggerFunc :: "duration option"

text \<open>The trigger is the time between two reports; \<open>None\<close>: a function of the caller.\<close>

definition WithLimiterStatsTriggerFunc :: "limiter_conf \<Rightarrow> limiter_conf" where
  "WithLimiterStatsTriggerFunc l = l\<lparr>lc_triggerFunc := None\<rparr>"

definition WithLimiterDynamicPeriod :: "duration \<Rightarrow> limiter_conf \<Rightarrow> limiter_conf" where
  "WithLimiterDynamicPeriod p l = l\<lparr>lc_dynamicPeriod := p\<rparr>"

definition WithLimiterTags :: "tags \<Rightarrow> limiter_conf \<Rightarrow> limiter_conf" where
  "WithLimiterTags ts l = l\<lparr>lc_tags := ts\<rparr>"

text \<open>The limiter with its options, and the names and tags of the gauges for the waiting, the active and the availability.\<close>

definition configured_limiter :: "gostr \<Rightarrow> int \<Rightarrow> (limiter_conf \<Rightarrow> limiter_conf) list \<Rightarrow> (limiter \<times> limiter_conf \<times> (gostr \<times> tags) list) option" where
  "configured_limiter nm n opts =
     (let lc = fold (\<lambda>opt. opt) opts \<lparr>lc_name = nm, lc_tags = [], lc_dynamicPeriod = 0, lc_triggerFunc = Some (15 * 10 ^ 9)\<rparr>
      in map_option (\<lambda>l. (l, lc, [(nm @ lit ''_limiter_waiting_routines'', lc_tags lc), (nm @ lit ''_limiter_active_routines'', lc_tags lc),
             (nm @ lit ''_limiter_availability'', lc_tags lc)]))
           (NewReloadableLimiter n (lc_dynamicPeriod lc)))"

text \<open>One report: active, waiting, availability. The last is \<open>None\<close> where the division is by zero: an infinity or no number.\<close>

definition limiter_report :: "limiter \<Rightarrow> int \<times> int \<times> real option" where
  "limiter_report l =
     (count l, int (Len (waitList l)), if limit l = 0 then None else Some (real_of_int (limit l - count l) / real_of_int (limit l)))"

subsection \<open>An execution\<close>

record execution =
  ex_p :: int
  ex_tags :: tags
  workingStart :: gotime
  totalWorking :: duration
  totalWaiting :: duration
  totalSleeping :: duration
  ended :: bool
  endOnce :: bool

definition Assign :: "tags \<Rightarrow> tags \<Rightarrow> tags" where
  "Assign a b = filter (\<lambda>(k, _). k \<notin> fst ` set b) a @ b"

text \<open>\<open>BeginWithSleepAndPriority\<close>: the clock before and after the wait, and at the end.\<close>

definition begin_execution :: "limiter_conf \<Rightarrow> gostr \<Rightarrow> int \<Rightarrow> gotime \<Rightarrow> gotime \<Rightarrow> gotime \<Rightarrow> execution" where
  "begin_execution lc ky priority start waited now =
     \<lparr>ex_p = priority, ex_tags = Assign (lc_tags lc) [(lit ''key'', ky)], workingStart = now, totalWorking = 0,
      totalWaiting = waited - start, totalSleeping = 0, ended = False, endOnce = False\<rparr>"

text \<open>\<open>End\<close>; whether a slot is given back, and the timings sent.\<close>

definition end_execution :: "limiter_conf \<Rightarrow> gotime \<Rightarrow> execution \<Rightarrow> (bool \<times> (gostr \<times> tags \<times> duration) list) \<times> execution" where
  "end_execution lc now le =
     (if endOnce le then ((False, []), le)
      else let le1 = le\<lparr>endOnce := True, totalWorking := totalWorking le + (now - workingStart le), ended := True\<rparr>
           in ((True, [(lc_name lc @ lit ''_limiter_waiting'', ex_tags le1, totalWaiting le1),
                       (lc_name lc @ lit ''_limiter_sleeping'', ex_tags le1, totalSleeping le1),
                       (lc_name lc @ lit ''_limiter_working'', ex_tags le1, totalWorking le1)]), le1))"

text \<open>\<open>Sleep\<close> reads the clock at its start (\<open>t_start\<close>), after giving the slot back (\<open>t_ended\<close>), when it wakes (\<open>t_woken\<close>),
  before the wait (\<open>t_wait\<close>), with the slot (\<open>t_got\<close>), and last (\<open>t_work\<close>). \<open>cancelled\<close>: the context ended the sleep.\<close>

record sleep_clock =
  t_start :: gotime
  t_ended :: gotime
  t_woken :: gotime
  t_wait :: gotime
  t_got :: gotime
  t_work :: gotime

datatype sleep_error = SleepNotAllowed | ContextError

definition Sleep :: "sleep_clock \<Rightarrow> bool \<Rightarrow> execution \<Rightarrow> sleep_error option \<times> execution" where
  "Sleep c cancelled le =
     (if ended le then (Some SleepNotAllowed, le)
      else (if cancelled then Some ContextError else None,
            le\<lparr>totalWorking := totalWorking le + (t_ended c - workingStart le),
               totalSleeping := totalSleeping le + (t_woken c - t_start c),
               totalWaiting := totalWaiting le + (t_got c - t_wait c),
               workingStart := t_work c\<rparr>))"

fun sleeps :: "(sleep_clock \<times> bool) list \<Rightarrow> execution \<Rightarrow> execution" where
  "sleeps [] le = le"
| "sleeps ((c, x) # cs) le = sleeps cs (snd (Sleep c x le))"

subsection \<open>The times add up\<close>

text \<open>What a sleep counts twice (giving the slot back is both work and sleep) less what no total counts.\<close>

definition slack :: "sleep_clock \<Rightarrow> duration" where
  "slack c = (t_ended c - t_start c) - (t_wait c - t_woken c) - (t_work c - t_got c)"

definition accounted :: "execution \<Rightarrow> duration" where
  "accounted le = totalWorking le + totalWaiting le + totalSleeping le"

lemma sleeps_accounted:
  "\<not> ended le \<Longrightarrow> accounted (sleeps cs le) - workingStart (sleeps cs le) = accounted le - workingStart le + sum_list (map (slack \<circ> fst) cs)
     \<and> ended (sleeps cs le) = ended le \<and> endOnce (sleeps cs le) = endOnce le \<and> ex_tags (sleeps cs le) = ex_tags le"
proof (induction cs arbitrary: le)
  case (Cons a cs)
  obtain c x where a: "a = (c, x)" by (cases a)
  let ?le = "snd (Sleep c x le)"
  have "accounted ?le - workingStart ?le = accounted le - workingStart le + slack c" "\<not> ended ?le" "endOnce ?le = endOnce le" "ex_tags ?le = ex_tags le"
    using Cons.prems by (simp_all add: Sleep_def accounted_def slack_def)
  then show ?case using Cons.IH[of ?le] Cons.prems by (simp add: a)
qed simp

text \<open>The three timings of an execution add up to the time from the begin to the end, but for the instants between two readings
  of the clock and for the return of the slot at a sleep, which is counted as work and as sleep. They are sent once, whatever
  the number of calls of \<open>End\<close>, and the slot is given back once.\<close>

lemma execution_accounted:
  "\<exists>waiting sleeping working le'.
     end_execution lc now (sleeps cs (begin_execution lc ky prio start waited work)) =
       ((True, [(lc_name lc @ lit ''_limiter_waiting'', Assign (lc_tags lc) [(lit ''key'', ky)], waiting),
                (lc_name lc @ lit ''_limiter_sleeping'', Assign (lc_tags lc) [(lit ''key'', ky)], sleeping),
                (lc_name lc @ lit ''_limiter_working'', Assign (lc_tags lc) [(lit ''key'', ky)], working)]), le')
     \<and> working + waiting + sleeping = (now - start) - (work - waited) + sum_list (map (slack \<circ> fst) cs)
     \<and> end_execution lc now' le' = ((False, []), le') \<and> Sleep c x le' = (Some SleepNotAllowed, le')"
proof -
  let ?b = "begin_execution lc ky prio start waited work"
  have b: "\<not> ended ?b" "\<not> endOnce ?b" "accounted ?b - workingStart ?b = waited - start - work"
    "ex_tags ?b = Assign (lc_tags lc) [(lit ''key'', ky)]"
    by (simp_all add: begin_execution_def accounted_def)
  then show ?thesis using sleeps_accounted[OF b(1), of cs]
    by (simp add: end_execution_def Let_def Sleep_def) (simp add: accounted_def algebra_simps)
qed

subsection \<open>The availability\<close>

text \<open>While the limit keeps its value, the reported availability is between 0 and 1, in every reachable state.\<close>

lemma availability_bounds:
  assumes "lreach {n} s" "0 < n"
  shows "\<exists>x. snd (snd (limiter_report (lim s))) = Some x \<and> 0 \<le> x \<and> x \<le> 1"
proof -
  have inv: "linv {n} s" by (rule linv_lreach[OF assms(1)])
  then have "limit (lim s) = n" "0 \<le> count (lim s)" "count (lim s) \<le> n" using assms(2) by (auto simp: linv_def)
  then show ?thesis using assms(2)
    by (intro exI[of _ "real_of_int (limit (lim s) - count (lim s)) / real_of_int (limit (lim s))"])
      (auto simp: limiter_report_def divide_simps)
qed

text \<open>A limit that is lowered below the number of running executions makes it negative.\<close>

lemma availability_negative:
  "\<exists>s. lreach {1, 2} s \<and> snd (snd (limiter_report (lim s))) = Some (-1)"
proof -
  let ?l = "\<lparr>limit = 2, dynamicPeriod = 0, count = 0,
    waitList = heap_Init \<lparr>items = (\<lambda>_. \<lparr>Value = (), Priority = 0, timeStamp = 0, index = 0\<rparr>), slots = []\<rparr>\<rparr>"
  let ?s0 = "\<lparr>lim = ?l, stat = (\<lambda>_. Fresh)\<rparr>"
  let ?s1 = "\<lparr>lim = ?l\<lparr>count := 1\<rparr>, stat = (stat ?s0)(0 := Running)\<rparr>"
  let ?s2 = "\<lparr>lim = ?l\<lparr>count := 2\<rparr>, stat = (stat ?s1)(1 := Running)\<rparr>"
  let ?s3 = "\<lparr>lim = (lim ?s2)\<lparr>limit := 1\<rparr>, stat = stat ?s2\<rparr>"
  have "lreach {1, 2} ?s0" by (rule lreach.init[of 2 _ 0]) (simp_all add: NewReloadableLimiter_def)
  then have 1: "lreach {1, 2} ?s1"
    by (rule lreach.step) (rule begin_acquired[where prio = 1 and t = 0], simp_all add: wait_section_def)
  have 2: "lreach {1, 2} ?s2"
    by (rule lreach.step[OF 1]) (rule begin_acquired[where prio = 1 and t = 0], simp_all add: wait_section_def)
  have "lstep {1, 2} ?s2 ?s3" by (rule lstep.reload) simp
  then have "lreach {1, 2} ?s3" by (rule lreach.step[OF 2])
  moreover have "snd (snd (limiter_report (lim ?s3))) = Some (-1)" by (simp add: limiter_report_def)
  ultimately show ?thesis by blast
qed

text \<open>With the clock not going backwards every timing is at least zero.\<close>

definition clock_ok :: "gotime \<Rightarrow> sleep_clock \<Rightarrow> bool" where
  "clock_ok t c \<longleftrightarrow> t \<le> t_start c \<and> t_start c \<le> t_ended c \<and> t_ended c \<le> t_woken c \<and> t_woken c \<le> t_wait c \<and> t_wait c \<le> t_got c \<and> t_got c \<le> t_work c"

fun clocks_ok :: "gotime \<Rightarrow> (sleep_clock \<times> bool) list \<Rightarrow> bool" where
  "clocks_ok t [] = True"
| "clocks_ok t ((c, x) # cs) \<longleftrightarrow> clock_ok t c \<and> clocks_ok (t_work c) cs"

lemma sleeps_nonneg:
  "\<not> ended le \<Longrightarrow> clocks_ok (workingStart le) cs \<Longrightarrow> 0 \<le> totalWorking le \<Longrightarrow> 0 \<le> totalWaiting le \<Longrightarrow> 0 \<le> totalSleeping le \<Longrightarrow>
     0 \<le> totalWorking (sleeps cs le) \<and> 0 \<le> totalWaiting (sleeps cs le) \<and> 0 \<le> totalSleeping (sleeps cs le)"
proof (induction cs arbitrary: le)
  case (Cons a cs)
  obtain c x where a: "a = (c, x)" by (cases a)
  show ?case using Cons.IH[of "snd (Sleep c x le)"] Cons.prems by (auto simp: a Sleep_def clock_ok_def)
qed simp

end
