(* ===== verification/Mem_Store.thy ===== *)
theory Mem_Store
  imports Stats_Kit
begin

text \<open>
  The rest of \<open>stats/memstats\<close>: the options of a store and what its tracer writes to, readings by name, timers that are
  started and stopped, collectors, and the spans read back from the text the trace exporter printed. A panic is \<open>None\<close>.
\<close>

subsection \<open>The store\<close>

text \<open>The clock by name, 0 being \<open>time.Now\<close>. The buffer is there only with tracing.\<close>

record store_opts =
  withTracing :: bool
  tracingTimestamps :: bool
  now_fn :: nat

datatype tracer_provider_kind = NoopProvider | SyncedStdout (with_timestamps: bool)

record store =
  opts_of :: store_opts
  tracingBuffer :: "gostr option"
  tracerProvider_kind :: tracer_provider_kind
  byKey :: mem_store

definition WithNow :: "nat \<Rightarrow> store_opts \<Rightarrow> store_opts" where
  "WithNow f s = s\<lparr>now_fn := f\<rparr>"

definition WithTracing :: "store_opts \<Rightarrow> store_opts" where
  "WithTracing s = s\<lparr>withTracing := True\<rparr>"

definition WithTracingTimestamps :: "store_opts \<Rightarrow> store_opts" where
  "WithTracingTimestamps s = s\<lparr>tracingTimestamps := True\<rparr>"

text \<open>\<open>exporter_err\<close>: what \<open>stdouttrace.New\<close> returns.\<close>

definition mem_New :: "'e option \<Rightarrow> (store_opts \<Rightarrow> store_opts) list \<Rightarrow> 'e + store" where
  "mem_New exporter_err opts =
     (let s = fold (\<lambda>opt. opt) opts \<lparr>withTracing = False, tracingTimestamps = False, now_fn = 0\<rparr>
      in if \<not> withTracing s then Inr \<lparr>opts_of = s, tracingBuffer = None, tracerProvider_kind = NoopProvider, byKey = Map.empty\<rparr>
         else case exporter_err of
                Some e \<Rightarrow> Inl e
              | None \<Rightarrow> Inr \<lparr>opts_of = s, tracingBuffer = Some [], tracerProvider_kind = SyncedStdout (tracingTimestamps s), byKey = Map.empty\<rparr>)"

definition mem_NewStat :: "gostr \<Rightarrow> stat_type \<Rightarrow> mem_store \<Rightarrow> gostr \<times> mem_store" where
  "mem_NewStat nm t st = mem_NewTaggedStat nm t [] st"

definition mem_Get :: "gostr \<Rightarrow> tags \<Rightarrow> mem_store \<Rightarrow> mem_measurement option" where
  "mem_Get nm ts st = st (getKey nm ts)"

fun all_some :: "'a option list \<Rightarrow> 'a list option" where
  "all_some [] = Some []"
| "all_some (None # xs) = None"
| "all_some (Some x # xs) = map_option ((#) x) (all_some xs)"

definition GetAll :: "gostr list \<Rightarrow> mem_store \<Rightarrow> (gostr \<times> tags \<times> reading) list option" where
  "GetAll ks st = all_some (getAllByName ks [] st)"

definition GetByName :: "gostr list \<Rightarrow> gostr \<Rightarrow> mem_store \<Rightarrow> (gostr \<times> tags \<times> reading) list option" where
  "GetByName ks nm st = (if nm = [] then None else all_some (getAllByName ks nm st))"

subsection \<open>Timers and collectors\<close>

definition Since :: "gotime \<Rightarrow> gotime \<Rightarrow> mem_measurement \<Rightarrow> mem_measurement option" where
  "Since start now m = (if mm_type m \<noteq> TimerType then None else mem_call (MSendTiming (now - start)) m)"

text \<open>The function returned, as a function of the clock when it is called and of the measurement then.\<close>

definition RecordDuration :: "gotime \<Rightarrow> mem_measurement \<Rightarrow> (gotime \<Rightarrow> mem_measurement \<Rightarrow> mem_measurement option) option" where
  "RecordDuration now m = (if mm_type m \<noteq> TimerType then None else Some (Since now))"

lemma RecordDuration_records:
  "mm_type m = TimerType \<Longrightarrow> mm_type m' = TimerType \<Longrightarrow>
     \<exists>stop m''. RecordDuration t1 m = Some stop \<and> stop t2 m' = Some m'' \<and> LastDuration m'' = t2 - t1
       \<and> mm_durations m'' = mm_durations m' @ [t2 - t1] \<and> mm_values m'' = mm_values m'"
  by (simp add: RecordDuration_def Since_def mem_call_def LastDuration_def)

text \<open>\<open>RegisterCollector\<close>: \<open>Collect\<close> is called once, with a function that sets a gauge.\<close>

definition set_gauge :: "gostr \<times> tags \<times> u64 \<Rightarrow> mem_store \<Rightarrow> mem_store option" where
  "set_gauge x st =
     (let (ky, ts, val) = x; (k, st') = mem_NewTaggedStat ky GaugeType ts st
      in map_option (\<lambda>m. st'(k \<mapsto> m)) (mem_call (MGauge (real (unat val))) (the (st' k))))"

fun mem_RegisterCollector :: "(gostr \<times> tags \<times> u64) list \<Rightarrow> mem_store \<Rightarrow> mem_store option" where
  "mem_RegisterCollector [] st = Some st"
| "mem_RegisterCollector (x # xs) st = Option.bind (set_gauge x st) (mem_RegisterCollector xs)"

text \<open>The type of a key never changes, and a measurement is filed under its name and tags.\<close>

definition store_ok :: "mem_store \<Rightarrow> bool" where
  "store_ok st \<longleftrightarrow> (\<forall>k m. st k = Some m \<longrightarrow> k = getKey (mm_name m) (mm_tags m))"

lemma mem_call_keeps: "mem_call x m = Some m' \<Longrightarrow> mm_type m' = mm_type m \<and> mm_name m' = mm_name m \<and> mm_tags m' = mm_tags m"
  by (auto simp: mem_call_def mem_count_def split: if_splits mem_op.splits)

lemma set_gauge_ok:
  assumes "store_ok st" "set_gauge (nm, ts, v) st = Some st'"
  shows "store_ok st' \<and> (\<exists>m. st' (getKey nm ts) = Some m \<and> mm_type m = GaugeType \<and> LastValue m = real (unat v))
    \<and> (\<forall>k m. st k = Some m \<longrightarrow> (\<exists>m'. st' k = Some m' \<and> mm_type m' = mm_type m \<and> (k \<noteq> getKey nm ts \<longrightarrow> m' = m)))"
proof (cases "st (getKey nm ts)")
  case None
  then show ?thesis using assms
    by (auto simp: set_gauge_def mem_NewTaggedStat_def Let_def mem_call_def store_ok_def LastValue_def split: if_splits)
next
  case (Some m)
  then obtain m' where m': "mem_call (MGauge (real (unat v))) m = Some m'" "st' = st(getKey nm ts \<mapsto> m')"
    using assms(2) by (auto simp: set_gauge_def mem_NewTaggedStat_def Let_def)
  have "mm_type m' = GaugeType \<and> LastValue m' = real (unat v) \<and> mm_type m = GaugeType"
    using m'(1) by (auto simp: mem_call_def LastValue_def split: if_splits)
  then show ?thesis using assms(1) m' mem_call_keeps[OF m'(1)] Some by (auto simp: store_ok_def)
qed

text \<open>A collector is registered without panic exactly when none of its keys has another type; every gauge then has the last value
  collected for its key.\<close>

lemma register_panics_iff:
  "store_ok st \<Longrightarrow> mem_RegisterCollector xs st = None \<longleftrightarrow>
     (\<exists>(nm, ts, v) \<in> set xs. \<exists>m. st (getKey nm ts) = Some m \<and> mm_type m \<noteq> GaugeType)"
proof (induction xs arbitrary: st)
  case (Cons x xs)
  obtain nm ts v where x: "x = (nm, ts, v)" by (cases x)
  show ?case
  proof (cases "set_gauge x st")
    case None
    then have "\<exists>m. st (getKey nm ts) = Some m \<and> mm_type m \<noteq> GaugeType"
      by (auto simp: x set_gauge_def mem_NewTaggedStat_def Let_def mem_call_def split: option.splits if_splits)
    then show ?thesis using None by (simp add: x)
  next
    case (Some st')
    have st': "store_ok st'" "\<And>k m. st k = Some m \<Longrightarrow> \<exists>m'. st' k = Some m' \<and> mm_type m' = mm_type m"
      and g: "\<exists>m. st' (getKey nm ts) = Some m \<and> mm_type m = GaugeType"
      and o: "\<And>k. k \<noteq> getKey nm ts \<Longrightarrow> st' k = st k"
      using set_gauge_ok[OF Cons.prems, of nm ts v st'] Some
      by (auto simp: x set_gauge_def mem_NewTaggedStat_def Let_def split: option.splits)
    have n: "\<not> (\<exists>m. st (getKey nm ts) = Some m \<and> mm_type m \<noteq> GaugeType)" using st'(2) g by force
    have "(\<exists>m. st' k = Some m \<and> mm_type m \<noteq> GaugeType) \<longleftrightarrow> (\<exists>m. st k = Some m \<and> mm_type m \<noteq> GaugeType)" for k
      using n g o by (cases "k = getKey nm ts") auto
    then show ?thesis using Cons.IH[OF st'(1)] Some n by (simp add: x split_def) blast
  qed
qed simp

subsection \<open>Spans\<close>

text \<open>\<open>strings.ReplaceAll\<close>, for an old string that is not empty.\<close>

function replace_all :: "gostr \<Rightarrow> gostr \<Rightarrow> gostr \<Rightarrow> gostr" where
  "replace_all old new s =
     (if s = [] then []
      else if old \<noteq> [] \<and> take (length old) s = old then new @ replace_all old new (drop (length old) s)
      else hd s # replace_all old new (tl s))"
  by pat_completeness auto
termination by (relation "measure (\<lambda>(old, new, s). length s)") auto

declare replace_all.simps [simp del]

text \<open>The text that is decoded; \<open>None\<close>: there is no buffer.\<close>

definition spans_json :: "gostr \<Rightarrow> gostr" where
  "spans_json buf = replace_all [125, 10, 123] [125, 44, 123] ([91] @ buf @ [93])"

definition Spans :: "(gostr \<Rightarrow> 'e + 's list) \<Rightarrow> store \<Rightarrow> ('e + 's list) option" where
  "Spans Unmarshal s =
     (case tracingBuffer s of
        None \<Rightarrow> None
      | Some buf \<Rightarrow> Some (if buf = [] then Inr [] else Unmarshal (spans_json buf)))"

text \<open>Without tracing there is no buffer: the call dereferences nil.\<close>

lemma Spans_without_tracing: "mem_New err [] = Inr s \<Longrightarrow> Spans Unmarshal s = None"
  by (auto simp: mem_New_def Spans_def)

text \<open>An object as the exporter prints it: from brace to brace, with no line that starts right after a closing brace with an
  opening one.\<close>

fun no_seam :: "gostr \<Rightarrow> bool" where
  "no_seam (a # b # c # s) \<longleftrightarrow> \<not> (a = 125 \<and> b = 10 \<and> c = 123) \<and> no_seam (b # c # s)"
| "no_seam s \<longleftrightarrow> True"

definition printed_object :: "gostr \<Rightarrow> bool" where
  "printed_object ob \<longleftrightarrow> no_seam ob \<and> 2 \<le> length ob \<and> hd ob = 123 \<and> last ob = 125"

lemma seam_take: "take (length [125, 10, 123]) s = [125, 10, 123] \<longleftrightarrow> (\<exists>t. s = 125 # 10 # 123 # (t :: gostr))"
  by (cases s rule: no_seam.cases) auto

lemma replace_skip: "\<not> take (length old) (a # s) = old \<Longrightarrow> replace_all old new (a # s) = a # replace_all old new s"
  by (subst replace_all.simps) simp

lemma replace_before:
  "no_seam (w @ [125]) \<Longrightarrow> replace_all [125, 10, 123] new (w @ 125 # 10 # 123 # u) = w @ new @ replace_all [125, 10, 123] new u"
proof (induction w)
  case Nil
  show ?case by (subst append_Nil, subst replace_all.simps) simp
next
  case (Cons a w)
  have "\<not> take (length [125, 10, 123]) ((a # w) @ 125 # 10 # 123 # u) = [125, 10, 123]"
    using Cons.prems by (subst seam_take) (cases w rule: no_seam.cases; auto)
  moreover have "no_seam (w @ [125])" using Cons.prems by (cases w rule: no_seam.cases) auto
  ultimately show ?case using Cons.IH replace_skip[of "[125, 10, 123]"] by (metis append_Cons)
qed

lemma replace_end:
  "no_seam (w @ [125]) \<Longrightarrow> replace_all [125, 10, 123] new (w @ [125, 10, 93]) = w @ [125, 10, 93]"
proof (induction w)
  case Nil
  show ?case by (simp add: replace_all.simps)
next
  case (Cons a w)
  have "\<not> take (length [125, 10, 123]) ((a # w) @ [125, 10, 93]) = [125, 10, 123]"
    using Cons.prems by (subst seam_take) (cases w rule: no_seam.cases; auto)
  moreover have "no_seam (w @ [125])" using Cons.prems by (cases w rule: no_seam.cases) auto
  ultimately show ?case using Cons.IH replace_skip[of "[125, 10, 123]"] by (metis append_Cons)
qed

lemma printed_object_tail:
  assumes "printed_object ob"
  obtains w where "ob = 123 # w @ [125]" "no_seam (w @ [125])"
proof -
  obtain v where v: "ob = 123 # v" "v \<noteq> []" "last v = 125" using assms by (cases ob) (auto simp: printed_object_def split: if_splits)
  then have "v = butlast v @ [125]" by (metis append_butlast_last_id)
  moreover have "no_seam v" using assms v(1) by (cases v rule: no_seam.cases) (auto simp: printed_object_def)
  ultimately show ?thesis using that[of "butlast v"] v(1) by metis
qed

lemma Join_Cons: "Join ((c # x) # xs) sep = c # Join (x # xs) sep"
  by (cases xs) auto

lemma replace_objects:
  "list_all printed_object obs \<Longrightarrow> no_seam (w @ [125]) \<Longrightarrow>
     replace_all [125, 10, 123] [125, 44, 123] ((w @ [125]) @ 10 # concat (map (\<lambda>ob. ob @ [10]) obs) @ [93])
       = Join ((w @ [125]) # obs) [44] @ [10, 93]"
proof (induction obs arbitrary: w)
  case (Cons ob obs)
  obtain v where v: "ob = 123 # v @ [125]" "no_seam (v @ [125])" using Cons.prems(1) printed_object_tail by auto
  have "(w @ [125]) @ 10 # concat (map (\<lambda>ob. ob @ [10]) (ob # obs)) @ [93]
      = w @ 125 # 10 # 123 # (v @ [125]) @ 10 # concat (map (\<lambda>ob. ob @ [10]) obs) @ [93]" by (simp add: v)
  then show ?case using Cons.IH[OF _ v(2)] Cons.prems replace_before[OF Cons.prems(2)] by (simp add: v(1) Join_Cons)
qed (use replace_end in simp)

text \<open>The exporter prints every object and a line end. What is decoded is the list of exactly these objects.\<close>

lemma spans_json_list:
  assumes "list_all printed_object obs" "obs \<noteq> []"
  shows "spans_json (concat (map (\<lambda>ob. ob @ [10]) obs)) = [91] @ Join obs [44] @ [10, 93]"
proof -
  obtain ob obs' where o: "obs = ob # obs'" "printed_object ob" "list_all printed_object obs'" using assms by (cases obs) auto
  obtain v where v: "ob = 123 # v @ [125]" "no_seam (v @ [125])" using o(2) printed_object_tail by blast
  have "no_seam ((91 # 123 # v) @ [125])" using o(2) v by (cases v rule: no_seam.cases) (auto simp: printed_object_def)
  from replace_objects[OF o(3) this] show ?thesis
    by (simp add: spans_json_def o(1) v(1) Join_Cons)
qed

end
