(* ===== verification/Log_Factory.thy ===== *)
theory Log_Factory
  imports Config Logger
begin

text \<open>
  The factory of \<open>logger/factory.go\<close>: the settings it reads, in order, from the configuration, the encoders, outputs and
  options of the zap logger it makes, and where a line then goes. What zap does with them is not modelled.
\<close>

record encoder_conf =
  json_encoder :: bool
  with_timestamp :: bool

datatype writer = Stdout | Discarder | RotatedFile (file_location: gostr) (max_size: "64 word")

record zap_setup =
  cores :: "(encoder_conf \<times> writer) list"
  addCaller :: bool
  addStacktrace :: bool
  zap_clock :: "nat option"

definition zapEncoder :: "golib \<Rightarrow> bool \<Rightarrow> config \<Rightarrow> encoder_conf \<times> config" where
  "zapEncoder L json c =
     (let (ts, c1) = GetBoolVar L True [lit ''Logger.enableTimestamp''] c
      in (\<lparr>json_encoder = json, with_timestamp = ts\<rparr>, c1))"

definition console_core :: "golib \<Rightarrow> config \<Rightarrow> (encoder_conf \<times> writer) list \<times> config" where
  "console_core L c =
     (let (enabled, c1) = GetBoolVar L True [lit ''Logger.enableConsole''] c
      in if \<not> enabled then ([], c1)
         else let (discard, c2) = GetBoolVar L False [lit ''Logger.discardConsole''] c1;
                  (json, c3) = GetBoolVar L False [lit ''Logger.consoleJsonFormat''] c2;
                  (enc, c4) = zapEncoder L json c3
              in ([(enc, if discard then Discarder else Stdout)], c4))"

definition file_core :: "golib \<Rightarrow> config \<Rightarrow> (encoder_conf \<times> writer) list \<times> config" where
  "file_core L c =
     (let (enabled, c1) = GetBoolVar L False [lit ''Logger.enableFile''] c
      in if \<not> enabled then ([], c1)
         else let (f, c2) = GetStringVar L (lit ''/tmp/rudder_log.log'') [lit ''Logger.logFileLocation''] c1;
                  (sz, c3) = GetIntVar L 100 1 [lit ''Logger.logFileSize''] c2;
                  (json, c4) = GetBoolVar L False [lit ''Logger.fileJsonFormat''] c3;
                  (enc, c5) = zapEncoder L json c4
              in ([(enc, RotatedFile f sz)], c5))"

definition newZapLogger :: "golib \<Rightarrow> nat option \<Rightarrow> config \<Rightarrow> zap_setup \<times> config" where
  "newZapLogger L clock c =
     (let (con, c1) = console_core L c;
          (fil, c2) = file_core L c1;
          (cal, c3) = GetBoolVar L True [lit ''Logger.enableFileNameInLog''] c2;
          (st, c4) = GetBoolVar L False [lit ''Logger.enableStackTrace''] c3
      in (\<lparr>cores = con @ fil, addCaller = cal, addStacktrace = st, zap_clock = clock\<rparr>, c4))"

text \<open>\<open>newConfig\<close> on the configuration; \<open>None\<close>: the reloadable variable panics on another type. The reloadable value is a
  pointer; here it is what it holds.\<close>

definition factory_newConfig :: "golib \<Rightarrow> config \<Rightarrow> ((('m, 'u) factoryConfig) option) \<times> config" where
  "factory_newConfig L c =
     (let (lv, c1) = GetStringVar L (lit ''INFO'') [lit ''LOG_LEVEL''] c;
          (nm, c2) = GetBoolVar L True [lit ''Logger.enableLoggerNameInLog''] c1;
          (p, c3) = GetReloadableBoolVar L False [lit ''Logger.enableStackTrace''] c2
      in case p of
           None \<Rightarrow> (None, c3)
         | Some p \<Rightarrow>
             let (ml, c4) = GetStringVar L [] [lit ''Logger.moduleLevels''] c3
             in (Some (Logger.newConfig lv nm (rel c4 p = VBool True) ml), c4))"

record ('m, 'u) factory =
  f_config :: "('m, 'u) factoryConfig"
  f_zap :: zap_setup
  f_info :: "(gostr \<Rightarrow> nat option) list"

text \<open>\<open>WithClock\<close> is the only option: the clock of the last one is used.\<close>

definition WithClock :: "nat \<Rightarrow> nat option \<Rightarrow> nat option" where
  "WithClock clock cur = Some clock"

definition NewFactory :: "golib \<Rightarrow> (nat option \<Rightarrow> nat option) list \<Rightarrow> config \<Rightarrow> ('m, 'u) factory option \<times> config" where
  "NewFactory L options c =
     (case factory_newConfig L c of
        (None, c1) \<Rightarrow> (None, c1)
      | (Some fc, c1) \<Rightarrow>
          (let (z, c2) = newZapLogger L (fold (\<lambda>opt. opt) options None) c1
           in (Some \<lparr>f_config = fc, f_zap = z, f_info = []\<rparr>, c2)))"

definition GetLoggingConfig :: "('m, 'u) factory \<Rightarrow> gostr \<Rightarrow> nat option" where
  "GetLoggingConfig f = levelConfigCache (f_config f)"

text \<open>A level that is not known is an error, and the configured levels are printed.\<close>

definition factory_SetLogLevel :: "gostr \<Rightarrow> gostr \<Rightarrow> ('m, 'u) factory \<Rightarrow> gostr option \<times> ('m, 'u) factory" where
  "factory_SetLogLevel nm levelStr f =
     (let (err, fc) = SetLogLevel nm levelStr (f_config f);
          f1 = f\<lparr>f_config := fc\<rparr>
      in (err, if err \<noteq> None then f1\<lparr>f_info := f_info f1 @ [levelConfig fc]\<rparr> else f1))"

subsection \<open>Where a line goes\<close>

text \<open>Every core writes every line that reaches zap, since all have the lowest level.\<close>

definition outputs :: "zap_setup \<Rightarrow> writer list" where
  "outputs z = map snd (cores z)"

text \<open>The outputs are at most the console, or what replaces it, and then the file.\<close>

lemma console_core_outputs: "\<exists>con discard. map snd (fst (console_core L c)) = (if con then [if discard then Discarder else Stdout] else [])"
proof (cases "fst (GetBoolVar L True [lit ''Logger.enableConsole''] c)")
  case True
  then show ?thesis
    by (intro exI[of _ True] exI[of _ "fst (GetBoolVar L False [lit ''Logger.discardConsole''] (snd (GetBoolVar L True [lit ''Logger.enableConsole''] c)))"])
      (simp add: console_core_def Let_def split_def)
next
  case False
  then show ?thesis by (intro exI[of _ False]) (simp add: console_core_def Let_def split_def)
qed

lemma file_core_outputs: "\<exists>fil f sz. map snd (fst (file_core L c)) = (if fil then [RotatedFile f sz] else [])"
proof (cases "fst (GetBoolVar L False [lit ''Logger.enableFile''] c)")
  case True
  then show ?thesis by (intro exI[of _ True]) (simp add: file_core_def Let_def split_def)
next
  case False
  then show ?thesis by (intro exI[of _ False]) (simp add: file_core_def Let_def split_def)
qed

lemma outputs_exact:
  "\<exists>con discard fil f sz. outputs (fst (newZapLogger L clock c)) =
     (if con then [if discard then Discarder else Stdout] else []) @ (if fil then [RotatedFile f sz] else [])"
proof -
  have "outputs (fst (newZapLogger L clock c)) = map snd (fst (console_core L c)) @ map snd (fst (file_core L (snd (console_core L c))))"
    unfolding newZapLogger_def outputs_def Let_def split_def by (simp only: fst_conv zap_setup.simps map_append)
  moreover obtain con discard where "map snd (fst (console_core L c)) = (if con then [if discard then Discarder else Stdout] else [])"
    using console_core_outputs by blast
  moreover obtain fil f sz where "map snd (fst (file_core L (snd (console_core L c)))) = (if fil then [RotatedFile f sz] else [])"
    using file_core_outputs by blast
  ultimately show ?thesis by (intro exI) (simp only:)
qed

text \<open>A new factory has computed no level yet: what it gives as the levels is empty, whatever levels are configured, and it is
  empty again after each change.\<close>

lemma GetLoggingConfig_is_cache:
  assumes "NewFactory L options c = (Some f, c')"
  shows "GetLoggingConfig f = Map.empty \<and> GetLoggingConfig (snd (factory_SetLogLevel nm lv f)) = Map.empty"
  using assms
  by (auto simp: NewFactory_def factory_newConfig_def GetLoggingConfig_def Logger.newConfig_def factory_SetLogLevel_def SetLogLevel_def Let_def
      split: option.splits prod.splits)

text \<open>A known level is set, without a line; the level of a logger of that name is then it (\<open>Logger\<close> shows how others inherit it).\<close>

lemma factory_SetLogLevel_known:
  "levelMap lv = Some n \<Longrightarrow> nm \<noteq> [] \<Longrightarrow>
     \<exists>f'. factory_SetLogLevel nm lv f = (None, f') \<and> levelConfig (f_config f') nm = Some n \<and> f_info f' = f_info f
       \<and> (\<forall>k. k \<noteq> nm \<longrightarrow> levelConfig (f_config f') k = levelConfig (f_config f) k)"
  by (simp add: factory_SetLogLevel_def SetLogLevel_def Let_def)

lemma factory_SetLogLevel_unknown:
  "levelMap lv = None \<Longrightarrow> \<exists>e f'. factory_SetLogLevel nm lv f = (Some e, f') \<and> f_config f' = f_config f
     \<and> f_info f' = f_info f @ [levelConfig (f_config f)]"
  by (simp add: factory_SetLogLevel_def SetLogLevel_def Let_def)

end
