(* ===== verification/Rand_Kit.thy ===== *)
theory Rand_Kit
  imports Kit_Prelude
begin

unbundle bit_operations_syntax

text \<open>
  Random and unique values of \<open>testhelper/rand\<close> and \<open>testhelper/freeport.go\<close>. The random source is the sequence of its
  draws; what has been drawn is counted. A loop that may not end is a partial function: \<open>None\<close> is no return.
\<close>

subsection \<open>Random strings\<close>

definition letterBytes :: gostr where
  "letterBytes = lit ''abcdefghijklmnopqrstuvwxyzABCDEFGHIJKLMNOPQRSTUVWXYZ''"

definition letterIdxBits :: nat where "letterIdxBits = 6"

definition letterIdxMask :: u64 where "letterIdxMask = push_bit letterIdxBits 1 - 1"

definition letterIdxMax :: nat where "letterIdxMax = 63 div letterIdxBits"

text \<open>The loop of \<open>String\<close>: \<open>i\<close> bytes are still to be written, before those in \<open>b\<close>; \<open>k\<close> is the number of draws.\<close>

partial_function (option) string_loop :: "(nat \<Rightarrow> u64) \<Rightarrow> nat \<Rightarrow> u64 \<Rightarrow> nat \<Rightarrow> nat \<Rightarrow> gostr \<Rightarrow> (gostr \<times> nat) option" where
  "string_loop randomInt63 i cache remain k b =
     (if i = 0 then Some (b, k)
      else let (cache, remain, k) = (if remain = 0 then (randomInt63 k, letterIdxMax, k + 1) else (cache, remain, k));
               idx = unat (cache AND letterIdxMask)
           in if idx < length letterBytes
              then string_loop randomInt63 (i - 1) (drop_bit letterIdxBits cache) (remain - 1) k (letterBytes ! idx # b)
              else string_loop randomInt63 i (drop_bit letterIdxBits cache) (remain - 1) k b)"

definition rand_String :: "(nat \<Rightarrow> u64) \<Rightarrow> nat \<Rightarrow> nat \<Rightarrow> (gostr \<times> nat) option" where
  "rand_String randomInt63 k n = string_loop randomInt63 n (randomInt63 k) letterIdxMax (k + 1) []"

text \<open>The indices that the draws hold from draw \<open>k\<close> on: ten of six bits in each draw.\<close>

definition index_at :: "(nat \<Rightarrow> u64) \<Rightarrow> nat \<Rightarrow> nat \<Rightarrow> nat" where
  "index_at draws k j = unat (drop_bit (6 * (j mod 10)) (draws (k + j div 10)) AND 63)"

definition letters_from :: "(nat \<Rightarrow> u64) \<Rightarrow> nat \<Rightarrow> nat \<Rightarrow> nat \<Rightarrow> gostr" where
  "letters_from draws k j J = map ((!) letterBytes) (filter (\<lambda>x. x < 52) (map (index_at draws k) [j..<J]))"

lemma rand_constants: "letterIdxMask = 63" "letterIdxMax = 10" "length letterBytes = 52"
  by (simp_all add: letterIdxMask_def letterIdxMax_def letterIdxBits_def letterBytes_def lit_def)

text \<open>Where the loop stands: the index \<open>j\<close> is the next one.\<close>

definition at_index :: "(nat \<Rightarrow> u64) \<Rightarrow> nat \<Rightarrow> nat \<Rightarrow> u64 \<Rightarrow> nat \<Rightarrow> nat \<Rightarrow> bool" where
  "at_index draws k0 j cache remain k \<longleftrightarrow>
     (remain = 0 \<and> k = k0 + j div 10 \<and> j mod 10 = 0) \<or>
     (remain = 10 - j mod 10 \<and> k = k0 + j div 10 + 1 \<and> cache = drop_bit (6 * (j mod 10)) (draws (k0 + j div 10)))"

lemma at_index_Suc:
  assumes "j mod 10 < 10"
  shows "at_index draws k0 (Suc j) (drop_bit 6 (drop_bit (6 * (j mod 10)) (draws (k0 + j div 10)))) (10 - j mod 10 - 1) (k0 + j div 10 + 1)"
proof (cases "j mod 10 = 9")
  case True
  then have "Suc (j mod 10) = 10" by linarith
  then have m: "Suc j mod 10 = 0" by (simp add: mod_Suc)
  then have "Suc j div 10 = Suc (j div 10)" by (simp only: div_Suc refl if_True)
  note m = m this
  then show ?thesis unfolding at_index_def m using True by simp
next
  case False
  then have "Suc (j mod 10) \<noteq> 10" by linarith
  then have m: "Suc j mod 10 = Suc (j mod 10)" by (simp only: mod_Suc if_False)
  then have "Suc j mod 10 \<noteq> 0" by linarith
  then have "Suc j div 10 = j div 10" by (simp only: div_Suc if_False)
  note m = m this
  then show ?thesis unfolding at_index_def m by (simp add: add.commute)
qed

lemma string_loop_letters:
  "at_index draws k0 j cache remain k \<Longrightarrow> j \<le> J \<Longrightarrow> i \<le> length (letters_from draws k0 j J) \<Longrightarrow>
     \<exists>k'. string_loop draws i cache remain k b = Some (rev (take i (letters_from draws k0 j J)) @ b, k')"
proof (induction "J - j" arbitrary: i j cache remain k b)
  case 0
  then have "i = 0" by (simp add: letters_from_def)
  then show ?case by (simp add: string_loop.simps)
next
  case (Suc d)
  show ?case
  proof (cases "i = 0")
    case True
    then show ?thesis by (simp add: string_loop.simps)
  next
    case False
    let ?c = "drop_bit (6 * (j mod 10)) (draws (k0 + j div 10))" and ?x = "index_at draws k0 j"
    have l: "(if remain = 0 then (draws k, letterIdxMax, k + 1) else (cache, remain, k)) = (?c, 10 - j mod 10, k0 + j div 10 + 1)"
      using Suc.prems(1) by (auto simp: at_index_def rand_constants)
    have x: "unat (?c AND letterIdxMask) = ?x" by (simp add: index_at_def rand_constants)
    have s: "at_index draws k0 (Suc j) (drop_bit letterIdxBits ?c) (10 - j mod 10 - 1) (k0 + j div 10 + 1)"
      using at_index_Suc[of j] by (simp add: letterIdxBits_def)
    have jJ: "j < J" using Suc.hyps(2) by simp
    have ls: "letters_from draws k0 j J = (if ?x < 52 then [letterBytes ! ?x] else []) @ letters_from draws k0 (Suc j) J"
      using jJ by (simp add: letters_from_def upt_conv_Cons)
    have d: "d = J - Suc j" "Suc j \<le> J" using Suc.hyps(2) jJ by auto
    show ?thesis
    proof (cases "?x < 52")
      case True
      then obtain i' where i': "i = Suc i'" "i' \<le> length (letters_from draws k0 (Suc j) J)" using False Suc.prems(3) ls by (cases i) auto
      show ?thesis
        using Suc.hyps(1)[OF d(1) s d(2) i'(2), of "letterBytes ! ?x # b"] True i' ls
        by (subst string_loop.simps) (simp add: l x rand_constants(3))
    next
      case False
      then show ?thesis
        using Suc.hyps(1)[OF d(1) s d(2), of i b] Suc.prems(3) ls \<open>i \<noteq> 0\<close>
        by (subst string_loop.simps) (simp add: l x rand_constants(3))
    qed
  qed
qed

text \<open>When the first \<open>J\<close> indices hold enough letters, the result is the first \<open>n\<close> of them, last first; a loop that skips
  the others and refills after ten.\<close>

lemma rand_String_exact:
  assumes "n \<le> length (letters_from draws k 0 J)"
  shows "\<exists>s k'. rand_String draws k n = Some (s, k') \<and> s = rev (take n (letters_from draws k 0 J)) \<and> length s = n
    \<and> set s \<subseteq> set letterBytes"
proof -
  have "at_index draws k 0 (draws k) letterIdxMax (k + 1)" by (simp add: at_index_def rand_constants)
  from string_loop_letters[OF this _ assms, of "[]"]
  obtain k' where k': "rand_String draws k n = Some (rev (take n (letters_from draws k 0 J)), k')" by (auto simp: rand_String_def)
  have "set (letters_from draws k 0 J) \<subseteq> set letterBytes" by (auto simp: letters_from_def rand_constants)
  then show ?thesis using k' assms by (auto dest: in_set_takeD)
qed

lemma rand_String_exact_example:
  "\<exists>k'. rand_String (\<lambda>_. 0x7C1) 0 2 = Some (lit ''Fb'', k')"
proof -
  have l: "letters_from (\<lambda>_. 0x7C1) 0 0 2 = lit ''bF''"
    by (simp add: letters_from_def index_at_def letterBytes_def lit_def upt_rec)
  from rand_String_exact[of 2 "\<lambda>_. 0x7C1" 0 2] show ?thesis by (simp add: l lit_def)
qed

subsection \<open>Unique strings and free ports\<close>

text \<open>The loop of \<open>UniqueString\<close> under its lock: the string, the table, and the draws.\<close>

partial_function (option) unique_loop :: "(nat \<Rightarrow> u64) \<Rightarrow> nat \<Rightarrow> gostr \<Rightarrow> nat \<Rightarrow> gostr set \<Rightarrow> (gostr \<times> gostr set \<times> nat) option" where
  "unique_loop draws n str k uniqueRandomStrings =
     (if str \<notin> uniqueRandomStrings then Some (str, insert str uniqueRandomStrings, k)
      else case rand_String draws k n of
             None \<Rightarrow> None
           | Some (str', k') \<Rightarrow> unique_loop draws n str' k' uniqueRandomStrings)"

definition UniqueString :: "(nat \<Rightarrow> u64) \<Rightarrow> nat \<Rightarrow> nat \<Rightarrow> gostr set \<Rightarrow> (gostr \<times> gostr set \<times> nat) option" where
  "UniqueString draws n k uniqueRandomStrings =
     (case rand_String draws k n of
        None \<Rightarrow> None
      | Some (str, k') \<Rightarrow> unique_loop draws n str k' uniqueRandomStrings)"

text \<open>\<open>ports\<close>: what \<open>freeport.GetFreePort\<close> answers, call by call.\<close>

partial_function (option) GetFreePort :: "(nat \<Rightarrow> 'e + int) \<Rightarrow> nat \<Rightarrow> int set \<Rightarrow> (('e + int) \<times> int set \<times> nat) option" where
  "GetFreePort ports k usedPorts =
     (case ports k of
        Inl err \<Rightarrow> Some (Inl err, usedPorts, k + 1)
      | Inr port \<Rightarrow> if port \<in> usedPorts then GetFreePort ports (k + 1) usedPorts
                    else Some (Inr port, insert port usedPorts, k + 1))"

lemma unique_loop_fresh: "unique_loop draws n str k used = Some y \<Longrightarrow> fst y \<notin> used \<and> fst (snd y) = insert (fst y) used"
proof (induction rule: unique_loop.raw_induct[rotated 1, consumes 1])
  case (1 f draws n str k used y)
  show ?case
  proof (cases "str \<in> used")
    case True
    then obtain x where "f draws n (fst x) (snd x) used = Some y" using 1(2) by (auto split: option.splits)
    then show ?thesis by (rule 1(1))
  qed (use 1(2) in auto)
qed

lemma UniqueString_fresh:
  "UniqueString draws n k used = Some (s, used', k') \<Longrightarrow> s \<notin> used \<and> used' = insert s used"
  by (auto simp: UniqueString_def split: option.splits dest: unique_loop_fresh)

lemma GetFreePort_fresh:
  "GetFreePort ports k used = Some y \<Longrightarrow>
     (case fst y of Inl err \<Rightarrow> fst (snd y) = used | Inr port \<Rightarrow> port \<notin> used \<and> fst (snd y) = insert port used)"
proof (induction rule: GetFreePort.raw_induct[rotated 1, consumes 1])
  case (1 f ports k used y)
  show ?case
  proof (cases "\<exists>p \<in> used. ports k = Inr p")
    case True
    then have "f ports (k + 1) used = Some y" using 1(2) by auto
    then show ?thesis by (rule 1(1))
  qed (use 1(2) in \<open>auto split: sum.splits if_splits\<close>)
qed

text \<open>Calls in a row, of any lengths: no string is returned twice.\<close>

fun unique_calls :: "(nat \<Rightarrow> u64) \<Rightarrow> nat list \<Rightarrow> nat \<Rightarrow> gostr set \<Rightarrow> gostr list option" where
  "unique_calls draws [] k used = Some []"
| "unique_calls draws (n # ns) k used =
     (case UniqueString draws n k used of
        None \<Rightarrow> None
      | Some (s, used', k') \<Rightarrow> map_option ((#) s) (unique_calls draws ns k' used'))"

lemma unique_calls_distinct:
  "unique_calls draws ns k used = Some ss \<Longrightarrow> distinct ss \<and> set ss \<inter> used = {}"
proof (induction ns arbitrary: k used ss)
  case (Cons n ns)
  obtain s used' k' ss' where e: "UniqueString draws n k used = Some (s, used', k')" "unique_calls draws ns k' used' = Some ss'" "ss = s # ss'"
    using Cons.prems by (auto split: option.splits)
  show ?case using Cons.IH[OF e(2)] UniqueString_fresh[OF e(1)] e(3) by auto
qed simp

text \<open>A length whose strings are all taken never returns, and the lock stays held: here the second string of length 0.\<close>

lemma rand_String_0: "rand_String draws k 0 = Some ([], k + 1)"
  by (simp add: rand_String_def string_loop.simps)

lemma unique_loop_stuck: "unique_loop draws 0 [] k used = Some r \<Longrightarrow> [] \<in> used \<Longrightarrow> False"
proof -
  have "[] \<in> used \<Longrightarrow> n = 0 \<Longrightarrow> str = [] \<Longrightarrow> False" if "unique_loop draws n str k used = Some r" for n str
    using that
  proof (induction rule: unique_loop.raw_induct[rotated 1, consumes 1])
    case (1 f draws n str k used)
    then show ?case by (simp add: rand_String_0)
  qed
  then show "unique_loop draws 0 [] k used = Some r \<Longrightarrow> [] \<in> used \<Longrightarrow> False" by blast
qed

lemma UniqueString_0_stuck: "UniqueString draws 0 k {} = Some ([], {[]}, k + 1) \<and> UniqueString draws 0 k' {[]} = None"
proof -
  have "unique_loop draws 0 [] (k' + 1) {[]} = None"
    using unique_loop_stuck[of draws "k' + 1" "{[]}"] by (cases "unique_loop draws 0 [] (k' + 1) {[]}") auto
  then show ?thesis by (simp add: UniqueString_def rand_String_0 unique_loop.simps[of _ _ _ _ "{}"])
qed

text \<open>A free port is found as soon as one is offered that was not given before.\<close>

lemma GetFreePort_returns:
  "ports (k + d) = Inr p \<Longrightarrow> p \<notin> used \<Longrightarrow> \<exists>r. GetFreePort ports k used = Some r"
proof (induction d arbitrary: k)
  case 0
  then show ?case by (subst GetFreePort.simps) simp
next
  case (Suc d)
  then show ?case using Suc.IH[of "k + 1"] by (subst GetFreePort.simps) (auto split: sum.split)
qed

end
