(* ===== verification/Docker_Kit.thy ===== *)
theory Docker_Kit
  imports Rand_Kit "HOL-Library.AList"
begin

text \<open>
  The containers of the test suites (\<open>testhelper/docker\<close>): image names, port bindings, addresses, the options of each resource
  and how it is set up. The docker pool is a parameter: what pulling, running and waiting answer. A set-up gives its result and
  the list of what it did: images pulled, containers started, and the clean-ups it registered.
\<close>

subsection \<open>Images, ports, addresses\<close>

text \<open>\<open>environ\<close>: \<open>os.Getenv\<close>.\<close>

definition hasRegistry :: "gostr \<Rightarrow> bool" where
  "hasRegistry img =
     (let parts = split_on 47 img
      in if parts = [] then False
         else let host = hd parts in Contains host (lit ''.'') \<or> Contains host (lit '':'') \<or> host = lit ''localhost'')"

definition ImagePath :: "(gostr \<Rightarrow> gostr) \<Rightarrow> gostr \<Rightarrow> gostr" where
  "ImagePath environ img =
     (let mirrorURL = environ (lit ''DOCKERHUB_REGISTRY_MIRROR'')
      in if mirrorURL \<noteq> [] \<and> \<not> hasRegistry img
         then let needsLibrary = \<not> Contains img (lit ''/'');
                  img = (if needsLibrary then lit ''library/'' @ img else img)
              in mirrorURL @ lit ''/'' @ img
         else img)"

definition AuthConfiguration :: "(gostr \<Rightarrow> gostr) \<Rightarrow> gostr \<times> gostr" where
  "AuthConfiguration environ =
     (let username = environ (lit ''DOCKERHUB_REGISTRY_MIRROR_USERNAME''); password = environ (lit ''DOCKERHUB_REGISTRY_MIRROR_PASSWORD'')
      in if username = [] \<and> password = [] then ([], []) else (username, password))"

text \<open>A binding is a host address and a host port.\<close>

type_synonym port_map = "gostr \<Rightarrow> (gostr \<times> gostr) list option"

definition BindHostIP :: gostr where "BindHostIP = lit ''127.0.0.1''"

definition WithBindIP :: "gostr \<Rightarrow> gostr list \<Rightarrow> gostr list" where
  "WithBindIP ip ips = (if ip \<noteq> [] then [ip] else ips)"

definition IPv4PortBindings :: "gostr list \<Rightarrow> (gostr list \<Rightarrow> gostr list) list \<Rightarrow> port_map" where
  "IPv4PortBindings exposedPorts opts =
     (let ips = fold (\<lambda>opt. opt) opts [BindHostIP];
          bindings = map (\<lambda>ip. (ip, lit ''0'')) ips
      in fold (\<lambda>p m. m(p @ lit ''/tcp'' \<mapsto> bindings)) exposedPorts Map.empty)"

text \<open>The ports of a container in the order the map is visited, \<open>number\<close> being the number of a port, and \<open>Atoi\<close> of the library.
  \<open>None\<close>: no binding, the index panics; \<open>Some None\<close>: the test fails.\<close>

fun GetHostPort :: "(gostr \<Rightarrow> gostr) \<Rightarrow> (gostr \<Rightarrow> int option) \<Rightarrow> gostr \<Rightarrow> (gostr \<times> (gostr \<times> gostr) list) list \<Rightarrow> int option option" where
  "GetHostPort number Atoi port [] = Some (Some 0)"
| "GetHostPort number Atoi port ((p, bindings) # ps) =
     (if number p = port then (case bindings of [] \<Rightarrow> None | b # _ \<Rightarrow> Some (Atoi (snd b))) else GetHostPort number Atoi port ps)"

text \<open>The expression \<open>(localhost|127\.0\.0\.1)\<close>, replaced from the left.\<close>

definition host_at :: "gostr \<Rightarrow> nat" where
  "host_at s = (if has_prefix (lit ''localhost'') s then 9 else if has_prefix (lit ''127.0.0.1'') s then 9 else 0)"

function ToInternalDockerHost :: "gostr \<Rightarrow> gostr" where
  "ToInternalDockerHost s =
     (if s = [] then []
      else if host_at s \<noteq> 0 then lit ''host.docker.internal'' @ ToInternalDockerHost (drop (host_at s) s)
      else hd s # ToInternalDockerHost (tl s))"
  by pat_completeness auto
termination
  by (relation "measure length") auto

declare ToInternalDockerHost.simps [simp del]

lemma hd_split_on_append: "hd (split_on c (a @ c # r)) = hd (split_on c a)"
  by (induction a) auto

text \<open>An image gets the mirror once: with a mirror whose host is recognised, the path stays as it is.\<close>

lemma ImagePath_idem:
  assumes "hasRegistry (environ (lit ''DOCKERHUB_REGISTRY_MIRROR''))"
  shows "ImagePath environ (ImagePath environ img) = ImagePath environ img"
proof -
  let ?m = "environ (lit ''DOCKERHUB_REGISTRY_MIRROR'')"
  have s: "lit ''/'' @ r = 47 # r" for r by (simp add: lit_def)
  have "hasRegistry (?m @ lit ''/'' @ r)" for r
    using assms by (simp add: hasRegistry_def Let_def hd_split_on_append s del: append_Cons)
  then show ?thesis by (simp add: ImagePath_def Let_def)
qed

lemma IPv4PortBindings_exact:
  "IPv4PortBindings ps [WithBindIP ip] k =
     (if k \<in> (\<lambda>p. p @ lit ''/tcp'') ` set ps then Some [(if ip = [] then BindHostIP else ip, lit ''0'')] else None)"
proof -
  have "fold (\<lambda>p m. m(p @ t \<mapsto> b)) ps mp k = (if k \<in> (\<lambda>p. p @ t) ` set ps then Some b else mp k)"
    for t :: gostr and b :: "(gostr \<times> gostr) list" and mp
    by (induction ps arbitrary: mp) auto
  then show ?thesis by (simp add: IPv4PortBindings_def WithBindIP_def Let_def)
qed

text \<open>Text without either name is kept. An address that only begins like the loopback one is changed too.\<close>

lemma ToInternalDockerHost_other:
  "\<not> Contains s (lit ''localhost'') \<Longrightarrow> \<not> Contains s (lit ''127.0.0.1'') \<Longrightarrow> ToInternalDockerHost s = s"
proof (induction s)
  case (Cons c s)
  then have "host_at (c # s) = 0" by (simp add: host_at_def)
  then show ?case using Cons by (subst ToInternalDockerHost.simps) simp
qed (simp add: ToInternalDockerHost.simps)

lemma ToInternalDockerHost_prefix: "ToInternalDockerHost (lit ''127.0.0.12'') = lit ''host.docker.internal2''"
  by (simp add: ToInternalDockerHost.simps[of "_ # _"] ToInternalDockerHost.simps[of "[]"] host_at_def lit_def)

subsection \<open>The docker pool\<close>

record run_options =
  ro_Name :: gostr
  ro_Repository :: gostr
  ro_Tag :: gostr
  ro_NetworkID :: gostr
  ro_Hostname :: gostr
  ro_ExposedPorts :: "gostr list"
  ro_PortBindings :: port_map
  ro_Env :: "gostr list"
  ro_Cmd :: "gostr list"
  ro_Mounts :: "gostr list"
  ro_ExtraHosts :: "gostr list"
  ro_Auth :: "gostr \<times> gostr"

record container =
  ct_ID :: gostr
  ct_Name :: gostr
  GetBoundIP :: "gostr \<Rightarrow> gostr"
  GetPort :: "gostr \<Rightarrow> gostr"
  GetIPInNetwork :: "gostr \<Rightarrow> gostr"

text \<open>An error is its text. \<open>Wait\<close>: \<open>Retry\<close>, waiting for the check of the resource at that address.\<close>

record pool =
  PullImage :: "gostr \<Rightarrow> gostr \<Rightarrow> gostr option"
  RunWithOptions :: "run_options \<Rightarrow> gostr + container"
  Wait :: "gostr \<Rightarrow> gostr option"

text \<open>A registered clean-up removes a container; without one (\<open>None\<close>) it was registered with nil. \<open>Closes\<close>: another clean-up.\<close>

datatype docker_event = Pulled gostr gostr | Started run_options container | Purges "container option" | Closes gostr

type_synonym 'a set_up = "(gostr + 'a) \<times> docker_event list"

definition blank_options :: run_options where
  "blank_options = \<lparr>ro_Name = [], ro_Repository = [], ro_Tag = [], ro_NetworkID = [], ro_Hostname = [], ro_ExposedPorts = [],
     ro_PortBindings = Map.empty, ro_Env = [], ro_Cmd = [], ro_Mounts = [], ro_ExtraHosts = [], ro_Auth = ([], [])\<rparr>"

text \<open>Some set-ups register the clean-up before they look at the error, the others after.\<close>

definition run_registered :: "pool \<Rightarrow> run_options \<Rightarrow> container set_up" where
  "run_registered P ro =
     (case RunWithOptions P ro of
        Inl e \<Rightarrow> (Inl e, [Purges None])
      | Inr c \<Rightarrow> (Inr c, [Started ro c, Purges (Some c)]))"

definition run_checked :: "pool \<Rightarrow> run_options \<Rightarrow> container set_up" where
  "run_checked P ro =
     (case RunWithOptions P ro of
        Inl e \<Rightarrow> (Inl e, [])
      | Inr c \<Rightarrow> (Inr c, [Started ro c, Purges (Some c)]))"

definition and_then :: "'a set_up \<Rightarrow> ('a \<Rightarrow> 'b set_up) \<Rightarrow> 'b set_up" where
  "and_then s f = (case s of (Inl e, ev) \<Rightarrow> (Inl e, ev) | (Inr x, ev) \<Rightarrow> (case f x of (r, ev') \<Rightarrow> (r, ev @ ev')))"

definition failing :: "(gostr \<Rightarrow> gostr) \<Rightarrow> 'a set_up \<Rightarrow> 'a set_up" where
  "failing wrap s = (case s of (Inl e, ev) \<Rightarrow> (Inl (wrap e), ev) | (Inr x, ev) \<Rightarrow> (Inr x, ev))"

definition check :: "gostr option \<Rightarrow> unit set_up" where
  "check e = (case e of Some e \<Rightarrow> (Inl e, []) | None \<Rightarrow> (Inr (), []))"

definition returns :: "'a \<Rightarrow> 'a set_up" where
  "returns x = (Inr x, [])"

subsection \<open>Redis, etcd, gubernator\<close>

record redis_config =
  rd_repository :: gostr
  rd_tag :: gostr
  rd_envs :: "gostr list"
  rd_cmdArgs :: "gostr list"

definition redis_WithTag :: "gostr \<Rightarrow> redis_config \<Rightarrow> redis_config" where
  "redis_WithTag t c = c\<lparr>rd_tag := t\<rparr>"

definition redis_WithCmdArg :: "gostr \<Rightarrow> gostr \<Rightarrow> redis_config \<Rightarrow> redis_config" where
  "redis_WithCmdArg k x c = c\<lparr>rd_cmdArgs := rd_cmdArgs c @ [k, x]\<rparr>"

definition redis_WithEnv :: "gostr list \<Rightarrow> redis_config \<Rightarrow> redis_config" where
  "redis_WithEnv envs c = c\<lparr>rd_envs := envs\<rparr>"

definition redis_WithRepository :: "gostr \<Rightarrow> redis_config \<Rightarrow> redis_config" where
  "redis_WithRepository r c = c\<lparr>rd_repository := r\<rparr>"

definition redis_Setup :: "pool \<Rightarrow> (gostr \<Rightarrow> gostr) \<Rightarrow> (redis_config \<Rightarrow> redis_config) list \<Rightarrow> gostr set_up" where
  "redis_Setup P environ opts =
     (let conf = fold (\<lambda>opt. opt) opts \<lparr>rd_repository = lit ''redis'', rd_tag = lit ''6'', rd_envs = [], rd_cmdArgs = []\<rparr>;
          ro = blank_options\<lparr>ro_Repository := ImagePath environ (rd_repository conf), ro_Tag := rd_tag conf, ro_Env := rd_envs conf,
                 ro_Cmd := lit ''redis-server'' # rd_cmdArgs conf, ro_ExposedPorts := [lit ''6379/tcp''],
                 ro_PortBindings := IPv4PortBindings [lit ''6379''] [], ro_Auth := AuthConfiguration environ\<rparr>
      in and_then (failing (\<lambda>e. lit ''run redis container: '' @ e) (run_registered P ro)) (\<lambda>c.
         let addr = GetBoundIP c (lit ''6379/tcp'') @ lit '':'' @ GetPort c (lit ''6379/tcp'')
         in and_then (check (Wait P addr)) (\<lambda>_. returns addr)))"

record etcd_config =
  et_network :: "gostr option"
  et_bindIP :: gostr

definition etcd_WithNetwork :: "gostr \<Rightarrow> etcd_config \<Rightarrow> etcd_config" where
  "etcd_WithNetwork n c = c\<lparr>et_network := Some n\<rparr>"

definition etcd_WithBindIP :: "gostr \<Rightarrow> etcd_config \<Rightarrow> etcd_config" where
  "etcd_WithBindIP ip c = c\<lparr>et_bindIP := ip\<rparr>"

definition network_id :: "gostr option \<Rightarrow> gostr" where
  "network_id n = (case n of Some i \<Rightarrow> i | None \<Rightarrow> [])"

text \<open>\<open>client_err\<close>: what \<open>etcd.New\<close> answers. The resource: the hosts, and those in the network.\<close>

definition etcd_Setup :: "pool \<Rightarrow> (gostr \<Rightarrow> gostr) \<Rightarrow> (gostr \<Rightarrow> gostr option) \<Rightarrow> (etcd_config \<Rightarrow> etcd_config) list \<Rightarrow> (gostr list \<times> gostr list) set_up" where
  "etcd_Setup P environ client_err opts =
     (let conf = fold (\<lambda>opt. opt) opts \<lparr>et_network = None, et_bindIP = []\<rparr>;
          ro = blank_options\<lparr>ro_Repository := ImagePath environ (lit ''bitnamilegacy/etcd''), ro_Tag := lit ''3.5'', ro_NetworkID := network_id (et_network conf),
                 ro_Env := [lit ''ALLOW_NONE_AUTHENTICATION=yes''], ro_PortBindings := IPv4PortBindings [lit ''2379''] [WithBindIP (et_bindIP conf)],
                 ro_Auth := AuthConfiguration environ\<rparr>
      in and_then (failing (\<lambda>e. lit ''could not create container: '' @ e) (run_registered P ro)) (\<lambda>c.
         let host = lit ''http://'' @ GetBoundIP c (lit ''2379/tcp'') @ lit '':'' @ GetPort c (lit ''2379/tcp'')
         in and_then (failing (\<lambda>e. lit ''setting up etcd client: '' @ e) (check (client_err host))) (\<lambda>_.
            and_then (failing (\<lambda>e. lit ''could not connect to dockerized ETCD: '' @ e) (check (Wait P host))) (\<lambda>_.
            (Inr ([host], case et_network conf of
                           None \<Rightarrow> []
                         | Some n \<Rightarrow> [lit ''http://'' @ GetIPInNetwork c n @ lit '':2379'']), [Closes host])))))"

record gubernator_config =
  gb_tag :: gostr
  gb_network :: "gostr option"

definition gubernator_WithTag :: "gostr \<Rightarrow> gubernator_config \<Rightarrow> gubernator_config" where
  "gubernator_WithTag t c = c\<lparr>gb_tag := t\<rparr>"

definition gubernator_WithNetwork :: "gostr \<Rightarrow> gubernator_config \<Rightarrow> gubernator_config" where
  "gubernator_WithNetwork n c = c\<lparr>gb_network := Some n\<rparr>"

text \<open>The addresses of gRPC, of HTTP, and of gRPC in the network.\<close>

definition gubernator_Setup :: "pool \<Rightarrow> (gubernator_config \<Rightarrow> gubernator_config) list \<Rightarrow> (gostr \<times> gostr \<times> gostr) set_up" where
  "gubernator_Setup P opts =
     (let conf = fold (\<lambda>opt. opt) opts \<lparr>gb_tag = lit ''v2.19.1'', gb_network = None\<rparr>;
          ro = blank_options\<lparr>ro_Repository := lit ''ghcr.io/gubernator-io/gubernator'', ro_Tag := gb_tag conf,
                 ro_ExposedPorts := [lit ''1051/tcp'', lit ''1050/tcp''], ro_PortBindings := IPv4PortBindings [lit ''1051'', lit ''1050''] [],
                 ro_Env := [lit ''GUBER_GRPC_ADDRESS=0.0.0.0:1051'', lit ''GUBER_HTTP_ADDRESS=0.0.0.0:1050'',
                            lit ''GUBER_ADVERTISE_ADDRESS=127.0.0.1:1051'', lit ''GUBER_PEER_DISCOVERY_TYPE=member-list'',
                            lit ''GUBER_MEMBERLIST_KNOWN_NODES=127.0.0.1:7946''],
                 ro_NetworkID := network_id (gb_network conf)\<rparr>
      in and_then (failing (\<lambda>e. lit ''cannot run gubernator container: '' @ e) (run_checked P ro)) (\<lambda>c.
         let grpcURL = lit ''127.0.0.1:'' @ GetPort c (lit ''1051/tcp''); httpURL = lit ''http://127.0.0.1:'' @ GetPort c (lit ''1050/tcp'')
         in and_then (check (Wait P (httpURL @ lit ''/v1/HealthCheck''))) (\<lambda>_.
            returns (grpcURL, httpURL, case gb_network conf of None \<Rightarrow> [] | Some n \<Rightarrow> GetIPInNetwork c n @ lit '':1051''))))"

subsection \<open>Nothing started is left behind\<close>

definition started :: "docker_event list \<Rightarrow> container list" where
  "started ev = concat (map (\<lambda>e. case e of Started ro c \<Rightarrow> [c] | _ \<Rightarrow> []) ev)"

definition purged :: "docker_event list \<Rightarrow> container list" where
  "purged ev = concat (map (\<lambda>e. case e of Purges (Some c) \<Rightarrow> [c] | _ \<Rightarrow> []) ev)"

text \<open>Every container that was started has its clean-up, in the same order, whether the set-up succeeds or fails.\<close>

definition tidy :: "'a set_up \<Rightarrow> bool" where
  "tidy s \<longleftrightarrow> started (snd s) = purged (snd s)"

named_theorems tidy_rules

lemma tidy_run [tidy_rules]: "tidy (run_registered P ro)" "tidy (run_checked P ro)"
  by (auto simp: tidy_def run_registered_def run_checked_def started_def purged_def split: sum.split)

lemma tidy_simple [tidy_rules]: "tidy (check e)" "tidy (returns x)" "tidy (Inr x, [Closes h])" "tidy s \<Longrightarrow> tidy (failing w s)"
  by (auto simp: tidy_def check_def returns_def failing_def started_def purged_def split: option.split prod.split sum.split)

lemma tidy_and_then [tidy_rules]: "tidy s \<Longrightarrow> (\<And>x. tidy (f x)) \<Longrightarrow> tidy (and_then s f)"
proof (cases s)
  case (Pair r ev)
  assume t: "tidy s" "\<And>x. tidy (f x)"
  show ?thesis
  proof (cases r)
    case (Inr x)
    then show ?thesis using t(1) t(2)[of x] Pair
      by (cases "f x") (simp add: and_then_def tidy_def started_def purged_def)
  qed (use t Pair in \<open>simp add: and_then_def tidy_def\<close>)
qed

lemma redis_tidy: "tidy (redis_Setup P environ opts)"
  unfolding redis_Setup_def Let_def by (intro tidy_rules)

lemma etcd_tidy: "tidy (etcd_Setup P environ client_err opts)"
  unfolding etcd_Setup_def Let_def by (intro tidy_rules)

lemma gubernator_tidy: "tidy (gubernator_Setup P opts)"
  unfolding gubernator_Setup_def Let_def by (intro tidy_rules)

subsection \<open>The orchestrator\<close>

text \<open>A map of variables is the list of its entries, in the order it is visited; \<open>maps.Copy\<close> overwrites.\<close>

type_synonym envs = "(gostr \<times> gostr) list"

definition maps_Copy :: "envs \<Rightarrow> envs \<Rightarrow> envs" where
  "maps_Copy dst src = fold (\<lambda>(k, v). AList.update k v) src dst"

record rudo_config =
  ru_tag :: gostr
  ru_network :: "gostr option"
  ru_bindIP :: gostr
  ru_extraEnvVars :: envs

definition rudo_WithTag :: "gostr \<Rightarrow> rudo_config \<Rightarrow> rudo_config" where
  "rudo_WithTag t c = c\<lparr>ru_tag := t\<rparr>"

definition rudo_WithNetwork :: "gostr \<Rightarrow> rudo_config \<Rightarrow> rudo_config" where
  "rudo_WithNetwork n c = c\<lparr>ru_network := Some n\<rparr>"

definition rudo_WithBindIP :: "gostr \<Rightarrow> rudo_config \<Rightarrow> rudo_config" where
  "rudo_WithBindIP ip c = c\<lparr>ru_bindIP := ip\<rparr>"

definition WithExtraEnvVars :: "envs \<Rightarrow> rudo_config \<Rightarrow> rudo_config" where
  "WithExtraEnvVars e c = c\<lparr>ru_extraEnvVars := maps_Copy (ru_extraEnvVars c) e\<rparr>"

definition bool_text :: "bool \<Rightarrow> gostr" where
  "bool_text b = (if b then lit ''true'' else lit ''false'')"

definition WithReleaseName where "WithReleaseName nm = WithExtraEnvVars [(lit ''RELEASE_NAME'', nm)]"
definition WithEtcdHosts where "WithEtcdHosts hosts = WithExtraEnvVars [(lit ''ETCD_HOSTS'', Join hosts (lit '',''))]"
definition WithGatewaySeparateService where
  "WithGatewaySeparateService b = WithExtraEnvVars [(lit ''RUDO_GATEWAY_SEPARATE_SERVICE'', bool_text b)]"
definition WithPartitionCount where "WithPartitionCount n = WithExtraEnvVars [(lit ''PARTITION_COUNT'', int_str n)]"
definition WithSchedulerEnabled where "WithSchedulerEnabled b = WithExtraEnvVars [(lit ''RUDO_SCHEDULER_ENABLED'', bool_text b)]"
definition WithWorkspacePartitionGroups where
  "WithWorkspacePartitionGroups n = WithExtraEnvVars [(lit ''RUDO_WORKSPACE_PARTITION_GROUPS'', int_str n)]"
definition WithGatewayNodesPattern where
  "WithGatewayNodesPattern p = WithExtraEnvVars [(lit ''RUDO_CLUSTERMANAGER_STATIC_GATEWAY_NODES_PATTERN'', p)]"
definition WithSrcRouterNodes where
  "WithSrcRouterNodes nodes = WithExtraEnvVars [(lit ''RUDO_CLUSTERMANAGER_STATIC_SRCROUTER_NODES'', Join nodes (lit '',''))]"
definition WithInitialReplicaCount where
  "WithInitialReplicaCount n = WithExtraEnvVars [(lit ''RUDO_CLUSTERMANAGER_STATIC_INITIAL_REPLICA_COUNT'', int_str n)]"
definition WithStaticWorkspaces where
  "WithStaticWorkspaces ws = WithExtraEnvVars [(lit ''RUDO_NEWWORKSPACE_POLLER_STATIC_LIST_ENABLED'', lit ''true''),
     (lit ''RUDO_NEWWORKSPACE_POLLER_STATIC_LIST'', Join ws (lit '' ''))]"
definition WithPollerBaseURL where
  "WithPollerBaseURL u = WithExtraEnvVars [(lit ''RUDO_NEWWORKSPACE_POLLER_STATIC_LIST_ENABLED'', lit ''false''),
     (lit ''RUDO_NEWWORKSPACE_POLLER_BASE_URL'', u)]"
definition WithWorkspaceNamespace where "WithWorkspaceNamespace ns = WithExtraEnvVars [(lit ''WORKSPACE_NAMESPACE'', ns)]"
definition WithAssignmentStrategy where "WithAssignmentStrategy st = WithExtraEnvVars [(lit ''RUDO_NEWWORKSPACE_ASSIGNER_STRATEGY'', st)]"

definition defaultEnvVars :: envs where
  "defaultEnvVars = map (\<lambda>(k, v). (lit k, lit v))
     [(''RUDO_ENABLE_STATS'', ''false''), (''RELEASE_NAME'', ''default''), (''ETCD_HOSTS'', ''http://localhost:2379''),
      (''RUDO_GATEWAY_SEPARATE_SERVICE'', ''false''), (''PARTITION_COUNT'', ''64''), (''RUDO_SCHEDULER_ENABLED'', ''false''),
      (''RUDO_WORKSPACE_PARTITION_GROUPS'', ''10''), (''RUDO_CLUSTERMANAGER_TYPE'', ''static''),
      (''RUDO_CLUSTERMANAGER_STATIC_GATEWAY_NODES_PATTERN'', ''gw-node-*''),
      (''RUDO_CLUSTERMANAGER_STATIC_SRCROUTER_NODES'', ''srcrouter-node-0''),
      (''RUDO_CLUSTERMANAGER_STATIC_MIN_REPLICA_COUNT'', ''1''), (''RUDO_CLUSTERMANAGER_STATIC_MAX_REPLICA_COUNT'', ''1024''),
      (''RUDO_CLUSTERMANAGER_STATIC_INITIAL_REPLICA_COUNT'', ''2''),
      (''RUDO_NEWWORKSPACE_ASSIGNER_STRATEGY'', ''multi-node-round-robin''), (''RUDO_NEWWORKSPACE_POLLER_STATIC_LIST'', ''ws-1 ws-2''),
      (''RUDO_NEWWORKSPACE_POLLER_STATIC_LIST_ENABLED'', ''true''), (''RUDO_NEWWORKSPACE_POLLER_BASE_URL'', ''http://invalid:8080''),
      (''WORKSPACE_NAMESPACE'', ''default'')]"

definition env_entry :: "gostr \<times> gostr \<Rightarrow> gostr" where
  "env_entry x = fst x @ lit ''='' @ snd x"

text \<open>\<open>JoinPath\<close>: \<open>url.JoinPath\<close>. The resource is its URL. The network of the options is not used.\<close>

definition rudo_Setup :: "pool \<Rightarrow> (gostr \<Rightarrow> gostr) \<Rightarrow> (gostr \<Rightarrow> gostr \<Rightarrow> gostr) \<Rightarrow> (rudo_config \<Rightarrow> rudo_config) list \<Rightarrow> gostr set_up" where
  "rudo_Setup P environ JoinPath opts =
     (let conf = fold (\<lambda>opt. opt) opts \<lparr>ru_tag = lit ''latest'', ru_network = None, ru_bindIP = [], ru_extraEnvVars = []\<rparr>;
          envs = maps_Copy defaultEnvVars (ru_extraEnvVars conf);
          ro = blank_options\<lparr>ro_Repository := lit ''422074288268.dkr.ecr.us-east-1.amazonaws.com/rudderstack/rudder-orchestrator'', ro_Tag := ru_tag conf,
                 ro_ExposedPorts := [lit ''8080/tcp''], ro_PortBindings := IPv4PortBindings [lit ''8080''] [WithBindIP (ru_bindIP conf)],
                 ro_Auth := AuthConfiguration environ, ro_Env := map env_entry envs\<rparr>
      in and_then (failing (\<lambda>e. lit ''run redis container: '' @ e) (run_registered P ro)) (\<lambda>c.
         let rudoURL = lit ''http://'' @ GetBoundIP c (lit ''8080/tcp'') @ lit '':'' @ GetPort c (lit ''8080/tcp'')
         in and_then (check (Wait P (JoinPath rudoURL (lit ''/health'')))) (\<lambda>_. returns rudoURL)))"

text \<open>\<open>CreateMigration\<close> and \<open>ListMigrations\<close> after the request is made: the error of the client, or the status and the body that
  is read. \<open>Unmarshal\<close>: \<open>jsonrs.Unmarshal\<close>.\<close>

definition migration_response :: "(gostr + int \<times> (gostr + gostr)) \<Rightarrow> (gostr \<Rightarrow> gostr + 'a) \<Rightarrow> gostr + 'a" where
  "migration_response resp Unmarshal =
     (case resp of
        Inl e \<Rightarrow> Inl (lit ''performing request: '' @ e)
      | Inr (_, Inl e) \<Rightarrow> Inl (lit ''reading response body: '' @ e)
      | Inr (status, Inr respBody) \<Rightarrow>
          if status \<noteq> 200 then Inl (lit ''unexpected status code: '' @ int_str status @ lit '' - '' @ respBody)
          else case Unmarshal respBody of Inl e \<Rightarrow> Inl (lit ''decoding response: '' @ e) | Inr x \<Rightarrow> Inr x)"

definition CreateMigration where
  "CreateMigration JoinPath Marshal NewRequest Do Unmarshal rudoURL migration =
     (case Marshal migration of
        Inl e \<Rightarrow> Inl (lit ''encoding request body: '' @ e)
      | Inr body \<Rightarrow>
          (case NewRequest (lit ''POST'') (JoinPath rudoURL (lit ''/orchestrator/v1/migrations'')) body of
             Inl e \<Rightarrow> Inl (lit ''creating request: '' @ e)
           | Inr req \<Rightarrow> migration_response (Do req) Unmarshal))"

definition ListMigrations where
  "ListMigrations JoinPath NewRequest Do Unmarshal rudoURL =
     (case NewRequest (lit ''GET'') (JoinPath rudoURL (lit ''/orchestrator/v1/migrations/'')) [] of
        Inl e \<Rightarrow> Inl (lit ''creating request: '' @ e)
      | Inr req \<Rightarrow> migration_response (Do req) Unmarshal)"

lemma maps_Copy_map_of: "map_of (maps_Copy dst src) k = (case map_of (rev src) k of Some v \<Rightarrow> Some v | None \<Rightarrow> map_of dst k)"
proof (induction src arbitrary: dst)
  case (Cons a src)
  obtain x y where a: "a = (x, y)" by (cases a)
  have "map_of (rev src @ [(x, y)]) k = (case map_of (rev src) k of Some v \<Rightarrow> Some v | None \<Rightarrow> if k = x then Some y else None)"
    by (auto simp: map_add_def split: option.split)
  then show ?case using Cons.IH[of "AList.update x y dst"]
    by (auto simp: maps_Copy_def a AList.update_conv split: option.splits)
qed (simp add: maps_Copy_def)

text \<open>A variable has the value of the last option that gave it one, else its default.\<close>

lemma maps_Copy_concat: "fold (\<lambda>e acc. maps_Copy acc e) es dst = maps_Copy dst (concat es)"
  by (induction es arbitrary: dst) (auto simp: maps_Copy_def)

lemma fold_WithExtraEnvVars:
  "ru_extraEnvVars (fold (\<lambda>opt. opt) (map WithExtraEnvVars es) c) = maps_Copy (ru_extraEnvVars c) (concat es)"
proof -
  have "ru_extraEnvVars (fold (\<lambda>opt. opt) (map WithExtraEnvVars es) c) = fold (\<lambda>e acc. maps_Copy acc e) es (ru_extraEnvVars c)"
    by (induction es arbitrary: c) (auto simp: WithExtraEnvVars_def)
  then show ?thesis by (simp add: maps_Copy_concat)
qed

lemma maps_Copy_distinct: "distinct (map fst dst) \<Longrightarrow> distinct (map fst (maps_Copy dst src))"
proof (induction src arbitrary: dst)
  case (Cons a src)
  obtain x y where a: "a = (x, y)" by (cases a)
  show ?case using Cons.IH[of "AList.update x y dst"] Cons.prems by (simp add: maps_Copy_def a distinct_update)
qed (simp add: maps_Copy_def)

lemma map_of_rev_distinct: "distinct (map fst xs) \<Longrightarrow> map_of (rev xs) = map_of xs"
  by (rule map_of_eqI) (auto simp: rev_map[symmetric])

lemma rudo_variable:
  "map_of (maps_Copy defaultEnvVars (ru_extraEnvVars (fold (\<lambda>opt. opt) (map WithExtraEnvVars es)
       \<lparr>ru_tag = t, ru_network = n, ru_bindIP = ip, ru_extraEnvVars = []\<rparr>))) k
     = (case map_of (rev (concat es)) k of Some v \<Rightarrow> Some v | None \<Rightarrow> map_of defaultEnvVars k)"
proof -
  have "map_of (rev (maps_Copy [] (concat es))) = map_of (maps_Copy [] (concat es))"
    by (rule map_of_rev_distinct) (simp add: maps_Copy_distinct)
  then show ?thesis by (simp add: fold_WithExtraEnvVars maps_Copy_map_of split: option.split)
qed

lemma rudo_tidy: "tidy (rudo_Setup P environ JoinPath opts)"
  unfolding rudo_Setup_def Let_def by (intro tidy_rules)

subsection \<open>The transformer\<close>

record transformer_config =
  tf_repository :: gostr
  tf_tag :: gostr
  tf_exposedPorts :: "gostr list"
  tf_envs :: "gostr list"
  tf_extraHosts :: "gostr list"
  tf_network :: "gostr option"
  tf_authConfig :: "gostr \<times> gostr"
  tf_bindIP :: gostr
  tf_cleanups :: "gostr list"

definition setBackendConfigURL :: "gostr \<Rightarrow> transformer_config \<Rightarrow> transformer_config" where
  "setBackendConfigURL u c =
     c\<lparr>tf_envs := filter (\<lambda>s. \<not> has_prefix (lit ''CONFIG_BACKEND_URL='') s) (tf_envs c) @ [lit ''CONFIG_BACKEND_URL='' @ u]\<rparr>"

text \<open>\<open>server_url\<close>: the address of the server that is started; its end is a clean-up.\<close>

definition WithUserTransformations :: "gostr \<Rightarrow> transformer_config \<Rightarrow> transformer_config" where
  "WithUserTransformations server_url c =
     (let c1 = setBackendConfigURL (ToInternalDockerHost server_url) c
      in c1\<lparr>tf_extraHosts := tf_extraHosts c1 @ [lit ''host.docker.internal:host-gateway''], tf_cleanups := tf_cleanups c1 @ [server_url]\<rparr>)"

definition WithConnectionToHostEnabled :: "transformer_config \<Rightarrow> transformer_config" where
  "WithConnectionToHostEnabled c = c\<lparr>tf_extraHosts := tf_extraHosts c @ [lit ''host.docker.internal:host-gateway'']\<rparr>"

definition WithConfigBackendURL :: "gostr \<Rightarrow> transformer_config \<Rightarrow> transformer_config" where
  "WithConfigBackendURL u = setBackendConfigURL (ToInternalDockerHost u)"

definition WithDockerImageTag :: "gostr \<Rightarrow> transformer_config \<Rightarrow> transformer_config" where
  "WithDockerImageTag t c = c\<lparr>tf_tag := t\<rparr>"

definition WithDockerNetwork :: "gostr \<Rightarrow> transformer_config \<Rightarrow> transformer_config" where
  "WithDockerNetwork n c = c\<lparr>tf_network := Some n\<rparr>"

definition transformer_WithEnv :: "gostr \<Rightarrow> transformer_config \<Rightarrow> transformer_config" where
  "transformer_WithEnv e c = c\<lparr>tf_envs := tf_envs c @ [e]\<rparr>"

definition transformer_WithRepository :: "gostr \<Rightarrow> transformer_config \<Rightarrow> transformer_config" where
  "transformer_WithRepository r c = c\<lparr>tf_repository := r\<rparr>"

definition WithDockerAuth :: "gostr \<times> gostr \<Rightarrow> transformer_config \<Rightarrow> transformer_config" where
  "WithDockerAuth a c = c\<lparr>tf_authConfig := a\<rparr>"

definition transformer_WithBindIP :: "gostr \<Rightarrow> transformer_config \<Rightarrow> transformer_config" where
  "transformer_WithBindIP ip c = c\<lparr>tf_bindIP := ip\<rparr>"

definition transformer_default :: transformer_config where
  "transformer_default = \<lparr>tf_repository = lit ''rudderstack/rudder-transformer'', tf_tag = lit ''latest'', tf_exposedPorts = [lit ''9090''],
     tf_envs = [lit ''CONFIG_BACKEND_URL=https://api.rudderstack.com'', lit ''NODE_OPTIONS=--no-node-snapshot''],
     tf_extraHosts = [], tf_network = None, tf_authConfig = ([], []), tf_bindIP = [], tf_cleanups = []\<rparr>"

definition transformer_Setup :: "pool \<Rightarrow> (gostr \<Rightarrow> gostr) \<Rightarrow> (transformer_config \<Rightarrow> transformer_config) list \<Rightarrow> gostr set_up" where
  "transformer_Setup P environ opts =
     (let conf = fold (\<lambda>opt. opt) opts transformer_default;
          imageRepository = ImagePath environ (tf_repository conf);
          ro = blank_options\<lparr>ro_Repository := imageRepository, ro_Tag := tf_tag conf,
                 ro_PortBindings := IPv4PortBindings (tf_exposedPorts conf) [WithBindIP (tf_bindIP conf)], ro_Env := tf_envs conf,
                 ro_ExtraHosts := tf_extraHosts conf, ro_NetworkID := network_id (tf_network conf), ro_Auth := AuthConfiguration environ\<rparr>
      in and_then (Inr (), map Closes (tf_cleanups conf)) (\<lambda>_.
         and_then (failing (\<lambda>e. lit ''failed to pull image: '' @ e) (check (PullImage P imageRepository (tf_tag conf)))) (\<lambda>_.
         and_then (Inr (), [Pulled imageRepository (tf_tag conf)]) (\<lambda>_.
         and_then (run_checked P ro) (\<lambda>c.
         let u = lit ''http://'' @ GetBoundIP c (lit ''9090/tcp'') @ lit '':'' @ GetPort c (lit ''9090/tcp'')
         in and_then (check (Wait P (u @ lit ''/health''))) (\<lambda>_. returns u))))))"

lemma tidy_other [tidy_rules]: "tidy (Inr x, map Closes hs)" "tidy (Inr x, [Pulled r t])"
  by (induction hs) (auto simp: tidy_def started_def purged_def)

lemma transformer_tidy: "tidy (transformer_Setup P environ opts)"
  unfolding transformer_Setup_def Let_def by (intro tidy_rules)

text \<open>The last of the options that set the backend wins, and is there once; the other variables keep their order.\<close>

lemma setBackendConfigURL_once:
  "filter (has_prefix (lit ''CONFIG_BACKEND_URL='')) (tf_envs (setBackendConfigURL u c)) = [lit ''CONFIG_BACKEND_URL='' @ u]
   \<and> filter (\<lambda>s. \<not> has_prefix (lit ''CONFIG_BACKEND_URL='') s) (tf_envs (setBackendConfigURL u c))
       = filter (\<lambda>s. \<not> has_prefix (lit ''CONFIG_BACKEND_URL='') s) (tf_envs c)"
proof -
  have "has_prefix p (p @ u)" for p by (induction p) auto
  then show ?thesis by (simp add: setBackendConfigURL_def filter_empty_conv)
qed

text \<open>The credentials of \<open>WithDockerAuth\<close> are not used.\<close>

lemma WithDockerAuth_ignored:
  "transformer_Setup P environ (opts @ [WithDockerAuth a]) = transformer_Setup P environ opts"
  by (simp add: transformer_Setup_def WithDockerAuth_def Let_def)

subsection \<open>The backend of the transformer\<close>

text \<open>\<open>getByVersionIdHandler\<close>: the status and the text; \<open>q\<close> quotes a string, \<open>newid\<close> is the new identifier. Every line after the
  first starts with two tabs, the last with one.\<close>

definition backend_lines :: "(gostr \<Rightarrow> gostr) \<Rightarrow> gostr \<Rightarrow> gostr \<Rightarrow> gostr \<Rightarrow> gostr list" where
  "backend_lines q newid versionId code =
     [lit ''\"id\": '' @ q newid @ lit '','', lit ''\"createdAt\": \"2023-03-27T11:40:00.894Z\",'', lit ''\"updatedAt\": \"2023-03-27T11:40:00.894Z\",'',
      lit ''\"versionId\": '' @ q versionId @ lit '','', lit ''\"name\": \"Add Transformed field\",'', lit ''\"description\": \"\",'',
      lit ''\"code\": '' @ q code @ lit '','', lit ''\"secretsVersion\": null,'', lit ''\"codeVersion\": \"1\",'', lit ''\"language\": \"javascript\",'',
      lit ''\"imports\": [],'', lit ''\"secrets\": {}'']"

definition getByVersionIdHandler :: "(gostr \<Rightarrow> gostr) \<Rightarrow> (gostr \<Rightarrow> gostr option) \<Rightarrow> gostr \<Rightarrow> gostr \<Rightarrow> int \<times> gostr option" where
  "getByVersionIdHandler q transformations newid versionId =
     (case transformations versionId of
        None \<Rightarrow> (404, None)
      | Some code \<Rightarrow> (200, Some (lit ''{'' @ concat (map (\<lambda>l. [10, 9, 9] @ l) (backend_lines q newid versionId code)) @ [10, 9] @ lit ''}'')))"

subsection \<open>Kafka\<close>

datatype scramHashGenerator = scramPlainText | scramSHA256 | scramSHA512

record sasl_config =
  BrokerUser :: "gostr \<times> gostr"
  Users :: "(gostr \<times> gostr) list"
  CertificatePassword :: gostr
  KeyStorePath :: gostr
  TrustStorePath :: gostr
  hashType :: scramHashGenerator

record kafka_config =
  k_brokers :: nat
  k_saslConfig :: "sasl_config option"
  k_network :: "gostr option"
  dontUseDockerHostListeners :: bool
  customAdvertisedListener :: gostr
  useSchemaRegistry :: bool

definition kafka_WithBrokers :: "nat \<Rightarrow> kafka_config \<Rightarrow> kafka_config" where
  "kafka_WithBrokers n c = c\<lparr>k_brokers := n\<rparr>"

definition withSASL :: "scramHashGenerator \<Rightarrow> sasl_config \<Rightarrow> kafka_config \<Rightarrow> kafka_config" where
  "withSASL h conf c = c\<lparr>k_saslConfig := Some (conf\<lparr>hashType := h\<rparr>)\<rparr>"

definition kafka_WithNetwork :: "gostr \<Rightarrow> kafka_config \<Rightarrow> kafka_config" where
  "kafka_WithNetwork n c = c\<lparr>k_network := Some n\<rparr>"

definition WithoutDockerHostListeners :: "kafka_config \<Rightarrow> kafka_config" where
  "WithoutDockerHostListeners c = c\<lparr>dontUseDockerHostListeners := True\<rparr>"

definition WithCustomAdvertisedListener :: "gostr \<Rightarrow> kafka_config \<Rightarrow> kafka_config" where
  "WithCustomAdvertisedListener l c = c\<lparr>customAdvertisedListener := l\<rparr>"

definition WithSchemaRegistry :: "kafka_config \<Rightarrow> kafka_config" where
  "WithSchemaRegistry c = c\<lparr>useSchemaRegistry := True\<rparr>"

definition kafka_defaults :: "kafka_config \<Rightarrow> kafka_config" where
  "kafka_defaults c = (if k_brokers c < 1 then c\<lparr>k_brokers := 1\<rparr> else c)"

text \<open>The mounts and the variables of SASL, or the error; the trailing comma of the lists is cut off.\<close>

definition comma_list :: "gostr list \<Rightarrow> gostr" where
  "comma_list xs = butlast (concat (map (\<lambda>x. x @ lit '','') xs))"

definition sasl_env :: "sasl_config \<Rightarrow> gostr + gostr list \<times> gostr list" where
  "sasl_env s =
     (if fst (BrokerUser s) = [] then Inl (lit ''SASL broker user must be provided'')
      else if length (Users s) < 1 then Inl (lit ''SASL users must be provided'')
      else if CertificatePassword s = [] then Inl (lit ''SASL certificate password cannot be empty'')
      else if KeyStorePath s = [] then Inl (lit ''SASL keystore path cannot be empty'')
      else if TrustStorePath s = [] then Inl (lit ''SASL truststore path cannot be empty'')
      else let mech = (case hashType s of scramPlainText \<Rightarrow> lit ''PLAIN'' | scramSHA256 \<Rightarrow> lit ''SCRAM-SHA-256'' | scramSHA512 \<Rightarrow> lit ''SCRAM-SHA-512'')
           in Inr ([KeyStorePath s @ lit '':/opt/bitnami/kafka/config/certs/kafka.keystore.jks'',
                    TrustStorePath s @ lit '':/opt/bitnami/kafka/config/certs/kafka.truststore.jks''],
                   [lit ''KAFKA_CFG_SASL_ENABLED_MECHANISMS='' @ mech, lit ''KAFKA_CFG_SASL_MECHANISM_INTER_BROKER_PROTOCOL='' @ mech,
                    lit ''KAFKA_CLIENT_USERS='' @ comma_list (map fst (Users s)), lit ''KAFKA_CLIENT_PASSWORDS='' @ comma_list (map snd (Users s)),
                    lit ''KAFKA_INTER_BROKER_USER='' @ fst (BrokerUser s), lit ''KAFKA_INTER_BROKER_PASSWORD='' @ snd (BrokerUser s),
                    lit ''KAFKA_CERTIFICATE_PASSWORD='' @ CertificatePassword s, lit ''KAFKA_CFG_TLS_TYPE=JKS'', lit ''KAFKA_CFG_TLS_CLIENT_AUTH=none'',
                    lit ''KAFKA_CFG_SSL_ENDPOINT_IDENTIFICATION_ALGORITHM='',
                    lit ''KAFKA_CFG_LISTENER_SECURITY_PROTOCOL_MAP=INTERNAL:SASL_SSL,CLIENT:SASL_SSL'',
                    lit ''KAFKA_ZOOKEEPER_TLS_VERIFY_HOSTNAME=false'']))"

definition bootstrap_servers :: "nat \<Rightarrow> gostr" where
  "bootstrap_servers n = comma_list (map (\<lambda>i. lit ''kafka'' @ nat_str i @ lit '':9090'') [1..<n + 1])"

definition schema_bootstrap :: "nat \<Rightarrow> gostr" where
  "schema_bootstrap n = Join (map (\<lambda>i. lit ''PLAINTEXT://kafka'' @ nat_str (i + 1) @ lit '':9090'') [0..<n]) (lit '','')"

text \<open>The address a broker tells its clients.\<close>

definition advertised :: "kafka_config \<Rightarrow> gostr \<Rightarrow> int \<Rightarrow> gostr" where
  "advertised c hostname localhostPort =
     lit ''KAFKA_CFG_ADVERTISED_LISTENERS=INTERNAL://'' @ hostname @ lit '':9090,CLIENT://'' @
     (if dontUseDockerHostListeners c then hostname @ lit '':9092''
      else if customAdvertisedListener c \<noteq> [] then customAdvertisedListener c
      else lit ''localhost:'' @ int_str localhostPort)"

definition broker_options :: "(gostr \<Rightarrow> gostr) \<Rightarrow> kafka_config \<Rightarrow> gostr \<Rightarrow> gostr list \<Rightarrow> gostr list \<Rightarrow> nat \<Rightarrow> int \<Rightarrow> run_options" where
  "broker_options environ c netid mounts envVariables i localhostPort =
     (let nodeID = nat_str (i + 1); hostname = lit ''kafka'' @ nodeID
      in blank_options\<lparr>ro_Repository := ImagePath environ (lit ''bitnamilegacy/kafka''), ro_Tag := lit ''3.6.0'', ro_NetworkID := netid,
           ro_Hostname := hostname, ro_ExposedPorts := [lit ''9092/tcp''],
           ro_PortBindings := [lit ''9092/tcp'' \<mapsto> [(BindHostIP, int_str localhostPort)]], ro_Auth := AuthConfiguration environ,
           ro_Mounts := mounts,
           ro_Env := envVariables @ [lit ''KAFKA_BROKER_ID='' @ nodeID, lit ''KAFKA_CFG_LISTENERS=INTERNAL://'' @ hostname @ lit '':9090,CLIENT://:9092'',
                                     advertised c hostname localhostPort]\<rparr>)"

text \<open>The loop over the brokers; \<open>ports\<close> is what \<open>GetFreePort\<close> answers, call by call.\<close>

fun start_brokers :: "pool \<Rightarrow> (nat \<Rightarrow> gostr + int) \<Rightarrow> (nat \<Rightarrow> int \<Rightarrow> run_options) \<Rightarrow> nat list \<Rightarrow> container list set_up" where
  "start_brokers P ports mk [] = returns []"
| "start_brokers P ports mk (i # is) =
     (case ports (i + 1) of
        Inl e \<Rightarrow> (Inl e, [])
      | Inr port \<Rightarrow> and_then (run_registered P (mk i port)) (\<lambda>c.
                    and_then (start_brokers P ports mk is) (\<lambda>cs. returns (c # cs))))"

fun broker_addresses :: "container list \<Rightarrow> gostr + gostr list" where
  "broker_addresses [] = Inr []"
| "broker_addresses (c # cs) =
     (if GetBoundIP c (lit ''9092/tcp'') = [] then Inl (lit ''could not find kafka broker port'')
      else case broker_addresses cs of
             Inl e \<Rightarrow> Inl e
           | Inr as \<Rightarrow> Inr ((GetBoundIP c (lit ''9092/tcp'') @ lit '':'' @ GetPort c (lit ''9092/tcp'')) # as))"

definition lift_error :: "gostr + 'a \<Rightarrow> 'a set_up" where
  "lift_error r = (r, [])"

definition schema_registry :: "pool \<Rightarrow> (gostr \<Rightarrow> gostr) \<Rightarrow> kafka_config \<Rightarrow> gostr \<Rightarrow> (gostr list \<times> gostr) set_up" where
  "schema_registry P environ c netid =
     (if \<not> useSchemaRegistry c then returns ([], [])
      else and_then (run_registered P
             (blank_options\<lparr>ro_Repository := ImagePath environ (lit ''bitnamilegacy/schema-registry''), ro_Tag := lit ''7.5-debian-11'', ro_NetworkID := netid,
                ro_Hostname := lit ''schemaregistry'', ro_ExposedPorts := [lit ''8081/tcp''], ro_PortBindings := IPv4PortBindings [lit ''8081''] [],
                ro_Auth := AuthConfiguration environ,
                ro_Env := [lit ''SCHEMA_REGISTRY_DEBUG=true'', lit ''SCHEMA_REGISTRY_KAFKA_BROKERS='' @ schema_bootstrap (k_brokers c),
                           lit ''SCHEMA_REGISTRY_ADVERTISED_HOSTNAME=schemaregistry'', lit ''SCHEMA_REGISTRY_CLIENT_AUTHENTICATION=NONE'']\<rparr>))
           (\<lambda>src. if GetPort src (lit ''8081/tcp'') = [] then lift_error (Inl (lit ''could not find schema registry port''))
                  else returns ([lit ''KAFKA_SCHEMA_REGISTRY_URL=schemaregistry:8081''],
                                lit ''http://'' @ GetBoundIP src (lit ''8081/tcp'') @ lit '':'' @ GetPort src (lit ''8081/tcp''))))"

text \<open>\<open>new_network\<close>: what \<open>CreateNetwork\<close> answers. The resource: the brokers and the address of the schema registry.\<close>

definition kafka_Setup :: "pool \<Rightarrow> (gostr \<Rightarrow> gostr) \<Rightarrow> (nat \<Rightarrow> gostr + int) \<Rightarrow> (gostr + gostr) \<Rightarrow> (kafka_config \<Rightarrow> kafka_config) list
    \<Rightarrow> (gostr list \<times> gostr) set_up" where
  "kafka_Setup P environ ports new_network opts =
     (let c = kafka_defaults (fold (\<lambda>opt. opt) opts \<lparr>k_brokers = 0, k_saslConfig = None, k_network = None,
                dontUseDockerHostListeners = False, customAdvertisedListener = [], useSchemaRegistry = False\<rparr>)
      in and_then (lift_error (case k_network c of Some n \<Rightarrow> Inr n | None \<Rightarrow> new_network)) (\<lambda>netid.
         and_then (lift_error (ports 0)) (\<lambda>zookeeperPort.
         and_then (run_registered P (blank_options\<lparr>ro_Repository := ImagePath environ (lit ''bitnamilegacy/zookeeper''), ro_Tag := lit ''3.9-debian-11'',
                ro_NetworkID := netid, ro_Hostname := lit ''zookeeper'',
                ro_PortBindings := [lit ''2181/tcp'' \<mapsto> [(BindHostIP, int_str zookeeperPort)]],
                ro_Auth := AuthConfiguration environ, ro_Env := [lit ''ALLOW_ANONYMOUS_LOGIN=yes'']\<rparr>)) (\<lambda>_.
         and_then (schema_registry P environ c netid) (\<lambda>(registry_env, registry_url).
         let env1 = [lit ''KAFKA_CFG_ZOOKEEPER_CONNECT=zookeeper:2181'', lit ''KAFKA_CFG_INTER_BROKER_LISTENER_NAME=INTERNAL'',
                     lit ''ALLOW_PLAINTEXT_LISTENER=yes''] @ registry_env @ [lit ''BOOTSTRAP_SERVERS='' @ bootstrap_servers (k_brokers c)]
         in and_then (lift_error (case k_saslConfig c of
                        None \<Rightarrow> Inr ([], [lit ''KAFKA_CFG_LISTENER_SECURITY_PROTOCOL_MAP=INTERNAL:PLAINTEXT,CLIENT:PLAINTEXT''])
                      | Some s \<Rightarrow> sasl_env s)) (\<lambda>(mounts, sasl).
            and_then (start_brokers P ports (broker_options environ c netid mounts (env1 @ sasl)) [0..<k_brokers c]) (\<lambda>containers.
            and_then (lift_error (broker_addresses containers)) (\<lambda>brokers.
            and_then (failing (\<lambda>e. lit ''could not connect to kafka: '' @ e) (check (Wait P (hd brokers)))) (\<lambda>_.
            returns (brokers, registry_url))))))))))"

lemma tidy_lift_error [tidy_rules]: "tidy (lift_error r)"
  by (simp add: lift_error_def tidy_def started_def purged_def)

lemma start_brokers_tidy [tidy_rules]: "tidy (start_brokers P ports mk is)"
  by (induction P ports mk "is" rule: start_brokers.induct)
    (auto simp: tidy_def[of "(Inl _, [])"] started_def purged_def split: sum.split intro!: tidy_rules)

lemma schema_registry_tidy [tidy_rules]: "tidy (schema_registry P environ c netid)"
  unfolding schema_registry_def by (auto intro!: tidy_rules)

lemma kafka_tidy: "tidy (kafka_Setup P environ ports new_network opts)"
  unfolding kafka_Setup_def Let_def split_def by (intro tidy_rules)

text \<open>The comma separated lists are joins, and a set-up that succeeds has the brokers asked for, at least one.\<close>

lemma comma_list_Join: "comma_list xs = Join xs (lit '','')"
proof (cases xs)
  case (Cons x ys)
  have "butlast (concat (map (\<lambda>x. x @ [44]) (x # ys))) = Join (x # ys) [44]" for x :: gostr and ys
    by (induction ys arbitrary: x) (auto simp: butlast_append)
  then show ?thesis by (simp add: Cons comma_list_def lit_def)
qed (simp add: comma_list_def)

lemma and_then_Inr: "and_then s f = (Inr y, ev) \<longleftrightarrow> (\<exists>x ev1 ev2. s = (Inr x, ev1) \<and> f x = (Inr y, ev2) \<and> ev = ev1 @ ev2)"
  by (auto simp: and_then_def split: prod.splits sum.splits)

lemma start_brokers_length: "start_brokers P ports mk is = (Inr cs, ev) \<Longrightarrow> length cs = length is"
  by (induction P ports mk "is" arbitrary: cs ev rule: start_brokers.induct)
    (auto simp: and_then_Inr returns_def split: sum.splits)

lemma broker_addresses_length: "broker_addresses cs = Inr as \<Longrightarrow> length as = length cs"
  by (induction cs arbitrary: "as") (auto split: if_splits sum.splits)

lemma kafka_brokers:
  assumes "kafka_Setup P environ ports new_network opts = (Inr (brokers, u), ev)"
  shows "length brokers = max 1 (k_brokers (fold (\<lambda>opt. opt) opts \<lparr>k_brokers = 0, k_saslConfig = None, k_network = None,
                dontUseDockerHostListeners = False, customAdvertisedListener = [], useSchemaRegistry = False\<rparr>))"
proof -
  define c where "c = kafka_defaults (fold (\<lambda>opt. opt) opts \<lparr>k_brokers = 0, k_saslConfig = None, k_network = None,
                dontUseDockerHostListeners = False, customAdvertisedListener = [], useSchemaRegistry = False\<rparr>)"
  obtain mk containers ev1 where s: "start_brokers P ports mk [0..<k_brokers c] = (Inr containers, ev1)" "broker_addresses containers = Inr brokers"
    using assms unfolding kafka_Setup_def Let_def split_def and_then_Inr c_def[symmetric]
    by (auto simp: lift_error_def returns_def)
  have "length brokers = k_brokers c" using start_brokers_length[OF s(1)] broker_addresses_length[OF s(2)] by simp
  then show ?thesis by (simp add: c_def kafka_defaults_def)
qed

subsection \<open>Postgres\<close>

record postgres_config =
  pg_Tag :: gostr
  pg_Options :: "gostr list"
  pg_ShmSize :: int
  pg_Memory :: int
  pg_OOMKillDisable :: bool
  pg_PrintLogsOnError :: bool
  pg_NetworkID :: gostr
  pg_BindIP :: gostr

definition postgres_WithTag :: "gostr \<Rightarrow> postgres_config \<Rightarrow> postgres_config" where
  "postgres_WithTag t c = c\<lparr>pg_Tag := t\<rparr>"
definition postgres_WithOptions :: "gostr list \<Rightarrow> postgres_config \<Rightarrow> postgres_config" where
  "postgres_WithOptions os c = c\<lparr>pg_Options := os\<rparr>"
definition postgres_WithShmSize :: "int \<Rightarrow> postgres_config \<Rightarrow> postgres_config" where
  "postgres_WithShmSize n c = c\<lparr>pg_ShmSize := n\<rparr>"
definition postgres_WithMemory :: "int \<Rightarrow> postgres_config \<Rightarrow> postgres_config" where
  "postgres_WithMemory n c = c\<lparr>pg_Memory := n\<rparr>"
definition postgres_WithOOMKillDisable :: "bool \<Rightarrow> postgres_config \<Rightarrow> postgres_config" where
  "postgres_WithOOMKillDisable b c = c\<lparr>pg_OOMKillDisable := b\<rparr>"
definition postgres_WithPrintLogsOnError :: "bool \<Rightarrow> postgres_config \<Rightarrow> postgres_config" where
  "postgres_WithPrintLogsOnError b c = c\<lparr>pg_PrintLogsOnError := b\<rparr>"
definition postgres_WithNetwork :: "gostr \<Rightarrow> postgres_config \<Rightarrow> postgres_config" where
  "postgres_WithNetwork n c = c\<lparr>pg_NetworkID := n\<rparr>"
definition postgres_WithBindIP :: "gostr \<Rightarrow> postgres_config \<Rightarrow> postgres_config" where
  "postgres_WithBindIP ip c = c\<lparr>pg_BindIP := ip\<rparr>"

record postgres_resource =
  DBDsn :: gostr
  Host :: gostr
  Port :: gostr
  ContainerName :: gostr
  ContainerID :: gostr

definition postgres_cmd :: "gostr list \<Rightarrow> gostr list" where
  "postgres_cmd os = lit ''postgres'' # concat (map (\<lambda>opt. [lit ''-c'', opt]) os)"

text \<open>The memory settings of the host go to the pool beside the run options; the clean-up closes the database too.\<close>

definition postgres_Setup :: "pool \<Rightarrow> (gostr \<Rightarrow> gostr) \<Rightarrow> (postgres_config \<Rightarrow> postgres_config) list \<Rightarrow> postgres_resource set_up" where
  "postgres_Setup P environ opts =
     (let c = fold (\<lambda>opt. opt) opts \<lparr>pg_Tag = lit ''17-alpine'', pg_Options = [], pg_ShmSize = 128 * 1024 * 1024, pg_Memory = 0,
                pg_OOMKillDisable = False, pg_PrintLogsOnError = False, pg_NetworkID = [], pg_BindIP = []\<rparr>;
          ro = blank_options\<lparr>ro_Repository := ImagePath environ (lit ''postgres''), ro_Tag := pg_Tag c, ro_NetworkID := pg_NetworkID c,
                 ro_Env := [lit ''POSTGRES_PASSWORD=password'', lit ''POSTGRES_DB=jobsdb'', lit ''POSTGRES_USER=rudder''],
                 ro_Cmd := postgres_cmd (pg_Options c), ro_Auth := AuthConfiguration environ,
                 ro_PortBindings := IPv4PortBindings [lit ''5432''] [WithBindIP (pg_BindIP c)]\<rparr>
      in and_then (run_checked P ro) (\<lambda>ct.
         let host = GetBoundIP ct (lit ''5432/tcp''); port = GetPort ct (lit ''5432/tcp'');
             dbDSN = lit ''postgres://rudder:password@'' @ host @ lit '':'' @ port @ lit ''/jobsdb?sslmode=disable''
         in and_then (failing (\<lambda>e. lit ''waiting for database to startup: '' @ e) (check (Wait P dbDSN))) (\<lambda>_.
            returns \<lparr>DBDsn = dbDSN, Host = host, Port = port, ContainerName = TrimPrefix (ct_Name ct) (lit ''/''), ContainerID = ct_ID ct\<rparr>)))"

lemma postgres_tidy: "tidy (postgres_Setup P environ opts)"
  unfolding postgres_Setup_def Let_def by (intro tidy_rules)

lemma postgres_cmd_length: "length (postgres_cmd os) = 1 + 2 * length os"
  by (induction os) (auto simp: postgres_cmd_def)

subsection \<open>MySQL\<close>

record mysql_config =
  my_Tag :: gostr
  my_ShmSize :: int

definition mysql_WithTag :: "gostr \<Rightarrow> mysql_config \<Rightarrow> mysql_config" where
  "mysql_WithTag t c = c\<lparr>my_Tag := t\<rparr>"

definition mysql_WithShmSize :: "int \<Rightarrow> mysql_config \<Rightarrow> mysql_config" where
  "mysql_WithShmSize n c = c\<lparr>my_ShmSize := n\<rparr>"

text \<open>The resource: its address for the driver, host and port.\<close>

definition mysql_Setup :: "pool \<Rightarrow> (gostr \<Rightarrow> gostr) \<Rightarrow> (mysql_config \<Rightarrow> mysql_config) list \<Rightarrow> (gostr \<times> gostr \<times> gostr) set_up" where
  "mysql_Setup P environ opts =
     (let c = fold (\<lambda>opt. opt) opts \<lparr>my_Tag = lit ''8.2'', my_ShmSize = 0\<rparr>;
          ro = blank_options\<lparr>ro_Repository := ImagePath environ (lit ''mysql''), ro_Tag := my_Tag c,
                 ro_Env := [lit ''MYSQL_ROOT_PASSWORD=password'', lit ''MYSQL_DATABASE=sources''], ro_ExposedPorts := [lit ''3306/tcp''],
                 ro_PortBindings := IPv4PortBindings [lit ''3306''] [], ro_Auth := AuthConfiguration environ\<rparr>
      in and_then (failing (\<lambda>e. lit ''running container: '' @ e) (run_checked P ro)) (\<lambda>ct.
         let host = GetBoundIP ct (lit ''3306/tcp''); port = GetPort ct (lit ''3306/tcp'');
             dbDSN = lit ''root:password@tcp('' @ host @ lit '':'' @ port @ lit '')/sources?tls=false''
         in and_then (failing (\<lambda>e. lit ''pinging container: '' @ e) (check (Wait P dbDSN))) (\<lambda>_. returns (dbDSN, host, port))))"

lemma mysql_tidy: "tidy (mysql_Setup P environ opts)"
  unfolding mysql_Setup_def Let_def by (intro tidy_rules)

subsection \<open>The authentication services\<close>

record account_fixture =
  af_ID :: gostr
  af_Type :: gostr
  af_Category :: gostr
  af_WorkspaceID :: gostr
  af_DestinationID :: gostr
  af_Options :: "gostr option"
  af_HasAccountDefinition :: bool
  af_AuthClientSecrets :: envs

definition applyDefaults :: "account_fixture \<Rightarrow> account_fixture" where
  "applyDefaults af = (if af_Options af = None then af\<lparr>af_Options := Some (lit ''{}'')\<rparr> else af)"

definition accountDefName :: "account_fixture \<Rightarrow> gostr" where
  "accountDefName af = ToUpper (af_Category af @ lit ''_'' @ af_Type af)"

text \<open>A request with the hosted secret: the error of the request and of the client, or the status, its text and the body (with the
  error of reading it).\<close>

definition FetchToken :: "(gostr \<Rightarrow> gostr \<Rightarrow> gostr \<Rightarrow> gostr option) \<Rightarrow> (gostr \<Rightarrow> gostr \<Rightarrow> gostr \<Rightarrow> gostr + int \<times> gostr \<times> gostr \<times> gostr option)
    \<Rightarrow> gostr \<Rightarrow> account_fixture \<Rightarrow> gostr + gostr" where
  "FetchToken NewRequest Do configBackendURL af =
     (let u = configBackendURL @ lit ''/destination/workspaces/'' @ af_WorkspaceID af @ lit ''/accounts/'' @ af_ID af @ lit ''/token'';
          body = lit ''{}''
      in case NewRequest (lit ''POST'') u body of
           Some e \<Rightarrow> Inl (lit ''creating fetch token request: '' @ e)
         | None \<Rightarrow>
             (case Do (lit ''POST'') u body of
                Inl e \<Rightarrow> Inl (lit ''fetching token: '' @ e)
              | Inr (code, status, text, read_err) \<Rightarrow>
                  if code \<noteq> 200 then Inl (lit ''fetching token not ok: '' @ status @ lit '': '' @ text)
                  else case read_err of Some e \<Rightarrow> Inl (lit ''reading token response body: '' @ e) | None \<Rightarrow> Inr text))"

definition ToggleStatus where
  "ToggleStatus Marshal NewRequest Do configBackendURL af status =
     (if af_DestinationID af = [] then Some (lit ''cannot toggle status: Fixture.DestinationID is empty'')
      else let u = configBackendURL @ lit ''/workspaces/'' @ af_WorkspaceID af @ lit ''/destinations/'' @ af_DestinationID af @ lit ''/authStatus/toggle''
           in case Marshal [(lit ''authStatus'', status)] of
                Inl e \<Rightarrow> Some (lit ''marshaling toggle status request body: '' @ e)
              | Inr body \<Rightarrow>
                  (case NewRequest (lit ''PUT'') u body of
                     Some e \<Rightarrow> Some (lit ''creating toggle status request: '' @ e)
                   | None \<Rightarrow>
                       (case Do (lit ''PUT'') u body of
                          Inl e \<Rightarrow> Some (lit ''toggling status: '' @ e)
                        | Inr (code, status, text, read_err) \<Rightarrow>
                            if code \<noteq> (200 :: int) then Some (lit ''toggling status not ok: '' @ status @ lit '': '' @ text) else None)))"

record rudderauth_config =
  secretsTag :: gostr
  authTag :: gostr
  configBackendTag :: gostr
  ra_bindIP :: gostr

definition WithSecretsTag :: "gostr \<Rightarrow> rudderauth_config \<Rightarrow> rudderauth_config" where "WithSecretsTag t c = c\<lparr>secretsTag := t\<rparr>"
definition WithAuthTag :: "gostr \<Rightarrow> rudderauth_config \<Rightarrow> rudderauth_config" where "WithAuthTag t c = c\<lparr>authTag := t\<rparr>"
definition WithConfigBackendTag :: "gostr \<Rightarrow> rudderauth_config \<Rightarrow> rudderauth_config" where "WithConfigBackendTag t c = c\<lparr>configBackendTag := t\<rparr>"
definition rudderauth_WithBindIP :: "gostr \<Rightarrow> rudderauth_config \<Rightarrow> rudderauth_config" where "rudderauth_WithBindIP ip c = c\<lparr>ra_bindIP := ip\<rparr>"

text \<open>\<open>startContainer\<close>: pull, run, wait; the container and its URL.\<close>

definition startContainer :: "pool \<Rightarrow> (gostr \<Rightarrow> gostr) \<Rightarrow> rudderauth_config \<Rightarrow> gostr \<Rightarrow> gostr \<Rightarrow> gostr \<Rightarrow> gostr \<Rightarrow> gostr \<Rightarrow> gostr list
    \<Rightarrow> (container \<times> gostr) set_up" where
  "startContainer P environ conf netid nm repo tag port env =
     (let repository = ImagePath environ repo;
          ro = blank_options\<lparr>ro_Name := nm, ro_Repository := repository, ro_Tag := tag,
                 ro_PortBindings := IPv4PortBindings [port] [WithBindIP (ra_bindIP conf)], ro_NetworkID := netid, ro_Env := env,
                 ro_Auth := AuthConfiguration environ\<rparr>
      in and_then (failing (\<lambda>e. lit ''pulling image '' @ repo @ lit '':'' @ tag @ lit '': '' @ e) (check (PullImage P repository tag))) (\<lambda>_.
         and_then (Inr (), [Pulled repository tag]) (\<lambda>_.
         and_then (failing (\<lambda>e. lit ''starting '' @ repo @ lit '' container: '' @ e) (run_checked P ro)) (\<lambda>ct.
         let u = lit ''http://'' @ GetBoundIP ct (port @ lit ''/tcp'') @ lit '':'' @ GetPort ct (port @ lit ''/tcp'')
         in and_then (failing (\<lambda>e. lit ''waiting for '' @ repo @ lit '' to be healthy: '' @ e) (check (Wait P (u @ lit ''/health'')))) (\<lambda>_.
            returns (ct, u))))))"

lemma startContainer_tidy: "tidy (startContainer P environ conf netid nm repo tag port env)"
  unfolding startContainer_def Let_def by (intro tidy_rules)

text \<open>The category of an account stays empty if it is not given.\<close>

lemma applyDefaults_category: "af_Category (applyDefaults af) = af_Category af"
  by (simp add: applyDefaults_def)

end
