(* ===== verification/Rudo_Acker.thy ===== *)
theory Rudo_Acker
  imports Etcdwatcher "HOL-Library.Sublist"
begin

text \<open>
  The ackers of \<open>testhelper/rudoacker\<close>, which answer the requests that a watcher of \<open>etcdwatcher\<close> brings, and their command
  (\<open>main\<close>). The types of requests belong to another module: what they offer are parameters. Marshalling, the delays, the end
  of the context and the outcome of a write are given for each write, by its number.
\<close>

subsection \<open>Builders\<close>

record ('v, 'a) builder =
  b_prefix :: gostr
  b_mapFn :: "gostr \<Rightarrow> 'v \<Rightarrow> (gostr \<times> 'a) list"
  b_filter :: "('v Event \<Rightarrow> bool) option"
  minDelay :: int
  maxDelay :: int

definition newBuilder :: "gostr \<Rightarrow> (gostr \<Rightarrow> 'v \<Rightarrow> (gostr \<times> 'a) list) \<Rightarrow> ('v Event \<Rightarrow> bool) option \<Rightarrow> ('v, 'a) builder" where
  "newBuilder p mapFn flt =
     \<lparr>b_prefix = p, b_mapFn = mapFn, b_filter = flt, minDelay = 100 * 1000000, maxDelay = 1000000000\<rparr>"

definition WithMinDelay :: "int \<Rightarrow> ('v, 'a) builder \<Rightarrow> ('v, 'a) builder" where
  "WithMinDelay d b = b\<lparr>minDelay := d\<rparr>"

definition WithMaxDelay :: "int \<Rightarrow> ('v, 'a) builder \<Rightarrow> ('v, 'a) builder" where
  "WithMaxDelay d b = b\<lparr>maxDelay := d\<rparr>"

text \<open>\<open>lo.Union\<close> keeps the first of equal elements.\<close>

fun uniq :: "'x set \<Rightarrow> 'x list \<Rightarrow> 'x list" where
  "uniq seen [] = []"
| "uniq seen (x # xs) = (if x \<in> seen then uniq seen xs else x # uniq (insert x seen) xs)"

definition lo_Union :: "'x list \<Rightarrow> 'x list \<Rightarrow> 'x list" where
  "lo_Union xs ys = uniq {} (xs @ ys)"

text \<open>What a migration offers: its nodes, whether jobs fan out, the key and the value of an acknowledgment.\<close>

record ('v, 'a) migration_type =
  SourceNodes :: "'v \<Rightarrow> int list"
  TargetNodes :: "'v \<Rightarrow> int list"
  JobsDBFanout :: "'v \<Rightarrow> bool"
  mig_AckKey :: "'v \<Rightarrow> gostr \<Rightarrow> gostr"
  AckWithJobsDBs :: "'v \<Rightarrow> int \<Rightarrow> gostr \<Rightarrow> gostr list \<Rightarrow> 'a"

definition migration_entry :: "('v, 'a) migration_type \<Rightarrow> (int \<Rightarrow> gostr list) \<Rightarrow> 'v \<Rightarrow> int \<Rightarrow> gostr \<times> 'a" where
  "migration_entry T jobsDBsByNode m i =
     (let nodeName = lit ''node-'' @ int_str i;
          jobsdbs = (if i \<in> set (SourceNodes T m) \<and> JobsDBFanout T m then jobsDBsByNode i else [])
      in (mig_AckKey T m nodeName, AckWithJobsDBs T m i nodeName jobsdbs))"

definition migration_mapFn :: "('v, 'a) migration_type \<Rightarrow> (int \<Rightarrow> gostr list) \<Rightarrow> gostr \<Rightarrow> 'v \<Rightarrow> (gostr \<times> 'a) list" where
  "migration_mapFn T jobsDBsByNode _ m =
     map (migration_entry T jobsDBsByNode m) (lo_Union (SourceNodes T m) (TargetNodes T m))"

definition NewMigrationAcker :: "('v, 'a) migration_type \<Rightarrow> (int \<Rightarrow> gostr list) \<Rightarrow> gostr \<Rightarrow> ('v, 'a) builder" where
  "NewMigrationAcker T jobsDBsByNode namespace =
     newBuilder (lit ''/'' @ namespace @ lit ''/migration/request/'') (migration_mapFn T jobsDBsByNode) None"

text \<open>The name of a gateway: every star of the pattern is the number of the node.\<close>

definition replace_star :: "gostr \<Rightarrow> gostr \<Rightarrow> gostr" where
  "replace_star s pat = concat (map (\<lambda>c. if c = 42 then s else [c]) pat)"

definition NewGatewayAcker :: "('v \<Rightarrow> int list) \<Rightarrow> ('v \<Rightarrow> gostr \<Rightarrow> gostr) \<Rightarrow> ('v \<Rightarrow> int \<Rightarrow> gostr \<Rightarrow> 'a) \<Rightarrow> gostr \<Rightarrow> gostr \<Rightarrow>
  ('v, 'a) builder" where
  "NewGatewayAcker cmdNodes ackKey ack namespace nodePattern =
     newBuilder (lit ''/'' @ namespace @ lit ''/reload/gateway/request/'')
       (\<lambda>_ cmd. map (\<lambda>i. let nodeName = replace_star (int_str i) nodePattern in (ackKey cmd nodeName, ack cmd i nodeName)) (cmdNodes cmd))
       None"

definition NewSrcrouterAcker :: "('v \<Rightarrow> gostr \<Rightarrow> gostr) \<Rightarrow> ('v \<Rightarrow> gostr \<Rightarrow> 'a) \<Rightarrow> gostr \<Rightarrow> gostr list \<Rightarrow> ('v, 'a) builder" where
  "NewSrcrouterAcker ackKey ack namespace nodeNames =
     newBuilder (lit ''/'' @ namespace @ lit ''/reload/src-router/request/'')
       (\<lambda>_ cmd. map (\<lambda>nodeName. (ackKey cmd nodeName, ack cmd nodeName)) nodeNames) None"

text \<open>A job is its own acknowledgment, with the status completed.\<close>

definition NewJobAcker :: "('v \<Rightarrow> 's) \<Rightarrow> ('s \<Rightarrow> 'v \<Rightarrow> 'v) \<Rightarrow> 's \<Rightarrow> gostr \<Rightarrow> ('v, 'v) builder" where
  "NewJobAcker status set_status completed namespace =
     newBuilder (lit ''/'' @ namespace @ lit ''/migration/job/'') (\<lambda>k job. [(k, set_status completed job)])
       (Some (\<lambda>ev. status (Value ev) \<noteq> completed))"

subsection \<open>Acknowledging\<close>

datatype 'e acker_error = CreatingWatcher | LoadingRequests "'e werror" | WatchingRequests "'e werror" | MarshallingAck 'e | WritingAck 'e

definition randomDelay :: "int \<Rightarrow> int \<Rightarrow> (int \<Rightarrow> int) \<Rightarrow> int" where
  "randomDelay mn mx rand = (if mx \<le> mn then mn else mn + rand (mx - mn))"

text \<open>For the write with number \<open>n\<close>, \<open>env n\<close> says whether the delay passed before the context ended, and the error of the write.\<close>

fun writeAcks :: "('a \<Rightarrow> 'e + gostr) \<Rightarrow> (nat \<Rightarrow> bool \<times> 'e option) \<Rightarrow> nat \<Rightarrow> (gostr \<times> 'a) list \<Rightarrow>
  (gostr \<times> gostr) list \<times> 'e acker_error option \<times> nat" where
  "writeAcks marshal env n [] = ([], None, n)"
| "writeAcks marshal env n ((k, x) # es) =
     (if \<not> fst (env n) then ([], None, n + 1)
      else (case marshal x of
              Inl e \<Rightarrow> ([], Some (MarshallingAck e), n + 1)
            | Inr data \<Rightarrow>
                (case snd (env n) of
                   Some e \<Rightarrow> ([], Some (WritingAck e), n + 1)
                 | None \<Rightarrow> (case writeAcks marshal env (n + 1) es of (w, r) \<Rightarrow> ((k, data) # w, r)))))"

text \<open>The goroutine: the events it tells its listener, what it writes, and its error.\<close>

fun acker_loop :: "('v, 'a) builder \<Rightarrow> ('a \<Rightarrow> 'e + gostr) \<Rightarrow> (nat \<Rightarrow> bool \<times> 'e option) \<Rightarrow> nat \<Rightarrow> ('v, 'e) message list \<Rightarrow>
  'v Event list \<times> (gostr \<times> gostr) list \<times> 'e acker_error option" where
  "acker_loop b marshal env n [] = ([], [], None)"
| "acker_loop b marshal env n (AnError e # ms) = ([], [], Some (WatchingRequests e))"
| "acker_loop b marshal env n (AnEvent ev # ms) =
     (case writeAcks marshal env n (b_mapFn b (Key ev) (Value ev)) of
        (w, Some e, n1) \<Rightarrow> ([ev], w, Some e)
      | (w, None, n1) \<Rightarrow> (case acker_loop b marshal env n1 ms of (heard, w', r) \<Rightarrow> (ev # heard, w @ w', r)))"

definition acker_config :: "('v, 'a) builder \<Rightarrow> (gostr \<Rightarrow> 'e + 'v) \<Rightarrow> ('v, unit, 'e) wconfig" where
  "acker_config b U =
     (let bld = WithWatchEventType PutWatchEventType (WithWatchMode OnceMode (WithPrefix (NewBuilder U)))
      in case b_filter b of None \<Rightarrow> bld | Some f \<Rightarrow> WithFilter f bld)"

text \<open>There is no gate, so that no transaction is made.\<close>

definition no_txns :: "(unit, 'e) txns" where
  "no_txns = (\<lambda>_ _ _. Inr (False, []))"

definition acker_Start :: "('v, 'a) builder \<Rightarrow> (gostr \<Rightarrow> 'e + 'v) \<Rightarrow> ('a \<Rightarrow> 'e + gostr) \<Rightarrow> 'v \<Rightarrow> (int \<Rightarrow> ('e + ev_in list) list) \<Rightarrow>
  'e + kv list \<times> int \<Rightarrow> (nat \<Rightarrow> bool \<times> 'e option) \<Rightarrow>
  'e acker_error + ('v Event list \<times> (gostr \<times> gostr) list \<times> 'e acker_error option)" where
  "acker_Start b U marshal zero watch_from resp env =
     (case Build (acker_config b U) of
        None \<Rightarrow> Inl CreatingWatcher
      | Some w \<Rightarrow>
          (case LoadAndWatch w no_txns zero watch_from resp of
             (Inl e, _) \<Rightarrow> Inl (LoadingRequests e)
           | (Inr evs, ms) \<Rightarrow> Inr (acker_loop b marshal env 0 (map AnEvent evs @ ms))))"

subsection \<open>What is acknowledged\<close>

lemma set_uniq: "set (uniq seen xs) = set xs - seen"
  by (induction seen xs rule: uniq.induct) auto

lemma distinct_uniq: "distinct (uniq seen xs)"
  by (induction seen xs rule: uniq.induct) (auto simp: set_uniq)

text \<open>Every node of a migration is acknowledged once, and databases are declared for sources only.\<close>

lemma migration_nodes:
  "\<exists>nodes. distinct nodes \<and> set nodes = set (SourceNodes T m) \<union> set (TargetNodes T m) \<and>
     migration_mapFn T jobs k m = map (migration_entry T jobs m) nodes"
  using distinct_uniq[of "{} :: int set"] set_uniq[of "{} :: int set"]
  by (intro exI[of _ "lo_Union (SourceNodes T m) (TargetNodes T m)"]) (simp add: migration_mapFn_def lo_Union_def)

lemma randomDelay_bounds:
  assumes "\<And>k. 0 < k \<Longrightarrow> 0 \<le> rand k \<and> rand k < k"
  shows "mn \<le> randomDelay mn mx rand" "mn < mx \<Longrightarrow> randomDelay mn mx rand < mx"
  using assms[of "mx - mn"] by (auto simp: randomDelay_def)

definition ack_data :: "('a \<Rightarrow> 'e + gostr) \<Rightarrow> gostr \<times> 'a \<Rightarrow> gostr \<times> gostr" where
  "ack_data marshal e = (fst e, case marshal (snd e) of Inr d \<Rightarrow> d | Inl _ \<Rightarrow> [])"

definition acks_of :: "('v, 'a) builder \<Rightarrow> ('a \<Rightarrow> 'e + gostr) \<Rightarrow> 'v Event \<Rightarrow> (gostr \<times> gostr) list" where
  "acks_of b marshal ev = map (ack_data marshal) (b_mapFn b (Key ev) (Value ev))"

lemma writeAcks_some: "subseq (fst (writeAcks marshal env n es)) (map (ack_data marshal) es)"
proof (induction es arbitrary: n)
  case (Cons e es)
  obtain k x where e: "e = (k, x)" by (cases e)
  show ?case using Cons[of "n + 1"] e by (auto simp: ack_data_def split: sum.split option.split prod.split)
qed simp

lemma writeAcks_live:
  assumes "\<And>n. fst (env n)" "writeAcks marshal env n es = (w, None, n1)"
  shows "w = map (ack_data marshal) es"
  using assms(2)
proof (induction es arbitrary: n w)
  case (Cons e es)
  obtain k x where e: "e = (k, x)" by (cases e)
  obtain w' r where r: "writeAcks marshal env (n + 1) es = (w', r)" by (cases "writeAcks marshal env (n + 1) es")
  obtain d where d: "marshal x = Inr d" "snd (env n) = None" "w = (k, d) # w'" "r = (None, n1)"
    using Cons.prems assms(1)[of n] e r by (auto split: sum.splits option.splits)
  then show ?case using Cons.IH[of "n + 1" w'] r e by (simp add: ack_data_def)
qed simp

fun events_of :: "('v, 'e) message list \<Rightarrow> 'v Event list" where
  "events_of [] = []"
| "events_of (AnEvent ev # ms) = ev # events_of ms"
| "events_of (AnError _ # ms) = events_of ms"

lemma sent_keys_events: "sent_keys ms = map Key (events_of ms)"
  by (induction ms rule: events_of.induct) simp_all

lemma acker_loop_some:
  "acker_loop b marshal env n ms = (heard, written, r) \<Longrightarrow>
     (\<exists>more. events_of ms = heard @ more) \<and> subseq written (concat (map (acks_of b marshal) heard))"
proof (induction ms arbitrary: n heard written r rule: events_of.induct)
  case (2 ev ms)
  obtain w e n1 where w: "writeAcks marshal env n (b_mapFn b (Key ev) (Value ev)) = (w, e, n1)"
    by (cases "writeAcks marshal env n (b_mapFn b (Key ev) (Value ev))")
  have sub: "subseq w (acks_of b marshal ev)" using writeAcks_some[of marshal env n "b_mapFn b (Key ev) (Value ev)"] w by (simp add: acks_of_def)
  show ?case
  proof (cases e)
    case None
    obtain h w' r' where l: "acker_loop b marshal env n1 ms = (h, w', r')" by (cases "acker_loop b marshal env n1 ms")
    have e: "heard = ev # h" "written = w @ w'" using 2(2) l w None by simp_all
    have ih: "\<exists>more. events_of ms = h @ more" "subseq w' (concat (map (acks_of b marshal) h))" using 2(1)[OF l] by simp_all
    show ?thesis unfolding e using ih(1) list_emb_append_mono[OF sub ih(2)] by simp
  qed (use 2 w sub in auto)
qed auto

lemma acker_loop_live:
  assumes "\<And>n. fst (env n)"
  shows "acker_loop b marshal env n ms = (heard, written, None) \<Longrightarrow>
     events_of ms = heard \<and> written = concat (map (acks_of b marshal) heard)"
proof (induction ms arbitrary: n heard written rule: events_of.induct)
  case (2 ev ms)
  obtain w e n1 where w: "writeAcks marshal env n (b_mapFn b (Key ev) (Value ev)) = (w, e, n1)"
    by (cases "writeAcks marshal env n (b_mapFn b (Key ev) (Value ev))")
  obtain h w' r' where l: "acker_loop b marshal env n1 ms = (h, w', r')" by (cases "acker_loop b marshal env n1 ms")
  have e: "e = None" "r' = None" "heard = ev # h" "written = w @ w'" using 2(2) w l by (auto split: option.splits)
  have "w = acks_of b marshal ev" unfolding acks_of_def using w e(1) by (intro writeAcks_live[where env = env]) (auto simp: assms)
  then show ?case using 2(1)[of n1 h w'] l e by simp
qed auto

text \<open>Without a gate everything that is sent passes the filter.\<close>

lemma load_loop_passes:
  assumes "txnGate w = None"
  shows "load_loop w txn n kvs = (Inr evs, n1) \<Longrightarrow> list_all (passes w) evs"
proof (induction kvs arbitrary: n evs)
  case (Cons kv kvs)
  obtain v where v: "unmarshalValue w (kv_value kv) = Inr v" using Cons.prems by (auto split: sum.splits)
  obtain r m where r: "load_loop w txn n kvs = (r, m)" by (cases "load_loop w txn n kvs")
  show ?case using Cons.IH[of n] Cons.prems v r assms by (cases r) (auto simp: gated_def split: if_splits)
qed simp

lemma one_event_passes:
  assumes "txnGate w = None" "one_event w txn zero n i = (Inr (Some ev), n1)"
  shows "passes w ev"
  using assms by (auto simp: one_event_def gated_def Let_def split: if_splits sum.splits)

lemma event_loop_passes:
  assumes "txnGate w = None"
  shows "list_all (passes w) (events_of (fst (event_loop w txn zero n emitted es)))"
proof (induction es arbitrary: n emitted)
  case (Cons i es)
  obtain r n1 where r: "one_event w txn zero n i = (r, n1)" by (cases "one_event w txn zero n i")
  show ?case
  proof (cases r)
    case (Inr x)
    then show ?thesis using Cons one_event_passes[OF assms, of txn zero n i _ n1] r by (cases x) auto
  qed (use r in simp)
qed simp

lemma events_of_append [simp]: "events_of (xs @ ys) = events_of xs @ events_of ys"
  by (induction xs rule: events_of.induct) simp_all

lemma events_of_events [simp]: "events_of (map AnEvent evs) = evs"
  by (induction evs) simp_all

lemma watch_loop_passes:
  assumes "txnGate w = None"
  shows "list_all (passes w) (events_of (watch_loop w txn zero n emitted rs))"
proof (induction rs arbitrary: n emitted)
  case (Cons r rs)
  show ?case
  proof (cases r)
    case (Inr es)
    obtain out stop n1 emitted1 where e: "event_loop w txn zero n emitted es = (out, stop, n1, emitted1)"
      by (cases "event_loop w txn zero n emitted es") auto
    show ?thesis using event_loop_passes[OF assms, of txn zero n emitted es] Cons e Inr by auto
  qed simp
qed simp

lemma acker_config_simps:
  "txnGate (acker_config b U) = None" "mode (acker_config b U) = OnceMode" "isPrefix (acker_config b U)"
  "eventTypes (acker_config b U) = PutWatchEventType" "wfilter (acker_config b U) = b_filter b"
  by (auto simp: acker_config_def WithWatchEventType_def WithWatchMode_def WithPrefix_def NewBuilder_def WithFilter_def Let_def
      split: option.split)

text \<open>C38. Whatever the store holds and the watch brings, the listener hears of no request twice and only of such as pass the
  filter; what is written are acknowledgments of those requests, in their order, and all of them as long as the context lives and
  nothing fails, when also every request that the watch brings is heard.\<close>

theorem acker_exact:
  assumes "distinct (map kv_key kvs)"
    and "acker_Start b U marshal zero watch_from (Inr (kvs, revision)) env = Inr (heard, written, r)"
  shows "distinct (map Key heard) \<and> list_all (passes (acker_config b U)) heard
    \<and> subseq written (concat (map (acks_of b marshal) heard))
    \<and> ((\<forall>n. fst (env n)) \<and> r = None \<longrightarrow> written = concat (map (acks_of b marshal) heard)
         \<and> heard = events_of (Watch (acker_config b U) no_txns zero watch_from (Inr (kvs, revision))))"
proof -
  let ?w = "acker_config b U"
  note cfg = acker_config_simps[of b U]
  have "Build ?w = Some ?w" using cfg by (simp add: Build_def)
  then obtain evs ms where lw: "LoadAndWatch ?w no_txns zero watch_from (Inr (kvs, revision)) = (Inr evs, ms)"
    and l: "acker_loop b marshal env 0 (map AnEvent evs @ ms) = (heard, written, r)"
    using assms(2) by (auto simp: acker_Start_def split: prod.splits sum.splits)
  obtain n where load: "load_loop ?w no_txns 0 kvs = (Inr evs, n)"
    and ms: "ms = watch_loop ?w no_txns zero n (set (map Key evs)) (watch_from (revision + 1))"
    using lw cfg
    by (cases "load_loop ?w no_txns 0 kvs"; cases "fst (load_loop ?w no_txns 0 kvs)")
      (auto simp: LoadAndWatch_def loadInitialData_def watch_def)
  have "distinct (map Key evs)"
    using load_loop_keys[OF _ load] assms(1) by (simp add: txn_ok_def no_txns_def)
  moreover have "distinct (sent_keys ms) \<and> set (sent_keys ms) \<inter> set (map Key evs) = {}"
    unfolding ms using watch_loop_once[OF cfg(2)] .
  ultimately have d: "distinct (map Key (events_of (map AnEvent evs @ ms)))"
    by (auto simp: sent_keys_events)
  have p: "list_all (passes ?w) (events_of (map AnEvent evs @ ms))"
    using load_loop_passes[OF cfg(1) load] watch_loop_passes[OF cfg(1)] by (simp add: ms)
  obtain more where m: "events_of (map AnEvent evs @ ms) = heard @ more" and sub: "subseq written (concat (map (acks_of b marshal) heard))"
    using acker_loop_some[OF l] by blast
  have "Watch ?w no_txns zero watch_from (Inr (kvs, revision)) = map AnEvent evs @ ms"
    by (simp add: Watch_LoadAndWatch lw)
  moreover have "heard = events_of (map AnEvent evs @ ms) \<and> written = concat (map (acks_of b marshal) heard)"
    if "\<And>n. fst (env n)" "r = None"
    using acker_loop_live[of env b marshal 0 "map AnEvent evs @ ms" heard written] l that by blast
  ultimately show ?thesis using d p sub unfolding m by (simp add: m[simplified])
qed

definition demo_acker :: "(gostr, gostr) builder" where
  "demo_acker = NewJobAcker id (\<lambda>s _. s) (lit ''completed'') (lit ''ns'')"

definition demo_kvs :: "kv list" where
  "demo_kvs = [demo_kv ''a'' ''new'' 1, demo_kv ''b'' ''completed'' 1]"

text \<open>A new job is completed, a completed one is not touched until it is changed again.\<close>

theorem acker_exact_witness:
  "\<exists>heard. acker_Start demo_acker Inr Inr [] demo_watch (Inr (demo_kvs, 4)) (\<lambda>_. (True, None)) =
      Inr (heard, [(lit ''a'', lit ''completed''), (lit ''b'', lit ''completed'')], None) \<and> distinct (map Key heard)"
proof -
  have kvs: "distinct (map kv_key demo_kvs)" by (simp add: demo_kvs_def demo_kv_def lit_def)
  have s: "acker_Start demo_acker Inr Inr [] demo_watch (Inr (demo_kvs, 4)) (\<lambda>_. (True, None)) =
      Inr ([put_event (demo_kv ''a'' ''new'' 1) (lit ''new''), put_event (demo_kv ''b'' ''y'' 7) (lit ''y'')],
           [(lit ''a'', lit ''completed''), (lit ''b'', lit ''completed'')], None)"
    by (simp add: acker_Start_def Build_def acker_config_def WithWatchEventType_def WithWatchMode_def WithPrefix_def NewBuilder_def
        WithFilter_def demo_acker_def NewJobAcker_def newBuilder_def LoadAndWatch_def loadInitialData_def demo_kvs_def demo_kv_def
        lit_def passes_def gated_def put_event_def watch_def demo_watch_def one_event_def event_type_def shouldProcess_def Let_def)
  show ?thesis using acker_exact[OF kvs s] s by blast
qed


subsection \<open>The command\<close>

datatype acker_kind = Migration | Gateway | Srcrouter | Job

definition ackersByMode :: "gostr \<Rightarrow> acker_kind list option" where
  "ackersByMode = [lit ''all'' \<mapsto> [Migration, Gateway, Srcrouter, Job], lit ''migration'' \<mapsto> [Migration], lit ''gateway'' \<mapsto> [Gateway],
     lit ''srcrouter'' \<mapsto> [Srcrouter], lit ''job'' \<mapsto> [Job]]"

definition splitCSV :: "gostr \<Rightarrow> gostr list" where
  "splitCSV s = filter (\<lambda>part. part \<noteq> []) (map TrimSpace (split_on 44 s))"

record run_config =
  etcdEndpoints :: "gostr list"
  namespace :: gostr
  gatewayNodePattern :: gostr
  srcrouterNodes :: "gostr list"
  cfg_minDelay :: int
  cfg_maxDelay :: int
  dialTimeout :: int

text \<open>The flags are given by their names.\<close>

definition readRunConfig :: "(gostr \<Rightarrow> gostr) \<Rightarrow> (gostr \<Rightarrow> int) \<Rightarrow> run_config" where
  "readRunConfig flag duration =
     \<lparr>etcdEndpoints = splitCSV (flag (lit ''etcd-endpoints'')), namespace = TrimSpace (flag (lit ''namespace'')),
      gatewayNodePattern = TrimSpace (flag (lit ''gateway-node-pattern'')), srcrouterNodes = splitCSV (flag (lit ''srcrouter-nodes'')),
      cfg_minDelay = duration (lit ''min-delay''), cfg_maxDelay = duration (lit ''max-delay''), dialTimeout = duration (lit ''dial-timeout'')\<rparr>"

datatype 'e run_error = Connecting 'e | UnsupportedMode gostr | Starting acker_kind 'e | AckerError 'e

fun start_all :: "(acker_kind \<Rightarrow> 'e option) \<Rightarrow> acker_kind list \<Rightarrow> 'e run_error option" where
  "start_all start [] = None"
| "start_all start (k # ks) = (case start k of Some e \<Rightarrow> Some (Starting k e) | None \<Rightarrow> start_all start ks)"

text \<open>The results of connecting, of each start and of the group are given.\<close>

definition runAckerMode :: "'e option \<Rightarrow> (acker_kind \<Rightarrow> 'e option) \<Rightarrow> 'e option \<Rightarrow> gostr \<Rightarrow> 'e run_error option" where
  "runAckerMode connected start waited md =
     (case connected of
        Some e \<Rightarrow> Some (Connecting e)
      | None \<Rightarrow>
          (case ackersByMode md of
             None \<Rightarrow> Some (UnsupportedMode md)
           | Some ks \<Rightarrow>
               (case start_all start ks of Some e \<Rightarrow> Some e | None \<Rightarrow> map_option AckerError waited)))"

lemma runAckerMode_ok:
  "runAckerMode connected start waited md = None \<longleftrightarrow>
     connected = None \<and> waited = None \<and> (\<exists>ks. ackersByMode md = Some ks \<and> list_all (\<lambda>k. start k = None) ks)"
proof -
  have s: "start_all start ks = None \<longleftrightarrow> list_all (\<lambda>k. start k = None) ks" for ks
    by (induction ks) (auto split: option.split)
  show ?thesis by (auto simp: runAckerMode_def s[symmetric] split: option.split)
qed

text \<open>A list of blanks gives no endpoint at all.\<close>

lemma splitCSV_parts: "list_all (\<lambda>p. p \<noteq> []) (splitCSV s)"
  by (auto simp: splitCSV_def list_all_iff)

end
