(* ===== verification/Json_Switch.thy ===== *)
theory Json_Switch
  imports Json_Kit Config
begin

text \<open>
  The interfaces of \<open>jsonparser\<close> and what stands behind them: the two implementations of \<open>Json_Kit\<close>, and the parser of the
  package, which picks one of them for each group of operations by the configuration. Two locales state what the interfaces
  document: the errors of the checks, and that a soft getter agrees with its getter.
\<close>

subsection \<open>The interface\<close>

record ('x, 'v) json_parser =
  jp_GetValue :: "gostr \<Rightarrow> gostr list \<Rightarrow> 'x json_error + gostr"
  jp_GetBoolean :: "gostr \<Rightarrow> gostr list \<Rightarrow> 'x json_error + bool"
  jp_GetInt :: "gostr \<Rightarrow> gostr list \<Rightarrow> 'x json_error + 64 word"
  jp_GetFloat :: "gostr \<Rightarrow> gostr list \<Rightarrow> 'x json_error + u64"
  jp_GetString :: "gostr \<Rightarrow> gostr list \<Rightarrow> 'x json_error + gostr"
  jp_SetValue :: "gostr \<Rightarrow> 'v jvalue \<Rightarrow> gostr list \<Rightarrow> 'x json_error + gostr"
  jp_SetBoolean :: "gostr \<Rightarrow> bool \<Rightarrow> gostr list \<Rightarrow> 'x json_error + gostr"
  jp_SetInt :: "gostr \<Rightarrow> 64 word \<Rightarrow> gostr list \<Rightarrow> 'x json_error + gostr"
  jp_SetFloat :: "gostr \<Rightarrow> u64 \<Rightarrow> gostr list \<Rightarrow> 'x json_error + gostr"
  jp_SetString :: "gostr \<Rightarrow> gostr \<Rightarrow> gostr list \<Rightarrow> 'x json_error + gostr"
  jp_DeleteKey :: "gostr \<Rightarrow> gostr list \<Rightarrow> 'x json_error + gostr"
  jp_GetValueOrEmpty :: "gostr \<Rightarrow> gostr list \<Rightarrow> gostr"
  jp_GetBooleanOrFalse :: "gostr \<Rightarrow> gostr list \<Rightarrow> bool"
  jp_GetIntOrZero :: "gostr \<Rightarrow> gostr list \<Rightarrow> 64 word"
  jp_GetFloatOrZero :: "gostr \<Rightarrow> gostr list \<Rightarrow> u64"
  jp_GetStringOrEmpty :: "gostr \<Rightarrow> gostr list \<Rightarrow> gostr"

subsection \<open>The implementations\<close>

text \<open>The typed setters of tidwall call its \<open>SetValue\<close>.\<close>

definition tid_SetBoolean :: "(gostr \<Rightarrow> gostr \<Rightarrow> 'v jvalue \<Rightarrow> 'x + gostr) \<Rightarrow> gostr \<Rightarrow> bool \<Rightarrow> gostr list \<Rightarrow> 'x json_error + gostr" where
  "tid_SetBoolean sjson data b = tid_SetValue sjson data (JBool b)"

definition tid_SetInt :: "(gostr \<Rightarrow> gostr \<Rightarrow> 'v jvalue \<Rightarrow> 'x + gostr) \<Rightarrow> gostr \<Rightarrow> 64 word \<Rightarrow> gostr list \<Rightarrow> 'x json_error + gostr" where
  "tid_SetInt sjson data i = tid_SetValue sjson data (JInt i)"

definition tid_SetFloat :: "(gostr \<Rightarrow> gostr \<Rightarrow> 'v jvalue \<Rightarrow> 'x + gostr) \<Rightarrow> gostr \<Rightarrow> u64 \<Rightarrow> gostr list \<Rightarrow> 'x json_error + gostr" where
  "tid_SetFloat sjson data x = tid_SetValue sjson data (JFloat x)"

definition tid_SetString :: "(gostr \<Rightarrow> gostr \<Rightarrow> 'v jvalue \<Rightarrow> 'x + gostr) \<Rightarrow> gostr \<Rightarrow> gostr \<Rightarrow> gostr list \<Rightarrow> 'x json_error + gostr" where
  "tid_SetString sjson data s = tid_SetValue sjson data (JString s)"

record ('x, 'v) tid_lib =
  gjson :: "gostr \<Rightarrow> gostr \<Rightarrow> gresult"
  sjson_Set :: "gostr \<Rightarrow> gostr \<Rightarrow> 'v jvalue \<Rightarrow> 'x + gostr"
  sjson_Delete :: "gostr \<Rightarrow> gostr \<Rightarrow> 'x + gostr"

definition tidwallJSONParser :: "('x, 'v) tid_lib \<Rightarrow> ('x, 'v) json_parser" where
  "tidwallJSONParser T =
     \<lparr>jp_GetValue = tid_GetValue (gjson T), jp_GetBoolean = tid_GetBoolean (gjson T), jp_GetInt = tid_GetInt (gjson T),
      jp_GetFloat = tid_GetFloat (gjson T), jp_GetString = tid_GetString (gjson T), jp_SetValue = tid_SetValue (sjson_Set T),
      jp_SetBoolean = tid_SetBoolean (sjson_Set T), jp_SetInt = tid_SetInt (sjson_Set T), jp_SetFloat = tid_SetFloat (sjson_Set T),
      jp_SetString = tid_SetString (sjson_Set T), jp_DeleteKey = tid_DeleteKey (sjson_Delete T),
      jp_GetValueOrEmpty = tid_GetValueOrEmpty (gjson T), jp_GetBooleanOrFalse = tid_GetBooleanOrFalse (gjson T),
      jp_GetIntOrZero = tid_GetIntOrZero (gjson T), jp_GetFloatOrZero = tid_GetFloatOrZero (gjson T),
      jp_GetStringOrEmpty = tid_GetStringOrEmpty (gjson T)\<rparr>"

text \<open>What grafana's setters use: printing and marshalling of values, the change and the deletion of the library.\<close>

record ('x, 'v) graf_lib =
  readers :: "'x glib"
  printable :: "rune \<Rightarrow> bool"
  FormatFloat :: "u64 \<Rightarrow> gostr"
  Marshal :: "'v \<Rightarrow> 'x + gostr"
  graf_Set :: "gostr \<Rightarrow> gostr \<Rightarrow> gostr list \<Rightarrow> 'x + gostr"
  graf_Delete :: "gostr \<Rightarrow> gostr list \<Rightarrow> gostr"

definition graf_set :: "('x, 'v) graf_lib \<Rightarrow> gostr \<Rightarrow> 'v jvalue \<Rightarrow> gostr list \<Rightarrow> 'x json_error + gostr" where
  "graf_set G = graf_SetValue (printable G) (FormatFloat G) (Marshal G) (graf_Set G)"

definition graf_SetBoolean :: "('x, 'v) graf_lib \<Rightarrow> gostr \<Rightarrow> bool \<Rightarrow> gostr list \<Rightarrow> 'x json_error + gostr" where
  "graf_SetBoolean G data b = graf_set G data (JBool b)"

definition graf_SetInt :: "('x, 'v) graf_lib \<Rightarrow> gostr \<Rightarrow> 64 word \<Rightarrow> gostr list \<Rightarrow> 'x json_error + gostr" where
  "graf_SetInt G data i = graf_set G data (JInt i)"

definition graf_SetFloat :: "('x, 'v) graf_lib \<Rightarrow> gostr \<Rightarrow> u64 \<Rightarrow> gostr list \<Rightarrow> 'x json_error + gostr" where
  "graf_SetFloat G data x = graf_set G data (JFloat x)"

definition graf_SetString :: "('x, 'v) graf_lib \<Rightarrow> gostr \<Rightarrow> gostr \<Rightarrow> gostr list \<Rightarrow> 'x json_error + gostr" where
  "graf_SetString G data s = graf_set G data (JString s)"

definition grafanaJSONParser :: "('x, 'v) graf_lib \<Rightarrow> ('x, 'v) json_parser" where
  "grafanaJSONParser G =
     \<lparr>jp_GetValue = graf_GetValue (readers G), jp_GetBoolean = graf_GetBoolean (readers G), jp_GetInt = graf_GetInt (readers G),
      jp_GetFloat = graf_GetFloat (readers G), jp_GetString = graf_GetString (readers G), jp_SetValue = graf_set G,
      jp_SetBoolean = graf_SetBoolean G, jp_SetInt = graf_SetInt G, jp_SetFloat = graf_SetFloat G,
      jp_SetString = graf_SetString G, jp_DeleteKey = graf_DeleteKey (graf_Delete G),
      jp_GetValueOrEmpty = graf_GetValueOrEmpty (readers G), jp_GetBooleanOrFalse = graf_GetBooleanOrFalse (readers G),
      jp_GetIntOrZero = graf_GetIntOrZero (readers G), jp_GetFloatOrZero = graf_GetFloatOrZero (readers G),
      jp_GetStringOrEmpty = graf_GetStringOrEmpty (readers G)\<rparr>"


subsection \<open>What the interfaces document\<close>

text \<open>Deletion keeps to what is said of the first segment; the setters check all of them and take an empty document as \<open>{}\<close>.\<close>

locale json_errors =
  fixes P :: "('x, 'v) json_parser"
  assumes getters_check:
    "checks data path = Some e \<Longrightarrow> jp_GetValue P data path = Inl e \<and> jp_GetBoolean P data path = Inl e \<and> jp_GetInt P data path = Inl e
       \<and> jp_GetFloat P data path = Inl e \<and> jp_GetString P data path = Inl e \<and> jp_DeleteKey P data path = Inl e"
    and set_no_keys: "jp_SetValue P data vl [] = Inl ErrNoKeysProvided"
    and set_empty_key: "[] \<in> set path \<Longrightarrow> jp_SetValue P data vl path = Inl ErrEmptyKey"
    and set_new: "jp_SetValue P [] vl path = jp_SetValue P (lit ''{}'') vl path"
    and set_typed: "jp_SetBoolean P data b path = jp_SetValue P data (JBool b) path" "jp_SetInt P data i path = jp_SetValue P data (JInt i) path"
      "jp_SetFloat P data x path = jp_SetValue P data (JFloat x) path" "jp_SetString P data s path = jp_SetValue P data (JString s) path"
    and soft_zero: "checks data path = Some e \<Longrightarrow> jp_GetValueOrEmpty P data path = [] \<and> \<not> jp_GetBooleanOrFalse P data path
       \<and> jp_GetIntOrZero P data path = 0 \<and> jp_GetFloatOrZero P data path = 0 \<and> jp_GetStringOrEmpty P data path = []"
begin

lemma getter_ok_args: "jp_GetValue P data path = Inr x \<Longrightarrow> data \<noteq> [] \<and> path \<noteq> [] \<and> hd path \<noteq> []"
proof -
  assume ok: "jp_GetValue P data path = Inr x"
  have "checks data path = (None :: 'x json_error option)"
    using getters_check[of data path] ok by (cases "checks data path :: 'x json_error option") auto
  then show ?thesis by (simp add: checks_def split: if_splits)
qed

lemma setter_ok_args: "jp_SetString P data s path = Inr x \<Longrightarrow> path \<noteq> [] \<and> [] \<notin> set path"
  using set_no_keys set_empty_key by (auto simp: set_typed)

lemma empty_document: "jp_GetString P [] path = Inl ErrEmptyJSON" "jp_DeleteKey P [] path = Inl ErrEmptyJSON"
  using getters_check[of "[]" path] by (simp_all add: checks_def)

end

text \<open>A soft getter gives what its getter gives.\<close>

locale json_soft = json_errors +
  assumes soft_value: "jp_GetValue P data path = Inr s \<Longrightarrow> jp_GetValueOrEmpty P data path = s"
    and soft_int: "jp_GetInt P data path = Inr i \<Longrightarrow> jp_GetIntOrZero P data path = i"
    and soft_float: "jp_GetFloat P data path = Inr x \<Longrightarrow> jp_GetFloatOrZero P data path = x"
    and soft_string: "jp_GetString P data path = Inr s \<Longrightarrow> jp_GetStringOrEmpty P data path = s"
begin

lemma soft_empty_error: "jp_GetStringOrEmpty P data path = [] \<Longrightarrow> s \<noteq> [] \<Longrightarrow> jp_GetString P data path \<noteq> Inr s"
  using soft_string by auto

end

lemmas tid_ops = tid_GetValue_def tid_GetBoolean_def tid_GetInt_def tid_GetFloat_def tid_GetString_def tid_GetValueOrEmpty_def
  tid_GetBooleanOrFalse_def tid_GetIntOrZero_def tid_GetFloatOrZero_def tid_GetStringOrEmpty_def

lemmas graf_ops = graf_GetValue_def graf_GetBoolean_def graf_GetInt_def graf_GetFloat_def graf_GetString_def graf_GetValueOrEmpty_def
  graf_GetBooleanOrFalse_def graf_GetIntOrZero_def graf_GetFloatOrZero_def graf_GetStringOrEmpty_def

lemma soft_checks: "checks data path = Some e \<Longrightarrow> tid_soft gj z f data path = z" "checks data path = Some e \<Longrightarrow> graf_soft G z h data path = z"
  by (auto simp: checks_def tid_soft_def graf_soft_def split: if_splits)

lemma tid_soft_of: "tid_get gj f data path = Inr x \<Longrightarrow> (\<And>r. RExists r \<Longrightarrow> f r = Inr x \<Longrightarrow> g r = x) \<Longrightarrow> tid_soft gj z g data path = x"
  by (auto simp: tid_get_def tid_soft_def checks_def Let_def split: if_splits)

lemma graf_soft_of: "graf_get G f data path = Inr x \<Longrightarrow> (\<And>y t. f y t = Inr x \<Longrightarrow> g y t = x) \<Longrightarrow> graf_soft G z g data path = x"
  by (auto simp: graf_get_def graf_soft_def checks_def split: if_splits sum.splits lib_error.splits)

interpretation tidwall: json_soft "tidwallJSONParser T" for T :: "('x, 'v) tid_lib"
proof
  fix data path and e :: "'x json_error"
  assume c: "checks data path = Some e"
  show "jp_GetValue (tidwallJSONParser T) data path = Inl e \<and> jp_GetBoolean (tidwallJSONParser T) data path = Inl e \<and>
      jp_GetInt (tidwallJSONParser T) data path = Inl e \<and> jp_GetFloat (tidwallJSONParser T) data path = Inl e \<and>
      jp_GetString (tidwallJSONParser T) data path = Inl e \<and> jp_DeleteKey (tidwallJSONParser T) data path = Inl e"
    by (simp add: tidwallJSONParser_def tid_ops tid_get_def tid_DeleteKey_def c)
next
  fix data path and e :: "'a json_error"
  assume c: "checks data path = Some e"
  show "jp_GetValueOrEmpty (tidwallJSONParser T) data path = [] \<and> \<not> jp_GetBooleanOrFalse (tidwallJSONParser T) data path \<and>
      jp_GetIntOrZero (tidwallJSONParser T) data path = 0 \<and> jp_GetFloatOrZero (tidwallJSONParser T) data path = 0 \<and>
      jp_GetStringOrEmpty (tidwallJSONParser T) data path = []"
    by (simp add: tidwallJSONParser_def tid_ops soft_checks(1)[OF c])
qed (auto simp: tidwallJSONParser_def tid_SetValue_def tid_SetBoolean_def tid_SetInt_def tid_SetFloat_def tid_SetString_def
    Let_def lit_def tid_ops intro!: tid_soft_of split: if_splits)

interpretation grafana: json_soft "grafanaJSONParser G" for G :: "('x, 'v) graf_lib"
proof
  fix data path and e :: "'x json_error"
  assume c: "checks data path = Some e"
  show "jp_GetValue (grafanaJSONParser G) data path = Inl e \<and> jp_GetBoolean (grafanaJSONParser G) data path = Inl e \<and>
      jp_GetInt (grafanaJSONParser G) data path = Inl e \<and> jp_GetFloat (grafanaJSONParser G) data path = Inl e \<and>
      jp_GetString (grafanaJSONParser G) data path = Inl e \<and> jp_DeleteKey (grafanaJSONParser G) data path = Inl e"
    by (simp add: grafanaJSONParser_def graf_ops graf_get_def graf_DeleteKey_def c)
next
  fix data path and e :: "'a json_error"
  assume c: "checks data path = Some e"
  show "jp_GetValueOrEmpty (grafanaJSONParser G) data path = [] \<and> \<not> jp_GetBooleanOrFalse (grafanaJSONParser G) data path \<and>
      jp_GetIntOrZero (grafanaJSONParser G) data path = 0 \<and> jp_GetFloatOrZero (grafanaJSONParser G) data path = 0 \<and>
      jp_GetStringOrEmpty (grafanaJSONParser G) data path = []"
    by (simp add: grafanaJSONParser_def graf_ops soft_checks(2)[OF c])
qed (auto simp: grafanaJSONParser_def graf_set_def graf_SetValue_def graf_SetBoolean_def graf_SetInt_def graf_SetFloat_def
    graf_SetString_def Let_def lit_def graf_ops parseInt_def parseFloat_def parseString_def result_of_def
    intro!: graf_soft_of split: if_splits option.splits)


subsection \<open>The parser that follows the configuration\<close>

record json_switcher =
  getterFn :: "nat option"
  setterFn :: "nat option"
  deleterFn :: "nat option"
  softGetterFn :: "nat option"

definition json_NewWithConfig :: "golib \<Rightarrow> config \<Rightarrow> json_switcher \<times> config" where
  "json_NewWithConfig L c0 =
     (let (g, c1) = GetReloadableStringVar L (lit ''grafana'') [lit ''JSONParser.Library.Getter'', lit ''JSONParser.Library''] c0;
          (s, c2) = GetReloadableStringVar L (lit ''grafana'') [lit ''JSONParser.Library.Setter'', lit ''JSONParser.Library''] c1;
          (d, c3) = GetReloadableStringVar L (lit ''grafana'') [lit ''JSONParser.Library.Deleter'', lit ''JSONParser.Library''] c2;
          (f, c4) = GetReloadableStringVar L (lit ''grafana'') [lit ''JSONParser.Library.SoftGetter'', lit ''JSONParser.Library''] c3
      in (\<lparr>getterFn = g, setterFn = s, deleterFn = d, softGetterFn = f\<rparr>, c4))"

fun json_impl :: "('x, 'v) tid_lib \<Rightarrow> ('x, 'v) graf_lib \<Rightarrow> library \<Rightarrow> ('x, 'v) json_parser" where
  "json_impl T G Tidwall = tidwallJSONParser T"
| "json_impl T G Grafana = grafanaJSONParser G"

text \<open>Each group of operations goes to the implementation whose name its loader reads at the call.\<close>

definition json_by_names :: "('x, 'v) tid_lib \<Rightarrow> ('x, 'v) graf_lib \<Rightarrow> gostr \<Rightarrow> gostr \<Rightarrow> gostr \<Rightarrow> gostr \<Rightarrow> ('x, 'v) json_parser" where
  "json_by_names T G getter setter deleter softGetter =
     (let g = json_impl T G (switch getter); s = json_impl T G (switch setter); d = json_impl T G (switch deleter);
          f = json_impl T G (switch softGetter) in
      \<lparr>jp_GetValue = jp_GetValue g, jp_GetBoolean = jp_GetBoolean g, jp_GetInt = jp_GetInt g, jp_GetFloat = jp_GetFloat g,
       jp_GetString = jp_GetString g, jp_SetValue = jp_SetValue s, jp_SetBoolean = jp_SetBoolean s, jp_SetInt = jp_SetInt s,
       jp_SetFloat = jp_SetFloat s, jp_SetString = jp_SetString s, jp_DeleteKey = jp_DeleteKey d,
       jp_GetValueOrEmpty = jp_GetValueOrEmpty f, jp_GetBooleanOrFalse = jp_GetBooleanOrFalse f, jp_GetIntOrZero = jp_GetIntOrZero f,
       jp_GetFloatOrZero = jp_GetFloatOrZero f, jp_GetStringOrEmpty = jp_GetStringOrEmpty f\<rparr>)"

definition json_current :: "('x, 'v) tid_lib \<Rightarrow> ('x, 'v) graf_lib \<Rightarrow> json_switcher \<Rightarrow> config \<Rightarrow> ('x, 'v) json_parser" where
  "json_current T G s c =
     json_by_names T G (load_string (getterFn s) c) (load_string (setterFn s) c) (load_string (deleterFn s) c)
       (load_string (softGetterFn s) c)"

lemma json_impl_soft: "json_soft (json_impl T G l)"
  by (cases l) (simp_all add: tidwall.json_soft_axioms grafana.json_soft_axioms)

lemma json_impl_errors: "json_errors (json_impl T G l)"
  using json_impl_soft[of T G l] by (simp add: json_soft_def)

text \<open>The parser documents the same errors under every configuration.\<close>

interpretation switched: json_errors "json_by_names T G g s d f" for T :: "('x, 'v) tid_lib" and G g s d f
proof -
  note e = json_impl_errors[of T G "switch g"] json_impl_errors[of T G "switch s"] json_impl_errors[of T G "switch d"]
    json_impl_errors[of T G "switch f"]
  show "json_errors (json_by_names T G g s d f)"
    using e by (simp add: json_errors_def json_by_names_def Let_def)
qed

lemmas switched_getter_ok_args = switched.getter_ok_args

text \<open>A soft getter agrees with its getter where both go to the same implementation.\<close>

lemma switched_soft: "switch g = switch f \<Longrightarrow> json_soft (json_by_names T G g s d f)"
proof -
  assume "switch g = switch f"
  moreover have "json_soft_axioms (json_impl T G (switch f))" using json_impl_soft[of T G "switch f"] by (simp add: json_soft_def)
  ultimately show ?thesis
    by (simp add: json_soft_def switched.json_errors_axioms) (simp add: json_soft_axioms_def json_by_names_def Let_def)
qed

text \<open>Whatever the settings read at the calls, what the current parser accepts is well formed: a setter that succeeds was
  given no empty segment, a getter a document and a first segment.\<close>

lemma json_current_args:
  "jp_SetString (json_current T G s c) data str path = Inr r \<Longrightarrow> path \<noteq> [] \<and> [] \<notin> set path"
  "jp_GetValue (json_current T G s c) data path = Inr r \<Longrightarrow> data \<noteq> [] \<and> path \<noteq> [] \<and> hd path \<noteq> []"
  unfolding json_current_def by (rule switched.setter_ok_args, assumption) (rule switched.getter_ok_args)

end
