(* ===== verification/Storage_Ops.thy ===== *)
theory Storage_Ops
  imports Filestore
begin

text \<open>
  The operations of the file managers on their services (\<open>filemanager\<close>), with the clients they make and keep (and
  \<open>awsutil\<close>). A service is a parameter with a state: what it answers to a put or a get. A file or stream that is uploaded is
  its bytes, a file that is written to by a download likewise.
\<close>

subsection \<open>Services\<close>

datatype svc_error = NoSuchKey | MissingRegion | PreconditionFailed | AlreadyExists | OtherSvc gostr

datatype fm_error = ErrKeyNotFound | ErrPreConditionFailed | NoBucket | NoObjectName | ClientFailed gostr | MissingRegionFor gostr | FmService svc_error

record UploadedFile =
  Location :: gostr
  ObjectName :: gostr

text \<open>The range of a get is in the form each service takes it: \<open>'g\<close>. The argument of type \<open>bool\<close> of a put is the encryption
  for S3, the condition that the object is new for GCS.\<close>

record ('g, 's) service =
  svc_put :: "gostr \<Rightarrow> gostr \<Rightarrow> bool \<Rightarrow> byte list \<Rightarrow> 's \<Rightarrow> (svc_error + gostr) \<times> 's"
  svc_get :: "gostr \<Rightarrow> gostr \<Rightarrow> 'g option \<Rightarrow> 's \<Rightarrow> svc_error + byte list list"

text \<open>The result of a get is a stream of pieces, which are written one after the other.\<close>

definition write_pieces :: "byte list list \<Rightarrow> byte list \<Rightarrow> byte list" where
  "write_pieces ps f = fst (fold adapter_Write ps (f, 0))"

subsection \<open>The client of S3 and DigitalOcean\<close>

record 'c s3_manager =
  s3_Bucket :: gostr
  s3_Prefix :: gostr
  s3_Region :: "gostr option"
  s3_Endpoint :: gostr
  S3ForcePathStyle :: "bool option"
  DisableSSL :: "bool option"
  EnableSSE :: bool
  RegionHint :: gostr
  session_Region :: gostr
  s3_timeout :: "64 word"
  s3_client :: "'c option"

text \<open>What a client is made from: the region, the endpoint, the style of paths, whether there is no HTTPS, and a timeout of its
  own.\<close>

record s3_options =
  o_Region :: gostr
  BaseEndpoint :: "gostr option"
  UsePathStyle :: bool
  DisableHTTPS :: bool
  o_Timeout :: "64 word option"

definition ToBool :: "bool option \<Rightarrow> bool" where
  "ToBool p = (case p of Some b \<Rightarrow> b | None \<Rightarrow> False)"

definition s3_options_of :: "'c s3_manager \<Rightarrow> s3_options" where
  "s3_options_of m =
     \<lparr>o_Region = session_Region m, BaseEndpoint = (if s3_Endpoint m \<noteq> [] then Some (s3_Endpoint m) else None),
      UsePathStyle = ToBool (S3ForcePathStyle m), DisableHTTPS = ToBool (DisableSSL m),
      o_Timeout = (if s3_timeout m \<noteq> 0 then Some (s3_timeout m) else None)\<rparr>"

definition no_region :: "'c s3_manager \<Rightarrow> bool" where
  "no_region m \<longleftrightarrow> (case s3_Region m of None \<Rightarrow> True | Some r \<Rightarrow> r = [])"

text \<open>\<open>NewS3Manager\<close> after decoding, and \<open>NewDigitalOceanManager\<close>.\<close>

definition NewS3Manager :: "golib \<Rightarrow> config \<Rightarrow> 'c s3_manager \<Rightarrow> 'c s3_manager \<times> config" where
  "NewS3Manager L c d =
     (case GetStringVar L (lit ''us-east-1'') [lit ''AWS_S3_REGION_HINT''] c of
        (hint, c1) \<Rightarrow>
          (case s3_clean (s3_Prefix d) (s3_Bucket d) of (p, b) \<Rightarrow>
             (d\<lparr>RegionHint := hint, s3_Prefix := p, s3_Bucket := b, s3_client := None\<rparr>, c1)))"

definition NewDigitalOceanManager :: "'c s3_manager \<Rightarrow> 'c s3_manager" where
  "NewDigitalOceanManager d =
     (if no_region d
      then d\<lparr>s3_Region := Some (getSpacesLocation (s3_Endpoint d)), session_Region := getSpacesLocation (s3_Endpoint d), s3_client := None\<rparr>
      else d\<lparr>s3_client := None\<rparr>)"

text \<open>\<open>GetRegionFromBucket\<close>: \<open>lookup\<close> asks the service, at the region of the hint.\<close>

definition GetRegionFromBucket :: "(gostr \<Rightarrow> gostr \<Rightarrow> gostr option) \<Rightarrow> gostr \<Rightarrow> gostr \<Rightarrow> gostr" where
  "GetRegionFromBucket lookup b hint = (case lookup hint b of Some r \<Rightarrow> r | None \<Rightarrow> [])"

definition s3_set_region :: "(gostr \<Rightarrow> gostr \<Rightarrow> gostr option) \<Rightarrow> 'c s3_manager \<Rightarrow> 'c s3_manager" where
  "s3_set_region lookup m =
     (if no_region m
      then (let r = GetRegionFromBucket lookup (s3_Bucket m) (RegionHint m) in m\<lparr>s3_Region := Some r, session_Region := r\<rparr>)
      else m)"

definition make_client :: "(s3_options \<Rightarrow> gostr + 'c) \<Rightarrow> 'c s3_manager \<Rightarrow> (fm_error + 'c) \<times> 'c s3_manager" where
  "make_client create m =
     (case create (s3_options_of m) of Inl e \<Rightarrow> (Inl (ClientFailed e), m) | Inr c \<Rightarrow> (Inr c, m\<lparr>s3_client := Some c\<rparr>))"

definition s3_getClient :: "(gostr \<Rightarrow> gostr \<Rightarrow> gostr option) \<Rightarrow> (s3_options \<Rightarrow> gostr + 'c) \<Rightarrow> 'c s3_manager \<Rightarrow>
  (fm_error + 'c) \<times> 'c s3_manager" where
  "s3_getClient lookup create m =
     (case s3_client m of
        Some c \<Rightarrow> (Inr c, m)
      | None \<Rightarrow> if s3_Bucket m = [] then (Inl NoBucket, m) else make_client create (s3_set_region lookup m))"

definition do_getClient :: "(s3_options \<Rightarrow> gostr + 'c) \<Rightarrow> 'c s3_manager \<Rightarrow> (fm_error + 'c) \<times> 'c s3_manager" where
  "do_getClient create m =
     (case s3_client m of
        Some c \<Rightarrow> (Inr c, m)
      | None \<Rightarrow> if s3_Bucket m = [] then (Inl NoBucket, m) else make_client create m)"

text \<open>A client is made once: the next call returns it whatever the service would say. After a failure to find the region the
  next call looks for it again.\<close>

lemma s3_client_kept:
  "s3_getClient lookup create m = (Inr c, m') \<Longrightarrow> s3_getClient lookup' create' m' = (Inr c, m')"
  by (auto simp: s3_getClient_def make_client_def split: option.splits if_splits sum.splits)

lemma s3_region_retried:
  assumes "s3_client m = None" "s3_Bucket m \<noteq> []" "no_region m" "lookup (RegionHint m) (s3_Bucket m) = None"
    and "s3_getClient lookup create m = (Inl e, m')" "lookup' (RegionHint m) (s3_Bucket m) = Some r"
  shows "s3_getClient lookup' create m' = make_client create (m'\<lparr>s3_Region := Some r, session_Region := r\<rparr>)"
  using assms by (auto simp: s3_getClient_def make_client_def s3_set_region_def GetRegionFromBucket_def no_region_def Let_def
      split: sum.splits if_splits)

subsection \<open>Uploads\<close>

text \<open>The client is the service, or why there is none.\<close>

type_synonym ('g, 's) client = "fm_error + ('g, 's) service"

definition uploaded :: "gostr \<Rightarrow> gostr \<Rightarrow> (svc_error + gostr) \<times> 's \<Rightarrow> (fm_error + UploadedFile) \<times> 's" where
  "uploaded b name r =
     (case r of
        (Inl MissingRegion, s) \<Rightarrow> (Inl (MissingRegionFor b), s)
      | (Inl e, s) \<Rightarrow> (Inl (FmService e), s)
      | (Inr loc, s) \<Rightarrow> (Inr \<lparr>Location = loc, ObjectName = name\<rparr>, s))"

definition s3_UploadReader :: "('g, 's) client \<Rightarrow> 'c s3_manager \<Rightarrow> gostr \<Rightarrow> byte list \<Rightarrow> 's \<Rightarrow> (fm_error + UploadedFile) \<times> 's" where
  "s3_UploadReader cl m objName content s =
     (case s3_upload_key objName of
        None \<Rightarrow> (Inl NoObjectName, s)
      | Some key \<Rightarrow>
          (case cl of
             Inl e \<Rightarrow> (Inl e, s)
           | Inr svc \<Rightarrow> uploaded (s3_Bucket m) key (svc_put svc (s3_Bucket m) key (EnableSSE m) content s)))"

definition s3_Upload :: "('g, 's) client \<Rightarrow> 'c s3_manager \<Rightarrow> gostr \<Rightarrow> gostr list \<Rightarrow> byte list \<Rightarrow> 's \<Rightarrow> (fm_error + UploadedFile) \<times> 's" where
  "s3_Upload cl m file prefixes content s = s3_UploadReader cl m (s3_upload_name (s3_Prefix m) prefixes file) content s"

definition do_UploadReader :: "('g, 's) client \<Rightarrow> 'c s3_manager \<Rightarrow> gostr \<Rightarrow> byte list \<Rightarrow> 's \<Rightarrow> (fm_error + UploadedFile) \<times> 's" where
  "do_UploadReader cl m fileName content s =
     (if s3_Bucket m = [] then (Inl NoBucket, s)
      else (case cl of
              Inl e \<Rightarrow> (Inl e, s)
            | Inr svc \<Rightarrow> uploaded (s3_Bucket m) fileName (svc_put svc (s3_Bucket m) fileName False content s)))"

definition do_Upload :: "('g, 's) client \<Rightarrow> 'c s3_manager \<Rightarrow> gostr \<Rightarrow> gostr list \<Rightarrow> byte list \<Rightarrow> 's \<Rightarrow> (fm_error + UploadedFile) \<times> 's" where
  "do_Upload cl m file prefixes content s = do_UploadReader cl m (upload_name (s3_Prefix m) prefixes file) content s"

definition gcs_UploadReader :: "('g, 's) client \<Rightarrow> GCSConfig \<Rightarrow> gostr \<Rightarrow> byte list \<Rightarrow> 's \<Rightarrow> (fm_error + UploadedFile) \<times> 's" where
  "gcs_UploadReader cl m objName content s =
     (case cl of
        Inl e \<Rightarrow> (Inl e, s)
      | Inr svc \<Rightarrow>
          (case svc_put svc (gcs_Bucket m) objName (gcs_UploadIfNotExist m) content s of
             (Inl PreconditionFailed, s') \<Rightarrow> (Inl ErrPreConditionFailed, s')
           | (Inl e, s') \<Rightarrow> (Inl (FmService e), s')
           | (Inr _, s') \<Rightarrow> (Inr \<lparr>Location = gcs_objectURL (gcs_EndPoint m) (gcs_Bucket m) objName, ObjectName = objName\<rparr>, s')))"

definition gcs_Upload :: "('g, 's) client \<Rightarrow> GCSConfig \<Rightarrow> gostr \<Rightarrow> gostr list \<Rightarrow> byte list \<Rightarrow> 's \<Rightarrow> (fm_error + UploadedFile) \<times> 's" where
  "gcs_Upload cl m file prefixes content s = gcs_UploadReader cl m (upload_name (gcs_Prefix m) prefixes file) content s"

text \<open>MinIO makes a bucket that is not there: \<open>exists\<close> and \<open>made\<close> are the answers of the service.\<close>

definition minio_UploadReader :: "('g, 's) client \<Rightarrow> svc_error + bool \<Rightarrow> svc_error option \<Rightarrow> MinioConfig \<Rightarrow> gostr \<Rightarrow> byte list \<Rightarrow> 's \<Rightarrow>
  (fm_error + UploadedFile) \<times> 's" where
  "minio_UploadReader cl exists made m objName content s =
     (if mn_Bucket m = [] then (Inl NoBucket, s)
      else (case cl of
              Inl e \<Rightarrow> (Inl e, s)
            | Inr svc \<Rightarrow>
                (case exists of
                   Inl e \<Rightarrow> (Inl (FmService e), s)
                 | Inr there \<Rightarrow>
                     (case (if there then None else made) of
                        Some e \<Rightarrow> (Inl (FmService e), s)
                      | None \<Rightarrow>
                          (case svc_put svc (mn_Bucket m) objName False content s of
                             (Inl e, s') \<Rightarrow> (Inl (FmService e), s')
                           | (Inr _, s') \<Rightarrow>
                               (Inr \<lparr>Location = minio_objectUrl (mn_UseSSL m) (mn_EndPoint m) (mn_Bucket m) objName,
                                     ObjectName = objName\<rparr>, s'))))))"

text \<open>Azure makes the container unless it works with a signature; that it exists is no error. \<open>location\<close> is the address of a
  blob without the signature.\<close>

definition suppressMinorErrors :: "svc_error option \<Rightarrow> svc_error option" where
  "suppressMinorErrors e = (if e = Some AlreadyExists then None else e)"

definition createContainer :: "AzureBlobConfig \<Rightarrow> bool" where
  "createContainer m \<longleftrightarrow> \<not> az_UseSASTokens m"

definition azure_UploadReader :: "('g, 's) client \<Rightarrow> svc_error option \<Rightarrow> (gostr \<Rightarrow> gostr) \<Rightarrow> AzureBlobConfig \<Rightarrow> gostr \<Rightarrow> byte list \<Rightarrow> 's \<Rightarrow>
  (fm_error + UploadedFile) \<times> 's" where
  "azure_UploadReader cl made location m objName content s =
     (case cl of
        Inl e \<Rightarrow> (Inl e, s)
      | Inr svc \<Rightarrow>
          (case (if createContainer m then suppressMinorErrors made else None) of
             Some e \<Rightarrow> (Inl (FmService e), s)
           | None \<Rightarrow>
               (case svc_put svc (az_Container m) objName False content s of
                  (Inl e, s') \<Rightarrow> (Inl (FmService e), s')
                | (Inr _, s') \<Rightarrow> (Inr \<lparr>Location = location objName, ObjectName = objName\<rparr>, s'))))"

subsection \<open>Downloads\<close>

text \<open>The first two tell a key that is not there from other errors.\<close>

definition fetched :: "byte list \<Rightarrow> svc_error + byte list list \<Rightarrow> fm_error + byte list" where
  "fetched f r = (case r of Inl e \<Rightarrow> Inl (FmService e) | Inr ps \<Rightarrow> Inr (write_pieces ps f))"

definition do_Download :: "(gostr, 's) client \<Rightarrow> 'c s3_manager \<Rightarrow> gostr \<Rightarrow> downloadOptions \<Rightarrow> byte list \<Rightarrow> 's \<Rightarrow> fm_error + byte list" where
  "do_Download cl m key d f s =
     (case cl of
        Inl e \<Rightarrow> Inl e
      | Inr svc \<Rightarrow>
          (case svc_get svc (s3_Bucket m) key (s3_range d) s of Inl NoSuchKey \<Rightarrow> Inl ErrKeyNotFound | r \<Rightarrow> fetched f r))"

definition s3_Download :: "(gostr, 's) client \<Rightarrow> 'c s3_manager \<Rightarrow> gostr \<Rightarrow> downloadOptions \<Rightarrow> byte list \<Rightarrow> 's \<Rightarrow> fm_error + byte list" where
  "s3_Download cl m key d f s =
     (let key = sanitizeKey key in
      case cl of
        Inl e \<Rightarrow> Inl e
      | Inr svc \<Rightarrow>
          (case svc_get svc (s3_Bucket m) key (s3_range d) s of Inl NoSuchKey \<Rightarrow> Inl ErrKeyNotFound | r \<Rightarrow> fetched f r))"

definition gcs_Download :: "(int \<times> int, 's) client \<Rightarrow> GCSConfig \<Rightarrow> gostr \<Rightarrow> downloadOptions \<Rightarrow> byte list \<Rightarrow> 's \<Rightarrow> fm_error + byte list" where
  "gcs_Download cl m key d f s =
     (case cl of Inl e \<Rightarrow> Inl e | Inr svc \<Rightarrow> fetched f (svc_get svc (gcs_Bucket m) key (gcs_range d) s))"

definition azure_Download :: "(int \<times> int, 's) client \<Rightarrow> AzureBlobConfig \<Rightarrow> gostr \<Rightarrow> downloadOptions \<Rightarrow> byte list \<Rightarrow> 's \<Rightarrow> fm_error + byte list" where
  "azure_Download cl m key d f s =
     (case cl of Inl e \<Rightarrow> Inl e | Inr svc \<Rightarrow> fetched f (svc_get svc (az_Container m) key (Some (azure_range d)) s))"

text \<open>Where MinIO writes to a file on disk the library replaces the file.\<close>

definition minio_Download :: "(int \<times> int, 's) client \<Rightarrow> bool \<Rightarrow> MinioConfig \<Rightarrow> gostr \<Rightarrow> downloadOptions \<Rightarrow> byte list \<Rightarrow> 's \<Rightarrow> fm_error + byte list" where
  "minio_Download cl on_disk m key d f s =
     (case cl of
        Inl e \<Rightarrow> Inl e
      | Inr svc \<Rightarrow> fetched (if on_disk then [] else f) (svc_get svc (mn_Bucket m) key (minio_range d) s))"

subsection \<open>What a range asks for\<close>

text \<open>The part of a content that the options name, and what the services document of their ranges: that of HTTP, that of GCS, where
  a negative length is the rest, that of Azure, where a count of 0 is the rest, and that of MinIO, which makes a range of HTTP.\<close>

definition slice :: "downloadOptions \<Rightarrow> byte list \<Rightarrow> byte list" where
  "slice d x =
     (if \<not> isRangeRequest d then x
      else if 0 < len d then take (nat (len d)) (drop (nat (offset d)) x) else drop (nat (offset d)) x)"

definition http_range :: "gostr \<Rightarrow> byte list \<Rightarrow> byte list option" where
  "http_range h x =
     (if has_prefix (lit ''bytes='') h
      then (case split2 45 (drop 6 h) of
              None \<Rightarrow> None
            | Some (a, b) \<Rightarrow>
                if length x \<le> digits_val 0 a then None
                else Some (if b = [] then drop (digits_val 0 a) x
                           else take (digits_val 0 b + 1 - digits_val 0 a) (drop (digits_val 0 a) x)))
      else None)"

definition gcs_read :: "int \<times> int \<Rightarrow> byte list \<Rightarrow> byte list option" where
  "gcs_read r x =
     (if fst r < 0 \<or> int (length x) \<le> fst r then None
      else Some (if snd r < 0 then drop (nat (fst r)) x else take (nat (snd r)) (drop (nat (fst r)) x)))"

definition azure_read :: "int \<times> int \<Rightarrow> byte list \<Rightarrow> byte list option" where
  "azure_read r x =
     (if fst r < 0 \<or> int (length x) \<le> fst r then None
      else Some (if snd r = 0 then drop (nat (fst r)) x else take (nat (snd r)) (drop (nat (fst r)) x)))"

definition minio_read :: "int \<times> int \<Rightarrow> byte list \<Rightarrow> byte list option" where
  "minio_read r x =
     (if 0 < fst r \<and> snd r = 0 then (if int (length x) \<le> fst r then None else Some (drop (nat (fst r)) x))
      else if 0 \<le> fst r \<and> fst r \<le> snd r
      then (if int (length x) \<le> fst r then None else Some (take (nat (snd r - fst r + 1)) (drop (nat (fst r)) x)))
      else None)"

text \<open>Options as the package makes them, whose range begins within the content and ends within an int64.\<close>

definition satisfiable :: "downloadOptions \<Rightarrow> byte list \<Rightarrow> bool" where
  "satisfiable d x \<longleftrightarrow> isRangeRequest d \<and> 0 \<le> offset d \<and> offset d < int (length x) \<and> 0 \<le> len d \<and> offset d + len d < 2 ^ 63"

lemma wrap64_small: "0 \<le> i \<Longrightarrow> i < 2 ^ 63 \<Longrightarrow> wrap64 i = i"
  by (simp add: wrap64_def signed_take_bit_int_eq_self)

lemma s3_range_read: "satisfiable d x \<Longrightarrow> \<exists>h. s3_range d = Some h \<and> http_range h x = Some (slice d x)"
proof -
  assume s: "satisfiable d x"
  then have o1: "0 \<le> offset d" "offset d < int (length x)" "isRangeRequest d" by (simp_all add: satisfiable_def)
  have n: "45 \<notin> set (nat_str k)" for k using nat_str_digits[of k] by (auto simp: is_digit_def)
  have pre: "has_prefix (lit ''bytes='') (lit ''bytes='' @ y)" "drop 6 (lit ''bytes='' @ y) = y" for y
    by (simp_all add: has_prefix_append lit_def)
  have off: "int_str (offset d) = nat_str (nat (offset d))" using o1 by (simp add: int_str_def)
  show ?thesis
  proof (cases "0 < len d")
    case True
    have w: "wrap64 (offset d + len d) = offset d + len d" "wrap64 (offset d + len d - 1) = offset d + len d - 1"
      using s True by (intro wrap64_small; simp add: satisfiable_def)+
    have e: "int_str (offset d + len d - 1) = nat_str (nat (offset d + len d - 1))" using o1 True by (simp add: int_str_def)
    have k: "nat (offset d + len d - 1) + 1 - nat (offset d) = nat (len d)" using o1 True by simp
    have "s3_range d = Some (lit ''bytes='' @ nat_str (nat (offset d)) @ 45 # nat_str (nat (offset d + len d - 1)))"
      using True o1(3) by (simp add: s3_range_def w e off)
    moreover have "http_range (lit ''bytes='' @ nat_str (nat (offset d)) @ 45 # nat_str (nat (offset d + len d - 1))) x = Some (slice d x)"
      unfolding http_range_def pre split2_append[OF n] using o1 True k by (simp add: slice_def)
    ultimately show ?thesis by blast
  next
    case False
    have "s3_range d = Some (lit ''bytes='' @ nat_str (nat (offset d)) @ 45 # [])" using False o1(3) by (simp add: s3_range_def off)
    moreover have "http_range (lit ''bytes='' @ nat_str (nat (offset d)) @ 45 # []) x = Some (slice d x)"
      unfolding http_range_def pre split2_append[OF n] using o1 False by (simp add: slice_def)
    ultimately show ?thesis by blast
  qed
qed

lemma gcs_range_read: "satisfiable d x \<Longrightarrow> \<exists>r. gcs_range d = Some r \<and> gcs_read r x = Some (slice d x)"
  by (auto simp: satisfiable_def gcs_range_def gcs_read_def slice_def)

lemma azure_range_read: "satisfiable d x \<Longrightarrow> azure_read (azure_range d) x = Some (slice d x)"
  by (auto simp: satisfiable_def azure_range_def azure_read_def slice_def)

lemma azure_no_range: "x \<noteq> [] \<Longrightarrow> \<not> isRangeRequest d \<Longrightarrow> azure_read (azure_range d) x = Some (slice d x)"
  by (simp add: azure_range_def azure_read_def slice_def)

text \<open>MinIO answers the request for everything from the start with the first byte, and that for a range that begins before and
  ends at the first byte alike; every other one as asked.\<close>

lemma minio_range_read:
  assumes "satisfiable d x" "0 < offset d \<or> 0 < len d"
  shows "\<exists>r. minio_range d = Some r \<and> minio_read r x = Some (slice d x)"
proof -
  have w: "0 < len d \<Longrightarrow> wrap64 (offset d + len d) = offset d + len d" "0 < len d \<Longrightarrow> wrap64 (offset d + len d - 1) = offset d + len d - 1"
    using assms(1) by (intro wrap64_small; simp add: satisfiable_def)+
  show ?thesis
    using assms w by (auto simp: satisfiable_def minio_range_def minio_read_def slice_def)
qed

lemma minio_whole_file: "minio_range (applyDownloadOptions [WithDownloadOffSet 0]) = Some (0, 0)" "minio_read (0, 0) [1, 2] = Some [1]"
  by (simp_all add: minio_range_def applyDownloadOptions_def WithDownloadOffSet_def WithDownloadOffSetAndLength_def minio_read_def)

subsection \<open>What was uploaded can be downloaded\<close>

text \<open>What an object store documents: after a put that succeeded a get of the key gives the content, in pieces, and a get with a
  range what \<open>rd\<close> says of it.\<close>

definition store_ok :: "('g \<Rightarrow> byte list \<Rightarrow> byte list option) \<Rightarrow> ('g, 's) service \<Rightarrow> bool" where
  "store_ok rd svc \<longleftrightarrow>
     (\<forall>b k c x s loc s'. svc_put svc b k c x s = (Inr loc, s') \<longrightarrow>
        (\<exists>ps. svc_get svc b k None s' = Inr ps \<and> concat ps = x) \<and>
        (\<forall>g y. rd g x = Some y \<longrightarrow> (\<exists>ps. svc_get svc b k (Some g) s' = Inr ps \<and> concat ps = y)))"

lemma store_okD:
  assumes "store_ok rd svc" "svc_put svc b k c x s = (Inr loc, s')"
  shows "\<exists>ps. svc_get svc b k None s' = Inr ps \<and> concat ps = x"
    and "rd g x = Some y \<Longrightarrow> \<exists>ps. svc_get svc b k (Some g) s' = Inr ps \<and> concat ps = y"
  using assms unfolding store_ok_def by blast+

lemma write_pieces_eq: "write_pieces ps f = concat ps @ drop (length (concat ps)) f"
  by (simp add: write_pieces_def adapter_writes)

lemma fetched_ok: "r = Inr ps \<Longrightarrow> concat ps = y \<Longrightarrow> fetched f r = Inr (y @ drop (length y) f)"
  by (simp add: fetched_def write_pieces_eq)

lemma uploaded_Inr: "uploaded b name r = (Inr u, s') \<Longrightarrow> \<exists>loc. r = (Inr loc, s') \<and> ObjectName u = name"
  by (auto simp: uploaded_def split: prod.splits sum.splits svc_error.splits)

text \<open>The request of S3, for no range and for one that can be satisfied.\<close>

lemma s3_get_slice:
  assumes "store_ok http_range svc" "svc_put svc b k c x s = (Inr loc, s')" "isRangeRequest d \<longleftrightarrow> satisfiable d x"
  shows "\<exists>ps. svc_get svc b k (s3_range d) s' = Inr ps \<and> concat ps = slice d x"
proof (cases "isRangeRequest d")
  case True
  then obtain h where "s3_range d = Some h" "http_range h x = Some (slice d x)" using s3_range_read assms(3) by blast
  then show ?thesis using store_okD(2)[OF assms(1,2)] by simp
next
  case False
  then show ?thesis using store_okD(1)[OF assms(1,2)] by (simp add: s3_range_def slice_def)
qed


text \<open>A bucket in memory.\<close>

definition demo_service :: "(gostr, gostr \<Rightarrow> byte list option) service" where
  "demo_service =
     \<lparr>svc_put = (\<lambda>b k c x s. (Inr k, s(k \<mapsto> x))),
      svc_get = (\<lambda>b k r s. case s k of
         None \<Rightarrow> Inl NoSuchKey
       | Some x \<Rightarrow> (case r of
                     None \<Rightarrow> Inr [x]
                   | Some g \<Rightarrow> (case http_range g x of None \<Rightarrow> Inl (OtherSvc []) | Some y \<Rightarrow> Inr [y])))\<rparr>"

definition demo_manager :: "unit s3_manager" where
  "demo_manager =
     \<lparr>s3_Bucket = lit ''b'', s3_Prefix = [], s3_Region = None, s3_Endpoint = [], S3ForcePathStyle = None, DisableSSL = None,
      EnableSSE = False, RegionHint = [], session_Region = [], s3_timeout = 0, s3_client = None\<rparr>"


text \<open>Sanitizing is not idempotent: under the name that the upload returned the object may not be found.\<close>

lemma returned_name_differs:
  "sanitizeKey (lit ''/ a'') = lit '' a''" "sanitizeKey (lit '' a'') = lit ''a''"
  by (simp_all add: sanitizeKey_def TrimLeft1_def TrimSpace_def is_space_def lit_def)

text \<open>The other managers, by the same law.\<close>

lemma gcs_upload_download:
  assumes "store_ok gcs_read svc" "gcs_UploadReader (Inr svc) m objName x s = (Inr u, s')" "isRangeRequest d \<longleftrightarrow> satisfiable d x"
  shows "gcs_Download (Inr svc) m objName d f s' = Inr (slice d x @ drop (length (slice d x)) f)"
proof -
  obtain loc where p: "svc_put svc (gcs_Bucket m) objName (gcs_UploadIfNotExist m) x s = (Inr loc, s')"
    using assms(2) by (auto simp: gcs_UploadReader_def split: prod.splits sum.splits svc_error.splits)
  have "\<exists>ps. svc_get svc (gcs_Bucket m) objName (gcs_range d) s' = Inr ps \<and> concat ps = slice d x"
  proof (cases "isRangeRequest d")
    case True
    then obtain r where "gcs_range d = Some r" "gcs_read r x = Some (slice d x)" using gcs_range_read assms(3) by blast
    then show ?thesis using store_okD(2)[OF assms(1) p] by simp
  next
    case False
    then show ?thesis using store_okD(1)[OF assms(1) p] by (simp add: gcs_range_def slice_def)
  qed
  then show ?thesis using fetched_ok by (fastforce simp: gcs_Download_def)
qed

lemma azure_upload_download:
  assumes "store_ok azure_read svc" "azure_UploadReader (Inr svc) made location m objName x s = (Inr u, s')"
    and "isRangeRequest d \<longleftrightarrow> satisfiable d x" "x \<noteq> []"
  shows "azure_Download (Inr svc) m objName d f s' = Inr (slice d x @ drop (length (slice d x)) f)"
proof -
  obtain loc where p: "svc_put svc (az_Container m) objName False x s = (Inr loc, s')"
    using assms(2) by (auto simp: azure_UploadReader_def split: prod.splits sum.splits option.splits if_splits)
  have "azure_read (azure_range d) x = Some (slice d x)" using azure_range_read azure_no_range assms(3,4) by blast
  then have "\<exists>ps. svc_get svc (az_Container m) objName (Some (azure_range d)) s' = Inr ps \<and> concat ps = slice d x"
    using store_okD(2)[OF assms(1) p] by simp
  then show ?thesis using fetched_ok by (fastforce simp: azure_Download_def)
qed

lemma minio_upload_download:
  assumes "store_ok minio_read svc" "minio_UploadReader (Inr svc) exists made m objName x s = (Inr u, s')"
    and "satisfiable d x" "0 < offset d \<or> 0 < len d"
  shows "minio_Download (Inr svc) False m objName d f s' = Inr (slice d x @ drop (length (slice d x)) f)"
proof -
  obtain loc where p: "svc_put svc (mn_Bucket m) objName False x s = (Inr loc, s')"
    using assms(2) by (auto simp: minio_UploadReader_def split: prod.splits sum.splits option.splits if_splits)
  obtain r where "minio_range d = Some r" "minio_read r x = Some (slice d x)" using minio_range_read[OF assms(3,4)] by blast
  then have "\<exists>ps. svc_get svc (mn_Bucket m) objName (minio_range d) s' = Inr ps \<and> concat ps = slice d x"
    using store_okD(2)[OF assms(1) p] by simp
  then show ?thesis using fetched_ok by (fastforce simp: minio_Download_def)
qed

text \<open>MinIO's location gives the name back, whatever was uploaded.\<close>

lemma minio_location:
  assumes "minio_UploadReader cl exists made m objName x s = (Inr u, s')"
  shows "minio_object (mn_UseSSL m) (mn_EndPoint m) (mn_Bucket m) (Location u) = Some (ObjectName u)"
  using assms by (auto simp: minio_UploadReader_def minio_roundtrip split: prod.splits sum.splits option.splits if_splits)


subsection \<open>List sessions of DigitalOcean and MinIO\<close>

text \<open>DigitalOcean reads the flag of the response through its pointer, also where it is nil: the panic is the outer \<open>None\<close>.\<close>

definition do_Next :: "fm_error option \<Rightarrow>
    (gostr \<Rightarrow> int \<Rightarrow> 't option \<Rightarrow> gostr option \<Rightarrow> fm_error + gostr list \<times> bool option \<times> 't option) \<Rightarrow> 't s3ListSession \<Rightarrow>
    ((fm_error + gostr list) \<times> 't s3ListSession) option" where
  "do_Next client_err list_objects l =
     (if \<not> isTruncated l then Some (Inr [], l)
      else (case client_err of
              Some e \<Rightarrow> Some (Inl e, l)
            | None \<Rightarrow>
                (case list_objects (prefix l) (signed_take_bit 31 (maxItems l)) (continuationToken l)
                        (if startAfter l \<noteq> [] then Some (startAfter l) else None) of
                   Inl e \<Rightarrow> Some (Inl e, l)
                 | Inr (contents, None, token) \<Rightarrow> None
                 | Inr (contents, Some truncated, token) \<Rightarrow>
                     Some (Inr contents, l\<lparr>isTruncated := truncated, continuationToken := token\<rparr>))))"

lemma do_Next_panics: "isTruncated l \<Longrightarrow> do_Next None (\<lambda>_ _ _ _. Inr (ks, None, t)) l = None"
  by (simp add: do_Next_def)

text \<open>MinIO's token is a string, empty at the start.\<close>

definition minio_Next :: "fm_error option \<Rightarrow> (gostr \<Rightarrow> gostr \<Rightarrow> gostr \<Rightarrow> int \<Rightarrow> fm_error + gostr list \<times> bool \<times> gostr) \<Rightarrow>
    gostr s3ListSession \<Rightarrow> (fm_error + gostr list) \<times> gostr s3ListSession" where
  "minio_Next client_err list_objects l =
     (if \<not> isTruncated l then (Inr [], l)
      else (case client_err of
              Some e \<Rightarrow> (Inl e, l)
            | None \<Rightarrow>
                (case list_objects (prefix l) (startAfter l) (case continuationToken l of None \<Rightarrow> [] | Some t \<Rightarrow> t) (maxItems l) of
                   Inl e \<Rightarrow> (Inl e, l)
                 | Inr (contents, truncated, token) \<Rightarrow>
                     (Inr contents, l\<lparr>isTruncated := truncated, continuationToken := Some token\<rparr>))))"

text \<open>The client of MinIO is made once, and a failure is remembered: later calls fail with the same error.\<close>

record 'c once_client =
  once_done :: bool
  once_result :: "fm_error + 'c"

definition minio_getClient :: "(unit \<Rightarrow> fm_error + 'c) \<Rightarrow> 'c once_client \<Rightarrow> (fm_error + 'c) \<times> 'c once_client" where
  "minio_getClient create o1 =
     (if once_done o1 then (once_result o1, o1) else (create (), \<lparr>once_done = True, once_result = create ()\<rparr>))"

lemma minio_error_stays:
  "minio_getClient create o1 = (r, o2) \<Longrightarrow> minio_getClient create' o2 = (r, o2)"
  by (auto simp: minio_getClient_def split: if_splits)

subsection \<open>Configurations of AWS\<close>

text \<open>The HTTP client: idle connections in all and per host, and the timeout (0 is none).\<close>

record http_settings =
  MaxIdleConns :: int
  MaxIdleConnsPerHost :: int
  http_Timeout :: int

definition configureHTTPClient :: "int \<Rightarrow> int option \<Rightarrow> http_settings" where
  "configureHTTPClient perHost timeout =
     \<lparr>MaxIdleConns = (if 0 < perHost \<and> 100 < perHost then perHost else 100), MaxIdleConnsPerHost = perHost,
      http_Timeout = (case timeout of Some t \<Rightarrow> t | None \<Rightarrow> 0)\<rparr>"

text \<open>What the default configuration is loaded with, and the profile where one is named; \<open>load\<close> is the library.\<close>

record aws_settings =
  aws_Region :: gostr
  aws_http :: http_settings
  aws_creds :: aws_credentials
  aws_profile :: "gostr option"

definition CreateAWSConfig :: "(aws_settings \<Rightarrow> gostr option) \<Rightarrow> (SessionConfig \<times> gostr \<times> gostr \<times> int \<times> int option) option \<Rightarrow>
    gostr + aws_settings" where
  "CreateAWSConfig load c =
     (case c of
        None \<Rightarrow> Inl (lit ''awsutil: SessionConfig cannot be nil'')
      | Some (s, region, profile, perHost, timeout) \<Rightarrow>
          (case aws_credentials_of s of
             Inl e \<Rightarrow> Inl (lit ''awsutil: failed to create credentials for role: '' @ e)
           | Inr cr \<Rightarrow>
               let a = \<lparr>aws_Region = region, aws_http = configureHTTPClient perHost timeout, aws_creds = cr,
                        aws_profile = (if profile = [] then None else Some profile)\<rparr>
               in (case load a of Some e \<Rightarrow> Inl (lit ''awsutil: failed to load AWS config: '' @ e) | None \<Rightarrow> Inr a)))"

lemma idle_conns_fit: "MaxIdleConnsPerHost (configureHTTPClient k t) \<le> MaxIdleConns (configureHTTPClient k t)"
  by (auto simp: configureHTTPClient_def)


subsection \<open>Selections of S3\<close>

text \<open>What the stream brings while its goroutine listens; the end of the context is an event too.\<close>

datatype select_event = Records "byte list" | EndEvent | OtherEvent | ContextDone gostr

datatype select_result = SelectData "byte list" | SelectError gostr

fun select_loop :: "select_event list \<Rightarrow> select_result list \<times> bool" where
  "select_loop [] = ([], False)"
| "select_loop (Records p # es) = apfst ((#) (SelectData p)) (select_loop es)"
| "select_loop (EndEvent # es) = ([], False)"
| "select_loop (OtherEvent # es) = select_loop es"
| "select_loop (ContextDone e # es) = ([SelectError e], True)"

text \<open>The results that are sent, in order: the client, the formats and the request may fail; an error of the stream is sent last,
  unless the context is done.\<close>

definition SelectObjects :: "gostr option \<Rightarrow> gostr \<Rightarrow> gostr \<Rightarrow> gostr + select_event list \<Rightarrow> gostr option \<Rightarrow> select_result list" where
  "SelectObjects client_err inputFormat outputFormat requested stream_err =
     (case client_err of
        Some e \<Rightarrow> [SelectError (lit ''selecting objects: '' @ e)]
      | None \<Rightarrow>
          (case createS3SelectSerializationV2 inputFormat outputFormat of
             Inl e \<Rightarrow> [SelectError (lit ''error extracting input/output serialization: '' @ e)]
           | Inr _ \<Rightarrow>
               (case requested of
                  Inl e \<Rightarrow> [SelectError (lit ''selecting object: '' @ e)]
                | Inr events \<Rightarrow>
                    (case select_loop events of (out, ended) \<Rightarrow>
                       out @ (case stream_err of Some e \<Rightarrow> if ended then [] else [SelectError e] | None \<Rightarrow> [])))))"

text \<open>The data come first and one error at most comes last.\<close>

lemma select_loop_shape:
  "\<exists>ds err. fst (select_loop es) = map SelectData ds @ map SelectError err \<and> length err \<le> 1 \<and> (snd (select_loop es) \<longleftrightarrow> err \<noteq> [])"
proof (induction es rule: select_loop.induct)
  case (2 p es)
  then obtain ds err where "fst (select_loop es) = map SelectData ds @ map SelectError err" "length err \<le> 1"
    "snd (select_loop es) \<longleftrightarrow> err \<noteq> []" by blast
  then show ?case by (intro exI[of _ "p # ds"] exI[of _ err]) (cases "select_loop es", simp)
next
  case (5 e es)
  show ?case by (intro exI[of _ "[]"] exI[of _ "[e]"]) simp
qed (auto intro: exI[of _ "[]"])

lemma SelectObjects_shape:
  "\<exists>ds err. SelectObjects c i f rq se = map SelectData ds @ map SelectError err \<and> length err \<le> 1"
proof -
  have one: "\<exists>ds err. [SelectError e] = map SelectData ds @ map SelectError err \<and> length err \<le> 1" for e
    by (intro exI[of _ "[]"] exI[of _ "[e]"]) simp
  have loop: "\<exists>ds err. fst (select_loop es) @ (case se of Some e \<Rightarrow> if snd (select_loop es) then [] else [SelectError e] | None \<Rightarrow> []) =
      map SelectData ds @ map SelectError err \<and> length err \<le> 1" for es
  proof -
    obtain ds err where d: "fst (select_loop es) = map SelectData ds @ map SelectError err" "length err \<le> 1"
      "snd (select_loop es) \<longleftrightarrow> err \<noteq> []" using select_loop_shape by blast
    show ?thesis
    proof (cases "err = []")
      case True
      then show ?thesis using d by (intro exI[of _ ds] exI[of _ "case se of Some e \<Rightarrow> [e] | None \<Rightarrow> []"]) (simp split: option.split)
    next
      case False
      then show ?thesis using d by (intro exI[of _ ds] exI[of _ err]) (simp split: option.split)
    qed
  qed
  show ?thesis
    using one loop by (auto simp: SelectObjects_def split_beta split: option.split sum.split)
qed

end
