(* ===== verification/Storage_Keys.thy ===== *)
theory Storage_Keys
  imports Storage_Ops Http_Kit
begin

text \<open>
  The rest of the file managers (\<open>filemanager\<close>): their construction, the start of their list sessions, the keys that are
  read from locations, errors included, and the client of GCS. The parser of URLs (host and path, or its error) and what makes a
  client are parameters. A call that panics is \<open>None\<close>.
\<close>

subsection \<open>Keys from locations\<close>

type_synonym url_parser = "gostr \<Rightarrow> gostr + gostr \<times> gostr"

definition s3_GetObjectNameFromLocation :: "url_parser \<Rightarrow> 'c s3_manager \<Rightarrow> gostr \<Rightarrow> gostr + gostr" where
  "s3_GetObjectNameFromLocation parse m location =
     (case parse location of
        Inl e \<Rightarrow> Inl e
      | Inr (host, upath) \<Rightarrow> Inr (s3_object (ToBool (S3ForcePathStyle m)) (s3_Bucket m) host upath))"

definition s3_GetDownloadKeyFromFileLocation :: "url_parser \<Rightarrow> 'c s3_manager \<Rightarrow> gostr \<Rightarrow> gostr" where
  "s3_GetDownloadKeyFromFileLocation parse m location =
     (case parse location of
        Inl e \<Rightarrow> []
      | Inr (host, upath) \<Rightarrow> s3_object (ToBool (S3ForcePathStyle m)) (s3_Bucket m) host upath)"

definition do_GetObjectNameFromLocation :: "url_parser \<Rightarrow> 'c s3_manager \<Rightarrow> gostr \<Rightarrow> gostr + gostr" where
  "do_GetObjectNameFromLocation parse m location =
     (case parse location of
        Inl e \<Rightarrow> Inl (lit ''failed to parse location URL: '' @ e)
      | Inr (host, upath) \<Rightarrow>
          (let trimmed = TrimLeft1 47 upath
           in Inr (if ToBool (S3ForcePathStyle m) \<or> \<not> Contains host (s3_Bucket m)
                   then TrimPrefix trimmed (s3_Bucket m @ [47]) else trimmed)))"

definition do_GetDownloadKeyFromFileLocation :: "url_parser \<Rightarrow> 'c s3_manager \<Rightarrow> gostr \<Rightarrow> gostr" where
  "do_GetDownloadKeyFromFileLocation parse m location =
     (case parse location of
        Inl e \<Rightarrow> []
      | Inr (host, upath) \<Rightarrow>
          (let trimmed = TrimLeft1 47 upath
           in if ToBool (S3ForcePathStyle m) \<or> \<not> Contains host (s3_Bucket m)
              then TrimPrefix trimmed (s3_Bucket m @ [47]) else trimmed))"

definition gcs_GetDownloadKeyFromFileLocation :: "GCSConfig \<Rightarrow> gostr \<Rightarrow> gostr" where
  "gcs_GetDownloadKeyFromFileLocation g location = TrimLeft1 47 (after_last (gcs_Bucket g) location [])"

definition azure_GetDownloadKeyFromFileLocation :: "AzureBlobConfig \<Rightarrow> gostr \<Rightarrow> gostr" where
  "azure_GetDownloadKeyFromFileLocation a location = after_last (az_Container a @ [47]) location []"

text \<open>MinIO prints the error of the parser and goes on with the URL that it did not get.\<close>

definition minio_GetDownloadKeyFromFileLocation :: "url_parser \<Rightarrow> MinioConfig \<Rightarrow> gostr \<Rightarrow> gostr option" where
  "minio_GetDownloadKeyFromFileLocation parse m location =
     (case parse location of
        Inl e \<Rightarrow> None
      | Inr (host, upath) \<Rightarrow> Some (TrimPrefix (TrimLeft1 47 upath) (mn_Bucket m @ [47])))"

text \<open>Where the location parses, the object name and the key of a download agree.\<close>

lemma names_agree:
  "s3_GetObjectNameFromLocation parse m location = Inr k \<Longrightarrow> s3_GetDownloadKeyFromFileLocation parse m location = k"
  "do_GetObjectNameFromLocation parse m location = Inr k \<Longrightarrow> do_GetDownloadKeyFromFileLocation parse m location = k"
  by (auto simp: s3_GetObjectNameFromLocation_def s3_GetDownloadKeyFromFileLocation_def do_GetObjectNameFromLocation_def
      do_GetDownloadKeyFromFileLocation_def Let_def split: sum.splits)

lemma gcs_azure_agree:
  "gcs_GetDownloadKeyFromFileLocation g location = gcs_object (gcs_Bucket g) location"
  "azure_GetDownloadKeyFromFileLocation a location = azure_object (az_Container a) location"
  by (simp_all add: gcs_GetDownloadKeyFromFileLocation_def gcs_object_def azure_GetDownloadKeyFromFileLocation_def azure_object_def)

text \<open>S3 and DigitalOcean read locations alike; they differ in the text of the error only.\<close>

lemma do_like_s3:
  "do_GetDownloadKeyFromFileLocation parse m location = s3_GetDownloadKeyFromFileLocation parse m location"
  "map_sum (\<lambda>_. ()) id (do_GetObjectNameFromLocation parse m location) = map_sum (\<lambda>_. ()) id (s3_GetObjectNameFromLocation parse m location)"
  by (auto simp: s3_GetDownloadKeyFromFileLocation_def do_GetDownloadKeyFromFileLocation_def s3_object_def Let_def
      s3_GetObjectNameFromLocation_def do_GetObjectNameFromLocation_def split: sum.splits)

lemma minio_key_panics:
  "minio_GetDownloadKeyFromFileLocation parse m location = None \<longleftrightarrow> (\<exists>e. parse location = Inl e)"
  by (auto simp: minio_GetDownloadKeyFromFileLocation_def split: sum.splits)

text \<open>The key that an upload put comes back from its location, in both styles.\<close>

lemma s3_upload_key_back:
  assumes "s3_upload_key objName = Some key" "key \<noteq> []" "s3_Bucket m \<noteq> []" "hd (s3_Bucket m) \<noteq> 47"
    and "parse location = Inr (host, (if ToBool (S3ForcePathStyle m) \<or> \<not> Contains host (s3_Bucket m) then [47] @ s3_Bucket m @ [47] @ key
           else [47] @ key))"
  shows "s3_GetDownloadKeyFromFileLocation parse m location = key"
proof (cases "ToBool (S3ForcePathStyle m) \<or> \<not> Contains host (s3_Bucket m)")
  case True
  then show ?thesis using assms s3_object_key(2)[OF assms(1,2), of "s3_Bucket m" "ToBool (S3ForcePathStyle m)" host]
    by (simp add: s3_GetDownloadKeyFromFileLocation_def)
next
  case False
  then show ?thesis using assms s3_object_key(1)[OF assms(1,2), of host "s3_Bucket m"]
    by (simp add: s3_GetDownloadKeyFromFileLocation_def)
qed

lemma minio_upload_key_back:
  assumes "parse location = Inr (host, [47] @ mn_Bucket m @ [47] @ key)" "mn_Bucket m \<noteq> []" "hd (mn_Bucket m) \<noteq> 47"
  shows "minio_GetDownloadKeyFromFileLocation parse m location = Some key"
proof -
  have "dropWhile (\<lambda>r. r = 47) (mn_Bucket m @ 47 # key) = mn_Bucket m @ 47 # key"
    using assms by (cases "mn_Bucket m") auto
  then show ?thesis using assms TrimPrefix_append[of "mn_Bucket m @ [47]" key]
    by (simp add: minio_GetDownloadKeyFromFileLocation_def TrimLeft1_def)
qed

subsection \<open>List sessions\<close>

text \<open>S3 trims the prefix, the others take it as it is.\<close>

definition do_ListFilesWithPrefix :: "gostr \<Rightarrow> gostr \<Rightarrow> int \<Rightarrow> 't s3ListSession" where
  "do_ListFilesWithPrefix sa pre n =
     \<lparr>startAfter = sa, prefix = pre, maxItems = n, continuationToken = None, isTruncated = True\<rparr>"

definition minio_ListFilesWithPrefix :: "gostr \<Rightarrow> gostr \<Rightarrow> int \<Rightarrow> gostr s3ListSession" where
  "minio_ListFilesWithPrefix sa pre n =
     \<lparr>startAfter = sa, prefix = pre, maxItems = n, continuationToken = None, isTruncated = True\<rparr>"

text \<open>The sessions of Azure and GCS: the base session with a marker or an iterator that is not set yet.\<close>

record 'i baseListSession =
  b_startAfter :: gostr
  b_prefix :: gostr
  b_maxItems :: int
  b_position :: "'i option"

definition azure_ListFilesWithPrefix :: "gostr \<Rightarrow> gostr \<Rightarrow> int \<Rightarrow> 'i baseListSession" where
  "azure_ListFilesWithPrefix sa pre n = \<lparr>b_startAfter = sa, b_prefix = pre, b_maxItems = n, b_position = None\<rparr>"

definition gcs_ListFilesWithPrefix :: "gostr \<Rightarrow> gostr \<Rightarrow> int \<Rightarrow> 'i baseListSession" where
  "gcs_ListFilesWithPrefix sa pre n = \<lparr>b_startAfter = sa, b_prefix = pre, b_maxItems = n, b_position = None\<rparr>"

lemma prefix_slash:
  "prefix (ListFilesWithPrefix sa (lit ''/a'') n) = lit ''a'' \<and> prefix (do_ListFilesWithPrefix sa (lit ''/a'') n) = lit ''/a''"
  by (simp add: ListFilesWithPrefix_def do_ListFilesWithPrefix_def sanitizeKey_def TrimLeft1_def TrimSpace_def is_space_def lit_def)


subsection \<open>The client of GCS\<close>

datatype client_option = WithTelemetryDisabled | WithEndpoint gostr | WithCredentialsJSON gostr | WithJSONReads

record 'c gcs_manager =
  gcs_config :: GCSConfig
  gcs_client :: "'c option"

definition NewGCSManager :: "cfgmap \<Rightarrow> 'c gcs_manager" where
  "NewGCSManager m = \<lparr>gcs_config = gcsConfig m, gcs_client = None\<rparr>"

definition endpoint_option :: "GCSConfig \<Rightarrow> client_option list" where
  "endpoint_option g =
     (case gcs_EndPoint g of Some e \<Rightarrow> if e \<noteq> [] then [WithEndpoint e] else [] | None \<Rightarrow> [])"

text \<open>The options of the client, or why the credentials are refused; whether credentials are needed is read from the
  configuration.\<close>

definition gcs_options ::
  "golib \<Rightarrow> (gostr \<Rightarrow> bool) \<Rightarrow> GCSConfig \<Rightarrow> config \<Rightarrow> (gostr + client_option list) \<times> config" where
  "gcs_options L client_json g c =
     (let start = WithTelemetryDisabled # endpoint_option g;
          reads = (if gcs_JSONReads g then [WithJSONReads] else []);
          (skip, c1) = ShouldSkipCredentialsInit L (gcs_Credentials g) c
      in if skip then (Inr (start @ reads), c1)
         else case CompatibleGoogleCredentialsJSON client_json (gcs_Credentials g) of
                Some e \<Rightarrow> (Inl e, c1)
              | None \<Rightarrow> (Inr (start @ [WithCredentialsJSON (gcs_Credentials g)] @ reads), c1))"

definition gcs_getClient ::
  "golib \<Rightarrow> (gostr \<Rightarrow> bool) \<Rightarrow> (client_option list \<Rightarrow> gostr + 'c) \<Rightarrow> 'c gcs_manager \<Rightarrow> config \<Rightarrow>
   (gostr + 'c) \<times> 'c gcs_manager \<times> config" where
  "gcs_getClient L client_json create m c =
     (case gcs_client m of
        Some cl \<Rightarrow> (Inr cl, m, c)
      | None \<Rightarrow>
          (case gcs_options L client_json (gcs_config m) c of
             (Inl e, c1) \<Rightarrow> (Inl e, m, c1)
           | (Inr opts, c1) \<Rightarrow>
               (case create opts of
                  Inl e \<Rightarrow> (Inl e, m\<lparr>gcs_client := None\<rparr>, c1)
                | Inr cl \<Rightarrow> (Inr cl, m\<lparr>gcs_client := Some cl\<rparr>, c1))))"

text \<open>A client is kept, a failure is not: the next call tries again.\<close>

lemma gcs_client_kept:
  "gcs_getClient L cj create m c = (Inr cl, m', c') \<Longrightarrow> gcs_getClient L' cj' create' m' c'' = (Inr cl, m', c'')"
  by (auto simp: gcs_getClient_def split: option.splits prod.splits sum.splits)

lemma gcs_failure_forgotten:
  "gcs_getClient L cj create m c = (Inl e, m', c') \<Longrightarrow> gcs_client m' = None \<and> gcs_config m' = gcs_config m"
  by (auto simp: gcs_getClient_def split: option.splits prod.splits sum.splits)

text \<open>A client always gets the credentials, except on a cluster with an identity of its own and none in the settings.\<close>

lemma gcs_credentials:
  "gcs_options L cj g c = (Inr opts, c') \<Longrightarrow>
   WithCredentialsJSON k \<in> set opts \<longleftrightarrow> k = gcs_Credentials g \<and> \<not> fst (ShouldSkipCredentialsInit L (gcs_Credentials g) c)"
  by (auto simp: gcs_options_def endpoint_option_def Let_def split: prod.splits option.splits if_splits)

subsection \<open>The other constructors\<close>

definition NewAzureBlobManager :: "cfgmap \<Rightarrow> AzureBlobConfig" where
  "NewAzureBlobManager m = azureBlobConfig m"

definition NewMinioManager :: "cfgmap \<Rightarrow> MinioConfig" where
  "NewMinioManager m = minioConfig m"

text \<open>The location of a blob: the address, without the parameters of a token where one is used (\<open>nosig\<close>).\<close>

definition blobLocation :: "(gostr \<Rightarrow> gostr) \<Rightarrow> AzureBlobConfig \<Rightarrow> gostr \<Rightarrow> gostr" where
  "blobLocation nosig a url = (if az_UseSASTokens a then nosig url else url)"


text \<open>The timeout of the other managers: the one set where it is positive, else the default they were made with, else the
  default of the package.\<close>

definition base_getTimeout :: "64 word \<Rightarrow> ('c \<Rightarrow> 64 word \<times> 'c) option \<Rightarrow> 'c \<Rightarrow> 64 word \<times> 'c" where
  "base_getTimeout timeout made_with c =
     (if 0 <s timeout then (timeout, c) else case made_with of Some f \<Rightarrow> f c | None \<Rightarrow> (120 * second, c))"

end
