(* ===== verification/Spec2Isabelle.thy ===== *)
theory Spec2Isabelle
  imports Kit_Prelude Trie_Kit PQueue Limiter Cachettl Resourcettl Config Logger Partmap Throttling Gcra_Script Metric Iab Plocker Etcdwatcher Memory Codec Text_Utils Eager_Group Stats_Kit Json_Kit Promexport Prom_Collect Filestore Cdoc_Scan Cdoc_Render Cdoc_Engine Cdoc_Importer Http_Kit Service_Kit Runtime_Stats Otel_Kit Remote_Clients Net_Kit Small_Kit Proc_Kit Httptest Limiter_Exec Mem_Store Log_Factory Rand_Kit Docker_Kit Rudo_Acker Json_Switch Storage_Ops Storage_Keys
begin

text \<open>
  The core of rudder-go-kit, a library of building blocks for Go services: caches, queues, locks,
  configuration, logging, rate limits, statistics, watchers and codecs. The packages are used side
  by side; where one calls another, its theory imports the other's.

  \<^bold>\<open>How the program is modelled.\<close> A struct is a record, an enumeration a datatype or its integer, an
  operation a function from the old state to the result and the new state. A pointer structure
  (the ring of \<open>cachettl\<close>, the items of \<open>queue\<close>) is a store of nodes named by address. An error is the
  left side of a sum, a panic or nil dereference \<open>None\<close> or a constructor of its own. Time is an
  argument: an operation that reads the clock several times takes each reading. Code under a mutex
  is one step; where goroutines interleave, the steps are an inductive relation and the theorems are
  about every reachable state. Integers are words where the code wraps or shifts, and integers where
  it cannot overflow or where the wrap is written out (\<open>wrap64\<close>). Third-party packages, the operating
  system and servers are arguments of the definitions; what is required of them stands as a hypothesis
  in the theorem that needs it.

  \<^bold>\<open>Theories, in the order of their dependence.\<close>
  \<^item> \<open>Kit_Prelude\<close>: Go's basic types, results, decimal numbers, splitting and trimming of strings.
  \<^item> \<open>Trie_Kit\<close> (\<open>trie\<close>): insertion and prefix search; the shortest stored prefix is found.
  \<^item> \<open>PQueue\<close> (\<open>queue\<close>, with the \<open>container/heap\<close> operations it is driven by): heap order and the
    back indices of the items are an invariant; a locale states what a client may rely on.
  \<^item> \<open>Limiter\<close> (\<open>sync/limiter.go\<close>, on \<open>PQueue\<close>): critical sections and goroutines as a step relation;
    bound on the holders, no idle slot while someone waits, hand-off to the best waiter.
  \<^item> \<open>Limiter_Exec\<close> (the same file, on \<open>Limiter\<close> and \<open>Stats_Kit\<close>): options, gauges, and the times of an execution, which add
    up to its duration.
  \<^item> \<open>Cachettl\<close> (\<open>cachettl\<close>): the ring in a store refines a list of entries sorted by expiration; a
    locale states the contract its user relies on.
  \<^item> \<open>Resourcettl\<close> (\<open>resourcettl\<close>, on \<open>Cachettl\<close>): checkouts, invalidation and clean-up; nothing is cleaned
    up while checked out, or twice, in any reachable state.
  \<^item> \<open>Config_Types\<close>, \<open>Config\<close> (\<open>config\<close>): keys, values, environment names, observers; getters, reloadable
    values, change detection. After a change every reloadable value is what a fresh read gives, and
    the observers are told exactly the changed keys.
  \<^item> \<open>Logger\<close> (\<open>logger\<close>): the level of a module is inherited, cached and changed at run time; what is
    written is decided by the current level. Parsing of module levels; fields.
  \<^item> \<open>Log_Factory\<close> (\<open>logger/factory.go\<close>, on \<open>Logger\<close> and \<open>Config\<close>): the outputs a logger is given.
  \<^item> \<open>Partmap\<close> (\<open>partmap\<close>): encodings of partition mappings, ranges, and the hash partitioner.
  \<^item> \<open>Throttling\<close> (\<open>throttling\<close>, with \<open>lua/sortedset.lua\<close>): dispatch, cached limiters, the sliding window.
  \<^item> \<open>Gcra_Script\<close> (\<open>throttling/lua/gcra.lua\<close>, on \<open>Throttling\<close>): the cell rate script over the reals, what it grants in a
    window, and when a refused call may be retried.
  \<^item> \<open>Metric\<close> (\<open>stats/metric\<close>): rings of observations, averages, percentiles, the registry and its index.
  \<^item> \<open>Iab\<close> (\<open>iabparser\<close>): the line format of the blacklists and whitelists.
  \<^item> \<open>Plocker\<close> (\<open>sync/plocker.go\<close>, \<open>sync/prwlocker.go\<close>): locks per partition with counted entries.
  \<^item> \<open>Etcdwatcher\<close> (\<open>etcdwatcher\<close>, \<open>async/single_sender.go\<close>): load, watch, filters, once mode, errors.
  \<^item> \<open>Memory\<close> (\<open>mem\<close>): cgroup files of both versions, statistics, the limit from a percentage.
  \<^item> \<open>Codec\<close> (\<open>compress\<close>, \<open>encrypt\<close>): settings strings, timeouts, AES-GCM framing.
  \<^item> \<open>Text_Utils\<close> (\<open>lcs\<close>, \<open>utf8\<close>, \<open>maputil\<close>, \<open>ro\<close>): similarity, repair of UTF-8, maps, memoization.
  \<^item> \<open>Eager_Group\<close> (\<open>sync/eagergroup.go\<close>, \<open>sync/once_every.go\<close>, \<open>sync/timeout.go\<close>): the group's goroutines as
    steps; bound, result of \<open>Wait\<close>, cancellation.
  \<^item> \<open>Stats_Kit\<close> (\<open>stats\<close>, \<open>stats/memstats\<close>): tags, the statsd clients and their late connection, the identity of an
    OpenTelemetry measurement, the in-memory store.
  \<^item> \<open>Mem_Store\<close> (\<open>stats/memstats\<close>, on \<open>Stats_Kit\<close>): its options, readings, collectors, and the spans read back.
  \<^item> \<open>Json_Kit\<close> (\<open>jsonparser\<close>): paths, getters and setters of both implementations, the strings that are set.
  \<^item> \<open>Json_Switch\<close> (\<open>jsonparser\<close>, on \<open>Json_Kit\<close> and \<open>Config\<close>): both implementations behind the interface, as locales what it
    documents, and the parser that follows the configuration.
  \<^item> \<open>Promexport\<close> (\<open>stats/internal/otel/prometheus\<close>, on \<open>Stats_Kit\<close> and \<open>Text_Utils\<close>): names, labels, families, and the
    conversion of exponential histograms.
  \<^item> \<open>Prom_Collect\<close> (the same package, on \<open>Promexport\<close>): the options, and what a collection sends; all metrics of a name have one
    type over all collections.
  \<^item> \<open>Filestore\<close> (\<open>filemanager\<close>, \<open>awsutil\<close>, on \<open>Config\<close>): list sessions behind one iterator, keys and locations of objects,
    ranges, batches of deletions, settings from the environment.
  \<^item> \<open>Storage_Ops\<close> (\<open>filemanager\<close>, \<open>awsutil\<close>, on \<open>Filestore\<close>): clients, uploads, downloads and selections; what was uploaded
    comes back, whole or in part.
  \<^item> \<open>Storage_Keys\<close> (\<open>filemanager\<close>, on \<open>Storage_Ops\<close> and \<open>Http_Kit\<close>): construction, the start of listings, the keys read
    from locations with their errors, and the client of GCS, kept once it could be made.
  \<^item> \<open>Cdoc_Scan\<close>, \<open>Cdoc_Render\<close>, \<open>Cdoc_Engine\<close> (\<open>cmd/cdoc\<close>, on \<open>Config_Types\<close> and \<open>Json_Kit\<close>): the tool that documents the
    configuration: directives and calls of a syntax tree, entries, merging, the document, and a run with its warnings.
  \<^item> \<open>Cdoc_Importer\<close> (\<open>types_importer.go\<close> and \<open>main.go\<close> of \<open>cmd/cdoc\<close>): the importer with its cache, which gives every
    path one answer and never fails, every object of the stand-in for \<open>config\<close>, and the command line.
  \<^item> \<open>Http_Kit\<close> (\<open>retryablehttp\<close>, \<open>httputil\<close>, \<open>chiware\<close>, \<open>requesttojson\<close>, \<open>googleutil\<close>, on \<open>Config\<close>): the attempts of a
    request, clients and their settings, the end of a server, what a middleware records.
  \<^item> \<open>Service_Kit\<close> (\<open>retryablehttp\<close>, \<open>chiware\<close>, \<open>sqlutil\<close>, \<open>tcpproxy\<close>, on \<open>Http_Kit\<close>): the construction of a retrying client, the
    gauge of open requests, the monitor of a database, and the proxy as a step relation: once it has stopped everything is
    closed and its counters are the bytes that arrived.
  \<^item> \<open>Runtime_Stats\<close> (\<open>stats/periodic.go\<close>, \<open>stats/collectors.go\<close>, \<open>stats/collectors\<close>, on \<open>Metric\<close> and \<open>Stats_Kit\<close>): collection
    in the background; a locale states what a collector promises, and all gauges are zero after a run.
  \<^item> \<open>Otel_Kit\<close> (\<open>stats/otel.go\<close>, \<open>stats/options.go\<close>, \<open>stats/traces.go\<close>, \<open>stats/internal/otel\<close>, on \<open>Config\<close> and
    \<open>Runtime_Stats\<close>): options, set-up of the providers, the start, and which provider a measurement reaches.
  \<^item> \<open>Remote_Clients\<close> (\<open>kafkaclient\<close>, \<open>sftp\<close>): settings, messages, temporary errors, file transfers and their retry.
  \<^item> \<open>Net_Kit\<close> (\<open>netutil\<close>): lists of networks, with the parsing of addresses and networks that they rest on.
  \<^item> \<open>Small_Kit\<close> (\<open>sanitize\<close>, \<open>context\<close>, \<open>uuid\<close>, \<open>bytesize\<close>, \<open>stringify\<close>, \<open>sqlutil\<close>, on \<open>Text_Utils\<close>): invisible characters,
    contexts that end with another or with a signal, identifiers, tables.
  \<^item> \<open>Proc_Kit\<close> (\<open>maxprocs\<close>, \<open>jsonrs\<close>, on \<open>Config\<close>): the number of processors and its bounds, the choice of the JSON library.
  \<^item> \<open>Httptest\<close> (\<open>testhelper/httptest\<close>): the test server and the connections it waits for.
  \<^item> \<open>Rand_Kit\<close> (\<open>testhelper/rand\<close>, \<open>testhelper/freeport.go\<close>): random strings against the letters their draws hold; unique values.
  \<^item> \<open>Docker_Kit\<close> (\<open>testhelper/docker\<close>, on \<open>Rand_Kit\<close>): options and set-ups of containers; each one started has its clean-up.
  \<^item> \<open>Rudo_Acker\<close> (\<open>testhelper/rudoacker\<close>, on \<open>Etcdwatcher\<close>): what the ackers write for the requests their watchers bring.

  \<^bold>\<open>What the lemmas show.\<close> Each theory proves a well-formedness invariant of its state and that the
  operations keep it (\<open>pq_inv\<close>, \<open>linv\<close>, \<open>ttl_inv\<close>, \<open>rinv\<close>, \<open>config_wf\<close>, \<open>cache_ok\<close>, \<open>table_ok\<close> and so
  on), then the behaviour of the operations under it. Refinements go from stores to lists
  (\<open>Cachettl\<close>) and from messages to the state of the server (\<open>Etcdwatcher\<close>). Round trips are proved
  for every printed form that is read back.

  \<^bold>\<open>Bounds and fuel.\<close> The loops of the code are structural recursion, folds over index ranges, or
  functions with a termination proof; the loops over the ring of \<open>Cachettl\<close> are partial functions whose
  result \<open>None\<close> (no return) is excluded by theorems. Nothing runs on fuel.

  \<^bold>\<open>Not modelled.\<close> The clients of services themselves (the storage, Kafka, SFTP, Google, Docker and database
  packages), which are arguments where their callers are modelled; the remaining packages of \<open>testhelper\<close> only
  wrap them. What happens inside the providers and readers of OpenTelemetry, the Go parser, type checker and printer. Mocks and
  examples. Within the modelled parts: rounding of floating point numbers, memory effects of
  unsynchronised accesses, and the goroutine scheduler beyond the interleaving of atomic steps.
\<close>

end
